(* ===== verification/Firmware_Prelude.thy ===== *)
theory Firmware_Prelude
  imports Main "HOL-Library.Word"
begin

text \<open>
  Shared vocabulary of the development: the C integer types of the firmware as machine
  words, the bit macros of \<^verbatim>\<open>lib/subghz/blocks/math.h\<close>, and the generic facts about bits,
  folds and lists on which the component theories rest.

  A C shift by the width of the operand or more is undefined; \<open>push_bit\<close> and
  \<open>drop_bit\<close> give zero there. Every property below keeps its shift amounts in range.
\<close>

unbundle bit_operations_syntax

type_synonym u8 = "8 word"
type_synonym u16 = "16 word"
type_synonym u32 = "32 word"
type_synonym u64 = "64 word"

named_theorems bit_iffs \<open>the bits of a word expression, one operation at a time\<close>

declare push_bit_Suc [simp del] drop_bit_Suc [simp del]

section \<open>Bit macros (blocks/math.h)\<close>

definition bit_read :: "'a::len word \<Rightarrow> nat \<Rightarrow> 'a word" where
  "bit_read v b = drop_bit b v AND 1"

definition bit_set :: "'a::len word \<Rightarrow> nat \<Rightarrow> 'a word" where
  "bit_set v b = v OR push_bit b 1"

definition bit_clear :: "'a::len word \<Rightarrow> nat \<Rightarrow> 'a word" where
  "bit_clear v b = v AND NOT (push_bit b 1)"

definition bit_write :: "'a::len word \<Rightarrow> nat \<Rightarrow> bool \<Rightarrow> 'a word" where
  "bit_write v b x = (if x then bit_set v b else bit_clear v b)"

definition DURATION_DIFF :: "u32 \<Rightarrow> u32 \<Rightarrow> u32" where
  "DURATION_DIFF x y = (if x < y then y - x else x - y)"

section \<open>Generic lemmas\<close>

lemmas [bit_iffs] =
  bit_push_bit_iff bit_drop_bit_eq bit_and_iff bit_or_iff bit_xor_iff bit_not_iff
  bit_ucast_iff bit_take_bit_iff bit_1_iff possible_bit_word

lemma bit_word_out [simp]: "LENGTH('a) \<le> n \<Longrightarrow> \<not> bit (w :: 'a::len word) n"
  by (auto dest: bit_imp_le_length)

lemma ucast_inj_up:
  assumes "LENGTH('a::len) \<le> LENGTH('b::len)"
  shows "(ucast (v :: 'a word) :: 'b word) = ucast w \<longleftrightarrow> v = w"
proof
  assume eq: "(ucast v :: 'b word) = ucast w"
  show "v = w"
  proof (rule bit_word_eqI)
    fix n assume "n < LENGTH('a)"
    then show "bit v n = bit w n"
      using arg_cong [OF eq, of "\<lambda>x. bit x n"] assms by (simp add: bit_ucast_iff)
  qed
qed simp

lemma bit_read_of_bool: "bit_read v b = of_bool (bit v b)"
  by (simp add: bit_read_def and_one_eq mod_2_eq_odd bit_iff_odd_drop_bit)

lemma bit_read_eq_0 [simp]: "bit_read v b = 0 \<longleftrightarrow> \<not> bit v b"
  by (simp add: bit_read_of_bool)

lemma DURATION_DIFF_self [simp]: "DURATION_DIFF x x = 0"
  by (simp add: DURATION_DIFF_def)

lemma DURATION_DIFF_commute: "DURATION_DIFF x y = DURATION_DIFF y x"
  by (auto simp: DURATION_DIFF_def)

text \<open>The macro computes the distance of two durations, without wrap-around.\<close>

lemma uint_DURATION_DIFF: "uint (DURATION_DIFF x y) = \<bar>uint x - uint y\<bar>"
proof (cases "x < y")
  case True
  then have "uint (y - x) = uint y - uint x"
    by (simp add: uint_sub_lem[THEN iffD1] word_less_def)
  with True show ?thesis
    by (simp add: DURATION_DIFF_def word_less_def)
next
  case False
  then have "uint (x - y) = uint x - uint y"
    by (simp add: uint_sub_lem[THEN iffD1] word_less_def)
  with False show ?thesis
    by (simp add: DURATION_DIFF_def word_less_def)
qed

lemma take_bit_word_less: "unat w < 2 ^ n \<Longrightarrow> take_bit n w = (w :: 'a::len word)"
  by (simp add: word_unat_eq_iff unsigned_take_bit_eq take_bit_nat_eq_self)

lemma bit_below: "unat w < 2 ^ n \<Longrightarrow> bit (w :: 'a::len word) k \<Longrightarrow> k < n"
  by (metis bit_take_bit_iff take_bit_word_less)

text \<open>Shifting one bit in at the bottom, as every MSB-first loop of the firmware does.\<close>

lemma bit_shift_in:
  "bit (push_bit 1 r OR of_bool b :: 'a::len word) j \<longleftrightarrow>
     (if j = 0 then b else j < LENGTH('a) \<and> bit r (j - 1))"
  by (cases j) (auto simp: bit_or_iff bit_push_bit_iff bit_1_iff)

lemma of_nat_and_one: "(of_nat n :: 'a::len word) AND 1 = of_bool (odd n)"
  by (rule bit_word_eqI) (simp add: bit_and_iff bit_1_iff bit_iff_odd [of _ 0] conj_commute cong: conj_cong)

text \<open>Exhaustion over the bytes.\<close>

lemma all_bytes:
  assumes "list_all (\<lambda>n. P (of_nat n :: u8)) [0..<256]"
  shows "P b"
proof -
  have "unat b < 256"
    using unsigned_less [of b] by simp
  then have "unat b \<in> set [0..<256]" by simp
  with assms have "P (of_nat (unat b))"
    unfolding list_all_iff by (rule bspec)
  then show ?thesis by simp
qed

text \<open>Running a loop of invertible rounds backwards undoes it.\<close>

lemma fold_inverse:
  assumes inv: "\<And>r q x. r + q + 1 = N \<Longrightarrow> d q (e r x) = x"
  shows "m \<le> N \<Longrightarrow> fold d [N - m..<N] (fold e [0..<m] x) = x"
proof (induction m)
  case (Suc m)
  then have "[N - Suc m..<N] = (N - Suc m) # [N - m..<N]"
    by (simp add: upt_conv_Cons Suc_diff_Suc)
  with Suc show ?case
    by (simp add: inv)
qed simp

lemma fold_inverse_all:
  assumes "\<And>r q x. r + q + 1 = N \<Longrightarrow> d q (e r x) = x"
  shows "fold d [0..<N] (fold e [0..<N] x) = x"
  using fold_inverse [of N d e N x] assms by simp

text \<open>A loop whose body does nothing from the iteration \<open>n\<close> on.\<close>

lemma fold_guarded:
  assumes "n \<le> m"
  shows "fold (\<lambda>r x. if r < n then f r x else x) [0..<m] x = fold f [0..<n] x"
proof -
  have "fold (\<lambda>r x. if r < n then f r x else x) [n..<m] y = y" for y
    by (rule fold_invariant [where Q = "\<lambda>r. n \<le> r" and P = "\<lambda>z. z = y"]) auto
  moreover have "fold (\<lambda>r x. if r < n then f r x else x) [0..<n] x = fold f [0..<n] x"
    by (rule fold_cong) auto
  moreover have "[0..<m] = [0..<n] @ [n..<m]"
    using assms by (metis le_add_diff_inverse upt_add_eq_append zero_le)
  ultimately show ?thesis by simp
qed

lemma split_join_64: "push_bit 32 (ucast (ucast (drop_bit 32 w) :: u32)) OR ucast (ucast w :: u32) = (w :: u64)"
  by (rule bit_word_eqI) (auto simp: bit_iffs)

lemma div_mod_split8: "r < 8 \<Longrightarrow> (8 * a + r) div 8 = a \<and> (8 * a + r) mod 8 = (r :: nat)"
  by auto

lemma less_8_cases:
  assumes "j < (8 :: nat)"
  obtains "j = 0" | "j = 1" | "j = 2" | "j = 3" | "j = 4" | "j = 5" | "j = 6" | "j = 7"
  using assms by linarith

lemma less_16_cases:
  assumes "j < (16 :: nat)"
  obtains "j = 0" | "j = 1" | "j = 2" | "j = 3" | "j = 4" | "j = 5" | "j = 6" | "j = 7"
    | "j = 8" | "j = 9" | "j = 10" | "j = 11" | "j = 12" | "j = 13" | "j = 14" | "j = 15"
proof (cases "j < 8")
  case True
  then show thesis by (rule less_8_cases) (erule that)+
next
  case False
  then have "j = j - 8 + 8" "j - 8 < 8" using assms by simp_all
  then show thesis
    using that(9-16) by (elim less_8_cases) simp_all
qed

lemma nat_wrap_32: "x < 2 ^ 32 \<Longrightarrow> nat (int x mod 2 ^ 32) = x"
  by (simp add: nat_mod_distrib)

text \<open>Durations that are given as natural numbers below \<open>2 ^ 32\<close>.\<close>

lemma of_nat_u32_less: "a < 2 ^ 32 \<Longrightarrow> b < 2 ^ 32 \<Longrightarrow> (of_nat a :: u32) < of_nat b \<longleftrightarrow> a < b"
  by (simp add: word_less_nat_alt unsigned_of_nat take_bit_nat_eq_self)

lemma of_nat_u32_le: "a < 2 ^ 32 \<Longrightarrow> b < 2 ^ 32 \<Longrightarrow> (of_nat a :: u32) \<le> of_nat b \<longleftrightarrow> a \<le> b"
  by (simp add: word_le_nat_alt unsigned_of_nat take_bit_nat_eq_self)

lemma DURATION_DIFF_of_nat:
  "a < 2 ^ 32 \<Longrightarrow> b < 2 ^ 32 \<Longrightarrow> DURATION_DIFF (of_nat a) (of_nat b) = of_nat (if a < b then b - a else a - b)"
  by (simp add: DURATION_DIFF_def of_nat_u32_less of_nat_diff)

lemma DURATION_DIFF_less:
  "a < 2 ^ 32 \<Longrightarrow> b < 2 ^ 32 \<Longrightarrow> d < 2 ^ 32 \<Longrightarrow>
   DURATION_DIFF (of_nat a) (of_nat b) < of_nat d \<longleftrightarrow> a < b + d \<and> b < a + d"
  by (auto simp: DURATION_DIFF_of_nat of_nat_u32_less simp del: of_nat_diff)

lemma unat_ucast_up:
  assumes "LENGTH('a::len) \<le> LENGTH('b::len)"
  shows "unat (ucast (w :: 'a word) :: 'b word) = unat w"
proof -
  have "unat w < 2 ^ LENGTH('b)"
    by (rule less_le_trans [OF unsigned_less]) (use assms in simp)
  then show ?thesis by (simp add: unsigned_ucast_eq take_bit_nat_eq_self)
qed

lemma unat_of_nat_32: "x < 2 ^ 32 \<Longrightarrow> unat (of_nat x :: u32) = x"
  by (simp add: unsigned_of_nat take_bit_nat_eq_self)

end
