(* ===== verification/Keeloq_Common.thy ===== *)
theory Keeloq_Common
  imports Firmware_Prelude
begin

text \<open>
  The KeeLoq block cipher and the key derivations of
  \<^verbatim>\<open>lib/subghz/protocols/keeloq_common.c\<close>. One iteration of each C loop is a round
  function of the loop counter; the loops are folds over the counter values they visit.
\<close>

section \<open>The cipher\<close>

definition KEELOQ_NLF :: u32 where
  "KEELOQ_NLF = 0x3A5C742E"

definition g5 :: "u32 \<Rightarrow> nat \<Rightarrow> nat \<Rightarrow> nat \<Rightarrow> nat \<Rightarrow> nat \<Rightarrow> u32" where
  "g5 x a b c d e =
     bit_read x a + bit_read x b * 2 + bit_read x c * 4 + bit_read x d * 8 + bit_read x e * 16"

definition keeloq_encrypt_round :: "u64 \<Rightarrow> nat \<Rightarrow> u32 \<Rightarrow> u32" where
  "keeloq_encrypt_round key r x =
     drop_bit 1 x XOR
     push_bit 31 (bit_read x 0 XOR bit_read x 16 XOR ucast (bit_read key (unat (of_nat r AND 63 :: u32))) XOR
       bit_read KEELOQ_NLF (unat (g5 x 1 9 20 26 31)))"

definition keeloq_decrypt_round :: "u64 \<Rightarrow> nat \<Rightarrow> u32 \<Rightarrow> u32" where
  "keeloq_decrypt_round key r x =
     push_bit 1 x XOR bit_read x 31 XOR bit_read x 15 XOR
     ucast (bit_read key (unat ((15 - of_nat r) AND 63 :: u32))) XOR
     bit_read KEELOQ_NLF (unat (g5 x 0 8 19 25 30))"

definition subghz_protocol_keeloq_common_encrypt :: "u32 \<Rightarrow> u64 \<Rightarrow> u32" where
  "subghz_protocol_keeloq_common_encrypt data key = fold (keeloq_encrypt_round key) [0..<528] data"

definition subghz_protocol_keeloq_common_decrypt :: "u32 \<Rightarrow> u64 \<Rightarrow> u32" where
  "subghz_protocol_keeloq_common_decrypt data key = fold (keeloq_decrypt_round key) [0..<528] data"

definition subghz_protocol_keeloq_common_encrypt_rounds :: "u32 \<Rightarrow> u64 \<Rightarrow> u32 \<Rightarrow> u32" where
  "subghz_protocol_keeloq_common_encrypt_rounds data key rounds =
     fold (keeloq_encrypt_round key) [0..<unat rounds] data"

section \<open>Learnings\<close>

definition subghz_protocol_keeloq_common_normal_learning :: "u32 \<Rightarrow> u64 \<Rightarrow> u64" where
  "subghz_protocol_keeloq_common_normal_learning data key =
     (let data = data AND 0x0FFFFFFF; data = data OR 0x20000000;
          k1 = subghz_protocol_keeloq_common_decrypt data key;
          data = data AND 0x0FFFFFFF; data = data OR 0x60000000;
          k2 = subghz_protocol_keeloq_common_decrypt data key
      in push_bit 32 (ucast k2) OR ucast k1)"

definition subghz_protocol_keeloq_common_secure_learning :: "u32 \<Rightarrow> u32 \<Rightarrow> u64 \<Rightarrow> u64" where
  "subghz_protocol_keeloq_common_secure_learning data seed key =
     (let data = data AND 0x0FFFFFFF;
          k1 = subghz_protocol_keeloq_common_decrypt data key;
          k2 = subghz_protocol_keeloq_common_decrypt seed key
      in push_bit 32 (ucast k1) OR ucast k2)"

definition subghz_protocol_keeloq_common_magic_xor_type1_learning :: "u32 \<Rightarrow> u64 \<Rightarrow> u64" where
  "subghz_protocol_keeloq_common_magic_xor_type1_learning data x =
     (let data = data AND 0x0FFFFFFF in (push_bit 32 (ucast data) OR ucast data) XOR x)"

definition subghz_protocol_keeloq_common_faac_learning :: "u32 \<Rightarrow> u64 \<Rightarrow> u64" where
  "subghz_protocol_keeloq_common_faac_learning seed key =
     (let hs = (ucast (drop_bit 16 seed) :: u16); ending = (0x544D :: u16);
          lsb = push_bit 16 (ucast hs) OR (ucast ending :: u32)
      in push_bit 32 (ucast (subghz_protocol_keeloq_common_encrypt seed key)) OR
         ucast (subghz_protocol_keeloq_common_encrypt lsb key))"

definition subghz_protocol_keeloq_common_magic_serial_type1_learning :: "u32 \<Rightarrow> u64 \<Rightarrow> u64" where
  "subghz_protocol_keeloq_common_magic_serial_type1_learning data man =
     (man AND 0xFFFFFFFF) OR push_bit 40 (ucast data) OR
     push_bit 32 (ucast (((data AND 0xFF) + (drop_bit 8 data AND 0xFF)) AND 0xFF))"

text \<open>
  The byte accesses through \<open>uint8_t*\<close> are little endian on the target (Cortex-M4):
  byte \<open>i\<close> of a word is its bits \<open>8 i\<close> to \<open>8 i + 7\<close>.
\<close>

definition byte_of :: "'a::len word \<Rightarrow> nat \<Rightarrow> u8" where
  "byte_of w i = ucast (drop_bit (8 * i) w)"

definition set_byte :: "u64 \<Rightarrow> nat \<Rightarrow> u8 \<Rightarrow> u64" where
  "set_byte w i b = (w AND NOT (push_bit (8 * i) 0xFF)) OR push_bit (8 * i) (ucast b)"

definition subghz_protocol_keeloq_common_magic_serial_type2_learning :: "u32 \<Rightarrow> u64 \<Rightarrow> u64" where
  "subghz_protocol_keeloq_common_magic_serial_type2_learning data man =
     (let m = set_byte man 7 (byte_of data 0);
          m = set_byte m 6 (byte_of data 1);
          m = set_byte m 5 (byte_of data 2);
          m = set_byte m 4 (byte_of data 3)
      in m)"

definition subghz_protocol_keeloq_common_magic_serial_type3_learning :: "u32 \<Rightarrow> u64 \<Rightarrow> u64" where
  "subghz_protocol_keeloq_common_magic_serial_type3_learning data man =
     (man AND 0xFFFFFFFFFF000000) OR ucast (data AND 0xFFFFFF)"

section \<open>Key utilities\<close>

definition subghz_protocol_keeloq_common_manufacturer_nl_extend ::
  "u32 \<Rightarrow> u32 \<Rightarrow> u32 \<Rightarrow> u32 \<Rightarrow> u32" where
  "subghz_protocol_keeloq_common_manufacturer_nl_extend x k_lo k_hi outer_limit =
     (let key = push_bit 32 (ucast k_hi) OR (ucast k_lo :: u64)
      in fold (\<lambda>r x. if r < 0x210 then keeloq_decrypt_round key r x else x) [0..<unat outer_limit] x)"

definition subghz_protocol_keeloq_common_manufacturer_nl_extend_encrypt ::
  "u32 \<Rightarrow> u32 \<Rightarrow> u32 \<Rightarrow> u32 \<Rightarrow> u32" where
  "subghz_protocol_keeloq_common_manufacturer_nl_extend_encrypt x k_lo k_hi outer_limit =
     (let key = push_bit 32 (ucast k_hi) OR (ucast k_lo :: u64)
      in fold (\<lambda>r x. if r < 0x210 then keeloq_encrypt_round key r x else x) [0..<unat outer_limit] x)"

definition subghz_protocol_keeloq_common_word_rotate16 :: "u32 \<Rightarrow> u32" where
  "subghz_protocol_keeloq_common_word_rotate16 v = drop_bit 16 v OR push_bit 16 v"

definition subghz_protocol_keeloq_common_bytes_to_key :: "u8 list \<Rightarrow> u64" where
  "subghz_protocol_keeloq_common_bytes_to_key b =
     fold (\<lambda>i v. push_bit 8 v OR ucast (b ! (i - 1))) [8, 7, 6, 5, 4, 3, 2, 1] 0"

definition subghz_protocol_keeloq_common_decrypt_derived :: "u32 \<Rightarrow> u64 \<Rightarrow> u32 \<Rightarrow> u32" where
  "subghz_protocol_keeloq_common_decrypt_derived hop_encrypted derived_manufacturing_key outer_limit =
     subghz_protocol_keeloq_common_manufacturer_nl_extend hop_encrypted
       (ucast derived_manufacturing_key) (ucast (drop_bit 32 derived_manufacturing_key)) outer_limit"

definition subghz_protocol_keeloq_common_encrypt_derived :: "u32 \<Rightarrow> u64 \<Rightarrow> u32 \<Rightarrow> u32" where
  "subghz_protocol_keeloq_common_encrypt_derived data derived_manufacturing_key outer_limit =
     subghz_protocol_keeloq_common_manufacturer_nl_extend_encrypt data
       (ucast derived_manufacturing_key) (ucast (drop_bit 32 derived_manufacturing_key)) outer_limit"

section \<open>Manufacturer specific learnings\<close>

definition KEELOQ_NL_EXTEND_LIMIT_AERF_DEC :: u32 where
  "KEELOQ_NL_EXTEND_LIMIT_AERF_DEC = 0x40"

definition KEELOQ_NL_EXTEND_LIMIT_AERF_ENC :: u32 where
  "KEELOQ_NL_EXTEND_LIMIT_AERF_ENC = 0x240"

definition subghz_protocol_keeloq_common_learning_aerf :: "u32 \<Rightarrow> u64 \<Rightarrow> u64" where
  "subghz_protocol_keeloq_common_learning_aerf data key =
     (let k_lo = ucast key; k_hi = ucast (drop_bit 32 key); d = data AND 0x0FFFFFFF;
          k1 = subghz_protocol_keeloq_common_manufacturer_nl_extend (d OR 0x20000000) k_lo k_hi
                 KEELOQ_NL_EXTEND_LIMIT_AERF_DEC;
          k2 = subghz_protocol_keeloq_common_manufacturer_nl_extend (d OR 0x60000000) k_lo k_hi
                 KEELOQ_NL_EXTEND_LIMIT_AERF_DEC
      in push_bit 32 (ucast k1) OR ucast k2)"

definition subghz_protocol_keeloq_common_learning_erreka :: "u32 \<Rightarrow> u32 \<Rightarrow> u64 \<Rightarrow> u64" where
  "subghz_protocol_keeloq_common_learning_erreka data mix key =
     (let d = data AND 0x0FFFFFFF;
          k1 = subghz_protocol_keeloq_common_decrypt (d OR 0x20000000) key;
          r4 = drop_bit 4 mix;
          r1 = push_bit 4 mix AND 0xF000F000;
          r4 = (r4 AND 0x0F000F00) OR r1;
          r5 = mix AND 0x00FF00FF;
          x = r4 OR r5;
          x = x OR 0x60000000;
          k2 = subghz_protocol_keeloq_common_decrypt x key
      in push_bit 32 (ucast k2) OR ucast k1)"

definition subghz_protocol_keeloq_common_learning_pujol :: "u32 \<Rightarrow> u64 \<Rightarrow> u64" where
  "subghz_protocol_keeloq_common_learning_pujol data key =
     (let d = data AND 0x0FFFFFFF;
          w1 = subghz_protocol_keeloq_common_decrypt (d OR 0x20000000) key;
          w2 = subghz_protocol_keeloq_common_decrypt (d OR 0x60000000) key;
          k1 = subghz_protocol_keeloq_common_word_rotate16 w1;
          k2 = subghz_protocol_keeloq_common_word_rotate16 w2
      in push_bit 32 (ucast k2) OR ucast k1)"

definition subghz_protocol_keeloq_common_learning_jcm_gen2 :: "u32 \<Rightarrow> u8 \<Rightarrow> u64 \<Rightarrow> u64" where
  "subghz_protocol_keeloq_common_learning_jcm_gen2 data btn key =
     (let k = map (\<lambda>i. (ucast (drop_bit (8 * i) key) :: u8)) [0..<8];
          b0 = (ucast data :: u8);
          b1 = (ucast (drop_bit 8 data) :: u8);
          hi = drop_bit 16 data;
          k = k[0 := k ! 0 XOR b0];
          k = k[6 := k ! 6 XOR ucast ((push_bit 4 data AND 0xFF0) OR ucast (drop_bit 4 b0))];
          mix = (push_bit 4 btn OR drop_bit 4 btn) + k ! 2;
          k = k[2 := mix];
          k = k[5 := k ! 5 - 1 - btn];
          k = k[4 := k ! 4 XOR b1];
          k7 = k ! 7;
          k4 = k ! 4;
          seed = ucast (btn XOR (ucast ((push_bit 4 hi AND 0xFF0) OR (drop_bit 4 hi AND 0x0F)))) OR
                 push_bit 8 (ucast (NOT b0)) OR
                 push_bit 16 (ucast (b1 XOR ucast (drop_bit 24 data AND 0x0F))) OR
                 push_bit 24 (ucast (ucast ((drop_bit 4 data AND 0xFF0) OR ucast (drop_bit 4 b1)) :: u8));
          d = subghz_protocol_keeloq_common_decrypt seed (subghz_protocol_keeloq_common_bytes_to_key k);
          o0 = ucast (drop_bit 24 d);
          o1 = ucast (push_bit 4 (d AND 0x0F) OR (drop_bit 4 d AND 0x0F));
          o2 = mix + ucast ((drop_bit 4 d AND 0xFF0) OR (drop_bit 12 d AND 0x0F));
          o3 = ucast (drop_bit 8 d);
          o4 = ucast (drop_bit 24 d) + k4 + 1;
          o5 = ucast (drop_bit 16 d);
          o6 = NOT (ucast d);
          o7 = ucast (drop_bit 16 d) + k7
      in subghz_protocol_keeloq_common_bytes_to_key [o0, o1, o2, o3, o4, o5, o6, o7])"

definition subghz_protocol_keeloq_common_learning_stagnoli :: "u32 \<Rightarrow> u64 \<Rightarrow> u64" where
  "subghz_protocol_keeloq_common_learning_stagnoli data key =
     (let fixp = (data AND 0x0FFFFFFF) OR 0xA0000000
      in push_bit 32 (ucast (fixp XOR ucast (drop_bit 32 key))) OR ucast (fixp XOR ucast key))"

definition telcoma_round :: "u32 list \<Rightarrow> u32 \<Rightarrow> u32" where
  "telcoma_round table x =
     (let x = x XOR table ! unat (x AND 3) in push_bit 1 x OR drop_bit 31 x)"

definition subghz_protocol_keeloq_common_learning_telcoma_table :: "u32 \<Rightarrow> u32 list \<Rightarrow> u64" where
  "subghz_protocol_keeloq_common_learning_telcoma_table data table =
     (let x = data AND 0x0FFFFFFF;
          x = (telcoma_round table ^^ 32) x;
          k1 = x;
          x = (telcoma_round table ^^ 32) x
      in push_bit 32 (ucast k1) OR ucast x)"

record SubGhzKey =
  key_name :: string
  key_key :: u64
  key_type :: u16

definition KEELOQ_LEARNING_TELCOMA_TABLE_HI :: u16 where
  "KEELOQ_LEARNING_TELCOMA_TABLE_HI = 18"

definition KEELOQ_LEARNING_TELCOMA_TABLE_LO :: u16 where
  "KEELOQ_LEARNING_TELCOMA_TABLE_LO = 19"

fun get_telcoma_table_loop ::
  "SubGhzKey list \<Rightarrow> u32 list \<Rightarrow> bool \<Rightarrow> bool \<Rightarrow> u32 list \<times> bool \<times> bool" where
  "get_telcoma_table_loop [] table got_hi got_lo = (table, got_hi, got_lo)"
| "get_telcoma_table_loop (entry # es) table got_hi got_lo =
     (if key_type entry = KEELOQ_LEARNING_TELCOMA_TABLE_HI then
        get_telcoma_table_loop es
          (table[0 := ucast (drop_bit 32 (key_key entry)), 1 := ucast (key_key entry)]) True got_lo
      else if key_type entry = KEELOQ_LEARNING_TELCOMA_TABLE_LO then
        get_telcoma_table_loop es
          (table[2 := ucast (drop_bit 32 (key_key entry)), 3 := ucast (key_key entry)]) got_hi True
      else get_telcoma_table_loop es table got_hi got_lo)"

definition subghz_protocol_keeloq_common_get_telcoma_table ::
  "SubGhzKey list \<Rightarrow> u32 list \<Rightarrow> bool \<times> u32 list" where
  "subghz_protocol_keeloq_common_get_telcoma_table keystore table =
     (case get_telcoma_table_loop keystore table False False of
        (table, got_hi, got_lo) \<Rightarrow> (got_hi \<and> got_lo, table))"

section \<open>The rounds invert each other\<close>

lemma g5_shift:
  assumes "\<And>n. n \<in> {a, b, c, d, e} \<Longrightarrow> bit x (Suc n) = bit y n"
  shows "g5 x (Suc a) (Suc b) (Suc c) (Suc d) (Suc e) = g5 y a b c d e"
  using assms by (simp add: g5_def bit_read_of_bool)

lemma bit_encrypt_round:
  "bit (keeloq_encrypt_round key r x) n \<longleftrightarrow>
     (if n = 31 then
        bit x 0 \<noteq> (bit x 16 \<noteq> (bit key (unat (of_nat r AND 63 :: u32)) \<noteq>
          bit KEELOQ_NLF (unat (g5 x 1 9 20 26 31))))
      else n < 31 \<and> bit x (Suc n))"
  using bit_imp_le_length [of x "Suc n"]
  by (auto simp: keeloq_encrypt_round_def bit_read_of_bool bit_iffs)

lemma bit_decrypt_round:
  "bit (keeloq_decrypt_round key r x) n \<longleftrightarrow>
     (if n = 0 then
        bit x 31 \<noteq> (bit x 15 \<noteq> (bit key (unat ((15 - of_nat r) AND 63 :: u32)) \<noteq>
          bit KEELOQ_NLF (unat (g5 x 0 8 19 25 30))))
      else n < 32 \<and> bit x (n - 1))"
  by (cases n) (auto simp: keeloq_decrypt_round_def bit_read_of_bool bit_iffs)

lemma decrypt_encrypt_round:
  assumes "(of_nat r AND 63 :: u32) = (15 - of_nat q) AND 63"
  shows "keeloq_decrypt_round key q (keeloq_encrypt_round key r x) = x"
proof (rule bit_word_eqI)
  fix n assume n: "n < LENGTH(32)"
  let ?y = "keeloq_encrypt_round key r x"
  have "g5 x (Suc 0) (Suc 8) (Suc 19) (Suc 25) (Suc 30) = g5 ?y 0 8 19 25 30"
    by (rule g5_shift) (auto simp: bit_encrypt_round)
  then have g: "g5 x (Suc 0) 9 20 26 31 = g5 ?y 0 8 19 25 30"
    by simp
  show "bit (keeloq_decrypt_round key q ?y) n = bit x n"
  proof (cases "n = 0")
    case True
    then show ?thesis
      by (simp add: bit_decrypt_round bit_encrypt_round [of _ _ _ 31] bit_encrypt_round [of _ _ _ 15]
          assms [symmetric] flip: g) auto
  next
    case False
    then show ?thesis using n by (cases n) (auto simp: bit_decrypt_round bit_encrypt_round)
  qed
qed

lemma encrypt_decrypt_round:
  assumes "(of_nat r AND 63 :: u32) = (15 - of_nat q) AND 63"
  shows "keeloq_encrypt_round key r (keeloq_decrypt_round key q x) = x"
proof (rule bit_word_eqI)
  fix n assume n: "n < LENGTH(32)"
  let ?y = "keeloq_decrypt_round key q x"
  have "g5 ?y (Suc 0) (Suc 8) (Suc 19) (Suc 25) (Suc 30) = g5 x 0 8 19 25 30"
    by (rule g5_shift) (auto simp: bit_decrypt_round)
  then have g: "g5 ?y (Suc 0) 9 20 26 31 = g5 x 0 8 19 25 30"
    by simp
  show "bit (keeloq_encrypt_round key r ?y) n = bit x n"
  proof (cases "n = 31")
    case True
    then show ?thesis
      by (simp add: bit_encrypt_round g bit_decrypt_round [of _ _ _ 0] bit_decrypt_round [of _ _ _ 16]
          assms) auto
  next
    case False
    then show ?thesis using n by (simp add: bit_decrypt_round bit_encrypt_round)
  qed
qed

lemma mod_64_add_512: "(a + 512) mod 4294967296 mod 64 = a mod 64" for a :: int
proof -
  have "(a + 512) mod 4294967296 mod 64 = (a + 512) mod 64"
    by (rule mod_mod_cancel) simp
  then show ?thesis using mod_mult_self2 [of a 64 8] by simp
qed

lemma take_6_add_512: "take_bit 6 (x + 512) = take_bit 6 x" for x :: u32
proof (rule word_uint_eqI)
  show "uint (take_bit 6 (x + 512)) = uint (take_bit 6 x)"
    by (simp only: unsigned_take_bit_eq uint_word_ariths) (simp add: take_bit_eq_mod mod_64_add_512)
qed

text \<open>The decryption round \<open>q\<close> uses the key bit of the encryption round \<open>527 - q\<close>.\<close>

lemma key_index:
  assumes "r + q + 1 = 528"
  shows "(of_nat r AND 63 :: u32) = (15 - of_nat q) AND 63"
proof -
  have and63: "x AND 63 = take_bit 6 x" for x :: u32
    by (simp add: take_bit_eq_mask mask_eq_exp_minus_1)
  have "r + q = 527" using assms by simp
  then have "(of_nat (r + q) :: u32) = of_nat 527" by (rule arg_cong)
  then have "of_nat r + of_nat q = (527 :: u32)" by simp
  then have "of_nat r = (527 :: u32) - of_nat q" by (simp only: eq_diff_eq)
  then have "of_nat r = (15 - of_nat q) + (512 :: u32)" by simp
  then show ?thesis
    by (simp only: and63 take_6_add_512)
qed

lemma keeloq_decrypt_encrypt:
  "subghz_protocol_keeloq_common_decrypt (subghz_protocol_keeloq_common_encrypt x key) key = x"
  unfolding subghz_protocol_keeloq_common_decrypt_def subghz_protocol_keeloq_common_encrypt_def
  by (rule fold_inverse_all) (rule decrypt_encrypt_round [OF key_index])

lemma keeloq_encrypt_decrypt:
  "subghz_protocol_keeloq_common_encrypt (subghz_protocol_keeloq_common_decrypt x key) key = x"
  unfolding subghz_protocol_keeloq_common_decrypt_def subghz_protocol_keeloq_common_encrypt_def
  by (rule fold_inverse_all) (rule encrypt_decrypt_round [OF key_index], simp)

lemma keeloq_decrypt_inj [simp]:
  "subghz_protocol_keeloq_common_decrypt x key = subghz_protocol_keeloq_common_decrypt y key \<longleftrightarrow> x = y"
  by (metis keeloq_encrypt_decrypt)

lemma decrypt_derived_full:
  assumes "528 \<le> limit"
  shows "subghz_protocol_keeloq_common_decrypt_derived hop key limit =
    subghz_protocol_keeloq_common_decrypt hop key"
proof -
  have "528 \<le> unat limit"
    using assms by (simp add: word_le_nat_alt)
  then show ?thesis
    by (simp add: subghz_protocol_keeloq_common_decrypt_derived_def
        subghz_protocol_keeloq_common_manufacturer_nl_extend_def
        subghz_protocol_keeloq_common_decrypt_def split_join_64 fold_guarded)
qed

lemma encrypt_derived_full:
  assumes "528 \<le> limit"
  shows "subghz_protocol_keeloq_common_encrypt_derived x key limit =
    subghz_protocol_keeloq_common_encrypt x key"
proof -
  have "528 \<le> unat limit"
    using assms by (simp add: word_le_nat_alt)
  then show ?thesis
    by (simp add: subghz_protocol_keeloq_common_encrypt_derived_def
        subghz_protocol_keeloq_common_manufacturer_nl_extend_encrypt_def
        subghz_protocol_keeloq_common_encrypt_def split_join_64 fold_guarded)
qed

section \<open>The derived keys\<close>

lemma join_32_inj:
  "push_bit 32 (ucast a) OR (ucast b :: u64) = push_bit 32 (ucast c) OR ucast d \<longleftrightarrow>
     (a :: u32) = c \<and> (b :: u32) = d"
proof
  assume eq: "push_bit 32 (ucast a) OR (ucast b :: u64) = push_bit 32 (ucast c) OR ucast d"
  have "a = c"
  proof (rule bit_word_eqI)
    fix n assume "n < LENGTH(32)"
    then show "bit a n = bit c n"
      using arg_cong [OF eq, of "\<lambda>w. bit w (n + 32)"] by (simp add: bit_iffs)
  qed
  moreover have "b = d"
  proof (rule bit_word_eqI)
    fix n assume "n < LENGTH(32)"
    then show "bit b n = bit d n"
      using arg_cong [OF eq, of "\<lambda>w. bit w n"] by (simp add: bit_iffs)
  qed
  ultimately show "a = c \<and> b = d" ..
qed simp

lemma serial_tag_inj:
  assumes "(x AND 0x0FFFFFFF) OR tag = (y AND 0x0FFFFFFF) OR (tag :: u32)" and "tag AND 0x0FFFFFFF = 0"
  shows "x AND 0x0FFFFFFF = y AND 0x0FFFFFFF"
proof -
  have "((x AND 0x0FFFFFFF) OR tag) AND 0x0FFFFFFF = ((y AND 0x0FFFFFFF) OR tag) AND 0x0FFFFFFF"
    using assms(1) by simp
  then show ?thesis
    using assms(2) by (simp add: bit.conj_disj_distrib2 and.assoc)
qed

text \<open>
  C1 The KeeLoq cipher is a permutation for every key: \<open>decrypt\<close> inverts
  \<open>encrypt\<close> and \<open>encrypt\<close> inverts \<open>decrypt\<close>, over all 528 rounds.
\<close>

theorem keeloq_roundtrip:
  "subghz_protocol_keeloq_common_decrypt (subghz_protocol_keeloq_common_encrypt x key) key = x \<and>
   subghz_protocol_keeloq_common_encrypt (subghz_protocol_keeloq_common_decrypt x key) key = x"
  by (simp add: keeloq_decrypt_encrypt keeloq_encrypt_decrypt)

text \<open>
  C24 With an outer limit of at least 528 the caller-limited cipher is the full cipher, so
  the two limits \<open>0x240\<close> and \<open>0x210\<close> that the AERF branch of the KeeLoq decoder tries one after
  the other (\<^verbatim>\<open>keeloq.c\<close>) always give the same plaintext, and both undo the encoder's
  \<open>encrypt_derived\<close> with limit \<open>KEELOQ_NL_EXTEND_LIMIT_AERF_ENC\<close>.
\<close>

theorem keeloq_derived_limits:
  "subghz_protocol_keeloq_common_decrypt_derived hop man 0x240 =
     subghz_protocol_keeloq_common_decrypt_derived hop man 0x210 \<and>
   subghz_protocol_keeloq_common_decrypt_derived
     (subghz_protocol_keeloq_common_encrypt_derived x man KEELOQ_NL_EXTEND_LIMIT_AERF_ENC) man 0x240 = x"
  by (simp add: KEELOQ_NL_EXTEND_LIMIT_AERF_ENC_def decrypt_derived_full encrypt_derived_full
      keeloq_decrypt_encrypt)

text \<open>
  Normal learning gives every 28-bit serial number its own device key: two remotes
  get the same derived key exactly when the low 28 bits of their serials agree.
\<close>

theorem normal_learning_injective:
  "subghz_protocol_keeloq_common_normal_learning s key =
     subghz_protocol_keeloq_common_normal_learning t key \<longleftrightarrow>
   s AND 0x0FFFFFFF = t AND 0x0FFFFFFF"
proof
  assume "subghz_protocol_keeloq_common_normal_learning s key =
    subghz_protocol_keeloq_common_normal_learning t key"
  then have "(s AND 0x0FFFFFFF) OR 0x20000000 = (t AND 0x0FFFFFFF) OR 0x20000000"
    unfolding subghz_protocol_keeloq_common_normal_learning_def Let_def join_32_inj by simp
  then show "s AND 0x0FFFFFFF = t AND 0x0FFFFFFF"
    by (rule serial_tag_inj) simp
qed (simp add: subghz_protocol_keeloq_common_normal_learning_def)

end
