(* ===== verification/Subghz_Math.thy ===== *)
theory Subghz_Math
  imports Firmware_Prelude
begin

text \<open>
  The checksum and bit-twiddling routines of \<^verbatim>\<open>lib/subghz/blocks/math.c\<close>. A message
  \<open>uint8_t const message[]\<close> together with its \<open>size\<close> is the list of its \<open>size\<close> bytes; a
  \<open>for\<close> loop over bits is a fold over the bit indices, in the order the loop visits them.
\<close>

section \<open>Definitions\<close>

definition subghz_protocol_blocks_reverse_key :: "u64 \<Rightarrow> u8 \<Rightarrow> u64" where
  "subghz_protocol_blocks_reverse_key key bit_count =
     fold (\<lambda>i reverse_key. push_bit 1 reverse_key OR bit_read key i) [0..<unat bit_count] 0"

definition subghz_protocol_blocks_get_parity :: "u64 \<Rightarrow> u8 \<Rightarrow> u8" where
  "subghz_protocol_blocks_get_parity key bit_count =
     fold (\<lambda>i parity. parity + ucast (bit_read key i)) [0..<unat bit_count] 0 AND 0x01"

text \<open>One bit of the MSB-first and of the LSB-first CRC loops.\<close>

definition crc_shl :: "nat \<Rightarrow> 'a::len word \<Rightarrow> 'a word \<Rightarrow> 'a word" where
  "crc_shl hi poly r = (if bit r hi then push_bit 1 r XOR poly else push_bit 1 r)"

definition crc_shr :: "'a::len word \<Rightarrow> 'a word \<Rightarrow> 'a word" where
  "crc_shr poly r = (if bit r 0 then drop_bit 1 r XOR poly else drop_bit 1 r)"

definition crc8_byte :: "u8 \<Rightarrow> u8 \<Rightarrow> u8 \<Rightarrow> u8" where
  "crc8_byte poly m r = (crc_shl 7 poly ^^ 8) (r XOR m)"

definition crc8le_byte :: "u8 \<Rightarrow> u8 \<Rightarrow> u8 \<Rightarrow> u8" where
  "crc8le_byte poly m r = (crc_shr poly ^^ 8) (r XOR m)"

definition crc16lsb_byte :: "u16 \<Rightarrow> u8 \<Rightarrow> u16 \<Rightarrow> u16" where
  "crc16lsb_byte poly m r = (crc_shr poly ^^ 8) (r XOR ucast m)"

definition crc16_byte :: "u16 \<Rightarrow> u8 \<Rightarrow> u16 \<Rightarrow> u16" where
  "crc16_byte poly m r = (crc_shl 15 poly ^^ 8) (r XOR push_bit 8 (ucast m))"

definition subghz_protocol_blocks_crc4 :: "u8 list \<Rightarrow> u8 \<Rightarrow> u8 \<Rightarrow> u8" where
  "subghz_protocol_blocks_crc4 message polynomial init =
     drop_bit 4 (fold (crc8_byte (push_bit 4 polynomial)) message (push_bit 4 init)) AND 0x0F"

definition subghz_protocol_blocks_crc7 :: "u8 list \<Rightarrow> u8 \<Rightarrow> u8 \<Rightarrow> u8" where
  "subghz_protocol_blocks_crc7 message polynomial init =
     drop_bit 1 (fold (crc8_byte (push_bit 1 polynomial)) message (push_bit 1 init)) AND 0x7F"

definition subghz_protocol_blocks_crc8 :: "u8 list \<Rightarrow> u8 \<Rightarrow> u8 \<Rightarrow> u8" where
  "subghz_protocol_blocks_crc8 message polynomial init = fold (crc8_byte polynomial) message init"

definition subghz_protocol_blocks_crc8le :: "u8 list \<Rightarrow> u8 \<Rightarrow> u8 \<Rightarrow> u8" where
  "subghz_protocol_blocks_crc8le message polynomial init =
     fold (crc8le_byte (ucast (subghz_protocol_blocks_reverse_key (ucast polynomial) 8))) message
       (ucast (subghz_protocol_blocks_reverse_key (ucast init) 8))"

definition subghz_protocol_blocks_crc16lsb :: "u8 list \<Rightarrow> u16 \<Rightarrow> u16 \<Rightarrow> u16" where
  "subghz_protocol_blocks_crc16lsb message polynomial init =
     fold (crc16lsb_byte polynomial) message init"

definition subghz_protocol_blocks_crc16 :: "u8 list \<Rightarrow> u16 \<Rightarrow> u16 \<Rightarrow> u16" where
  "subghz_protocol_blocks_crc16 message polynomial init =
     fold (crc16_byte polynomial) message init"

text \<open>The LFSR digests: the pair \<open>(sum, key)\<close> is threaded through the bit loop.\<close>

definition lfsr_right :: "'a::len word \<Rightarrow> 'a word \<Rightarrow> 'a word" where
  "lfsr_right gen key = (if bit key 0 then drop_bit 1 key XOR gen else drop_bit 1 key)"

definition digest_step ::
  "('a::len word \<Rightarrow> 'a word) \<Rightarrow> u8 \<Rightarrow> nat \<Rightarrow> 'a word \<times> 'a word \<Rightarrow> 'a word \<times> 'a word" where
  "digest_step roll data i sk =
     ((if bit_read data i \<noteq> 0 then fst sk XOR snd sk else fst sk), roll (snd sk))"

definition digest_byte ::
  "('a::len word \<Rightarrow> 'a word) \<Rightarrow> nat list \<Rightarrow> u8 \<Rightarrow> 'a word \<times> 'a word \<Rightarrow> 'a word \<times> 'a word" where
  "digest_byte roll order data sk = fold (digest_step roll data) order sk"

definition subghz_protocol_blocks_lfsr_digest8 :: "u8 list \<Rightarrow> u8 \<Rightarrow> u8 \<Rightarrow> u8" where
  "subghz_protocol_blocks_lfsr_digest8 message gen key =
     fst (fold (digest_byte (lfsr_right gen) (rev [0..<8])) message (0, key))"

definition subghz_protocol_blocks_lfsr_digest8_reflect :: "u8 list \<Rightarrow> u8 \<Rightarrow> u8 \<Rightarrow> u8" where
  "subghz_protocol_blocks_lfsr_digest8_reflect message gen key =
     fst (fold (digest_byte (crc_shl 7 gen) [0..<8]) (rev message) (0, key))"

definition subghz_protocol_blocks_lfsr_digest16 :: "u8 list \<Rightarrow> u16 \<Rightarrow> u16 \<Rightarrow> u16" where
  "subghz_protocol_blocks_lfsr_digest16 message gen key =
     fst (fold (digest_byte (lfsr_right gen) (rev [0..<8])) message (0, key))"

definition subghz_protocol_blocks_add_bytes :: "u8 list \<Rightarrow> u8" where
  "subghz_protocol_blocks_add_bytes message =
     ucast (fold (\<lambda>m result. result + ucast m) message (0 :: u32))"

definition subghz_protocol_blocks_parity8 :: "u8 \<Rightarrow> u8" where
  "subghz_protocol_blocks_parity8 byte =
     (let byte = byte XOR drop_bit 4 byte; byte = byte AND 0xF
      in ucast (drop_bit (unat byte) (0x6996 :: u32) AND 1))"

definition subghz_protocol_blocks_parity_bytes :: "u8 list \<Rightarrow> u8" where
  "subghz_protocol_blocks_parity_bytes message =
     fold (\<lambda>m result. result XOR subghz_protocol_blocks_parity8 m) message 0"

definition subghz_protocol_blocks_xor_bytes :: "u8 list \<Rightarrow> u8" where
  "subghz_protocol_blocks_xor_bytes message = fold (\<lambda>m result. result XOR m) message 0"

section \<open>The interface of a checksum register\<close>

text \<open>
  A checksum register is fed byte by byte. If, for a good polynomial, feeding is injective
  in the register and in the byte, then no corruption confined to one byte goes unnoticed.
\<close>

locale checksum_register =
  fixes feed :: "'p \<Rightarrow> u8 \<Rightarrow> 's \<Rightarrow> 's"
    and good :: "'p \<Rightarrow> bool"
  assumes feed_inj_register: "good p \<Longrightarrow> feed p m r = feed p m s \<Longrightarrow> r = s"
    and feed_inj_byte: "good p \<Longrightarrow> feed p m r = feed p n r \<Longrightarrow> m = n"
begin

lemma run_inj:
  assumes "good p"
  shows "fold (feed p) ms r = fold (feed p) ms s \<Longrightarrow> r = s"
proof (induction ms arbitrary: r s)
  case Nil
  then show ?case by simp
next
  case (Cons m ms)
  from Cons.prems have "fold (feed p) ms (feed p m r) = fold (feed p) ms (feed p m s)"
    by simp
  then have "feed p m r = feed p m s" by (rule Cons.IH)
  with assms show ?case by (rule feed_inj_register)
qed

lemma single_byte_detected:
  assumes "good p" and "m \<noteq> n"
  shows "fold (feed p) (xs @ m # ys) r \<noteq> fold (feed p) (xs @ n # ys) r"
proof
  assume "fold (feed p) (xs @ m # ys) r = fold (feed p) (xs @ n # ys) r"
  then have "feed p m (fold (feed p) xs r) = feed p n (fold (feed p) xs r)"
    using run_inj [OF assms(1)] by simp
  with assms show False
    using feed_inj_byte by blast
qed

end

section \<open>Bit loops of the checksums\<close>

lemma funpow_inj:
  fixes f :: "'a \<Rightarrow> 'a"
  assumes "\<And>x y. f x = f y \<Longrightarrow> x = y"
  shows "(f ^^ n) x = (f ^^ n) y \<Longrightarrow> x = y"
proof (induction n)
  case (Suc n)
  then show ?case by (auto dest: assms)
qed simp

lemma crc_shl_inj:
  assumes hi: "Suc hi = LENGTH('a::len)" and odd: "bit poly 0" and eq: "crc_shl hi poly r = crc_shl hi poly s"
  shows "r = (s :: 'a word)"
proof (rule bit_word_eqI)
  fix n assume n: "n < LENGTH('a)"
  have msb: "bit (crc_shl hi poly x) 0 \<longleftrightarrow> bit x hi" for x :: "'a word"
    using odd by (simp add: crc_shl_def bit_iffs)
  have low: "bit x k \<longleftrightarrow> bit (crc_shl hi poly x) (Suc k) \<noteq> (bit x hi \<and> bit poly (Suc k))"
    if "k < hi" for x :: "'a word" and k
    using that hi by (auto simp: crc_shl_def bit_iffs)
  show "bit r n \<longleftrightarrow> bit s n"
  proof (cases "n = hi")
    case True
    then show ?thesis using msb [of r] msb [of s] eq by simp
  next
    case False
    then have "n < hi" using n hi by simp
    then show ?thesis using low [of n r] low [of n s] msb [of r] msb [of s] eq by simp
  qed
qed

lemma crc_shr_inj:
  assumes "bit poly (LENGTH('a::len) - 1)" and eq: "crc_shr poly r = crc_shr poly s"
  shows "r = (s :: 'a word)"
proof (rule bit_word_eqI)
  fix n assume n: "n < LENGTH('a)"
  have lsb: "bit (crc_shr poly x) (LENGTH('a) - 1) \<longleftrightarrow> bit x 0" for x :: "'a word"
    using assms(1) by (auto simp: crc_shr_def bit_iffs dest: bit_imp_le_length)
  have high: "bit x (Suc k) \<longleftrightarrow> bit (crc_shr poly x) k \<noteq> (bit x 0 \<and> bit poly k)" for x :: "'a word" and k
    by (auto simp: crc_shr_def bit_iffs)
  show "bit r n \<longleftrightarrow> bit s n"
  proof (cases n)
    case 0
    then show ?thesis using lsb [of r] lsb [of s] eq by simp
  next
    case (Suc k)
    then show ?thesis using high [of r k] high [of s k] lsb [of r] lsb [of s] eq by simp
  qed
qed

lemma crc8_register_inj:
  assumes "bit poly 0"
  shows "crc8_byte poly m r = crc8_byte poly n s \<Longrightarrow> r XOR m = s XOR n"
  unfolding crc8_byte_def by (rule funpow_inj [of "crc_shl 7 poly"]) (auto intro: crc_shl_inj assms)

lemma crc8le_register_inj:
  assumes "bit poly 7"
  shows "crc8le_byte poly m r = crc8le_byte poly n s \<Longrightarrow> r XOR m = s XOR n"
  unfolding crc8le_byte_def by (rule funpow_inj [of "crc_shr poly"]) (auto intro: crc_shr_inj [of poly] simp: assms)

lemma crc16lsb_register_inj:
  assumes "bit poly 15"
  shows "crc16lsb_byte poly m r = crc16lsb_byte poly n s \<Longrightarrow> r XOR ucast m = s XOR ucast n"
  unfolding crc16lsb_byte_def by (rule funpow_inj [of "crc_shr poly"]) (auto intro: crc_shr_inj [of poly] simp: assms)

lemma crc16_register_inj:
  assumes "bit poly 0"
  shows "crc16_byte poly m r = crc16_byte poly n s \<Longrightarrow>
    r XOR push_bit 8 (ucast m) = s XOR push_bit 8 (ucast n)"
  unfolding crc16_byte_def by (rule funpow_inj [of "crc_shl 15 poly"]) (auto intro: crc_shl_inj assms)

lemma xor_cancel_left [simp]: "(a :: 'a::len word) XOR b = a XOR c \<longleftrightarrow> b = c"
  by (metis xor.assoc xor.left_neutral xor_self_eq)

lemma xor_cancel_right [simp]: "(b :: 'a::len word) XOR a = c XOR a \<longleftrightarrow> b = c"
  by (simp add: xor.commute [of _ a])

lemma push_8_ucast_inj: "push_bit 8 (ucast (m :: u8) :: u16) = push_bit 8 (ucast n) \<longleftrightarrow> m = n"
proof
  assume eq: "push_bit 8 (ucast m :: u16) = push_bit 8 (ucast n)"
  show "m = n"
  proof (rule bit_word_eqI)
    fix i assume "i < LENGTH(8)"
    then show "bit m i = bit n i"
      using arg_cong [OF eq, of "\<lambda>x. bit x (i + 8)"] by (simp add: bit_iffs)
  qed
qed simp

interpretation crc8: checksum_register crc8_byte "\<lambda>poly. bit poly 0"
  by unfold_locales (auto dest: crc8_register_inj)

interpretation crc8le: checksum_register crc8le_byte "\<lambda>poly. bit poly 7"
  by unfold_locales (auto dest: crc8le_register_inj)

interpretation crc16lsb: checksum_register crc16lsb_byte "\<lambda>poly. bit poly 15"
  by unfold_locales (auto dest: crc16lsb_register_inj simp: ucast_inj_up)

interpretation crc16: checksum_register crc16_byte "\<lambda>poly. bit poly 0"
  by unfold_locales (auto dest: crc16_register_inj simp: push_8_ucast_inj)

section \<open>Key reversal and parity\<close>

lemma bit_reverse_loop:
  "bit (fold (\<lambda>i r. push_bit 1 r OR bit_read key i) [0..<n] (0 :: u64)) j \<longleftrightarrow>
     j < n \<and> j < 64 \<and> bit key (n - 1 - j)"
proof (induction n arbitrary: j)
  case (Suc n)
  have "fold (\<lambda>i r. push_bit 1 r OR bit_read key i) [0..<Suc n] (0 :: u64) =
    push_bit 1 (fold (\<lambda>i r. push_bit 1 r OR bit_read key i) [0..<n] 0) OR of_bool (bit key n)"
    by (simp add: bit_read_of_bool [of key n])
  then show ?case
    by (simp only: bit_shift_in Suc.IH) (cases j; auto)
qed simp

lemma bit_reverse_key:
  "bit (subghz_protocol_blocks_reverse_key key n) j \<longleftrightarrow>
     j < unat n \<and> j < 64 \<and> bit key (unat n - 1 - j)"
  by (simp only: subghz_protocol_blocks_reverse_key_def bit_reverse_loop)

lemma parity_loop:
  "fold (\<lambda>i parity. parity + ucast (bit_read (key :: u64) i)) [0..<n] (0 :: u8) =
     of_nat (card {i. i < n \<and> bit key i})"
proof (induction n)
  case (Suc n)
  have "{i. i < Suc n \<and> bit key i} =
    (if bit key n then insert n {i. i < n \<and> bit key i} else {i. i < n \<and> bit key i})"
    by (auto simp: less_Suc_eq)
  then show ?case
    using Suc.IH by (simp add: bit_read_of_bool [of key n])
qed simp

lemma get_parity_odd:
  "subghz_protocol_blocks_get_parity key n = of_bool (odd (card {i. i < unat n \<and> bit key i}))"
  by (simp only: subghz_protocol_blocks_get_parity_def parity_loop of_nat_and_one)

lemma odd_card_bits_Suc:
  "odd (card {i. i < Suc n \<and> bit key i}) \<longleftrightarrow> odd (card {i. i < n \<and> bit key i}) \<noteq> bit key n"
proof -
  have "{i. i < Suc n \<and> bit key i} =
    (if bit key n then insert n {i. i < n \<and> bit key i} else {i. i < n \<and> bit key i})"
    by (auto simp: less_Suc_eq)
  then show ?thesis by simp
qed

lemma parity_of_nibble:
  assumes "n < 16"
  shows "bit (0x6996 :: u32) n \<longleftrightarrow> (bit n 0 \<noteq> (bit n 1 \<noteq> (bit n 2 \<noteq> bit n 3)))"
proof -
  have "list_all (\<lambda>n. bit (0x6996 :: u32) n \<longleftrightarrow> (bit n 0 \<noteq> (bit n 1 \<noteq> (bit n 2 \<noteq> bit n 3)))) [0..<16]"
    by code_simp
  moreover have "n \<in> set [0..<16]" using assms by simp
  ultimately show ?thesis unfolding list_all_iff by (rule bspec)
qed

lemma and_0xF_eq: "b AND 0xF = take_bit 4 (b :: u8)"
  by (simp add: take_bit_eq_mask mask_eq_exp_minus_1)

lemma nibble_bits: "bit (unat (b AND 0xF :: u8)) i \<longleftrightarrow> i < 4 \<and> bit b i"
  by (simp add: and_0xF_eq bit_iffs unsigned_take_bit_eq) (simp add: bit_unsigned_iff)

lemma nibble_less: "unat (b AND 0xF :: u8) < 16"
  using take_bit_nat_less_exp [of 4 "unat b"] by (simp add: and_0xF_eq unsigned_take_bit_eq)

lemma parity8_bits:
  "subghz_protocol_blocks_parity8 b = of_bool (odd (card {i. i < 8 \<and> bit b i}))"
proof -
  let ?n = "b XOR drop_bit 4 b"
  have "subghz_protocol_blocks_parity8 b = of_bool (bit (0x6996 :: u32) (unat (?n AND 0xF)))"
    by (simp add: subghz_protocol_blocks_parity8_def Let_def bit_read_of_bool [unfolded bit_read_def])
  moreover have "bit (0x6996 :: u32) (unat (?n AND 0xF)) \<longleftrightarrow>
      (bit ?n 0 \<noteq> (bit ?n 1 \<noteq> (bit ?n 2 \<noteq> bit ?n 3)))"
    unfolding parity_of_nibble [OF nibble_less] nibble_bits by simp
  moreover have "odd (card {i. i < 8 \<and> bit b i}) \<longleftrightarrow>
      (bit ?n 0 \<noteq> (bit ?n 1 \<noteq> (bit ?n 2 \<noteq> bit ?n 3)))"
    using odd_card_bits_Suc [of 7 b] odd_card_bits_Suc [of 6 b] odd_card_bits_Suc [of 5 b]
      odd_card_bits_Suc [of 4 b] odd_card_bits_Suc [of 3 b] odd_card_bits_Suc [of 2 b]
      odd_card_bits_Suc [of 1 b] odd_card_bits_Suc [of 0 b]
    by (simp add: bit_iffs numeral_2_eq_2 [symmetric]) argo
  ultimately show ?thesis by simp
qed

section \<open>A message followed by its own checksum\<close>

lemma crc_shl_0 [simp]: "crc_shl hi poly 0 = 0"
  by (simp add: crc_shl_def)

lemma crc_shr_0 [simp]: "crc_shr poly 0 = 0"
  by (simp add: crc_shr_def)

lemma funpow_fix: "f x = x \<Longrightarrow> (f ^^ n) x = x"
  by (induction n) auto

lemma crc8_byte_self [simp]: "crc8_byte poly r r = 0"
  by (simp add: crc8_byte_def funpow_fix)

lemma crc8le_byte_self [simp]: "crc8le_byte poly r r = 0"
  by (simp add: crc8le_byte_def funpow_fix)

end
