(* ===== verification/Subghz_Blocks.thy ===== *)
theory Subghz_Blocks
  imports Firmware_Prelude
begin

text \<open>
  The building blocks shared by the Sub-GHz protocols: \<^verbatim>\<open>lib/toolbox/level_duration.h\<close>,
  \<^verbatim>\<open>lib/subghz/blocks\<close> (const, decoder, encoder, generic, custom\_btn) and
  \<^verbatim>\<open>lib/subghz/protocols/common.c\<close>.

  A \<open>size_t\<close> is a natural number: every size and index here is far below the word size of
  the target. A decoder's callback is modelled by what it is handed: \<open>base_received\<close> is the
  list of the \<open>SubGhzBlockGeneric\<close> values the callback was called with, oldest first.
\<close>

section \<open>LevelDuration (toolbox/level\_duration.h)\<close>

record LevelDuration =
  ld_duration :: "30 word"
  ld_level :: "2 word"

abbreviation LEVEL_DURATION_RESET :: "2 word" where "LEVEL_DURATION_RESET \<equiv> 0"
abbreviation LEVEL_DURATION_LEVEL_LOW :: "2 word" where "LEVEL_DURATION_LEVEL_LOW \<equiv> 1"
abbreviation LEVEL_DURATION_LEVEL_HIGH :: "2 word" where "LEVEL_DURATION_LEVEL_HIGH \<equiv> 2"
abbreviation LEVEL_DURATION_WAIT :: "2 word" where "LEVEL_DURATION_WAIT \<equiv> 3"

definition level_duration_make :: "bool \<Rightarrow> u32 \<Rightarrow> LevelDuration" where
  "level_duration_make level duration =
     \<lparr>ld_duration = ucast duration,
      ld_level = (if level then LEVEL_DURATION_LEVEL_HIGH else LEVEL_DURATION_LEVEL_LOW)\<rparr>"

text \<open>
  The source leaves the duration of a reset or wait entry uninitialised; it is zero here,
  and no reader looks at it before testing the level.
\<close>

definition level_duration_reset :: LevelDuration where
  "level_duration_reset = \<lparr>ld_duration = 0, ld_level = LEVEL_DURATION_RESET\<rparr>"

definition level_duration_wait :: LevelDuration where
  "level_duration_wait = \<lparr>ld_duration = 0, ld_level = LEVEL_DURATION_WAIT\<rparr>"

definition level_duration_is_reset :: "LevelDuration \<Rightarrow> bool" where
  "level_duration_is_reset ld \<longleftrightarrow> ld_level ld = LEVEL_DURATION_RESET"

definition level_duration_is_wait :: "LevelDuration \<Rightarrow> bool" where
  "level_duration_is_wait ld \<longleftrightarrow> ld_level ld = LEVEL_DURATION_WAIT"

definition level_duration_get_level :: "LevelDuration \<Rightarrow> bool" where
  "level_duration_get_level ld \<longleftrightarrow> ld_level ld = LEVEL_DURATION_LEVEL_HIGH"

definition level_duration_get_duration :: "LevelDuration \<Rightarrow> u32" where
  "level_duration_get_duration ld = ucast (ld_duration ld)"

section \<open>Constants and decoder block (blocks/const.h, blocks/decoder.c)\<close>

record SubGhzBlockConst =
  te_long :: u16
  te_short :: u16
  te_delta :: u16
  min_count_bit_for_found :: u8

record SubGhzBlockDecoder =
  parser_step :: u32
  te_last :: u32
  decode_data :: u64
  decode_count_bit :: u8

text \<open>The parameter \<open>bit\<close> is a \<open>uint8_t\<close> that every caller passes as 0 or 1.\<close>

definition subghz_protocol_blocks_add_bit :: "u8 \<Rightarrow> SubGhzBlockDecoder \<Rightarrow> SubGhzBlockDecoder" where
  "subghz_protocol_blocks_add_bit b d =
     d\<lparr>decode_data := push_bit 1 (decode_data d) OR ucast b,
       decode_count_bit := decode_count_bit d + 1\<rparr>"

definition subghz_protocol_blocks_add_to_128_bit ::
  "u8 \<Rightarrow> SubGhzBlockDecoder \<Rightarrow> u64 \<Rightarrow> SubGhzBlockDecoder \<times> u64" where
  "subghz_protocol_blocks_add_to_128_bit b d head_64_bit =
     (let d = d\<lparr>decode_count_bit := decode_count_bit d + 1\<rparr>;
          head_64_bit = (if 64 < decode_count_bit d
            then push_bit 1 head_64_bit OR drop_bit 63 (decode_data d) else head_64_bit);
          d = d\<lparr>decode_data := push_bit 1 (decode_data d) OR ucast b\<rparr>
      in (d, head_64_bit))"

text \<open>
  \<open>uint8_t* p = (uint8_t*)&decoder->decode_data\<close> walks the memory from the first byte of
  \<open>decode_data\<close> on. The eight bytes of \<open>decode_data\<close> (little endian) are followed by
  \<open>decode_count_bit\<close> and by bytes that belong to the padding or to the next object; the
  latter are the parameter \<open>after\<close>.
\<close>

definition decoder_memory :: "SubGhzBlockDecoder \<Rightarrow> u8 list \<Rightarrow> u8 list" where
  "decoder_memory d after =
     map (\<lambda>i. ucast (drop_bit (8 * i) (decode_data d))) [0..<8] @ decode_count_bit d # after"

definition subghz_protocol_blocks_get_hash_data :: "SubGhzBlockDecoder \<Rightarrow> u8 list \<Rightarrow> nat \<Rightarrow> u8" where
  "subghz_protocol_blocks_get_hash_data d after len =
     fold (\<lambda>b hash. (hash XOR b) * 31) (take len (decoder_memory d after)) 0"

section \<open>Encoder block (blocks/encoder.c)\<close>

record SubGhzProtocolBlockEncoder =
  is_running :: bool
  repeat :: nat
  front :: nat
  size_upload :: nat
  upload :: "LevelDuration list"

datatype SubGhzProtocolBlockAlignBit =
  SubGhzProtocolBlockAlignBitLeft | SubGhzProtocolBlockAlignBitRight

text \<open>\<open>furi_check\<close> failing is \<open>None\<close>.\<close>

definition subghz_protocol_blocks_set_bit_array ::
  "bool \<Rightarrow> u8 list \<Rightarrow> nat \<Rightarrow> nat \<Rightarrow> u8 list option" where
  "subghz_protocol_blocks_set_bit_array bit_value data_array set_index_bit max_size_array =
     (if set_index_bit < max_size_array * 8 then
        let i = set_index_bit div 8
        in Some (data_array[i := bit_write (data_array ! i) (7 - set_index_bit mod 8) bit_value])
      else None)"

definition subghz_protocol_blocks_get_bit_array :: "u8 list \<Rightarrow> nat \<Rightarrow> bool" where
  "subghz_protocol_blocks_get_bit_array data_array read_index_bit \<longleftrightarrow>
     bit_read (data_array ! (read_index_bit div 8)) (7 - read_index_bit mod 8) \<noteq> 0"

text \<open>
  The loop of \<open>get_upload_from_bit_array\<close>: \<open>n\<close> iterations remain, \<open>index_bit\<close> is the next
  bit to look at; \<open>furi_crash\<close> on a full buffer is \<open>None\<close>.
\<close>

fun upload_from_bits_loop ::
  "u8 list \<Rightarrow> nat \<Rightarrow> u32 \<Rightarrow> nat \<Rightarrow> nat \<Rightarrow> bool \<Rightarrow> u32 \<Rightarrow> LevelDuration list \<Rightarrow> LevelDuration list option" where
  "upload_from_bits_loop data_array max_size_upload duration_bit 0 index_bit last_bit duration up =
     (if max_size_upload \<le> length up then None
      else Some (up @ [level_duration_make
        (subghz_protocol_blocks_get_bit_array data_array (index_bit - 1)) duration]))"
| "upload_from_bits_loop data_array max_size_upload duration_bit (Suc n) index_bit last_bit duration up =
     (if last_bit = subghz_protocol_blocks_get_bit_array data_array index_bit then
        upload_from_bits_loop data_array max_size_upload duration_bit n (index_bit + 1) last_bit
          (duration + duration_bit) up
      else if max_size_upload \<le> length up then None
      else upload_from_bits_loop data_array max_size_upload duration_bit n (index_bit + 1) (\<not> last_bit)
          duration_bit (up @ [level_duration_make
            (subghz_protocol_blocks_get_bit_array data_array (index_bit - 1)) duration]))"

definition subghz_protocol_blocks_get_upload_from_bit_array ::
  "u8 list \<Rightarrow> nat \<Rightarrow> nat \<Rightarrow> u32 \<Rightarrow> SubGhzProtocolBlockAlignBit \<Rightarrow> LevelDuration list option" where
  "subghz_protocol_blocks_get_upload_from_bit_array data_array count_bit_data_array max_size_upload
       duration_bit align_bit =
     (let bias_bit =
            (if align_bit = SubGhzProtocolBlockAlignBitRight \<and> count_bit_data_array mod 8 \<noteq> 0
             then 8 - count_bit_data_array mod 8 else 0)
      in upload_from_bits_loop data_array max_size_upload duration_bit (count_bit_data_array - 1)
           (bias_bit + 1) (subghz_protocol_blocks_get_bit_array data_array bias_bit) duration_bit [])"

section \<open>Generic block (blocks/generic.c)\<close>

record SubGhzBlockGeneric =
  protocol_name :: string
  data :: u64
  data_2 :: u64
  serial :: u32
  data_count_bit :: u16
  btn :: u8
  cnt :: u32
  cnt_2 :: u8
  seed :: u32

record SubGhzBlockGenericGlobal =
  current_cnt :: u32
  new_cnt :: u32
  cnt_need_override :: bool
  cnt_length_bit :: u8
  cnt_is_available :: bool
  current_btn :: u8
  new_btn :: u8
  btn_need_override :: bool
  btn_length_bit :: u8
  btn_is_available :: bool
  endless_tx :: bool

definition subghz_block_generic_global_counter_override_set ::
  "u32 \<Rightarrow> SubGhzBlockGenericGlobal \<Rightarrow> SubGhzBlockGenericGlobal" where
  "subghz_block_generic_global_counter_override_set counter g =
     g\<lparr>new_cnt := counter, cnt_need_override := True\<rparr>"

text \<open>The out-parameter is the second component; it is unchanged when the result is \<open>False\<close>.\<close>

definition subghz_block_generic_global_counter_override_get ::
  "u32 \<Rightarrow> SubGhzBlockGenericGlobal \<Rightarrow> bool \<times> u32 \<times> SubGhzBlockGenericGlobal" where
  "subghz_block_generic_global_counter_override_get counter g =
     (if cnt_need_override g
      then (True, new_cnt g AND drop_bit (32 - unat (cnt_length_bit g)) 0xFFFFFFFF,
            g\<lparr>cnt_need_override := False\<rparr>)
      else (False, counter, g))"

definition subghz_block_generic_global_button_override_set ::
  "u8 \<Rightarrow> SubGhzBlockGenericGlobal \<Rightarrow> SubGhzBlockGenericGlobal" where
  "subghz_block_generic_global_button_override_set button g =
     g\<lparr>new_btn := button, btn_need_override := True\<rparr>"

definition subghz_block_generic_global_button_override_get ::
  "u8 \<Rightarrow> SubGhzBlockGenericGlobal \<Rightarrow> bool \<times> u8 \<times> SubGhzBlockGenericGlobal" where
  "subghz_block_generic_global_button_override_get button g =
     (if btn_need_override g
      then (True, new_btn g AND drop_bit (8 - unat (btn_length_bit g)) 0xFF,
            g\<lparr>btn_need_override := False\<rparr>)
      else (False, button, g))"

definition subghz_block_generic_global_reset :: "SubGhzBlockGenericGlobal \<Rightarrow> SubGhzBlockGenericGlobal" where
  "subghz_block_generic_global_reset g =
     \<lparr>current_cnt = 0, new_cnt = 0, cnt_need_override = False, cnt_length_bit = 0,
      cnt_is_available = False, current_btn = 0, new_btn = 0, btn_need_override = False,
      btn_length_bit = 0, btn_is_available = False, endless_tx = endless_tx g\<rparr>"

definition subghz_block_generic_get_preset_name :: "string \<Rightarrow> string" where
  "subghz_block_generic_get_preset_name preset_name =
     (if preset_name = ''AM270'' then ''FuriHalSubGhzPresetOok270Async''
      else if preset_name = ''AM650'' then ''FuriHalSubGhzPresetOok650Async''
      else if preset_name = ''FM238'' then ''FuriHalSubGhzPreset2FSKDev238Async''
      else if preset_name = ''FM12K'' then ''FuriHalSubGhzPreset2FSKDev12KAsync''
      else if preset_name = ''FM476'' then ''FuriHalSubGhzPreset2FSKDev476Async''
      else ''FuriHalSubGhzPresetCustom'')"

section \<open>Custom buttons (blocks/custom\_btn.c)\<close>

abbreviation SUBGHZ_CUSTOM_BTN_OK :: u8 where "SUBGHZ_CUSTOM_BTN_OK \<equiv> 0"
abbreviation SUBGHZ_CUSTOM_BTN_UP :: u8 where "SUBGHZ_CUSTOM_BTN_UP \<equiv> 1"
abbreviation SUBGHZ_CUSTOM_BTN_DOWN :: u8 where "SUBGHZ_CUSTOM_BTN_DOWN \<equiv> 2"
abbreviation SUBGHZ_CUSTOM_BTN_LEFT :: u8 where "SUBGHZ_CUSTOM_BTN_LEFT \<equiv> 3"
abbreviation SUBGHZ_CUSTOM_BTN_RIGHT :: u8 where "SUBGHZ_CUSTOM_BTN_RIGHT \<equiv> 4"
abbreviation PROG_MODE_OFF :: u8 where "PROG_MODE_OFF \<equiv> 0"

record SubGhzCustomBtn =
  custom_btn_id :: u8
  custom_btn_original :: u8
  custom_btn_max_btns :: u8
  controller_programming_mode :: u8

definition custom_btn_init :: SubGhzCustomBtn where
  "custom_btn_init = \<lparr>custom_btn_id = SUBGHZ_CUSTOM_BTN_OK, custom_btn_original = 0,
     custom_btn_max_btns = 0, controller_programming_mode = PROG_MODE_OFF\<rparr>"

definition subghz_custom_btn_set :: "u8 \<Rightarrow> SubGhzCustomBtn \<Rightarrow> bool \<times> SubGhzCustomBtn" where
  "subghz_custom_btn_set btn_id c =
     (if custom_btn_max_btns c < btn_id
      then (False, c\<lparr>custom_btn_id := SUBGHZ_CUSTOM_BTN_OK\<rparr>)
      else (True, c\<lparr>custom_btn_id := btn_id\<rparr>))"

definition subghz_custom_btn_get :: "SubGhzCustomBtn \<Rightarrow> u8" where
  "subghz_custom_btn_get c = custom_btn_id c"

definition subghz_custom_btn_set_original :: "u8 \<Rightarrow> SubGhzCustomBtn \<Rightarrow> SubGhzCustomBtn" where
  "subghz_custom_btn_set_original btn_code c = c\<lparr>custom_btn_original := btn_code\<rparr>"

definition subghz_custom_btn_get_original :: "SubGhzCustomBtn \<Rightarrow> u8" where
  "subghz_custom_btn_get_original c = custom_btn_original c"

definition subghz_custom_btn_set_max :: "u8 \<Rightarrow> SubGhzCustomBtn \<Rightarrow> SubGhzCustomBtn" where
  "subghz_custom_btn_set_max b c = c\<lparr>custom_btn_max_btns := b\<rparr>"

definition subghz_custom_btns_reset :: "SubGhzCustomBtn \<Rightarrow> SubGhzCustomBtn" where
  "subghz_custom_btns_reset c =
     c\<lparr>custom_btn_original := 0, custom_btn_max_btns := 0,
       controller_programming_mode := PROG_MODE_OFF, custom_btn_id := SUBGHZ_CUSTOM_BTN_OK\<rparr>"

definition subghz_custom_btn_is_allowed :: "SubGhzCustomBtn \<Rightarrow> bool" where
  "subghz_custom_btn_is_allowed c \<longleftrightarrow> custom_btn_max_btns c \<noteq> 0"

definition subghz_custom_btn_set_prog_mode :: "u8 \<Rightarrow> SubGhzCustomBtn \<Rightarrow> SubGhzCustomBtn" where
  "subghz_custom_btn_set_prog_mode prog_mode c = c\<lparr>controller_programming_mode := prog_mode\<rparr>"

definition subghz_custom_btn_get_prog_mode :: "SubGhzCustomBtn \<Rightarrow> u8" where
  "subghz_custom_btn_get_prog_mode c = controller_programming_mode c"

end
