(* ===== verification/Subghz_Common.thy ===== *)
theory Subghz_Common
  imports Subghz_Blocks
begin

text \<open>
  \<^verbatim>\<open>lib/subghz/protocols/common.c\<close>: the member sequence every protocol instance starts with,
  the shared encoder and decoder operations, and the interface between a protocol's encoder
  and its decoder: what one key bit does to the decoder.

  The record extension mirrors the source's layout assertions: an instance with more members
  than the common sequence is a record that extends the common one.
\<close>

section \<open>Instances\<close>

record SubGhzProtocolDecoderBase =
  base_callback :: bool
  base_received :: "SubGhzBlockGeneric list"

record SubGhzProtocolDecoderCommon =
  base :: SubGhzProtocolDecoderBase
  decoder :: SubGhzBlockDecoder
  generic :: SubGhzBlockGeneric

record SubGhzProtocolDecoderCommonTe = SubGhzProtocolDecoderCommon +
  te :: u32

record SubGhzProtocolEncoderCommon =
  encoder :: SubGhzProtocolBlockEncoder

record SubGhzProtocolEncoderCommonGeneric = SubGhzProtocolEncoderCommon +
  enc_generic :: SubGhzBlockGeneric

text \<open>\<open>malloc\<close> of the firmware clears the memory (\<^verbatim>\<open>furi/core/memmgr.c\<close>).\<close>

definition generic_zero :: "string \<Rightarrow> SubGhzBlockGeneric" where
  "generic_zero name = \<lparr>protocol_name = name, data = 0, data_2 = 0, serial = 0, data_count_bit = 0,
     btn = 0, cnt = 0, cnt_2 = 0, seed = 0\<rparr>"

definition subghz_protocol_decoder_common_alloc :: "string \<Rightarrow> SubGhzProtocolDecoderCommon" where
  "subghz_protocol_decoder_common_alloc name =
     \<lparr>base = \<lparr>base_callback = False, base_received = []\<rparr>,
      decoder = \<lparr>parser_step = 0, te_last = 0, decode_data = 0, decode_count_bit = 0\<rparr>,
      generic = generic_zero name\<rparr>"

definition subghz_protocol_encoder_common_alloc ::
  "string \<Rightarrow> nat \<Rightarrow> nat \<Rightarrow> SubGhzProtocolEncoderCommonGeneric" where
  "subghz_protocol_encoder_common_alloc name rpt n =
     \<lparr>encoder = \<lparr>is_running = False, repeat = rpt, front = 0, size_upload = n,
        upload = replicate n \<lparr>ld_duration = 0, ld_level = 0\<rparr>\<rparr>,
      enc_generic = generic_zero name\<rparr>"

section \<open>Shared operations\<close>

definition subghz_protocol_encoder_common_stop ::
  "'a SubGhzProtocolEncoderCommon_scheme \<Rightarrow> 'a SubGhzProtocolEncoderCommon_scheme" where
  "subghz_protocol_encoder_common_stop i = i\<lparr>encoder := (encoder i)\<lparr>is_running := False\<rparr>\<rparr>"

definition subghz_protocol_encoder_common_yield ::
  "SubGhzBlockGenericGlobal \<Rightarrow> 'a SubGhzProtocolEncoderCommon_scheme \<Rightarrow>
   LevelDuration \<times> 'a SubGhzProtocolEncoderCommon_scheme" where
  "subghz_protocol_encoder_common_yield g i =
     (let e = encoder i in
      if repeat e = 0 \<or> \<not> is_running e
      then (level_duration_reset, i\<lparr>encoder := e\<lparr>is_running := False\<rparr>\<rparr>)
      else
        let ret = upload e ! front e;
            e = e\<lparr>front := front e + 1\<rparr>;
            e = (if front e = size_upload e
                 then (if \<not> endless_tx g then e\<lparr>repeat := repeat e - 1\<rparr> else e)\<lparr>front := 0\<rparr>
                 else e)
        in (ret, i\<lparr>encoder := e\<rparr>))"

definition subghz_protocol_decoder_common_reset ::
  "'a SubGhzProtocolDecoderCommon_scheme \<Rightarrow> 'a SubGhzProtocolDecoderCommon_scheme" where
  "subghz_protocol_decoder_common_reset i = i\<lparr>decoder := (decoder i)\<lparr>parser_step := 0\<rparr>\<rparr>"

definition subghz_protocol_decoder_common_get_hash_data ::
  "'a SubGhzProtocolDecoderCommon_scheme \<Rightarrow> u8 list \<Rightarrow> u8" where
  "subghz_protocol_decoder_common_get_hash_data i after =
     subghz_protocol_blocks_get_hash_data (decoder i) after
       (unat (decode_count_bit (decoder i)) div 8 + 1)"

definition subghz_protocol_decoder_common_get_hash_data_serial ::
  "'a SubGhzProtocolDecoderCommon_scheme \<Rightarrow> u8" where
  "subghz_protocol_decoder_common_get_hash_data_serial i =
     (let ident = serial (generic i) XOR cnt (generic i)
      in ucast (drop_bit 24 (ident * 2654435761)))"

text \<open>\<open>if(instance->base.callback) instance->base.callback(...)\<close>\<close>

definition invoke_callback ::
  "'a SubGhzProtocolDecoderCommon_scheme \<Rightarrow> 'a SubGhzProtocolDecoderCommon_scheme" where
  "invoke_callback i =
     (if base_callback (base i)
      then i\<lparr>base := (base i)\<lparr>base_received := base_received (base i) @ [generic i]\<rparr>\<rparr> else i)"

text \<open>\<^verbatim>\<open>base.c\<close>: registering a callback.\<close>

definition subghz_protocol_decoder_base_set_decoder_callback ::
  "'a SubGhzProtocolDecoderCommon_scheme \<Rightarrow> 'a SubGhzProtocolDecoderCommon_scheme" where
  "subghz_protocol_decoder_base_set_decoder_callback i = i\<lparr>base := (base i)\<lparr>base_callback := True\<rparr>\<rparr>"

section \<open>Abbreviations for the assignments of the decoders\<close>

abbreviation step_to ::
  "u32 \<Rightarrow> 'a SubGhzProtocolDecoderCommon_scheme \<Rightarrow> 'a SubGhzProtocolDecoderCommon_scheme" where
  "step_to st \<equiv> decoder_update (parser_step_update (\<lambda>_. st))"

abbreviation save_te ::
  "u32 \<Rightarrow> 'a SubGhzProtocolDecoderCommon_scheme \<Rightarrow> 'a SubGhzProtocolDecoderCommon_scheme" where
  "save_te d \<equiv> decoder_update (te_last_update (\<lambda>_. d))"

abbreviation clear_bits ::
  "'a SubGhzProtocolDecoderCommon_scheme \<Rightarrow> 'a SubGhzProtocolDecoderCommon_scheme" where
  "clear_bits \<equiv> decoder_update (\<lambda>d. d\<lparr>decode_data := 0, decode_count_bit := 0\<rparr>)"

abbreviation add_bit ::
  "u8 \<Rightarrow> 'a SubGhzProtocolDecoderCommon_scheme \<Rightarrow> 'a SubGhzProtocolDecoderCommon_scheme" where
  "add_bit b \<equiv> decoder_update (subghz_protocol_blocks_add_bit b)"

text \<open>\<open>instance->generic.data = decode_data; instance->generic.data_count_bit = decode_count_bit\<close>\<close>

abbreviation take_key ::
  "'a SubGhzProtocolDecoderCommon_scheme \<Rightarrow> 'a SubGhzProtocolDecoderCommon_scheme" where
  "take_key i \<equiv> i\<lparr>generic := (generic i)\<lparr>data := decode_data (decoder i),
     data_count_bit := ucast (decode_count_bit (decoder i))\<rparr>\<rparr>"

text \<open>Writing the generated entries over the beginning of the upload buffer.\<close>

definition store_upload ::
  "LevelDuration list \<Rightarrow> SubGhzProtocolBlockEncoder \<Rightarrow> SubGhzProtocolBlockEncoder" where
  "store_upload ws e = e\<lparr>upload := ws @ drop (length ws) (upload e)\<rparr>"

text \<open>
  The beginning every \<open>get_upload\<close> has: fail if the frame does not fit the allocated buffer,
  else record its size; then the entries are written.
\<close>

definition put_upload ::
  "nat \<Rightarrow> LevelDuration list \<Rightarrow> 'a SubGhzProtocolEncoderCommon_scheme \<Rightarrow>
   bool \<times> 'a SubGhzProtocolEncoderCommon_scheme" where
  "put_upload su ws i =
     (if size_upload (encoder i) < su then (False, i)
      else (True, i\<lparr>encoder := store_upload ws ((encoder i)\<lparr>size_upload := su\<rparr>)\<rparr>))"

text \<open>
  The loop \<open>for(uint8_t i = data_count_bit; i > 0; i--)\<close> over \<open>bit_read(data, i - 1)\<close>;
  \<open>send\<close> gives the entries sent for one bit.
\<close>

definition upload_bits :: "(bool \<Rightarrow> LevelDuration list) \<Rightarrow> u64 \<Rightarrow> nat \<Rightarrow> LevelDuration list" where
  "upload_bits send key n = concat (map (\<lambda>i. send (bit_read key i \<noteq> 0)) (rev [0..<n]))"

lemma put_upload_sent:
  assumes "put_upload n ws i = (ok, e)" and "length ws = n" and "n \<le> size_upload (encoder i)"
    and "size_upload (encoder i) \<le> length (upload (encoder i))"
  shows "ok \<and> take n (upload (encoder e)) = ws \<and> size_upload (encoder e) = n \<and>
    length (upload (encoder e)) = length (upload (encoder i))"
  using assms by (auto simp: put_upload_def store_upload_def)

section \<open>A whole transmission\<close>

text \<open>The radio driver calls \<open>yield\<close> until it gets a reset entry.\<close>

fun yields ::
  "nat \<Rightarrow> SubGhzBlockGenericGlobal \<Rightarrow> 'a SubGhzProtocolEncoderCommon_scheme \<Rightarrow>
   LevelDuration list \<times> 'a SubGhzProtocolEncoderCommon_scheme" where
  "yields 0 g i = ([], i)"
| "yields (Suc n) g i =
     (let (ld, i) = subghz_protocol_encoder_common_yield g i; (lds, i) = yields n g i in (ld # lds, i))"

abbreviation sent_upload :: "'a SubGhzProtocolEncoderCommon_scheme \<Rightarrow> LevelDuration list" where
  "sent_upload i \<equiv> take (size_upload (encoder i)) (upload (encoder i))"

lemma yields_append:
  "yields (m + n) g i =
     (let (xs, i) = yields m g i; (ys, i) = yields n g i in (xs @ ys, i))"
  by (induction m arbitrary: i) (auto simp: Let_def split: prod.splits)

text \<open>From position \<open>front\<close> the encoder sends the rest of the frame and starts over.\<close>

lemma yields_rest:
  assumes "is_running (encoder i)" "repeat (encoder i) = Suc r" "k < size_upload (encoder i)"
    and "size_upload (encoder i) \<le> length (upload (encoder i))"
  shows "yields (size_upload (encoder i) - k) g (i\<lparr>encoder := (encoder i)\<lparr>front := k\<rparr>\<rparr>) =
    (drop k (sent_upload i),
     i\<lparr>encoder := (encoder i)\<lparr>front := 0, repeat := (if endless_tx g then Suc r else r)\<rparr>\<rparr>)"
  using assms(3)
proof (induction "size_upload (encoder i) - k" arbitrary: k)
  case (Suc n)
  have drop: "drop k (sent_upload i) = upload (encoder i) ! k # drop (Suc k) (sent_upload i)"
    using Suc.prems assms(4) by (simp add: Cons_nth_drop_Suc [symmetric])
  show ?case
  proof (cases "Suc k = size_upload (encoder i)")
    case True
    then have "size_upload (encoder i) - k = Suc 0" by simp
    then show ?thesis
      using True assms(1,2) drop
      by (simp add: subghz_protocol_encoder_common_yield_def)
  next
    case False
    then have lt: "Suc k < size_upload (encoder i)" and n: "n = size_upload (encoder i) - Suc k"
      using Suc by auto
    have "subghz_protocol_encoder_common_yield g (i\<lparr>encoder := (encoder i)\<lparr>front := k\<rparr>\<rparr>) =
        (upload (encoder i) ! k, i\<lparr>encoder := (encoder i)\<lparr>front := Suc k\<rparr>\<rparr>)"
      using False assms(1,2) by (simp add: subghz_protocol_encoder_common_yield_def)
    with Suc.hyps(1) [OF n lt] drop show ?thesis
      by (simp add: Suc.hyps(2) [symmetric] n)
  qed
qed simp

lemma yields_frame:
  assumes "is_running (encoder i)" "repeat (encoder i) = Suc r" "front (encoder i) = 0"
    "0 < size_upload (encoder i)" "size_upload (encoder i) \<le> length (upload (encoder i))"
  shows "yields (size_upload (encoder i)) g i =
    (sent_upload i, i\<lparr>encoder := (encoder i)\<lparr>repeat := (if endless_tx g then Suc r else r)\<rparr>\<rparr>)"
proof -
  have e: "(encoder i)\<lparr>front := 0\<rparr> = encoder i"
    using assms(3) by (cases "encoder i") simp
  then have i: "i\<lparr>encoder := (encoder i)\<lparr>front := 0\<rparr>\<rparr> = i"
    by (cases i) simp
  have "(encoder i)\<lparr>front := 0, repeat := x\<rparr> = (encoder i)\<lparr>repeat := x\<rparr>" for x
    using e by simp
  then show ?thesis
    using yields_rest [OF assms(1,2,4,5), of g] by (simp only: i drop_0 diff_zero)
qed

lemma yields_all:
  assumes "is_running (encoder i)" "front (encoder i) = 0" "\<not> endless_tx g"
    "0 < size_upload (encoder i)" "size_upload (encoder i) \<le> length (upload (encoder i))"
  shows "yields (r * size_upload (encoder i)) g (i\<lparr>encoder := (encoder i)\<lparr>repeat := r\<rparr>\<rparr>) =
    (concat (replicate r (sent_upload i)), i\<lparr>encoder := (encoder i)\<lparr>repeat := 0\<rparr>\<rparr>)"
proof (induction r)
  case (Suc r)
  have "yields (size_upload (encoder i)) g (i\<lparr>encoder := (encoder i)\<lparr>repeat := Suc r\<rparr>\<rparr>) =
      (sent_upload i, i\<lparr>encoder := (encoder i)\<lparr>repeat := r\<rparr>\<rparr>)"
    using yields_frame [of "i\<lparr>encoder := (encoder i)\<lparr>repeat := Suc r\<rparr>\<rparr>" r g] assms by simp
  with Suc show ?case
    by (simp add: yields_append)
qed simp

section \<open>Encoder and decoder back to back\<close>

text \<open>What the decoder sees of an upload on a perfect channel.\<close>

definition feed_upload :: "('s \<Rightarrow> bool \<Rightarrow> u32 \<Rightarrow> 's) \<Rightarrow> LevelDuration list \<Rightarrow> 's \<Rightarrow> 's" where
  "feed_upload feed ups s =
     fold (\<lambda>ld s. feed s (level_duration_get_level ld) (level_duration_get_duration ld)) ups s"

lemma get_level_make [simp]: "level_duration_get_level (level_duration_make l d) = l"
  by (simp add: level_duration_get_level_def level_duration_make_def)

lemma get_duration_make: "level_duration_get_duration (level_duration_make l d) = take_bit 30 d"
  by (rule bit_word_eqI)
    (auto simp: level_duration_get_duration_def level_duration_make_def bit_iffs)

lemma get_duration_make_small [simp]:
  "d < 0x40000000 \<Longrightarrow> level_duration_get_duration (level_duration_make l d) = d"
  by (simp add: get_duration_make take_bit_word_less word_less_nat_alt)

lemma feed_upload_Nil [simp]: "feed_upload feed [] s = s"
  by (simp add: feed_upload_def)

lemma feed_upload_Cons [simp]:
  "feed_upload feed (ld # ups) s =
     feed_upload feed ups (feed s (level_duration_get_level ld) (level_duration_get_duration ld))"
  by (simp add: feed_upload_def)

lemma feed_upload_append [simp]:
  "feed_upload feed (xs @ ys) s = feed_upload feed ys (feed_upload feed xs s)"
  by (simp add: feed_upload_def)

lemma upload_bits_0 [simp]: "upload_bits send key 0 = []"
  by (simp add: upload_bits_def)

lemma upload_bits_Suc: "upload_bits send key (Suc n) = send (bit key n) @ upload_bits send key n"
  by (simp add: upload_bits_def)

lemma length_upload_bits:
  assumes "\<And>b. length (send b) = k"
  shows "length (upload_bits send key n) = k * n"
  by (induction n) (simp_all add: upload_bits_Suc assms)

text \<open>
  The interface between the encoder and the decoder of a protocol that sends the key bit by
  bit, most significant bit first: from a state that is \<open>ready\<close> for the next bit with the
  bits \<open>D\<close> of which there are \<open>c < 64\<close>, the entries sent for one more bit lead to a ready state with
  that bit shifted in. The parameter \<open>f\<close> carries what the bits do not change.
\<close>

locale bit_link =
  fixes feed :: "'s \<Rightarrow> bool \<Rightarrow> u32 \<Rightarrow> 's"
    and send :: "'f \<Rightarrow> bool \<Rightarrow> LevelDuration list"
    and ready :: "'f \<Rightarrow> u64 \<Rightarrow> nat \<Rightarrow> 's \<Rightarrow> bool"
  assumes one_bit: "ready f D c s \<Longrightarrow> c < 64 \<Longrightarrow>
    ready f (push_bit 1 D OR of_bool b) (Suc c) (feed_upload feed (send f b) s)"
begin

lemma bits_from:
  "ready f D c s \<Longrightarrow> c + n \<le> 64 \<Longrightarrow> ready f (push_bit n D OR take_bit n key) (c + n)
     (feed_upload feed (upload_bits (send f) key n) s)"
proof (induction n arbitrary: D c s)
  case 0
  then show ?case by simp
next
  case (Suc n)
  have D: "push_bit n (push_bit 1 D OR of_bool (bit key n)) OR take_bit n key =
      push_bit (Suc n) D OR take_bit (Suc n) key"
    by (rule bit_word_eqI) (auto simp: bit_iffs less_Suc_eq)
  have "ready f (push_bit 1 D OR of_bool (bit key n)) (Suc c) (feed_upload feed (send f (bit key n)) s)"
    using Suc.prems by (intro one_bit) auto
  from Suc.IH [OF this] Suc.prems(2) show ?case
    unfolding D by (simp add: upload_bits_Suc)
qed

lemma key_bits:
  assumes "ready f 0 0 s" and "n \<le> 64"
  shows "ready f (take_bit n key) n (feed_upload feed (upload_bits (send f) key n) s)"
  using bits_from [OF assms(1), of n key] assms(2) by simp

end

text \<open>
  A protocol whose frame starts with a header that also ends the frame before it: the first
  header synchronises an idle decoder, and a header after \<open>nbits\<close> bits delivers them
  (\<open>deliver\<close> says how the delivery changes what the bits do not).
\<close>

locale header_link = bit_link feed send ready
  for feed :: "'s \<Rightarrow> bool \<Rightarrow> u32 \<Rightarrow> 's"
    and send :: "'f \<Rightarrow> bool \<Rightarrow> LevelDuration list"
    and ready :: "'f \<Rightarrow> u64 \<Rightarrow> nat \<Rightarrow> 's \<Rightarrow> bool" +
  fixes head :: "'f \<Rightarrow> LevelDuration list"
    and nbits :: "'f \<Rightarrow> nat"
    and idle :: "'f \<Rightarrow> 's \<Rightarrow> bool"
    and deliver :: "u64 \<Rightarrow> 'f \<Rightarrow> 'f"
  assumes sync: "idle f s \<Longrightarrow> ready f 0 0 (feed_upload feed (head f) s)"
    and nbits_le: "idle f s \<Longrightarrow> nbits f \<le> 64"
    and again: "ready f D (nbits f) s \<Longrightarrow>
      ready (deliver D f) 0 0 (feed_upload feed (head f) s)"
    and deliver_head: "head (deliver D f) = head f"
    and deliver_send: "send (deliver D f) = send f"
    and deliver_nbits: "nbits (deliver D f) = nbits f"
begin

lemma delivered_fixed:
  "head ((deliver D ^^ k) f) = head f \<and> send ((deliver D ^^ k) f) = send f \<and>
   nbits ((deliver D ^^ k) f) = nbits f"
  by (induction k) (simp_all add: deliver_head deliver_send deliver_nbits)

text \<open>\<open>k + 1\<close> frames in a row deliver the key \<open>k\<close> times and leave the last one pending.\<close>

lemma frames:
  assumes "idle f s"
  shows "ready ((deliver (take_bit (nbits f) key) ^^ k) f) (take_bit (nbits f) key) (nbits f)
     (feed_upload feed (concat (replicate (Suc k) (head f @ upload_bits (send f) key (nbits f)))) s)"
proof (induction k)
  case 0
  then show ?case
    using key_bits [OF sync [OF assms] nbits_le [OF assms], of key] by simp
next
  case (Suc k)
  let ?D = "take_bit (nbits f) key" and ?up = "head f @ upload_bits (send f) key (nbits f)"
  let ?f = "(deliver ?D ^^ k) f" and ?s = "feed_upload feed (concat (replicate (Suc k) ?up)) s"
  have fixed: "head ?f = head f" "send ?f = send f" "nbits ?f = nbits f"
    by (simp_all add: delivered_fixed)
  have "ready (deliver ?D ?f) 0 0 (feed_upload feed (head f) ?s)"
    using again [of ?f ?D ?s] Suc by (simp only: fixed)
  from key_bits [OF this nbits_le [OF assms], of key]
  have "ready (deliver ?D ?f) ?D (nbits f) (feed_upload feed ?up ?s)"
    by (simp add: deliver_send fixed)
  moreover have "concat (replicate (Suc (Suc k)) ?up) = concat (replicate (Suc k) ?up) @ ?up"
    by (simp only: replicate_append_same [symmetric] replicate_Suc [of "Suc k"]) simp
  ultimately show ?case
    by (simp only: feed_upload_append funpow.simps comp_def)
qed

end

section \<open>What a delivery changes\<close>

text \<open>
  What the bits of a frame leave alone: the callback registration and log, and the generic
  block. A delivery updates the generic block by \<open>upd\<close> and logs it.
\<close>

type_synonym link_frame = "SubGhzProtocolDecoderBase \<times> SubGhzBlockGeneric"

definition deliver_with ::
  "(u64 \<Rightarrow> SubGhzBlockGeneric \<Rightarrow> SubGhzBlockGeneric) \<Rightarrow> u64 \<Rightarrow> link_frame \<Rightarrow> link_frame" where
  "deliver_with upd D f =
     (let g = upd D (snd f)
      in ((if base_callback (fst f) then (fst f)\<lparr>base_received := base_received (fst f) @ [g]\<rparr> else fst f), g))"

definition set_key :: "nat \<Rightarrow> u64 \<Rightarrow> SubGhzBlockGeneric \<Rightarrow> SubGhzBlockGeneric" where
  "set_key n D g = g\<lparr>data := D, data_count_bit := of_nat n\<rparr>"

definition set_key_clear :: "nat \<Rightarrow> u64 \<Rightarrow> SubGhzBlockGeneric \<Rightarrow> SubGhzBlockGeneric" where
  "set_key_clear n D g = g\<lparr>serial := 0, btn := 0, data := D, data_count_bit := of_nat n\<rparr>"

lemma set_key_idem [simp]:
  "set_key n D (set_key n D g) = set_key n D g"
  "set_key_clear n D (set_key_clear n D g) = set_key_clear n D g"
  by (simp_all add: set_key_def set_key_clear_def)

lemma deliver_with_iter:
  assumes cb: "base_callback (fst f)" and idem: "\<And>g. upd D (upd D g) = upd D g"
  shows "base_callback (fst ((deliver_with upd D ^^ k) f)) \<and>
    upd D (snd ((deliver_with upd D ^^ k) f)) = upd D (snd f) \<and>
    base_received (fst ((deliver_with upd D ^^ k) f)) =
      base_received (fst f) @ replicate k (upd D (snd f))"
proof (induction k)
  case 0
  then show ?case using cb by simp
next
  case (Suc k)
  then show ?case
    by (simp add: deliver_with_def [of upd D "(deliver_with upd D ^^ k) f"] Let_def idem
        replicate_append_same)
qed

text \<open>An encoder instance holding a key, and a decoder instance with a callback.\<close>

abbreviation load_key ::
  "u16 \<Rightarrow> u64 \<Rightarrow> 'a SubGhzProtocolEncoderCommonGeneric_scheme \<Rightarrow> 'a SubGhzProtocolEncoderCommonGeneric_scheme" where
  "load_key n key e \<equiv> e\<lparr>enc_generic := (enc_generic e)\<lparr>data := key, data_count_bit := n\<rparr>\<rparr>"

abbreviation listening ::
  "'a SubGhzProtocolDecoderCommon_scheme \<Rightarrow> 'a SubGhzProtocolDecoderCommon_scheme" where
  "listening \<equiv> subghz_protocol_decoder_base_set_decoder_callback"

lemmas alloc_defs = subghz_protocol_encoder_common_alloc_def subghz_protocol_decoder_common_alloc_def
  subghz_protocol_decoder_base_set_decoder_callback_def

section \<open>Durations of the protocol constants\<close>

abbreviation short_us :: "SubGhzBlockConst \<Rightarrow> u32" where "short_us c \<equiv> ucast (te_short c)"
abbreviation long_us :: "SubGhzBlockConst \<Rightarrow> u32" where "long_us c \<equiv> ucast (te_long c)"
abbreviation delta_us :: "SubGhzBlockConst \<Rightarrow> u32" where "delta_us c \<equiv> ucast (te_delta c)"

end
