(* ===== verification/Subghz_Header_Protocols.thy ===== *)
theory Subghz_Header_Protocols
  imports Subghz_Common
begin

text \<open>
  The static protocols whose frame is a long low header, a start pulse and the key bits:
  \<^verbatim>\<open>gate_tx.c\<close>, \<^verbatim>\<open>nice_flo.c\<close>, \<^verbatim>\<open>came.c\<close> and \<^verbatim>\<open>holtek_ht12x.c\<close> of
  \<^verbatim>\<open>lib/subghz/protocols\<close>. For each: the constants, the encoder's \<open>get_upload\<close>, the decoder's
  \<open>feed\<close>, and the interpretation of the interface \<open>header_link\<close> on them.
\<close>

section \<open>GateTX (gate\_tx.c)\<close>

definition subghz_protocol_gate_tx_const :: SubGhzBlockConst where
  "subghz_protocol_gate_tx_const =
     \<lparr>te_long = 700, te_short = 350, te_delta = 100, min_count_bit_for_found = 24\<rparr>"

abbreviation GateTXDecoderStepReset :: u32 where "GateTXDecoderStepReset \<equiv> 0"
abbreviation GateTXDecoderStepFoundStartBit :: u32 where "GateTXDecoderStepFoundStartBit \<equiv> 1"
abbreviation GateTXDecoderStepSaveDuration :: u32 where "GateTXDecoderStepSaveDuration \<equiv> 2"
abbreviation GateTXDecoderStepCheckDuration :: u32 where "GateTXDecoderStepCheckDuration \<equiv> 3"

definition subghz_protocol_encoder_gate_tx_alloc :: "SubGhzProtocolEncoderCommonGeneric" where
  "subghz_protocol_encoder_gate_tx_alloc = subghz_protocol_encoder_common_alloc ''GateTX'' 3 52"

definition subghz_protocol_decoder_gate_tx_alloc :: "SubGhzProtocolDecoderCommon" where
  "subghz_protocol_decoder_gate_tx_alloc = subghz_protocol_decoder_common_alloc ''GateTX''"

definition gate_tx_header :: "LevelDuration list" where
  "gate_tx_header =
     [level_duration_make False (short_us subghz_protocol_gate_tx_const * 49),
      level_duration_make True (long_us subghz_protocol_gate_tx_const)]"

definition gate_tx_send :: "bool \<Rightarrow> LevelDuration list" where
  "gate_tx_send b =
     (if b then [level_duration_make False (long_us subghz_protocol_gate_tx_const),
                 level_duration_make True (short_us subghz_protocol_gate_tx_const)]
      else [level_duration_make False (short_us subghz_protocol_gate_tx_const),
            level_duration_make True (long_us subghz_protocol_gate_tx_const)])"

definition subghz_protocol_encoder_gate_tx_get_upload ::
  "SubGhzProtocolEncoderCommonGeneric \<Rightarrow> bool \<times> SubGhzProtocolEncoderCommonGeneric" where
  "subghz_protocol_encoder_gate_tx_get_upload i =
     put_upload (unat (data_count_bit (enc_generic i)) * 2 + 2)
       (gate_tx_header @ upload_bits gate_tx_send (data (enc_generic i))
          (unat (ucast (data_count_bit (enc_generic i)) :: u8))) i"

definition subghz_protocol_decoder_gate_tx_feed ::
  "SubGhzProtocolDecoderCommon \<Rightarrow> bool \<Rightarrow> u32 \<Rightarrow> SubGhzProtocolDecoderCommon" where
  "subghz_protocol_decoder_gate_tx_feed i level duration =
     (let c = subghz_protocol_gate_tx_const; st = parser_step (decoder i) in
      if st = GateTXDecoderStepReset then
        (if \<not> level \<and> DURATION_DIFF duration (short_us c * 47) < delta_us c * 47
         then step_to GateTXDecoderStepFoundStartBit i else i)
      else if st = GateTXDecoderStepFoundStartBit then
        (if level \<and> DURATION_DIFF duration (long_us c) < delta_us c * 3
         then clear_bits (step_to GateTXDecoderStepSaveDuration i)
         else step_to GateTXDecoderStepReset i)
      else if st = GateTXDecoderStepSaveDuration then
        (if \<not> level then
           (if short_us c * 10 + delta_us c \<le> duration then
              let i = step_to GateTXDecoderStepFoundStartBit i;
                  i = (if decode_count_bit (decoder i) = min_count_bit_for_found c
                       then invoke_callback (take_key i) else i)
              in clear_bits i
            else step_to GateTXDecoderStepCheckDuration (save_te duration i))
         else i)
      else if st = GateTXDecoderStepCheckDuration then
        (if level then
           (if DURATION_DIFF (te_last (decoder i)) (short_us c) < delta_us c \<and>
               DURATION_DIFF duration (long_us c) < delta_us c * 3
            then step_to GateTXDecoderStepSaveDuration (add_bit 0 i)
            else if DURATION_DIFF (te_last (decoder i)) (long_us c) < delta_us c * 3 \<and>
               DURATION_DIFF duration (short_us c) < delta_us c
            then step_to GateTXDecoderStepSaveDuration (add_bit 1 i)
            else step_to GateTXDecoderStepReset i)
         else step_to GateTXDecoderStepReset i)
      else i)"

lemmas gate_tx_defs = subghz_protocol_decoder_gate_tx_feed_def subghz_protocol_gate_tx_const_def
  gate_tx_header_def gate_tx_send_def

definition gate_tx_ready :: "link_frame \<Rightarrow> u64 \<Rightarrow> nat \<Rightarrow> SubGhzProtocolDecoderCommon \<Rightarrow> bool" where
  "gate_tx_ready f D c s \<longleftrightarrow>
     parser_step (decoder s) = GateTXDecoderStepSaveDuration \<and> decode_data (decoder s) = D \<and>
     decode_count_bit (decoder s) = of_nat c \<and> base s = fst f \<and> generic s = snd f"

definition gate_tx_idle :: "link_frame \<Rightarrow> SubGhzProtocolDecoderCommon \<Rightarrow> bool" where
  "gate_tx_idle f s \<longleftrightarrow> parser_step (decoder s) = GateTXDecoderStepReset \<and> base s = fst f \<and> generic s = snd f"

interpretation gate_tx: header_link subghz_protocol_decoder_gate_tx_feed "\<lambda>f. gate_tx_send"
  gate_tx_ready "\<lambda>f. gate_tx_header" "\<lambda>f. 24" gate_tx_idle "deliver_with (set_key 24)"
proof (unfold_locales, goal_cases)
  case (1 f D c s b)
  then show ?case
    by (cases b) (auto simp: gate_tx_ready_def gate_tx_defs DURATION_DIFF_def Let_def
        subghz_protocol_blocks_add_bit_def)
next
  case (2 f s)
  then show ?case
    by (auto simp: gate_tx_ready_def gate_tx_idle_def gate_tx_defs DURATION_DIFF_def Let_def)
next
  case (4 f D s)
  then show ?case
    by (auto simp: gate_tx_ready_def gate_tx_defs DURATION_DIFF_def Let_def invoke_callback_def
        deliver_with_def set_key_def)
qed simp_all

lemma length_gate_tx_upload: "length (gate_tx_header @ upload_bits gate_tx_send key n) = n * 2 + 2"
  by (simp add: gate_tx_header_def length_upload_bits [where k = 2] gate_tx_send_def)

lemma gate_tx_sent:
  assumes "subghz_protocol_encoder_gate_tx_get_upload (load_key 24 key subghz_protocol_encoder_gate_tx_alloc) = (ok, e)"
  shows "ok \<and> sent_upload e = gate_tx_header @ upload_bits gate_tx_send key 24 \<and>
    length (upload (encoder e)) = 52"
  using put_upload_sent [OF assms [unfolded subghz_protocol_encoder_gate_tx_get_upload_def]]
    length_gate_tx_upload [of key 24]
  by (simp add: subghz_protocol_encoder_gate_tx_alloc_def alloc_defs)

text \<open>
  C6 GateTX, encoder to decoder: a 24-bit key loaded into a fresh encoder is accepted, and a
  fresh decoder that hears the generated frame \<open>k + 1\<close> times calls its callback exactly
  \<open>k\<close> times, each time with exactly that key and 24 bits. The frame fits the allocated buffer.
\<close>

theorem gate_tx_roundtrip:
  "case subghz_protocol_encoder_gate_tx_get_upload (load_key 24 key subghz_protocol_encoder_gate_tx_alloc) of
     (ok, e) \<Rightarrow> ok \<and> length (upload (encoder e)) = 52 \<and>
       base_received (base (feed_upload subghz_protocol_decoder_gate_tx_feed
         (concat (replicate (Suc k) (sent_upload e))) (listening subghz_protocol_decoder_gate_tx_alloc))) =
       replicate k ((generic_zero ''GateTX'')\<lparr>data := take_bit 24 key, data_count_bit := 24\<rparr>)"
proof -
  obtain ok e where e: "subghz_protocol_encoder_gate_tx_get_upload
      (load_key 24 key subghz_protocol_encoder_gate_tx_alloc) = (ok, e)"
    by (rule prod.exhaust)
  let ?s = "listening subghz_protocol_decoder_gate_tx_alloc"
  let ?f = "(base ?s, generic ?s)"
  have "gate_tx_idle ?f ?s"
    by (simp add: gate_tx_idle_def subghz_protocol_decoder_gate_tx_alloc_def alloc_defs)
  from gate_tx.frames [OF this, where key = key and k = k]
  have "base (feed_upload subghz_protocol_decoder_gate_tx_feed (concat (replicate (Suc k) (sent_upload e))) ?s) =
      fst ((deliver_with (set_key 24) (take_bit 24 key) ^^ k) ?f)"
    using gate_tx_sent [OF e] by (simp only: gate_tx_ready_def)
  moreover have "base_callback (fst ?f)"
    by (simp add: alloc_defs)
  ultimately show ?thesis
    using gate_tx_sent [OF e] deliver_with_iter [of ?f "set_key 24" "take_bit 24 key" k] e
    by (simp add: subghz_protocol_decoder_gate_tx_alloc_def alloc_defs) (simp add: set_key_def)
qed

section \<open>Nice FLO (nice\_flo.c)\<close>

definition subghz_protocol_nice_flo_const :: SubGhzBlockConst where
  "subghz_protocol_nice_flo_const =
     \<lparr>te_long = 1400, te_short = 700, te_delta = 250, min_count_bit_for_found = 12\<rparr>"

abbreviation NiceFloDecoderStepReset :: u32 where "NiceFloDecoderStepReset \<equiv> 0"
abbreviation NiceFloDecoderStepFoundStartBit :: u32 where "NiceFloDecoderStepFoundStartBit \<equiv> 1"
abbreviation NiceFloDecoderStepSaveDuration :: u32 where "NiceFloDecoderStepSaveDuration \<equiv> 2"
abbreviation NiceFloDecoderStepCheckDuration :: u32 where "NiceFloDecoderStepCheckDuration \<equiv> 3"

definition subghz_protocol_encoder_nice_flo_alloc :: "SubGhzProtocolEncoderCommonGeneric" where
  "subghz_protocol_encoder_nice_flo_alloc = subghz_protocol_encoder_common_alloc ''Nice FLO'' 3 52"

definition subghz_protocol_decoder_nice_flo_alloc :: "SubGhzProtocolDecoderCommon" where
  "subghz_protocol_decoder_nice_flo_alloc = subghz_protocol_decoder_common_alloc ''Nice FLO''"

definition nice_flo_header :: "LevelDuration list" where
  "nice_flo_header =
     [level_duration_make False (short_us subghz_protocol_nice_flo_const * 36),
      level_duration_make True (short_us subghz_protocol_nice_flo_const)]"

definition nice_flo_send :: "bool \<Rightarrow> LevelDuration list" where
  "nice_flo_send b =
     (if b then [level_duration_make False (long_us subghz_protocol_nice_flo_const),
                 level_duration_make True (short_us subghz_protocol_nice_flo_const)]
      else [level_duration_make False (short_us subghz_protocol_nice_flo_const),
            level_duration_make True (long_us subghz_protocol_nice_flo_const)])"

definition subghz_protocol_encoder_nice_flo_get_upload ::
  "SubGhzProtocolEncoderCommonGeneric \<Rightarrow> bool \<times> SubGhzProtocolEncoderCommonGeneric" where
  "subghz_protocol_encoder_nice_flo_get_upload i =
     put_upload (unat (data_count_bit (enc_generic i)) * 2 + 2)
       (nice_flo_header @ upload_bits nice_flo_send (data (enc_generic i))
          (unat (ucast (data_count_bit (enc_generic i)) :: u8))) i"

definition subghz_protocol_decoder_nice_flo_feed ::
  "SubGhzProtocolDecoderCommon \<Rightarrow> bool \<Rightarrow> u32 \<Rightarrow> SubGhzProtocolDecoderCommon" where
  "subghz_protocol_decoder_nice_flo_feed i level duration =
     (let c = subghz_protocol_nice_flo_const; st = parser_step (decoder i) in
      if st = NiceFloDecoderStepReset then
        (if \<not> level \<and> DURATION_DIFF duration (short_us c * 36) < delta_us c * 29
         then step_to NiceFloDecoderStepFoundStartBit i else i)
      else if st = NiceFloDecoderStepFoundStartBit then
        (if \<not> level then i
         else if DURATION_DIFF duration (short_us c) < delta_us c
         then clear_bits (step_to NiceFloDecoderStepSaveDuration i)
         else step_to NiceFloDecoderStepReset i)
      else if st = NiceFloDecoderStepSaveDuration then
        (if \<not> level then
           (if short_us c * 4 \<le> duration then
              let i = step_to NiceFloDecoderStepFoundStartBit i
              in (if min_count_bit_for_found c \<le> decode_count_bit (decoder i)
                  then invoke_callback (take_key (i\<lparr>generic := (generic i)\<lparr>serial := 0, btn := 0\<rparr>\<rparr>)) else i)
            else step_to NiceFloDecoderStepCheckDuration (save_te duration i))
         else step_to NiceFloDecoderStepReset i)
      else if st = NiceFloDecoderStepCheckDuration then
        (if level then
           (if DURATION_DIFF (te_last (decoder i)) (short_us c) < delta_us c \<and>
               DURATION_DIFF duration (long_us c) < delta_us c
            then step_to NiceFloDecoderStepSaveDuration (add_bit 0 i)
            else if DURATION_DIFF (te_last (decoder i)) (long_us c) < delta_us c \<and>
               DURATION_DIFF duration (short_us c) < delta_us c
            then step_to NiceFloDecoderStepSaveDuration (add_bit 1 i)
            else step_to NiceFloDecoderStepReset i)
         else step_to NiceFloDecoderStepReset i)
      else i)"

lemmas nice_flo_defs = subghz_protocol_decoder_nice_flo_feed_def subghz_protocol_nice_flo_const_def
  nice_flo_header_def nice_flo_send_def

text \<open>The frame now carries the number of bits, 12 to 64.\<close>

definition nice_flo_ready :: "nat \<times> link_frame \<Rightarrow> u64 \<Rightarrow> nat \<Rightarrow> SubGhzProtocolDecoderCommon \<Rightarrow> bool" where
  "nice_flo_ready f D c s \<longleftrightarrow>
     12 \<le> fst f \<and> fst f \<le> 64 \<and> parser_step (decoder s) = NiceFloDecoderStepSaveDuration \<and>
     decode_data (decoder s) = D \<and> decode_count_bit (decoder s) = of_nat c \<and> base s = fst (snd f) \<and> generic s = snd (snd f)"

definition nice_flo_idle :: "nat \<times> link_frame \<Rightarrow> SubGhzProtocolDecoderCommon \<Rightarrow> bool" where
  "nice_flo_idle f s \<longleftrightarrow>
     12 \<le> fst f \<and> fst f \<le> 64 \<and> parser_step (decoder s) = NiceFloDecoderStepReset \<and>
     base s = fst (snd f) \<and> generic s = snd (snd f)"

definition deliver_n :: "u64 \<Rightarrow> nat \<times> link_frame \<Rightarrow> nat \<times> link_frame" where
  "deliver_n D f = (fst f, deliver_with (set_key_clear (fst f)) D (snd f))"

lemma deliver_n_iter: "(deliver_n D ^^ k) f = (fst f, (deliver_with (set_key_clear (fst f)) D ^^ k) (snd f))"
  by (induction k) (simp_all add: deliver_n_def)

interpretation nice_flo: header_link subghz_protocol_decoder_nice_flo_feed "\<lambda>f. nice_flo_send"
  nice_flo_ready "\<lambda>f. nice_flo_header" fst nice_flo_idle deliver_n
proof (unfold_locales, goal_cases)
  case (1 f D c s b)
  then show ?case
    by (cases b) (auto simp: nice_flo_ready_def nice_flo_defs DURATION_DIFF_def Let_def
        subghz_protocol_blocks_add_bit_def)
next
  case (2 f s)
  then show ?case
    by (auto simp: nice_flo_ready_def nice_flo_idle_def nice_flo_defs DURATION_DIFF_def Let_def)
next
  case (3 f s)
  then show ?case by (simp add: nice_flo_idle_def)
next
  case (4 f D s)
  then have "(12 :: u8) \<le> of_nat (fst f)" and "ucast (of_nat (fst f) :: u8) = (of_nat (fst f) :: u16)"
    by (simp_all add: nice_flo_ready_def word_le_nat_alt unsigned_of_nat take_bit_nat_eq_self word_unat_eq_iff)
  with 4 show ?case
    by (auto simp: nice_flo_ready_def nice_flo_defs DURATION_DIFF_def Let_def invoke_callback_def
        deliver_with_def set_key_clear_def deliver_n_def)
qed (simp_all add: deliver_n_def)

lemma length_nice_flo_upload: "length (nice_flo_header @ upload_bits nice_flo_send key n) = n * 2 + 2"
  by (simp add: nice_flo_header_def length_upload_bits [where k = 2] nice_flo_send_def)

lemma nice_flo_sent:
  assumes up: "subghz_protocol_encoder_nice_flo_get_upload
      (load_key (of_nat n) key subghz_protocol_encoder_nice_flo_alloc) = (ok, e)" and "n \<le> 24"
  shows "ok \<and> sent_upload e = nice_flo_header @ upload_bits nice_flo_send key n \<and>
    length (upload (encoder e)) = 52"
proof -
  have "unat (of_nat n :: u16) = n" "unat (ucast (of_nat n :: u16) :: u8) = n"
    using assms(2) by (simp_all add: unsigned_of_nat take_bit_nat_eq_self unsigned_ucast_eq)
  then show ?thesis
    using put_upload_sent [OF up [unfolded subghz_protocol_encoder_nice_flo_get_upload_def]]
      length_nice_flo_upload [of key n] assms(2)
    by (simp add: subghz_protocol_encoder_nice_flo_alloc_def alloc_defs)
qed

text \<open>
  Nice FLO, encoder to decoder, for every key length the encoder's loader lets through
  (12 to 24 bits): the frame is accepted and fits the buffer, and \<open>k + 1\<close> frames give exactly
  \<open>k\<close> callbacks with that key and that number of bits.
\<close>

theorem nice_flo_roundtrip:
  assumes n: "12 \<le> n" "n \<le> 24"
  shows "case subghz_protocol_encoder_nice_flo_get_upload
        (load_key (of_nat n) key subghz_protocol_encoder_nice_flo_alloc) of
     (ok, e) \<Rightarrow> ok \<and> length (upload (encoder e)) = 52 \<and>
       base_received (base (feed_upload subghz_protocol_decoder_nice_flo_feed
         (concat (replicate (Suc k) (sent_upload e))) (listening subghz_protocol_decoder_nice_flo_alloc))) =
       replicate k ((generic_zero ''Nice FLO'')\<lparr>data := take_bit n key, data_count_bit := of_nat n\<rparr>)"
proof -
  obtain ok e where e: "subghz_protocol_encoder_nice_flo_get_upload
      (load_key (of_nat n) key subghz_protocol_encoder_nice_flo_alloc) = (ok, e)"
    by (rule prod.exhaust)
  let ?s = "listening subghz_protocol_decoder_nice_flo_alloc"
  let ?f = "(n, base ?s, generic ?s)"
  have "nice_flo_idle ?f ?s"
    using n by (simp add: nice_flo_idle_def subghz_protocol_decoder_nice_flo_alloc_def alloc_defs)
  from nice_flo.frames [OF this, where key = key and k = k]
  have "base (feed_upload subghz_protocol_decoder_nice_flo_feed (concat (replicate (Suc k) (sent_upload e))) ?s) =
      fst ((deliver_with (set_key_clear n) (take_bit n key) ^^ k) (snd ?f))"
    using nice_flo_sent [OF e n(2)] by (simp only: nice_flo_ready_def deliver_n_iter fst_conv snd_conv)
  moreover have "base_callback (fst (snd ?f))"
    by (simp add: alloc_defs)
  ultimately show ?thesis
    using nice_flo_sent [OF e n(2)] deliver_with_iter [of "snd ?f" "set_key_clear n" "take_bit n key" k] e
    by (simp add: subghz_protocol_decoder_nice_flo_alloc_def alloc_defs)
      (simp add: set_key_clear_def generic_zero_def)
qed

theorem nice_flo_roundtrip_witness:
  "12 \<le> (24::nat) \<and> (24::nat) \<le> 24 \<and>
   (case subghz_protocol_encoder_nice_flo_get_upload
        (load_key 24 0xABCDEF subghz_protocol_encoder_nice_flo_alloc) of
     (ok, e) \<Rightarrow> ok \<and>
       base_received (base (feed_upload subghz_protocol_decoder_nice_flo_feed
         (concat (replicate (Suc 2) (sent_upload e))) (listening subghz_protocol_decoder_nice_flo_alloc))) =
       replicate 2 ((generic_zero ''Nice FLO'')\<lparr>data := 0xABCDEF, data_count_bit := 24\<rparr>))"
  using nice_flo_roundtrip [of 24, where key = "0xABCDEF" and k = 2] by (auto simp del: replicate_Suc)

end
