(* ===== verification/Subghz_Came.thy ===== *)
theory Subghz_Came
  imports Subghz_Header_Protocols
begin

text \<open>
  \<^verbatim>\<open>lib/subghz/protocols/came.c\<close>: CAME and the protocols that share its decoder (Airforce
  18 bit, Prastel 25 bit), with the test that leaves slow 12-bit frames to Faac TM.
\<close>

definition subghz_protocol_came_const :: SubGhzBlockConst where
  "subghz_protocol_came_const =
     \<lparr>te_long = 640, te_short = 320, te_delta = 150, min_count_bit_for_found = 12\<rparr>"

abbreviation CameDecoderStepReset :: u32 where "CameDecoderStepReset \<equiv> 0"
abbreviation CameDecoderStepFoundStartBit :: u32 where "CameDecoderStepFoundStartBit \<equiv> 1"
abbreviation CameDecoderStepSaveDuration :: u32 where "CameDecoderStepSaveDuration \<equiv> 2"
abbreviation CameDecoderStepCheckDuration :: u32 where "CameDecoderStepCheckDuration \<equiv> 3"

definition subghz_protocol_encoder_came_alloc :: "SubGhzProtocolEncoderCommonGeneric" where
  "subghz_protocol_encoder_came_alloc = subghz_protocol_encoder_common_alloc ''CAME'' 3 128"

definition subghz_protocol_decoder_came_alloc :: "SubGhzProtocolDecoderCommonTe" where
  "subghz_protocol_decoder_came_alloc =
     SubGhzProtocolDecoderCommon.extend (subghz_protocol_decoder_common_alloc ''CAME'') \<lparr>te = 0\<rparr>"

definition came_header_te :: "u16 \<Rightarrow> u32" where
  "came_header_te n =
     (if n = 24 \<or> n = 42 then 76 else if n = 12 \<or> n = 18 then 47 else if n = 25 then 36 else 16)"

definition came_header :: "u16 \<Rightarrow> LevelDuration list" where
  "came_header n =
     [level_duration_make False (short_us subghz_protocol_came_const * came_header_te n),
      level_duration_make True (short_us subghz_protocol_came_const)]"

definition came_send :: "bool \<Rightarrow> LevelDuration list" where
  "came_send b =
     (if b then [level_duration_make False (long_us subghz_protocol_came_const),
                 level_duration_make True (short_us subghz_protocol_came_const)]
      else [level_duration_make False (short_us subghz_protocol_came_const),
            level_duration_make True (long_us subghz_protocol_came_const)])"

definition subghz_protocol_encoder_came_get_upload ::
  "SubGhzProtocolEncoderCommonGeneric \<Rightarrow> bool \<times> SubGhzProtocolEncoderCommonGeneric" where
  "subghz_protocol_encoder_came_get_upload i =
     put_upload (unat (data_count_bit (enc_generic i)) * 2 + 2)
       (came_header (data_count_bit (enc_generic i)) @
        upload_bits came_send (data (enc_generic i)) (unat (ucast (data_count_bit (enc_generic i)) :: u8))) i"

definition subghz_protocol_came_is_foreign_12bit :: "SubGhzProtocolDecoderCommonTe \<Rightarrow> u32 \<Rightarrow> bool" where
  "subghz_protocol_came_is_foreign_12bit i gap =
     (if decode_count_bit (decoder i) \<noteq> 12 then False
      else let t = te i div (ucast (decode_count_bit (decoder i)) * 3 + 1) in
        if t < 340 then False
        else let gap_te = gap div t in gap_te < 42 \<or> 52 < gap_te)"

definition subghz_protocol_decoder_came_feed ::
  "SubGhzProtocolDecoderCommonTe \<Rightarrow> bool \<Rightarrow> u32 \<Rightarrow> SubGhzProtocolDecoderCommonTe" where
  "subghz_protocol_decoder_came_feed i level duration =
     (let c = subghz_protocol_came_const; st = parser_step (decoder i) in
      if st = CameDecoderStepReset then
        (if \<not> level \<and> DURATION_DIFF duration (short_us c * 56) < delta_us c * 63
         then step_to CameDecoderStepFoundStartBit i else i)
      else if st = CameDecoderStepFoundStartBit then
        (if \<not> level then i
         else if DURATION_DIFF duration (short_us c) < delta_us c
         then (clear_bits (step_to CameDecoderStepSaveDuration i))\<lparr>te := duration\<rparr>
         else step_to CameDecoderStepReset i)
      else if st = CameDecoderStepSaveDuration then
        (if \<not> level then
           (if short_us c * 4 \<le> duration then
              let i = step_to CameDecoderStepFoundStartBit i; n = decode_count_bit (decoder i)
              in (if (n = min_count_bit_for_found c \<or> n = 18 \<or> n = 25 \<or> n = 24) \<and>
                     \<not> subghz_protocol_came_is_foreign_12bit i duration
                  then invoke_callback (take_key (i\<lparr>generic := (generic i)\<lparr>serial := 0, btn := 0\<rparr>\<rparr>)) else i)
            else step_to CameDecoderStepCheckDuration ((save_te duration i)\<lparr>te := te i + duration\<rparr>))
         else step_to CameDecoderStepReset i)
      else if st = CameDecoderStepCheckDuration then
        (if level then
           let i = i\<lparr>te := te i + duration\<rparr> in
           (if DURATION_DIFF (te_last (decoder i)) (short_us c) < delta_us c \<and>
               DURATION_DIFF duration (long_us c) < delta_us c
            then step_to CameDecoderStepSaveDuration (add_bit 0 i)
            else if DURATION_DIFF (te_last (decoder i)) (long_us c) < delta_us c \<and>
               DURATION_DIFF duration (short_us c) < delta_us c
            then step_to CameDecoderStepSaveDuration (add_bit 1 i)
            else step_to CameDecoderStepReset i)
         else step_to CameDecoderStepReset i)
      else i)"

lemmas came_defs = subghz_protocol_decoder_came_feed_def subghz_protocol_came_const_def
  came_header_def came_send_def came_header_te_def

definition came_bits :: "nat set" where
  "came_bits = {12, 18, 24, 25}"

definition came_ready :: "nat \<times> link_frame \<Rightarrow> u64 \<Rightarrow> nat \<Rightarrow> SubGhzProtocolDecoderCommonTe \<Rightarrow> bool" where
  "came_ready f D c s \<longleftrightarrow>
     fst f \<in> came_bits \<and> parser_step (decoder s) = CameDecoderStepSaveDuration \<and>
     decode_data (decoder s) = D \<and> decode_count_bit (decoder s) = of_nat c \<and>
     te s = 320 + of_nat c * 960 \<and> base s = fst (snd f) \<and> generic s = snd (snd f)"

definition came_idle :: "nat \<times> link_frame \<Rightarrow> SubGhzProtocolDecoderCommonTe \<Rightarrow> bool" where
  "came_idle f s \<longleftrightarrow>
     fst f \<in> came_bits \<and> parser_step (decoder s) = CameDecoderStepReset \<and>
     base s = fst (snd f) \<and> generic s = snd (snd f)"

interpretation came: header_link subghz_protocol_decoder_came_feed "\<lambda>f. came_send"
  came_ready "\<lambda>f. came_header (of_nat (fst f))" fst came_idle deliver_n
proof (unfold_locales, goal_cases)
  case (1 f D c s b)
  then show ?case
    by (cases b) (simp_all add: came_ready_def came_defs DURATION_DIFF_def Let_def
        subghz_protocol_blocks_add_bit_def distrib_right)
next
  case (2 f s)
  then show ?case
    by (auto simp: came_ready_def came_idle_def came_bits_def came_defs DURATION_DIFF_def Let_def)
next
  case (3 f s)
  then show ?case by (auto simp: came_idle_def came_bits_def)
next
  case (4 f D s)
  then consider "fst f = 12" | "fst f = 18" | "fst f = 24" | "fst f = 25"
    by (auto simp: came_ready_def came_bits_def)
  then show ?case
    using 4 by cases (simp_all add: came_ready_def came_bits_def came_defs DURATION_DIFF_def Let_def
        invoke_callback_def deliver_with_def set_key_clear_def deliver_n_def
        subghz_protocol_came_is_foreign_12bit_def)
qed (simp_all add: deliver_n_def)

lemma length_came_upload: "length (came_header h @ upload_bits came_send key n) = n * 2 + 2"
  by (simp add: came_header_def length_upload_bits [where k = 2] came_send_def)

lemma came_sent:
  assumes up: "subghz_protocol_encoder_came_get_upload
      (load_key (of_nat n) key subghz_protocol_encoder_came_alloc) = (ok, e)" and "n \<in> came_bits"
  shows "ok \<and> sent_upload e = came_header (of_nat n) @ upload_bits came_send key n \<and>
    length (upload (encoder e)) = 128"
proof -
  have n: "n \<le> 25"
    using assms(2) by (auto simp: came_bits_def)
  then have "unat (of_nat n :: u16) = n" "unat (ucast (of_nat n :: u16) :: u8) = n"
    by (simp_all add: unsigned_of_nat take_bit_nat_eq_self unsigned_ucast_eq)
  then show ?thesis
    using put_upload_sent [OF up [unfolded subghz_protocol_encoder_came_get_upload_def]]
      length_came_upload [of "of_nat n" key n] n
    by (simp add: subghz_protocol_encoder_came_alloc_def alloc_defs)
qed

text \<open>
  C7 CAME, encoder to decoder, for the four key lengths the decoder knows (12, 18, 24 and 25
  bits): the frame is accepted, the header chosen for that length resynchronises the
  decoder, no frame is taken for a foreign one, and \<open>k + 1\<close> frames give exactly \<open>k\<close>
  callbacks with that key.
\<close>

theorem came_roundtrip:
  assumes n: "n \<in> came_bits"
  shows "case subghz_protocol_encoder_came_get_upload
        (load_key (of_nat n) key subghz_protocol_encoder_came_alloc) of
     (ok, e) \<Rightarrow> ok \<and> length (upload (encoder e)) = 128 \<and>
       base_received (base (feed_upload subghz_protocol_decoder_came_feed
         (concat (replicate (Suc k) (sent_upload e))) (listening subghz_protocol_decoder_came_alloc))) =
       replicate k ((generic_zero ''CAME'')\<lparr>data := take_bit n key, data_count_bit := of_nat n\<rparr>)"
proof -
  obtain ok e where e: "subghz_protocol_encoder_came_get_upload
      (load_key (of_nat n) key subghz_protocol_encoder_came_alloc) = (ok, e)"
    by (rule prod.exhaust)
  let ?s = "listening subghz_protocol_decoder_came_alloc"
  let ?f = "(n, base ?s, generic ?s)"
  have "came_idle ?f ?s"
    using n by (simp add: came_idle_def subghz_protocol_decoder_came_alloc_def alloc_defs
        SubGhzProtocolDecoderCommon.defs)
  from came.frames [OF this, where key = key and k = k]
  have "base (feed_upload subghz_protocol_decoder_came_feed (concat (replicate (Suc k) (sent_upload e))) ?s) =
      fst ((deliver_with (set_key_clear n) (take_bit n key) ^^ k) (snd ?f))"
    using came_sent [OF e n] by (simp only: came_ready_def deliver_n_iter fst_conv snd_conv)
  moreover have "base_callback (fst (snd ?f))"
    by (simp add: alloc_defs)
  ultimately show ?thesis
    using came_sent [OF e n] deliver_with_iter [of "snd ?f" "set_key_clear n" "take_bit n key" k] e
    by (simp add: subghz_protocol_decoder_came_alloc_def alloc_defs SubGhzProtocolDecoderCommon.defs)
      (simp add: set_key_clear_def generic_zero_def)
qed

theorem came_roundtrip_witness:
  "12 \<in> came_bits \<and>
   (case subghz_protocol_encoder_came_get_upload (load_key 12 0xABC subghz_protocol_encoder_came_alloc) of
     (ok, e) \<Rightarrow> ok \<and>
       base_received (base (feed_upload subghz_protocol_decoder_came_feed
         (concat (replicate 3 (sent_upload e))) (listening subghz_protocol_decoder_came_alloc))) =
       replicate 2 ((generic_zero ''CAME'')\<lparr>data := 0xABC, data_count_bit := 12\<rparr>))"
proof -
  have w: "12 \<in> came_bits" by (simp add: came_bits_def)
  show ?thesis
    using w came_roundtrip [OF w, where key = "0xABC" and k = 2] by (auto simp: numeral_3_eq_3 numeral_2_eq_2)
qed

end
