(* ===== verification/Subghz_Properties.thy ===== *)
theory Subghz_Properties
  imports Subghz_Math Subghz_Came
begin

text \<open>
  Properties of the shared sub-GHz blocks: key reversal and parity, detection of corrupted bytes by the
  checksums, the bit arrays and their run-length upload, and the life of a transmission.
\<close>

section \<open>Reversal, parity and checksums\<close>

text \<open>
  Reversing the low \<open>n\<close> bits of a key twice gives these bits back, for every length up to 64;
  a single reversal moves bit \<open>j\<close> to \<open>n - 1 - j\<close>.
\<close>

theorem reverse_key_involution:
  assumes "unat n \<le> 64"
  shows "subghz_protocol_blocks_reverse_key (subghz_protocol_blocks_reverse_key key n) n = take_bit (unat n) key \<and>
    (\<forall>j<unat n. bit (subghz_protocol_blocks_reverse_key key n) j = bit key (unat n - 1 - j))"
proof
  show "subghz_protocol_blocks_reverse_key (subghz_protocol_blocks_reverse_key key n) n = take_bit (unat n) key"
    by (rule bit_word_eqI) (use assms in \<open>auto simp: bit_reverse_key bit_take_bit_iff\<close>)
  show "\<forall>j<unat n. bit (subghz_protocol_blocks_reverse_key key n) j = bit key (unat n - 1 - j)"
    using assms by (simp add: bit_reverse_key)
qed

theorem reverse_key_involution_witness:
  "subghz_protocol_blocks_reverse_key (subghz_protocol_blocks_reverse_key 0xABCDEF 24) 24 = 0xABCDEF"
  using reverse_key_involution [of 24 "0xABCDEF"] by simp

text \<open>
  The nibble-table parity of a byte, the counting parity of a key, and the exclusive-or parity
  over a message all say whether the number of set bits is odd.
\<close>

theorem parity_routines_agree:
  "subghz_protocol_blocks_parity8 b = subghz_protocol_blocks_get_parity (ucast b) 8 \<and>
   subghz_protocol_blocks_get_parity key n = of_bool (odd (card {i. i < unat n \<and> bit key i})) \<and>
   subghz_protocol_blocks_parity_bytes xs =
     of_bool (odd (sum_list (map (\<lambda>x. card {i. i < 8 \<and> bit x i}) xs)))"
proof (intro conjI)
  have "{i. i < 8 \<and> bit (ucast b :: u64) i} = {i. i < 8 \<and> bit b i}"
    by (auto simp: bit_simps)
  then show "subghz_protocol_blocks_parity8 b = subghz_protocol_blocks_get_parity (ucast b) 8"
    by (simp add: parity8_bits get_parity_odd)
  show "subghz_protocol_blocks_get_parity key n = of_bool (odd (card {i. i < unat n \<and> bit key i}))"
    by (rule get_parity_odd)
  have "fold (\<lambda>m result. result XOR subghz_protocol_blocks_parity8 m) xs r =
      of_bool (odd (sum_list (map (\<lambda>x. card {i. i < 8 \<and> bit x i}) xs))) XOR r" for r
    by (induction xs arbitrary: r) (auto simp: parity8_bits ac_simps)
  then show "subghz_protocol_blocks_parity_bytes xs = of_bool (odd (sum_list (map (\<lambda>x. card {i. i < 8 \<and> bit x i}) xs)))"
    by (simp add: subghz_protocol_blocks_parity_bytes_def)
qed

text \<open>
  The CRC-8, CRC-16 and their bit-reversed variants, with a polynomial whose outermost term is present,
  give different values for two messages that differ in exactly one byte, from any starting value; and a
  message followed by its own CRC-8 has checksum zero.
\<close>

theorem subghz_crc_detects:
  assumes "m \<noteq> m'" "bit p8 0" "bit p16 0" "bit q16 15"
  shows "subghz_protocol_blocks_crc8 (xs @ m # ys) p8 i8 \<noteq> subghz_protocol_blocks_crc8 (xs @ m' # ys) p8 i8 \<and>
    subghz_protocol_blocks_crc8le (xs @ m # ys) p8 i8 \<noteq> subghz_protocol_blocks_crc8le (xs @ m' # ys) p8 i8 \<and>
    subghz_protocol_blocks_crc16 (xs @ m # ys) p16 i16 \<noteq> subghz_protocol_blocks_crc16 (xs @ m' # ys) p16 i16 \<and>
    subghz_protocol_blocks_crc16lsb (xs @ m # ys) q16 i16 \<noteq> subghz_protocol_blocks_crc16lsb (xs @ m' # ys) q16 i16 \<and>
    subghz_protocol_blocks_crc8 (xs @ [subghz_protocol_blocks_crc8 xs p8 i8]) p8 i8 = 0"
proof -
  have "bit (ucast (subghz_protocol_blocks_reverse_key (ucast p8) 8) :: u8) 7"
    using assms(2) by (simp add: bit_ucast_iff bit_reverse_key)
  then show ?thesis
    using crc8.single_byte_detected [OF assms(2,1), of xs ys] crc16.single_byte_detected [OF assms(3,1), of xs ys]
      crc16lsb.single_byte_detected [OF assms(4,1), of xs ys] crc8le.single_byte_detected [OF _ assms(1), of _ xs ys]
    by (simp add: subghz_protocol_blocks_crc8_def subghz_protocol_blocks_crc8le_def subghz_protocol_blocks_crc16_def
        subghz_protocol_blocks_crc16lsb_def)
qed

theorem subghz_crc_detects_witness:
  "subghz_protocol_blocks_crc8 [1, 2, 3] 0x31 0 \<noteq> subghz_protocol_blocks_crc8 [1, 4, 3] 0x31 0"
  using subghz_crc_detects [of 2 4 "0x31" "0x1021" "0x8408" "[1]" "[3]"] by (simp add: bit_numeral_rec)

section \<open>Bit arrays\<close>

lemma bit_write_bit: "b < 8 \<Longrightarrow> bit (bit_write (w :: u8) b x) k = (if k = b then x else bit w k)"
  by (auto simp: bit_write_def bit_set_def bit_clear_def bit_simps dest: bit_imp_le_length)

text \<open>
  Setting a bit of a bit array changes that bit and no other, most significant bit of the first byte
  first; an index beyond the array is refused by the check.
\<close>

theorem set_bit_array_get:
  assumes "length xs = n" "j < 8 * n"
  shows "case subghz_protocol_blocks_set_bit_array v xs i n of
      None \<Rightarrow> 8 * n \<le> i
    | Some ys \<Rightarrow> i < 8 * n \<and> length ys = n \<and>
        subghz_protocol_blocks_get_bit_array ys j = (if j = i then v else subghz_protocol_blocks_get_bit_array xs j)"
proof (cases "i < 8 * n")
  case True
  have "(7 - j mod 8 = 7 - i mod 8) = (j mod 8 = i mod 8)"
    using mod_less_divisor [of 8 i] mod_less_divisor [of 8 j] by linarith
  then have same: "(j = i) = (j div 8 = i div 8 \<and> 7 - j mod 8 = 7 - i mod 8)"
    by (metis div_mult_mod_eq)
  have written: "bit (bit_write w (7 - i mod 8) v) k = (if k = 7 - i mod 8 then v else bit w k)" for w :: u8 and k
    by (simp add: bit_write_bit)
  have "i div 8 < n" "j div 8 < n" using True assms(2) by auto
  then show ?thesis
    unfolding same using True assms(1)
    by (simp add: subghz_protocol_blocks_set_bit_array_def subghz_protocol_blocks_get_bit_array_def Let_def nth_list_update written)
qed (simp add: subghz_protocol_blocks_set_bit_array_def mult.commute)

theorem set_bit_array_get_witness:
  "\<exists>ys. subghz_protocol_blocks_set_bit_array True [0, 0] 9 2 = Some ys \<and> subghz_protocol_blocks_get_bit_array ys 9"
  using set_bit_array_get [of "[0, 0]" 2 9 9 True]
  by (simp add: subghz_protocol_blocks_set_bit_array_def Let_def)

text \<open>The bits an upload stands for, when one bit lasts \<open>d\<close>.\<close>

definition upload_levels :: "nat \<Rightarrow> LevelDuration list \<Rightarrow> bool list" where
  "upload_levels d up = concat (map (\<lambda>ld. replicate (unat (level_duration_get_duration ld) div d) (level_duration_get_level ld)) up)"

lemma upload_levels_snoc:
  assumes "unat w = k * d" "k * d < 2 ^ 30" "0 < d"
  shows "upload_levels d (up @ [level_duration_make l w]) = upload_levels d up @ replicate k l"
proof -
  have "take_bit 30 w = w" using assms(1,2) by (intro take_bit_word_less) simp
  then show ?thesis using assms by (simp add: upload_levels_def get_duration_make)
qed

lemma unat_add_small: "unat (a :: u32) + unat b = m \<Longrightarrow> m < 2 ^ 30 \<Longrightarrow> unat (a + b) = m"
  by (simp add: unat_word_ariths)

lemma upload_loop_levels:
  assumes "0 < d" "(k + n) * d < 2 ^ 30" "unat w = k * d" "0 < k" "0 < index"
    "lb = subghz_protocol_blocks_get_bit_array xs (index - 1)" "length up + n < cap"
  shows "\<exists>ups. upload_from_bits_loop xs cap (of_nat d) n index lb w up = Some ups \<and>
    upload_levels d ups = upload_levels d up @ replicate k lb @ map (subghz_protocol_blocks_get_bit_array xs) [index..<index + n] \<and>
    length ups \<le> length up + n + 1"
  using assms
proof (induction n arbitrary: k index lb w up)
  case 0
  then show ?case using upload_levels_snoc [OF 0(3)] by simp
next
  case (Suc n)
  have le: "m \<le> k + Suc n \<Longrightarrow> m * d < 2 ^ 30" for m
    by (rule order.strict_trans1 [OF mult_le_mono1 Suc.prems(2)])
  have d: "d < 2 ^ 30" using le [of 1] by simp
  then have ud: "unat (of_nat d :: u32) = d" by (simp add: unsigned_of_nat take_bit_nat_eq_self)
  have upt: "[index..<index + Suc n] = index # [Suc index..<Suc index + n]"
    by (simp add: upt_conv_Cons del: upt_Suc)
  let ?b = "subghz_protocol_blocks_get_bit_array xs index"
  show ?case
  proof (cases "lb = ?b")
    case True
    have "unat w + unat (of_nat d :: u32) = (k + 1) * d" using Suc.prems(3) ud by simp
    moreover have "(k + 1) * d < 2 ^ 30" by (rule le) simp
    ultimately have "unat (w + of_nat d) = (k + 1) * d" by (rule unat_add_small)
    then have "\<exists>ups. upload_from_bits_loop xs cap (of_nat d) n (Suc index) lb (w + of_nat d) up = Some ups \<and>
        upload_levels d ups = upload_levels d up @ replicate (k + 1) lb @ map (subghz_protocol_blocks_get_bit_array xs) [Suc index..<Suc index + n] \<and>
        length ups \<le> length up + n + 1"
      using Suc.prems(1,5,7) True le [of "k + 1 + n"] by (intro Suc.IH) simp_all
    moreover have "replicate (k + 1) lb = replicate k lb @ [lb]" by (simp add: replicate_append_same)
    ultimately show ?thesis
      unfolding upt using True by (auto simp del: replicate_Suc upt_Suc)
  next
    case False
    let ?up = "up @ [level_duration_make (subghz_protocol_blocks_get_bit_array xs (index - 1)) w]"
    have "\<exists>ups. upload_from_bits_loop xs cap (of_nat d) n (Suc index) (\<not> lb) (of_nat d) ?up = Some ups \<and>
        upload_levels d ups = upload_levels d ?up @ replicate 1 (\<not> lb) @ map (subghz_protocol_blocks_get_bit_array xs) [Suc index..<Suc index + n] \<and>
        length ups \<le> length ?up + n + 1"
      using Suc.prems(1,7) False ud le [of "1 + n"] by (intro Suc.IH) auto
    moreover have "upload_levels d ?up = upload_levels d up @ replicate k lb"
      using upload_levels_snoc [OF Suc.prems(3) le [of k] Suc.prems(1)] Suc.prems(6) by simp
    ultimately show ?thesis
      unfolding upt using False Suc.prems(7) by (auto simp del: upt_Suc)
  qed
qed

text \<open>
  The run-length upload of a bit array succeeds when the buffer has room for one entry per bit and
  the total duration fits the 30-bit duration field; it has at most one entry per bit, and played back bit by bit
  it gives exactly the bits of the array, from the bias of a right-aligned array on.
\<close>

theorem upload_from_bit_array_levels:
  assumes "0 < n" "n \<le> cap" "0 < d" "n * d < 2 ^ 30"
  shows "\<exists>up. subghz_protocol_blocks_get_upload_from_bit_array xs n cap (of_nat d) al = Some up \<and> length up \<le> n \<and>
    upload_levels d up = map (\<lambda>i. subghz_protocol_blocks_get_bit_array xs
      ((if al = SubGhzProtocolBlockAlignBitRight \<and> n mod 8 \<noteq> 0 then 8 - n mod 8 else 0) + i)) [0..<n]"
proof -
  define b where "b = (if al = SubGhzProtocolBlockAlignBitRight \<and> n mod 8 \<noteq> 0 then 8 - n mod 8 else (0::nat))"
  obtain m where m: "n = Suc m" using assms(1) by (cases n) auto
  have "d < 2 ^ 30" using assms m by simp
  then have "unat (of_nat d :: u32) = d" by (simp add: unsigned_of_nat take_bit_nat_eq_self)
  then have "\<exists>up. upload_from_bits_loop xs cap (of_nat d) m (b + 1) (subghz_protocol_blocks_get_bit_array xs b) (of_nat d) [] = Some up \<and>
      upload_levels d up = upload_levels d [] @ replicate 1 (subghz_protocol_blocks_get_bit_array xs b) @
        map (subghz_protocol_blocks_get_bit_array xs) [b + 1..<b + 1 + m] \<and> length up \<le> length ([] :: LevelDuration list) + m + 1"
    using assms m by (intro upload_loop_levels) simp_all
  moreover have "map (\<lambda>i. subghz_protocol_blocks_get_bit_array xs (b + i)) [0..<n] =
      subghz_protocol_blocks_get_bit_array xs b # map (subghz_protocol_blocks_get_bit_array xs) [b + 1..<b + 1 + m]"
    by (rule nth_equalityI) (auto simp: m nth_Cons' nth_append)
  ultimately show ?thesis
    unfolding subghz_protocol_blocks_get_upload_from_bit_array_def Let_def b_def [symmetric]
    by (auto simp: m upload_levels_def)
qed

theorem upload_from_bit_array_levels_witness:
  "\<exists>up. subghz_protocol_blocks_get_upload_from_bit_array [0x0D] 4 4 (of_nat 100) SubGhzProtocolBlockAlignBitRight = Some up \<and>
    length up \<le> 4 \<and> upload_levels 100 up = [True, True, False, True]"
proof -
  have "map (\<lambda>i. subghz_protocol_blocks_get_bit_array [0x0D] (4 + i)) [0..<4] = [True, True, False, True]"
    by code_simp
  then show ?thesis
    using upload_from_bit_array_levels [of 4 4 100 "[0x0D]" SubGhzProtocolBlockAlignBitRight] by simp
qed

section \<open>The life of a transmission\<close>

lemma yields_idle:
  assumes "repeat (encoder i) = 0 \<or> \<not> is_running (encoder i)"
  shows "yields (Suc m) g i = (replicate (Suc m) level_duration_reset, i\<lparr>encoder := (encoder i)\<lparr>is_running := False\<rparr>\<rparr>)"
  using assms
proof (induction m arbitrary: i)
  case 0
  then show ?case by (simp add: subghz_protocol_encoder_common_yield_def)
next
  case (Suc m)
  let ?i = "i\<lparr>encoder := (encoder i)\<lparr>is_running := False\<rparr>\<rparr>"
  have "subghz_protocol_encoder_common_yield g i = (level_duration_reset, ?i)"
    using Suc.prems by (simp add: subghz_protocol_encoder_common_yield_def)
  moreover have "yields (Suc m) g ?i = (replicate (Suc m) level_duration_reset, ?i)"
    using Suc.IH [of ?i] by simp
  ultimately show ?case by (subst yields.simps) simp
qed

lemma yields_endless:
  assumes "is_running (encoder i)" "front (encoder i) = 0" "endless_tx g" "repeat (encoder i) = Suc r"
    "0 < size_upload (encoder i)" "size_upload (encoder i) \<le> length (upload (encoder i))"
  shows "yields (k * size_upload (encoder i)) g i = (concat (replicate k (sent_upload i)), i)"
proof (induction k)
  case (Suc k)
  have "(encoder i)\<lparr>repeat := Suc r\<rparr> = encoder i" using assms(4) by (cases "encoder i") simp
  then have "i\<lparr>encoder := (encoder i)\<lparr>repeat := Suc r\<rparr>\<rparr> = i" by (cases i) simp
  then have "yields (size_upload (encoder i)) g i = (sent_upload i, i)"
    using yields_frame [OF assms(1,4,2,5,6), of g] assms(3) by simp
  with Suc show ?case by (simp add: yields_append)
qed simp

text \<open>
  C21 (liveness): a running encoder sends its frame as often as its repeat count says, then answers every further call
  with a reset and has stopped; in endless mode it sends the frame again and again and its repeat count
  never runs out.
\<close>

theorem encoder_transmission:
  assumes "is_running (encoder i)" "front (encoder i) = 0" "0 < repeat (encoder i)"
    "0 < size_upload (encoder i)" "size_upload (encoder i) \<le> length (upload (encoder i))"
  shows "if endless_tx g
    then yields (k * size_upload (encoder i)) g i = (concat (replicate k (sent_upload i)), i)
    else yields (repeat (encoder i) * size_upload (encoder i) + Suc m) g i =
      (concat (replicate (repeat (encoder i)) (sent_upload i)) @ replicate (Suc m) level_duration_reset,
       i\<lparr>encoder := (encoder i)\<lparr>repeat := 0, is_running := False\<rparr>\<rparr>)"
proof (cases "endless_tx g")
  case True
  obtain r where "repeat (encoder i) = Suc r" using assms(3) gr0_implies_Suc by blast
  then show ?thesis using yields_endless [OF assms(1,2) True _ assms(4,5)] True by simp
next
  case False
  have "(encoder i)\<lparr>repeat := repeat (encoder i)\<rparr> = encoder i" by (cases "encoder i") simp
  then have "i\<lparr>encoder := (encoder i)\<lparr>repeat := repeat (encoder i)\<rparr>\<rparr> = i" by (cases i) simp
  then have "yields (repeat (encoder i) * size_upload (encoder i)) g i =
      (concat (replicate (repeat (encoder i)) (sent_upload i)), i\<lparr>encoder := (encoder i)\<lparr>repeat := 0\<rparr>\<rparr>)"
    using yields_all [OF assms(1,2) False assms(4,5), of "repeat (encoder i)"] by simp
  then show ?thesis
    using False yields_idle [of "i\<lparr>encoder := (encoder i)\<lparr>repeat := 0\<rparr>\<rparr>" m g] unfolding yields_append by simp
qed

theorem encoder_transmission_witness:
  "let i = \<lparr>encoder = \<lparr>is_running = True, repeat = 2, front = 0, size_upload = 2,
        upload = [level_duration_make True 100, level_duration_make False 200, level_duration_make True 7]\<rparr>\<rparr>;
       g = \<lparr>current_cnt = 0, new_cnt = 0, cnt_need_override = False, cnt_length_bit = 0, cnt_is_available = False, current_btn = 0,
         new_btn = 0, btn_need_override = False, btn_length_bit = 0, btn_is_available = False, endless_tx = False\<rparr>
   in fst (yields (2 * 2 + Suc 1) g i) =
     [level_duration_make True 100, level_duration_make False 200, level_duration_make True 100, level_duration_make False 200,
      level_duration_reset, level_duration_reset]"
  using encoder_transmission [of "\<lparr>encoder = \<lparr>is_running = True, repeat = 2, front = 0, size_upload = 2,
        upload = [level_duration_make True 100, level_duration_make False 200, level_duration_make True 7]\<rparr>\<rparr>"
     "\<lparr>current_cnt = 0, new_cnt = 0, cnt_need_override = False, cnt_length_bit = 0, cnt_is_available = False, current_btn = 0,
         new_btn = 0, btn_need_override = False, btn_length_bit = 0, btn_is_available = False, endless_tx = False\<rparr>" 0 1]
  by (simp add: Let_def numeral_2_eq_2 del: yields.simps)

text \<open>
  C31 (error): the upload generators of GateTX, CAME and Nice FLO refuse a frame of \<open>n\<close> bits exactly when its
  \<open>2 * n + 2\<close> entries do not fit the recorded size, and a refusal leaves the encoder as it was. Because an accepted
  frame overwrites the allocated size with its own, the same encoder then refuses every longer frame, whatever
  was allocated.
\<close>

theorem upload_size_shrinks:
  assumes "f \<in> {subghz_protocol_encoder_gate_tx_get_upload, subghz_protocol_encoder_came_get_upload,
    subghz_protocol_encoder_nice_flo_get_upload}"
  shows "(fst (f i) \<longleftrightarrow> 2 * unat (data_count_bit (enc_generic i)) + 2 \<le> size_upload (encoder i)) \<and>
    (\<not> fst (f i) \<longrightarrow> snd (f i) = i) \<and>
    (fst (f i) \<longrightarrow> fst (f (load_key n key (snd (f i)))) = (n \<le> data_count_bit (enc_generic i)))"
proof -
  obtain ws where f: "f i = put_upload (unat (data_count_bit (enc_generic i)) * 2 + 2) (ws i) i" for i
    using assms
    by (auto simp: subghz_protocol_encoder_gate_tx_get_upload_def subghz_protocol_encoder_came_get_upload_def
      subghz_protocol_encoder_nice_flo_get_upload_def)
  show ?thesis
    unfolding f by (auto simp: put_upload_def store_upload_def word_le_nat_alt split: if_splits)
qed

theorem upload_size_shrinks_witness:
  "\<not> fst (subghz_protocol_encoder_came_get_upload (load_key 24 7
     (snd (subghz_protocol_encoder_came_get_upload (load_key 12 1 subghz_protocol_encoder_came_alloc)))))"
  using upload_size_shrinks [of subghz_protocol_encoder_came_get_upload "load_key 12 1 subghz_protocol_encoder_came_alloc" 24 7]
  by (simp add: subghz_protocol_encoder_came_alloc_def alloc_defs)

end
