(* ===== verification/Bit_Lib.thy ===== *)
theory Bit_Lib
  imports Subghz_Math
begin

text \<open>
  \<^verbatim>\<open>lib/bit_lib/bit_lib.c\<close>: bit arrays stored most significant bit first in bytes, parity
  blocks, reversal, the generic CRC routines and the number/byte conversions.

  An array \<open>uint8_t* data\<close> is the list of its bytes, a routine that writes through the pointer
  returns the new list; positions and lengths are natural numbers, and the one place where
  an unsigned subtraction can wrap (\<open>length - 1\<close> in \<open>bit_lib_reverse_bits\<close>) is written out. A
  failing \<open>furi_check\<close> halts the device and is the value \<open>None\<close>.
\<close>

section \<open>Bits of an array\<close>

definition bit_lib_set_bit :: "u8 list \<Rightarrow> nat \<Rightarrow> bool \<Rightarrow> u8 list" where
  "bit_lib_set_bit data position b =
     data[position div 8 :=
       (if b then data ! (position div 8) OR push_bit (7 - position mod 8) 1
        else data ! (position div 8) AND NOT (push_bit (7 - position mod 8) 1))]"

definition bit_lib_get_bit :: "u8 list \<Rightarrow> nat \<Rightarrow> bool" where
  "bit_lib_get_bit data position =
     (drop_bit (7 - position mod 8) (data ! (position div 8)) AND 1 \<noteq> 0)"

definition bit_lib_push_bit :: "u8 list \<Rightarrow> bool \<Rightarrow> u8 list" where
  "bit_lib_push_bit data b =
     (let last_index = length data - 1;
          data = fold (\<lambda>i data. data[i := push_bit 1 (data ! i) OR (drop_bit 7 (data ! (i + 1)) AND 1)])
                   [0..<last_index] data
      in data[last_index := push_bit 1 (data ! last_index) OR of_bool b])"

definition bit_lib_set_bits :: "u8 list \<Rightarrow> nat \<Rightarrow> u8 \<Rightarrow> nat \<Rightarrow> u8 list option" where
  "bit_lib_set_bits data position byte n =
     (if \<not> n \<le> 8 then None
      else if \<not> 0 < n then None
      else Some (fold (\<lambda>i data. bit_lib_set_bit data (position + i) (drop_bit (n - 1 - i) byte AND 1 \<noteq> 0))
             [0..<n] data))"

definition bit_lib_get_bits :: "u8 list \<Rightarrow> nat \<Rightarrow> nat \<Rightarrow> u8" where
  "bit_lib_get_bits data position n =
     (let shift = position mod 8 in
      if shift = 0 then drop_bit (8 - n) (data ! (position div 8))
      else if shift + n \<le> 8 then drop_bit (8 - n) (push_bit shift (data ! (position div 8)))
      else let value = push_bit shift (data ! (position div 8));
               value = value OR drop_bit (8 - shift) (data ! (position div 8 + 1))
           in drop_bit (8 - n) value)"

text \<open>\<open>(uintN_t)bit_lib_get_bits(data, position, 8) << k\<close>, the chunk the wide readers join.\<close>

definition chunk :: "u8 list \<Rightarrow> nat \<Rightarrow> nat \<Rightarrow> 'a::len word" where
  "chunk data position k = push_bit k (ucast (bit_lib_get_bits data position 8))"

definition bit_lib_get_bits_16 :: "u8 list \<Rightarrow> nat \<Rightarrow> nat \<Rightarrow> u16" where
  "bit_lib_get_bits_16 data p n =
     (if n \<le> 8 then ucast (bit_lib_get_bits data p n)
      else chunk data p (n - 8) OR ucast (bit_lib_get_bits data (p + 8) (n - 8)))"

definition bit_lib_get_bits_32 :: "u8 list \<Rightarrow> nat \<Rightarrow> nat \<Rightarrow> u32" where
  "bit_lib_get_bits_32 data p n =
     (if n \<le> 8 then ucast (bit_lib_get_bits data p n)
      else if n \<le> 16 then chunk data p (n - 8) OR ucast (bit_lib_get_bits data (p + 8) (n - 8))
      else if n \<le> 24 then chunk data p (n - 8) OR chunk data (p + 8) (n - 16)
        OR ucast (bit_lib_get_bits data (p + 16) (n - 16))
      else chunk data p (n - 8) OR chunk data (p + 8) (n - 16) OR chunk data (p + 16) (n - 24)
        OR ucast (bit_lib_get_bits data (p + 24) (n - 24)))"

definition bit_lib_get_bits_64 :: "u8 list \<Rightarrow> nat \<Rightarrow> nat \<Rightarrow> u64" where
  "bit_lib_get_bits_64 data p n =
     (if n \<le> 8 then ucast (bit_lib_get_bits data p n)
      else if n \<le> 16 then chunk data p (n - 8) OR ucast (bit_lib_get_bits data (p + 8) (n - 8))
      else if n \<le> 24 then chunk data p (n - 8) OR chunk data (p + 8) (n - 16)
        OR ucast (bit_lib_get_bits data (p + 16) (n - 16))
      else if n \<le> 32 then chunk data p (n - 8) OR chunk data (p + 8) (n - 16) OR chunk data (p + 16) (n - 24)
        OR ucast (bit_lib_get_bits data (p + 24) (n - 24))
      else if n \<le> 40 then chunk data p (n - 8) OR chunk data (p + 8) (n - 16) OR chunk data (p + 16) (n - 24)
        OR chunk data (p + 24) (n - 32) OR ucast (bit_lib_get_bits data (p + 32) (n - 32))
      else if n \<le> 48 then chunk data p (n - 8) OR chunk data (p + 8) (n - 16) OR chunk data (p + 16) (n - 24)
        OR chunk data (p + 24) (n - 32) OR chunk data (p + 32) (n - 40)
        OR ucast (bit_lib_get_bits data (p + 40) (n - 40))
      else if n \<le> 56 then chunk data p (n - 8) OR chunk data (p + 8) (n - 16) OR chunk data (p + 16) (n - 24)
        OR chunk data (p + 24) (n - 32) OR chunk data (p + 32) (n - 40) OR chunk data (p + 40) (n - 48)
        OR ucast (bit_lib_get_bits data (p + 48) (n - 48))
      else chunk data p (n - 8) OR chunk data (p + 8) (n - 16) OR chunk data (p + 16) (n - 24)
        OR chunk data (p + 24) (n - 32) OR chunk data (p + 32) (n - 40) OR chunk data (p + 40) (n - 48)
        OR chunk data (p + 48) (n - 56) OR ucast (bit_lib_get_bits data (p + 56) (n - 56)))"

section \<open>Parity blocks\<close>

datatype BitLibParity = BitLibParityEven | BitLibParityOdd | BitLibParityAlways0 | BitLibParityAlways1

text \<open>\<open>__builtin_popcountl\<close> and \<open>__builtin_parity\<close> of the compiler.\<close>

definition builtin_popcount :: "u32 \<Rightarrow> nat" where
  "builtin_popcount w = length (filter (bit w) [0..<32])"

definition builtin_parity :: "u32 \<Rightarrow> bool" where
  "builtin_parity w = odd (builtin_popcount w)"

text \<open>The routine crashes on the two marker parities.\<close>

definition bit_lib_test_parity_32 :: "u32 \<Rightarrow> BitLibParity \<Rightarrow> bool option" where
  "bit_lib_test_parity_32 bits parity =
     (case parity of
        BitLibParityEven \<Rightarrow> Some (builtin_parity bits)
      | BitLibParityOdd \<Rightarrow> Some (\<not> builtin_parity bits)
      | _ \<Rightarrow> None)"

definition test_parity_block :: "u8 list \<Rightarrow> nat \<Rightarrow> BitLibParity \<Rightarrow> nat \<Rightarrow> bool" where
  "test_parity_block bits position parity n =
     (case parity of
        BitLibParityAlways0 \<Rightarrow> \<not> bit_lib_get_bit bits (position + n - 1)
      | BitLibParityAlways1 \<Rightarrow> bit_lib_get_bit bits (position + n - 1)
      | _ \<Rightarrow> bit_lib_test_parity_32 (bit_lib_get_bits_32 bits position n) parity = Some True)"

text \<open>
  The lengths are \<open>uint8_t\<close> arguments, so a bit count of 256 or more reaches the routine modulo
  256. A zero \<open>parity_length\<close> divides by zero: the value is then \<open>None\<close>.
\<close>

definition bit_lib_test_parity :: "u8 list \<Rightarrow> nat \<Rightarrow> u8 \<Rightarrow> BitLibParity \<Rightarrow> u8 \<Rightarrow> bool option" where
  "bit_lib_test_parity bits position n parity parity_length =
     (if parity_length = 0 then None
      else Some (list_all
        (\<lambda>i. test_parity_block bits (position + i * unat parity_length) parity (unat parity_length))
        [0..<unat n div unat parity_length]))"

text \<open>
  One block of \<open>bit_lib_add_parity\<close>: copy \<open>parity_length - 1\<close> bits while collecting them in
  \<open>parity_word\<close>, then write the parity bit. The state is \<open>(dest, j, parity_word)\<close>.
\<close>

definition add_parity_bit ::
  "u8 list \<Rightarrow> nat \<Rightarrow> nat \<Rightarrow> nat \<Rightarrow> u8 list \<times> nat \<times> u32 \<Rightarrow> u8 list \<times> nat \<times> u32" where
  "add_parity_bit data from dest_position i s =
     (case s of (dest, j, parity_word) \<Rightarrow>
        let b = bit_lib_get_bit data (from + i)
        in (bit_lib_set_bit dest (dest_position + j) b, j + 1, push_bit 1 parity_word OR of_bool b))"

definition parity_bit :: "u32 \<Rightarrow> BitLibParity \<Rightarrow> bool" where
  "parity_bit parity_word parity =
     (case parity of
        BitLibParityAlways0 \<Rightarrow> False
      | BitLibParityAlways1 \<Rightarrow> True
      | _ \<Rightarrow> ((bit_lib_test_parity_32 parity_word BitLibParityOdd = Some True) \<noteq> (parity = BitLibParityOdd)) \<noteq> True)"

definition add_parity_block ::
  "u8 list \<Rightarrow> nat \<Rightarrow> nat \<Rightarrow> nat \<Rightarrow> BitLibParity \<Rightarrow> u8 list \<times> nat \<Rightarrow> u8 list \<times> nat" where
  "add_parity_block data from dest_position parity_length parity s =
     (case fold (add_parity_bit data from dest_position) [0..<parity_length - 1] (fst s, snd s, 0) of
        (dest, j, parity_word) \<Rightarrow>
          (bit_lib_set_bit dest (dest_position + j) (parity_bit parity_word parity), j + 1))"

text \<open>
  The outer loop counts in \<open>int\<close> and does not end when \<open>parity_length\<close> is below two and there is
  data: the value is then \<open>None\<close>. The returned count is a \<open>size_t\<close> and is not cut.
\<close>

partial_function (option) add_parity_loop ::
  "u8 list \<Rightarrow> nat \<Rightarrow> nat \<Rightarrow> nat \<Rightarrow> nat \<Rightarrow> BitLibParity \<Rightarrow> nat \<Rightarrow> u8 list \<times> nat \<Rightarrow> nat \<Rightarrow> (u8 list \<times> nat) option" where
  "add_parity_loop data position dest_position source_length parity_length parity w s bit_count =
     (if w < source_length
      then add_parity_loop data position dest_position source_length parity_length parity
             (w + (parity_length - 1))
             (add_parity_block data (position + w) dest_position parity_length parity s)
             (bit_count + parity_length)
      else Some (fst s, bit_count))"

definition bit_lib_add_parity ::
  "u8 list \<Rightarrow> nat \<Rightarrow> u8 list \<Rightarrow> nat \<Rightarrow> u8 \<Rightarrow> u8 \<Rightarrow> BitLibParity \<Rightarrow> (u8 list \<times> nat) option" where
  "bit_lib_add_parity data position dest dest_position source_length parity_length parity =
     add_parity_loop data position dest_position (unat source_length) (unat parity_length) parity 0 (dest, 0) 0"

text \<open>
  The loop of \<open>bit_lib_remove_bit_every_nth\<close>; the state is
  \<open>(data, result_counter, bit_buffer, bit_counter)\<close>. The remainder by a zero \<open>n\<close> is the fault
  \<open>None\<close>; the length and \<open>n\<close> of the routine are \<open>uint8_t\<close>.
\<close>

definition remove_bit_step ::
  "nat \<Rightarrow> nat \<Rightarrow> nat \<Rightarrow> u8 list \<times> nat \<times> u8 \<times> nat \<Rightarrow> (u8 list \<times> nat \<times> u8 \<times> nat) option" where
  "remove_bit_step position n counter s =
     (case s of (data, result_counter, bit_buffer, bit_counter) \<Rightarrow>
        if n = 0 then None
        else let (bit_buffer, bit_counter) =
              (if (counter + 1) mod n \<noteq> 0
               then (push_bit 1 bit_buffer OR of_bool (bit_lib_get_bit data (position + counter)), bit_counter + 1)
               else (bit_buffer, bit_counter))
        in if bit_counter = 8
           then map_option (\<lambda>data. (data, result_counter + 8, 0, 0))
                  (bit_lib_set_bits data (position + result_counter) bit_buffer 8)
           else Some (data, result_counter, bit_buffer, bit_counter))"

definition bit_lib_remove_bit_every_nth :: "u8 list \<Rightarrow> nat \<Rightarrow> u8 \<Rightarrow> u8 \<Rightarrow> (u8 list \<times> nat) option" where
  "bit_lib_remove_bit_every_nth data position len n =
     (case fold (\<lambda>counter s. Option.bind s (remove_bit_step position (unat n) counter)) [0..<unat len]
             (Some (data, 0, 0, 0)) of
        None \<Rightarrow> None
      | Some (data, result_counter, bit_buffer, bit_counter) \<Rightarrow>
          (if bit_counter \<noteq> 0
           then map_option (\<lambda>data. (data, result_counter + bit_counter))
                  (bit_lib_set_bits data (position + result_counter) bit_buffer bit_counter)
           else Some (data, result_counter)))"

section \<open>Copying, reversal, counting, printing\<close>

definition bit_lib_copy_bits :: "u8 list \<Rightarrow> nat \<Rightarrow> nat \<Rightarrow> u8 list \<Rightarrow> nat \<Rightarrow> u8 list" where
  "bit_lib_copy_bits data position n source source_position =
     fold (\<lambda>i data. bit_lib_set_bit data (position + i) (bit_lib_get_bit source (source_position + i))) [0..<n] data"

function reverse_bits_loop :: "u8 list \<Rightarrow> nat \<Rightarrow> nat \<Rightarrow> nat \<Rightarrow> u8 list" where
  "reverse_bits_loop data position i j =
     (if i < j
      then let tmp = bit_lib_get_bit data (position + i);
               data = bit_lib_set_bit data (position + i) (bit_lib_get_bit data (position + j));
               data = bit_lib_set_bit data (position + j) tmp
           in reverse_bits_loop data position (i + 1) (j - 1)
      else data)"
  by pat_completeness auto
termination by (relation "measure (\<lambda>(_, _, i, j). j - i)") auto

declare reverse_bits_loop.simps [simp del]

definition bit_lib_reverse_bits :: "u8 list \<Rightarrow> nat \<Rightarrow> nat \<Rightarrow> u8 list" where
  "bit_lib_reverse_bits data position n =
     reverse_bits_loop data position 0 (if n = 0 then 2 ^ 32 - 1 else n - 1)"

definition bit_lib_get_bit_count :: "u32 \<Rightarrow> u8" where
  "bit_lib_get_bit_count data = of_nat (builtin_popcount data)"

definition bit_lib_print_bits :: "u8 list \<Rightarrow> nat \<Rightarrow> string" where
  "bit_lib_print_bits data n = map (\<lambda>i. if bit_lib_get_bit data i then CHR ''1'' else CHR ''0'') [0..<n]"

record BitLibRegion =
  mark :: char
  region_start :: nat
  region_length :: nat

definition region_at :: "BitLibRegion list \<Rightarrow> nat \<Rightarrow> BitLibRegion option" where
  "region_at regions c =
     find (\<lambda>r. region_start r \<le> c \<and> c < region_start r + region_length r) regions"

definition bit_lib_print_regions :: "BitLibRegion list \<Rightarrow> u8 list \<Rightarrow> nat \<Rightarrow> string" where
  "bit_lib_print_regions regions data n =
     (let eol = [CHR 0x0D, CHR 0x0A] in
      bit_lib_print_bits data n @ eol @
      map (\<lambda>c. case region_at regions c of Some r \<Rightarrow> mark r | None \<Rightarrow> CHR '' '') [0..<n] @ eol @
      map (\<lambda>c. case region_at regions c of
                 Some r \<Rightarrow> (if bit_lib_get_bit data c then CHR ''1'' else CHR ''0'') | None \<Rightarrow> CHR '' '') [0..<n] @ eol)"

definition bit_lib_reverse_16_fast :: "u16 \<Rightarrow> u16" where
  "bit_lib_reverse_16_fast data =
     drop_bit 15 (data AND 0x8000) OR drop_bit 13 (data AND 0x4000) OR
     drop_bit 11 (data AND 0x2000) OR drop_bit 9 (data AND 0x1000) OR
     drop_bit 7 (data AND 0x0800) OR drop_bit 5 (data AND 0x0400) OR
     drop_bit 3 (data AND 0x0200) OR drop_bit 1 (data AND 0x0100) OR
     push_bit 1 (data AND 0x0080) OR push_bit 3 (data AND 0x0040) OR
     push_bit 5 (data AND 0x0020) OR push_bit 7 (data AND 0x0010) OR
     push_bit 9 (data AND 0x0008) OR push_bit 11 (data AND 0x0004) OR
     push_bit 13 (data AND 0x0002) OR push_bit 15 (data AND 0x0001)"

definition bit_lib_reverse_8_fast :: "u8 \<Rightarrow> u8" where
  "bit_lib_reverse_8_fast byte =
     (let byte = drop_bit 4 (byte AND 0xF0) OR push_bit 4 (byte AND 0x0F);
          byte = drop_bit 2 (byte AND 0xCC) OR push_bit 2 (byte AND 0x33)
      in drop_bit 1 (byte AND 0xAA) OR push_bit 1 (byte AND 0x55))"

section \<open>CRC\<close>

definition bit_lib_crc8 :: "u8 list \<Rightarrow> u8 \<Rightarrow> u8 \<Rightarrow> bool \<Rightarrow> bool \<Rightarrow> u8 \<Rightarrow> u16" where
  "bit_lib_crc8 data polynom init ref_in ref_out xor_out =
     (let crc = fold (\<lambda>byte crc.
            let byte = (if ref_in then bit_lib_reverse_bits [byte] 0 8 ! 0 else byte)
            in (crc_shl 7 polynom ^^ 8) (crc XOR byte)) data init;
          crc = (if ref_out then bit_lib_reverse_bits [crc] 0 8 ! 0 else crc)
      in ucast (crc XOR xor_out))"

definition crc16_bit :: "u16 \<Rightarrow> u8 \<Rightarrow> nat \<Rightarrow> u16 \<Rightarrow> u16" where
  "crc16_bit polynom byte j crc =
     (let c15 = (drop_bit 15 crc AND 1 \<noteq> 0); b = (drop_bit (7 - j) byte AND 1 \<noteq> 0); crc = push_bit 1 crc
      in if c15 \<noteq> b then crc XOR polynom else crc)"

definition bit_lib_crc16 :: "u8 list \<Rightarrow> u16 \<Rightarrow> u16 \<Rightarrow> bool \<Rightarrow> bool \<Rightarrow> u16 \<Rightarrow> u16" where
  "bit_lib_crc16 data polynom init ref_in ref_out xor_out =
     (let crc = fold (\<lambda>byte crc.
            let byte = (if ref_in then ucast (drop_bit 8 (bit_lib_reverse_16_fast (ucast byte))) else byte)
            in fold (crc16_bit polynom byte) [0..<8] crc) data init;
          crc = (if ref_out then bit_lib_reverse_16_fast crc else crc)
      in crc XOR xor_out)"

section \<open>Numbers and bytes\<close>

definition bit_lib_num_to_bytes_be :: "u64 \<Rightarrow> nat \<Rightarrow> u8 list \<Rightarrow> u8 list option" where
  "bit_lib_num_to_bytes_be src n dest =
     (if \<not> n \<le> 8 then None
      else Some (snd (fold (\<lambda>k (src, dest). (drop_bit 8 src, dest[k := ucast src])) (rev [0..<n]) (src, dest))))"

definition bit_lib_num_to_bytes_le :: "u64 \<Rightarrow> nat \<Rightarrow> u8 list \<Rightarrow> u8 list option" where
  "bit_lib_num_to_bytes_le src n dest =
     (if \<not> n \<le> 8 then None
      else Some (fold (\<lambda>i dest. dest[i := ucast (drop_bit (8 * i) src)]) [0..<n] dest))"

definition bit_lib_bytes_to_num_be :: "u8 list \<Rightarrow> nat \<Rightarrow> u64 option" where
  "bit_lib_bytes_to_num_be src n =
     (if \<not> n \<le> 8 then None
      else Some (fold (\<lambda>i res. push_bit 8 res OR ucast (src ! i)) [0..<n] 0))"

definition bit_lib_bytes_to_num_le :: "u8 list \<Rightarrow> nat \<Rightarrow> u64 option" where
  "bit_lib_bytes_to_num_le src n =
     (if \<not> n \<le> 8 then None
      else Some (fold (\<lambda>i res. res OR push_bit (8 * i) (ucast (src ! i))) [0..<n] 0))"

definition bcd_step :: "u8 \<Rightarrow> u64 \<times> bool \<Rightarrow> u64 \<times> bool" where
  "bcd_step b s =
     (let nibble_1 = b div 16; nibble_2 = b mod 16;
          is_bcd = (if 9 < nibble_1 \<or> 9 < nibble_2 then False else snd s)
      in ((fst s * 10 + ucast nibble_1) * 10 + ucast nibble_2, is_bcd))"

definition bit_lib_bytes_to_num_bcd :: "u8 list \<Rightarrow> nat \<Rightarrow> (u64 \<times> bool) option" where
  "bit_lib_bytes_to_num_bcd src n =
     (if \<not> n \<le> 9 then None else Some (fold (\<lambda>i. bcd_step (src ! i)) [0..<n] (0, True)))"


section \<open>The interface of a bit array\<close>

text \<open>
  What the routines above rely on: reading a bit after writing one. Every routine that only
  reads and writes bits is analysed through these laws.
\<close>

locale bit_array =
  fixes get :: "'a \<Rightarrow> nat \<Rightarrow> bool"
    and set :: "'a \<Rightarrow> nat \<Rightarrow> bool \<Rightarrow> 'a"
    and nbits :: "'a \<Rightarrow> nat"
  assumes get_set: "p < nbits a \<Longrightarrow> get (set a p b) q = (if q = p then b else get a q)"
    and nbits_set: "nbits (set a p b) = nbits a"
    and extensional: "nbits a = nbits c \<Longrightarrow> (\<And>q. q < nbits a \<Longrightarrow> get a q = get c q) \<Longrightarrow> a = c"
begin

lemma write_run:
  "p + n \<le> nbits a \<Longrightarrow>
     nbits (fold (\<lambda>i a. set a (p + i) (f i)) [0..<n] a) = nbits a \<and>
     get (fold (\<lambda>i a. set a (p + i) (f i)) [0..<n] a) q =
       (if p \<le> q \<and> q < p + n then f (q - p) else get a q)"
proof (induction n)
  case (Suc n)
  then show ?case
    by (auto simp: get_set nbits_set less_Suc_eq)
qed auto

text \<open>The swap loop of a reversal, over the positions \<open>i .. j\<close> of the window that starts at \<open>p\<close>.\<close>

lemma swap_get:
  assumes "p + j < nbits a" and "i < j"
  shows "get (set (set a (p + i) (get a (p + j))) (p + j) (get a (p + i))) q =
    (if q = p + i then get a (p + j) else if q = p + j then get a (p + i) else get a q)"
  using assms by (simp add: get_set nbits_set)

lemma write_same: "p < nbits a \<Longrightarrow> set a p (get a p) = a"
  by (rule extensional) (auto simp: get_set nbits_set)

lemma write_write: "p < nbits a \<Longrightarrow> set (set a p b) p c = set a p c"
  by (rule extensional) (auto simp: get_set nbits_set)

end

lemma get_bit_iff: "bit_lib_get_bit data p \<longleftrightarrow> bit (data ! (p div 8)) (7 - p mod 8)"
  by (simp add: bit_lib_get_bit_def bit_read_eq_0 [unfolded bit_read_def])

lemma length_set_bit [simp]: "length (bit_lib_set_bit data p b) = length data"
  by (simp add: bit_lib_set_bit_def)

lemma mod8_eq: "(7 - p mod 8 = 7 - q mod (8::nat)) = (p mod 8 = q mod 8)"
  using mod_less_divisor [of 8 p] mod_less_divisor [of 8 q] by linarith

lemma get_set_bit:
  assumes "p < 8 * length data"
  shows "bit_lib_get_bit (bit_lib_set_bit data p b) q = (if q = p then b else bit_lib_get_bit data q)"
proof (cases "q div 8 = p div 8")
  case True
  then have "q = p \<longleftrightarrow> q mod 8 = p mod 8"
    by (metis mod_mult_div_eq)
  moreover have "p div 8 < length data"
    using assms by (simp add: less_mult_imp_div_less mult.commute)
  ultimately show ?thesis
    using True by (auto simp: get_bit_iff bit_lib_set_bit_def bit_iffs bit_exp_iff mod8_eq)
next
  case False
  then show ?thesis by (auto simp: get_bit_iff bit_lib_set_bit_def)
qed

lemma bit_array_ext:
  assumes "length a = length c" and eq: "\<And>q. q < 8 * length a \<Longrightarrow> bit_lib_get_bit a q = bit_lib_get_bit c q"
  shows "a = c"
proof (rule nth_equalityI)
  fix i assume i: "i < length a"
  show "a ! i = c ! i"
  proof (rule bit_word_eqI)
    fix n assume "n < LENGTH(8)"
    then obtain m where m: "m < 8" "n = 7 - m"
      using that [of "7 - n"] by simp
    then have "8 * i + m < 8 * length a" "(8 * i + m) div 8 = i" "(8 * i + m) mod 8 = m"
      using i by auto
    then show "bit (a ! i) n = bit (c ! i) n"
      using eq [of "8 * i + m"] m by (simp only: get_bit_iff)
  qed
qed (rule assms)

interpretation bits: bit_array bit_lib_get_bit bit_lib_set_bit "\<lambda>data. 8 * length data"
proof (unfold_locales, goal_cases)
  case 1
  then show ?case by (rule get_set_bit)
next
  case 2
  then show ?case by simp
next
  case (3 a c)
  then show ?case using bit_array_ext [of a c] by auto
qed

section \<open>Reading bits\<close>

lemma div_mod_add8:
  assumes "p mod 8 + k < (8 :: nat)"
  shows "(p + k) div 8 = p div 8 \<and> (p + k) mod 8 = p mod 8 + k"
proof -
  have "p + k = 8 * (p div 8) + (p mod 8 + k)" by simp
  then show ?thesis
    using div_mod_split8 [OF assms, of "p div 8"] by simp
qed

lemma div_mod_add16:
  assumes "8 \<le> p mod 8 + k" and "p mod 8 + k < (16 :: nat)"
  shows "(p + k) div 8 = p div 8 + 1 \<and> (p + k) mod 8 = p mod 8 + k - 8"
proof -
  have "p + k = 8 * (p div 8 + 1) + (p mod 8 + k - 8)"
    using assms(1) by simp
  moreover have "p mod 8 + k - 8 < 8"
    using assms by linarith
  ultimately show ?thesis
    using div_mod_split8 [of "p mod 8 + k - 8" "p div 8 + 1"] by metis
qed

lemma bit_get_bits:
  assumes "n \<le> 8"
  shows "bit (bit_lib_get_bits data p n) j \<longleftrightarrow> j < n \<and> bit_lib_get_bit data (p + (n - 1 - j))"
proof (cases "j < n")
  case True
  define k t s where "k = n - 1 - j" and "t = 8 - n + j" and "s = p mod 8"
  have s: "s < 8" and t: "t < 8" "k < 8" "t + k = 7" and fits: "s + n \<le> 8 \<Longrightarrow> s + k < 8"
    using True assms by (auto simp: k_def t_def s_def)
  have d: "bit (drop_bit (8 - n) w) j = bit w t" "bit (drop_bit (8 - n + (8 - s)) w) j = bit w (8 - s + t)" for w :: u8
    by (simp_all add: bit_drop_bit_eq t_def ac_simps)
  have read: "bit (bit_lib_get_bits data p n) j \<longleftrightarrow>
      (if s = 0 then bit (data ! (p div 8)) t
       else if s + n \<le> 8 then s \<le> t \<and> bit (data ! (p div 8)) (t - s)
       else s \<le> t \<and> bit (data ! (p div 8)) (t - s) \<or> bit (data ! (p div 8 + 1)) (8 - s + t))"
    using t(1) by (simp add: bit_lib_get_bits_def Let_def s_def [symmetric] d bit_or_iff bit_push_bit_iff)
  show ?thesis
  proof (cases "s + k < 8")
    case c: True
    have e: "7 - (s + k) = t - s" "s \<le> t" "8 \<le> 8 - s + t"
      using c t by linarith+
    have "bit_lib_get_bit data (p + k) = bit (data ! (p div 8)) (t - s)"
      using div_mod_add8 [of p k] c e(1) unfolding s_def by (simp only: get_bit_iff)
    then show ?thesis
      using True e unfolding read k_def by simp
  next
    case False
    then have c: "8 \<le> s + k" "s + k < 16" "s \<noteq> 0" "\<not> s \<le> t" "\<not> s + n \<le> 8"
      using t s fits by linarith+
    have e: "7 - (s + k - 8) = 8 - s + t"
      using c t s by linarith
    have "bit_lib_get_bit data (p + k) = bit (data ! (p div 8 + 1)) (8 - s + t)"
      using div_mod_add16 [of p k] c(1,2) e unfolding s_def by (simp only: get_bit_iff)
    then show ?thesis
      using True c unfolding read k_def by simp
  qed
next
  case False
  then show ?thesis
    using assms by (auto simp: bit_lib_get_bits_def Let_def bit_iffs)
qed

lemma bit_chunk:
  "bit (chunk data p k :: 'a::len word) j \<longleftrightarrow>
     k \<le> j \<and> j < LENGTH('a) \<and> j < k + 8 \<and> bit_lib_get_bit data (p + (7 - (j - k)))"
  by (auto simp: chunk_def bit_iffs bit_get_bits)

text \<open>
  The three wide readers join chunks of eight bits; one step of that join: if \<open>r\<close> holds the
  bits from \<open>p + 8\<close> on, adding the chunk at \<open>p\<close> gives the bits from \<open>p\<close> on.
\<close>

definition holds_bits :: "u8 list \<Rightarrow> nat \<Rightarrow> nat \<Rightarrow> 'a::len word \<Rightarrow> bool" where
  "holds_bits data p n w \<longleftrightarrow> (\<forall>j. bit w j \<longleftrightarrow> j < n \<and> bit_lib_get_bit data (p + (n - 1 - j)))"

lemma holds_bits_low: "n \<le> 8 \<Longrightarrow> 8 \<le> LENGTH('a) \<Longrightarrow>
    holds_bits data p n (ucast (bit_lib_get_bits data p n) :: 'a::len word)"
  by (auto simp: holds_bits_def bit_iffs bit_get_bits)

lemma holds_bits_chunk:
  assumes "holds_bits data (p + 8) n w" and "n + 8 \<le> LENGTH('a)"
  shows "holds_bits data p (n + 8) (chunk data p n OR w :: 'a::len word)"
  unfolding holds_bits_def
proof
  fix j
  consider "j < n" | "n \<le> j" "j < n + 8" | "n + 8 \<le> j" by linarith
  then show "bit (chunk data p n OR w :: 'a word) j \<longleftrightarrow>
      j < n + 8 \<and> bit_lib_get_bit data (p + (n + 8 - 1 - j))"
  proof cases
    case 1
    then have "p + 8 + (n - 1 - j) = p + (n + 8 - 1 - j)" by linarith
    with 1 assms show ?thesis by (simp add: bit_iffs bit_chunk holds_bits_def)
  next
    case 2
    then have "7 - (j - n) = n + 8 - 1 - j" by linarith
    with 2 assms show ?thesis by (simp add: bit_iffs bit_chunk holds_bits_def)
  next
    case 3
    with assms show ?thesis by (simp add: bit_iffs bit_chunk holds_bits_def)
  qed
qed

lemma holds_bits_ucast:
  assumes "holds_bits data p n (w :: 'a::len word)" "n \<le> LENGTH('b::len)"
  shows "holds_bits data p n (ucast w :: 'b word)"
  unfolding holds_bits_def
proof
  fix j
  show "bit (ucast w :: 'b word) j \<longleftrightarrow> j < n \<and> bit_lib_get_bit data (p + (n - 1 - j))"
    using assms(1) [unfolded holds_bits_def, rule_format, of j] assms(2) by (simp add: bit_iffs) linarith
qed

lemma holds_bits_eq: "holds_bits data p n v \<Longrightarrow> holds_bits data p n w \<Longrightarrow> v = w"
  by (rule bit_word_eqI) (simp add: holds_bits_def)


text \<open>Every wide reader returns the \<open>n\<close> bits from \<open>p\<close> on, as a number, most significant first.\<close>

lemma holds_bits_join:
  assumes "holds_bits data p' k w" "p' = p + 8" "n = k + 8" "n \<le> LENGTH('a::len)"
  shows "holds_bits data p n (chunk data p k OR w :: 'a word)"
  using holds_bits_chunk [of data p k w] assms by simp

lemma holds_bits_if:
  assumes "c \<Longrightarrow> holds_bits data p n v" "\<not> c \<Longrightarrow> holds_bits data p n w"
  shows "holds_bits data p n (if c then v else w)"
  using assms by simp

lemmas holds_bits_intros = holds_bits_if holds_bits_join holds_bits_low

lemma holds_bits_16: "n \<le> 16 \<Longrightarrow> holds_bits data p n (bit_lib_get_bits_16 data p n)"
  unfolding bit_lib_get_bits_16_def by (rule holds_bits_intros | simp | arith)+

lemma holds_bits_32: "n \<le> 32 \<Longrightarrow> holds_bits data p n (bit_lib_get_bits_32 data p n)"
  unfolding bit_lib_get_bits_32_def or.assoc by (rule holds_bits_intros | simp | arith)+

lemma holds_bits_64: "n \<le> 64 \<Longrightarrow> holds_bits data p n (bit_lib_get_bits_64 data p n)"
  unfolding bit_lib_get_bits_64_def or.assoc by (rule holds_bits_intros | simp | arith)+


text \<open>
  Every reader returns the bits it names: for a width of at most 64 bits the number read has
  exactly the bits from \<open>p\<close> on, most significant first, however they straddle the bytes, and
  the narrower readers return the same number where the width fits them.
\<close>

theorem get_bits_value:
  assumes "n \<le> 64"
  shows "(bit (bit_lib_get_bits_64 data p n) j \<longleftrightarrow> j < n \<and> bit_lib_get_bit data (p + (n - 1 - j))) \<and>
    (n \<le> 32 \<longrightarrow> ucast (bit_lib_get_bits_32 data p n) = bit_lib_get_bits_64 data p n) \<and>
    (n \<le> 16 \<longrightarrow> ucast (bit_lib_get_bits_16 data p n) = bit_lib_get_bits_64 data p n) \<and>
    (n \<le> 8 \<longrightarrow> ucast (bit_lib_get_bits data p n) = bit_lib_get_bits_64 data p n)"
proof (intro conjI impI)
  note h = holds_bits_64 [OF assms, of data p]
  show "bit (bit_lib_get_bits_64 data p n) j \<longleftrightarrow> j < n \<and> bit_lib_get_bit data (p + (n - 1 - j))"
    using h by (simp add: holds_bits_def)
  show "n \<le> 32 \<Longrightarrow> ucast (bit_lib_get_bits_32 data p n) = bit_lib_get_bits_64 data p n"
    using holds_bits_eq [OF holds_bits_ucast [OF holds_bits_32, where 'b = 64] h] by simp
  show "n \<le> 16 \<Longrightarrow> ucast (bit_lib_get_bits_16 data p n) = bit_lib_get_bits_64 data p n"
    using holds_bits_eq [OF holds_bits_ucast [OF holds_bits_16, where 'b = 64] h] by simp
  show "n \<le> 8 \<Longrightarrow> ucast (bit_lib_get_bits data p n) = bit_lib_get_bits_64 data p n"
    using holds_bits_eq [OF holds_bits_low h] by simp
qed

theorem get_bits_value_witness:
  "(12 :: nat) \<le> 64 \<and> bit (bit_lib_get_bits_64 [0x12, 0x34] 2 12) 3 \<and>
   ucast (bit_lib_get_bits_16 [0x12, 0x34] 2 12) = bit_lib_get_bits_64 [0x12, 0x34] 2 12"
  using get_bits_value [of 12 "[0x12, 0x34]" 2 3] by (simp add: bit_lib_get_bit_def)

section \<open>Writing, copying and reversing bits\<close>

lemma set_bits_window:
  assumes "1 \<le> n" "n \<le> 8" "p + n \<le> 8 * length data"
  obtains d where "bit_lib_set_bits data p byte n = Some d" "length d = length data"
    "\<And>q. bit_lib_get_bit d q = (if p \<le> q \<and> q < p + n then bit byte (n - 1 - (q - p)) else bit_lib_get_bit data q)"
proof -
  let ?d = "fold (\<lambda>i data. bit_lib_set_bit data (p + i) (drop_bit (n - 1 - i) byte AND 1 \<noteq> 0)) [0..<n] data"
  have "bit_lib_set_bits data p byte n = Some ?d"
    using assms by (simp add: bit_lib_set_bits_def)
  moreover have "length ?d = length data"
    using bits.write_run [OF assms(3)] by simp
  moreover have "bit_lib_get_bit ?d q =
      (if p \<le> q \<and> q < p + n then bit byte (n - 1 - (q - p)) else bit_lib_get_bit data q)" for q
    using bits.write_run [OF assms(3), of "\<lambda>i. drop_bit (n - 1 - i) byte AND 1 \<noteq> 0" q]
    by (simp add: bit_read_eq_0 [unfolded bit_read_def])
  ultimately show thesis by (rule that)
qed

lemma length_reverse_bits_loop [simp]: "length (reverse_bits_loop data p i j) = length data"
proof (induction data p i j rule: reverse_bits_loop.induct)
  case (1 data p i j)
  then show ?case by (subst reverse_bits_loop.simps) (simp add: Let_def)
qed

lemma get_reverse_bits_loop:
  "p + j < 8 * length data \<Longrightarrow>
   bit_lib_get_bit (reverse_bits_loop data p i j) q =
     (if p + i \<le> q \<and> q \<le> p + j then bit_lib_get_bit data (p + i + (p + j - q)) else bit_lib_get_bit data q)"
proof (induction data p i j rule: reverse_bits_loop.induct)
  case (1 data p i j)
  let ?d = "bit_lib_set_bit (bit_lib_set_bit data (p + i) (bit_lib_get_bit data (p + j))) (p + j)
      (bit_lib_get_bit data (p + i))"
  show ?case
  proof (cases "i < j")
    case True
    have swap: "bit_lib_get_bit ?d x =
      (if x = p + i then bit_lib_get_bit data (p + j) else if x = p + j then bit_lib_get_bit data (p + i)
       else bit_lib_get_bit data x)" for x
      using bits.swap_get [OF _ True, of p data] 1(2) by simp
    have unf: "reverse_bits_loop data p i j = reverse_bits_loop ?d p (i + 1) (j - 1)"
      using True by (subst reverse_bits_loop.simps) (simp add: Let_def)
    have len: "p + (j - 1) < 8 * length ?d" using 1(2) by simp
    have IH: "bit_lib_get_bit (reverse_bits_loop data p i j) q =
      (if p + (i + 1) \<le> q \<and> q \<le> p + (j - 1) then bit_lib_get_bit ?d (p + (i + 1) + (p + (j - 1) - q))
       else bit_lib_get_bit ?d q)"
      unfolding unf by (rule 1(1) [OF True refl refl refl len])
    consider "q = p + i" | "q = p + j" | "p + (i + 1) \<le> q" "q \<le> p + (j - 1)" | "q < p + i" | "p + j < q"
      using True by linarith
    then show ?thesis
    proof cases
      case 3
      then have e: "p + (i + 1) + (p + (j - 1) - q) = p + i + (p + j - q)"
        and n: "p + i + (p + j - q) \<noteq> p + i" "p + i + (p + j - q) \<noteq> p + j" "p + i \<le> q" "q \<le> p + j"
        using True by linarith+
      show ?thesis
        using 3 n by (simp only: IH e swap if_True if_False simp_thms)
    qed (use True IH [unfolded swap] in \<open>auto split: if_splits\<close>)
  next
    case False
    then have "reverse_bits_loop data p i j = data"
      by (subst reverse_bits_loop.simps) simp
    moreover have "p + i + (p + j - q) = q" if "p + i \<le> q" "q \<le> p + j"
      using that False by linarith
    ultimately show ?thesis
      by (auto simp only: split: if_split)
  qed
qed

lemma get_reverse_bits:
  assumes "1 \<le> n" "p + n \<le> 8 * length data"
  shows "bit_lib_get_bit (bit_lib_reverse_bits data p n) q =
     (if p \<le> q \<and> q < p + n then bit_lib_get_bit data (p + (n - 1 - (q - p))) else bit_lib_get_bit data q)"
proof -
  have "p + (n - 1) < 8 * length data" using assms by linarith
  moreover have "p + (p + (n - 1) - q) = p + (n - 1 - (q - p))" if "p \<le> q" using that by linarith
  ultimately show ?thesis
    using assms(1) get_reverse_bits_loop [of p "n - 1" data 0 q]
    by (auto simp: bit_lib_reverse_bits_def)
qed

lemma length_reverse_bits [simp]: "length (bit_lib_reverse_bits data p n) = length data"
  by (simp add: bit_lib_reverse_bits_def)

text \<open>Reversing a window of a bit array twice restores the array.\<close>

theorem reverse_bits_involution:
  assumes "1 \<le> n" "p + n \<le> 8 * length data"
  shows "bit_lib_reverse_bits (bit_lib_reverse_bits data p n) p n = data"
proof (rule bit_array_ext)
  fix q
  show "bit_lib_get_bit (bit_lib_reverse_bits (bit_lib_reverse_bits data p n) p n) q = bit_lib_get_bit data q"
    using assms by (auto simp: get_reverse_bits)
qed simp

theorem reverse_bits_involution_witness:
  "(1 :: nat) \<le> 5 \<and> 3 + 5 \<le> 8 * length [0x1D :: u8] \<and>
   bit_lib_reverse_bits [0x1D] 3 5 \<noteq> [0x1D] \<and> bit_lib_reverse_bits (bit_lib_reverse_bits [0x1D] 3 5) 3 5 = [0x1D]"
proof -
  have w: "(1 :: nat) \<le> 5" "3 + 5 \<le> 8 * length [0x1D :: u8]" by simp_all
  have "bit_lib_reverse_bits [0x1D] 3 5 \<noteq> [0x1D]"
    using get_reverse_bits [OF w, of 6] by (auto simp: bit_lib_get_bit_def)
  with w show ?thesis using reverse_bits_involution [OF w] by blast
qed

lemma bit_reverse_8_fast: "j < 8 \<Longrightarrow> bit (bit_lib_reverse_8_fast b) j = bit b (7 - j)"
  by (erule less_8_cases) (simp_all add: bit_lib_reverse_8_fast_def Let_def bit_iffs)

lemma bit_reverse_16_fast: "j < 16 \<Longrightarrow> bit (bit_lib_reverse_16_fast b) j = bit b (15 - j)"
  by (erule less_16_cases) (simp_all add: bit_lib_reverse_16_fast_def bit_iffs)

lemma reverse_byte: "bit_lib_reverse_bits [b] 0 8 ! 0 = bit_lib_reverse_8_fast b"
proof (rule bit_word_eqI)
  fix j assume "j < LENGTH(8)"
  then have j: "j < 8" by simp
  have "bit (bit_lib_reverse_bits [b] 0 8 ! 0) j = bit_lib_get_bit (bit_lib_reverse_bits [b] 0 8) (7 - j)"
    using j by (simp add: get_bit_iff)
  also have "\<dots> = bit b (7 - j)"
    using j by (simp add: get_reverse_bits) (simp add: get_bit_iff)
  also have "\<dots> = bit (bit_lib_reverse_8_fast b) j"
    using j by (rule bit_reverse_8_fast [symmetric])
  finally show "bit (bit_lib_reverse_bits [b] 0 8 ! 0) j = bit (bit_lib_reverse_8_fast b) j" .
qed


section \<open>Pushing a bit\<close>

lemma push_bit_loop:
  "k < length data \<Longrightarrow>
   (let d = fold (\<lambda>i data. data[i := push_bit 1 (data ! i) OR (drop_bit 7 (data ! (i + 1)) AND 1)]) [0..<k] data
    in length d = length data \<and>
       (\<forall>i < length data. d ! i = (if i < k then push_bit 1 (data ! i) OR (drop_bit 7 (data ! (i + 1)) AND 1) else data ! i)))"
  by (induction k) (auto simp: Let_def nth_list_update less_Suc_eq)

lemma bit_pushed_byte:
  "bit (push_bit 1 (x :: u8) OR (drop_bit 7 y AND 1)) j \<longleftrightarrow> (if j = 0 then bit y 7 else j < 8 \<and> bit x (j - 1))"
  by (cases j) (auto simp: bit_iffs)

text \<open>
  Pushing a bit shifts the whole array by one position: every bit takes the value of its
  right neighbour, across byte boundaries, and the pushed bit becomes the last one.
\<close>

theorem push_bit_shifts:
  assumes "q < 8 * length data"
  shows "bit_lib_get_bit (bit_lib_push_bit data b) q =
    (if q = 8 * length data - 1 then b else bit_lib_get_bit data (q + 1))"
proof -
  define k where "k = length data - 1"
  have "length data \<noteq> 0" using assms by linarith
  then have k: "k < length data" "length data = Suc k"
    by (simp_all add: k_def)
  let ?d = "fold (\<lambda>i data. data[i := push_bit 1 (data ! i) OR (drop_bit 7 (data ! (i + 1)) AND 1)]) [0..<k] data"
  have d: "length ?d = length data"
    "i < length data \<Longrightarrow> ?d ! i = (if i < k then push_bit 1 (data ! i) OR (drop_bit 7 (data ! (i + 1)) AND 1) else data ! i)" for i
    using push_bit_loop [OF k(1)] by (simp_all only: Let_def)
  have res: "bit_lib_push_bit data b = ?d[k := push_bit 1 (data ! k) OR of_bool b]"
    unfolding bit_lib_push_bit_def Let_def k_def [symmetric] using d(2) [OF k(1)] by simp
  define a r where "a = q div 8" and "r = q mod 8"
  have q: "q = 8 * a + r" "r < 8" "a \<le> k"
    using assms k(2) by (auto simp: a_def r_def)
  have byte: "bit (bit_lib_push_bit data b ! a) j \<longleftrightarrow>
      (if j = 0 then (if a = k then b else bit (data ! (a + 1)) 7) else j < 8 \<and> bit (data ! a) (j - 1))" for j
  proof (cases "a = k")
    case True
    then have "bit_lib_push_bit data b ! a = push_bit 1 (data ! k) OR of_bool b"
      using d(1) k(1) by (simp only: res nth_list_update_eq)
    with True show ?thesis by (simp only: bit_shift_in if_True) simp
  next
    case False
    then have "a < k" "a < length data" using q(3) k by simp_all
    then have "bit_lib_push_bit data b ! a = push_bit 1 (data ! a) OR (drop_bit 7 (data ! (a + 1)) AND 1)"
      using False d(2) [of a] by (simp only: res nth_list_update_neq if_True)
    with False show ?thesis by (simp only: bit_pushed_byte if_False)
  qed
  show ?thesis
  proof (cases "r = 7")
    case True
    then have "q + 1 = 8 * (a + 1)" "q div 8 = a" "q mod 8 = 7" using q by auto
    moreover have "(8 * (a + 1)) div 8 = a + 1" "(8 * (a + 1)) mod 8 = 0" by simp_all
    moreover have "q = 8 * length data - 1 \<longleftrightarrow> a = k" using q True k(2) by auto
    ultimately show ?thesis using byte [of 0] by (simp only: get_bit_iff) simp
  next
    case False
    then have s: "r + 1 < 8" using q by simp
    have "q \<noteq> 8 * length data - 1" using q False k(2) by auto
    moreover have "(q + 1) div 8 = a" "(q + 1) mod 8 = r + 1" "q div 8 = a" "q mod 8 = r"
      using div_mod_split8 [OF s, of a] div_mod_split8 [OF q(2), of a] by (simp_all add: q(1))
    moreover have "7 - r \<noteq> 0" "7 - r - 1 = 7 - (r + 1)" "7 - r < 8" using s by simp_all
    ultimately show ?thesis using byte [of "7 - r"] by (simp only: get_bit_iff) simp
  qed
qed

theorem push_bit_shifts_witness:
  "(7 :: nat) < 8 * length [0x01, 0x80 :: u8] \<and> bit_lib_get_bit (bit_lib_push_bit [0x01, 0x80] False) 7"
  using push_bit_shifts [of 7 "[0x01, 0x80]" False] by (simp add: bit_lib_get_bit_def)

section \<open>Parity blocks\<close>

lemma holds_bits_shift_in:
  assumes "holds_bits data p m w" "m < LENGTH('a)"
  shows "holds_bits data p (Suc m) (push_bit 1 w OR of_bool (bit_lib_get_bit data (p + m)) :: 'a::len word)"
  unfolding holds_bits_def
proof
  fix j
  show "bit (push_bit 1 w OR of_bool (bit_lib_get_bit data (p + m)) :: 'a word) j \<longleftrightarrow>
      j < Suc m \<and> bit_lib_get_bit data (p + (Suc m - 1 - j))"
    unfolding bit_shift_in using assms(1) [unfolded holds_bits_def, rule_format, of "j - 1"] assms(2)
    by (cases j) auto
qed

lemma popcount_holds_bits:
  assumes "holds_bits data p n w" "n \<le> 32"
  shows "builtin_popcount w = card {i. i < n \<and> bit_lib_get_bit data (p + i)}"
proof -
  have w: "bit w j \<longleftrightarrow> j < n \<and> bit_lib_get_bit data (p + (n - 1 - j))" for j
    using assms(1) by (simp add: holds_bits_def)
  have "builtin_popcount w = card {j. j < 32 \<and> bit w j}"
    unfolding builtin_popcount_def length_filter_conv_card by (rule arg_cong [where f = card]) auto
  also have "{j. j < 32 \<and> bit w j} = {j. j < n \<and> bit_lib_get_bit data (p + (n - 1 - j))}"
    using assms(2) by (auto simp: w)
  also have "\<dots> = (\<lambda>i. n - 1 - i) ` {i. i < n \<and> bit_lib_get_bit data (p + i)}"
  proof (intro equalityI subsetI)
    fix j assume "j \<in> {j. j < n \<and> bit_lib_get_bit data (p + (n - 1 - j))}"
    then show "j \<in> (\<lambda>i. n - 1 - i) ` {i. i < n \<and> bit_lib_get_bit data (p + i)}"
      by (intro image_eqI [where x = "n - 1 - j"]) auto
  qed auto
  also have "card \<dots> = card {i. i < n \<and> bit_lib_get_bit data (p + i)}"
    by (rule card_image) (auto simp: inj_on_def)
  finally show ?thesis .
qed

lemma add_parity_bit_step:
  "add_parity_bit data from dp i (d, j, w) =
     (bit_lib_set_bit d (dp + j) (bit_lib_get_bit data (from + i)), j + 1,
      push_bit 1 w OR of_bool (bit_lib_get_bit data (from + i)))"
  by (simp add: add_parity_bit_def Let_def)

lemma add_parity_bits:
  "m \<le> 32 \<Longrightarrow> \<exists>w. holds_bits data from m w \<and>
     fold (add_parity_bit data from dp) [0..<m] (d, j, 0) =
       (fold (\<lambda>i a. bit_lib_set_bit a (dp + j + i) (bit_lib_get_bit data (from + i))) [0..<m] d, j + m, w)"
proof (induction m)
  case 0
  then show ?case by (simp add: holds_bits_def)
next
  case (Suc m)
  then obtain w where w: "holds_bits data from m w"
    "fold (add_parity_bit data from dp) [0..<m] (d, j, 0) =
       (fold (\<lambda>i a. bit_lib_set_bit a (dp + j + i) (bit_lib_get_bit data (from + i))) [0..<m] d, j + m, w)"
    by auto
  then show ?case
    using holds_bits_shift_in [OF w(1)] Suc.prems
    by (simp add: add_parity_bit_step add.assoc)
qed


text \<open>One block: the data bits, then the parity bit; everything else stays.\<close>

definition block_parity :: "u8 list \<Rightarrow> nat \<Rightarrow> nat \<Rightarrow> BitLibParity \<Rightarrow> bool" where
  "block_parity data from m parity =
     (case parity of
        BitLibParityAlways0 \<Rightarrow> False | BitLibParityAlways1 \<Rightarrow> True
      | BitLibParityEven \<Rightarrow> odd (card {i. i < m \<and> bit_lib_get_bit data (from + i)})
      | BitLibParityOdd \<Rightarrow> even (card {i. i < m \<and> bit_lib_get_bit data (from + i)}))"

lemma parity_bit_block:
  "holds_bits data from m w \<Longrightarrow> m \<le> 32 \<Longrightarrow> parity_bit w parity = block_parity data from m parity"
  by (cases parity)
    (simp_all add: parity_bit_def block_parity_def bit_lib_test_parity_32_def builtin_parity_def popcount_holds_bits)

lemma add_parity_block_get:
  assumes "1 \<le> pl" "pl \<le> 32" "dp + j + pl \<le> 8 * length d"
  obtains d' where "add_parity_block data from dp pl parity (d, j) = (d', j + pl)" "length d' = length d"
    "\<And>q. bit_lib_get_bit d' q =
       (if dp + j \<le> q \<and> q < dp + j + (pl - 1) then bit_lib_get_bit data (from + (q - (dp + j)))
        else if q = dp + j + (pl - 1) then block_parity data from (pl - 1) parity
        else bit_lib_get_bit d q)"
proof -
  let ?d = "fold (\<lambda>i a. bit_lib_set_bit a (dp + j + i) (bit_lib_get_bit data (from + i))) [0..<pl - 1] d"
  obtain w where w: "holds_bits data from (pl - 1) w"
    "fold (add_parity_bit data from dp) [0..<pl - 1] (d, j, 0) = (?d, j + (pl - 1), w)"
    using add_parity_bits [of "pl - 1" data "from" dp d j] le_trans [OF diff_le_self assms(2)] by blast
  have run: "length ?d = length d"
    "bit_lib_get_bit ?d q = (if dp + j \<le> q \<and> q < dp + j + (pl - 1) then bit_lib_get_bit data (from + (q - (dp + j))) else bit_lib_get_bit d q)" for q
    using bits.write_run [of "dp + j" "pl - 1" d "\<lambda>i. bit_lib_get_bit data (from + i)" q] assms(1,3) by simp_all
  have "add_parity_block data from dp pl parity (d, j) =
      (bit_lib_set_bit ?d (dp + j + (pl - 1)) (block_parity data from (pl - 1) parity), j + pl)"
    unfolding add_parity_block_def fst_conv snd_conv w(2)
    using assms(1,2) parity_bit_block [OF w(1), of parity] by (simp add: add.assoc)
  then show thesis
    by (rule that) (use run assms in \<open>simp_all add: get_set_bit\<close>)
qed

text \<open>\<open>k\<close> blocks in a row.\<close>

definition add_parity_blocks ::
  "u8 list \<Rightarrow> nat \<Rightarrow> nat \<Rightarrow> nat \<Rightarrow> BitLibParity \<Rightarrow> nat list \<Rightarrow> u8 list \<times> nat \<Rightarrow> u8 list \<times> nat" where
  "add_parity_blocks data position dp pl parity =
     fold (\<lambda>i. add_parity_block data (position + i * (pl - 1)) dp pl parity)"

lemma add_parity_loop_blocks:
  assumes "2 \<le> pl" "i \<le> k"
  shows "add_parity_loop data position dp (k * (pl - 1)) pl parity (i * (pl - 1)) s c =
    Some (fst (add_parity_blocks data position dp pl parity [i..<k] s), c + (k - i) * pl)"
  using assms(2)
proof (induction "k - i" arbitrary: i s c)
  case 0
  then show ?case by (subst add_parity_loop.simps) (simp add: add_parity_blocks_def)
next
  case (Suc n)
  then have i: "i < k" "n = k - Suc i" "Suc i \<le> k" by simp_all
  have next_w: "i * (pl - 1) + (pl - 1) = Suc i * (pl - 1)" by simp
  have lt: "i * (pl - 1) < k * (pl - 1)" using i(1) assms(1) by simp
  have c: "c + pl + (k - Suc i) * pl = c + (k - i) * pl"
    using Suc.hyps(2) i(2) by (metis add.assoc mult_Suc)
  have "[i..<k] = i # [Suc i..<k]" using i(1) by (rule upt_conv_Cons)
  then show ?case
    using lt Suc.hyps(1) [OF i(2,3)]
    by (subst add_parity_loop.simps) (simp only: next_w if_True c add_parity_blocks_def fold_simps)
qed

lemma add_parity_blocks_get:
  assumes "1 \<le> pl" "pl \<le> 32"
  shows "dp + k * pl \<le> 8 * length d \<Longrightarrow>
   \<exists>d'. add_parity_blocks data position dp pl parity [0..<k] (d, 0) = (d', k * pl) \<and> length d' = length d \<and>
     (\<forall>i<k. (\<forall>m<pl - 1. bit_lib_get_bit d' (dp + i * pl + m) = bit_lib_get_bit data (position + i * (pl - 1) + m)) \<and>
       bit_lib_get_bit d' (dp + i * pl + (pl - 1)) = block_parity data (position + i * (pl - 1)) (pl - 1) parity) \<and>
     (\<forall>q. q < dp \<or> dp + k * pl \<le> q \<longrightarrow> bit_lib_get_bit d' q = bit_lib_get_bit d q)"
proof (induction k)
  case 0
  then show ?case by (simp add: add_parity_blocks_def)
next
  case (Suc k)
  then obtain d1 where d1: "add_parity_blocks data position dp pl parity [0..<k] (d, 0) = (d1, k * pl)" "length d1 = length d"
     "\<And>i m. i < k \<Longrightarrow> m < pl - 1 \<Longrightarrow> bit_lib_get_bit d1 (dp + i * pl + m) = bit_lib_get_bit data (position + i * (pl - 1) + m)"
     "\<And>i. i < k \<Longrightarrow> bit_lib_get_bit d1 (dp + i * pl + (pl - 1)) = block_parity data (position + i * (pl - 1)) (pl - 1) parity"
     "\<And>q. q < dp \<or> dp + k * pl \<le> q \<Longrightarrow> bit_lib_get_bit d1 q = bit_lib_get_bit d q"
    by (simp add: le_trans) (use Suc in \<open>metis\<close>)
  have fits: "dp + k * pl + pl \<le> 8 * length d1"
    using Suc.prems d1(2) by simp
  obtain d2 where d2: "add_parity_block data (position + k * (pl - 1)) dp pl parity (d1, k * pl) = (d2, k * pl + pl)"
    "length d2 = length d1"
    "\<And>q. bit_lib_get_bit d2 q =
       (if dp + k * pl \<le> q \<and> q < dp + k * pl + (pl - 1) then bit_lib_get_bit data (position + k * (pl - 1) + (q - (dp + k * pl)))
        else if q = dp + k * pl + (pl - 1) then block_parity data (position + k * (pl - 1)) (pl - 1) parity
        else bit_lib_get_bit d1 q)"
    by (rule add_parity_block_get [OF assms fits, of data "position + k * (pl - 1)" parity]) (rule that)
  have low: "dp + i * pl + m < dp + k * pl" if "i < k" "m < pl" for i m
  proof -
    have "i * pl + m < Suc i * pl" using that(2) by simp
    also have "\<dots> \<le> k * pl" using that(1) by (intro mult_le_mono1) simp
    finally show ?thesis by simp
  qed
  have keep: "bit_lib_get_bit d2 (dp + i * pl + m) = bit_lib_get_bit d1 (dp + i * pl + m)" if "i < k" "m < pl" for i m
    using low [OF that] by (simp add: d2(3))
  have "add_parity_blocks data position dp pl parity [0..<Suc k] (d, 0) = (d2, Suc k * pl)"
    using d1(1) d2(1) by (simp add: add_parity_blocks_def add.commute)
  moreover have "length d2 = length d" using d1 d2 by simp
  moreover have "bit_lib_get_bit d2 (dp + i * pl + m) = bit_lib_get_bit data (position + i * (pl - 1) + m)"
    if "i < Suc k" "m < pl - 1" for i m
    using that d1(3) [of i m] keep [of i m] by (cases "i = k") (auto simp: d2(3))
  moreover have "bit_lib_get_bit d2 (dp + i * pl + (pl - 1)) = block_parity data (position + i * (pl - 1)) (pl - 1) parity"
    if "i < Suc k" for i
    using that d1(4) [of i] keep [of i "pl - 1"] assms(1) by (cases "i = k") (auto simp: d2(3))
  moreover have "bit_lib_get_bit d2 q = bit_lib_get_bit d q" if "q < dp \<or> dp + Suc k * pl \<le> q" for q
    using that d1(5) [of q] assms(1) by (auto simp: d2(3))
  ultimately show ?case by blast
qed


lemma test_parity_blocks:
  "pl \<noteq> 0 \<Longrightarrow> bit_lib_test_parity bits p n parity pl =
     Some (\<forall>i<unat n div unat pl. test_parity_block bits (p + i * unat pl) parity (unat pl))"
  by (auto simp: bit_lib_test_parity_def list_all_iff)

definition opposite :: "BitLibParity \<Rightarrow> BitLibParity" where
  "opposite parity =
     (case parity of BitLibParityEven \<Rightarrow> BitLibParityOdd | BitLibParityOdd \<Rightarrow> BitLibParityEven | _ \<Rightarrow> parity)"

text \<open>A block of data bits followed by its parity bit, under the test of the library.\<close>

lemma test_written_block:
  assumes "2 \<le> pl" "pl \<le> 32"
    and bits: "\<And>m. m < pl - 1 \<Longrightarrow> bit_lib_get_bit d (p + m) = bit_lib_get_bit data (from + m)"
    and par: "bit_lib_get_bit d (p + (pl - 1)) = block_parity data from (pl - 1) parity"
  shows "test_parity_block d p (opposite parity) pl"
    and "parity = BitLibParityEven \<or> parity = BitLibParityOdd \<Longrightarrow> \<not> test_parity_block d p parity pl"
proof -
  let ?A = "{i. i < pl - 1 \<and> bit_lib_get_bit data (from + i)}"
  have set: "{i. i < pl \<and> bit_lib_get_bit d (p + i)} =
      (if block_parity data from (pl - 1) parity then insert (pl - 1) ?A else ?A)"
  proof (rule set_eqI)
    fix i
    show "i \<in> {i. i < pl \<and> bit_lib_get_bit d (p + i)} \<longleftrightarrow>
      i \<in> (if block_parity data from (pl - 1) parity then insert (pl - 1) ?A else ?A)"
      using bits [of i] par assms(1) by (cases "i = pl - 1") auto
  qed
  have pop: "builtin_popcount (bit_lib_get_bits_32 d p pl) =
      card ?A + of_bool (block_parity data from (pl - 1) parity)"
    using popcount_holds_bits [OF holds_bits_32 [OF assms(2)] assms(2), of d p] by (simp add: set)
  have last: "p + pl - 1 = p + (pl - 1)" using assms(1) by simp
  show "test_parity_block d p (opposite parity) pl"
    using pop par unfolding test_parity_block_def last
    by (cases parity) (simp_all add: opposite_def bit_lib_test_parity_32_def builtin_parity_def block_parity_def)
  show "\<not> test_parity_block d p parity pl" if "parity = BitLibParityEven \<or> parity = BitLibParityOdd"
    using pop that unfolding test_parity_block_def
    by (auto simp: bit_lib_test_parity_32_def builtin_parity_def block_parity_def)
qed

text \<open>A \<open>uint8_t\<close> argument holds every number below 256.\<close>

lemma unat_u8: "n < 256 \<Longrightarrow> unat (word_of_nat n :: u8) = n"
  by (simp add: unsigned_of_nat take_bit_nat_eq_self)

lemma two_le_u8: "2 \<le> unat (pl :: u8) \<Longrightarrow> pl \<noteq> 0"
  by (cases "pl = 0") simp_all

lemma add_parity_get:
  fixes pl :: u8
  assumes "2 \<le> unat pl" "unat pl \<le> 32" "k * (unat pl - 1) < 256" "dp + k * unat pl \<le> 8 * length dest"
  obtains d where
    "bit_lib_add_parity data p dest dp (word_of_nat (k * (unat pl - 1))) pl parity = Some (d, k * unat pl)"
    "length d = length dest"
    "\<And>i m. i < k \<Longrightarrow> m < unat pl - 1 \<Longrightarrow>
       bit_lib_get_bit d (dp + i * unat pl + m) = bit_lib_get_bit data (p + i * (unat pl - 1) + m)"
    "\<And>i. i < k \<Longrightarrow>
       bit_lib_get_bit d (dp + i * unat pl + (unat pl - 1)) = block_parity data (p + i * (unat pl - 1)) (unat pl - 1) parity"
    "\<And>q. q < dp \<or> dp + k * unat pl \<le> q \<Longrightarrow> bit_lib_get_bit d q = bit_lib_get_bit dest q"
proof -
  let ?pl = "unat pl"
  have pl: "1 \<le> ?pl" using assms(1) by simp
  obtain d where d: "add_parity_blocks data p dp ?pl parity [0..<k] (dest, 0) = (d, k * ?pl)" "length d = length dest"
    "\<And>i m. i < k \<Longrightarrow> m < ?pl - 1 \<Longrightarrow> bit_lib_get_bit d (dp + i * ?pl + m) = bit_lib_get_bit data (p + i * (?pl - 1) + m)"
    "\<And>i. i < k \<Longrightarrow> bit_lib_get_bit d (dp + i * ?pl + (?pl - 1)) = block_parity data (p + i * (?pl - 1)) (?pl - 1) parity"
    "\<And>q. q < dp \<or> dp + k * ?pl \<le> q \<Longrightarrow> bit_lib_get_bit d q = bit_lib_get_bit dest q"
    using add_parity_blocks_get [OF pl assms(2,4), of data p parity] by metis
  have "bit_lib_add_parity data p dest dp (word_of_nat (k * (?pl - 1))) pl parity = Some (d, k * ?pl)"
    using add_parity_loop_blocks [OF assms(1), of 0 k data p dp parity "(dest, 0)" 0] d(1)
    by (simp only: bit_lib_add_parity_def unat_u8 [OF assms(3)]) simp
  then show thesis using d(2-5) by (rule that)
qed

text \<open>
  C27 Adding parity bits: for blocks of two to 32 bits, and as many data bits as the 8-bit length
  argument can name, the loop ends, returns the number of bits written and writes nothing else;
  every block carries its data bits in order, and the written blocks pass the library's own
  parity test for the opposite parity, for every 8-bit length \<open>n\<close> the test can be called with on
  them (a count of 256 or more reaches it modulo 256). The two routines disagree about the names:
  blocks written with even parity fail the even test and blocks written with odd parity fail the
  odd one, as soon as the length names one whole block.
\<close>

theorem add_parity_then_test:
  fixes pl :: u8
  assumes "2 \<le> unat pl" "unat pl \<le> 32" "k * (unat pl - 1) < 256" "dp + k * unat pl \<le> 8 * length dest"
  shows "\<exists>d. bit_lib_add_parity data p dest dp (word_of_nat (k * (unat pl - 1))) pl parity = Some (d, k * unat pl) \<and>
    length d = length dest \<and>
    (\<forall>i<k. \<forall>m<unat pl - 1.
       bit_lib_get_bit d (dp + i * unat pl + m) = bit_lib_get_bit data (p + i * (unat pl - 1) + m)) \<and>
    (\<forall>q. q < dp \<or> dp + k * unat pl \<le> q \<longrightarrow> bit_lib_get_bit d q = bit_lib_get_bit dest q) \<and>
    (\<forall>n. unat n \<le> k * unat pl \<longrightarrow>
       bit_lib_test_parity d dp n (opposite parity) pl = Some True \<and>
       (parity = BitLibParityEven \<or> parity = BitLibParityOdd \<longrightarrow>
          bit_lib_test_parity d dp n parity pl = Some (n < pl)))"
proof -
  have pl: "0 < unat pl" "pl \<noteq> 0" using assms(1) two_le_u8 by auto
  obtain d where d:
    "bit_lib_add_parity data p dest dp (word_of_nat (k * (unat pl - 1))) pl parity = Some (d, k * unat pl)"
    "length d = length dest"
    "\<And>i m. i < k \<Longrightarrow> m < unat pl - 1 \<Longrightarrow>
       bit_lib_get_bit d (dp + i * unat pl + m) = bit_lib_get_bit data (p + i * (unat pl - 1) + m)"
    "\<And>i. i < k \<Longrightarrow>
       bit_lib_get_bit d (dp + i * unat pl + (unat pl - 1)) = block_parity data (p + i * (unat pl - 1)) (unat pl - 1) parity"
    "\<And>q. q < dp \<or> dp + k * unat pl \<le> q \<Longrightarrow> bit_lib_get_bit d q = bit_lib_get_bit dest q"
    by (rule add_parity_get [OF assms, of data p parity]) (rule that)
  have named: "i < k" if "unat n \<le> k * unat pl" "i < unat n div unat pl" for n :: u8 and i
    using that div_le_mono [OF that(1), of "unat pl"] pl(1) by simp
  have good: "bit_lib_test_parity d dp n (opposite parity) pl = Some True" if "unat n \<le> k * unat pl" for n
    unfolding test_parity_blocks [OF pl(2)]
    using test_written_block(1) [OF assms(1,2)] d(3,4) named [OF that] by simp
  have bad: "bit_lib_test_parity d dp n parity pl = Some (n < pl)"
    if n: "unat n \<le> k * unat pl" and par: "parity = BitLibParityEven \<or> parity = BitLibParityOdd" for n
  proof -
    have no: "\<not> test_parity_block d (dp + i * unat pl) parity (unat pl)" if "i < unat n div unat pl" for i
      using test_written_block(2) [OF assms(1,2) _ _ par, of d _ data] d(3,4) named [OF n that] by blast
    have "(\<forall>i<unat n div unat pl. test_parity_block d (dp + i * unat pl) parity (unat pl)) \<longleftrightarrow> unat n div unat pl = 0"
      using no by (metis gr_zeroI not_less0)
    moreover have "unat n div unat pl = 0 \<longleftrightarrow> n < pl"
      using pl(1) by (simp add: word_less_nat_alt div_eq_0_iff)
    ultimately have "(\<forall>i<unat n div unat pl. test_parity_block d (dp + i * unat pl) parity (unat pl)) \<longleftrightarrow> n < pl"
      by (rule trans)
    then show ?thesis by (simp add: test_parity_blocks [OF pl(2)])
  qed
  show ?thesis using d(1,2,3,5) good bad by blast
qed


theorem add_parity_then_test_witness:
  "2 \<le> unat (4 :: u8) \<and> unat (4 :: u8) \<le> 32 \<and> 2 * (unat (4 :: u8) - 1) < 256 \<and>
   0 + 2 * unat (4 :: u8) \<le> 8 * length [0 :: u8] \<and>
   (\<exists>d. bit_lib_add_parity [0xB4] 0 [0] 0 (word_of_nat (2 * (unat (4 :: u8) - 1))) 4 BitLibParityEven =
       Some (d, 2 * unat (4 :: u8)) \<and>
     bit_lib_test_parity d 0 8 BitLibParityOdd 4 = Some True \<and>
     bit_lib_test_parity d 0 8 BitLibParityEven 4 = Some False)"
proof -
  have w: "2 \<le> unat (4 :: u8)" "unat (4 :: u8) \<le> 32" "2 * (unat (4 :: u8) - 1) < 256"
    "0 + 2 * unat (4 :: u8) \<le> 8 * length [0 :: u8]" by simp_all
  have e: "opposite BitLibParityEven = BitLibParityOdd" "unat (8 :: u8) \<le> 2 * unat (4 :: u8)"
    "((8 :: u8) < 4) = False" by (simp_all add: opposite_def)
  obtain d where d:
    "bit_lib_add_parity [0xB4] 0 [0] 0 (word_of_nat (2 * (unat (4 :: u8) - 1))) 4 BitLibParityEven =
       Some (d, 2 * unat (4 :: u8))"
    "\<forall>n. unat n \<le> 2 * unat (4 :: u8) \<longrightarrow>
       bit_lib_test_parity d 0 n (opposite BitLibParityEven) 4 = Some True \<and>
       (BitLibParityEven = BitLibParityEven \<or> BitLibParityEven = BitLibParityOdd \<longrightarrow>
          bit_lib_test_parity d 0 n BitLibParityEven 4 = Some (n < 4))"
    using add_parity_then_test [OF w, of "[0xB4]" 0 BitLibParityEven] by blast
  have "bit_lib_test_parity d 0 8 BitLibParityOdd 4 = Some True" "bit_lib_test_parity d 0 8 BitLibParityEven 4 = Some False"
    using spec [OF d(2), of 8] e by simp_all
  with w d(1) show ?thesis by blast
qed

section \<open>Removing every n-th bit\<close>

text \<open>The position of the \<open>t\<close>-th bit that is kept.\<close>

definition kept :: "nat \<Rightarrow> nat \<Rightarrow> nat" where
  "kept n t = t + t div (n - 1)"

lemma kept_step:
  assumes "2 \<le> n" "Suc c mod n \<noteq> 0"
  shows "kept n (c - c div n) = c" "Suc c - Suc c div n = Suc (c - c div n)"
proof -
  define a r where "a = c div n" and "r = c mod n"
  have c: "c = n * a + r" "r < n" using assms(1) by (simp_all add: a_def r_def)
  have "Suc r \<noteq> n" using assms(2) by (auto simp: r_def mod_Suc)
  then have r: "r < n - 1" using c(2) by simp
  obtain m where m: "n = Suc m" "r < m" using r by (cases n) auto
  have "c - a = m * a + r" using c(1) m(1) by simp
  then have k: "c - c div n = m * a + r" by (simp only: a_def)
  show "kept n (c - c div n) = c"
    unfolding k kept_def using c m by simp
  show "Suc c - Suc c div n = Suc (c - c div n)"
    using assms by (simp add: div_Suc div_le_dividend Suc_diff_le)
qed

lemma dropped_step:
  assumes "2 \<le> n" "Suc c mod n = 0"
  shows "Suc c - Suc c div n = c - c div n"
  using assms by (simp add: div_Suc)

text \<open>
  The loop invariant after \<open>c\<close> bits: whole bytes of kept bits are in place, the rest of the array
  is as it was, and the pending kept bits are in the buffer.
\<close>

definition remove_inv :: "u8 list \<Rightarrow> nat \<Rightarrow> nat \<Rightarrow> nat \<Rightarrow> u8 list \<times> nat \<times> u8 \<times> nat \<Rightarrow> bool" where
  "remove_inv data p n c s =
     (case s of (d, rc, buf, bc) \<Rightarrow>
        length d = length data \<and> rc + bc = c - c div n \<and> bc < 8 \<and>
        (\<forall>t<rc. bit_lib_get_bit d (p + t) = bit_lib_get_bit data (p + kept n t)) \<and>
        (\<forall>q. q < p \<or> p + rc \<le> q \<longrightarrow> bit_lib_get_bit d q = bit_lib_get_bit data q) \<and>
        (\<forall>j<bc. bit buf j = bit_lib_get_bit data (p + kept n (rc + bc - 1 - j))))"

lemma shift_buffer:
  fixes buf :: u8
  assumes "bc < 8" "\<forall>j<bc. bit buf j = f (rc + bc - 1 - j)" "x = f (rc + bc)"
  shows "\<forall>j<Suc bc. bit (push_bit 1 buf OR of_bool x) j = f (rc + Suc bc - 1 - j)"
proof (intro allI impI)
  fix j assume "j < Suc bc"
  then show "bit (push_bit 1 buf OR of_bool x) j = f (rc + Suc bc - 1 - j)"
    unfolding bit_shift_in using assms by (cases j) auto
qed

lemma flush_buffer:
  assumes "length d = length data" "1 \<le> bc" "bc \<le> 8" "p + rc + bc \<le> 8 * length data"
    and old: "\<forall>t<rc. bit_lib_get_bit d (p + t) = bit_lib_get_bit data (p + kept n t)"
      "\<forall>q. q < p \<or> p + rc \<le> q \<longrightarrow> bit_lib_get_bit d q = bit_lib_get_bit data q"
    and buf: "\<forall>j<bc. bit buf j = bit_lib_get_bit data (p + kept n (rc + bc - 1 - j))"
  obtains d' where "bit_lib_set_bits d (p + rc) buf bc = Some d'" "length d' = length data"
    "\<forall>t<rc + bc. bit_lib_get_bit d' (p + t) = bit_lib_get_bit data (p + kept n t)"
    "\<forall>q. q < p \<or> p + (rc + bc) \<le> q \<longrightarrow> bit_lib_get_bit d' q = bit_lib_get_bit data q"
proof -
  obtain d' where d': "bit_lib_set_bits d (p + rc) buf bc = Some d'" "length d' = length d"
    "\<And>q. bit_lib_get_bit d' q =
       (if p + rc \<le> q \<and> q < p + rc + bc then bit buf (bc - 1 - (q - (p + rc))) else bit_lib_get_bit d q)"
    by (rule set_bits_window [of bc "p + rc" d buf]) (use assms in \<open>simp_all add: that\<close>)
  have A: "bit_lib_get_bit d' (p + t) = bit_lib_get_bit data (p + kept n t)" if "t < rc + bc" for t
  proof (cases "t < rc")
    case False
    then have "bc - 1 - (t - rc) < bc" "rc + bc - 1 - (bc - 1 - (t - rc)) = t" using that assms(2) by linarith+
    then have "bit buf (bc - 1 - (t - rc)) = bit_lib_get_bit data (p + kept n t)"
      using buf by metis
    with False that show ?thesis by (simp add: d'(3))
  qed (use old in \<open>simp add: d'(3)\<close>)
  have B: "bit_lib_get_bit d' q = bit_lib_get_bit data q" if "q < p \<or> p + (rc + bc) \<le> q" for q
    using that old(2) by (auto simp: d'(3))
  show thesis by (rule that [OF d'(1)]) (use A B d'(2) assms(1) in auto)
qed

lemma remove_step:
  assumes inv: "remove_inv data p n c s" and "2 \<le> n" "p + Suc c \<le> 8 * length data"
  obtains s' where "remove_bit_step p n c s = Some s'" "remove_inv data p n (Suc c) s'"
proof -
  obtain d rc buf bc where s: "s = (d, rc, buf, bc)" by (cases s)
  have I: "length d = length data" "rc + bc = c - c div n" "bc < 8"
    "\<forall>t<rc. bit_lib_get_bit d (p + t) = bit_lib_get_bit data (p + kept n t)"
    "\<forall>q. q < p \<or> p + rc \<le> q \<longrightarrow> bit_lib_get_bit d q = bit_lib_get_bit data q"
    "\<forall>j<bc. bit buf j = bit_lib_get_bit data (p + kept n (rc + bc - 1 - j))"
    using inv by (simp_all add: remove_inv_def s)
  show thesis
  proof (cases "Suc c mod n = 0")
    case True
    then show ?thesis
      using I dropped_step [OF assms(2) True]
      by (intro that [of s]) (use assms(2) in \<open>simp_all add: s remove_bit_step_def remove_inv_def\<close>)
  next
    case False
    note k = kept_step [OF assms(2) False]
    let ?buf = "push_bit 1 buf OR of_bool (bit_lib_get_bit d (p + c))"
    have read: "bit_lib_get_bit d (p + c) = bit_lib_get_bit data (p + kept n (rc + bc))"
      using I(2,5) k(1) by simp
    have buf: "\<forall>j<Suc bc. bit ?buf j = bit_lib_get_bit data (p + kept n (rc + Suc bc - 1 - j))"
      using shift_buffer [OF I(3), of buf "\<lambda>t. bit_lib_get_bit data (p + kept n t)" rc] I(6) read by simp
    have step: "remove_bit_step p n c s =
      (if Suc bc = 8 then map_option (\<lambda>d. (d, rc + 8, 0, 0)) (bit_lib_set_bits d (p + rc) ?buf 8)
       else Some (d, rc, ?buf, Suc bc))"
      using False assms(2) by (simp add: s remove_bit_step_def)
    show ?thesis
    proof (cases "Suc bc = 8")
      case T: True
      have "p + rc + Suc bc \<le> 8 * length data"
        using assms(3) I(2) by (simp add: le_diff_conv)
      then obtain d' where d': "bit_lib_set_bits d (p + rc) ?buf (Suc bc) = Some d'" "length d' = length data"
        "\<forall>t<rc + Suc bc. bit_lib_get_bit d' (p + t) = bit_lib_get_bit data (p + kept n t)"
        "\<forall>q. q < p \<or> p + (rc + Suc bc) \<le> q \<longrightarrow> bit_lib_get_bit d' q = bit_lib_get_bit data q"
        using flush_buffer [OF I(1) _ _ _ I(4,5) buf] T by auto
      then show ?thesis
        using T k(2) I(2) by (intro that [of "(d', rc + 8, 0, 0)"]) (simp_all add: step remove_inv_def)
    next
      case F: False
      then show ?thesis
        using I k(2) buf by (intro that [of "(d, rc, ?buf, Suc bc)"]) (simp_all add: step remove_inv_def)
    qed
  qed
qed


lemma remove_loop:
  assumes "2 \<le> n"
  shows "p + c \<le> 8 * length data \<Longrightarrow>
    \<exists>s. fold (\<lambda>counter s. Option.bind s (remove_bit_step p n counter)) [0..<c] (Some (data, 0, 0, 0)) = Some s \<and>
      remove_inv data p n c s"
proof (induction c)
  case 0
  then show ?case by (simp add: remove_inv_def)
next
  case (Suc c)
  then obtain s where s: "fold (\<lambda>counter s. Option.bind s (remove_bit_step p n counter)) [0..<c] (Some (data, 0, 0, 0)) = Some s"
    "remove_inv data p n c s" by auto
  obtain s' where "remove_bit_step p n c s = Some s'" "remove_inv data p n (Suc c) s'"
    using remove_step [OF s(2) assms Suc.prems] by blast
  with s(1) show ?case by simp
qed

lemma remove_bit_every_nth_get:
  assumes "2 \<le> unat w" "p + unat l \<le> 8 * length data" and "n = unat w" "len = unat l"
  obtains d where "bit_lib_remove_bit_every_nth data p l w = Some (d, len - len div n)" "length d = length data"
    "\<forall>t<len - len div n. bit_lib_get_bit d (p + t) = bit_lib_get_bit data (p + kept n t)"
    "\<forall>q. q < p \<or> p + (len - len div n) \<le> q \<longrightarrow> bit_lib_get_bit d q = bit_lib_get_bit data q"
proof -
  obtain d rc buf bc where
    s: "fold (\<lambda>counter s. Option.bind s (remove_bit_step p n counter)) [0..<len] (Some (data, 0, 0, 0)) = Some (d, rc, buf, bc)"
    and "remove_inv data p n len (d, rc, buf, bc)"
    using remove_loop [OF assms(1,2)] assms(3,4) by (metis prod_cases4)
  then have I: "length d = length data" "rc + bc = len - len div n" "bc < 8"
    "\<forall>t<rc. bit_lib_get_bit d (p + t) = bit_lib_get_bit data (p + kept n t)"
    "\<forall>q. q < p \<or> p + rc \<le> q \<longrightarrow> bit_lib_get_bit d q = bit_lib_get_bit data q"
    "\<forall>j<bc. bit buf j = bit_lib_get_bit data (p + kept n (rc + bc - 1 - j))"
    by (simp_all add: remove_inv_def)
  show thesis
  proof (cases "bc = 0")
    case True
    then show ?thesis
      using I s that [of d] by (simp add: bit_lib_remove_bit_every_nth_def assms(3,4))
  next
    case False
    have fits: "p + rc + bc \<le> 8 * length data" "1 \<le> bc" "bc \<le> 8"
      using assms(2,4) I(2,3) False by linarith+
    obtain d' where d': "bit_lib_set_bits d (p + rc) buf bc = Some d'" "length d' = length data"
      "\<forall>t<rc + bc. bit_lib_get_bit d' (p + t) = bit_lib_get_bit data (p + kept n t)"
      "\<forall>q. q < p \<or> p + (rc + bc) \<le> q \<longrightarrow> bit_lib_get_bit d' q = bit_lib_get_bit data q"
      by (rule flush_buffer [OF I(1) fits(2,3,1) I(4,5,6)])
    show ?thesis
      by (rule that [of d']) (use d' I(2) False s in \<open>simp_all add: bit_lib_remove_bit_every_nth_def assms(3,4)\<close>)
  qed
qed

lemma kept_block:
  assumes "2 \<le> pl" "m < pl - 1"
  shows "kept pl (i * (pl - 1) + m) = i * pl + m"
proof -
  obtain r where r: "pl = Suc r" "m < r" using assms by (cases pl) auto
  then show ?thesis by (simp add: kept_def)
qed

text \<open>
  C28 Removing the parity bits undoes adding them: after \<open>k\<close> blocks with parity were written into
  a bit array, and while the number of bits written fits the 8-bit length argument of the
  removal, removing every \<open>pl\<close>-th bit in place leaves exactly the \<open>k * (pl - 1)\<close> original data
  bits, contiguous, and reports that number.
\<close>

theorem remove_parity_restores:
  fixes pl :: u8
  assumes "2 \<le> unat pl" "unat pl \<le> 32" "k * unat pl < 256" "dp + k * unat pl \<le> 8 * length dest"
  shows "\<exists>d e. bit_lib_add_parity data p dest dp (word_of_nat (k * (unat pl - 1))) pl parity = Some (d, k * unat pl) \<and>
    bit_lib_remove_bit_every_nth d dp (word_of_nat (k * unat pl)) pl = Some (e, k * (unat pl - 1)) \<and>
    (\<forall>t < k * (unat pl - 1). bit_lib_get_bit e (dp + t) = bit_lib_get_bit data (p + t))"
proof -
  let ?pl = "unat pl"
  have few: "k * (?pl - 1) < 256"
    using assms(3) by (rule le_less_trans [OF mult_le_mono2, rotated]) simp
  obtain d where d: "bit_lib_add_parity data p dest dp (word_of_nat (k * (?pl - 1))) pl parity = Some (d, k * ?pl)"
    "length d = length dest"
    "\<And>i m. i < k \<Longrightarrow> m < ?pl - 1 \<Longrightarrow> bit_lib_get_bit d (dp + i * ?pl + m) = bit_lib_get_bit data (p + i * (?pl - 1) + m)"
    by (rule add_parity_get [OF assms(1,2) few assms(4), of data p parity]) (rule that)
  have count: "k * ?pl - k * ?pl div ?pl = k * (?pl - 1)"
    using assms(1) by (simp add: diff_mult_distrib2)
  have len: "k * ?pl = unat (word_of_nat (k * ?pl) :: u8)" by (rule unat_u8 [OF assms(3), symmetric])
  have fits: "dp + unat (word_of_nat (k * ?pl) :: u8) \<le> 8 * length d" using assms(4) d(2) len by simp
  obtain e where e: "bit_lib_remove_bit_every_nth d dp (word_of_nat (k * ?pl)) pl = Some (e, k * (?pl - 1))"
    "\<forall>t < k * (?pl - 1). bit_lib_get_bit e (dp + t) = bit_lib_get_bit d (dp + kept ?pl t)"
    using remove_bit_every_nth_get [OF assms(1) fits refl len] count by metis
  have "bit_lib_get_bit e (dp + t) = bit_lib_get_bit data (p + t)" if t: "t < k * (?pl - 1)" for t
  proof -
    define i m where "i = t div (?pl - 1)" and "m = t mod (?pl - 1)"
    have im: "t = i * (?pl - 1) + m" "m < ?pl - 1" "i < k"
      using t assms(1) by (simp only: i_def m_def div_mult_mod_eq, simp_all add: i_def m_def less_mult_imp_div_less)
    then show ?thesis
      using e(2) t d(3) [OF im(3,2)] kept_block [OF assms(1) im(2), of i] by (metis add.assoc)
  qed
  with d(1) e(1) show ?thesis by blast
qed


theorem remove_parity_restores_witness:
  "2 \<le> unat (4 :: u8) \<and> unat (4 :: u8) \<le> 32 \<and> 2 * unat (4 :: u8) < 256 \<and>
   0 + 2 * unat (4 :: u8) \<le> 8 * length [0 :: u8] \<and>
   (\<exists>d e. bit_lib_add_parity [0xB4] 0 [0] 0 (word_of_nat (2 * (unat (4 :: u8) - 1))) 4 BitLibParityOdd =
       Some (d, 2 * unat (4 :: u8)) \<and>
     bit_lib_remove_bit_every_nth d 0 (word_of_nat (2 * unat (4 :: u8))) 4 = Some (e, 2 * (unat (4 :: u8) - 1)) \<and>
     (\<forall>t < 2 * (unat (4 :: u8) - 1). bit_lib_get_bit e (0 + t) = bit_lib_get_bit [0xB4] (0 + t)))"
proof -
  have w: "2 \<le> unat (4 :: u8)" "unat (4 :: u8) \<le> 32" "2 * unat (4 :: u8) < 256"
    "0 + 2 * unat (4 :: u8) \<le> 8 * length [0 :: u8]" by simp_all
  show ?thesis
    using w remove_parity_restores [OF w, of "[0xB4]" 0 BitLibParityOdd] by (intro conjI)
qed


section \<open>The CRC routines against the registers of the sub-GHz library\<close>

text \<open>Mirroring a register turns the MSB-first step into the LSB-first step.\<close>

lemma crc_mirror:
  fixes R :: "'a::len word \<Rightarrow> 'a word"
  assumes R: "\<And>w j. j < LENGTH('a) \<Longrightarrow> bit (R w) j = bit w (LENGTH('a) - 1 - j)"
    and hi: "Suc hi = LENGTH('a)"
  shows "R (crc_shl hi p r) = crc_shr (R p) (R r)"
proof (rule bit_word_eqI)
  fix j assume j: "j < LENGTH('a)"
  have top: "bit (R r) 0 = bit r hi" using R [of 0 r] by (simp add: hi [symmetric])
  have e: "bit (R r) (Suc j) \<longleftrightarrow> Suc j < LENGTH('a) \<and> bit r (LENGTH('a) - 1 - Suc j)"
    using R [of "Suc j" r] by (cases "Suc j < LENGTH('a)") simp_all
  have "LENGTH('a) - 1 - j = Suc (LENGTH('a) - 1 - Suc j)" if "Suc j < LENGTH('a)" using that by simp
  then show "bit (R (crc_shl hi p r)) j = bit (crc_shr (R p) (R r)) j"
    using j top e R [OF j] by (cases "Suc j < LENGTH('a)") (auto simp: crc_shl_def crc_shr_def bit_iffs)
qed

lemma crc_mirror_pow:
  fixes R :: "'a::len word \<Rightarrow> 'a word"
  assumes "\<And>w j. j < LENGTH('a) \<Longrightarrow> bit (R w) j = bit w (LENGTH('a) - 1 - j)" and "Suc hi = LENGTH('a)"
  shows "R ((crc_shl hi p ^^ n) r) = (crc_shr (R p) ^^ n) (R r)"
  by (induction n) (simp_all add: crc_mirror [OF assms])

lemma fold_mirror:
  assumes "\<And>m x. R (f m x) = g m (R x)"
  shows "R (fold f ms x) = fold g ms (R x)"
  by (induction ms arbitrary: x) (simp_all add: assms)

lemma reverse_8_xor: "bit_lib_reverse_8_fast (a XOR b) = bit_lib_reverse_8_fast a XOR bit_lib_reverse_8_fast b"
  by (rule bit_word_eqI) (simp add: bit_reverse_8_fast bit_xor_iff)

lemma reverse_8_reverse_8 [simp]: "bit_lib_reverse_8_fast (bit_lib_reverse_8_fast b) = b"
  by (rule bit_word_eqI) (simp add: bit_reverse_8_fast)

lemma reverse_16_xor: "bit_lib_reverse_16_fast (a XOR b) = bit_lib_reverse_16_fast a XOR bit_lib_reverse_16_fast b"
  by (rule bit_word_eqI) (simp add: bit_reverse_16_fast bit_xor_iff)

lemma reverse_16_reverse_16 [simp]: "bit_lib_reverse_16_fast (bit_lib_reverse_16_fast b) = b"
  by (rule bit_word_eqI) (simp add: bit_reverse_16_fast)

lemma reverse_key_8: "ucast (subghz_protocol_blocks_reverse_key (ucast b) 8) = bit_lib_reverse_8_fast b"
  by (rule bit_word_eqI) (auto simp: bit_reverse_8_fast bit_iffs bit_reverse_key)

lemma crc16_bit_alt:
  "crc16_bit p byte j crc = (if bit crc 15 \<noteq> bit byte (7 - j) then push_bit 1 crc XOR p else push_bit 1 crc)"
  by (simp add: crc16_bit_def Let_def bit_read_eq_0 [unfolded bit_read_def])

lemma crc16_bits:
  "n \<le> 8 \<Longrightarrow> (crc_shl 15 p ^^ n) (crc XOR push_bit 8 (ucast byte)) =
     fold (crc16_bit p byte) [0..<n] crc XOR push_bit (8 + n) (ucast byte)"
proof (induction n)
  case (Suc n)
  let ?A = "fold (crc16_bit p byte) [0..<n] crc"
  have top: "bit (?A XOR push_bit (8 + n) (ucast byte)) 15 \<longleftrightarrow> bit ?A 15 \<noteq> bit byte (7 - n)"
    using Suc.prems by (simp add: bit_iffs less_imp_diff_less)
  have "push_bit 1 (?A XOR push_bit (8 + n) (ucast byte)) = push_bit 1 ?A XOR push_bit (8 + Suc n) (ucast byte)"
    by (simp add: push_bit_xor)
  then have "crc_shl 15 p (?A XOR push_bit (8 + n) (ucast byte)) = crc16_bit p byte n ?A XOR push_bit (8 + Suc n) (ucast byte)"
    unfolding crc_shl_def top
    by (simp add: crc16_bit_alt ac_simps)
  then show ?case
    using Suc by simp
qed simp

lemma crc16_byte_bits: "fold (crc16_bit p byte) [0..<8] crc = crc16_byte p byte crc"
proof -
  have "push_bit (8 + 8) (ucast byte :: u16) = 0"
    by (rule bit_word_eqI) (simp add: bit_iffs)
  then show ?thesis
    using crc16_bits [of 8 p crc byte] by (simp add: crc16_byte_def)
qed

lemma reverse_16_byte: "ucast (drop_bit 8 (bit_lib_reverse_16_fast (ucast b))) = bit_lib_reverse_8_fast b"
  by (rule bit_word_eqI) (simp add: bit_reverse_8_fast bit_iffs bit_reverse_16_fast less_imp_diff_less)

lemma crc16_byte_mirror:
  "bit_lib_reverse_16_fast (crc16_byte p (bit_lib_reverse_8_fast m) r) =
     crc16lsb_byte (bit_lib_reverse_16_fast p) m (bit_lib_reverse_16_fast r)"
proof -
  have "bit_lib_reverse_16_fast (push_bit 8 (ucast (bit_lib_reverse_8_fast m))) = ucast m"
  proof (rule bit_word_eqI)
    fix n assume n: "n < LENGTH(16)"
    then show "bit (bit_lib_reverse_16_fast (push_bit 8 (ucast (bit_lib_reverse_8_fast m)))) n = bit (ucast m :: u16) n"
      by (cases "n < 8") (auto simp: bit_reverse_8_fast bit_iffs bit_reverse_16_fast less_imp_diff_less)
  qed
  then show ?thesis
    unfolding crc16_byte_def crc16lsb_byte_def
    by (subst crc_mirror_pow [of bit_lib_reverse_16_fast]) (simp_all add: bit_reverse_16_fast reverse_16_xor)
qed

lemma crc8_byte_mirror:
  "bit_lib_reverse_8_fast (crc8_byte p (bit_lib_reverse_8_fast m) r) =
     crc8le_byte (bit_lib_reverse_8_fast p) m (bit_lib_reverse_8_fast r)"
  unfolding crc8_byte_def crc8le_byte_def
  by (subst crc_mirror_pow [of bit_lib_reverse_8_fast]) (simp_all add: bit_reverse_8_fast reverse_8_xor)

text \<open>
  The generic CRC-8 and CRC-16 routines of the bit library agree with the dedicated ones of
  the sub-GHz library: without reflection with the MSB-first registers, with both
  reflections with the LSB-first registers (with the mirrored polynomial and initial value),
  and \<open>xor_out\<close> is applied to the result.
\<close>

theorem bit_lib_crc_agree:
  "bit_lib_crc8 data poly init False False x = ucast (subghz_protocol_blocks_crc8 data poly init XOR x) \<and>
   bit_lib_crc8 data poly init True True x = ucast (subghz_protocol_blocks_crc8le data poly init XOR x) \<and>
   bit_lib_crc16 data poly16 init16 False False x16 = subghz_protocol_blocks_crc16 data poly16 init16 XOR x16 \<and>
   bit_lib_crc16 data poly16 init16 True True x16 =
     subghz_protocol_blocks_crc16lsb data (bit_lib_reverse_16_fast poly16) (bit_lib_reverse_16_fast init16) XOR x16"
proof (intro conjI)
  show "bit_lib_crc8 data poly init False False x = ucast (subghz_protocol_blocks_crc8 data poly init XOR x)"
    by (simp add: bit_lib_crc8_def subghz_protocol_blocks_crc8_def crc8_byte_def [abs_def])
  show "bit_lib_crc8 data poly init True True x = ucast (subghz_protocol_blocks_crc8le data poly init XOR x)"
    unfolding bit_lib_crc8_def subghz_protocol_blocks_crc8le_def Let_def if_True reverse_byte reverse_key_8
      crc8_byte_def [symmetric]
    by (subst fold_mirror [of bit_lib_reverse_8_fast]) (rule crc8_byte_mirror, rule refl)
  show "bit_lib_crc16 data poly16 init16 False False x16 = subghz_protocol_blocks_crc16 data poly16 init16 XOR x16"
    by (simp add: bit_lib_crc16_def subghz_protocol_blocks_crc16_def crc16_byte_bits)
  show "bit_lib_crc16 data poly16 init16 True True x16 =
     subghz_protocol_blocks_crc16lsb data (bit_lib_reverse_16_fast poly16) (bit_lib_reverse_16_fast init16) XOR x16"
    unfolding bit_lib_crc16_def subghz_protocol_blocks_crc16lsb_def Let_def if_True reverse_16_byte crc16_byte_bits
    by (subst fold_mirror [of bit_lib_reverse_16_fast]) (rule crc16_byte_mirror, rule refl)
qed

section \<open>Numbers and bytes\<close>

lemma num_to_bytes_be_loop:
  "n \<le> length dest \<Longrightarrow>
   (let d = snd (fold (\<lambda>k (src, dest). (drop_bit 8 src, dest[k := ucast src])) (rev [0..<n]) (src :: u64, dest :: u8 list))
    in length d = length dest \<and> (\<forall>i < length dest. d ! i = (if i < n then ucast (drop_bit (8 * (n - 1 - i)) src) else dest ! i)))"
proof (induction n arbitrary: src dest)
  case (Suc n)
  have "8 * (n - Suc i) + 8 = 8 * (n - i)" if "i < n" for i
    using that by simp
  then show ?case
    using Suc.IH [of "dest[n := ucast src]" "drop_bit 8 src"] Suc.prems
    by (auto simp: Let_def nth_list_update less_Suc_eq)
qed (simp add: Let_def)

lemma num_to_bytes_le_loop:
  "n \<le> length dest \<Longrightarrow>
   (let d = fold (\<lambda>i dest. dest[i := ucast (drop_bit (8 * i) src)]) [0..<n] (dest :: u8 list)
    in length d = length dest \<and> (\<forall>i < length dest. d ! i = (if i < n then ucast (drop_bit (8 * i) (src :: u64)) else dest ! i)))"
  by (induction n) (auto simp: Let_def nth_list_update less_Suc_eq)

lemma bit_bytes_to_num_be_loop:
  "bit (fold (\<lambda>i res. push_bit 8 res OR ucast (src ! i)) [0..<n] (0 :: u64)) j \<longleftrightarrow>
     j < 8 * n \<and> j < 64 \<and> bit (src ! (n - 1 - j div 8) :: u8) (j mod 8)"
proof (induction n arbitrary: j)
  case (Suc n)
  have step: "bit (fold (\<lambda>i res. push_bit 8 res OR ucast (src ! i)) [0..<Suc n] (0 :: u64)) j \<longleftrightarrow>
    8 \<le> j \<and> j < 64 \<and> bit (fold (\<lambda>i res. push_bit 8 res OR ucast (src ! i)) [0..<n] (0 :: u64)) (j - 8) \<or>
    bit (src ! n) j"
    by (auto simp: bit_iffs intro: less_trans dest: bit_imp_le_length)
  show ?case
  proof (cases "j < 8")
    case False
    then have e: "(j - 8) mod 8 = j mod 8" "n - 1 - (j - 8) div 8 = Suc n - 1 - j div 8"
      by (simp_all add: le_mod_geq le_div_geq [of 8 j])
    have "\<not> bit (src ! n) j" using False by simp
    with False show ?thesis
      unfolding step Suc.IH e by auto
  qed (use step in simp)
qed simp

lemma bit_bytes_to_num_le_loop:
  "n \<le> 8 \<Longrightarrow> bit (fold (\<lambda>i res. res OR push_bit (8 * i) (ucast (src ! i))) [0..<n] (0 :: u64)) j \<longleftrightarrow>
     j < 8 * n \<and> bit (src ! (j div 8) :: u8) (j mod 8)"
proof (induction n)
  case (Suc n)
  consider "j < 8 * n" | "8 * n \<le> j" "j < 8 * Suc n" | "8 * Suc n \<le> j" by linarith
  then show ?case
  proof cases
    case 2
    then have "j div 8 = n" "j mod 8 = j - 8 * n"
      by (auto simp: div_nat_eqI minus_mult_div_eq_mod [symmetric, of j 8])
    with 2 Suc show ?thesis by (auto simp: bit_iffs)
  qed (use Suc in \<open>auto simp: bit_iffs\<close>)
qed simp

lemma byte_position: "8 * (j div 8) + j mod 8 = (j :: nat)" "j div 8 < n \<longleftrightarrow> j < 8 * n"
  by (simp_all add: div_less_iff_less_mult mult.commute)

lemma bytes_to_num_be_of_bytes:
  assumes "n \<le> 8" "\<And>i. i < n \<Longrightarrow> d ! i = ucast (drop_bit (8 * (n - 1 - i)) src)"
  shows "bit_lib_bytes_to_num_be d n = Some (take_bit (8 * n) src)"
proof -
  have "fold (\<lambda>i res. push_bit 8 res OR ucast (d ! i)) [0..<n] 0 = take_bit (8 * n) src"
  proof (rule bit_word_eqI)
    fix j assume j: "j < LENGTH(64)"
    show "bit (fold (\<lambda>i res. push_bit 8 res OR ucast (d ! i)) [0..<n] (0 :: u64)) j = bit (take_bit (8 * n) src) j"
    proof (cases "j < 8 * n")
      case True
      then have "d ! (n - 1 - j div 8) = ucast (drop_bit (8 * (j div 8)) src)"
        using assms(2) [of "n - 1 - j div 8"] byte_position(2) [of j n] by simp
      with True j show ?thesis
        unfolding bit_bytes_to_num_be_loop by (simp add: bit_iffs byte_position(1))
    qed (simp only: bit_bytes_to_num_be_loop bit_take_bit_iff simp_thms)
  qed
  then show ?thesis using assms(1) by (simp add: bit_lib_bytes_to_num_be_def)
qed

lemma bytes_to_num_le_of_bytes:
  assumes "n \<le> 8" "\<And>i. i < n \<Longrightarrow> d ! i = ucast (drop_bit (8 * i) src)"
  shows "bit_lib_bytes_to_num_le d n = Some (take_bit (8 * n) src)"
proof -
  have "fold (\<lambda>i res. res OR push_bit (8 * i) (ucast (d ! i))) [0..<n] 0 = take_bit (8 * n) src"
  proof (rule bit_word_eqI)
    fix j assume j: "j < LENGTH(64)"
    show "bit (fold (\<lambda>i res. res OR push_bit (8 * i) (ucast (d ! i))) [0..<n] (0 :: u64)) j = bit (take_bit (8 * n) src) j"
      using assms(2) [of "j div 8"] unfolding bit_bytes_to_num_le_loop [OF assms(1)]
      by (auto simp: bit_iffs byte_position)
  qed
  then show ?thesis using assms(1) by (simp add: bit_lib_bytes_to_num_le_def)
qed

text \<open>
  Numbers survive the conversion to bytes and back, in both byte orders: the \<open>n\<close> low
  bytes are written, nothing else of the destination is touched, the two orders are
  mirror images, and reading back gives the number modulo \<open>2 ^ (8 * n)\<close>.
\<close>

theorem num_bytes_roundtrip:
  assumes "n \<le> 8" "n \<le> length dest"
  shows "\<exists>b l. bit_lib_num_to_bytes_be src n dest = Some b \<and> bit_lib_num_to_bytes_le src n dest = Some l \<and>
    take n b = rev (take n l) \<and> drop n b = drop n dest \<and> drop n l = drop n dest \<and>
    bit_lib_bytes_to_num_be b n = Some (take_bit (8 * n) src) \<and>
    bit_lib_bytes_to_num_le l n = Some (take_bit (8 * n) src)"
proof -
  let ?b = "snd (fold (\<lambda>k (src, dest). (drop_bit 8 src, dest[k := ucast src])) (rev [0..<n]) (src, dest))"
  let ?l = "fold (\<lambda>i dest. dest[i := ucast (drop_bit (8 * i) src)]) [0..<n] dest"
  have len: "length ?b = length dest" "length ?l = length dest"
    using num_to_bytes_be_loop [OF assms(2), of src] num_to_bytes_le_loop [OF assms(2), of src]
    by (simp_all only: Let_def)
  have b: "?b ! i = (if i < n then ucast (drop_bit (8 * (n - 1 - i)) src) else dest ! i)"
    and l: "?l ! i = (if i < n then ucast (drop_bit (8 * i) src) else dest ! i)" if "i < length dest" for i
    using num_to_bytes_be_loop [OF assms(2), of src] num_to_bytes_le_loop [OF assms(2), of src] that
    by (simp_all only: Let_def)
  have "bit_lib_num_to_bytes_be src n dest = Some ?b" "bit_lib_num_to_bytes_le src n dest = Some ?l"
    using assms(1) by (simp_all add: bit_lib_num_to_bytes_be_def bit_lib_num_to_bytes_le_def)
  moreover have "take n ?b = rev (take n ?l)"
    using assms(2) by (intro nth_equalityI) (simp_all add: len b l rev_nth)
  moreover have "drop n ?b = drop n dest" "drop n ?l = drop n dest"
    using assms(2) by (auto intro!: nth_equalityI simp: len b l)
  moreover have "bit_lib_bytes_to_num_be ?b n = Some (take_bit (8 * n) src)"
    using assms b by (intro bytes_to_num_be_of_bytes) simp_all
  moreover have "bit_lib_bytes_to_num_le ?l n = Some (take_bit (8 * n) src)"
    using assms l by (intro bytes_to_num_le_of_bytes) simp_all
  ultimately show ?thesis by blast
qed

theorem num_bytes_roundtrip_witness:
  "(3 :: nat) \<le> 8 \<and> 3 \<le> length [0xAA, 0xAA, 0xAA, 0xAA :: u8] \<and>
   bit_lib_num_to_bytes_be 0x12345678 3 [0xAA, 0xAA, 0xAA, 0xAA] = Some [0x34, 0x56, 0x78, 0xAA] \<and>
   bit_lib_bytes_to_num_be [0x34, 0x56, 0x78, 0xAA] 3 = Some (take_bit 24 0x12345678)"
proof -
  have be: "bit_lib_num_to_bytes_be 0x12345678 3 [0xAA, 0xAA, 0xAA, 0xAA] = Some [0x34, 0x56, 0x78, 0xAA]"
    by (simp add: bit_lib_num_to_bytes_be_def upt_rec)
  show ?thesis
    using num_bytes_roundtrip [of 3 "[0xAA, 0xAA, 0xAA, 0xAA]" "0x12345678"] be by (auto simp del: One_nat_def)
qed

section \<open>Binary-coded decimal\<close>

definition bcd_value :: "u8 list \<Rightarrow> nat" where
  "bcd_value bs = foldl (\<lambda>v b. 100 * v + 10 * (unat b div 16) + unat b mod 16) 0 bs"

lemma bcd_value_snoc: "bcd_value (bs @ [b]) = 100 * bcd_value bs + 10 * (unat b div 16) + unat b mod 16"
  by (simp add: bcd_value_def)

lemma bcd_value_bound: "9 * bcd_value bs \<le> 15 * (100 ^ length bs - 1)"
proof (induction bs rule: rev_induct)
  case (snoc b bs)
  have "unat b div 16 \<le> 15"
    using unsigned_less [of b, where 'a = nat] by simp
  moreover have "unat b mod 16 \<le> 15"
    using mod_less_divisor [of 16 "unat b"] by linarith
  moreover obtain P where "(100 :: nat) ^ length bs = Suc P"
    by (metis gr0_implies_Suc zero_less_numeral zero_less_power)
  ultimately show ?case
    using snoc unfolding bcd_value_snoc length_append by simp
qed (simp add: bcd_value_def)

lemma nibbles:
  "unat (ucast (b div 16 :: u8) :: u64) = unat b div 16" "unat (ucast (b mod 16 :: u8) :: u64) = unat b mod 16"
  "9 < b div 16 \<longleftrightarrow> 9 < unat b div 16" "9 < b mod 16 \<longleftrightarrow> 9 < unat b mod 16"
proof -
  have "unat b div 16 < 2 ^ 64" "unat b mod 16 < 2 ^ 64"
    by (rule le_less_trans [OF div_le_dividend], use unsigned_less [of b, where 'a = nat] in simp)
      (rule less_trans [OF mod_less_divisor], simp_all)
  then show "unat (ucast (b div 16 :: u8) :: u64) = unat b div 16" "unat (ucast (b mod 16 :: u8) :: u64) = unat b mod 16"
    by (simp_all add: unsigned_ucast_eq unat_div_distrib unat_mod_distrib take_bit_nat_eq_self)
qed (simp_all add: unat_div_distrib unat_mod_distrib word_less_nat_alt)

lemma bcd_loop:
  "n \<le> 9 \<Longrightarrow> n \<le> length src \<Longrightarrow>
   unat (fst (fold (\<lambda>i. bcd_step (src ! i)) [0..<n] (0, True))) = bcd_value (take n src) \<and>
   (snd (fold (\<lambda>i. bcd_step (src ! i)) [0..<n] (0, True)) \<longleftrightarrow>
      (\<forall>b \<in> set (take n src). unat b div 16 \<le> 9 \<and> unat b mod 16 \<le> 9))"
proof (induction n)
  case (Suc n)
  let ?r = "fst (fold (\<lambda>i. bcd_step (src ! i)) [0..<n] (0, True))" and ?b = "src ! n"
  have r: "unat ?r = bcd_value (take n src)" using Suc by simp
  have take: "take (Suc n) src = take n src @ [?b]"
    using Suc.prems by (simp add: take_Suc_conv_app_nth)
  have "9 * bcd_value (take (Suc n) src) \<le> 15 * (100 ^ Suc n - 1)"
    using bcd_value_bound [of "take (Suc n) src"] Suc.prems by simp
  moreover have "(100 :: nat) ^ Suc n \<le> 100 ^ 9"
    using Suc.prems by (intro power_increasing) simp_all
  ultimately have "bcd_value (take (Suc n) src) < 2 ^ 64"
    by simp
  then have small: "100 * unat ?r + 10 * (unat ?b div 16) + unat ?b mod 16 < 2 ^ 64"
    by (simp add: take bcd_value_snoc r)
  have v: "unat ((?r * 10 + ucast (?b div 16)) * 10 + ucast (?b mod 16)) =
      100 * unat ?r + 10 * (unat ?b div 16) + unat ?b mod 16"
    using small by (simp add: unat_word_ariths nibbles mod_simps distrib_right)
  have step: "fold (\<lambda>i. bcd_step (src ! i)) [0..<Suc n] (0, True) =
      bcd_step ?b (fold (\<lambda>i. bcd_step (src ! i)) [0..<n] (0, True))"
    by simp
  show ?case
    unfolding step take bcd_value_snoc bcd_step_def [of ?b] Let_def fst_conv snd_conv v
    using Suc r by (auto simp: nibbles)
qed (simp add: bcd_value_def)

text \<open>
  Reading a binary-coded decimal of at most nine bytes gives the decimal number its digits
  spell (the 64-bit accumulator never overflows, not even on bytes that are no digits),
  and the flag is set exactly when every nibble is a digit.
\<close>

theorem bytes_to_num_bcd_value:
  assumes "n \<le> 9" "n \<le> length src"
  shows "\<exists>v ok. bit_lib_bytes_to_num_bcd src n = Some (v, ok) \<and> unat v = bcd_value (take n src) \<and>
    (ok \<longleftrightarrow> (\<forall>b \<in> set (take n src). unat b div 16 \<le> 9 \<and> unat b mod 16 \<le> 9))"
  using bcd_loop [OF assms] assms(1)
  by (cases "fold (\<lambda>i. bcd_step (src ! i)) [0..<n] (0, True)") (simp add: bit_lib_bytes_to_num_bcd_def)

theorem bytes_to_num_bcd_value_witness:
  "(2 :: nat) \<le> 9 \<and> 2 \<le> length [0x12, 0x3A :: u8] \<and>
   (\<exists>v. bit_lib_bytes_to_num_bcd [0x12, 0x3A] 2 = Some (v, False) \<and> unat v = 1240)"
  using bytes_to_num_bcd_value [of 2 "[0x12, 0x3A]"] by (auto simp: bcd_value_def)

end
