(* ===== verification/Checked_Memory.thy ===== *)
theory Checked_Memory
  imports Firmware_Prelude
begin

text \<open>
  Code that checks its arguments and works on allocated memory. A failing \<open>furi_check\<close> halts
  the device in a controlled way; an access outside an allocated block is undefined in C. The two
  are different values here, so that memory safety is a theorem and not an assumption.
\<close>

datatype fault = Furi_Check | Out_Of_Bounds

type_synonym 'a checked = "fault + 'a"

definition checked_bind :: "'a checked \<Rightarrow> ('a \<Rightarrow> 'b checked) \<Rightarrow> 'b checked" where
  "checked_bind m f = (case m of Inl e \<Rightarrow> Inl e | Inr x \<Rightarrow> f x)"

definition furi_check :: "bool \<Rightarrow> 'a checked \<Rightarrow> 'a checked" where
  "furi_check b m = (if b then m else Inl Furi_Check)"

definition mem_read :: "'a list \<Rightarrow> nat \<Rightarrow> 'a checked" where
  "mem_read xs i = (if i < length xs then Inr (xs ! i) else Inl Out_Of_Bounds)"

definition mem_write :: "'a list \<Rightarrow> nat \<Rightarrow> 'a \<Rightarrow> 'a list checked" where
  "mem_write xs i x = (if i < length xs then Inr (xs[i := x]) else Inl Out_Of_Bounds)"

text \<open>\<open>memcpy(dest + i, src + j, n)\<close> and \<open>memset(dest, x, n)\<close>\<close>

definition mem_copy :: "'a list \<Rightarrow> nat \<Rightarrow> 'a list \<Rightarrow> nat \<Rightarrow> nat \<Rightarrow> 'a list checked" where
  "mem_copy dest i src j n =
     (if i + n \<le> length dest \<and> j + n \<le> length src
      then Inr (take i dest @ take n (drop j src) @ drop (i + n) dest) else Inl Out_Of_Bounds)"

definition mem_set :: "'a list \<Rightarrow> 'a \<Rightarrow> nat \<Rightarrow> 'a list checked" where
  "mem_set dest x n = (if n \<le> length dest then Inr (replicate n x @ drop n dest) else Inl Out_Of_Bounds)"

lemma checked_bind_simps [simp]:
  "checked_bind (Inl e) f = Inl e" "checked_bind (Inr x) f = f x"
  by (simp_all add: checked_bind_def)

lemma furi_check_simps [simp]: "furi_check True m = m" "furi_check False m = Inl Furi_Check"
  by (simp_all add: furi_check_def)

lemma checked_bind_Inr: "checked_bind m f = Inr y \<longleftrightarrow> (\<exists>x. m = Inr x \<and> f x = Inr y)"
  by (cases m) auto

lemma furi_check_Inr: "furi_check b m = Inr y \<longleftrightarrow> b \<and> m = Inr y"
  by (cases b) auto

lemma mem_write_Inr: "mem_write xs i x = Inr ys \<longleftrightarrow> i < length xs \<and> ys = xs[i := x]"
  by (auto simp: mem_write_def)

lemma mem_read_Inr: "mem_read xs i = Inr x \<longleftrightarrow> i < length xs \<and> x = xs ! i"
  by (auto simp: mem_read_def)

lemma mem_copy_Inr:
  "mem_copy dest i src j n = Inr ys \<longleftrightarrow>
     i + n \<le> length dest \<and> j + n \<le> length src \<and> ys = take i dest @ take n (drop j src) @ drop (i + n) dest"
  by (auto simp: mem_copy_def)

lemma mem_set_Inr: "mem_set dest x n = Inr ys \<longleftrightarrow> n \<le> length dest \<and> ys = replicate n x @ drop n dest"
  by (auto simp: mem_set_def)

lemmas checked_Inr = checked_bind_Inr furi_check_Inr mem_write_Inr mem_read_Inr mem_copy_Inr mem_set_Inr

text \<open>A computation is memory safe if it does not leave its blocks.\<close>

definition safe :: "'a checked \<Rightarrow> bool" where
  "safe m \<longleftrightarrow> m \<noteq> Inl Out_Of_Bounds"

lemma safe_Inr [simp]: "safe (Inr x)"
  by (simp add: safe_def)

lemma safe_furi_check [simp]: "safe (furi_check b m) \<longleftrightarrow> (b \<longrightarrow> safe m)"
  by (auto simp: furi_check_def safe_def)

lemma safe_bind: "safe (checked_bind m f) \<longleftrightarrow> safe m \<and> (\<forall>x. m = Inr x \<longrightarrow> safe (f x))"
  by (cases m) (auto simp: safe_def)

lemma safe_mem [simp]:
  "safe (mem_read xs i) \<longleftrightarrow> i < length xs" "safe (mem_write xs i x) \<longleftrightarrow> i < length xs"
  "safe (mem_copy dest i src j n) \<longleftrightarrow> i + n \<le> length dest \<and> j + n \<le> length src"
  "safe (mem_set dest x n) \<longleftrightarrow> n \<le> length dest"
  by (simp_all add: safe_def mem_read_def mem_write_def mem_copy_def mem_set_def)

end
