(* ===== verification/Bit_Buffer.thy ===== *)
theory Bit_Buffer
  imports Checked_Memory
begin

text \<open>
  \<^verbatim>\<open>lib/toolbox/bit_buffer.c\<close>: the buffer in which NFC frames are assembled, with a parity bit
  per byte. The blocks \<open>data\<close> and \<open>parity\<close> are lists of the allocated size, so every access is
  checked against it; \<open>size_t\<close> has 32 bits, and the one subtraction that can wrap is written out. The
  sums of two sizes (\<open>append_bytes\<close>, \<open>write_bytes_mid\<close>, \<open>append\<close>) are sums of natural numbers: they could
  only wrap for a \<open>size_bytes\<close> near \<open>2 ^ 32\<close>, which no caller that owns the bytes it names can pass, since both
  objects lie in the same 32-bit address space.
\<close>

section \<open>State and operations\<close>

record BitBuffer =
  bb_data :: "u8 list"
  bb_parity :: "u8 list"
  capacity_bytes :: nat
  size_bits :: nat

abbreviation (input) BITS_IN_BYTE :: nat where "BITS_IN_BYTE \<equiv> 8"

definition bit_buffer_alloc :: "nat \<Rightarrow> BitBuffer checked" where
  "bit_buffer_alloc cap =
     furi_check (cap \<noteq> 0)
       (Inr \<lparr>bb_data = replicate cap 0, bb_parity = replicate ((cap + BITS_IN_BYTE - 1) div BITS_IN_BYTE) 0,
             capacity_bytes = cap, size_bits = 0\<rparr>)"

definition bit_buffer_reset :: "BitBuffer \<Rightarrow> BitBuffer checked" where
  "bit_buffer_reset buf =
     checked_bind (mem_set (bb_data buf) 0 (capacity_bytes buf)) (\<lambda>data.
     checked_bind (mem_set (bb_parity buf) 0 ((capacity_bytes buf + BITS_IN_BYTE - 1) div BITS_IN_BYTE)) (\<lambda>parity.
     Inr (buf\<lparr>bb_data := data, bb_parity := parity, size_bits := 0\<rparr>)))"

definition bit_buffer_get_capacity_bytes :: "BitBuffer \<Rightarrow> nat" where
  "bit_buffer_get_capacity_bytes buf = capacity_bytes buf"

definition bit_buffer_get_size :: "BitBuffer \<Rightarrow> nat" where
  "bit_buffer_get_size buf = size_bits buf"

definition bit_buffer_get_size_bytes :: "BitBuffer \<Rightarrow> nat" where
  "bit_buffer_get_size_bytes buf =
     size_bits buf div BITS_IN_BYTE + (if size_bits buf mod BITS_IN_BYTE \<noteq> 0 then 1 else 0)"

definition bit_buffer_has_partial_byte :: "BitBuffer \<Rightarrow> bool" where
  "bit_buffer_has_partial_byte buf = (size_bits buf mod BITS_IN_BYTE \<noteq> 0)"

definition bit_buffer_copy :: "BitBuffer \<Rightarrow> BitBuffer \<Rightarrow> BitBuffer checked" where
  "bit_buffer_copy buf other =
     furi_check (capacity_bytes buf * BITS_IN_BYTE \<ge> size_bits other)
       (checked_bind (mem_copy (bb_data buf) 0 (bb_data other) 0 (bit_buffer_get_size_bytes other)) (\<lambda>data.
        Inr (buf\<lparr>bb_data := data, size_bits := size_bits other\<rparr>)))"

definition bit_buffer_copy_right :: "BitBuffer \<Rightarrow> BitBuffer \<Rightarrow> nat \<Rightarrow> BitBuffer checked" where
  "bit_buffer_copy_right buf other start_index =
     furi_check (bit_buffer_get_size_bytes other > start_index)
       (furi_check (capacity_bytes buf \<ge> bit_buffer_get_size_bytes other - start_index)
         (checked_bind
            (mem_copy (bb_data buf) 0 (bb_data other) start_index (bit_buffer_get_size_bytes other - start_index)) (\<lambda>data.
          Inr (buf\<lparr>bb_data := data, size_bits := size_bits other - start_index * BITS_IN_BYTE\<rparr>))))"

definition bit_buffer_copy_left :: "BitBuffer \<Rightarrow> BitBuffer \<Rightarrow> nat \<Rightarrow> BitBuffer checked" where
  "bit_buffer_copy_left buf other end_index =
     furi_check (bit_buffer_get_capacity_bytes buf \<ge> end_index)
       (furi_check (bit_buffer_get_size_bytes other \<ge> end_index)
         (checked_bind (mem_copy (bb_data buf) 0 (bb_data other) 0 end_index) (\<lambda>data.
          Inr (buf\<lparr>bb_data := data, size_bits := end_index * BITS_IN_BYTE\<rparr>))))"

definition bit_buffer_copy_bytes :: "BitBuffer \<Rightarrow> u8 list \<Rightarrow> nat \<Rightarrow> BitBuffer checked" where
  "bit_buffer_copy_bytes buf data size_bytes =
     furi_check (capacity_bytes buf \<ge> size_bytes)
       (checked_bind (mem_copy (bb_data buf) 0 data 0 size_bytes) (\<lambda>data.
        Inr (buf\<lparr>bb_data := data, size_bits := size_bytes * BITS_IN_BYTE\<rparr>)))"

definition bit_buffer_copy_bits :: "BitBuffer \<Rightarrow> u8 list \<Rightarrow> nat \<Rightarrow> BitBuffer checked" where
  "bit_buffer_copy_bits buf data n =
     furi_check (capacity_bytes buf * BITS_IN_BYTE \<ge> n)
       (checked_bind (mem_copy (bb_data buf) 0 data 0 ((n + BITS_IN_BYTE - 1) div BITS_IN_BYTE)) (\<lambda>data.
        Inr (buf\<lparr>bb_data := data, size_bits := n\<rparr>)))"

text \<open>
  One round of the loop of \<open>bit_buffer_copy_bytes_with_parity\<close>: \<open>curr_byte\<close> counts the rounds and
  \<open>bits_processed\<close> is always \<open>9 * curr_byte\<close>.
\<close>

definition copy_parity_step :: "u8 list \<Rightarrow> nat \<Rightarrow> BitBuffer \<Rightarrow> BitBuffer checked" where
  "copy_parity_step data curr_byte buf =
     (let bits_processed = curr_byte * (BITS_IN_BYTE + 1); sh = bits_processed mod BITS_IN_BYTE in
      checked_bind (mem_read data (bits_processed div BITS_IN_BYTE)) (\<lambda>lo.
      checked_bind (mem_read data (bits_processed div BITS_IN_BYTE + 1)) (\<lambda>hi.
      checked_bind (mem_write (bb_data buf) curr_byte (drop_bit sh lo OR push_bit (BITS_IN_BYTE - sh) hi)) (\<lambda>d.
      let bit = drop_bit sh hi AND 1 in
      checked_bind (mem_read (bb_parity buf) (curr_byte div BITS_IN_BYTE)) (\<lambda>old.
      checked_bind (mem_write (bb_parity buf) (curr_byte div BITS_IN_BYTE)
        (if sh = 0 then bit else old OR push_bit sh bit)) (\<lambda>p.
      Inr (buf\<lparr>bb_data := d, bb_parity := p\<rparr>)))))))"

definition bit_buffer_copy_bytes_with_parity :: "BitBuffer \<Rightarrow> u8 list \<Rightarrow> nat \<Rightarrow> BitBuffer checked" where
  "bit_buffer_copy_bytes_with_parity buf data n =
     (if n < BITS_IN_BYTE + 1
      then checked_bind (mem_read data 0) (\<lambda>b.
           checked_bind (mem_write (bb_data buf) 0 b) (\<lambda>d. Inr (buf\<lparr>size_bits := n, bb_data := d\<rparr>)))
      else furi_check (n mod (BITS_IN_BYTE + 1) = 0)
             (checked_bind
                (fold (\<lambda>i r. checked_bind r (copy_parity_step data i)) [0..<n div (BITS_IN_BYTE + 1)] (Inr buf)) (\<lambda>buf.
              Inr (buf\<lparr>size_bits := n div (BITS_IN_BYTE + 1) * BITS_IN_BYTE\<rparr>))))"

definition bit_buffer_write_bytes :: "BitBuffer \<Rightarrow> u8 list \<Rightarrow> nat \<Rightarrow> u8 list checked" where
  "bit_buffer_write_bytes buf dest size_bytes =
     furi_check (bit_buffer_get_size_bytes buf \<le> size_bytes)
       (mem_copy dest 0 (bb_data buf) 0 (bit_buffer_get_size_bytes buf))"

text \<open>One byte of \<open>bit_buffer_write_bytes_with_parity\<close>; the state is the bit stream and \<open>curr_bit_pos\<close>.\<close>

definition write_parity_step :: "BitBuffer \<Rightarrow> nat \<Rightarrow> u8 list \<times> u16 \<Rightarrow> (u8 list \<times> u16) checked" where
  "write_parity_step buf i s =
     (case s of (bitstream, pos) \<Rightarrow>
        let at = unat pos div BITS_IN_BYTE; sh = unat pos mod BITS_IN_BYTE in
        checked_bind (mem_read (bb_parity buf) (i div BITS_IN_BYTE)) (\<lambda>par.
        checked_bind (mem_read (bb_data buf) i) (\<lambda>b.
        let next_par_bit = drop_bit (i mod BITS_IN_BYTE) par AND 1 in
        if sh = 0
        then checked_bind (mem_write bitstream at b) (\<lambda>bitstream.
             checked_bind (mem_write bitstream (unat (pos + 8) div BITS_IN_BYTE) next_par_bit) (\<lambda>bitstream.
             Inr (bitstream, pos + 8 + 1)))
        else checked_bind (mem_read bitstream at) (\<lambda>old.
             checked_bind (mem_write bitstream at (old OR push_bit sh b)) (\<lambda>bitstream.
             checked_bind (mem_write bitstream (at + 1)
               (drop_bit (BITS_IN_BYTE - sh) b OR push_bit sh next_par_bit)) (\<lambda>bitstream.
             Inr (bitstream, pos + 9)))))))"

definition bit_buffer_write_bytes_with_parity :: "BitBuffer \<Rightarrow> u8 list \<Rightarrow> nat \<Rightarrow> (u8 list \<times> nat) checked" where
  "bit_buffer_write_bytes_with_parity buf dest size_bytes =
     (let n = bit_buffer_get_size_bytes buf in
      furi_check ((n * (BITS_IN_BYTE + 1) + BITS_IN_BYTE) div BITS_IN_BYTE \<le> size_bytes)
        (checked_bind (fold (\<lambda>i r. checked_bind r (write_parity_step buf i)) [0..<n] (Inr (dest, 0))) (\<lambda>(bitstream, pos).
         Inr (bitstream, unat pos))))"

definition bit_buffer_write_bytes_mid :: "BitBuffer \<Rightarrow> u8 list \<Rightarrow> nat \<Rightarrow> nat \<Rightarrow> u8 list checked" where
  "bit_buffer_write_bytes_mid buf dest start_index size_bytes =
     furi_check (start_index + size_bytes \<le> bit_buffer_get_size_bytes buf)
       (mem_copy dest 0 (bb_data buf) start_index size_bytes)"

definition bit_buffer_starts_with_byte :: "BitBuffer \<Rightarrow> u8 \<Rightarrow> bool checked" where
  "bit_buffer_starts_with_byte buf byte =
     (if bit_buffer_get_size_bytes buf = 0 then Inr False
      else checked_bind (mem_read (bb_data buf) 0) (\<lambda>b. Inr (b = byte)))"

definition bit_buffer_get_byte :: "BitBuffer \<Rightarrow> nat \<Rightarrow> u8 checked" where
  "bit_buffer_get_byte buf index =
     furi_check (capacity_bytes buf > index) (mem_read (bb_data buf) index)"

definition bit_buffer_get_byte_from_bit :: "BitBuffer \<Rightarrow> nat \<Rightarrow> u8 checked" where
  "bit_buffer_get_byte_from_bit buf index_bits =
     furi_check (capacity_bytes buf * BITS_IN_BYTE > index_bits)
       (let byte_index = index_bits div BITS_IN_BYTE; bit_offset = index_bits mod BITS_IN_BYTE in
        checked_bind (mem_read (bb_data buf) byte_index) (\<lambda>lo.
        checked_bind (mem_read (bb_data buf) (byte_index + 1)) (\<lambda>hi.
        Inr (drop_bit bit_offset lo OR push_bit (BITS_IN_BYTE - bit_offset) hi))))"

definition bit_buffer_get_data :: "BitBuffer \<Rightarrow> u8 list" where
  "bit_buffer_get_data buf = bb_data buf"

definition bit_buffer_get_parity :: "BitBuffer \<Rightarrow> u8 list" where
  "bit_buffer_get_parity buf = bb_parity buf"

definition bit_buffer_set_byte :: "BitBuffer \<Rightarrow> nat \<Rightarrow> u8 \<Rightarrow> BitBuffer checked" where
  "bit_buffer_set_byte buf index byte =
     furi_check (bit_buffer_get_size_bytes buf > index)
       (checked_bind (mem_write (bb_data buf) index byte) (\<lambda>d. Inr (buf\<lparr>bb_data := d\<rparr>)))"

definition bit_buffer_set_byte_with_parity :: "BitBuffer \<Rightarrow> nat \<Rightarrow> u8 \<Rightarrow> bool \<Rightarrow> BitBuffer checked" where
  "bit_buffer_set_byte_with_parity buf index byte par =
     furi_check (size_bits buf div BITS_IN_BYTE > index)
       (checked_bind (mem_write (bb_data buf) index byte) (\<lambda>d.
        checked_bind (mem_read (bb_parity buf) (index div BITS_IN_BYTE)) (\<lambda>old.
        checked_bind (mem_write (bb_parity buf) (index div BITS_IN_BYTE)
          (if index mod BITS_IN_BYTE = 0 then of_bool par
           else old OR push_bit (index mod BITS_IN_BYTE) (of_bool par))) (\<lambda>p.
        Inr (buf\<lparr>bb_data := d, bb_parity := p\<rparr>)))))"

definition bit_buffer_set_size :: "BitBuffer \<Rightarrow> nat \<Rightarrow> BitBuffer checked" where
  "bit_buffer_set_size buf new_size =
     furi_check (capacity_bytes buf * BITS_IN_BYTE \<ge> new_size) (Inr (buf\<lparr>size_bits := new_size\<rparr>))"

definition bit_buffer_set_size_bytes :: "BitBuffer \<Rightarrow> nat \<Rightarrow> BitBuffer checked" where
  "bit_buffer_set_size_bytes buf new_size_bytes =
     furi_check (capacity_bytes buf \<ge> new_size_bytes)
       (Inr (buf\<lparr>size_bits := new_size_bytes * BITS_IN_BYTE\<rparr>))"

text \<open>\<open>other_size_bytes\<close> and the new size wrap around when \<open>start_index\<close> is past the end of \<open>other\<close>.\<close>

definition bit_buffer_append_right :: "BitBuffer \<Rightarrow> BitBuffer \<Rightarrow> nat \<Rightarrow> BitBuffer checked" where
  "bit_buffer_append_right buf other start_index =
     (let size_bytes = bit_buffer_get_size_bytes buf;
          other_size_bytes = nat ((int (bit_buffer_get_size_bytes other) - int start_index) mod 2 ^ 32) in
      furi_check (capacity_bytes buf \<ge> (size_bytes + other_size_bytes) mod 2 ^ 32)
        (checked_bind (mem_copy (bb_data buf) size_bytes (bb_data other) start_index other_size_bytes) (\<lambda>d.
         Inr (buf\<lparr>bb_data := d,
           size_bits := nat ((int (size_bits buf) + int (size_bits other) - int start_index * 8) mod 2 ^ 32)\<rparr>))))"

definition bit_buffer_append :: "BitBuffer \<Rightarrow> BitBuffer \<Rightarrow> BitBuffer checked" where
  "bit_buffer_append buf other = bit_buffer_append_right buf other 0"

definition bit_buffer_append_byte :: "BitBuffer \<Rightarrow> u8 \<Rightarrow> BitBuffer checked" where
  "bit_buffer_append_byte buf byte =
     (let n = bit_buffer_get_size_bytes buf in
      furi_check (n + 1 \<le> capacity_bytes buf)
        (checked_bind (mem_write (bb_data buf) n byte) (\<lambda>d.
         Inr (buf\<lparr>bb_data := d, size_bits := (n + 1) * BITS_IN_BYTE\<rparr>))))"

definition bit_buffer_append_bytes :: "BitBuffer \<Rightarrow> u8 list \<Rightarrow> nat \<Rightarrow> BitBuffer checked" where
  "bit_buffer_append_bytes buf data size_bytes =
     furi_check (capacity_bytes buf \<ge> bit_buffer_get_size_bytes buf + size_bytes)
       (checked_bind (mem_copy (bb_data buf) (bit_buffer_get_size_bytes buf) data 0 size_bytes) (\<lambda>d.
        Inr (buf\<lparr>bb_data := d, size_bits := size_bits buf + size_bytes * BITS_IN_BYTE\<rparr>)))"

definition bit_buffer_append_bit :: "BitBuffer \<Rightarrow> bool \<Rightarrow> BitBuffer checked" where
  "bit_buffer_append_bit buf b =
     furi_check (bit_buffer_get_size_bytes buf \<le>
         capacity_bytes buf - (if bit_buffer_has_partial_byte buf then 0 else 1))
       (if b
        then let byte_index = size_bits buf div BITS_IN_BYTE; bit_offset = size_bits buf mod BITS_IN_BYTE in
             checked_bind (mem_read (bb_data buf) byte_index) (\<lambda>old.
             checked_bind (mem_write (bb_data buf) byte_index (old OR push_bit bit_offset 1)) (\<lambda>d.
             Inr (buf\<lparr>bb_data := d, size_bits := size_bits buf + 1\<rparr>)))
        else Inr (buf\<lparr>size_bits := size_bits buf + 1\<rparr>))"

section \<open>Well-formed buffers\<close>

definition bb_wf :: "BitBuffer \<Rightarrow> bool" where
  "bb_wf buf \<longleftrightarrow> 0 < capacity_bytes buf \<and> capacity_bytes buf * 8 < 2 ^ 31 \<and>
     length (bb_data buf) = capacity_bytes buf \<and>
     length (bb_parity buf) = (capacity_bytes buf + 7) div 8 \<and> size_bits buf \<le> capacity_bytes buf * 8"

text \<open>The operations that change a buffer, as values, so that a whole use of a buffer is a list of them.\<close>

datatype bb_op =
    Reset
  | Copy BitBuffer
  | Copy_Right BitBuffer nat
  | Copy_Left BitBuffer nat
  | Copy_Bytes "u8 list" nat
  | Copy_Bits "u8 list" nat
  | Copy_Bytes_With_Parity "u8 list" nat
  | Set_Byte nat u8
  | Set_Byte_With_Parity nat u8 bool
  | Set_Size nat
  | Set_Size_Bytes nat
  | Append BitBuffer
  | Append_Right BitBuffer nat
  | Append_Byte u8
  | Append_Bytes "u8 list" nat
  | Append_Bit bool

fun bb_exec :: "bb_op \<Rightarrow> BitBuffer \<Rightarrow> BitBuffer checked" where
  "bb_exec Reset buf = bit_buffer_reset buf"
| "bb_exec (Copy b) buf = bit_buffer_copy buf b"
| "bb_exec (Copy_Right b i) buf = bit_buffer_copy_right buf b i"
| "bb_exec (Copy_Left b i) buf = bit_buffer_copy_left buf b i"
| "bb_exec (Copy_Bytes d n) buf = bit_buffer_copy_bytes buf d n"
| "bb_exec (Copy_Bits d n) buf = bit_buffer_copy_bits buf d n"
| "bb_exec (Copy_Bytes_With_Parity d n) buf = bit_buffer_copy_bytes_with_parity buf d n"
| "bb_exec (Set_Byte i b) buf = bit_buffer_set_byte buf i b"
| "bb_exec (Set_Byte_With_Parity i b p) buf = bit_buffer_set_byte_with_parity buf i b p"
| "bb_exec (Set_Size n) buf = bit_buffer_set_size buf n"
| "bb_exec (Set_Size_Bytes n) buf = bit_buffer_set_size_bytes buf n"
| "bb_exec (Append b) buf = bit_buffer_append buf b"
| "bb_exec (Append_Right b i) buf = bit_buffer_append_right buf b i"
| "bb_exec (Append_Byte b) buf = bit_buffer_append_byte buf b"
| "bb_exec (Append_Bytes d n) buf = bit_buffer_append_bytes buf d n"
| "bb_exec (Append_Bit b) buf = bit_buffer_append_bit buf b"

text \<open>
  What the caller owes: other buffers are well-formed and source arrays hold what is read from them.
  Two operations leave more to the caller than they check: the start of \<open>append_right\<close> must lie
  inside the other buffer, and the decoded frame of \<open>copy_bytes_with_parity\<close> must fit.
\<close>

fun bb_args :: "nat \<Rightarrow> bb_op \<Rightarrow> bool" where
  "bb_args cap (Copy b) = bb_wf b"
| "bb_args cap (Copy_Right b i) = bb_wf b"
| "bb_args cap (Copy_Left b i) = bb_wf b"
| "bb_args cap (Copy_Bytes d n) = (n \<le> length d)"
| "bb_args cap (Copy_Bits d n) = ((n + 7) div 8 \<le> length d)"
| "bb_args cap (Copy_Bytes_With_Parity d n) = (0 < length d \<and> n div 9 \<le> cap \<and> (n + 7) div 8 \<le> length d)"
| "bb_args cap (Append b) = bb_wf b"
| "bb_args cap (Append_Right b i) = (bb_wf b \<and> i * 8 \<le> size_bits b)"
| "bb_args cap (Append_Bytes d n) = (n \<le> length d)"
| "bb_args cap _ = True"

lemma size_bytes_alt: "bit_buffer_get_size_bytes buf = (size_bits buf + 7) div 8"
proof -
  define a r where "a = size_bits buf div 8" and "r = size_bits buf mod 8"
  have "size_bits buf = 8 * a + r" "r < 8" by (simp_all add: a_def r_def)
  moreover have "(8 * a + r + 7) div 8 = a + (if r \<noteq> 0 then 1 else 0)" if "r < 8"
    using that by (cases "r = 0") (auto simp: div_nat_eqI)
  ultimately show ?thesis
    by (simp add: bit_buffer_get_size_bytes_def a_def [symmetric] r_def [symmetric])
qed

lemma div8_le: "n \<le> m * 8 \<Longrightarrow> (n + 7) div 8 \<le> (m :: nat)"
  by linarith

lemma size_bytes_le:
  assumes "bb_wf buf"
  shows "bit_buffer_get_size_bytes buf \<le> capacity_bytes buf"
  using assms unfolding size_bytes_alt bb_wf_def by (blast intro: div8_le)

lemma size_bytes_bits: "size_bits buf \<le> 8 * bit_buffer_get_size_bytes buf"
  "8 * bit_buffer_get_size_bytes buf \<le> size_bits buf + 7"
  unfolding size_bytes_alt by linarith+

lemma parity_index: "i < n \<Longrightarrow> i div 8 < (n + 7) div (8 :: nat)"
  by linarith

text \<open>An operation that is safe and keeps buffers well-formed, of a given capacity.\<close>

definition keeps_wf :: "BitBuffer \<Rightarrow> BitBuffer checked \<Rightarrow> bool" where
  "keeps_wf buf r \<longleftrightarrow>
     safe r \<and> (\<forall>b. r = Inr b \<longrightarrow> bb_wf b \<and> capacity_bytes b = capacity_bytes buf)"

lemma append_right_in_range:
  assumes "bb_wf buf" "bb_wf other" "i * 8 \<le> size_bits other"
  shows "bit_buffer_append_right buf other i =
    furi_check (capacity_bytes buf \<ge> bit_buffer_get_size_bytes buf + (bit_buffer_get_size_bytes other - i))
      (checked_bind (mem_copy (bb_data buf) (bit_buffer_get_size_bytes buf) (bb_data other) i
          (bit_buffer_get_size_bytes other - i)) (\<lambda>d.
       Inr (buf\<lparr>bb_data := d, size_bits := size_bits buf + (size_bits other - i * 8)\<rparr>)))"
proof -
  let ?n = "bit_buffer_get_size_bytes buf" and ?m = "bit_buffer_get_size_bytes other"
  have m: "i \<le> ?m" using assms(3) size_bytes_bits(1) [of other] by linarith
  have caps: "capacity_bytes buf * 8 < 2 ^ 31" "size_bits buf \<le> capacity_bytes buf * 8"
    "capacity_bytes other * 8 < 2 ^ 31" "size_bits other \<le> capacity_bytes other * 8"
    using assms(1,2) by (simp_all add: bb_wf_def)
  have small: "?n + (?m - i) < 2 ^ 32" "size_bits buf + (size_bits other - i * 8) < 2 ^ 32"
    using size_bytes_le [OF assms(1)] size_bytes_le [OF assms(2)] caps by simp_all
  have e: "int ?m - int i = int (?m - i)"
    "int (size_bits buf) + int (size_bits other) - int i * 8 = int (size_bits buf + (size_bits other - i * 8))"
    using m assms(3) by simp_all
  have "?m - i < 2 ^ 32" using small(1) by linarith
  then show ?thesis
    unfolding bit_buffer_append_right_def Let_def e
    using small by (simp only: nat_wrap_32 mod_less)
qed

lemma keeps_wf_intro:
  assumes "safe r" "\<And>b. r = Inr b \<Longrightarrow> bb_wf b \<and> capacity_bytes b = capacity_bytes buf"
  shows "keeps_wf buf r"
  using assms by (simp add: keeps_wf_def)

lemma size_bytes_data: "bb_wf buf \<Longrightarrow> bit_buffer_get_size_bytes buf \<le> length (bb_data buf)"
  using size_bytes_le by (simp add: bb_wf_def)

lemma length_mem_copy [simp]: "i + n \<le> length d \<Longrightarrow> j + n \<le> length x \<Longrightarrow>
    length (take i d @ take n (drop j x) @ drop (i + n) d) = length d"
  by simp

lemmas bb_update_defs = bit_buffer_reset_def bit_buffer_copy_def bit_buffer_copy_right_def bit_buffer_copy_left_def
  bit_buffer_copy_bytes_def bit_buffer_copy_bits_def bit_buffer_set_byte_def bit_buffer_set_byte_with_parity_def
  bit_buffer_set_size_def bit_buffer_set_size_bytes_def bit_buffer_append_byte_def bit_buffer_append_bytes_def
  bit_buffer_append_bit_def bit_buffer_get_capacity_bytes_def

lemma copies_keep:
  assumes "bb_wf buf" "bb_wf other"
  shows "keeps_wf buf (bit_buffer_copy buf other)" "keeps_wf buf (bit_buffer_copy_right buf other i)"
    "keeps_wf buf (bit_buffer_copy_left buf other i)"
    "i * 8 \<le> size_bits other \<Longrightarrow> keeps_wf buf (bit_buffer_append_right buf other i)"
proof -
  note le = size_bytes_data [OF assms(2)] size_bytes_data [OF assms(1)]
    size_bytes_bits [of other] size_bytes_bits [of buf]
  have fits: "size_bits other \<le> capacity_bytes buf * 8 \<Longrightarrow> bit_buffer_get_size_bytes other \<le> capacity_bytes buf"
    unfolding size_bytes_alt by (rule div8_le)
  show "keeps_wf buf (bit_buffer_copy buf other)"
    using assms le fits
    by (auto intro!: keeps_wf_intro simp: bit_buffer_copy_def safe_bind checked_Inr bb_wf_def)
  show "keeps_wf buf (bit_buffer_copy_right buf other i)"
    using assms le
    by (auto intro!: keeps_wf_intro simp: bit_buffer_copy_right_def safe_bind checked_Inr bb_wf_def)
  show "keeps_wf buf (bit_buffer_copy_left buf other i)"
    using assms le
    by (auto intro!: keeps_wf_intro simp: bit_buffer_copy_left_def bit_buffer_get_capacity_bytes_def safe_bind checked_Inr bb_wf_def)
  show "keeps_wf buf (bit_buffer_append_right buf other i)" if i: "i * 8 \<le> size_bits other"
    using assms le i unfolding append_right_in_range [OF assms i]
    by (auto intro!: keeps_wf_intro simp: safe_bind checked_Inr bb_wf_def)
qed

lemma byte_ops_keep:
  assumes "bb_wf buf"
  shows "keeps_wf buf (bit_buffer_reset buf)"
    "n \<le> length d \<Longrightarrow> keeps_wf buf (bit_buffer_copy_bytes buf d n)"
    "(n + 7) div 8 \<le> length d \<Longrightarrow> keeps_wf buf (bit_buffer_copy_bits buf d n)"
    "keeps_wf buf (bit_buffer_set_byte buf i b)"
    "keeps_wf buf (bit_buffer_set_size buf n)" "keeps_wf buf (bit_buffer_set_size_bytes buf n)"
    "keeps_wf buf (bit_buffer_append_byte buf b)"
    "n \<le> length d \<Longrightarrow> keeps_wf buf (bit_buffer_append_bytes buf d n)"
proof -
  note le = size_bytes_data [OF assms] size_bytes_bits [of buf]
  note k = keeps_wf_intro
  show "keeps_wf buf (bit_buffer_reset buf)"
    using assms by (auto intro!: k simp: bit_buffer_reset_def safe_bind checked_Inr bb_wf_def)
  show "keeps_wf buf (bit_buffer_copy_bytes buf d n)" if "n \<le> length d"
    using assms that by (auto intro!: k simp: bit_buffer_copy_bytes_def safe_bind checked_Inr bb_wf_def)
  show "keeps_wf buf (bit_buffer_copy_bits buf d n)" if "(n + 7) div 8 \<le> length d"
    using assms that div8_le [of n "capacity_bytes buf"]
    by (auto intro!: k simp: bit_buffer_copy_bits_def safe_bind checked_Inr bb_wf_def)
  show "keeps_wf buf (bit_buffer_set_byte buf i b)"
    using assms le by (auto intro!: k simp: bit_buffer_set_byte_def safe_bind checked_Inr bb_wf_def)
  show "keeps_wf buf (bit_buffer_set_size buf n)" "keeps_wf buf (bit_buffer_set_size_bytes buf n)"
    using assms by (auto intro!: k simp: bit_buffer_set_size_def bit_buffer_set_size_bytes_def checked_Inr bb_wf_def)
  show "keeps_wf buf (bit_buffer_append_byte buf b)"
    using assms by (auto intro!: k simp: bit_buffer_append_byte_def Let_def safe_bind checked_Inr bb_wf_def)
  show "keeps_wf buf (bit_buffer_append_bytes buf d n)" if "n \<le> length d"
    using assms le that by (auto intro!: k simp: bit_buffer_append_bytes_def safe_bind checked_Inr bb_wf_def)
qed

lemma wf_indices:
  assumes "bb_wf buf" "i < capacity_bytes buf"
  shows "i < length (bb_data buf)" "i div 8 < length (bb_parity buf)"
  using assms parity_index [OF assms(2)] by (simp_all add: bb_wf_def)

lemma wf_update:
  "bb_wf buf \<Longrightarrow> length d = length (bb_data buf) \<Longrightarrow> length p = length (bb_parity buf) \<Longrightarrow>
     bb_wf (buf\<lparr>bb_data := d, bb_parity := p\<rparr>)"
  by (simp add: bb_wf_def)

lemma bit_ops_keep:
  assumes "bb_wf buf"
  shows "keeps_wf buf (bit_buffer_set_byte_with_parity buf i b q)" "keeps_wf buf (bit_buffer_append_bit buf x)"
proof -
  have idx: "i < capacity_bytes buf" if "i < size_bits buf div 8"
    using that assms by (auto simp: bb_wf_def)
  show "keeps_wf buf (bit_buffer_set_byte_with_parity buf i b q)"
    using assms idx wf_indices [OF assms, of i]
    by (intro keeps_wf_intro) (auto simp: bit_buffer_set_byte_with_parity_def safe_bind checked_Inr wf_update)
  have room: "size_bits buf < capacity_bytes buf * 8"
    if "bit_buffer_get_size_bytes buf \<le> capacity_bytes buf - (if bit_buffer_has_partial_byte buf then 0 else 1)"
  proof (cases "bit_buffer_has_partial_byte buf")
    case True
    then have "size_bits buf \<noteq> capacity_bytes buf * 8"
      by (auto simp: bit_buffer_has_partial_byte_def)
    then show ?thesis using assms by (simp add: bb_wf_def)
  next
    case False
    then have "bit_buffer_get_size_bytes buf \<le> capacity_bytes buf - 1" using that by simp
    moreover have "0 < capacity_bytes buf" using assms by (simp add: bb_wf_def)
    ultimately show ?thesis
      using size_bytes_bits(1) [of buf] by linarith
  qed
  then have "size_bits buf div 8 < length (bb_data buf)"
    if "bit_buffer_get_size_bytes buf \<le> capacity_bytes buf - (if bit_buffer_has_partial_byte buf then 0 else 1)"
    using that assms by (simp add: bb_wf_def less_mult_imp_div_less)
  then show "keeps_wf buf (bit_buffer_append_bit buf x)"
    using assms room unfolding bit_buffer_append_bit_def Let_def
    by (intro keeps_wf_intro) (auto simp: safe_bind checked_Inr bb_wf_def Suc_le_eq split: if_splits)
qed

lemma copy_parity_step_keeps:
  assumes "bb_wf buf" "c < capacity_bytes buf" "c * 9 div 8 + 1 < length d"
  shows "keeps_wf buf (copy_parity_step d c buf)"
  using assms wf_indices [OF assms(1,2)]
  by (intro keeps_wf_intro) (auto simp: copy_parity_step_def Let_def safe_bind checked_Inr wf_update)

lemma keeps_wf_bind:
  assumes "keeps_wf buf r" "\<And>b. bb_wf b \<Longrightarrow> capacity_bytes b = capacity_bytes buf \<Longrightarrow> keeps_wf b (f b)"
  shows "keeps_wf buf (checked_bind r f)"
  using assms by (cases r) (auto simp: keeps_wf_def safe_def)

lemma keeps_wf_check: "keeps_wf buf r \<Longrightarrow> keeps_wf buf (furi_check b r)"
  by (auto simp: keeps_wf_def furi_check_Inr)

lemma copy_parity_loop_keeps:
  assumes "bb_wf buf"
  shows "(\<And>c. c < k \<Longrightarrow> c < capacity_bytes buf \<and> c * 9 div 8 + 1 < length d) \<Longrightarrow>
    keeps_wf buf (fold (\<lambda>i r. checked_bind r (copy_parity_step d i)) [0..<k] (Inr buf))"
proof (induction k)
  case 0
  then show ?case using assms by (simp add: keeps_wf_def)
next
  case (Suc k)
  then have "keeps_wf buf (fold (\<lambda>i r. checked_bind r (copy_parity_step d i)) [0..<k] (Inr buf))" by simp
  then show ?case
    using Suc.prems [of k] by (simp add: keeps_wf_bind copy_parity_step_keeps)
qed

lemma parity_stream_index: "c < n div 9 \<Longrightarrow> (n + 7) div 8 \<le> l \<Longrightarrow> c * 9 div 8 + 1 < (l :: nat)"
  by linarith

lemma copy_bytes_with_parity_keeps:
  assumes "bb_wf buf" "0 < length d" "n div 9 \<le> capacity_bytes buf" "(n + 7) div 8 \<le> length d"
  shows "keeps_wf buf (bit_buffer_copy_bytes_with_parity buf d n)"
proof (cases "n < 9")
  case True
  then show ?thesis
    using assms by (intro keeps_wf_intro)
      (auto simp: bit_buffer_copy_bytes_with_parity_def safe_bind checked_Inr bb_wf_def)
next
  case False
  have loop: "keeps_wf buf (fold (\<lambda>i r. checked_bind r (copy_parity_step d i)) [0..<n div 9] (Inr buf))"
    using assms(3,4) by (intro copy_parity_loop_keeps [OF assms(1)]) (auto intro: parity_stream_index)
  have "keeps_wf buf (checked_bind (fold (\<lambda>i r. checked_bind r (copy_parity_step d i)) [0..<n div 9] (Inr buf))
      (\<lambda>b. Inr (b\<lparr>size_bits := n div 9 * 8\<rparr>)))"
    using assms(3) by (intro keeps_wf_bind [OF loop]) (simp add: keeps_wf_def bb_wf_def)
  then show ?thesis
    using False keeps_wf_check by (simp add: bit_buffer_copy_bytes_with_parity_def)
qed

lemma exec_keeps_wf:
  assumes "bb_wf buf" "bb_args (capacity_bytes buf) x"
  shows "keeps_wf buf (bb_exec x buf)"
  using assms by (cases x)
    (simp_all add: copies_keep byte_ops_keep bit_ops_keep copy_bytes_with_parity_keeps bit_buffer_append_def)

text \<open>A use of a buffer: allocation, then any number of operations.\<close>

definition bb_run :: "bb_op list \<Rightarrow> BitBuffer checked \<Rightarrow> BitBuffer checked" where
  "bb_run ops r = fold (\<lambda>x r. checked_bind r (bb_exec x)) ops r"

text \<open>
  C17 Memory safety of the bit buffer: after an allocation of at most 256 MiB any sequence of the
  sixteen mutating operations, with arguments that meet the obligations of the caller, either
  halts on a failed check or yields a well-formed buffer of the same capacity; no access leaves the
  data or the parity block.
\<close>

theorem bit_buffer_safe:
  assumes "cap * 8 < 2 ^ 31" "\<forall>x \<in> set ops. bb_args cap x"
  shows "safe (bb_run ops (bit_buffer_alloc cap)) \<and>
    (\<forall>b. bb_run ops (bit_buffer_alloc cap) = Inr b \<longrightarrow> bb_wf b \<and> capacity_bytes b = cap)"
proof (cases "cap = 0")
  case True
  have "bb_run ops (Inl Furi_Check) = Inl Furi_Check"
    by (induction ops) (simp_all add: bb_run_def)
  with True show ?thesis by (simp add: bit_buffer_alloc_def safe_def)
next
  case False
  then obtain buf where buf: "bit_buffer_alloc cap = Inr buf" "bb_wf buf" "capacity_bytes buf = cap"
    using assms(1) by (auto simp: bit_buffer_alloc_def bb_wf_def)
  have "keeps_wf buf (bb_run ops (Inr buf))"
    using assms(2)
  proof (induction ops rule: rev_induct)
    case Nil
    then show ?case using buf by (simp add: bb_run_def keeps_wf_def)
  next
    case (snoc x ops)
    then have "keeps_wf buf (bb_run ops (Inr buf))" "bb_args cap x" by simp_all
    then have "keeps_wf buf (checked_bind (bb_run ops (Inr buf)) (bb_exec x))"
      using buf(3) by (intro keeps_wf_bind) (simp_all add: exec_keeps_wf)
    then show ?case by (simp add: bb_run_def)
  qed
  then show ?thesis using buf by (simp add: keeps_wf_def)
qed

theorem bit_buffer_safe_witness:
  "(2 :: nat) * 8 < 2 ^ 31 \<and> list_all (bb_args 2) [Append_Byte 0x5A, Append_Bit True, Append_Byte 1] \<and>
   safe (bb_run [Append_Byte 0x5A, Append_Bit True, Append_Byte 1] (bit_buffer_alloc 2))"
  using bit_buffer_safe [of 2 "[Append_Byte 0x5A, Append_Bit True, Append_Byte 1]"] by simp

section \<open>A byte-aligned buffer is a list of bytes\<close>

definition contents :: "BitBuffer \<Rightarrow> u8 list" where
  "contents buf = take (bit_buffer_get_size_bytes buf) (bb_data buf)"

definition aligned :: "BitBuffer \<Rightarrow> bool" where
  "aligned buf \<longleftrightarrow> bb_wf buf \<and> size_bits buf mod 8 = 0"

lemma aligned_size:
  "aligned buf \<Longrightarrow> size_bits buf = bit_buffer_get_size_bytes buf * 8"
  "aligned buf \<Longrightarrow> bb_wf buf"
  by (auto simp: aligned_def bit_buffer_get_size_bytes_def)

lemma length_contents: "bb_wf buf \<Longrightarrow> length (contents buf) = bit_buffer_get_size_bytes buf"
  using size_bytes_data by (simp add: contents_def)

lemma set_aligned:
  assumes "bb_wf b" "size_bits b = n * 8"
  shows "aligned b" "contents b = take n (bb_data b)" "bit_buffer_get_size_bytes b = n"
  using assms by (simp_all add: aligned_def contents_def bit_buffer_get_size_bytes_def)

text \<open>
  The interface a frame codec needs from its buffer: append bytes at the end, read bytes from the middle,
  cut the buffer. The laws speak about the contents only.
\<close>

locale byte_buffer =
  fixes good :: "'b \<Rightarrow> bool" and bytes :: "'b \<Rightarrow> u8 list" and cap :: "'b \<Rightarrow> nat"
    and append :: "'b \<Rightarrow> u8 list \<Rightarrow> 'b checked"
    and mid :: "'b \<Rightarrow> nat \<Rightarrow> nat \<Rightarrow> u8 list checked"
    and cut :: "'b \<Rightarrow> nat \<Rightarrow> 'b checked"
  assumes append_fits: "good b \<Longrightarrow> length (bytes b) + length xs \<le> cap b \<Longrightarrow>
      \<exists>b'. append b xs = Inr b' \<and> good b' \<and> cap b' = cap b \<and> bytes b' = bytes b @ xs"
    and append_full: "good b \<Longrightarrow> cap b < length (bytes b) + length xs \<Longrightarrow> append b xs = Inl Furi_Check"
    and mid_reads: "good b \<Longrightarrow> i + n \<le> length (bytes b) \<Longrightarrow> mid b i n = Inr (take n (drop i (bytes b)))"
    and cut_takes: "good b \<Longrightarrow> n \<le> length (bytes b) \<Longrightarrow>
      \<exists>b'. cut b n = Inr b' \<and> good b' \<and> cap b' = cap b \<and> bytes b' = take n (bytes b)"
begin

text \<open>A trailer that is appended can be read back and cut off again.\<close>

lemma trailer_roundtrip:
  assumes "good b" "length (bytes b) + length t \<le> cap b"
  shows "\<exists>b' b''. append b t = Inr b' \<and> good b' \<and> bytes b' = bytes b @ t \<and>
    mid b' (length (bytes b') - length t) (length t) = Inr t \<and>
    cut b' (length (bytes b') - length t) = Inr b'' \<and> good b'' \<and> bytes b'' = bytes b \<and> cap b'' = cap b"
proof -
  obtain b' where b': "append b t = Inr b'" "good b'" "cap b' = cap b" "bytes b' = bytes b @ t"
    using append_fits [OF assms] by blast
  moreover have "mid b' (length (bytes b)) (length t) = Inr t"
    using mid_reads [OF b'(2), of "length (bytes b)" "length t"] b'(4) by simp
  moreover obtain b'' where "cut b' (length (bytes b)) = Inr b''" "good b''" "cap b'' = cap b" "bytes b'' = bytes b"
    using cut_takes [OF b'(2), of "length (bytes b)"] b'(3,4) by auto
  ultimately show ?thesis by auto
qed

end

lemma append_bytes_contents:
  assumes "aligned b" "length (contents b) + length xs \<le> capacity_bytes b"
  shows "\<exists>b'. bit_buffer_append_bytes b xs (length xs) = Inr b' \<and> aligned b' \<and> capacity_bytes b' = capacity_bytes b \<and>
    contents b' = contents b @ xs"
proof -
  let ?n = "bit_buffer_get_size_bytes b"
  let ?b = "b\<lparr>bb_data := take ?n (bb_data b) @ xs @ drop (?n + length xs) (bb_data b), size_bits := (?n + length xs) * 8\<rparr>"
  have wf: "bb_wf b" and fits: "?n + length xs \<le> capacity_bytes b" "?n + length xs \<le> length (bb_data b)"
    using assms aligned_size(2) [OF assms(1)] by (auto simp: length_contents bb_wf_def)
  have r: "bit_buffer_append_bytes b xs (length xs) = Inr ?b"
    using fits aligned_size(1) [OF assms(1)]
    by (simp add: bit_buffer_append_bytes_def mem_copy_def distrib_right)
  have "bb_wf ?b"
    using byte_ops_keep(8) [OF wf, of "length xs" xs] r by (simp add: keeps_wf_def)
  then show ?thesis
    using set_aligned [of ?b "?n + length xs"] r fits by (simp add: contents_def)
qed

interpretation frame: byte_buffer aligned contents capacity_bytes
  "\<lambda>b xs. bit_buffer_append_bytes b xs (length xs)"
  "\<lambda>b i n. bit_buffer_write_bytes_mid b (replicate n 0) i n" bit_buffer_set_size_bytes
proof (unfold_locales, goal_cases)
  case (1 b xs)
  then show ?case by (rule append_bytes_contents)
next
  case (2 b xs)
  then show ?case by (simp add: bit_buffer_append_bytes_def length_contents aligned_size(2))
next
  case (3 b i n)
  then have "bb_wf b" "i + n \<le> bit_buffer_get_size_bytes b" by (auto simp: aligned_def length_contents)
  with size_bytes_data [of b] show ?case
    by (simp add: bit_buffer_write_bytes_mid_def mem_copy_def contents_def drop_take)
next
  case (4 b n)
  then have wf: "bb_wf b" "n \<le> bit_buffer_get_size_bytes b" by (auto simp: aligned_def length_contents)
  have "n \<le> capacity_bytes b" using wf size_bytes_le [OF wf(1)] by simp
  then have "bit_buffer_set_size_bytes b n = Inr (b\<lparr>size_bits := n * 8\<rparr>)" "bb_wf (b\<lparr>size_bits := n * 8\<rparr>)"
    using wf(1) by (simp_all add: bit_buffer_set_size_bytes_def bb_wf_def)
  then show ?case
    using set_aligned [of "b\<lparr>size_bits := n * 8\<rparr>" n] wf(2) by (simp add: contents_def min_def)
qed

text \<open>
  C29 On byte-aligned buffers the copying operations are the list operations: a copy copies, a right
  copy drops the bytes before its start, a left copy takes those before its end, appending
  another buffer concatenates, and each fails with a check exactly when the result does not fit.
\<close>

theorem bit_buffer_list_model:
  assumes "aligned b" "aligned c"
  shows "(length (contents c) \<le> capacity_bytes b \<longrightarrow>
      (\<exists>b'. bit_buffer_copy b c = Inr b' \<and> aligned b' \<and> contents b' = contents c)) \<and>
    (i < length (contents c) \<and> length (contents c) - i \<le> capacity_bytes b \<longrightarrow>
      (\<exists>b'. bit_buffer_copy_right b c i = Inr b' \<and> aligned b' \<and> contents b' = drop i (contents c))) \<and>
    (i \<le> length (contents c) \<and> i \<le> capacity_bytes b \<longrightarrow>
      (\<exists>b'. bit_buffer_copy_left b c i = Inr b' \<and> aligned b' \<and> contents b' = take i (contents c))) \<and>
    (length (contents b) + length (contents c) \<le> capacity_bytes b \<longrightarrow>
      (\<exists>b'. bit_buffer_append b c = Inr b' \<and> aligned b' \<and> contents b' = contents b @ contents c))"
proof -
  let ?n = "bit_buffer_get_size_bytes c" and ?m = "bit_buffer_get_size_bytes b"
  have wf: "bb_wf b" "bb_wf c" using assms by (simp_all add: aligned_def)
  note sz = aligned_size(1) [OF assms(1)] aligned_size(1) [OF assms(2)]
  note len = length_contents [OF wf(1)] length_contents [OF wf(2)]
  have data: "?n \<le> length (bb_data c)" "?m \<le> length (bb_data b)" "length (bb_data b) = capacity_bytes b"
    using size_bytes_data wf by (auto simp: bb_wf_def)
  have fin: "aligned b' \<and> contents b' = take k (bb_data b')"
    if "r = Inr b'" "keeps_wf b r" "size_bits b' = k * 8" for r b' k
    using that set_aligned [of b' k] by (simp add: keeps_wf_def)
  show ?thesis
  proof (intro conjI impI)
    assume fit: "length (contents c) \<le> capacity_bytes b"
    then have "bit_buffer_copy b c = Inr (b\<lparr>bb_data := take ?n (bb_data c) @ drop ?n (bb_data b), size_bits := ?n * 8\<rparr>)"
      using data sz len by (simp add: bit_buffer_copy_def mem_copy_def)
    with fin [OF this copies_keep(1) [OF wf], of ?n] data fit len
    show "\<exists>b'. bit_buffer_copy b c = Inr b' \<and> aligned b' \<and> contents b' = contents c"
      by (simp add: contents_def)
  next
    assume fit: "i < length (contents c) \<and> length (contents c) - i \<le> capacity_bytes b"
    then have "bit_buffer_copy_right b c i =
        Inr (b\<lparr>bb_data := take (?n - i) (drop i (bb_data c)) @ drop (?n - i) (bb_data b), size_bits := (?n - i) * 8\<rparr>)"
      using data sz len by (simp add: bit_buffer_copy_right_def mem_copy_def diff_mult_distrib)
    with fin [OF this copies_keep(2) [OF wf], of "?n - i"] data fit len
    show "\<exists>b'. bit_buffer_copy_right b c i = Inr b' \<and> aligned b' \<and> contents b' = drop i (contents c)"
      by (simp add: contents_def drop_take)
  next
    assume fit: "i \<le> length (contents c) \<and> i \<le> capacity_bytes b"
    then have "bit_buffer_copy_left b c i = Inr (b\<lparr>bb_data := take i (bb_data c) @ drop i (bb_data b), size_bits := i * 8\<rparr>)"
      using data sz len by (simp add: bit_buffer_copy_left_def bit_buffer_get_capacity_bytes_def mem_copy_def)
    with fin [OF this copies_keep(3) [OF wf], of i] data fit len
    show "\<exists>b'. bit_buffer_copy_left b c i = Inr b' \<and> aligned b' \<and> contents b' = take i (contents c)"
      by (simp add: contents_def min_def)
  next
    assume fit: "length (contents b) + length (contents c) \<le> capacity_bytes b"
    then have "bit_buffer_append b c =
        Inr (b\<lparr>bb_data := take ?m (bb_data b) @ take ?n (bb_data c) @ drop (?m + ?n) (bb_data b), size_bits := (?m + ?n) * 8\<rparr>)"
      using data sz len append_right_in_range [OF wf, of 0]
      by (simp add: bit_buffer_append_def mem_copy_def distrib_right)
    with fin [OF this copies_keep(4) [OF wf, of 0, folded bit_buffer_append_def], of "?m + ?n"] data fit len
    show "\<exists>b'. bit_buffer_append b c = Inr b' \<and> aligned b' \<and> contents b' = contents b @ contents c"
      by (simp add: contents_def)
  qed
qed

end
