(* ===== verification/Bit_Buffer_Parity.thy ===== *)
theory Bit_Buffer_Parity
  imports Bit_Buffer
begin

text \<open>
  The transmission format of ISO 14443-3 frames: nine bits per byte, least significant bit first, the
  ninth being the parity bit. \<open>bit_buffer_write_bytes_with_parity\<close> packs a buffer into it,
  \<open>bit_buffer_copy_bytes_with_parity\<close> unpacks it; both work across byte boundaries.
\<close>

definition sbit :: "u8 list \<Rightarrow> nat \<Rightarrow> bool" where
  "sbit xs t \<longleftrightarrow> bit (xs ! (t div 8)) (t mod 8)"

lemma sbit_update:
  "a < length xs \<Longrightarrow> sbit (xs[a := v]) t = (if t div 8 = a then bit v (t mod 8) else sbit xs t)"
  by (simp add: sbit_def nth_list_update)

text \<open>Positions of the ninth-bit grid, given the byte \<open>a\<close> and the offset \<open>r\<close> in which the group of nine starts.\<close>

lemma stream_position:
  assumes "r < 8" "j \<le> (8 :: nat)"
  shows "(8 * a + r + j) div 8 = (if r + j < 8 then a else if r + j < 16 then a + 1 else a + 2)"
    "(8 * a + r + j) mod 8 = (if r + j < 8 then r + j else if r + j < 16 then r + j - 8 else r + j - 16)"
proof -
  consider "r + j < 8" | "8 \<le> r + j" "r + j < 16" using assms by linarith
  then have "(8 * a + (r + j)) div 8 = (if r + j < 8 then a else if r + j < 16 then a + 1 else a + 2) \<and>
    (8 * a + (r + j)) mod 8 = (if r + j < 8 then r + j else if r + j < 16 then r + j - 8 else r + j - 16)"
  proof cases
    case 2
    then have "8 * a + (r + j) = 8 * (a + 1) + (r + j - 8)" by simp
    moreover have "r + j - 8 < 8" using 2 by simp
    ultimately show ?thesis using 2 div_mod_split8 [of "r + j - 8" "a + 1"] by simp
  qed simp
  then show "(8 * a + r + j) div 8 = (if r + j < 8 then a else if r + j < 16 then a + 1 else a + 2)"
    "(8 * a + r + j) mod 8 = (if r + j < 8 then r + j else if r + j < 16 then r + j - 8 else r + j - 16)"
    by (simp_all add: add.assoc)
qed

section \<open>Unpacking\<close>

lemma unpacked_byte:
  assumes "r < 8" "j < 8"
  shows "bit (drop_bit r (xs ! a) OR push_bit (8 - r) (xs ! (a + 1)) :: u8) j = sbit xs (8 * a + r + j)"
  using assms stream_position [of r j a]
  by (cases "r + j < 8") (auto simp: sbit_def bit_iffs add.commute [of j r])

lemma unpacked_parity:
  assumes "r < 8"
  shows "drop_bit r (xs ! (a + 1)) AND 1 = (of_bool (sbit xs (8 * a + r + 8)) :: u8)"
  using assms stream_position [of r 8 a] by (simp add: sbit_def bit_read_of_bool [unfolded bit_read_def])

text \<open>After \<open>c\<close> rounds the first \<open>c\<close> bytes and parity bits are those of the stream.\<close>

definition unpacked :: "u8 list \<Rightarrow> nat \<Rightarrow> BitBuffer \<Rightarrow> bool" where
  "unpacked xs c b \<longleftrightarrow>
     (\<forall>k<c. (\<forall>j<8. bit (bb_data b ! k) j = sbit xs (k * 9 + j)) \<and>
            bit (bb_parity b ! (k div 8)) (k mod 8) = sbit xs (k * 9 + 8)) \<and>
     (c mod 8 \<noteq> 0 \<longrightarrow> (\<forall>j\<ge>c mod 8. \<not> bit (bb_parity b ! (c div 8)) j))"

lemma nine_split: "c * 9 = 8 * (c + c div 8) + (c mod 8 :: nat)"
proof -
  define a m where "a = c div 8" and "m = c mod 8"
  have "a * 8 + m = c" by (simp add: a_def m_def)
  then show ?thesis unfolding a_def [symmetric] m_def [symmetric] by presburger
qed

lemma nine_div_mod: "c * 9 div 8 = c + c div 8" "c * 9 mod 8 = (c mod 8 :: nat)"
  using div_mod_split8 [of "c mod 8" "c + c div 8"] unfolding nine_split [symmetric] by simp_all

lemma copy_parity_step_value:
  assumes "bb_wf b" "c < capacity_bytes b" "c * 9 div 8 + 1 < length xs"
  shows "copy_parity_step xs c b =
    Inr (b\<lparr>bb_data := (bb_data b)[c := drop_bit (c mod 8) (xs ! (c + c div 8)) OR push_bit (8 - c mod 8) (xs ! (c + c div 8 + 1))],
           bb_parity := (bb_parity b)[c div 8 :=
             (if c mod 8 = 0 then of_bool (sbit xs (c * 9 + 8))
              else bb_parity b ! (c div 8) OR push_bit (c mod 8) (of_bool (sbit xs (c * 9 + 8))))]\<rparr>)"
proof -
  have par: "drop_bit (c mod 8) (xs ! (c + c div 8 + 1)) AND 1 = (of_bool (sbit xs (c * 9 + 8)) :: u8)"
    using unpacked_parity [of "c mod 8" xs "c + c div 8"] by (simp only: nine_split [symmetric] mod_less_divisor zero_less_numeral)
  have nine: "(8 :: nat) + 1 = 9" by simp
  have reads: "mem_read xs (c + c div 8) = Inr (xs ! (c + c div 8))"
      "mem_read xs (c + c div 8 + 1) = Inr (xs ! (c + c div 8 + 1))"
      "mem_read (bb_parity b) (c div 8) = Inr (bb_parity b ! (c div 8))"
    and writes: "\<And>v. mem_write (bb_data b) c v = Inr ((bb_data b)[c := v])"
      "\<And>v. mem_write (bb_parity b) (c div 8) v = Inr ((bb_parity b)[c div 8 := v])"
    using assms(3) wf_indices [OF assms(1,2)] unfolding nine_div_mod by (simp_all add: mem_read_def mem_write_def)
  show ?thesis
    unfolding copy_parity_step_def Let_def nine nine_div_mod reads writes checked_bind_simps par ..
qed

lemma copy_parity_step_unpacks:
  assumes "unpacked xs c b" "bb_wf b" "c < capacity_bytes b" "c * 9 div 8 + 1 < length xs"
    "copy_parity_step xs c b = Inr b'"
  shows "unpacked xs (Suc c) b'"
proof -
  let ?D = "drop_bit (c mod 8) (xs ! (c + c div 8)) OR push_bit (8 - c mod 8) (xs ! (c + c div 8 + 1))"
  let ?P = "if c mod 8 = 0 then of_bool (sbit xs (c * 9 + 8))
              else bb_parity b ! (c div 8) OR push_bit (c mod 8) (of_bool (sbit xs (c * 9 + 8)))"
  have low: "\<not> bit (bb_parity b ! (c div 8)) j" if "c mod 8 \<noteq> 0" "c mod 8 \<le> j" for j
    using assms(1) that by (simp add: unpacked_def)
  have old: "j < 8 \<Longrightarrow> bit (bb_data b ! k) j = sbit xs (k * 9 + j)"
    "bit (bb_parity b ! (k div 8)) (k mod 8) = sbit xs (k * 9 + 8)" if "k < c" for k j
    using assms(1) that by (simp_all add: unpacked_def)
  have b': "bb_data b' = (bb_data b)[c := ?D]" "bb_parity b' = (bb_parity b)[c div 8 := ?P]"
    using assms(5) unfolding copy_parity_step_value [OF assms(2-4)] by auto
  note idx = wf_indices [OF assms(2,3)]
  have D: "bit ?D j = sbit xs (c * 9 + j)" if "j < 8" for j
    using unpacked_byte [of "c mod 8" j xs "c + c div 8"] that by (simp only: nine_split [symmetric] mod_less_divisor zero_less_numeral)
  have P: "bit ?P j = (if j < c mod 8 then bit (bb_parity b ! (c div 8)) j else j = c mod 8 \<and> sbit xs (c * 9 + 8))" for j
    using low [of j] mod_less_divisor [of 8 c] by (cases "c mod 8 = 0") (auto simp: bit_iffs)
  show ?thesis
    unfolding unpacked_def
  proof (intro conjI allI impI)
    fix k j :: nat assume "k < Suc c" "j < 8"
    then show "bit (bb_data b' ! k) j = sbit xs (k * 9 + j)"
      using idx D old(1) [of k j] by (cases "k = c") (simp_all add: b')
  next
    fix k assume "k < Suc c"
    then consider "k = c" | "k < c" "k div 8 = c div 8" "k mod 8 < c mod 8" | "k < c" "k div 8 \<noteq> c div 8"
      by (metis less_antisym div_mult_mod_eq nat_add_left_cancel_less)
    then show "bit (bb_parity b' ! (k div 8)) (k mod 8) = sbit xs (k * 9 + 8)"
      by cases (use idx P old(2) [of k] in \<open>simp_all add: b'\<close>)
  next
    fix j assume "Suc c mod 8 \<noteq> 0" "Suc c mod 8 \<le> j"
    then have "Suc c div 8 = c div 8" "c mod 8 < j" by (auto simp: mod_Suc div_Suc split: if_splits)
    then show "\<not> bit (bb_parity b' ! (Suc c div 8)) j"
      using idx P by (simp add: b')
  qed
qed

lemma copy_parity_loop_unpacks:
  assumes "bb_wf b"
  shows "(\<And>c. c < k \<Longrightarrow> c < capacity_bytes b \<and> c * 9 div 8 + 1 < length xs) \<Longrightarrow>
    \<exists>b'. fold (\<lambda>i r. checked_bind r (copy_parity_step xs i)) [0..<k] (Inr b) = Inr b' \<and>
      bb_wf b' \<and> capacity_bytes b' = capacity_bytes b \<and> unpacked xs k b'"
proof (induction k)
  case 0
  then show ?case using assms by (simp add: unpacked_def)
next
  case (Suc k)
  then obtain b' where b': "fold (\<lambda>i r. checked_bind r (copy_parity_step xs i)) [0..<k] (Inr b) = Inr b'"
      "bb_wf b'" "capacity_bytes b' = capacity_bytes b" "unpacked xs k b'" by auto
  have k: "k < capacity_bytes b'" "k * 9 div 8 + 1 < length xs" using Suc.prems [of k] b'(3) by simp_all
  obtain b'' where b'': "copy_parity_step xs k b' = Inr b''"
    using copy_parity_step_value [OF b'(2) k] by blast
  then have "bb_wf b''" "capacity_bytes b'' = capacity_bytes b"
    using copy_parity_step_keeps [OF b'(2) k] b'(3) by (auto simp: keeps_wf_def)
  with copy_parity_step_unpacks [OF b'(4,2) k b''] b'(1) b'' show ?case by simp
qed

section \<open>Packing\<close>

definition packed :: "BitBuffer \<Rightarrow> nat \<Rightarrow> u8 list \<Rightarrow> bool" where
  "packed b c xs \<longleftrightarrow>
     (\<forall>k<c. (\<forall>j<8. sbit xs (k * 9 + j) = bit (bb_data b ! k) j) \<and>
            sbit xs (k * 9 + 8) = bit (bb_parity b ! (k div 8)) (k mod 8)) \<and>
     (c mod 8 \<noteq> 0 \<longrightarrow> (\<forall>j\<ge>c mod 8. \<not> bit (xs ! (c + c div 8)) j))"

text \<open>The two bytes a group of nine bits touches, whatever its offset.\<close>

lemma write_parity_step_value:
  assumes "c < length (bb_data b)" "c div 8 < length (bb_parity b)" "c + c div 8 + 1 < length xs" "c * 9 + 9 < 2 ^ 16"
  shows "write_parity_step b c (xs, of_nat (c * 9)) =
    Inr (xs[c + c div 8 := (if c mod 8 = 0 then bb_data b ! c else xs ! (c + c div 8) OR push_bit (c mod 8) (bb_data b ! c)),
            c + c div 8 + 1 := (if c mod 8 = 0 then 0 else drop_bit (8 - c mod 8) (bb_data b ! c)) OR
              push_bit (c mod 8) (of_bool (bit (bb_parity b ! (c div 8)) (c mod 8)))], of_nat (c * 9 + 9))"
proof -
  have u: "unat (of_nat (c * 9) :: u16) = c * 9" "unat (of_nat (c * 9) + 8 :: u16) = c * 9 + 8"
    using assms(4) by (simp_all add: unsigned_of_nat unat_word_ariths take_bit_nat_eq_self)
  have p8: "c mod 8 = 0 \<Longrightarrow> (c * 9 + 8) div 8 = c + c div 8 + 1"
    by (simp add: nine_div_mod)
  have par: "drop_bit (c mod 8) (bb_parity b ! (c div 8)) AND 1 = of_bool (bit (bb_parity b ! (c div 8)) (c mod 8))"
    by (simp add: bit_read_of_bool [unfolded bit_read_def])
  have par0: "w AND 1 = of_bool (bit w 0)" for w :: u8
    using bit_read_of_bool [of w 0] by (simp add: bit_read_def)
  have reads: "mem_read (bb_parity b) (c div 8) = Inr (bb_parity b ! (c div 8))" "mem_read (bb_data b) c = Inr (bb_data b ! c)"
    "mem_read xs (c + c div 8) = Inr (xs ! (c + c div 8))"
    using assms by (simp_all add: mem_read_def)
  have writes: "\<And>v. mem_write xs (c + c div 8) v = Inr (xs[c + c div 8 := v])"
    "\<And>v w. mem_write (xs[c + c div 8 := v]) (c + c div 8 + 1) w = Inr (xs[c + c div 8 := v, c + c div 8 + 1 := w])"
    using assms(3) by (simp_all add: mem_write_def)
  show ?thesis
  proof (cases "c mod 8 = 0")
    case True
    then show ?thesis
      unfolding write_parity_step_def prod.case Let_def u nine_div_mod p8 [OF True] reads par
      by (simp only: if_True checked_bind_simps writes par) (simp add: par0)
  next
    case False
    then show ?thesis
      unfolding write_parity_step_def prod.case Let_def u nine_div_mod reads par
      by (simp only: if_False checked_bind_simps writes par) simp
  qed
qed

lemma packed_bits:
  assumes "r < 8" "a + 1 < length xs" "j \<le> 8" "r \<noteq> 0 \<Longrightarrow> \<forall>i\<ge>r. \<not> bit (xs ! a) i"
  shows "sbit (xs[a := (if r = 0 then D else xs ! a OR push_bit r D),
      a + 1 := (if r = 0 then 0 else drop_bit (8 - r) D) OR push_bit r (of_bool q)]) (8 * a + r + j) =
    (if j < 8 then bit D j else q)"
proof -
  have "\<not> bit (xs ! a) (r + j)" if "r \<noteq> 0" using assms(4) that by simp
  moreover have "8 - r + (r + j - 8) = j" if "8 \<le> r + j" using that assms(1) by simp
  ultimately show ?thesis
    using assms(1-3) stream_position [OF assms(1,3), of a]
    by (cases "r + j < 8"; cases "r = 0"; cases "j < 8") (auto simp: sbit_update bit_iffs)
qed

lemma packed_before:
  assumes "r < 8" "a + 1 < length xs" "t < 8 * a + r"
  shows "sbit (xs[a := (if r = 0 then D else xs ! a OR push_bit r D), a + 1 := w]) t = sbit xs t"
proof -
  define k m where "k = t div 8" and "m = t mod 8"
  have t: "t = 8 * k + m" "m < 8" by (simp_all add: k_def m_def)
  then have "k < a \<or> k = a \<and> m < r" using assms(1,3) by linarith
  then have "t div 8 < a \<or> t div 8 = a \<and> t mod 8 < r" by (simp only: k_def m_def)
  then show ?thesis
    using assms(2) by (auto simp: sbit_update sbit_def [of xs] bit_iffs)
qed

lemma write_parity_step_packs:
  assumes "packed b c xs" "c < length (bb_data b)" "c div 8 < length (bb_parity b)" "c + c div 8 + 1 < length xs"
    "c * 9 + 9 < 2 ^ 16" "write_parity_step b c (xs, of_nat (c * 9)) = Inr (ys, pos)"
  shows "packed b (Suc c) ys \<and> length ys = length xs \<and> pos = of_nat (Suc c * 9)"
proof -
  let ?a = "c + c div 8" and ?r = "c mod 8"
  let ?q = "bit (bb_parity b ! (c div 8)) ?r" and ?D = "bb_data b ! c"
  have ys: "ys = xs[?a := (if ?r = 0 then ?D else xs ! ?a OR push_bit ?r ?D),
      ?a + 1 := (if ?r = 0 then 0 else drop_bit (8 - ?r) ?D) OR push_bit ?r (of_bool ?q)]"
    and pos: "pos = of_nat (c * 9 + 9)"
    using assms(6) unfolding write_parity_step_value [OF assms(2-5)] by auto
  have r: "?r < 8" by simp
  have zero: "?r \<noteq> 0 \<Longrightarrow> \<forall>i\<ge>?r. \<not> bit (xs ! ?a) i"
    using assms(1) by (simp add: packed_def)
  have new: "sbit ys (c * 9 + j) = (if j < 8 then bit ?D j else ?q)" if "j \<le> 8" for j
    unfolding ys nine_split [of c] by (rule packed_bits [OF r assms(4) that zero])
  have old: "sbit ys t = sbit xs t" if "t < c * 9" for t
    unfolding ys using packed_before [OF r assms(4)] that unfolding nine_split [of c] .
  have "packed b (Suc c) ys"
    unfolding packed_def
  proof (intro conjI allI impI)
    fix k j :: nat assume k: "k < Suc c" "j < 8"
    then have "k < c \<Longrightarrow> k * 9 + j < c * 9" by linarith
    then show "sbit ys (k * 9 + j) = bit (bb_data b ! k) j"
      using k new [of j] old [of "k * 9 + j"] assms(1) by (cases "k = c") (auto simp: packed_def)
  next
    fix k assume k: "k < Suc c"
    then have "k < c \<Longrightarrow> k * 9 + 8 < c * 9" by linarith
    then show "sbit ys (k * 9 + 8) = bit (bb_parity b ! (k div 8)) (k mod 8)"
      using k new [of 8] old [of "k * 9 + 8"] assms(1) by (cases "k = c") (auto simp: packed_def)
  next
    fix j assume "Suc c mod 8 \<noteq> 0" "Suc c mod 8 \<le> j"
    then have c: "Suc c div 8 = c div 8" "?r < j" by (auto simp: mod_Suc div_Suc split: if_splits)
    have "ys ! (?a + 1) = (if ?r = 0 then 0 else drop_bit (8 - ?r) ?D) OR push_bit ?r (of_bool ?q)"
      unfolding ys using assms(4) by simp
    then show "\<not> bit (ys ! (Suc c + Suc c div 8)) j"
      using c by (auto simp: bit_iffs)
  qed
  then show ?thesis using pos by (simp add: ys add.commute)
qed

lemma write_parity_loop:
  assumes "\<And>c. c < n \<Longrightarrow> c < length (bb_data b) \<and> c div 8 < length (bb_parity b) \<and> c + c div 8 + 1 < length xs \<and> c * 9 + 9 < 2 ^ 16"
    and "m \<le> n"
  shows "\<exists>ys. fold (\<lambda>i r. checked_bind r (write_parity_step b i)) [0..<m] (Inr (xs, 0)) = Inr (ys, of_nat (m * 9)) \<and>
      length ys = length xs \<and> packed b m ys"
  using assms(2)
proof (induction m)
  case 0
  then show ?case by (simp add: packed_def)
next
  case (Suc m)
  then obtain ys where ys: "fold (\<lambda>i r. checked_bind r (write_parity_step b i)) [0..<m] (Inr (xs, 0)) = Inr (ys, of_nat (m * 9))"
      "length ys = length xs" "packed b m ys" by auto
  have m: "m < length (bb_data b)" "m div 8 < length (bb_parity b)" "m + m div 8 + 1 < length ys" "m * 9 + 9 < 2 ^ 16"
    using assms(1) [of m] Suc.prems ys(2) by simp_all
  obtain zs pos where "write_parity_step b m (ys, of_nat (m * 9)) = Inr (zs, pos)"
    using write_parity_step_value [OF m] by blast
  with write_parity_step_packs [OF ys(3) m this] ys(1,2) show ?case by auto
qed

text \<open>
  C20 Packing and unpacking with parity: a byte-aligned buffer of \<open>n\<close> bytes, from 1 to 7281, is written
  as a stream of exactly \<open>9 * n\<close> bits, and copying that stream into any well-formed buffer that has room
  for \<open>n\<close> bytes gives the same bytes and the same parity bits. Neither direction leaves its memory.
  The bounds are the code's: a stream of fewer than nine bits is copied as a single short byte, and the
  writer's bit position is a \<open>uint16_t\<close>, which wraps at the 7282nd byte (\<open>9 * n\<close> no longer fits 16 bits).
\<close>

theorem parity_stream_roundtrip:
  assumes "aligned b" "n = length (contents b)" "0 < n" "n * 9 < 2 ^ 16"
    and "(n * 9 + 8) div 8 \<le> length dest" "bb_wf b2" "n \<le> capacity_bytes b2"
  shows "\<exists>stream b'. bit_buffer_write_bytes_with_parity b dest (length dest) = Inr (stream, n * 9) \<and>
    length stream = length dest \<and>
    bit_buffer_copy_bytes_with_parity b2 stream (n * 9) = Inr b' \<and> aligned b' \<and> contents b' = contents b \<and>
    (\<forall>k<n. bit (bb_parity b' ! (k div 8)) (k mod 8) = bit (bb_parity b ! (k div 8)) (k mod 8))"
proof -
  have wf: "bb_wf b" and n: "n = bit_buffer_get_size_bytes b"
    using assms(1,2) by (simp_all add: aligned_def length_contents)
  have cap: "n \<le> capacity_bytes b" using size_bytes_le [OF wf] n by simp
  have stream_idx: "c + c div 8 + 1 < length dest" if "c < n" for c
    using that assms(5) nine_div_mod(1) [of c] by linarith
  have w: "c < length (bb_data b) \<and> c div 8 < length (bb_parity b) \<and> c + c div 8 + 1 < length dest \<and> c * 9 + 9 < 2 ^ 16"
    if c: "c < n" for c
  proof -
    have "c * 9 + 9 < 2 ^ 16" using c assms(4) by linarith
    then show ?thesis using wf_indices [OF wf, of c] cap stream_idx [OF c] c by simp
  qed
  obtain ys where ys: "fold (\<lambda>i r. checked_bind r (write_parity_step b i)) [0..<n] (Inr (dest, 0)) = Inr (ys, of_nat (n * 9))"
      "length ys = length dest" "packed b n ys"
    using write_parity_loop [of n b dest n, OF w] by blast
  have pos: "unat (of_nat (n * 9) :: u16) = n * 9"
    using assms(4) by (simp only: unsigned_of_nat) (simp add: take_bit_nat_eq_self)
  have "bit_buffer_write_bytes_with_parity b dest (length dest) = Inr (ys, n * 9)"
    using assms(5) ys(1) n [symmetric] pos
    by (simp add: bit_buffer_write_bytes_with_parity_def Let_def)
  moreover obtain b' where b': "fold (\<lambda>i r. checked_bind r (copy_parity_step ys i)) [0..<n] (Inr b2) = Inr b'"
      "bb_wf b'" "capacity_bytes b' = capacity_bytes b2" "unpacked ys n b'"
    using copy_parity_loop_unpacks [OF assms(6), of n ys] stream_idx assms(7) ys(2) by (auto simp: nine_div_mod)
  let ?b = "b'\<lparr>size_bits := n * 8\<rparr>"
  have "\<not> n * 9 < 9" using assms(3) by simp
  then have "bit_buffer_copy_bytes_with_parity b2 ys (n * 9) = Inr ?b"
    using b'(1) by (simp add: bit_buffer_copy_bytes_with_parity_def)
  moreover have al: "aligned ?b" "contents ?b = take n (bb_data b')"
    using set_aligned [of ?b n] b'(2,3) assms(7) by (simp_all add: bb_wf_def)
  moreover have "take n (bb_data b') = contents b"
  proof (rule nth_equalityI)
    show "length (take n (bb_data b')) = length (contents b)"
      using al length_contents [of ?b] assms(2) b'(2,3) assms(7) by (simp add: bb_wf_def)
    fix i assume "i < length (take n (bb_data b'))"
    then have i: "i < n" by simp
    have "bb_data b' ! i = bb_data b ! i"
    proof (rule bit_word_eqI)
      fix j assume "j < LENGTH(8)"
      then show "bit (bb_data b' ! i) j = bit (bb_data b ! i) j"
        using b'(4) ys(3) i by (simp add: unpacked_def packed_def)
    qed
    with i n show "take n (bb_data b') ! i = contents b ! i"
      by (simp add: contents_def)
  qed
  moreover have "bit (bb_parity ?b ! (k div 8)) (k mod 8) = bit (bb_parity b ! (k div 8)) (k mod 8)" if "k < n" for k
    using b'(4) ys(3) that by (simp add: unpacked_def packed_def)
  ultimately show ?thesis using ys(2) by auto
qed

definition sample_buffer :: BitBuffer where
  "sample_buffer = \<lparr>bb_data = [0x26, 0x93, 0, 0], bb_parity = [2], capacity_bytes = 4, size_bits = 16\<rparr>"

lemma sample_buffer_aligned: "aligned sample_buffer" "contents sample_buffer = [0x26, 0x93]" "bb_wf sample_buffer"
  by (simp_all add: sample_buffer_def aligned_def bb_wf_def contents_def bit_buffer_get_size_bytes_def)

theorem parity_stream_roundtrip_witness:
  "aligned sample_buffer \<and>
   (\<exists>stream b'. bit_buffer_write_bytes_with_parity sample_buffer [0xFF, 0xFF, 0xFF] 3 = Inr (stream, 18) \<and>
     bit_buffer_copy_bytes_with_parity sample_buffer stream 18 = Inr b' \<and> contents b' = [0x26, 0x93])"
  using parity_stream_roundtrip [of sample_buffer 2 "[0xFF, 0xFF, 0xFF]" sample_buffer] sample_buffer_aligned
  by (auto simp: sample_buffer_def numeral_3_eq_3)

theorem bit_buffer_list_model_witness:
  "aligned sample_buffer \<and> (\<exists>b'. bit_buffer_append sample_buffer sample_buffer = Inr b' \<and> contents b' = [0x26, 0x93, 0x26, 0x93])"
  using bit_buffer_list_model [OF sample_buffer_aligned(1) sample_buffer_aligned(1)] sample_buffer_aligned
  by (auto simp: sample_buffer_def)

section \<open>Single bits\<close>

text \<open>
  Appending a bit to a buffer with room stores it behind the others without disturbing them when
  the bit is one; a zero is not stored: the position keeps the bit the memory held before, so the value
  read back is the disjunction of the appended bit and the stale one.
\<close>

theorem append_bit_value:
  assumes "bb_wf b" "size_bits b < capacity_bytes b * 8"
  shows "\<exists>b'. bit_buffer_append_bit b x = Inr b' \<and> bb_wf b' \<and> size_bits b' = size_bits b + 1 \<and>
    (\<forall>t < size_bits b. sbit (bb_data b') t = sbit (bb_data b) t) \<and>
    sbit (bb_data b') (size_bits b) = (x \<or> sbit (bb_data b) (size_bits b))"
proof -
  have idx: "size_bits b div 8 < length (bb_data b)"
    using assms by (simp add: bb_wf_def less_mult_imp_div_less)
  have chk: "bit_buffer_get_size_bytes b \<le> capacity_bytes b - (if bit_buffer_has_partial_byte b then 0 else 1)"
  proof (cases "bit_buffer_has_partial_byte b")
    case True
    then show ?thesis using size_bytes_le [OF assms(1)] by simp
  next
    case False
    then have "bit_buffer_get_size_bytes b * 8 = size_bits b"
      by (auto simp: bit_buffer_has_partial_byte_def bit_buffer_get_size_bytes_def)
    with False assms(2) show ?thesis by simp
  qed
  obtain b' where b': "bit_buffer_append_bit b x = Inr b'" "size_bits b' = size_bits b + 1"
    "bb_data b' = (if x then (bb_data b)[size_bits b div 8 := bb_data b ! (size_bits b div 8) OR push_bit (size_bits b mod 8) 1]
       else bb_data b)"
    using chk idx by (cases x) (simp_all add: bit_buffer_append_bit_def Let_def mem_read_def mem_write_def)
  have "bb_wf b'"
    using bit_ops_keep(2) [OF assms(1), of x] b'(1) by (simp add: keeps_wf_def)
  moreover have "sbit (bb_data b') t = sbit (bb_data b) t" if "t < size_bits b" for t
  proof -
    have "\<not> (t div 8 = size_bits b div 8 \<and> t mod 8 = size_bits b mod 8)"
      using that by (metis div_mult_mod_eq less_irrefl)
    then show ?thesis
      using idx by (auto simp: b'(3) sbit_update sbit_def [of "bb_data b"] bit_iffs bit_exp_iff)
  qed
  moreover have "sbit (bb_data b') (size_bits b) = (x \<or> sbit (bb_data b) (size_bits b))"
    using idx by (auto simp: b'(3) sbit_update sbit_def [of "bb_data b"] bit_iffs bit_exp_iff)
  ultimately show ?thesis using b' by blast
qed

text \<open>The stale bit is real: shrink a buffer and append a zero.\<close>

theorem append_bit_value_witness:
  "bb_wf (sample_buffer\<lparr>size_bits := 1\<rparr>) \<and>
   (\<exists>b'. bit_buffer_append_bit (sample_buffer\<lparr>size_bits := 1\<rparr>) False = Inr b' \<and> size_bits b' = 2 \<and> sbit (bb_data b') 1)"
proof -
  have w: "bb_wf (sample_buffer\<lparr>size_bits := 1\<rparr>)"
    by (simp add: sample_buffer_def bb_wf_def)
  show ?thesis
    using append_bit_value [OF w, of False] w by (auto simp: sample_buffer_def sbit_def)
qed

text \<open>
  C30 Reading a byte at a bit position gives the eight bits from there on; the routine reads the byte
  behind the one it starts in unconditionally, so at every position in the last byte of the allocated
  block it passes its own check and reads past the end.
\<close>

theorem get_byte_from_bit_value:
  assumes "bb_wf b" "i < capacity_bytes b * 8"
  shows "if i div 8 + 1 < capacity_bytes b
    then \<exists>v. bit_buffer_get_byte_from_bit b i = Inr v \<and> (\<forall>j<8. bit v j = sbit (bb_data b) (i + j))
    else bit_buffer_get_byte_from_bit b i = Inl Out_Of_Bounds"
proof -
  have len: "length (bb_data b) = capacity_bytes b" using assms(1) by (simp add: bb_wf_def)
  have first: "i div 8 < capacity_bytes b" using assms(2) by (simp add: less_mult_imp_div_less)
  have "bit (drop_bit (i mod 8) (bb_data b ! (i div 8)) OR push_bit (8 - i mod 8) (bb_data b ! (i div 8 + 1))) j =
      sbit (bb_data b) (i + j)" if "j < 8" for j
    using unpacked_byte [of "i mod 8" j "bb_data b" "i div 8"] that by simp
  then show ?thesis
    using assms(2) len first by (auto simp: bit_buffer_get_byte_from_bit_def Let_def mem_read_def)
qed

theorem get_byte_from_bit_value_witness:
  "bb_wf sample_buffer \<and> (24 :: nat) < capacity_bytes sample_buffer * 8 \<and>
   bit_buffer_get_byte_from_bit sample_buffer 24 = Inl Out_Of_Bounds"
  using get_byte_from_bit_value [OF sample_buffer_aligned(3), of 24] sample_buffer_aligned(3)
  by (simp add: sample_buffer_def)

end
