(* ===== verification/Nfc_Crc.thy ===== *)
theory Nfc_Crc
  imports Bit_Buffer Subghz_Math
begin

text \<open>
  The frame checksums of the NFC stack and of the one-wire bus:
  \<^verbatim>\<open>lib/nfc/helpers/iso14443_crc.c\<close>, \<^verbatim>\<open>iso13239_crc.c\<close>, \<^verbatim>\<open>felica_crc.c\<close> and
  \<^verbatim>\<open>lib/one_wire/maxim_crc.c\<close>. A frame is a \<open>BitBuffer\<close>; its checksum is
  appended in the byte order of the processor, least significant byte first. \<open>furi_assert\<close> is
  compiled out of the firmware, so only \<open>furi_check\<close> is a check here.
\<close>

section \<open>Definitions\<close>

datatype Iso14443CrcType = Iso14443CrcTypeA | Iso14443CrcTypeB
datatype Iso13239CrcType = Iso13239CrcTypeDefault | Iso13239CrcTypePicopass

text \<open>\<open>(const uint8_t*)&crc\<close> with a size of two bytes.\<close>

definition crc_bytes :: "u16 \<Rightarrow> u8 list" where
  "crc_bytes crc = [ucast crc, ucast (drop_bit 8 crc)]"

definition iso14443_byte :: "u8 \<Rightarrow> u16 \<Rightarrow> u16" where
  "iso14443_byte byte crc =
     (let byte = byte XOR ucast (crc AND 0xFF);
          byte = byte XOR push_bit 4 byte
      in drop_bit 8 crc XOR push_bit 8 (ucast byte) XOR push_bit 3 (ucast byte) XOR ucast (drop_bit 4 byte))"

definition iso14443_crc_calculate :: "Iso14443CrcType \<Rightarrow> u8 list \<Rightarrow> u16" where
  "iso14443_crc_calculate type data =
     (let crc = fold iso14443_byte data (case type of Iso14443CrcTypeA \<Rightarrow> 0x6363 | Iso14443CrcTypeB \<Rightarrow> 0xFFFF)
      in case type of Iso14443CrcTypeA \<Rightarrow> crc | Iso14443CrcTypeB \<Rightarrow> NOT crc)"

definition iso14443_crc_append :: "Iso14443CrcType \<Rightarrow> BitBuffer \<Rightarrow> BitBuffer checked" where
  "iso14443_crc_append type buf =
     (let data = take (bit_buffer_get_size_bytes buf) (bit_buffer_get_data buf)
      in bit_buffer_append_bytes buf (crc_bytes (iso14443_crc_calculate type data)) 2)"

definition iso14443_crc_check :: "Iso14443CrcType \<Rightarrow> BitBuffer \<Rightarrow> bool checked" where
  "iso14443_crc_check type buf =
     (let data_size = bit_buffer_get_size_bytes buf in
      if data_size \<le> 2 then Inr False
      else checked_bind (bit_buffer_write_bytes_mid buf [0, 0] (data_size - 2) 2) (\<lambda>crc_received.
           Inr (crc_bytes (iso14443_crc_calculate type (take (data_size - 2) (bit_buffer_get_data buf))) = crc_received)))"

definition iso14443_crc_trim :: "BitBuffer \<Rightarrow> BitBuffer checked" where
  "iso14443_crc_trim buf =
     furi_check (bit_buffer_get_size_bytes buf > 2)
       (bit_buffer_set_size_bytes buf (bit_buffer_get_size_bytes buf - 2))"

definition iso13239_crc_calculate :: "Iso13239CrcType \<Rightarrow> u8 list \<Rightarrow> u16" where
  "iso13239_crc_calculate type data =
     (let crc = fold (\<lambda>byte crc. (crc_shr 0x8408 ^^ 8) (crc XOR ucast byte)) data
            (case type of Iso13239CrcTypeDefault \<Rightarrow> 0xFFFF | Iso13239CrcTypePicopass \<Rightarrow> 0xE012)
      in case type of Iso13239CrcTypePicopass \<Rightarrow> crc | Iso13239CrcTypeDefault \<Rightarrow> NOT crc)"

definition iso13239_crc_append :: "Iso13239CrcType \<Rightarrow> BitBuffer \<Rightarrow> BitBuffer checked" where
  "iso13239_crc_append type buf =
     (let data = take (bit_buffer_get_size_bytes buf) (bit_buffer_get_data buf)
      in bit_buffer_append_bytes buf (crc_bytes (iso13239_crc_calculate type data)) 2)"

definition iso13239_crc_check :: "Iso13239CrcType \<Rightarrow> BitBuffer \<Rightarrow> bool checked" where
  "iso13239_crc_check type buf =
     (let data_size = bit_buffer_get_size_bytes buf in
      if data_size \<le> 2 then Inr False
      else checked_bind (bit_buffer_write_bytes_mid buf [0, 0] (data_size - 2) 2) (\<lambda>crc_received.
           Inr (crc_bytes (iso13239_crc_calculate type (take (data_size - 2) (bit_buffer_get_data buf))) = crc_received)))"

definition iso13239_crc_trim :: "BitBuffer \<Rightarrow> BitBuffer checked" where
  "iso13239_crc_trim buf =
     bit_buffer_set_size_bytes buf (nat ((int (bit_buffer_get_size_bytes buf) - 2) mod 2 ^ 32))"

definition felica_crc_calculate :: "u8 list \<Rightarrow> u16" where
  "felica_crc_calculate data =
     (let crc = fold (\<lambda>byte crc. (crc_shl 15 0x1021 ^^ 8) (crc XOR push_bit 8 (ucast byte))) data 0x0000
      in push_bit 8 crc OR drop_bit 8 crc)"

definition felica_crc_append :: "BitBuffer \<Rightarrow> BitBuffer checked" where
  "felica_crc_append buf =
     (let data = take (bit_buffer_get_size_bytes buf) (bit_buffer_get_data buf)
      in bit_buffer_append_bytes buf (crc_bytes (felica_crc_calculate data)) 2)"

definition felica_crc_check :: "BitBuffer \<Rightarrow> bool checked" where
  "felica_crc_check buf =
     (let data_size = bit_buffer_get_size_bytes buf in
      if data_size \<le> 2 then Inr False
      else checked_bind (bit_buffer_write_bytes_mid buf [0, 0] (data_size - 2) 2) (\<lambda>crc_received.
           Inr (crc_bytes (felica_crc_calculate (take (data_size - 2) (bit_buffer_get_data buf))) = crc_received)))"

definition felica_crc_trim :: "BitBuffer \<Rightarrow> BitBuffer checked" where
  "felica_crc_trim buf =
     bit_buffer_set_size_bytes buf (nat ((int (bit_buffer_get_size_bytes buf) - 2) mod 2 ^ 32))"

text \<open>One bit of \<open>maxim_crc8\<close>; the state is \<open>(crc, input_byte)\<close>.\<close>

definition maxim_bit :: "u8 \<times> u8 \<Rightarrow> u8 \<times> u8" where
  "maxim_bit s =
     (let mix = (fst s XOR snd s) AND 0x01; crc = drop_bit 1 (fst s)
      in (if mix \<noteq> 0 then crc XOR 0x8C else crc, drop_bit 1 (snd s)))"

definition maxim_crc8 :: "u8 list \<Rightarrow> u8 \<Rightarrow> u8" where
  "maxim_crc8 data crc_init = fold (\<lambda>byte crc. fst ((maxim_bit ^^ 8) (crc, byte))) data crc_init"

section \<open>The table-free byte step of ISO 14443\<close>

lemma crc_shr_xor: "crc_shr p (a XOR b) = crc_shr p a XOR crc_shr p b"
  by (rule bit_word_eqI) (auto simp: crc_shr_def bit_iffs)

lemma crc_shr_pow_xor: "(crc_shr p ^^ n) (a XOR b) = (crc_shr p ^^ n) a XOR (crc_shr p ^^ n) b"
  by (induction n) (simp_all add: crc_shr_xor)

lemma crc_shr_pow_high: "(\<And>i. i < n \<Longrightarrow> \<not> bit w i) \<Longrightarrow> (crc_shr p ^^ n) w = drop_bit n w"
proof (induction n)
  case (Suc n)
  then show ?case by (simp add: crc_shr_def bit_iffs)
qed simp

lemma bit_crc_shr: "bit (crc_shr p w) n \<longleftrightarrow> bit w (Suc n) \<noteq> (bit w 0 \<and> bit p n)"
  by (simp add: crc_shr_def bit_iffs)

lemma eight_times: "(f ^^ 8) x = f (f (f (f (f (f (f (f x)))))))"
  by (simp add: eval_nat_numeral)

lemma iso14443_low_byte:
  fixes lo :: u8
  defines "b \<equiv> lo XOR push_bit 4 lo"
  shows "(crc_shr 0x8408 ^^ 8) (ucast lo) = push_bit 8 (ucast b) XOR push_bit 3 (ucast b) XOR (ucast (drop_bit 4 b) :: u16)"
proof (rule bit_word_eqI)
  fix n assume "n < LENGTH(16)"
  then have "n < 16" by simp
  then show "bit ((crc_shr 0x8408 ^^ 8) (ucast lo) :: u16) n =
      bit (push_bit 8 (ucast b) XOR push_bit 3 (ucast b) XOR (ucast (drop_bit 4 b) :: u16)) n"
    unfolding eight_times b_def
    by (rule less_16_cases) (simp_all add: bit_crc_shr bit_iffs numeral_2_eq_2 [symmetric])
qed

lemma iso14443_byte_crc16lsb: "iso14443_byte m r = crc16lsb_byte 0x8408 m r"
proof -
  let ?x = "r XOR ucast m" and ?lo = "m XOR ucast (r AND 0xFF) :: u8"
  have split: "?x = push_bit 8 (drop_bit 8 r) XOR ucast ?lo"
  proof (rule bit_word_eqI)
    fix n assume "n < LENGTH(16)"
    then have "n < 16" by simp
    then show "bit ?x n = bit (push_bit 8 (drop_bit 8 r) XOR ucast ?lo) n"
      by (rule less_16_cases) (auto simp: bit_iffs)
  qed
  have "crc16lsb_byte 0x8408 m r = (crc_shr 0x8408 ^^ 8) (push_bit 8 (drop_bit 8 r)) XOR (crc_shr 0x8408 ^^ 8) (ucast ?lo)"
    by (simp only: crc16lsb_byte_def split crc_shr_pow_xor)
  also have "(crc_shr 0x8408 ^^ 8) (push_bit 8 (drop_bit 8 r)) = drop_bit 8 r"
  proof (subst crc_shr_pow_high)
    show "drop_bit 8 (push_bit 8 (drop_bit 8 r)) = drop_bit 8 r"
    proof (rule bit_word_eqI)
      fix n assume "n < LENGTH(16)"
      then show "bit (drop_bit 8 (push_bit 8 (drop_bit 8 r))) n = bit (drop_bit 8 r) n"
        by (cases "n < 8") (simp_all add: bit_iffs)
    qed
  qed (simp add: bit_iffs)
  finally show ?thesis
    by (simp only: iso14443_byte_def Let_def iso14443_low_byte xor.assoc)
qed

section \<open>The bit loop of the one-wire checksum\<close>

lemma maxim_bit_step: "maxim_bit (a XOR d, d) = (crc_shr 0x8C a XOR drop_bit 1 d, drop_bit 1 d)"
proof -
  have "(a XOR d XOR d) AND 1 \<noteq> 0 \<longleftrightarrow> bit a 0"
    using bit_read_of_bool [of a 0] by (simp add: bit_read_def xor.assoc)
  moreover have "drop_bit 1 (a XOR d) = drop_bit 1 a XOR drop_bit 1 d"
    by (simp add: drop_bit_xor)
  ultimately show ?thesis
    by (simp add: maxim_bit_def Let_def crc_shr_def ac_simps)
qed

lemma maxim_bits:
  "(maxim_bit ^^ n) (crc, m) =
     ((crc_shr 0x8C ^^ n) (crc XOR m) XOR drop_bit n m, drop_bit n m)"
  by (induction n) (simp_all add: maxim_bit_step xor.assoc)

lemma maxim_byte: "fst ((maxim_bit ^^ 8) (crc, m)) = crc8le_byte 0x8C m crc"
proof -
  have "drop_bit 8 m = 0" by (rule bit_word_eqI) (simp add: bit_iffs)
  then show ?thesis unfolding maxim_bits crc8le_byte_def by simp
qed

text \<open>
  C26 The optimised checksum loops compute the textbook registers: the table-free byte step of ISO 14443
  is eight steps of the reflected CRC-16 with polynomial \<open>0x8408\<close>, the same register
  ISO 13239 runs bit by bit, and the one-wire loop is the reflected CRC-8 with polynomial \<open>0x31\<close>.
\<close>

theorem nfc_crc_registers:
  "iso14443_crc_calculate Iso14443CrcTypeA data = subghz_protocol_blocks_crc16lsb data 0x8408 0x6363 \<and>
   iso14443_crc_calculate Iso14443CrcTypeB data = iso13239_crc_calculate Iso13239CrcTypeDefault data \<and>
   iso13239_crc_calculate Iso13239CrcTypePicopass data = subghz_protocol_blocks_crc16lsb data 0x8408 0xE012 \<and>
   maxim_crc8 data 0 = subghz_protocol_blocks_crc8le data 0x31 0"
proof (intro conjI)
  have fold: "fold iso14443_byte data = fold (crc16lsb_byte 0x8408) data"
    by (rule arg_cong [where f = "\<lambda>f. fold f data"]) (intro ext, rule iso14443_byte_crc16lsb)
  show "iso14443_crc_calculate Iso14443CrcTypeA data = subghz_protocol_blocks_crc16lsb data 0x8408 0x6363"
    by (simp add: iso14443_crc_calculate_def subghz_protocol_blocks_crc16lsb_def fold)
  show "iso14443_crc_calculate Iso14443CrcTypeB data = iso13239_crc_calculate Iso13239CrcTypeDefault data"
    by (simp add: iso14443_crc_calculate_def iso13239_crc_calculate_def fold crc16lsb_byte_def [abs_def])
  show "iso13239_crc_calculate Iso13239CrcTypePicopass data = subghz_protocol_blocks_crc16lsb data 0x8408 0xE012"
    by (simp add: iso13239_crc_calculate_def subghz_protocol_blocks_crc16lsb_def crc16lsb_byte_def [abs_def])
  have "ucast (subghz_protocol_blocks_reverse_key (ucast (0x31 :: u8)) 8) = (0x8C :: u8)"
       "ucast (subghz_protocol_blocks_reverse_key (ucast (0 :: u8)) 8) = (0 :: u8)"
    by code_simp+
  then show "maxim_crc8 data 0 = subghz_protocol_blocks_crc8le data 0x31 0"
    by (simp add: maxim_crc8_def subghz_protocol_blocks_crc8le_def maxim_byte)
qed

section \<open>Checksummed frames\<close>

text \<open>What the check of a frame amounts to, on its bytes.\<close>

definition frame_ok :: "(u8 list \<Rightarrow> u16) \<Rightarrow> u8 list \<Rightarrow> bool" where
  "frame_ok calc xs \<longleftrightarrow> 2 < length xs \<and> crc_bytes (calc (take (length xs - 2) xs)) = drop (length xs - 2) xs"

lemma crc_bytes_inj: "crc_bytes a = crc_bytes b \<longleftrightarrow> a = b"
proof
  assume eq: "crc_bytes a = crc_bytes b"
  show "a = b"
  proof (rule bit_word_eqI)
    fix n assume "n < LENGTH(16)"
    then show "bit a n = bit b n"
      using arg_cong [of _ _ "\<lambda>w. bit w n", OF eq [unfolded crc_bytes_def list.inject, THEN conjunct1]]
        arg_cong [of _ _ "\<lambda>w. bit w (n - 8)", OF eq [unfolded crc_bytes_def list.inject, THEN conjunct2, THEN conjunct1]]
      by (cases "n < 8") (auto simp: bit_iffs)
  qed
qed simp

lemma length_crc_bytes [simp]: "length (crc_bytes a) = 2"
  by (simp add: crc_bytes_def)

text \<open>
  The contract of a checksum codec on frames. The three modules have the same shape with different
  checksums, so what they promise is proved once.
\<close>

locale crc_codec =
  fixes calc :: "u8 list \<Rightarrow> u16"
    and append :: "BitBuffer \<Rightarrow> BitBuffer checked"
    and check :: "BitBuffer \<Rightarrow> bool checked"
    and trim :: "BitBuffer \<Rightarrow> BitBuffer checked"
  assumes append_is: "aligned b \<Longrightarrow> append b = bit_buffer_append_bytes b (crc_bytes (calc (contents b))) 2"
    and check_is: "aligned b \<Longrightarrow> check b = Inr (frame_ok calc (contents b))"
    and trim_is: "aligned b \<Longrightarrow> 2 < length (contents b) \<Longrightarrow> trim b = bit_buffer_set_size_bytes b (length (contents b) - 2)"
    and single: "m \<noteq> n \<Longrightarrow> calc (xs @ m # ys) \<noteq> calc (xs @ n # ys)"
begin

lemma codec_roundtrip:
  assumes "aligned b" "0 < length (contents b)" "length (contents b) + 2 \<le> capacity_bytes b"
  shows "\<exists>b' b''. append b = Inr b' \<and> aligned b' \<and> contents b' = contents b @ crc_bytes (calc (contents b)) \<and>
    check b' = Inr True \<and> trim b' = Inr b'' \<and> aligned b'' \<and> contents b'' = contents b"
proof -
  let ?t = "crc_bytes (calc (contents b))"
  obtain b' b'' where b: "bit_buffer_append_bytes b ?t 2 = Inr b'" "aligned b'" "contents b' = contents b @ ?t"
    "bit_buffer_set_size_bytes b' (length (contents b') - 2) = Inr b''" "aligned b''" "contents b'' = contents b"
    using frame.trailer_roundtrip [OF assms(1), of ?t] assms(3) by auto
  moreover have "frame_ok calc (contents b')"
    using assms(2) by (simp add: frame_ok_def b(3))
  moreover have "2 < length (contents b')"
    using assms(2) by (simp add: b(3))
  ultimately show ?thesis
    using append_is [OF assms(1)] check_is [OF b(2)] trim_is [OF b(2)] by auto
qed

lemma corrupted_byte_detected:
  assumes "aligned b" "aligned c" "check b = Inr True" "i < length (contents b)" "x \<noteq> contents b ! i"
    and "contents c = (contents b)[i := x]"
  shows "check c = Inr False"
proof -
  let ?xs = "contents b" and ?n = "length (contents b) - 2"
  have ok: "2 < length ?xs" "crc_bytes (calc (take ?n ?xs)) = drop ?n ?xs"
    using assms(3) check_is [OF assms(1)] by (auto simp: frame_ok_def)
  have "\<not> frame_ok calc (?xs[i := x])"
  proof (cases "i < ?n")
    case True
    then have "take ?n ?xs = take i ?xs @ ?xs ! i # drop (Suc i) (take ?n ?xs)"
      using assms(4) id_take_nth_drop [of i "take ?n ?xs"] by simp
    moreover have "take ?n (?xs[i := x]) = take i ?xs @ x # drop (Suc i) (take ?n ?xs)"
      using True assms(4) upd_conv_take_nth_drop [of i "take ?n ?xs" x] by (simp add: take_update_swap)
    ultimately have "calc (take ?n (?xs[i := x])) \<noteq> calc (take ?n ?xs)"
      using single [OF assms(5)] by metis
    moreover have "drop ?n (?xs[i := x]) = drop ?n ?xs"
      using True by (simp add: drop_update_cancel)
    ultimately show ?thesis
      using ok by (auto simp: frame_ok_def crc_bytes_inj dest!: trans [OF _ ok(2) [symmetric]])
  next
    case False
    then have "take ?n (?xs[i := x]) = take ?n ?xs" by (simp add: take_update_cancel)
    moreover have "drop ?n (?xs[i := x]) \<noteq> drop ?n ?xs"
    proof
      assume "drop ?n (?xs[i := x]) = drop ?n ?xs"
      then have "drop ?n (?xs[i := x]) ! (i - ?n) = drop ?n ?xs ! (i - ?n)" by simp
      then show False using False assms(4,5) by simp
    qed
    ultimately show ?thesis using ok by (auto simp: frame_ok_def)
  qed
  then show ?thesis using check_is [OF assms(2)] assms(6) by simp
qed

end

section \<open>The codecs\<close>

lemma codec_append: "aligned b \<Longrightarrow> take (bit_buffer_get_size_bytes b) (bit_buffer_get_data b) = contents b"
  by (simp add: contents_def bit_buffer_get_data_def)

lemma codec_check:
  assumes "aligned b"
  shows "(if bit_buffer_get_size_bytes b \<le> 2 then Inr False
      else checked_bind (bit_buffer_write_bytes_mid b [0, 0] (bit_buffer_get_size_bytes b - 2) 2) (\<lambda>crc_received.
           Inr (crc_bytes (calc (take (bit_buffer_get_size_bytes b - 2) (bit_buffer_get_data b))) = crc_received))) =
    Inr (frame_ok calc (contents b))"
proof -
  have n: "bit_buffer_get_size_bytes b = length (contents b)"
    using assms by (simp add: aligned_def length_contents)
  have data: "take (length (contents b) - 2) (bit_buffer_get_data b) = take (length (contents b) - 2) (contents b)"
    unfolding n [symmetric] by (simp add: contents_def bit_buffer_get_data_def)
  show ?thesis
    using frame.mid_reads [OF assms, of "length (contents b) - 2" 2]
    by (cases "length (contents b) \<le> 2") (simp_all add: n data [unfolded numeral_2_eq_2] frame_ok_def numeral_2_eq_2)
qed

lemma codec_trim:
  assumes "aligned b" "2 < length (contents b)"
  shows "nat ((int (bit_buffer_get_size_bytes b) - 2) mod 2 ^ 32) = length (contents b) - 2"
proof -
  have n: "bit_buffer_get_size_bytes b = length (contents b)" and wf: "bb_wf b"
    using assms by (simp_all add: aligned_def length_contents)
  have "capacity_bytes b < 268435456"
    using wf by (simp add: bb_wf_def)
  then have "length (contents b) - 2 < 2 ^ 32"
    using size_bytes_le [OF wf] unfolding n by simp
  then have "nat (int (length (contents b) - 2) mod 2 ^ 32) = length (contents b) - 2"
    by (rule nat_wrap_32)
  moreover have "int (length (contents b)) - 2 = int (length (contents b) - 2)"
    using assms(2) by simp
  ultimately show ?thesis
    by (simp only: n)
qed

lemma not_eq_cancel: "NOT (a :: u16) = NOT b \<longleftrightarrow> a = b"
  by (metis bit.double_compl)

lemma poly_8408: "bit (0x8408 :: u16) 15" "bit (0x1021 :: u16) 0"
  by simp_all

lemma iso14443_single: "m \<noteq> n \<Longrightarrow> iso14443_crc_calculate type (xs @ m # ys) \<noteq> iso14443_crc_calculate type (xs @ n # ys)"
proof -
  have "iso14443_byte = crc16lsb_byte 0x8408" by (intro ext) (rule iso14443_byte_crc16lsb)
  then show "m \<noteq> n \<Longrightarrow> ?thesis"
    using crc16lsb.single_byte_detected [OF poly_8408(1)]
    by (cases type) (simp_all add: iso14443_crc_calculate_def not_eq_cancel del: fold_append)
qed

lemma iso13239_single: "m \<noteq> n \<Longrightarrow> iso13239_crc_calculate type (xs @ m # ys) \<noteq> iso13239_crc_calculate type (xs @ n # ys)"
  using crc16lsb.single_byte_detected [OF poly_8408(1), unfolded crc16lsb_byte_def [abs_def]]
  by (cases type) (simp_all add: iso13239_crc_calculate_def not_eq_cancel del: fold_append)

lemma byte_swap_inj: "push_bit 8 a OR drop_bit 8 a = push_bit 8 b OR drop_bit 8 (b :: u16) \<longleftrightarrow> a = b"
proof
  assume eq: "push_bit 8 a OR drop_bit 8 a = push_bit 8 b OR drop_bit 8 b"
  show "a = b"
  proof (rule bit_word_eqI)
    fix n assume "n < LENGTH(16)"
    then show "bit a n = bit b n"
      using arg_cong [OF eq, of "\<lambda>w. bit w (n + 8)"] arg_cong [OF eq, of "\<lambda>w. bit w (n - 8)"]
      by (cases "n < 8") (auto simp: bit_iffs)
  qed
qed simp

lemma felica_single: "m \<noteq> n \<Longrightarrow> felica_crc_calculate (xs @ m # ys) \<noteq> felica_crc_calculate (xs @ n # ys)"
  using crc16.single_byte_detected [OF poly_8408(2), unfolded crc16_byte_def [abs_def]]
  by (simp add: felica_crc_calculate_def Let_def byte_swap_inj del: fold_append)

interpretation iso14443: crc_codec "iso14443_crc_calculate type" "iso14443_crc_append type" "iso14443_crc_check type" iso14443_crc_trim
  for type
proof (unfold_locales, goal_cases)
  case (1 b)
  then show ?case by (simp add: iso14443_crc_append_def codec_append)
next
  case (2 b)
  then show ?case unfolding iso14443_crc_check_def Let_def by (rule codec_check)
next
  case (3 b)
  then show ?case by (simp add: iso14443_crc_trim_def length_contents [OF aligned_size(2)])
next
  case 4
  then show ?case by (rule iso14443_single)
qed

interpretation iso13239: crc_codec "iso13239_crc_calculate type" "iso13239_crc_append type" "iso13239_crc_check type" iso13239_crc_trim
  for type
proof (unfold_locales, goal_cases)
  case (1 b)
  then show ?case by (simp add: iso13239_crc_append_def codec_append)
next
  case (2 b)
  then show ?case unfolding iso13239_crc_check_def Let_def by (rule codec_check)
next
  case (3 b)
  then show ?case by (simp only: iso13239_crc_trim_def codec_trim)
next
  case 4
  then show ?case by (rule iso13239_single)
qed

interpretation felica: crc_codec felica_crc_calculate felica_crc_append felica_crc_check felica_crc_trim
proof (unfold_locales, goal_cases)
  case (1 b)
  then show ?case by (simp add: felica_crc_append_def codec_append)
next
  case (2 b)
  then show ?case unfolding felica_crc_check_def Let_def by (rule codec_check)
next
  case (3 b)
  then show ?case by (simp only: felica_crc_trim_def codec_trim)
next
  case 4
  then show ?case by (rule felica_single)
qed

text \<open>
  C25 A frame protected by any of the three codecs, in any of their variants, passes its check, and
  trimming it restores the frame: for every byte-aligned, non-empty buffer with room for two more bytes.
\<close>

theorem nfc_frame_roundtrip:
  assumes "aligned b" "0 < length (contents b)" "length (contents b) + 2 \<le> capacity_bytes b"
  shows "(\<exists>p t. iso14443_crc_append ta b = Inr p \<and> iso14443_crc_check ta p = Inr True \<and>
      iso14443_crc_trim p = Inr t \<and> contents t = contents b) \<and>
    (\<exists>p t. iso13239_crc_append tb b = Inr p \<and> iso13239_crc_check tb p = Inr True \<and>
      iso13239_crc_trim p = Inr t \<and> contents t = contents b) \<and>
    (\<exists>p t. felica_crc_append b = Inr p \<and> felica_crc_check p = Inr True \<and>
      felica_crc_trim p = Inr t \<and> contents t = contents b)"
  using iso14443.codec_roundtrip [OF assms, of ta] iso13239.codec_roundtrip [OF assms, of tb]
    felica.codec_roundtrip [OF assms] by blast

text \<open>
  C19 No corruption of a single byte goes unnoticed: a frame that passes the check of a codec and
  differs from it in exactly one byte, payload or checksum, fails the check.
\<close>

theorem nfc_single_corruption_detected:
  assumes "aligned b" "aligned c" "i < length (contents b)" "x \<noteq> contents b ! i" "contents c = (contents b)[i := x]"
  shows "(iso14443_crc_check ta b = Inr True \<longrightarrow> iso14443_crc_check ta c = Inr False) \<and>
    (iso13239_crc_check tb b = Inr True \<longrightarrow> iso13239_crc_check tb c = Inr False) \<and>
    (felica_crc_check b = Inr True \<longrightarrow> felica_crc_check c = Inr False)"
  using iso14443.corrupted_byte_detected [OF assms(1,2) _ assms(3,4,5)]
    iso13239.corrupted_byte_detected [OF assms(1,2) _ assms(3,4,5)]
    felica.corrupted_byte_detected [OF assms(1,2) _ assms(3,4,5)] by blast

definition sample_frame :: "u8 list \<Rightarrow> BitBuffer" where
  "sample_frame xs = \<lparr>bb_data = xs @ [0, 0], bb_parity = [0], capacity_bytes = length xs + 2, size_bits = length xs * 8\<rparr>"

lemma sample_frame_aligned:
  "xs \<noteq> [] \<Longrightarrow> length xs < 7 \<Longrightarrow> aligned (sample_frame xs)" "contents (sample_frame xs) = xs"
  "capacity_bytes (sample_frame xs) = length xs + 2"
  by (auto simp: sample_frame_def aligned_def bb_wf_def contents_def bit_buffer_get_size_bytes_def div_nat_eqI)

theorem nfc_frame_roundtrip_witness:
  "aligned (sample_frame [0x93, 0x20]) \<and>
   (\<exists>p t. iso14443_crc_append Iso14443CrcTypeA (sample_frame [0x93, 0x20]) = Inr p \<and>
      iso14443_crc_check Iso14443CrcTypeA p = Inr True \<and> iso14443_crc_trim p = Inr t \<and> contents t = [0x93, 0x20])"
proof -
  have w: "aligned (sample_frame [0x93, 0x20])" by (rule sample_frame_aligned) simp_all
  show ?thesis
    using nfc_frame_roundtrip [OF w, of Iso14443CrcTypeA] w by (simp add: sample_frame_aligned)
qed

text \<open>The first bytes of a real anticollision command, with its checksum.\<close>

theorem nfc_single_corruption_detected_witness:
  "iso14443_crc_check Iso14443CrcTypeA (sample_frame [0x50, 0x00, 0x57, 0xCD]) = Inr True \<and>
   iso14443_crc_check Iso14443CrcTypeA (sample_frame [0x50, 0x01, 0x57, 0xCD]) = Inr False"
proof -
  let ?b = "sample_frame [0x50, 0x00, 0x57, 0xCD]" and ?c = "sample_frame [0x50, 0x01, 0x57, 0xCD]"
  have al: "aligned ?b" "aligned ?c" by (rule sample_frame_aligned; simp)+
  have ok: "iso14443_crc_check Iso14443CrcTypeA ?b = Inr True"
    by code_simp
  have "contents ?c = (contents ?b)[1 := 0x01]" "(0x01 :: u8) \<noteq> contents ?b ! 1" "1 < length (contents ?b)"
    by (simp_all add: sample_frame_aligned)
  then show ?thesis
    using nfc_single_corruption_detected [OF al, of 1 "0x01" Iso14443CrcTypeA] ok by simp
qed

end
