(* ===== verification/Infrared_Common.thy ===== *)
theory Infrared_Common
  imports Checked_Memory
begin

text \<open>
  \<^verbatim>\<open>lib/infrared/encoder_decoder/common\<close>: the generic infrared decoder and encoder
  that every protocol instantiates with a table of timings and functions.

  The sample buffer \<open>timings[6]\<close> with its count is the list of the live samples. The payload is the list of
  its bytes; a write outside it is \<open>Out_Of_Bounds\<close>. The protocol table is a parameter of every
  operation (the code keeps a pointer to it in the instance); \<open>ctx_toggle\<close> is the toggle bit of the RC5 or
  RC6 wrapper that the instance's context pointer leads to. The float tolerance of the preamble is an
  integer below \<open>2 ^ 24\<close> in every table, so comparing with it is comparing integers.
\<close>

section \<open>Data\<close>

datatype InfraredProtocol =
    InfraredProtocolUnknown | InfraredProtocolNEC | InfraredProtocolNECext | InfraredProtocolNEC42
  | InfraredProtocolNEC42ext | InfraredProtocolSamsung32 | InfraredProtocolRC6 | InfraredProtocolRC5
  | InfraredProtocolRC5X | InfraredProtocolSIRC | InfraredProtocolSIRC15 | InfraredProtocolSIRC20
  | InfraredProtocolKaseikyo | InfraredProtocolRCA | InfraredProtocolPioneer

record InfraredMessage =
  protocol :: InfraredProtocol
  address :: u32
  command :: u32
  repeat_flag :: bool

datatype InfraredStatus = InfraredStatusError | InfraredStatusOk | InfraredStatusDone | InfraredStatusReady

record InfraredTimings =
  min_split_time :: u32
  silence_time :: u32
  preamble_mark :: u16
  preamble_space :: u16
  bit1_mark :: u16
  bit1_space :: u16
  bit0_mark :: u16
  bit0_space :: u16
  preamble_tolerance :: u32
  bit_tolerance :: u32

datatype InfraredCommonStateDecoder =
    InfraredCommonDecoderStateWaitPreamble | InfraredCommonDecoderStateDecode
  | InfraredCommonDecoderStateProcessRepeat

datatype InfraredCommonStateEncoder =
    InfraredCommonEncoderStateSilence | InfraredCommonEncoderStatePreamble
  | InfraredCommonEncoderStateEncode | InfraredCommonEncoderStateEncodeRepeat

record InfraredCommonDecoder =
  timings :: "u32 list"
  message :: InfraredMessage
  dec_state :: InfraredCommonStateDecoder
  switch_detect :: bool
  level :: bool
  databit_cnt :: nat
  ir_data :: "u8 list"
  ctx_toggle :: bool

record InfraredCommonEncoder =
  enc_state :: InfraredCommonStateEncoder
  enc_switch_detect :: bool
  bits_to_encode :: nat
  bits_encoded :: nat
  timings_sum :: u32
  timings_encoded :: nat
  enc_data :: "u8 list"

text \<open>The constant part of a protocol table, and the table with its functions.\<close>

record InfraredProtocolData =
  spec_timings :: InfraredTimings
  manchester_start_from_space :: bool
  databit_len :: "nat list"

type_synonym decode_result = "(InfraredStatus \<times> InfraredCommonDecoder) checked"
type_synonym encode_result = "InfraredStatus \<times> u32 \<times> bool \<times> InfraredCommonEncoder"

record InfraredCommonProtocolSpec =
  pdata :: InfraredProtocolData
  decode :: "InfraredProtocolData \<Rightarrow> InfraredCommonDecoder \<Rightarrow> bool \<Rightarrow> u32 \<Rightarrow> decode_result"
  decode_repeat :: "(InfraredProtocolData \<Rightarrow> InfraredCommonDecoder \<Rightarrow> InfraredStatus \<times> InfraredCommonDecoder) option"
  interpret_msg :: "InfraredProtocolData \<Rightarrow> InfraredCommonDecoder \<Rightarrow> bool \<times> InfraredCommonDecoder"
  encode :: "InfraredProtocolData \<Rightarrow> InfraredCommonEncoder \<Rightarrow> encode_result"
  encode_repeat :: "(InfraredProtocolData \<Rightarrow> InfraredCommonEncoder \<Rightarrow> encode_result) option"

definition MATCH_TIMING :: "u32 \<Rightarrow> u32 \<Rightarrow> u32 \<Rightarrow> bool" where
  "MATCH_TIMING x v delta \<longleftrightarrow> x < v + delta \<and> x > v - delta"

text \<open>\<open>for(i = 0; i < COUNT_OF(databit_len) && databit_len[i]; ++i) if(databit_len[i] == databit_cnt)\<close>\<close>

definition known_length :: "InfraredProtocolData \<Rightarrow> nat \<Rightarrow> bool" where
  "known_length pd n = (n \<in> set (takeWhile (\<lambda>l. l \<noteq> 0) (databit_len pd)))"

abbreviation max_length :: "InfraredProtocolData \<Rightarrow> nat" where
  "max_length pd \<equiv> databit_len pd ! 0"

text \<open>The payload bytes the allocation holds: \<open>databit_len[0] / 8 + !!(databit_len[0] % 8)\<close>\<close>

definition payload_bytes :: "InfraredProtocolData \<Rightarrow> nat" where
  "payload_bytes pd = max_length pd div 8 + (if max_length pd mod 8 \<noteq> 0 then 1 else 0)"

section \<open>Decoder\<close>

definition consume_samples :: "'a list \<Rightarrow> nat \<Rightarrow> 'a list" where
  "consume_samples array shift = drop shift array"

definition accumulate_lsb :: "InfraredCommonDecoder \<Rightarrow> bool \<Rightarrow> InfraredCommonDecoder checked" where
  "accumulate_lsb dec b =
     (let index = databit_cnt dec div 8; shift = databit_cnt dec mod 8 in
      checked_bind (mem_read (ir_data dec) index) (\<lambda>old.
      checked_bind (mem_write (ir_data dec) index
        (let cur = (if shift = 0 then 0 else old) in if b then cur OR push_bit shift 1 else cur)) (\<lambda>d.
      Inr (dec\<lparr>ir_data := d, databit_cnt := databit_cnt dec + 1\<rparr>))))"

text \<open>\<open>(decoder->level + decoder->timings_cnt + 1) % 2\<close>: the level of the oldest sample.\<close>

definition oldest_level :: "bool \<Rightarrow> nat \<Rightarrow> bool" where
  "oldest_level lvl cnt = odd (of_bool lvl + cnt + 1)"

fun preamble_loop :: "InfraredTimings \<Rightarrow> u32 list \<Rightarrow> bool \<times> u32 list" where
  "preamble_loop tm (m # s # rest) =
     (if MATCH_TIMING m (ucast (preamble_mark tm)) (preamble_tolerance tm) \<and>
         MATCH_TIMING s (ucast (preamble_space tm)) (preamble_tolerance tm)
      then (True, consume_samples (m # s # rest) 2)
      else preamble_loop tm rest)"
| "preamble_loop tm ts = (False, ts)"

definition infrared_check_preamble ::
  "InfraredProtocolData \<Rightarrow> InfraredCommonDecoder \<Rightarrow> bool \<times> InfraredCommonDecoder" where
  "infrared_check_preamble pd dec =
     (if timings dec = [] then (False, dec)
      else
        let ts = (if \<not> oldest_level (level dec) (length (timings dec)) then consume_samples (timings dec) 1 else timings dec) in
        if preamble_mark (spec_timings pd) = 0 then (True, dec\<lparr>timings := ts\<rparr>)
        else let (ok, ts) = preamble_loop (spec_timings pd) ts in (ok, dec\<lparr>timings := ts\<rparr>))"

fun decode_bits_loop :: "InfraredCommonProtocolSpec \<Rightarrow> u32 list \<Rightarrow> InfraredCommonDecoder \<Rightarrow> decode_result" where
  "decode_bits_loop spec [] dec = Inr (InfraredStatusOk, dec\<lparr>timings := []\<rparr>)"
| "decode_bits_loop spec (timing # ts) dec =
     (let pd = pdata spec; tm = spec_timings pd; lvl = oldest_level (level dec) (Suc (length ts)) in
      if min_split_time tm \<noteq> 0 \<and> \<not> lvl \<and> min_split_time tm < timing \<and> known_length pd (databit_cnt dec)
      then Inr (InfraredStatusReady, dec\<lparr>timings := timing # ts\<rparr>)
      else if min_split_time tm \<noteq> 0 \<and> \<not> lvl \<and> \<not> min_split_time tm < timing \<and> max_length pd = databit_cnt dec
      then Inr (InfraredStatusError, dec\<lparr>timings := timing # ts\<rparr>)
      else checked_bind (decode spec pd dec lvl timing) (\<lambda>(status, dec).
        furi_check (databit_cnt dec \<le> max_length pd)
          (if status = InfraredStatusError then Inr (status, dec\<lparr>timings := timing # ts\<rparr>)
           else if lvl \<and> max_length pd = databit_cnt dec \<and> min_split_time tm = 0
           then Inr (InfraredStatusReady, dec\<lparr>timings := consume_samples (timing # ts) 1\<rparr>)
           else if status = InfraredStatusOk then decode_bits_loop spec ts dec
           else Inr (status, dec\<lparr>timings := ts\<rparr>))))"

definition infrared_common_decode_bits :: "InfraredCommonProtocolSpec \<Rightarrow> InfraredCommonDecoder \<Rightarrow> decode_result" where
  "infrared_common_decode_bits spec dec = decode_bits_loop spec (timings dec) dec"

definition infrared_common_decode_pdwm ::
  "InfraredProtocolData \<Rightarrow> InfraredCommonDecoder \<Rightarrow> bool \<Rightarrow> u32 \<Rightarrow> decode_result" where
  "infrared_common_decode_pdwm pd dec lvl timing =
     (let tm = spec_timings pd;
          analyze_timing = (lvl \<noteq> (bit1_mark tm = bit0_mark tm));
          bit1 = (if lvl then bit1_mark tm else bit1_space tm);
          bit0 = (if lvl then bit0_mark tm else bit0_space tm);
          no_info_timing = (if bit1_mark tm = bit0_mark tm then bit1_mark tm else bit1_space tm) in
      if analyze_timing
      then (if MATCH_TIMING timing (ucast bit1) (bit_tolerance tm)
            then checked_bind (accumulate_lsb dec True) (\<lambda>dec. Inr (InfraredStatusOk, dec))
            else if MATCH_TIMING timing (ucast bit0) (bit_tolerance tm)
            then checked_bind (accumulate_lsb dec False) (\<lambda>dec. Inr (InfraredStatusOk, dec))
            else Inr (InfraredStatusError, dec))
      else Inr (if \<not> MATCH_TIMING timing (ucast no_info_timing) (bit_tolerance tm)
                then InfraredStatusError else InfraredStatusOk, dec))"

definition infrared_common_decode_manchester ::
  "InfraredProtocolData \<Rightarrow> InfraredCommonDecoder \<Rightarrow> bool \<Rightarrow> u32 \<Rightarrow> decode_result" where
  "infrared_common_decode_manchester pd dec lvl timing =
     (let tm = spec_timings pd;
          single_timing = MATCH_TIMING timing (ucast (bit1_mark tm)) (bit_tolerance tm);
          double_timing = MATCH_TIMING timing (2 * ucast (bit1_mark tm)) (bit_tolerance tm) in
      if \<not> single_timing \<and> \<not> double_timing then Inr (InfraredStatusError, dec)
      else
        checked_bind
          (if manchester_start_from_space pd \<and> databit_cnt dec = 0
           then accumulate_lsb (dec\<lparr>switch_detect := True\<rparr>) False else Inr dec) (\<lambda>dec.
        if \<not> switch_detect dec \<and> double_timing then Inr (InfraredStatusError, dec)
        else
          let dec = (if \<not> switch_detect dec then dec\<lparr>switch_detect := True\<rparr>
                     else if single_timing then dec\<lparr>switch_detect := False\<rparr> else dec) in
          if switch_detect dec
          then (if max_length pd = databit_cnt dec then Inr (InfraredStatusError, dec)
                else checked_bind (accumulate_lsb dec lvl) (\<lambda>dec. Inr (InfraredStatusOk, dec)))
          else Inr (InfraredStatusOk, dec)))"

definition infrared_common_decoder_check_ready ::
  "InfraredCommonProtocolSpec \<Rightarrow> InfraredCommonDecoder \<Rightarrow> bool \<times> InfraredCommonDecoder" where
  "infrared_common_decoder_check_ready spec dec =
     (if known_length (pdata spec) (databit_cnt dec) then
        let (ok, dec) = interpret_msg spec (pdata spec) dec in
        if ok
        then (True, dec\<lparr>databit_cnt := 0,
          dec_state := (if decode_repeat spec \<noteq> None then InfraredCommonDecoderStateProcessRepeat
                        else InfraredCommonDecoderStateWaitPreamble)\<rparr>)
        else (False, dec)
      else (False, dec))"

definition infrared_common_decoder_reset_state ::
  "InfraredProtocolData \<Rightarrow> InfraredCommonDecoder \<Rightarrow> InfraredCommonDecoder" where
  "infrared_common_decoder_reset_state pd dec =
     dec\<lparr>dec_state := InfraredCommonDecoderStateWaitPreamble, databit_cnt := 0, switch_detect := False,
         message := (message dec)\<lparr>protocol := InfraredProtocolUnknown\<rparr>,
         timings := (if preamble_mark (spec_timings pd) = 0 \<and> timings dec \<noteq> []
                     then consume_samples (timings dec) 1 else timings dec)\<rparr>"

definition infrared_common_decoder_reset ::
  "InfraredProtocolData \<Rightarrow> InfraredCommonDecoder \<Rightarrow> InfraredCommonDecoder" where
  "infrared_common_decoder_reset pd dec = (infrared_common_decoder_reset_state pd dec)\<lparr>timings := []\<rparr>"

text \<open>
  The \<open>while(1)\<close> of \<open>infrared_common_decode\<close>. \<open>found\<close> says whether the message pointer is set; not
  returning is the value \<open>None\<close>. Calling a missing repeat decoder is a jump through a null pointer.
\<close>

partial_function (option) decode_loop ::
  "InfraredCommonProtocolSpec \<Rightarrow> bool \<Rightarrow> InfraredCommonDecoder \<Rightarrow> (bool \<times> InfraredCommonDecoder) checked option" where
  "decode_loop spec found dec =
     (case dec_state dec of
        InfraredCommonDecoderStateWaitPreamble \<Rightarrow>
          (let r = infrared_check_preamble (pdata spec) dec in
           if fst r
           then decode_loop spec found ((snd r)\<lparr>dec_state := InfraredCommonDecoderStateDecode, databit_cnt := 0,
                  switch_detect := False\<rparr>)
           else Some (Inr (found, snd r)))
      | InfraredCommonDecoderStateDecode \<Rightarrow>
          (case infrared_common_decode_bits spec dec of
             Inl e \<Rightarrow> Some (Inl e)
           | Inr r \<Rightarrow>
               if fst r = InfraredStatusReady then
                 let m = infrared_common_decoder_check_ready spec (snd r) in
                 if fst m then decode_loop spec True (snd m)
                 else if max_length (pdata spec) = databit_cnt (snd m)
                 then Some (Inr (False, (snd m)\<lparr>dec_state := InfraredCommonDecoderStateWaitPreamble\<rparr>))
                 else Some (Inr (False, snd m))
               else if fst r = InfraredStatusError
               then decode_loop spec found (infrared_common_decoder_reset_state (pdata spec) (snd r))
               else Some (Inr (found, snd r)))
      | InfraredCommonDecoderStateProcessRepeat \<Rightarrow>
          (case decode_repeat spec of
             None \<Rightarrow> Some (Inl Out_Of_Bounds)
           | Some rep \<Rightarrow>
               let r = rep (pdata spec) dec in
               if fst r = InfraredStatusError
               then decode_loop spec found (infrared_common_decoder_reset_state (pdata spec) (snd r))
               else if fst r = InfraredStatusReady
               then Some (Inr (True, (snd r)\<lparr>message := (message (snd r))\<lparr>repeat_flag := True\<rparr>\<rparr>))
               else Some (Inr (found, snd r))))"

text \<open>
  The sample is stored before the count is checked. A seventh sample therefore goes past the array, into
  the first word of \<open>message\<close>, the field that follows it in \<open>InfraredCommonDecoder\<close>; the check that comes
  next halts the firmware, so nobody reads the overwritten field. The sample list of seven entries stands for
  that store, and the fault reported is the failing check.
\<close>

definition infrared_common_decode ::
  "InfraredCommonProtocolSpec \<Rightarrow> InfraredCommonDecoder \<Rightarrow> bool \<Rightarrow> u32 \<Rightarrow> (bool \<times> InfraredCommonDecoder) checked option" where
  "infrared_common_decode spec dec lvl duration =
     (let dec = (if level dec = lvl then infrared_common_decoder_reset (pdata spec) dec else dec);
          dec = dec\<lparr>level := lvl, timings := timings dec @ [duration]\<rparr>
      in if \<not> length (timings dec) \<le> 6 then Some (Inl Furi_Check) else decode_loop spec False dec)"

definition infrared_common_decoder_alloc :: "InfraredProtocolData \<Rightarrow> InfraredCommonDecoder" where
  "infrared_common_decoder_alloc pd =
     \<lparr>timings = [], message = \<lparr>protocol = InfraredProtocolNEC, address = 0, command = 0, repeat_flag = False\<rparr>,
      dec_state = InfraredCommonDecoderStateWaitPreamble, switch_detect = False, level = True,
      databit_cnt = 0, ir_data = replicate (payload_bytes pd) 0, ctx_toggle = False\<rparr>"

section \<open>Encoder\<close>

text \<open>
  The bit under the cursor. The encoder is allocated with the size of the larger decoder, so the byte behind
  the payload, which the stop mark looks at, is allocated memory that stays zero.
\<close>

definition enc_bit :: "InfraredCommonEncoder \<Rightarrow> bool" where
  "enc_bit enc \<longleftrightarrow>
     bits_encoded enc div 8 < length (enc_data enc) \<and>
     bit (enc_data enc ! (bits_encoded enc div 8)) (bits_encoded enc mod 8)"

definition infrared_common_encode_manchester :: "InfraredProtocolData \<Rightarrow> InfraredCommonEncoder \<Rightarrow> encode_result" where
  "infrared_common_encode_manchester pd enc =
     (let logic_value = enc_bit enc; even_timing = even (timings_encoded enc); lvl = (even_timing \<noteq> logic_value) in
      (InfraredStatusOk, ucast (bit1_mark (spec_timings pd)), lvl,
       if even_timing then enc\<lparr>bits_encoded := bits_encoded enc + 1\<rparr>
       else if lvl \<and> bits_encoded enc + 1 = bits_to_encode enc then enc\<lparr>bits_encoded := bits_encoded enc + 1\<rparr>
       else enc))"

definition infrared_common_encode_pdwm :: "InfraredProtocolData \<Rightarrow> InfraredCommonEncoder \<Rightarrow> encode_result" where
  "infrared_common_encode_pdwm pd enc =
     (let tm = spec_timings pd; logic_value = enc_bit enc; pwm = (bit1_space tm = bit0_space tm) in
      if odd (timings_encoded enc)
      then (InfraredStatusOk, ucast (if logic_value then bit1_mark tm else bit0_mark tm), True,
            if pwm then enc\<lparr>bits_encoded := bits_encoded enc + 1\<rparr> else enc)
      else (InfraredStatusOk, ucast (if logic_value then bit1_space tm else bit0_space tm), False,
            if \<not> pwm then enc\<lparr>bits_encoded := bits_encoded enc + 1\<rparr> else enc))"

definition infrared_common_encode_bits :: "InfraredCommonProtocolSpec \<Rightarrow> InfraredCommonEncoder \<Rightarrow> encode_result" where
  "infrared_common_encode_bits spec enc =
     (case encode spec (pdata spec) enc of (status, duration, lvl, enc) \<Rightarrow>
        let enc = enc\<lparr>timings_encoded := timings_encoded enc + 1, timings_sum := timings_sum enc + duration\<rparr>
        in (if bits_encoded enc = bits_to_encode enc \<and> lvl then InfraredStatusDone else status, duration, lvl, enc))"

definition encode_payload :: "InfraredCommonProtocolSpec \<Rightarrow> InfraredCommonEncoder \<Rightarrow> encode_result" where
  "encode_payload spec enc =
     (case infrared_common_encode_bits spec enc of (status, duration, lvl, enc) \<Rightarrow>
        (status, duration, lvl,
         if status = InfraredStatusDone
         then (if encode_repeat spec \<noteq> None then enc\<lparr>enc_state := InfraredCommonEncoderStateEncodeRepeat\<rparr>
               else enc\<lparr>timings_encoded := 0, timings_sum := 0, bits_encoded := 0, enc_switch_detect := False,
                        enc_state := InfraredCommonEncoderStateSilence\<rparr>)
         else enc))"

definition infrared_common_encode :: "InfraredCommonProtocolSpec \<Rightarrow> InfraredCommonEncoder \<Rightarrow> encode_result" where
  "infrared_common_encode spec enc =
     (let tm = spec_timings (pdata spec) in
      case enc_state enc of
        InfraredCommonEncoderStateSilence \<Rightarrow>
          (InfraredStatusOk, silence_time tm, False,
           enc\<lparr>enc_state := InfraredCommonEncoderStatePreamble, timings_encoded := timings_encoded enc + 1, timings_sum := 0\<rparr>)
      | InfraredCommonEncoderStatePreamble \<Rightarrow>
          (if preamble_mark tm \<noteq> 0
           then (if timings_encoded enc = 1
                 then (InfraredStatusOk, ucast (preamble_mark tm), True,
                       enc\<lparr>timings_encoded := timings_encoded enc + 1, timings_sum := timings_sum enc + ucast (preamble_mark tm)\<rparr>)
                 else (InfraredStatusOk, ucast (preamble_space tm), False,
                       enc\<lparr>enc_state := InfraredCommonEncoderStateEncode, timings_encoded := timings_encoded enc + 1,
                           timings_sum := timings_sum enc + ucast (preamble_space tm)\<rparr>))
           else encode_payload spec (enc\<lparr>enc_state := InfraredCommonEncoderStateEncode\<rparr>))
      | InfraredCommonEncoderStateEncode \<Rightarrow> encode_payload spec enc
      | InfraredCommonEncoderStateEncodeRepeat \<Rightarrow>
          (case encode_repeat spec of Some rep \<Rightarrow> rep (pdata spec) enc | None \<Rightarrow> (InfraredStatusError, 0, False, enc)))"

definition infrared_common_encoder_alloc :: "InfraredProtocolData \<Rightarrow> InfraredCommonEncoder" where
  "infrared_common_encoder_alloc pd =
     \<lparr>enc_state = InfraredCommonEncoderStateSilence, enc_switch_detect = False, bits_to_encode = 0, bits_encoded = 0,
      timings_sum = 0, timings_encoded = 0, enc_data = replicate (payload_bytes pd) 0\<rparr>"

definition infrared_common_encoder_reset :: "InfraredProtocolData \<Rightarrow> InfraredCommonEncoder \<Rightarrow> InfraredCommonEncoder" where
  "infrared_common_encoder_reset pd enc =
     (let max_databit_len = fold max (databit_len pd) 0;
          bytes_to_clear = max_databit_len div 8 + (if max_databit_len mod 8 \<noteq> 0 then 1 else 0)
      in enc\<lparr>timings_encoded := 0, timings_sum := 0, bits_encoded := 0, enc_state := InfraredCommonEncoderStateSilence,
             enc_switch_detect := False, enc_data := replicate bytes_to_clear 0 @ drop bytes_to_clear (enc_data enc)\<rparr>)"

end
