(* ===== verification/Infrared_Pdwm.thy ===== *)
theory Infrared_Pdwm
  imports Infrared_Common
begin

text \<open>
  The interface between the common encoder and the common decoder for protocols with pulse-distance
  modulation: a locale states what a protocol table must satisfy (its timings match themselves,
  do not match each other and do not look like a split), and the lemmas say that the payload
  then travels from an encoder to any listening decoder bit by bit.
\<close>

type_synonym edge = "bool \<times> u32"

text \<open>Taking \<open>n\<close> timings from an encoder; feeding a decoder and collecting the messages it reports.\<close>

fun ir_encode_n :: "InfraredCommonProtocolSpec \<Rightarrow> nat \<Rightarrow> InfraredCommonEncoder \<Rightarrow> (InfraredStatus \<times> edge) list \<times> InfraredCommonEncoder" where
  "ir_encode_n spec 0 enc = ([], enc)"
| "ir_encode_n spec (Suc n) enc =
     (case infrared_common_encode spec enc of (status, duration, lvl, enc) \<Rightarrow>
        let (es, enc) = ir_encode_n spec n enc in ((status, lvl, duration) # es, enc))"

fun ir_feed :: "InfraredCommonProtocolSpec \<Rightarrow> edge list \<Rightarrow> InfraredCommonDecoder \<Rightarrow>
    (InfraredMessage list \<times> InfraredCommonDecoder) checked option" where
  "ir_feed spec [] dec = Some (Inr ([], dec))"
| "ir_feed spec ((lvl, d) # es) dec =
     (case infrared_common_decode spec dec lvl d of
        None \<Rightarrow> None
      | Some (Inl e) \<Rightarrow> Some (Inl e)
      | Some (Inr (found, dec)) \<Rightarrow>
          map_option (\<lambda>r. checked_bind r (\<lambda>(ms, dec'). Inr ((if found then [message dec] else []) @ ms, dec'))) (ir_feed spec es dec))"

definition dbit :: "u8 list \<Rightarrow> nat \<Rightarrow> bool" where
  "dbit xs i \<longleftrightarrow> bit (xs ! (i div 8)) (i mod 8)"

lemma ir_encode_n_append:
  "ir_encode_n spec (m + n) enc =
     (let (xs, enc) = ir_encode_n spec m enc; (ys, enc) = ir_encode_n spec n enc in (xs @ ys, enc))"
  by (induction m arbitrary: enc) (auto simp: Let_def split: prod.splits)

lemma ir_feed_append:
  "ir_feed spec es dec = Some (Inr (ms, dec')) \<Longrightarrow> ir_feed spec fs dec' = Some (Inr (ns, dec'')) \<Longrightarrow>
   ir_feed spec (es @ fs) dec = Some (Inr (ms @ ns, dec''))"
proof (induction es arbitrary: dec ms)
  case (Cons e es)
  then show ?case
    by (cases e) (fastforce split: option.splits sum.splits prod.splits simp: checked_bind_Inr)
qed simp

lemma dbit_update:
  "a < length xs \<Longrightarrow> dbit (xs[a := v]) t = (if t div 8 = a then bit v (t mod 8) else dbit xs t)"
  by (simp add: dbit_def nth_list_update)

text \<open>The first \<open>n\<close> payload bits of a decoder are those of \<open>f\<close>, and the rest of the byte begun last is clear.\<close>

definition received :: "nat \<Rightarrow> (nat \<Rightarrow> bool) \<Rightarrow> InfraredCommonDecoder \<Rightarrow> bool" where
  "received n f dec \<longleftrightarrow>
     databit_cnt dec = n \<and> (\<forall>i<n. dbit (ir_data dec) i = f i) \<and>
     (n mod 8 \<noteq> 0 \<longrightarrow> (\<forall>j\<ge>n mod 8. \<not> bit (ir_data dec ! (n div 8)) j))"

lemma accumulate_lsb_received:
  assumes "received n f dec" "n div 8 < length (ir_data dec)"
  obtains d where "accumulate_lsb dec (f n) = Inr (dec\<lparr>ir_data := d, databit_cnt := Suc n\<rparr>)"
    "length d = length (ir_data dec)" "received (Suc n) f (dec\<lparr>ir_data := d, databit_cnt := Suc n\<rparr>)"
proof -
  let ?r = "n mod 8" and ?a = "n div 8"
  let ?cur = "if ?r = 0 then 0 else ir_data dec ! ?a"
  let ?v = "if f n then ?cur OR push_bit ?r 1 else ?cur"
  let ?d = "(ir_data dec)[?a := ?v]"
  have n: "databit_cnt dec = n" and old: "\<And>i. i < n \<Longrightarrow> dbit (ir_data dec) i = f i"
    and clear: "\<And>j. ?r \<noteq> 0 \<Longrightarrow> ?r \<le> j \<Longrightarrow> \<not> bit (ir_data dec ! ?a) j"
    using assms(1) by (auto simp: received_def)
  have v: "bit ?v j = (if j < ?r then bit (ir_data dec ! ?a) j else j = ?r \<and> f n)" for j
    using clear [of j] mod_less_divisor [of 8 n] by (cases "?r = 0") (auto simp: bit_iffs bit_exp_iff)
  have "accumulate_lsb dec (f n) = Inr (dec\<lparr>ir_data := ?d, databit_cnt := Suc n\<rparr>)"
    using assms(2) n by (simp add: accumulate_lsb_def Let_def mem_read_def mem_write_def)
  moreover have "received (Suc n) f (dec\<lparr>ir_data := ?d, databit_cnt := Suc n\<rparr>)"
    unfolding received_def
  proof (intro conjI allI impI)
    fix i assume "i < Suc n"
    then consider "i = n" | "i < n" "i div 8 = ?a" "i mod 8 < ?r" | "i < n" "i div 8 \<noteq> ?a"
      by (metis less_antisym div_mult_mod_eq nat_add_left_cancel_less)
    then show "dbit (ir_data (dec\<lparr>ir_data := ?d, databit_cnt := Suc n\<rparr>)) i = f i"
    proof cases
      case 2
      then show ?thesis using assms(2) v old [of i] by (simp add: dbit_update) (simp add: dbit_def)
    qed (use assms(2) v old [of i] in \<open>simp_all add: dbit_update\<close>)
  next
    fix j assume "Suc n mod 8 \<noteq> 0" "Suc n mod 8 \<le> j"
    then have "Suc n div 8 = ?a" "?r < j" by (auto simp: mod_Suc div_Suc split: if_splits)
    then show "\<not> bit (ir_data (dec\<lparr>ir_data := ?d, databit_cnt := Suc n\<rparr>) ! (Suc n div 8)) j"
      using assms(2) v by simp
  qed simp
  ultimately show thesis by (intro that) simp_all
qed

lemma oldest_level_1 [simp]: "oldest_level lvl (Suc 0) = lvl"
  by (cases lvl) (simp_all add: oldest_level_def)

text \<open>One edge in the decoding state, with no sample pending.\<close>

lemma decode_edge_ok:
  assumes "dec_state dec = InfraredCommonDecoderStateDecode" "timings dec = []" "level dec \<noteq> lvl"
    and "decode_bits_loop spec [t] (dec\<lparr>level := lvl, timings := [t]\<rparr>) = Inr (InfraredStatusOk, dec')"
  shows "infrared_common_decode spec dec lvl t = Some (Inr (False, dec'))"
  using assms unfolding infrared_common_decode_def Let_def
  by (simp add: decode_loop.simps infrared_common_decode_bits_def)

text \<open>A decoder that waits for a preamble, and one that has taken \<open>n\<close> bits and waits for the next edge.\<close>

definition idle :: "InfraredProtocolData \<Rightarrow> InfraredCommonDecoder \<Rightarrow> bool" where
  "idle pd dec \<longleftrightarrow> dec_state dec = InfraredCommonDecoderStateWaitPreamble \<and> timings dec = [] \<and>
     length (ir_data dec) = payload_bytes pd"

definition receiving :: "InfraredProtocolData \<Rightarrow> nat \<Rightarrow> (nat \<Rightarrow> bool) \<Rightarrow> bool \<Rightarrow> InfraredCommonDecoder \<Rightarrow> bool" where
  "receiving pd n f lvl dec \<longleftrightarrow> dec_state dec = InfraredCommonDecoderStateDecode \<and> timings dec = [] \<and>
     level dec = lvl \<and> length (ir_data dec) = payload_bytes pd \<and> received n f dec"

lemma payload_index:
  assumes "n < max_length pd"
  shows "n div 8 < payload_bytes pd"
proof (cases "max_length pd mod 8 = 0")
  case True
  then have "max_length pd div 8 * 8 = max_length pd"
    by (simp only: dvd_div_mult_self mod_0_imp_dvd)
  then have "n < max_length pd div 8 * 8" using assms by (simp only:)
  then have "n div 8 < max_length pd div 8" by (rule less_mult_imp_div_less)
  then show ?thesis by (simp add: payload_bytes_def)
next
  case False
  have "n div 8 \<le> max_length pd div 8" using assms by (intro div_le_mono) simp
  then show ?thesis using False by (simp add: payload_bytes_def)
qed

text \<open>The edges of one payload bit, and those of a frame of \<open>n\<close> bits with its leading silence and its stop mark.\<close>

definition bit_edges :: "InfraredTimings \<Rightarrow> bool \<Rightarrow> edge list" where
  "bit_edges tm b = [(True, ucast (bit1_mark tm)), (False, ucast (if b then bit1_space tm else bit0_space tm))]"

definition frame_edges :: "InfraredTimings \<Rightarrow> nat \<Rightarrow> (nat \<Rightarrow> bool) \<Rightarrow> edge list" where
  "frame_edges tm n f =
     [(False, silence_time tm), (True, ucast (preamble_mark tm)), (False, ucast (preamble_space tm))] @
     concat (map (\<lambda>i. bit_edges tm (f i)) [0..<n]) @ [(True, ucast (bit1_mark tm))]"

text \<open>An encoder that has sent the preamble and \<open>k\<close> of \<open>n\<close> bits.\<close>

definition sending :: "nat \<Rightarrow> nat \<Rightarrow> InfraredCommonEncoder \<Rightarrow> bool" where
  "sending n k enc \<longleftrightarrow> enc_state enc = InfraredCommonEncoderStateEncode \<and> bits_to_encode enc = n \<and>
     bits_encoded enc = k \<and> timings_encoded enc = 3 + 2 * k"

text \<open>
  An encoder that was reset to send \<open>n\<close> bits, and what its transmission does: \<open>2 * n + 4\<close> timings, the last of
  them the end of the message, that make every waiting decoder report \<open>m\<close>, and nothing else, at the gap that follows.
\<close>

definition loaded :: "nat \<Rightarrow> u8 list \<Rightarrow> InfraredCommonEncoder \<Rightarrow> bool" where
  "loaded n xs enc \<longleftrightarrow> enc_state enc = InfraredCommonEncoderStateSilence \<and> bits_encoded enc = 0 \<and>
     timings_encoded enc = 0 \<and> bits_to_encode enc = n \<and> enc_data enc = xs"

definition delivers :: "InfraredCommonProtocolSpec \<Rightarrow> nat \<Rightarrow> InfraredCommonEncoder \<Rightarrow> InfraredMessage \<Rightarrow> bool" where
  "delivers spec n enc m \<longleftrightarrow>
     (\<exists>es enc'. ir_encode_n spec (2 * n + 4) enc = (es, enc') \<and>
        map fst es = replicate (2 * n + 3) InfraredStatusOk @ [InfraredStatusDone] \<and>
        (\<forall>dec s. idle (pdata spec) dec \<longrightarrow> min_split_time (spec_timings (pdata spec)) < s \<longrightarrow>
           (\<exists>dec'. ir_feed spec (map snd es @ [(False, s)]) dec = Some (Inr ([m], dec')))))"

locale pdm_protocol =
  fixes spec :: InfraredCommonProtocolSpec and pd :: InfraredProtocolData and tm :: InfraredTimings
  assumes pd: "pdata spec = pd" and tm: "spec_timings pd = tm"
    and decode_is: "decode spec = infrared_common_decode_pdwm"
    and encode_is: "encode spec = infrared_common_encode_pdwm"
    and marks: "bit0_mark tm = bit1_mark tm" and spaces: "bit1_space tm \<noteq> bit0_space tm"
    and mark_ok: "MATCH_TIMING (ucast (bit1_mark tm)) (ucast (bit1_mark tm)) (bit_tolerance tm)"
    and one_ok: "MATCH_TIMING (ucast (bit1_space tm)) (ucast (bit1_space tm)) (bit_tolerance tm)"
    and zero_ok: "MATCH_TIMING (ucast (bit0_space tm)) (ucast (bit0_space tm)) (bit_tolerance tm)"
    and zero_not_one: "\<not> MATCH_TIMING (ucast (bit0_space tm)) (ucast (bit1_space tm)) (bit_tolerance tm)"
    and split_on: "min_split_time tm \<noteq> 0"
    and no_split: "\<not> min_split_time tm < ucast (bit1_space tm)" "\<not> min_split_time tm < ucast (bit0_space tm)"
    and preamble: "preamble_mark tm \<noteq> 0"
      "MATCH_TIMING (ucast (preamble_mark tm)) (ucast (preamble_mark tm)) (preamble_tolerance tm)"
      "MATCH_TIMING (ucast (preamble_space tm)) (ucast (preamble_space tm)) (preamble_tolerance tm)"
    and repeat_waits: "decode_repeat spec = Some rep \<Longrightarrow> length (timings d) < 4 \<Longrightarrow> rep pd d = (InfraredStatusOk, d)"
begin

lemma feed_mark:
  assumes "receiving pd n f False dec" "n \<le> max_length pd"
  shows "ir_feed spec [(True, ucast (bit1_mark tm))] dec = Some (Inr ([], dec\<lparr>level := True\<rparr>))"
proof -
  have d: "dec_state dec = InfraredCommonDecoderStateDecode" "timings dec = []" "level dec \<noteq> True" "databit_cnt dec = n"
    using assms(1) by (simp_all add: receiving_def received_def)
  have "decode_bits_loop spec [ucast (bit1_mark tm)] (dec\<lparr>level := True, timings := [ucast (bit1_mark tm)]\<rparr>) =
      Inr (InfraredStatusOk, dec\<lparr>level := True\<rparr>)"
    using d assms(2) split_on by (simp add: Let_def decode_is pd tm infrared_common_decode_pdwm_def marks mark_ok)
  then show ?thesis
    using decode_edge_ok [OF d(1-3)] by simp
qed

lemma feed_space:
  assumes "receiving pd n f True dec" "n < max_length pd"
  shows "\<exists>dec'. ir_feed spec [(False, ucast (if f n then bit1_space tm else bit0_space tm))] dec = Some (Inr ([], dec')) \<and>
    receiving pd (Suc n) f False dec'"
proof -
  let ?t = "ucast (if f n then bit1_space tm else bit0_space tm) :: u32"
  let ?dec = "dec\<lparr>level := False, timings := [?t]\<rparr>"
  have d: "dec_state dec = InfraredCommonDecoderStateDecode" "timings dec = []" "level dec \<noteq> False" "databit_cnt dec = n"
    and len: "length (ir_data dec) = payload_bytes pd"
    using assms(1) by (simp_all add: receiving_def received_def)
  have "received n f ?dec" "n div 8 < length (ir_data ?dec)"
    using assms payload_index [OF assms(2)] by (simp_all add: receiving_def received_def)
  then obtain x where x: "accumulate_lsb ?dec (f n) = Inr (?dec\<lparr>ir_data := x, databit_cnt := Suc n\<rparr>)"
      "length x = length (ir_data dec)" "received (Suc n) f (?dec\<lparr>ir_data := x, databit_cnt := Suc n\<rparr>)"
    using accumulate_lsb_received [of n f ?dec] by auto
  have pdwm: "infrared_common_decode_pdwm pd ?dec False ?t =
      Inr (InfraredStatusOk, ?dec\<lparr>ir_data := x, databit_cnt := Suc n\<rparr>)"
    using x(1) one_ok zero_ok zero_not_one
    by (cases "f n") (simp_all add: infrared_common_decode_pdwm_def Let_def tm marks)
  have "decode_bits_loop spec [?t] ?dec =
      Inr (InfraredStatusOk, dec\<lparr>level := False, ir_data := x, databit_cnt := Suc n\<rparr>)"
    using d assms(2) no_split pdwm by (simp add: Let_def decode_is pd tm)
  then have "ir_feed spec [(False, ?t)] dec = Some (Inr ([], dec\<lparr>level := False, ir_data := x, databit_cnt := Suc n\<rparr>))"
    using decode_edge_ok [OF d(1-3)] by simp
  moreover have "receiving pd (Suc n) f False (dec\<lparr>level := False, ir_data := x, databit_cnt := Suc n\<rparr>)"
    using d len x(2,3) by (simp add: receiving_def received_def)
  ultimately show ?thesis by blast
qed

lemma feed_bits:
  assumes "receiving pd 0 f False dec"
  shows "n \<le> max_length pd \<Longrightarrow>
    \<exists>dec'. ir_feed spec (concat (map (\<lambda>i. bit_edges tm (f i)) [0..<n])) dec = Some (Inr ([], dec')) \<and>
      receiving pd n f False dec'"
proof (induction n)
  case 0
  then show ?case using assms by simp
next
  case (Suc n)
  then obtain d1 where d1: "ir_feed spec (concat (map (\<lambda>i. bit_edges tm (f i)) [0..<n])) dec = Some (Inr ([], d1))"
    "receiving pd n f False d1" by auto
  have m: "ir_feed spec [(True, ucast (bit1_mark tm))] d1 = Some (Inr ([], d1\<lparr>level := True\<rparr>))"
    using feed_mark [OF d1(2)] Suc.prems by simp
  have "receiving pd n f True (d1\<lparr>level := True\<rparr>)"
    using d1(2) by (simp add: receiving_def received_def)
  then obtain d2 where d2: "ir_feed spec [(False, ucast (if f n then bit1_space tm else bit0_space tm))] (d1\<lparr>level := True\<rparr>) =
      Some (Inr ([], d2))" "receiving pd (Suc n) f False d2"
    using feed_space Suc.prems by (metis Suc_le_lessD)
  have "ir_feed spec (bit_edges tm (f n)) d1 = Some (Inr ([], d2))"
    using ir_feed_append [OF m d2(1)] by (simp add: bit_edges_def)
  with ir_feed_append [OF d1(1) this] d2(2) show ?case by simp
qed

lemma feed_preamble:
  assumes "idle pd dec"
  shows "\<exists>dec'. ir_feed spec [(False, silence_time tm), (True, ucast (preamble_mark tm)), (False, ucast (preamble_space tm))] dec =
      Some (Inr ([], dec')) \<and> receiving pd 0 f False dec'"
proof -
  have i: "dec_state dec = InfraredCommonDecoderStateWaitPreamble" "timings dec = []" "length (ir_data dec) = payload_bytes pd"
    using assms by (simp_all add: idle_def)
  obtain d0 where start: "(if level dec = False then infrared_common_decoder_reset (pdata spec) dec else dec) = d0"
    and d0: "dec_state d0 = InfraredCommonDecoderStateWaitPreamble" "timings d0 = []" "length (ir_data d0) = payload_bytes pd"
    using i by (simp add: infrared_common_decoder_reset_def infrared_common_decoder_reset_state_def)
  have 1: "infrared_common_decode spec dec False (silence_time tm) = Some (Inr (False, d0\<lparr>level := False, timings := []\<rparr>))"
    using d0 preamble(1) unfolding infrared_common_decode_def Let_def start
    by (subst decode_loop.simps) (simp add: infrared_check_preamble_def Let_def pd tm consume_samples_def)
  let ?d1 = "d0\<lparr>level := False, timings := []\<rparr>"
  have 2: "infrared_common_decode spec ?d1 True (ucast (preamble_mark tm)) =
      Some (Inr (False, ?d1\<lparr>level := True, timings := [ucast (preamble_mark tm)]\<rparr>))"
    using d0 preamble(1) unfolding infrared_common_decode_def Let_def
    by (subst decode_loop.simps) (simp add: infrared_check_preamble_def Let_def pd tm)
  let ?d2 = "?d1\<lparr>level := True, timings := [ucast (preamble_mark tm)]\<rparr>"
  let ?d3 = "?d2\<lparr>level := False, timings := [], dec_state := InfraredCommonDecoderStateDecode, databit_cnt := 0, switch_detect := False\<rparr>"
  have 3: "infrared_common_decode spec ?d2 False (ucast (preamble_space tm)) = Some (Inr (False, ?d3))"
    using d0 preamble unfolding infrared_common_decode_def Let_def
    by (subst decode_loop.simps, simp add: infrared_check_preamble_def Let_def pd tm oldest_level_def consume_samples_def)
      (subst decode_loop.simps, simp add: infrared_common_decode_bits_def)
  have "receiving pd 0 f False ?d3"
    using d0 by (simp add: receiving_def received_def)
  with 1 2 3 show ?thesis by auto
qed

lemma feed_frame:
  assumes "idle pd dec" "n \<le> max_length pd"
  shows "\<exists>dec'. ir_feed spec (frame_edges tm n f) dec = Some (Inr ([], dec')) \<and> receiving pd n f True dec'"
proof -
  obtain d1 where d1: "ir_feed spec [(False, silence_time tm), (True, ucast (preamble_mark tm)), (False, ucast (preamble_space tm))] dec =
      Some (Inr ([], d1))" "receiving pd 0 f False d1"
    using feed_preamble [OF assms(1)] by blast
  obtain d2 where d2: "ir_feed spec (concat (map (\<lambda>i. bit_edges tm (f i)) [0..<n])) d1 = Some (Inr ([], d2))"
      "receiving pd n f False d2"
    using feed_bits [OF d1(2) assms(2)] by blast
  have "receiving pd n f True (d2\<lparr>level := True\<rparr>)"
    using d2(2) by (simp add: receiving_def received_def)
  with ir_feed_append [OF d1(1) ir_feed_append [OF d2(1) feed_mark [OF d2(2) assms(2)]]]
  show ?thesis by (auto simp: frame_edges_def)
qed

text \<open>
  Taking the message out: after the frame, \<open>check_ready\<close> interprets the payload, and so does the next space
  that is longer than the split time.
\<close>

lemma ready_after_frame:
  assumes "receiving pd n f True dec" "known_length pd n" "interpret_msg spec pd dec = (True, dec')"
  shows "infrared_common_decoder_check_ready spec dec =
    (True, dec'\<lparr>databit_cnt := 0,
       dec_state := (if decode_repeat spec \<noteq> None then InfraredCommonDecoderStateProcessRepeat
                     else InfraredCommonDecoderStateWaitPreamble)\<rparr>)"
  using assms by (simp add: infrared_common_decoder_check_ready_def receiving_def received_def pd)

lemma encode_mark:
  assumes "sending n k enc" "k < n"
  shows "infrared_common_encode spec enc =
    (InfraredStatusOk, ucast (bit1_mark tm), True,
     enc\<lparr>timings_encoded := 4 + 2 * k, timings_sum := timings_sum enc + ucast (bit1_mark tm)\<rparr>)"
proof -
  have "enc_state enc = InfraredCommonEncoderStateEncode" "bits_encoded enc \<noteq> bits_to_encode enc" "timings_encoded enc = 3 + 2 * k"
    using assms by (simp_all add: sending_def)
  then show ?thesis
    using spaces by (simp add: infrared_common_encode_def encode_payload_def infrared_common_encode_bits_def
        encode_is infrared_common_encode_pdwm_def Let_def pd tm marks)
qed

lemma encode_space:
  assumes "enc_state enc = InfraredCommonEncoderStateEncode" "timings_encoded enc = 4 + 2 * k"
  shows "infrared_common_encode spec enc =
    (InfraredStatusOk, ucast (if enc_bit enc then bit1_space tm else bit0_space tm), False,
     enc\<lparr>timings_encoded := 5 + 2 * k, bits_encoded := Suc (bits_encoded enc),
         timings_sum := timings_sum enc + ucast (if enc_bit enc then bit1_space tm else bit0_space tm)\<rparr>)"
  using assms spaces by (simp add: infrared_common_encode_def encode_payload_def infrared_common_encode_bits_def
        encode_is infrared_common_encode_pdwm_def Let_def pd tm)

lemma encode_one_bit:
  assumes "sending n k enc" "k < n"
  shows "\<exists>enc'. ir_encode_n spec 2 enc = (map (Pair InfraredStatusOk) (bit_edges tm (enc_bit enc)), enc') \<and>
    sending n (Suc k) enc' \<and> enc_data enc' = enc_data enc"
proof -
  let ?e = "enc\<lparr>timings_encoded := 4 + 2 * k, timings_sum := timings_sum enc + ucast (bit1_mark tm)\<rparr>"
  have e: "enc_state ?e = InfraredCommonEncoderStateEncode" "timings_encoded ?e = 4 + 2 * k" "enc_bit ?e = enc_bit enc"
    using assms by (simp_all add: sending_def enc_bit_def)
  have "ir_encode_n spec (Suc (Suc 0)) enc = (map (Pair InfraredStatusOk) (bit_edges tm (enc_bit enc)),
      snd (snd (snd (infrared_common_encode spec ?e))))"
    by (simp add: encode_mark [OF assms] encode_space [OF e(1,2)] e(3) bit_edges_def)
  moreover have "sending n (Suc k) (snd (snd (snd (infrared_common_encode spec ?e))))"
    using assms by (simp add: encode_space [OF e(1,2)] sending_def)
  moreover have "enc_data (snd (snd (snd (infrared_common_encode spec ?e)))) = enc_data enc"
    by (simp add: encode_space [OF e(1,2)])
  moreover have "(2::nat) = Suc (Suc 0)" by simp
  ultimately show ?thesis by (simp only:) blast
qed

lemma encode_bits:
  assumes "sending n 0 enc"
  shows "k \<le> n \<Longrightarrow>
    \<exists>enc'. ir_encode_n spec (2 * k) enc =
      (map (Pair InfraredStatusOk) (concat (map (\<lambda>i. bit_edges tm (i div 8 < length (enc_data enc) \<and> dbit (enc_data enc) i)) [0..<k])), enc') \<and>
      sending n k enc' \<and> enc_data enc' = enc_data enc"
proof (induction k)
  case 0
  then show ?case using assms by simp
next
  case (Suc k)
  then obtain e1 where e1: "ir_encode_n spec (2 * k) enc =
      (map (Pair InfraredStatusOk) (concat (map (\<lambda>i. bit_edges tm (i div 8 < length (enc_data enc) \<and> dbit (enc_data enc) i)) [0..<k])), e1)"
      "sending n k e1" "enc_data e1 = enc_data enc" by auto
  obtain e2 where "ir_encode_n spec 2 e1 = (map (Pair InfraredStatusOk) (bit_edges tm (enc_bit e1)), e2)"
      "sending n (Suc k) e2" "enc_data e2 = enc_data e1"
    using encode_one_bit [OF e1(2)] Suc.prems by auto
  moreover have "enc_bit e1 = (k div 8 < length (enc_data enc) \<and> dbit (enc_data enc) k)"
    using e1(2,3) by (simp add: enc_bit_def sending_def dbit_def)
  moreover have "2 * Suc k = 2 * k + 2" by simp
  ultimately show ?case
    using e1 by (simp only: ir_encode_n_append) auto
qed

text \<open>
  A whole message: \<open>2 * n + 4\<close> timings, all but the last with status Ok and the stop mark with status Done;
  their edges are the frame of the payload bits.
\<close>

lemma encode_frame:
  assumes "enc_state enc = InfraredCommonEncoderStateSilence" "bits_encoded enc = 0" "timings_encoded enc = 0"
    "bits_to_encode enc = n" "\<And>i. i < n \<Longrightarrow> i div 8 < length (enc_data enc)"
  shows "\<exists>enc' es. ir_encode_n spec (2 * n + 4) enc = (es, enc') \<and>
    map snd es = frame_edges tm n (dbit (enc_data enc)) \<and>
    map fst es = replicate (2 * n + 3) InfraredStatusOk @ [InfraredStatusDone]"
proof -
  obtain e1 where e1: "ir_encode_n spec 3 enc =
      (map (Pair InfraredStatusOk) [(False, silence_time tm), (True, ucast (preamble_mark tm)), (False, ucast (preamble_space tm))], e1)"
      "sending n 0 e1" "enc_data e1 = enc_data enc"
    using assms(1-4) preamble(1)
    by (simp add: numeral_3_eq_3 infrared_common_encode_def Let_def pd tm sending_def)
  obtain e2 where e2: "ir_encode_n spec (2 * n) e1 =
      (map (Pair InfraredStatusOk) (concat (map (\<lambda>i. bit_edges tm (i div 8 < length (enc_data enc) \<and> dbit (enc_data enc) i)) [0..<n])), e2)"
      "sending n n e2" "enc_data e2 = enc_data enc"
    using encode_bits [OF e1(2), of n] e1(3) by auto
  have bits: "map (\<lambda>i. bit_edges tm (i div 8 < length (enc_data enc) \<and> dbit (enc_data enc) i)) [0..<n] =
      map (\<lambda>i. bit_edges tm (dbit (enc_data enc) i)) [0..<n]"
    using assms(5) by simp
  obtain e3 where e3: "ir_encode_n spec 1 e2 = ([(InfraredStatusDone, True, ucast (bit1_mark tm))], e3)"
    using e2(2) spaces marks
    by (simp add: sending_def infrared_common_encode_def encode_payload_def infrared_common_encode_bits_def
        encode_is infrared_common_encode_pdwm_def Let_def pd tm)
  have "2 * n + 4 = 3 + (2 * n + 1)" by simp
  then have "ir_encode_n spec (2 * n + 4) enc =
      (map (Pair InfraredStatusOk) [(False, silence_time tm), (True, ucast (preamble_mark tm)), (False, ucast (preamble_space tm))] @
       map (Pair InfraredStatusOk) (concat (map (\<lambda>i. bit_edges tm (dbit (enc_data enc) i)) [0..<n])) @
       [(InfraredStatusDone, True, ucast (bit1_mark tm))], e3)"
    by (simp only: ir_encode_n_append e1(1) e2(1) e3 Let_def prod.case bits)
  moreover have "length (concat (map (\<lambda>i. bit_edges tm (dbit (enc_data enc) i)) [0..<n])) = 2 * n"
    by (simp add: length_concat comp_def bit_edges_def sum_list_triv)
  ultimately show ?thesis
    by (auto simp: frame_edges_def comp_def map_replicate_const numeral_3_eq_3 replicate_append_same)
qed

text \<open>
  The gap after the frame: a space longer than the split time makes the decoder interpret the payload and
  report the message, exactly once.
\<close>

lemma feed_gap:
  assumes "receiving pd n f True dec" "known_length pd n" "min_split_time tm < s"
    and m: "\<And>d. received n f d \<Longrightarrow> length (ir_data d) = payload_bytes pd \<Longrightarrow> interpret_msg spec pd d = (True, d\<lparr>message := m\<rparr>)"
  shows "\<exists>dec'. ir_feed spec [(False, s)] dec = Some (Inr ([m], dec'))"
proof -
  let ?d = "dec\<lparr>level := False, timings := [s]\<rparr>"
  let ?r = "?d\<lparr>message := m, databit_cnt := 0,
       dec_state := (if decode_repeat spec \<noteq> None then InfraredCommonDecoderStateProcessRepeat
                     else InfraredCommonDecoderStateWaitPreamble)\<rparr>"
  have d: "dec_state dec = InfraredCommonDecoderStateDecode" "timings dec = []" "level dec = True" "databit_cnt dec = n"
    using assms(1) by (simp_all add: receiving_def received_def)
  have i: "interpret_msg spec pd ?d = (True, ?d\<lparr>message := m\<rparr>)"
    using assms(1) by (intro m) (simp_all add: receiving_def received_def)
  have "infrared_common_decode_bits spec ?d = Inr (InfraredStatusReady, ?d)"
    using d assms(2,3) split_on by (simp add: infrared_common_decode_bits_def Let_def pd tm)
  moreover have "infrared_common_decoder_check_ready spec ?d = (True, ?r)"
    using d(4) assms(2) i by (simp add: infrared_common_decoder_check_ready_def pd)
  ultimately have "decode_loop spec False ?d = decode_loop spec True ?r"
    using d(1) by (subst decode_loop.simps) simp
  also have "\<exists>dec'. decode_loop spec True ?r = Some (Inr (True, dec')) \<and> message dec' = m"
  proof (cases "decode_repeat spec")
    case None
    then show ?thesis
      using preamble(1)
      by (subst decode_loop.simps) (simp add: infrared_check_preamble_def Let_def pd tm consume_samples_def)
  next
    case (Some rep)
    then show ?thesis
      using repeat_waits [OF Some, of ?r] by (subst decode_loop.simps) (simp add: pd)
  qed
  finally show ?thesis
    using d by (auto simp: infrared_common_decode_def)
qed

lemma frame_reported:
  assumes "idle pd dec" "n \<le> max_length pd" "known_length pd n" "min_split_time tm < s"
    and "\<And>d. received n f d \<Longrightarrow> length (ir_data d) = payload_bytes pd \<Longrightarrow> interpret_msg spec pd d = (True, d\<lparr>message := m\<rparr>)"
  shows "\<exists>dec'. ir_feed spec (frame_edges tm n f @ [(False, s)]) dec = Some (Inr ([m], dec'))"
proof -
  obtain d1 where d1: "ir_feed spec (frame_edges tm n f) dec = Some (Inr ([], d1))" "receiving pd n f True d1"
    using feed_frame [OF assms(1,2)] by blast
  obtain d2 where "ir_feed spec [(False, s)] d1 = Some (Inr ([m], d2))"
    using feed_gap [OF d1(2) assms(3,4)] assms(5) by blast
  from ir_feed_append [OF d1(1) this] show ?thesis by simp
qed

lemma transmission:
  assumes "loaded n xs enc" "known_length pd n" "n \<le> max_length pd" "n \<le> 8 * length xs"
    and "\<And>d. received n (dbit xs) d \<Longrightarrow> length (ir_data d) = payload_bytes pd \<Longrightarrow>
           interpret_msg spec pd d = (True, d\<lparr>message := m\<rparr>)"
  shows "delivers spec n enc m"
proof -
  have "i < n \<Longrightarrow> i div 8 < length (enc_data enc)" for i
    using assms(1,4) by (simp add: loaded_def)
  then obtain enc' es where "ir_encode_n spec (2 * n + 4) enc = (es, enc')"
      "map snd es = frame_edges tm n (dbit xs)" "map fst es = replicate (2 * n + 3) InfraredStatusOk @ [InfraredStatusDone]"
    using encode_frame [of enc n] assms(1,4) by (auto simp: loaded_def)
  moreover have "\<exists>dec'. ir_feed spec (frame_edges tm n (dbit xs) @ [(False, s)]) dec = Some (Inr ([m], dec'))"
    if "idle pd dec" "min_split_time tm < s" for dec s
    using frame_reported [OF that(1) assms(3,2) that(2)] assms(5) by blast
  ultimately show ?thesis by (auto simp: delivers_def pd tm)
qed

end

end
