(* ===== verification/Infrared_Protocols.thy ===== *)
theory Infrared_Protocols
  imports Infrared_Common
begin

text \<open>
  The protocol tables under \<^verbatim>\<open>lib/infrared/encoder_decoder\<close>: NEC, Samsung32, RC5, RC6, SIRC, Pioneer,
  Kaseikyo and RCA. Each has its timings, its payload layout (\<open>interpret\<close> in the decoder, \<open>reset\<close> in the
  encoder), its repeat codes and its variants. A payload that the code reads as a little-endian \<open>uint32_t\<close>
  is read through \<open>load_le32\<close>; where the payload is shorter than four bytes the missing ones are padding
  of the allocation, which stays zero.
\<close>

section \<open>Shared helpers\<close>

text \<open>The duty cycle, the constant \<open>0.33f\<close> in every table, is kept in hundredths.\<close>

record InfraredProtocolVariant =
  variant_name :: string
  address_length :: nat
  command_length :: nat
  frequency :: nat
  duty_cycle :: nat
  repeat_count :: nat

definition byte_at :: "u8 list \<Rightarrow> nat \<Rightarrow> u8" where
  "byte_at xs i = (if i < length xs then xs ! i else 0)"

definition load_le32 :: "u8 list \<Rightarrow> u32" where
  "load_le32 xs = ucast (byte_at xs 0) OR push_bit 8 (ucast (byte_at xs 1)) OR
     push_bit 16 (ucast (byte_at xs 2)) OR push_bit 24 (ucast (byte_at xs 3))"

definition store_le32 :: "nat \<Rightarrow> u32 \<Rightarrow> u8 list \<Rightarrow> u8 list" where
  "store_le32 off v xs =
     xs[off := ucast v, off + 1 := ucast (drop_bit 8 v), off + 2 := ucast (drop_bit 16 v), off + 3 := ucast (drop_bit 24 v)]"

definition reverse :: "u8 \<Rightarrow> u8" where
  "reverse value = fold (\<lambda>i r. r OR (if value AND push_bit i 1 \<noteq> 0 then push_bit (7 - i) 1 else 0)) [0..<8] 0"

definition set_message :: "InfraredProtocol \<Rightarrow> u32 \<Rightarrow> u32 \<Rightarrow> InfraredCommonDecoder \<Rightarrow> InfraredCommonDecoder" where
  "set_message p a c dec = dec\<lparr>message := \<lparr>protocol = p, address = a, command = c, repeat_flag = False\<rparr>\<rparr>"

definition load_payload :: "nat \<Rightarrow> (u8 list \<Rightarrow> u8 list) \<Rightarrow> InfraredCommonEncoder \<Rightarrow> InfraredCommonEncoder" where
  "load_payload n f enc = enc\<lparr>enc_data := f (enc_data enc), bits_to_encode := n\<rparr>"

section \<open>NEC\<close>

definition infrared_decoder_nec_interpret :: "InfraredProtocolData \<Rightarrow> InfraredCommonDecoder \<Rightarrow> bool \<times> InfraredCommonDecoder" where
  "infrared_decoder_nec_interpret pd dec =
     (let d = byte_at (ir_data dec) in
      if databit_cnt dec = 32 then
        if d 2 = NOT (d 3) \<and> d 0 = NOT (d 1)
        then (True, set_message InfraredProtocolNEC (ucast (d 0)) (ucast (d 2)) dec)
        else (True, set_message InfraredProtocolNECext (ucast (d 0) OR push_bit 8 (ucast (d 1)))
                (ucast (d 2) OR push_bit 8 (ucast (d 3))) dec)
      else if databit_cnt dec = 42 then
        let data1 = load_le32 (ir_data dec);
            data2 = ucast (d 4) OR push_bit 8 (ucast (d 5)) :: u32;
            addr = data1 AND 0x1FFF;
            address_inverse = drop_bit 13 data1 AND 0x1FFF;
            cmd = (drop_bit 26 data1 AND 0x3F) OR push_bit 6 (data2 AND 3);
            command_inverse = drop_bit 2 data2 AND 0xFF in
        if addr = NOT address_inverse AND 0x1FFF \<and> cmd = NOT command_inverse AND 0xFF
        then (True, set_message InfraredProtocolNEC42 addr cmd dec)
        else (True, set_message InfraredProtocolNEC42ext (addr OR push_bit 13 address_inverse)
                (cmd OR push_bit 8 command_inverse) dec)
      else (False, dec))"

definition infrared_decoder_nec_decode_repeat ::
  "InfraredProtocolData \<Rightarrow> InfraredCommonDecoder \<Rightarrow> InfraredStatus \<times> InfraredCommonDecoder" where
  "infrared_decoder_nec_decode_repeat pd dec =
     (let tm = spec_timings pd; t = timings dec in
      if length t < 4 then (InfraredStatusOk, dec)
      else if t ! 0 > 4000 \<and> t ! 0 < 150000 \<and> MATCH_TIMING (t ! 1) 9000 (preamble_tolerance tm) \<and>
              MATCH_TIMING (t ! 2) 2250 (preamble_tolerance tm) \<and>
              MATCH_TIMING (t ! 3) (ucast (bit1_mark tm)) (bit_tolerance tm)
      then (InfraredStatusReady, dec\<lparr>timings := []\<rparr>)
      else (InfraredStatusError, dec))"

definition infrared_encoder_nec_reset ::
  "InfraredProtocolData \<Rightarrow> InfraredCommonEncoder \<Rightarrow> InfraredMessage \<Rightarrow> InfraredCommonEncoder checked" where
  "infrared_encoder_nec_reset pd enc m =
     (let enc = infrared_common_encoder_reset pd enc in
      case protocol m of
        InfraredProtocolNEC \<Rightarrow>
          let a = ucast (address m) :: u8; c = ucast (command m) :: u8 in
          Inr (load_payload 32 (store_le32 0 (ucast a OR push_bit 8 (ucast (NOT a)) OR push_bit 16 (ucast c) OR
            push_bit 24 (ucast (NOT c)))) enc)
      | InfraredProtocolNECext \<Rightarrow>
          Inr (load_payload 32 (store_le32 0 (ucast (ucast (address m) :: u16) OR push_bit 16 (command m AND 0xFFFF))) enc)
      | InfraredProtocolNEC42 \<Rightarrow>
          Inr (load_payload 42 (\<lambda>d. store_le32 4
              (drop_bit 6 (command m AND 0xC0) OR push_bit 2 (NOT (command m) AND 0xFF))
              (store_le32 0 ((address m AND 0x1FFF) OR push_bit 13 (NOT (address m) AND 0x1FFF) OR
                push_bit 26 (command m AND 0x3F)) d)) enc)
      | InfraredProtocolNEC42ext \<Rightarrow>
          Inr (load_payload 42 (\<lambda>d. store_le32 4 (drop_bit 6 (command m AND 0xFFC0))
              (store_le32 0 ((address m AND 0x3FFFFFF) OR push_bit 26 (command m AND 0x3F)) d)) enc)
      | _ \<Rightarrow> Inl Furi_Check)"

text \<open>The repeat encoder counts with \<open>uint32_t\<close>; the difference is non-negative once the payload has been sent.\<close>

definition nec_repeat_timings :: "u32 list" where
  "nec_repeat_timings = [110000 - 9000 - 2250 - 560, 9000, 2250, 560]"

definition infrared_encoder_nec_encode_repeat :: "InfraredProtocolData \<Rightarrow> InfraredCommonEncoder \<Rightarrow> encode_result" where
  "infrared_encoder_nec_encode_repeat pd enc =
     (let repeat_cnt = timings_encoded enc - (1 + 2 + bits_to_encode enc * 2 + 1) in
      (if (repeat_cnt + 1) mod 4 = 0 then InfraredStatusDone else InfraredStatusOk,
       if repeat_cnt > 0 then nec_repeat_timings ! (repeat_cnt mod 4) else 110000 - timings_sum enc,
       odd repeat_cnt, enc\<lparr>timings_encoded := timings_encoded enc + 1\<rparr>))"

definition infrared_protocol_nec :: InfraredCommonProtocolSpec where
  "infrared_protocol_nec =
     \<lparr>pdata =
        \<lparr>spec_timings =
           \<lparr>min_split_time = 4000, silence_time = 110000, preamble_mark = 9000, preamble_space = 4500,
            bit1_mark = 560, bit1_space = 1690, bit0_mark = 560, bit0_space = 560,
            preamble_tolerance = 200, bit_tolerance = 120\<rparr>,
         manchester_start_from_space = False, databit_len = [42, 32, 0, 0]\<rparr>,
      decode = infrared_common_decode_pdwm, decode_repeat = Some infrared_decoder_nec_decode_repeat,
      interpret_msg = infrared_decoder_nec_interpret, encode = infrared_common_encode_pdwm,
      encode_repeat = Some infrared_encoder_nec_encode_repeat\<rparr>"

definition infrared_protocol_nec_get_variant :: "InfraredProtocol \<Rightarrow> InfraredProtocolVariant option" where
  "infrared_protocol_nec_get_variant p =
     (case p of
        InfraredProtocolNEC \<Rightarrow> Some \<lparr>variant_name = ''NEC'', address_length = 8, command_length = 8,
          frequency = 38000, duty_cycle = 33, repeat_count = 1\<rparr>
      | InfraredProtocolNECext \<Rightarrow> Some \<lparr>variant_name = ''NECext'', address_length = 16, command_length = 16,
          frequency = 38000, duty_cycle = 33, repeat_count = 1\<rparr>
      | InfraredProtocolNEC42 \<Rightarrow> Some \<lparr>variant_name = ''NEC42'', address_length = 13, command_length = 8,
          frequency = 38000, duty_cycle = 33, repeat_count = 1\<rparr>
      | InfraredProtocolNEC42ext \<Rightarrow> Some \<lparr>variant_name = ''NEC42ext'', address_length = 26, command_length = 16,
          frequency = 38000, duty_cycle = 33, repeat_count = 1\<rparr>
      | _ \<Rightarrow> None)"

section \<open>Samsung32\<close>

definition infrared_decoder_samsung32_interpret ::
  "InfraredProtocolData \<Rightarrow> InfraredCommonDecoder \<Rightarrow> bool \<times> InfraredCommonDecoder" where
  "infrared_decoder_samsung32_interpret pd dec =
     (let d = byte_at (ir_data dec) in
      if d 0 = d 1 \<and> d 2 = NOT (d 3)
      then (True, set_message InfraredProtocolSamsung32 (ucast (d 0)) (ucast (d 2)) dec)
      else (False, dec))"

definition infrared_decoder_samsung32_decode_repeat ::
  "InfraredProtocolData \<Rightarrow> InfraredCommonDecoder \<Rightarrow> InfraredStatus \<times> InfraredCommonDecoder" where
  "infrared_decoder_samsung32_decode_repeat pd dec =
     (let tm = spec_timings pd; t = timings dec in
      if length t < 6 then (InfraredStatusOk, dec)
      else if t ! 0 > 30000 \<and> t ! 0 < 140000 \<and> MATCH_TIMING (t ! 1) 4500 (preamble_tolerance tm) \<and>
              MATCH_TIMING (t ! 2) 4500 (preamble_tolerance tm) \<and>
              MATCH_TIMING (t ! 3) (ucast (bit1_mark tm)) (bit_tolerance tm) \<and>
              MATCH_TIMING (t ! 4) (ucast (bit1_space tm)) (bit_tolerance tm) \<and>
              MATCH_TIMING (t ! 5) (ucast (bit1_mark tm)) (bit_tolerance tm)
      then (InfraredStatusReady, dec\<lparr>timings := []\<rparr>)
      else (InfraredStatusError, dec))"

definition infrared_encoder_samsung32_reset ::
  "InfraredProtocolData \<Rightarrow> InfraredCommonEncoder \<Rightarrow> InfraredMessage \<Rightarrow> InfraredCommonEncoder checked" where
  "infrared_encoder_samsung32_reset pd enc m =
     (let a = ucast (address m) :: u8; c = ucast (command m) :: u8 in
      Inr (load_payload (max_length pd) (\<lambda>d. store_le32 0 (load_le32 d OR ucast a OR push_bit 8 (ucast a) OR
        push_bit 16 (ucast c) OR push_bit 24 (ucast (NOT c))) d) (infrared_common_encoder_reset pd enc)))"

definition samsung32_repeat_timings :: "u32 list" where
  "samsung32_repeat_timings = [97000, 4500, 4500, 550, 1650, 550]"

definition infrared_encoder_samsung32_encode_repeat :: "InfraredProtocolData \<Rightarrow> InfraredCommonEncoder \<Rightarrow> encode_result" where
  "infrared_encoder_samsung32_encode_repeat pd enc =
     (let repeat_cnt = timings_encoded enc - (1 + 2 + bits_encoded enc * 2 + 1) in
      (if (repeat_cnt + 1) mod 6 = 0 then InfraredStatusDone else InfraredStatusOk,
       if repeat_cnt > 0 then samsung32_repeat_timings ! (repeat_cnt mod 6) else 46000,
       odd repeat_cnt, enc\<lparr>timings_encoded := timings_encoded enc + 1\<rparr>))"

definition infrared_protocol_samsung32 :: InfraredCommonProtocolSpec where
  "infrared_protocol_samsung32 =
     \<lparr>pdata =
        \<lparr>spec_timings =
           \<lparr>min_split_time = 5000, silence_time = 145000, preamble_mark = 4500, preamble_space = 4500,
            bit1_mark = 550, bit1_space = 1650, bit0_mark = 550, bit0_space = 550,
            preamble_tolerance = 200, bit_tolerance = 120\<rparr>,
         manchester_start_from_space = False, databit_len = [32, 0, 0, 0]\<rparr>,
      decode = infrared_common_decode_pdwm, decode_repeat = Some infrared_decoder_samsung32_decode_repeat,
      interpret_msg = infrared_decoder_samsung32_interpret, encode = infrared_common_encode_pdwm,
      encode_repeat = Some infrared_encoder_samsung32_encode_repeat\<rparr>"

definition infrared_protocol_samsung32_get_variant :: "InfraredProtocol \<Rightarrow> InfraredProtocolVariant option" where
  "infrared_protocol_samsung32_get_variant p =
     (case p of
        InfraredProtocolSamsung32 \<Rightarrow> Some \<lparr>variant_name = ''Samsung32'', address_length = 8, command_length = 8,
          frequency = 38000, duty_cycle = 33, repeat_count = 1\<rparr>
      | _ \<Rightarrow> None)"

section \<open>RCA\<close>

definition infrared_decoder_rca_interpret ::
  "InfraredProtocolData \<Rightarrow> InfraredCommonDecoder \<Rightarrow> bool \<times> InfraredCommonDecoder" where
  "infrared_decoder_rca_interpret pd dec =
     (let data = load_le32 (ir_data dec);
          addr = ucast (data AND 0xF) :: u8;
          cmd = ucast (drop_bit 4 data AND 0xFF) :: u8;
          address_inverse = ucast (drop_bit 12 data AND 0xF) :: u8;
          command_inverse = ucast (drop_bit 16 data AND 0xFF) :: u8 in
      if cmd = NOT command_inverse \<and> addr = NOT address_inverse AND 0xF
      then (True, set_message InfraredProtocolRCA (ucast addr) (ucast cmd) dec)
      else (False, dec))"

definition infrared_encoder_rca_reset ::
  "InfraredProtocolData \<Rightarrow> InfraredCommonEncoder \<Rightarrow> InfraredMessage \<Rightarrow> InfraredCommonEncoder checked" where
  "infrared_encoder_rca_reset pd enc m =
     (let a = ucast (address m) :: u8; c = ucast (command m) :: u8 in
      Inr (load_payload (max_length pd) (store_le32 0 (ucast (a AND 0xF) OR push_bit 4 (ucast c) OR
        push_bit 12 (ucast (NOT a AND 0xF)) OR push_bit 16 (ucast (NOT c)))) (infrared_common_encoder_reset pd enc)))"

definition infrared_protocol_rca :: InfraredCommonProtocolSpec where
  "infrared_protocol_rca =
     \<lparr>pdata =
        \<lparr>spec_timings =
           \<lparr>min_split_time = 4000, silence_time = 8000, preamble_mark = 4000, preamble_space = 4000,
            bit1_mark = 500, bit1_space = 2000, bit0_mark = 500, bit0_space = 1000,
            preamble_tolerance = 200, bit_tolerance = 120\<rparr>,
         manchester_start_from_space = False, databit_len = [24, 0, 0, 0]\<rparr>,
      decode = infrared_common_decode_pdwm, decode_repeat = None,
      interpret_msg = infrared_decoder_rca_interpret, encode = infrared_common_encode_pdwm, encode_repeat = None\<rparr>"

definition infrared_protocol_rca_get_variant :: "InfraredProtocol \<Rightarrow> InfraredProtocolVariant option" where
  "infrared_protocol_rca_get_variant p =
     (case p of
        InfraredProtocolRCA \<Rightarrow> Some \<lparr>variant_name = ''RCA'', address_length = 4, command_length = 8,
          frequency = 38000, duty_cycle = 33, repeat_count = 1\<rparr>
      | _ \<Rightarrow> None)"

section \<open>Kaseikyo\<close>

definition infrared_decoder_kaseikyo_interpret ::
  "InfraredProtocolData \<Rightarrow> InfraredCommonDecoder \<Rightarrow> bool \<times> InfraredCommonDecoder" where
  "infrared_decoder_kaseikyo_interpret pd dec =
     (let d = byte_at (ir_data dec);
          vendor_id = push_bit 8 (ucast (d 1)) OR ucast (d 0) :: u32;
          vendor_parity = d 2 AND 0x0F;
          genre1 = drop_bit 4 (d 2);
          genre2 = d 3 AND 0x0F;
          data = ucast (drop_bit 4 (d 3)) OR push_bit 4 (ucast (d 4 AND 0x3F)) :: u32;
          id = drop_bit 6 (d 4);
          vendor_parity_check = d 0 XOR d 1;
          vendor_parity_check = (vendor_parity_check AND 0xF) XOR drop_bit 4 vendor_parity_check;
          parity_check = d 2 XOR d 3 XOR d 4 in
      if vendor_parity = vendor_parity_check \<and> d 5 = parity_check
      then (True, set_message InfraredProtocolKaseikyo
             (push_bit 24 (ucast id) OR push_bit 8 vendor_id OR push_bit 4 (ucast genre1) OR ucast genre2) data dec)
      else (False, dec))"

definition infrared_encoder_kaseikyo_reset ::
  "InfraredProtocolData \<Rightarrow> InfraredCommonEncoder \<Rightarrow> InfraredMessage \<Rightarrow> InfraredCommonEncoder checked" where
  "infrared_encoder_kaseikyo_reset pd enc m =
     (let addr = address m;
          cmd = ucast (command m) :: u16;
          id = ucast (drop_bit 24 addr AND 3) :: u8;
          vendor_id = ucast (drop_bit 8 addr AND 0xFFFF) :: u16;
          genre1 = ucast (drop_bit 4 addr AND 0xF) :: u8;
          genre2 = ucast (addr AND 0xF) :: u8;
          d0 = ucast (vendor_id AND 0xFF) :: u8;
          d1 = ucast (drop_bit 8 vendor_id) :: u8;
          vendor_parity = d0 XOR d1;
          vendor_parity = (vendor_parity AND 0xF) XOR drop_bit 4 vendor_parity;
          d2 = (vendor_parity AND 0xF) OR push_bit 4 genre1;
          d3 = (genre2 AND 0xF) OR push_bit 4 (ucast (cmd AND 0xF));
          d4 = push_bit 6 id OR ucast (drop_bit 4 cmd) in
      Inr (load_payload (max_length pd) (\<lambda>d. d[0 := d0, 1 := d1, 2 := d2, 3 := d3, 4 := d4, 5 := d2 XOR d3 XOR d4])
        (infrared_common_encoder_reset pd enc)))"

definition infrared_protocol_kaseikyo :: InfraredCommonProtocolSpec where
  "infrared_protocol_kaseikyo =
     \<lparr>pdata =
        \<lparr>spec_timings =
           \<lparr>min_split_time = 4000, silence_time = 130000, preamble_mark = 8 * 432, preamble_space = 4 * 432,
            bit1_mark = 432, bit1_space = 3 * 432, bit0_mark = 432, bit0_space = 432,
            preamble_tolerance = 200, bit_tolerance = 120\<rparr>,
         manchester_start_from_space = False, databit_len = [48, 0, 0, 0]\<rparr>,
      decode = infrared_common_decode_pdwm, decode_repeat = None,
      interpret_msg = infrared_decoder_kaseikyo_interpret, encode = infrared_common_encode_pdwm, encode_repeat = None\<rparr>"

definition infrared_protocol_kaseikyo_get_variant :: "InfraredProtocol \<Rightarrow> InfraredProtocolVariant option" where
  "infrared_protocol_kaseikyo_get_variant p =
     (case p of
        InfraredProtocolKaseikyo \<Rightarrow> Some \<lparr>variant_name = ''Kaseikyo'', address_length = 26, command_length = 10,
          frequency = 38000, duty_cycle = 33, repeat_count = 1\<rparr>
      | _ \<Rightarrow> None)"

section \<open>Pioneer\<close>

definition infrared_decoder_pioneer_interpret ::
  "InfraredProtocolData \<Rightarrow> InfraredCommonDecoder \<Rightarrow> bool \<times> InfraredCommonDecoder" where
  "infrared_decoder_pioneer_interpret pd dec =
     (let data = load_le32 (ir_data dec) in
      if databit_cnt dec = databit_len pd ! 0 \<or> databit_cnt dec = databit_len pd ! 1 then
        let addr = ucast (data AND 0xFF) :: u8;
            address_checksum = ucast (drop_bit 8 data AND 0xFF) :: u8;
            cmd = ucast (drop_bit 16 data AND 0xFF) :: u8;
            command_checksum = ucast (drop_bit 24 data AND 0xFF) :: u8 in
        if address_checksum \<noteq> NOT addr then (False, dec)
        else if command_checksum \<noteq> NOT cmd then (False, dec)
        else (True, set_message InfraredProtocolPioneer (ucast addr) (ucast cmd) dec)
      else (False, dec))"

definition infrared_encoder_pioneer_reset ::
  "InfraredProtocolData \<Rightarrow> InfraredCommonEncoder \<Rightarrow> InfraredMessage \<Rightarrow> InfraredCommonEncoder checked" where
  "infrared_encoder_pioneer_reset pd enc m =
     (let enc = infrared_common_encoder_reset pd enc in
      if protocol m = InfraredProtocolPioneer
      then Inr (load_payload (max_length pd) (\<lambda>d. d[0 := ucast (address m AND 0xFF), 1 := ucast (NOT (address m AND 0xFF)),
        2 := ucast (command m AND 0xFF), 3 := ucast (NOT (command m AND 0xFF)), 4 := 0]) enc)
      else Inl Furi_Check)"

definition infrared_encoder_pioneer_encode_repeat :: "InfraredProtocolData \<Rightarrow> InfraredCommonEncoder \<Rightarrow> encode_result" where
  "infrared_encoder_pioneer_encode_repeat pd enc =
     (InfraredStatusOk, 26000, False,
      enc\<lparr>timings_sum := 0, timings_encoded := 1, bits_encoded := 0, enc_state := InfraredCommonEncoderStatePreamble\<rparr>)"

definition infrared_protocol_pioneer :: InfraredCommonProtocolSpec where
  "infrared_protocol_pioneer =
     \<lparr>pdata =
        \<lparr>spec_timings =
           \<lparr>min_split_time = 26000, silence_time = 26000, preamble_mark = 8500, preamble_space = 4225,
            bit1_mark = 500, bit1_space = 1500, bit0_mark = 500, bit0_space = 500,
            preamble_tolerance = 200, bit_tolerance = 120\<rparr>,
         manchester_start_from_space = False, databit_len = [33, 32, 0, 0]\<rparr>,
      decode = infrared_common_decode_pdwm, decode_repeat = None,
      interpret_msg = infrared_decoder_pioneer_interpret, encode = infrared_common_encode_pdwm,
      encode_repeat = Some infrared_encoder_pioneer_encode_repeat\<rparr>"

text \<open>The encoders of Pioneer and SIRC end a message by themselves when the last bit is out.\<close>

definition finish_on_last_bit :: "encode_result \<Rightarrow> encode_result" where
  "finish_on_last_bit r =
     (case r of (status, duration, lvl, enc) \<Rightarrow>
        if status = InfraredStatusOk \<and> bits_encoded enc = bits_to_encode enc
        then (InfraredStatusDone, duration, lvl, enc\<lparr>enc_state := InfraredCommonEncoderStateEncodeRepeat\<rparr>)
        else r)"

definition infrared_encoder_pioneer_encode :: "InfraredCommonEncoder \<Rightarrow> encode_result" where
  "infrared_encoder_pioneer_encode enc = finish_on_last_bit (infrared_common_encode infrared_protocol_pioneer enc)"

definition infrared_protocol_pioneer_get_variant :: "InfraredProtocol \<Rightarrow> InfraredProtocolVariant option" where
  "infrared_protocol_pioneer_get_variant p =
     (case p of
        InfraredProtocolPioneer \<Rightarrow> Some \<lparr>variant_name = ''Pioneer'', address_length = 8, command_length = 8,
          frequency = 40000, duty_cycle = 33, repeat_count = 2\<rparr>
      | _ \<Rightarrow> None)"

section \<open>SIRC\<close>

definition infrared_decoder_sirc_interpret ::
  "InfraredProtocolData \<Rightarrow> InfraredCommonDecoder \<Rightarrow> bool \<times> InfraredCommonDecoder" where
  "infrared_decoder_sirc_interpret pd dec =
     (let data = load_le32 (ir_data dec) in
      if databit_cnt dec = 12 then (True, set_message InfraredProtocolSIRC (drop_bit 7 data AND 0x1F) (data AND 0x7F) dec)
      else if databit_cnt dec = 15 then (True, set_message InfraredProtocolSIRC15 (drop_bit 7 data AND 0xFF) (data AND 0x7F) dec)
      else if databit_cnt dec = 20 then (True, set_message InfraredProtocolSIRC20 (drop_bit 7 data AND 0x1FFF) (data AND 0x7F) dec)
      else (False, dec))"

definition infrared_encoder_sirc_reset ::
  "InfraredProtocolData \<Rightarrow> InfraredCommonEncoder \<Rightarrow> InfraredMessage \<Rightarrow> InfraredCommonEncoder checked" where
  "infrared_encoder_sirc_reset pd enc m =
     (let enc = infrared_common_encoder_reset pd enc; c = command m AND 0x7F in
      case protocol m of
        InfraredProtocolSIRC \<Rightarrow> Inr (load_payload 12 (store_le32 0 (c OR push_bit 7 (address m AND 0x1F))) enc)
      | InfraredProtocolSIRC15 \<Rightarrow> Inr (load_payload 15 (store_le32 0 (c OR push_bit 7 (address m AND 0xFF))) enc)
      | InfraredProtocolSIRC20 \<Rightarrow> Inr (load_payload 20 (store_le32 0 (c OR push_bit 7 (address m AND 0x1FFF))) enc)
      | _ \<Rightarrow> Inl Furi_Check)"

definition infrared_encoder_sirc_encode_repeat :: "InfraredProtocolData \<Rightarrow> InfraredCommonEncoder \<Rightarrow> encode_result" where
  "infrared_encoder_sirc_encode_repeat pd enc =
     (InfraredStatusOk, 45000 - timings_sum enc, False,
      enc\<lparr>timings_sum := 0, timings_encoded := 1, bits_encoded := 0, enc_state := InfraredCommonEncoderStatePreamble\<rparr>)"

definition infrared_protocol_sirc :: InfraredCommonProtocolSpec where
  "infrared_protocol_sirc =
     \<lparr>pdata =
        \<lparr>spec_timings =
           \<lparr>min_split_time = 10000 - 1000, silence_time = 10000, preamble_mark = 2400, preamble_space = 600,
            bit1_mark = 1200, bit1_space = 600, bit0_mark = 600, bit0_space = 600,
            preamble_tolerance = 200, bit_tolerance = 120\<rparr>,
         manchester_start_from_space = False, databit_len = [20, 15, 12, 0]\<rparr>,
      decode = infrared_common_decode_pdwm, decode_repeat = None,
      interpret_msg = infrared_decoder_sirc_interpret, encode = infrared_common_encode_pdwm,
      encode_repeat = Some infrared_encoder_sirc_encode_repeat\<rparr>"

definition infrared_encoder_sirc_encode :: "InfraredCommonEncoder \<Rightarrow> encode_result" where
  "infrared_encoder_sirc_encode enc = finish_on_last_bit (infrared_common_encode infrared_protocol_sirc enc)"

definition infrared_protocol_sirc_get_variant :: "InfraredProtocol \<Rightarrow> InfraredProtocolVariant option" where
  "infrared_protocol_sirc_get_variant p =
     (case p of
        InfraredProtocolSIRC \<Rightarrow> Some \<lparr>variant_name = ''SIRC'', address_length = 5, command_length = 7,
          frequency = 40000, duty_cycle = 33, repeat_count = 3\<rparr>
      | InfraredProtocolSIRC15 \<Rightarrow> Some \<lparr>variant_name = ''SIRC15'', address_length = 8, command_length = 7,
          frequency = 40000, duty_cycle = 33, repeat_count = 3\<rparr>
      | InfraredProtocolSIRC20 \<Rightarrow> Some \<lparr>variant_name = ''SIRC20'', address_length = 13, command_length = 7,
          frequency = 40000, duty_cycle = 33, repeat_count = 3\<rparr>
      | _ \<Rightarrow> None)"

section \<open>RC5\<close>

text \<open>RC5 and RC6 mark a message as repeated when the toggle bit has not changed since the previous one.\<close>

definition set_toggled_message :: "InfraredProtocol \<Rightarrow> u32 \<Rightarrow> u32 \<Rightarrow> bool \<Rightarrow> InfraredCommonDecoder \<Rightarrow> InfraredCommonDecoder" where
  "set_toggled_message p a c t dec =
     (let m = message dec in
      dec\<lparr>message := \<lparr>protocol = p, address = a, command = c,
            repeat_flag = (address m = a \<and> command m = c \<and> protocol m = p \<and> t = ctx_toggle dec)\<rparr>,
          ctx_toggle := t\<rparr>)"

definition infrared_decoder_rc5_interpret ::
  "InfraredProtocolData \<Rightarrow> InfraredCommonDecoder \<Rightarrow> bool \<times> InfraredCommonDecoder" where
  "infrared_decoder_rc5_interpret pd dec =
     (let d = (ir_data dec)[0 := NOT (byte_at (ir_data dec) 0), 1 := NOT (byte_at (ir_data dec) 1)];
          dec = dec\<lparr>ir_data := d\<rparr>;
          data = load_le32 d;
          addr = reverse (byte_at d 0) AND 0x1F;
          cmd = drop_bit 2 (reverse (byte_at d 1)) AND 0x3F;
          start_bit1 = (data AND 1 \<noteq> 0);
          start_bit2 = (data AND 2 \<noteq> 0);
          toggle = (data AND 4 \<noteq> 0) in
      if start_bit1
      then (True, set_toggled_message (if start_bit2 then InfraredProtocolRC5 else InfraredProtocolRC5X)
             (ucast addr) (ucast cmd) toggle dec)
      else (False, dec))"

record InfraredEncoderInstance =
  common_encoder :: InfraredCommonEncoder
  toggle_bit :: bool

definition infrared_protocol_rc5 :: InfraredCommonProtocolSpec where
  "infrared_protocol_rc5 =
     \<lparr>pdata =
        \<lparr>spec_timings =
           \<lparr>min_split_time = 2700, silence_time = 2700 * 10, preamble_mark = 0, preamble_space = 0,
            bit1_mark = 888, bit1_space = 0, bit0_mark = 0, bit0_space = 0,
            preamble_tolerance = 0, bit_tolerance = 120\<rparr>,
         manchester_start_from_space = True, databit_len = [1 + 1 + 1 + 5 + 6, 0, 0, 0]\<rparr>,
      decode = infrared_common_decode_manchester, decode_repeat = None,
      interpret_msg = infrared_decoder_rc5_interpret, encode = infrared_common_encode_manchester, encode_repeat = None\<rparr>"

definition infrared_encoder_rc5_reset :: "InfraredEncoderInstance \<Rightarrow> InfraredMessage \<Rightarrow> InfraredEncoderInstance" where
  "infrared_encoder_rc5_reset enc m =
     (let pd = pdata infrared_protocol_rc5;
          ce = infrared_common_encoder_reset pd (common_encoder enc);
          data = load_le32 (enc_data ce) OR 1 OR (if protocol m = InfraredProtocolRC5 then 2 else 0) OR
            (if toggle_bit enc then 4 else 0) OR push_bit 3 (ucast (drop_bit 3 (reverse (ucast (address m))))) OR
            push_bit 8 (ucast (drop_bit 2 (reverse (ucast (command m)))));
          d = store_le32 0 data (enc_data ce) in
      enc\<lparr>common_encoder := ce\<lparr>enc_data := d[0 := NOT (byte_at d 0), 1 := NOT (byte_at d 1)], bits_to_encode := max_length pd\<rparr>,
          toggle_bit := \<not> toggle_bit enc\<rparr>)"

definition infrared_protocol_rc5_get_variant :: "InfraredProtocol \<Rightarrow> InfraredProtocolVariant option" where
  "infrared_protocol_rc5_get_variant p =
     (case p of
        InfraredProtocolRC5 \<Rightarrow> Some \<lparr>variant_name = ''RC5'', address_length = 5, command_length = 6,
          frequency = 36000, duty_cycle = 33, repeat_count = 1\<rparr>
      | InfraredProtocolRC5X \<Rightarrow> Some \<lparr>variant_name = ''RC5X'', address_length = 5, command_length = 7,
          frequency = 36000, duty_cycle = 33, repeat_count = 1\<rparr>
      | _ \<Rightarrow> None)"

section \<open>RC6\<close>

definition infrared_decoder_rc6_interpret ::
  "InfraredProtocolData \<Rightarrow> InfraredCommonDecoder \<Rightarrow> bool \<times> InfraredCommonDecoder" where
  "infrared_decoder_rc6_interpret pd dec =
     (let data = load_le32 (ir_data dec);
          addr = reverse (ucast (drop_bit 5 data));
          cmd = reverse (ucast (drop_bit 13 data));
          start_bit = (data AND 1 \<noteq> 0);
          toggle = (data AND 0x10 \<noteq> 0);
          mode = drop_bit 1 data AND 7 in
      if start_bit \<and> mode = 0
      then (True, set_toggled_message InfraredProtocolRC6 (ucast addr) (ucast cmd) toggle dec)
      else (False, dec))"

definition infrared_decoder_rc6_decode_manchester ::
  "InfraredProtocolData \<Rightarrow> InfraredCommonDecoder \<Rightarrow> bool \<Rightarrow> u32 \<Rightarrow> decode_result" where
  "infrared_decoder_rc6_decode_manchester pd dec lvl timing =
     (let tm = spec_timings pd;
          bit = ucast (bit1_mark tm);
          single_timing = MATCH_TIMING timing bit (bit_tolerance tm);
          double_timing = MATCH_TIMING timing (2 * bit) (bit_tolerance tm);
          triple_timing = MATCH_TIMING timing (3 * bit) (bit_tolerance tm) in
      if databit_cnt dec = 4 then
        if single_timing \<noteq> triple_timing
        then checked_bind (mem_read (ir_data dec) 0) (\<lambda>old.
             checked_bind (mem_write (ir_data dec) 0 (old OR (if (if single_timing then \<not> lvl else lvl) then push_bit 4 1 else 0))) (\<lambda>d.
             Inr (InfraredStatusOk, dec\<lparr>databit_cnt := 5, ir_data := d\<rparr>)))
        else Inr (InfraredStatusError, dec)
      else if databit_cnt dec = 5 then
        if single_timing \<or> triple_timing
        then infrared_common_decode_manchester pd (dec\<lparr>switch_detect := False\<rparr>) lvl (if triple_timing then bit else timing)
        else if double_timing then Inr (InfraredStatusOk, dec)
        else Inr (InfraredStatusError, dec)
      else infrared_common_decode_manchester pd dec lvl timing)"

definition infrared_encoder_rc6_encode_manchester :: "InfraredProtocolData \<Rightarrow> InfraredCommonEncoder \<Rightarrow> encode_result" where
  "infrared_encoder_rc6_encode_manchester pd enc =
     (case infrared_common_encode_manchester pd enc of (status, duration, lvl, enc') \<Rightarrow>
        (status, if bits_encoded enc = 4 then duration * 2 else duration, lvl, enc'))"

definition infrared_protocol_rc6 :: InfraredCommonProtocolSpec where
  "infrared_protocol_rc6 =
     \<lparr>pdata =
        \<lparr>spec_timings =
           \<lparr>min_split_time = 2700, silence_time = 2700 * 10, preamble_mark = 2666, preamble_space = 889,
            bit1_mark = 444, bit1_space = 0, bit0_mark = 0, bit0_space = 0,
            preamble_tolerance = 200, bit_tolerance = 120\<rparr>,
         manchester_start_from_space = False, databit_len = [1 + 3 + 1 + 8 + 8, 0, 0, 0]\<rparr>,
      decode = infrared_decoder_rc6_decode_manchester, decode_repeat = None,
      interpret_msg = infrared_decoder_rc6_interpret, encode = infrared_encoder_rc6_encode_manchester, encode_repeat = None\<rparr>"

definition infrared_encoder_rc6_reset :: "InfraredEncoderInstance \<Rightarrow> InfraredMessage \<Rightarrow> InfraredEncoderInstance" where
  "infrared_encoder_rc6_reset enc m =
     (let pd = pdata infrared_protocol_rc6;
          ce = infrared_common_encoder_reset pd (common_encoder enc);
          data = load_le32 (enc_data ce) OR 1 OR (if toggle_bit enc then 0x10 else 0) OR
            push_bit 5 (ucast (reverse (ucast (address m)))) OR push_bit 13 (ucast (reverse (ucast (command m)))) in
      enc\<lparr>common_encoder := load_payload (max_length pd) (store_le32 0 data) ce, toggle_bit := \<not> toggle_bit enc\<rparr>)"

definition infrared_protocol_rc6_get_variant :: "InfraredProtocol \<Rightarrow> InfraredProtocolVariant option" where
  "infrared_protocol_rc6_get_variant p =
     (case p of
        InfraredProtocolRC6 \<Rightarrow> Some \<lparr>variant_name = ''RC6'', address_length = 8, command_length = 8,
          frequency = 36000, duty_cycle = 33, repeat_count = 1\<rparr>
      | _ \<Rightarrow> None)"

end
