(* ===== verification/Infrared_Transmission.thy ===== *)
theory Infrared_Transmission
  imports Infrared_Pdwm Infrared_Protocols
begin

text \<open>
  The pulse-distance protocols meet the interface of \<open>Infrared_Pdwm\<close>, so a message that an encoder is
  reset to is the message a decoder of the same protocol reports.
\<close>

section \<open>The protocol tables\<close>

lemmas spec_defs = infrared_protocol_nec_def infrared_protocol_samsung32_def infrared_protocol_rca_def
  infrared_protocol_kaseikyo_def infrared_protocol_pioneer_def infrared_protocol_sirc_def

interpretation nec: pdm_protocol infrared_protocol_nec "pdata infrared_protocol_nec" "spec_timings (pdata infrared_protocol_nec)"
  by unfold_locales (auto simp: spec_defs MATCH_TIMING_def infrared_decoder_nec_decode_repeat_def Let_def)

interpretation samsung: pdm_protocol infrared_protocol_samsung32 "pdata infrared_protocol_samsung32"
    "spec_timings (pdata infrared_protocol_samsung32)"
  by unfold_locales (auto simp: spec_defs MATCH_TIMING_def infrared_decoder_samsung32_decode_repeat_def Let_def)

interpretation rca: pdm_protocol infrared_protocol_rca "pdata infrared_protocol_rca" "spec_timings (pdata infrared_protocol_rca)"
  by unfold_locales (auto simp: spec_defs MATCH_TIMING_def)

interpretation kaseikyo: pdm_protocol infrared_protocol_kaseikyo "pdata infrared_protocol_kaseikyo"
    "spec_timings (pdata infrared_protocol_kaseikyo)"
  by unfold_locales (auto simp: spec_defs MATCH_TIMING_def)

interpretation pioneer: pdm_protocol infrared_protocol_pioneer "pdata infrared_protocol_pioneer"
    "spec_timings (pdata infrared_protocol_pioneer)"
  by unfold_locales (auto simp: spec_defs MATCH_TIMING_def)

section \<open>Payloads\<close>

lemma byte_received:
  assumes "received n (dbit xs) d" "j < length xs" "j < length (ir_data d)" "8 * j < n"
    and "\<And>k. n \<le> 8 * j + k \<Longrightarrow> \<not> bit (xs ! j) k"
  shows "byte_at (ir_data d) j = xs ! j"
proof (rule bit_word_eqI)
  fix k assume k: "k < LENGTH(8)"
  have idx: "(8 * j + k) div 8 = j" "(8 * j + k) mod 8 = k" using k by auto
  show "bit (byte_at (ir_data d) j) k = bit (xs ! j) k"
  proof (cases "8 * j + k < n")
    case True
    then have "dbit (ir_data d) (8 * j + k) = dbit xs (8 * j + k)"
      using assms(1) by (simp add: received_def)
    then show ?thesis using assms(3) idx by (simp add: dbit_def byte_at_def)
  next
    case False
    then obtain r where "n = 8 * j + r" "0 < r" "r \<le> k"
      using assms(4) by (metis le_add_diff_inverse less_imp_le_nat linorder_not_less nat_add_left_cancel_le zero_less_diff)
    then have "n div 8 = j" "n mod 8 \<le> k" "n mod 8 \<noteq> 0"
      using k by simp_all
    then show ?thesis
      using assms(1,3) assms(5) [of k] False by (simp add: received_def byte_at_def)
  qed
qed

lemma whole_byte_received:
  assumes "received n (dbit xs) d" "j < length xs" "j < length (ir_data d)" "8 * j + 8 \<le> n"
  shows "byte_at (ir_data d) j = xs ! j"
proof (rule byte_received [OF assms(1-3)])
  fix k assume "n \<le> 8 * j + k"
  then show "\<not> bit (xs ! j) k" using assms(4) bit_imp_le_length [of "xs ! j" k] by auto
qed (use assms(4) in simp)

text \<open>What a reset leaves in the encoder.\<close>

lemma reset_loaded:
  assumes "length (enc_data enc) = payload_bytes pd" "fold max (databit_len pd) 0 = max_length pd"
  shows "loaded n (f (replicate (payload_bytes pd) 0)) (load_payload n f (infrared_common_encoder_reset pd enc))"
  using assms by (simp add: loaded_def load_payload_def infrared_common_encoder_reset_def Let_def payload_bytes_def)


context pdm_protocol
begin

lemma delivers_bytes:
  assumes "length (enc_data enc) = payload_bytes pd" "fold max (databit_len pd) 0 = max_length pd"
    "known_length pd n" "n \<le> max_length pd" "n \<le> 8 * length (f (replicate (payload_bytes pd) 0))"
    "length (f (replicate (payload_bytes pd) 0)) = payload_bytes pd"
    and pad: "\<And>j k. 8 * j < n \<Longrightarrow> n \<le> 8 * j + k \<Longrightarrow> \<not> bit (f (replicate (payload_bytes pd) 0) ! j) k"
    and m: "\<And>d. databit_cnt d = n \<Longrightarrow> (\<And>j. 8 * j < n \<Longrightarrow> byte_at (ir_data d) j = f (replicate (payload_bytes pd) 0) ! j) \<Longrightarrow>
      interpret_msg spec pd d = (True, d\<lparr>message := m\<rparr>)"
  shows "delivers spec n (load_payload n f (infrared_common_encoder_reset pd enc)) m"
proof (rule transmission [OF reset_loaded [OF assms(1,2)]])
  let ?xs = "f (replicate (payload_bytes pd) 0)"
  fix d assume d: "received n (dbit ?xs) d" "length (ir_data d) = payload_bytes pd"
  show "interpret_msg spec pd d = (True, d\<lparr>message := m\<rparr>)"
  proof (rule m)
    show "databit_cnt d = n" using d(1) by (simp add: received_def)
    fix j assume "8 * j < n"
    then show "byte_at (ir_data d) j = ?xs ! j"
      using assms(5,6) d pad by (intro byte_received [OF d(1)]) auto
  qed
qed (use assms in simp_all)

end

lemma store_le32_bytes:
  "length xs = 6 \<Longrightarrow> store_le32 0 v xs = [ucast v, ucast (drop_bit 8 v), ucast (drop_bit 16 v), ucast (drop_bit 24 v), xs ! 4, xs ! 5]"
  "length xs = 6 \<Longrightarrow> store_le32 4 v xs = [xs ! 0, xs ! 1, xs ! 2, xs ! 3, ucast v, ucast (drop_bit 8 v)]"
  by (auto simp: store_le32_def list_eq_iff_nth_eq nth_list_update less_Suc_eq nth_Cons' numeral_eq_Suc)

lemma four_bytes:
  fixes a b c e :: u8
  defines "v \<equiv> ucast a OR push_bit 8 (ucast b) OR push_bit 16 (ucast c) OR push_bit 24 (ucast e) :: u32"
  shows "ucast v = a" "ucast (drop_bit 8 v) = b" "ucast (drop_bit 16 v) = c" "ucast (drop_bit 24 v) = e"
  unfolding v_def by (rule bit_word_eqI; auto simp: bit_simps dest: bit_imp_le_length)+

lemma ucast_back [simp]: "unat (a :: u32) < 256 \<Longrightarrow> ucast (ucast a :: u8) = a"
  by (rule bit_word_eqI) (auto simp: bit_simps dest: bit_below [of a 8, simplified])

text \<open>The masks of the code, as truncations.\<close>

lemma mask_takes:
  fixes x :: "'a::len word"
  shows "x AND 3 = take_bit 2 x" "x AND 7 = take_bit 3 x" "x AND 0xF = take_bit 4 x" "x AND 0x1F = take_bit 5 x"
    "x AND 0x3F = take_bit 6 x" "x AND 0x7F = take_bit 7 x" "x AND 0xFF = take_bit 8 x" "x AND 0x3FF = take_bit 10 x"
    "x AND 0x1FFF = take_bit 13 x" "x AND 0xFFFF = take_bit 16 x" "x AND 0x3FFFFFF = take_bit 26 x"
  by (simp_all add: take_bit_eq_mask mask_eq_exp_minus_1)

lemma split_takes:
  fixes x :: u32
  shows "drop_bit 6 (x AND 0xC0) = take_bit 2 (drop_bit 6 x)" "drop_bit 6 (x AND 0xFFC0) = take_bit 10 (drop_bit 6 x)"
  by (simp_all flip: mask_takes)

lemma load_le32_bytes:
  assumes "byte_at xs 0 = ucast v" "byte_at xs 1 = ucast (drop_bit 8 v)" "byte_at xs 2 = ucast (drop_bit 16 v)"
    "byte_at xs 3 = ucast (drop_bit 24 v)"
  shows "load_le32 xs = v"
proof (rule bit_word_eqI)
  fix n :: nat assume "n < LENGTH(32)"
  then consider "n < 8" | "8 \<le> n" "n < 16" | "16 \<le> n" "n < 24" | "24 \<le> n" "n < 32" by fastforce
  then show "bit (load_le32 xs) n = bit v n"
    unfolding load_le32_def assms by cases (auto simp: bit_simps)
qed

definition message_fits :: "InfraredProtocolVariant \<Rightarrow> InfraredMessage \<Rightarrow> bool" where
  "message_fits v m \<longleftrightarrow> unat (address m) < 2 ^ address_length v \<and> unat (command m) < 2 ^ command_length v \<and> \<not> repeat_flag m"

text \<open>An extended NEC message whose halves are complements is a plain NEC message on the air.\<close>

definition nec_ambiguous :: "InfraredMessage \<Rightarrow> bool" where
  "nec_ambiguous m =
     (case protocol m of
        InfraredProtocolNECext \<Rightarrow>
          ucast (address m) = (NOT (ucast (drop_bit 8 (address m))) :: u8) \<and> ucast (command m) = (NOT (ucast (drop_bit 8 (command m))) :: u8)
      | InfraredProtocolNEC42ext \<Rightarrow>
          address m AND 0x1FFF = NOT (drop_bit 13 (address m)) AND 0x1FFF \<and> command m AND 0xFF = NOT (drop_bit 8 (command m)) AND 0xFF
      | _ \<Rightarrow> False)"

text \<open>What a receiver reports of a message: the plain message when an extended one spells it.\<close>

definition reported :: "InfraredMessage \<Rightarrow> InfraredMessage" where
  "reported m =
     (if \<not> nec_ambiguous m then m
      else if protocol m = InfraredProtocolNECext
      then m\<lparr>protocol := InfraredProtocolNEC, address := address m AND 0xFF, command := command m AND 0xFF\<rparr>
      else m\<lparr>protocol := InfraredProtocolNEC42, address := address m AND 0x1FFF, command := command m AND 0xFF\<rparr>)"

lemma reported_other:
  "protocol m \<noteq> InfraredProtocolNECext \<Longrightarrow> protocol m \<noteq> InfraredProtocolNEC42ext \<Longrightarrow> reported m = m"
  by (cases "protocol m") (simp_all add: reported_def nec_ambiguous_def)

section \<open>NEC\<close>

lemma nec_lengths:
  "payload_bytes (pdata infrared_protocol_nec) = 6" "known_length (pdata infrared_protocol_nec) 32"
  "known_length (pdata infrared_protocol_nec) 42" "databit_len (pdata infrared_protocol_nec) = [42, 32, 0, 0]"
  by (simp_all add: payload_bytes_def known_length_def spec_defs)

lemma nec_interprets: "interpret_msg infrared_protocol_nec = infrared_decoder_nec_interpret"
  by (simp add: spec_defs)

text \<open>NEC and NECext: the four bytes of one word.\<close>

lemma nec_delivers_32:
  assumes "length (enc_data enc) = 6"
    and "\<And>d. databit_cnt d = 32 \<Longrightarrow> byte_at (ir_data d) 0 = ucast v \<Longrightarrow> byte_at (ir_data d) 1 = ucast (drop_bit 8 v) \<Longrightarrow>
      byte_at (ir_data d) 2 = ucast (drop_bit 16 v) \<Longrightarrow> byte_at (ir_data d) 3 = ucast (drop_bit 24 v) \<Longrightarrow>
      infrared_decoder_nec_interpret (pdata infrared_protocol_nec) d = (True, d\<lparr>message := m\<rparr>)"
  shows "delivers infrared_protocol_nec 32
    (load_payload 32 (store_le32 0 v) (infrared_common_encoder_reset (pdata infrared_protocol_nec) enc)) m"
proof (rule nec.delivers_bytes)
  fix d :: InfraredCommonDecoder assume "databit_cnt d = 32"
    and b: "\<And>j. 8 * j < 32 \<Longrightarrow> byte_at (ir_data d) j = store_le32 0 v (replicate (payload_bytes (pdata infrared_protocol_nec)) 0) ! j"
  then show "interpret_msg infrared_protocol_nec (pdata infrared_protocol_nec) d = (True, d\<lparr>message := m\<rparr>)"
    using assms(2) [of d] b [of 0] b [of 1] b [of 2] b [of 3]
    by (simp add: store_le32_bytes nec_lengths nec_interprets)
next
  fix j k :: nat assume "8 * j < 32" "32 \<le> 8 * j + k"
  then have "8 \<le> k" by auto
  then show "\<not> bit (store_le32 0 v (replicate (payload_bytes (pdata infrared_protocol_nec)) 0) ! j) k"
    by (auto dest: bit_imp_le_length)
qed (use assms(1) in \<open>simp_all add: nec_lengths store_le32_bytes\<close>)

text \<open>NEC42 and NEC42ext: one word and ten bits.\<close>

lemma nec_delivers_42:
  assumes "length (enc_data enc) = 6" "unat w < 2 ^ 10"
    and "\<And>d. databit_cnt d = 42 \<Longrightarrow> load_le32 (ir_data d) = v \<Longrightarrow>
      ucast (byte_at (ir_data d) 4) OR push_bit 8 (ucast (byte_at (ir_data d) 5)) = w \<Longrightarrow>
      infrared_decoder_nec_interpret (pdata infrared_protocol_nec) d = (True, d\<lparr>message := m\<rparr>)"
  shows "delivers infrared_protocol_nec 42
    (load_payload 42 (\<lambda>d. store_le32 4 w (store_le32 0 v d)) (infrared_common_encoder_reset (pdata infrared_protocol_nec) enc)) m"
proof (rule nec.delivers_bytes)
  let ?xs = "[ucast v, ucast (drop_bit 8 v), ucast (drop_bit 16 v), ucast (drop_bit 24 v), ucast w, ucast (drop_bit 8 w)] :: u8 list"
  have xs: "store_le32 4 w (store_le32 0 v (replicate (payload_bytes (pdata infrared_protocol_nec)) 0)) = ?xs"
    by (simp add: nec_lengths store_le32_bytes)
  have w: "ucast (ucast w :: u8) OR push_bit 8 (ucast (ucast (drop_bit 8 w) :: u8)) = w"
    by (rule bit_word_eqI) (auto simp: bit_simps dest: bit_below [OF assms(2)])
  { fix d :: InfraredCommonDecoder assume n: "databit_cnt d = 42"
      and b: "\<And>j. 8 * j < 42 \<Longrightarrow> byte_at (ir_data d) j =
        store_le32 4 w (store_le32 0 v (replicate (payload_bytes (pdata infrared_protocol_nec)) 0)) ! j"
    have "load_le32 (ir_data d) = v"
      using b [of 0] b [of 1] b [of 2] b [of 3] by (intro load_le32_bytes) (simp_all add: xs)
    moreover have "ucast (byte_at (ir_data d) 4) OR push_bit 8 (ucast (byte_at (ir_data d) 5)) = w"
      using b [of 4] b [of 5] w by (simp add: xs)
    ultimately show "interpret_msg infrared_protocol_nec (pdata infrared_protocol_nec) d = (True, d\<lparr>message := m\<rparr>)"
      using assms(3) n by (simp add: nec_interprets) }
  { fix j k assume jk: "8 * j < (42::nat)" "42 \<le> 8 * j + k"
    show "\<not> bit (store_le32 4 w (store_le32 0 v (replicate (payload_bytes (pdata infrared_protocol_nec)) 0)) ! j) k"
    proof (cases "j = 5")
      case True
      then show ?thesis using jk bit_below [OF assms(2), of "8 + k"] by (auto simp: xs bit_simps)
    next
      case False
      then have "8 \<le> k" using jk by auto
      then show ?thesis by (auto dest: bit_imp_le_length)
    qed }
qed (use assms(1) in \<open>simp_all add: nec_lengths store_le32_bytes\<close>)

lemma interpret_nec_32:
  assumes "databit_cnt d = 32"
  shows "byte_at (ir_data d) 2 = NOT (byte_at (ir_data d) 3) \<Longrightarrow> byte_at (ir_data d) 0 = NOT (byte_at (ir_data d) 1) \<Longrightarrow>
      infrared_decoder_nec_interpret pd d =
        (True, set_message InfraredProtocolNEC (ucast (byte_at (ir_data d) 0)) (ucast (byte_at (ir_data d) 2)) d)"
    and "\<not> (byte_at (ir_data d) 2 = NOT (byte_at (ir_data d) 3) \<and> byte_at (ir_data d) 0 = NOT (byte_at (ir_data d) 1)) \<Longrightarrow>
      infrared_decoder_nec_interpret pd d =
        (True, set_message InfraredProtocolNECext (ucast (byte_at (ir_data d) 0) OR push_bit 8 (ucast (byte_at (ir_data d) 1)))
                (ucast (byte_at (ir_data d) 2) OR push_bit 8 (ucast (byte_at (ir_data d) 3))) d)"
  using assms unfolding infrared_decoder_nec_interpret_def Let_def by (simp_all only: simp_thms if_True if_False)

lemma set_message_eq:
  "protocol m = p \<Longrightarrow> address m = a \<Longrightarrow> command m = c \<Longrightarrow> \<not> repeat_flag m \<Longrightarrow> set_message p a c d = d\<lparr>message := m\<rparr>"
  by (cases m) (simp add: set_message_def)

lemma two_bytes: "unat (a :: u32) < 65536 \<Longrightarrow> ucast (ucast a :: u8) OR push_bit 8 (ucast (ucast (drop_bit 8 a) :: u8)) = a"
  by (rule bit_word_eqI) (auto simp: bit_simps dest: bit_below [of a 16, simplified])

lemma ext_bytes:
  fixes a c :: u32
  defines "v \<equiv> ucast (ucast a :: u16) OR push_bit 16 (c AND 0xFFFF) :: u32"
  shows "ucast v = (ucast a :: u8)" "ucast (drop_bit 8 v) = (ucast (drop_bit 8 a) :: u8)"
    "ucast (drop_bit 16 v) = (ucast c :: u8)" "ucast (drop_bit 24 v) = (ucast (drop_bit 8 c) :: u8)"
  unfolding v_def mask_takes by (rule bit_word_eqI; auto simp: bit_simps dest: bit_imp_le_length)+

lemma nec_message_plain:
  assumes "infrared_protocol_nec_get_variant (protocol m) = Some v" "message_fits v m"
    "length (enc_data enc) = 6" "protocol m = InfraredProtocolNEC"
  shows "\<exists>enc'. infrared_encoder_nec_reset (pdata infrared_protocol_nec) enc m = Inr enc' \<and>
    delivers infrared_protocol_nec (bits_to_encode enc') enc' m"
proof -
  let ?v = "ucast (ucast (address m) :: u8) OR push_bit 8 (ucast (NOT (ucast (address m)) :: u8)) OR
    push_bit 16 (ucast (ucast (command m) :: u8)) OR push_bit 24 (ucast (NOT (ucast (command m)) :: u8)) :: u32"
  have fits: "unat (address m) < 256" "unat (command m) < 256" "\<not> repeat_flag m"
    using assms by (auto simp: message_fits_def infrared_protocol_nec_get_variant_def)
  have "delivers infrared_protocol_nec 32
      (load_payload 32 (store_le32 0 ?v) (infrared_common_encoder_reset (pdata infrared_protocol_nec) enc)) m"
  proof (rule nec_delivers_32 [OF assms(3)])
    fix d :: InfraredCommonDecoder
    assume n: "databit_cnt d = 32" and b: "byte_at (ir_data d) 0 = ucast ?v" "byte_at (ir_data d) 1 = ucast (drop_bit 8 ?v)"
      "byte_at (ir_data d) 2 = ucast (drop_bit 16 ?v)" "byte_at (ir_data d) 3 = ucast (drop_bit 24 ?v)"
    note b = b [unfolded four_bytes]
    show "infrared_decoder_nec_interpret (pdata infrared_protocol_nec) d = (True, d\<lparr>message := m\<rparr>)"
      using interpret_nec_32(1) [OF n] b fits assms(4) by (simp add: set_message_eq)
  qed
  then show ?thesis using assms(4) by (simp add: infrared_encoder_nec_reset_def load_payload_def Let_def)
qed

lemma ucast_low_byte: "ucast (ucast (a :: u32) :: u8) = a AND 0xFF"
  unfolding mask_takes by (rule bit_word_eqI) (auto simp: bit_simps)

lemma nec_message_ext:
  assumes "infrared_protocol_nec_get_variant (protocol m) = Some v" "message_fits v m"
    "length (enc_data enc) = 6" "protocol m = InfraredProtocolNECext"
  shows "\<exists>enc'. infrared_encoder_nec_reset (pdata infrared_protocol_nec) enc m = Inr enc' \<and>
    delivers infrared_protocol_nec (bits_to_encode enc') enc' (reported m)"
proof -
  let ?v = "ucast (ucast (address m) :: u16) OR push_bit 16 (command m AND 0xFFFF) :: u32"
  have fits: "unat (address m) < 65536" "unat (command m) < 65536" "\<not> repeat_flag m"
    using assms by (auto simp: message_fits_def infrared_protocol_nec_get_variant_def)
  have "delivers infrared_protocol_nec 32
      (load_payload 32 (store_le32 0 ?v) (infrared_common_encoder_reset (pdata infrared_protocol_nec) enc)) (reported m)"
  proof (rule nec_delivers_32 [OF assms(3)])
    fix d :: InfraredCommonDecoder
    assume n: "databit_cnt d = 32" and b: "byte_at (ir_data d) 0 = ucast ?v" "byte_at (ir_data d) 1 = ucast (drop_bit 8 ?v)"
      "byte_at (ir_data d) 2 = ucast (drop_bit 16 ?v)" "byte_at (ir_data d) 3 = ucast (drop_bit 24 ?v)"
    note b = b [unfolded ext_bytes]
    let ?plain = "byte_at (ir_data d) 2 = NOT (byte_at (ir_data d) 3) \<and> byte_at (ir_data d) 0 = NOT (byte_at (ir_data d) 1)"
    have amb: "?plain \<longleftrightarrow> nec_ambiguous m"
      using assms(4) unfolding b by (auto simp: nec_ambiguous_def)
    show "infrared_decoder_nec_interpret (pdata infrared_protocol_nec) d = (True, d\<lparr>message := reported m\<rparr>)"
    proof (cases "nec_ambiguous m")
      case True
      then have "infrared_decoder_nec_interpret (pdata infrared_protocol_nec) d =
          (True, set_message InfraredProtocolNEC (ucast (byte_at (ir_data d) 0)) (ucast (byte_at (ir_data d) 2)) d)"
        using interpret_nec_32(1) [OF n] amb by blast
      then show ?thesis
        unfolding b ucast_low_byte using True fits assms(4) by (simp add: set_message_eq reported_def)
    next
      case False
      then have no: "\<not> ?plain" using amb by blast
      from False have "reported m = m" by (simp add: reported_def)
      then show ?thesis
        unfolding interpret_nec_32(2) [OF n no] unfolding b two_bytes [OF fits(1)] two_bytes [OF fits(2)]
        using fits assms(4) by (simp add: set_message_eq)
    qed
  qed
  then show ?thesis using assms(4) by (simp add: infrared_encoder_nec_reset_def load_payload_def Let_def)
qed

text \<open>The 42-bit layout: 26 address bits and 16 command bits, split over the two words.\<close>

definition nec42_words :: "u32 \<Rightarrow> u32 \<Rightarrow> u32 \<times> u32" where
  "nec42_words a c = (take_bit 26 a OR push_bit 26 (take_bit 6 c), take_bit 10 (drop_bit 6 c))"

lemma nec42_fields:
  assumes "nec42_words a c = (v, w)"
  shows "v AND 0x1FFF = take_bit 13 a" "drop_bit 13 v AND 0x1FFF = take_bit 13 (drop_bit 13 a)"
    "(drop_bit 26 v AND 0x3F) OR push_bit 6 (w AND 3) = take_bit 8 c" "drop_bit 2 w AND 0xFF = take_bit 8 (drop_bit 8 c)"
    "unat w < 2 ^ 10"
proof -
  have v: "v = take_bit 26 a OR push_bit 26 (take_bit 6 c)" and w: "w = take_bit 10 (drop_bit 6 c)"
    using assms by (simp_all add: nec42_words_def)
  show "v AND 0x1FFF = take_bit 13 a" "drop_bit 13 v AND 0x1FFF = take_bit 13 (drop_bit 13 a)"
    "(drop_bit 26 v AND 0x3F) OR push_bit 6 (w AND 3) = take_bit 8 c" "drop_bit 2 w AND 0xFF = take_bit 8 (drop_bit 8 c)"
    unfolding v w mask_takes by (rule bit_word_eqI; auto simp: bit_simps)+
  show "unat w < 2 ^ 10" unfolding w by (simp add: unsigned_take_bit_eq take_bit_nat_def)
qed

lemma nec_message_42:
  assumes "length (enc_data enc) = 6" "nec42_words a c = (v, w)" "\<not> repeat_flag m"
    and "if take_bit 13 a = take_bit 13 (NOT (drop_bit 13 a)) \<and> take_bit 8 c = take_bit 8 (NOT (drop_bit 8 c))
      then protocol m = InfraredProtocolNEC42 \<and> address m = take_bit 13 a \<and> command m = take_bit 8 c
      else protocol m = InfraredProtocolNEC42ext \<and> address m = take_bit 26 a \<and> command m = take_bit 16 c"
  shows "delivers infrared_protocol_nec 42
    (load_payload 42 (\<lambda>d. store_le32 4 w (store_le32 0 v d)) (infrared_common_encoder_reset (pdata infrared_protocol_nec) enc)) m"
proof (rule nec_delivers_42 [OF assms(1) nec42_fields(5) [OF assms(2)]])
  fix d :: InfraredCommonDecoder
  assume d: "databit_cnt d = 42" "load_le32 (ir_data d) = v"
    "ucast (byte_at (ir_data d) 4) OR push_bit 8 (ucast (byte_at (ir_data d) 5)) = w"
  have j: "take_bit 13 a OR push_bit 13 (take_bit 13 (drop_bit 13 a)) = take_bit 26 a"
    "take_bit 8 c OR push_bit 8 (take_bit 8 (drop_bit 8 c)) = take_bit 16 c"
    by (rule bit_word_eqI; auto simp: bit_simps)+
  have n: "NOT (take_bit 13 (drop_bit 13 a)) AND 0x1FFF = take_bit 13 (NOT (drop_bit 13 a))"
    "NOT (take_bit 8 (drop_bit 8 c)) AND 0xFF = take_bit 8 (NOT (drop_bit 8 c))"
    unfolding mask_takes by (simp_all add: take_bit_not_take_bit)
  show "infrared_decoder_nec_interpret (pdata infrared_protocol_nec) d = (True, d\<lparr>message := m\<rparr>)"
    unfolding infrared_decoder_nec_interpret_def Let_def d nec42_fields [OF assms(2)] n j
    using assms(3,4) by (simp add: set_message_eq split: if_splits)
qed

lemma nec_message:
  assumes "infrared_protocol_nec_get_variant (protocol m) = Some v" "message_fits v m"
    "length (enc_data enc) = 6"
  shows "\<exists>enc'. infrared_encoder_nec_reset (pdata infrared_protocol_nec) enc m = Inr enc' \<and>
    delivers infrared_protocol_nec (bits_to_encode enc') enc' (reported m)"
proof (cases "protocol m")
  case InfraredProtocolNEC42
  let ?a = "address m" and ?c = "command m"
  let ?A = "take_bit 13 ?a OR push_bit 13 (take_bit 13 (NOT ?a))" and ?C = "take_bit 8 ?c OR push_bit 8 (take_bit 8 (NOT ?c))"
  have fits: "take_bit 13 ?a = ?a" "take_bit 8 ?c = ?c" "\<not> repeat_flag m"
    using assms InfraredProtocolNEC42 take_bit_word_less [of ?a 13] take_bit_word_less [of ?c 8]
    by (auto simp: message_fits_def infrared_protocol_nec_get_variant_def)
  have A: "take_bit 13 ?A = take_bit 13 ?a" "take_bit 13 (NOT (drop_bit 13 ?A)) = take_bit 13 ?a"
    "take_bit 8 ?C = take_bit 8 ?c" "take_bit 8 (NOT (drop_bit 8 ?C)) = take_bit 8 ?c"
    by (rule bit_word_eqI; auto simp: bit_simps)+
  have w: "nec42_words ?A ?C = ((?a AND 0x1FFF) OR push_bit 13 (NOT ?a AND 0x1FFF) OR push_bit 26 (?c AND 0x3F),
      drop_bit 6 (?c AND 0xC0) OR push_bit 2 (NOT ?c AND 0xFF))"
    unfolding nec42_words_def mask_takes split_takes prod.inject by (intro conjI bit_word_eqI; auto simp: bit_simps)
  show ?thesis
    using nec_message_42 [OF assms(3) w fits(3)] A fits InfraredProtocolNEC42
      reported_other [of m]
    by (simp add: infrared_encoder_nec_reset_def load_payload_def Let_def)
next
  case InfraredProtocolNEC42ext
  let ?a = "address m" and ?c = "command m"
  have fits: "take_bit 26 ?a = ?a" "take_bit 16 ?c = ?c" "\<not> repeat_flag m"
    using assms InfraredProtocolNEC42ext take_bit_word_less [of ?a 26] take_bit_word_less [of ?c 16]
    by (auto simp: message_fits_def infrared_protocol_nec_get_variant_def)
  have w: "nec42_words ?a ?c = ((?a AND 0x3FFFFFF) OR push_bit 26 (?c AND 0x3F), drop_bit 6 (?c AND 0xFFC0))"
    unfolding nec42_words_def mask_takes split_takes prod.inject by simp
  have amb: "nec_ambiguous m \<longleftrightarrow>
      take_bit 13 ?a = take_bit 13 (NOT (drop_bit 13 ?a)) \<and> take_bit 8 ?c = take_bit 8 (NOT (drop_bit 8 ?c))"
    using InfraredProtocolNEC42ext by (simp add: nec_ambiguous_def mask_takes)
  have rep: "\<not> repeat_flag (reported m)" using fits(3) by (simp add: reported_def)
  show ?thesis
    using nec_message_42 [OF assms(3) w rep] fits InfraredProtocolNEC42ext
    by (simp add: infrared_encoder_nec_reset_def load_payload_def Let_def reported_def amb mask_takes)
qed (use assms nec_message_plain nec_message_ext reported_other [of m] in \<open>auto simp: infrared_protocol_nec_get_variant_def\<close>)

section \<open>Samsung32\<close>

lemma samsung_lengths:
  "payload_bytes (pdata infrared_protocol_samsung32) = 4" "known_length (pdata infrared_protocol_samsung32) 32"
  "databit_len (pdata infrared_protocol_samsung32) = [32, 0, 0, 0]"
  "interpret_msg infrared_protocol_samsung32 = infrared_decoder_samsung32_interpret"
  by (simp_all add: payload_bytes_def known_length_def spec_defs)

lemma samsung_message:
  assumes "infrared_protocol_samsung32_get_variant (protocol m) = Some v" "message_fits v m" "length (enc_data enc) = 4"
  shows "\<exists>enc'. infrared_encoder_samsung32_reset (pdata infrared_protocol_samsung32) enc m = Inr enc' \<and>
    delivers infrared_protocol_samsung32 (bits_to_encode enc') enc' m"
proof -
  let ?a = "ucast (address m) :: u8" and ?c = "ucast (command m) :: u8"
  let ?f = "\<lambda>d. store_le32 0 (load_le32 d OR ucast ?a OR push_bit 8 (ucast ?a) OR push_bit 16 (ucast ?c) OR push_bit 24 (ucast (NOT ?c))) d"
  have fits: "protocol m = InfraredProtocolSamsung32" "unat (address m) < 256" "unat (command m) < 256" "\<not> repeat_flag m"
    using assms by (auto simp: message_fits_def infrared_protocol_samsung32_get_variant_def split: InfraredProtocol.splits)
  have "load_le32 (replicate 4 0) = 0" by (simp add: load_le32_def byte_at_def)
  then have f: "?f (replicate 4 0) = [?a, ?a, ?c, NOT ?c]"
    unfolding store_le32_def by (simp only: or.left_neutral four_bytes) (simp add: numeral_eq_Suc)
  have "delivers infrared_protocol_samsung32 32 (load_payload 32 ?f (infrared_common_encoder_reset (pdata infrared_protocol_samsung32) enc)) m"
  proof (rule samsung.delivers_bytes)
    fix d :: InfraredCommonDecoder
    assume b: "\<And>j. 8 * j < 32 \<Longrightarrow> byte_at (ir_data d) j = ?f (replicate (payload_bytes (pdata infrared_protocol_samsung32)) 0) ! j"
    have "byte_at (ir_data d) 0 = ?a" "byte_at (ir_data d) 1 = ?a" "byte_at (ir_data d) 2 = ?c" "byte_at (ir_data d) 3 = NOT ?c"
      using b [of 0] b [of 1] b [of 2] b [of 3] unfolding samsung_lengths f by simp_all
    then show "interpret_msg infrared_protocol_samsung32 (pdata infrared_protocol_samsung32) d = (True, d\<lparr>message := m\<rparr>)"
      using fits by (simp add: samsung_lengths infrared_decoder_samsung32_interpret_def set_message_eq Let_def)
  next
    fix j k :: nat assume "8 * j < 32" "32 \<le> 8 * j + k"
    then have "8 \<le> k" by auto
    then show "\<not> bit (?f (replicate (payload_bytes (pdata infrared_protocol_samsung32)) 0) ! j) k"
      by (auto dest: bit_imp_le_length)
  qed (use assms(3) f in \<open>simp_all add: samsung_lengths\<close>)
  then show ?thesis
    by (simp add: infrared_encoder_samsung32_reset_def load_payload_def Let_def samsung_lengths)
qed

section \<open>RCA\<close>

lemma rca_lengths:
  "payload_bytes (pdata infrared_protocol_rca) = 3" "known_length (pdata infrared_protocol_rca) 24"
  "databit_len (pdata infrared_protocol_rca) = [24, 0, 0, 0]"
  "interpret_msg infrared_protocol_rca = infrared_decoder_rca_interpret"
  by (simp_all add: payload_bytes_def known_length_def spec_defs)

lemma load_le32_three:
  assumes "byte_at xs 0 = ucast v" "byte_at xs 1 = ucast (drop_bit 8 v)" "byte_at xs 2 = ucast (drop_bit 16 v)" "k < 24"
  shows "bit (load_le32 xs) k = bit v k"
proof -
  consider "k < 8" | "8 \<le> k" "k < 16" | "16 \<le> k" "k < 24" using assms(4) by fastforce
  then show ?thesis unfolding load_le32_def assms(1-3) by cases (auto simp: bit_simps)
qed

lemma store_le32_three: "store_le32 0 v (replicate 3 0) = [ucast v, ucast (drop_bit 8 v), ucast (drop_bit 16 v)]"
  by (simp add: store_le32_def numeral_eq_Suc)

lemma rca_fields:
  fixes a c :: u8 and data :: u32
  assumes bits: "\<forall>k<24. bit data k = bit (ucast (a AND 0xF) OR push_bit 4 (ucast c) OR
    push_bit 12 (ucast (NOT a AND 0xF)) OR push_bit 16 (ucast (NOT c)) :: u32) k"
  shows "ucast (data AND 0xF) = a AND 0xF" "ucast (drop_bit 4 data AND 0xFF) = c"
    "ucast (drop_bit 12 data AND 0xF) = NOT a AND 0xF" "ucast (drop_bit 16 data AND 0xFF) = NOT c"
  unfolding mask_takes by (rule bit_word_eqI; auto simp: bits [rule_format] mask_takes bit_simps dest: bit_imp_le_length)+

lemma rca_message:
  assumes "infrared_protocol_rca_get_variant (protocol m) = Some v" "message_fits v m" "length (enc_data enc) = 3"
  shows "\<exists>enc'. infrared_encoder_rca_reset (pdata infrared_protocol_rca) enc m = Inr enc' \<and>
    delivers infrared_protocol_rca (bits_to_encode enc') enc' m"
proof -
  let ?a = "ucast (address m) :: u8" and ?c = "ucast (command m) :: u8"
  let ?v = "ucast (?a AND 0xF) OR push_bit 4 (ucast ?c) OR push_bit 12 (ucast (NOT ?a AND 0xF)) OR push_bit 16 (ucast (NOT ?c)) :: u32"
  have fits: "protocol m = InfraredProtocolRCA" "unat (address m) < 2 ^ 4" "unat (command m) < 256" "\<not> repeat_flag m"
    using assms by (auto simp: message_fits_def infrared_protocol_rca_get_variant_def split: InfraredProtocol.splits)
  note f = store_le32_three [of ?v]
  have addr: "ucast (?a AND 0xF) = address m"
    unfolding mask_takes by (rule bit_word_eqI) (auto simp: bit_simps dest: bit_below [OF fits(2)])
  have "delivers infrared_protocol_rca 24 (load_payload 24 (store_le32 0 ?v) (infrared_common_encoder_reset (pdata infrared_protocol_rca) enc)) m"
  proof (rule rca.delivers_bytes)
    fix d :: InfraredCommonDecoder
    assume b: "\<And>j. 8 * j < 24 \<Longrightarrow> byte_at (ir_data d) j = store_le32 0 ?v (replicate (payload_bytes (pdata infrared_protocol_rca)) 0) ! j"
    have "\<forall>k<24. bit (load_le32 (ir_data d)) k = bit ?v k"
      using b [of 0] b [of 1] b [of 2] unfolding rca_lengths f by (intro allI impI load_le32_three) simp_all
    note fields = rca_fields [OF this]
    have "infrared_decoder_rca_interpret (pdata infrared_protocol_rca) d =
        (True, set_message InfraredProtocolRCA (ucast (?a AND 0xF)) (ucast ?c) d)"
      unfolding infrared_decoder_rca_interpret_def Let_def fields by (simp add: mask_takes take_bit_not_take_bit)
    then show "interpret_msg infrared_protocol_rca (pdata infrared_protocol_rca) d = (True, d\<lparr>message := m\<rparr>)"
      using fits addr by (simp add: rca_lengths set_message_eq)
  next
    fix j k :: nat assume "8 * j < 24" "24 \<le> 8 * j + k"
    then have "8 \<le> k" by auto
    then show "\<not> bit (store_le32 0 ?v (replicate (payload_bytes (pdata infrared_protocol_rca)) 0) ! j) k"
      by (auto dest: bit_imp_le_length)
  qed (use assms(3) f in \<open>simp_all add: rca_lengths\<close>)
  then show ?thesis
    by (simp add: infrared_encoder_rca_reset_def load_payload_def Let_def rca_lengths)
qed

section \<open>Kaseikyo\<close>

lemma kaseikyo_lengths:
  "payload_bytes (pdata infrared_protocol_kaseikyo) = 6" "known_length (pdata infrared_protocol_kaseikyo) 48"
  "databit_len (pdata infrared_protocol_kaseikyo) = [48, 0, 0, 0]"
  "interpret_msg infrared_protocol_kaseikyo = infrared_decoder_kaseikyo_interpret"
  by (simp_all add: payload_bytes_def known_length_def spec_defs)

text \<open>The six payload bytes of an address and a command, and the fields read back from them.\<close>

definition kaseikyo_bytes :: "u32 \<Rightarrow> u32 \<Rightarrow> u8 list" where
  "kaseikyo_bytes a c =
     (let d0 = ucast (drop_bit 8 a); d1 = ucast (drop_bit 16 a); p = d0 XOR d1;
          d2 = take_bit 4 (take_bit 4 p XOR drop_bit 4 p) OR push_bit 4 (ucast (drop_bit 4 a));
          d3 = take_bit 4 (ucast a) OR push_bit 4 (ucast c);
          d4 = push_bit 6 (ucast (drop_bit 24 a)) OR ucast (drop_bit 4 (ucast c :: u16))
      in [d0, d1, d2, d3, d4, d2 XOR d3 XOR d4])"

lemma kaseikyo_reset:
  assumes "length (enc_data enc) = 6"
  shows "infrared_encoder_kaseikyo_reset (pdata infrared_protocol_kaseikyo) enc m =
    Inr (load_payload 48 (\<lambda>d. kaseikyo_bytes (address m) (command m) @ drop 6 d)
      (infrared_common_encoder_reset (pdata infrared_protocol_kaseikyo) enc))"
proof -
  have upd: "d[0 := a0, 1 := a1, 2 := a2, 3 := a3, 4 := a4, 5 := a5] = [a0, a1, a2, a3, a4, a5] @ drop 6 d"
    if "length d = 6" for d :: "u8 list" and a0 a1 a2 a3 a4 a5
    using that by (auto simp: list_eq_iff_nth_eq nth_list_update nth_Cons' less_Suc_eq numeral_eq_Suc)
  have f: "ucast (ucast (drop_bit 8 a AND 0xFFFF) AND 0xFF :: u16) = (ucast (drop_bit 8 a) :: u8)"
    "ucast (drop_bit 8 (ucast (drop_bit 8 a AND 0xFFFF) :: u16)) = (ucast (drop_bit 16 a) :: u8)"
    "push_bit 4 (ucast (drop_bit 4 a AND 0xF)) = (push_bit 4 (ucast (drop_bit 4 a)) :: u8)"
    "(ucast (a AND 0xF) AND 0xF :: u8) = take_bit 4 (ucast a)"
    "push_bit 4 (ucast (ucast c AND 0xF :: u16)) = (push_bit 4 (ucast c) :: u8)"
    "push_bit 6 (ucast (drop_bit 24 a AND 3)) = (push_bit 6 (ucast (drop_bit 24 a)) :: u8)" for a c :: u32
    unfolding mask_takes by (rule bit_word_eqI; auto simp: bit_simps)+
  have "length (enc_data (infrared_common_encoder_reset (pdata infrared_protocol_kaseikyo) enc)) = 6"
    using assms by (simp add: infrared_common_encoder_reset_def Let_def kaseikyo_lengths)
  note upd = upd [OF this]
  show ?thesis
    unfolding infrared_encoder_kaseikyo_reset_def Let_def load_payload_def upd unfolding f unfolding kaseikyo_bytes_def mask_takes
    by (simp add: Let_def kaseikyo_lengths)
qed

lemma payload_nibbles:
  "drop_bit 4 (take_bit 4 x OR push_bit 4 y :: u8) = take_bit 4 y" "take_bit 4 (take_bit 4 x OR push_bit 4 y :: u8) = take_bit 4 x"
  by (rule bit_word_eqI; auto simp: bit_simps dest: bit_imp_le_length)+

lemma take_bit_split: "take_bit (m + k) a = take_bit m a OR push_bit m (take_bit k (drop_bit m a))" for a :: "'a::len word"
  by (rule bit_word_eqI) (auto simp: bit_simps)

lemma ucast_takes: "ucast (ucast (x :: u32) :: u8) = take_bit 8 x" "ucast (take_bit 4 (ucast x) :: u8) = take_bit 4 x"
  by (rule bit_word_eqI; auto simp: bit_simps)+

lemma kaseikyo_fields:
  fixes a c :: u32
  assumes "unat a < 2 ^ 26" "unat c < 2 ^ 10" "kaseikyo_bytes a c = [d0, d1, d2, d3, d4, d5]"
  shows "d2 AND 0x0F = ((d0 XOR d1) AND 0xF) XOR drop_bit 4 (d0 XOR d1)" "d5 = d2 XOR d3 XOR d4"
    "push_bit 24 (ucast (drop_bit 6 d4)) OR push_bit 8 (push_bit 8 (ucast d1) OR ucast d0) OR
       push_bit 4 (ucast (drop_bit 4 d2)) OR ucast (d3 AND 0x0F) = a"
    "ucast (drop_bit 4 d3) OR push_bit 4 (ucast (d4 AND 0x3F)) = c"
proof -
  have d: "d0 = ucast (drop_bit 8 a)" "d1 = ucast (drop_bit 16 a)"
    "d2 = take_bit 4 (take_bit 4 (d0 XOR d1) XOR drop_bit 4 (d0 XOR d1)) OR push_bit 4 (ucast (drop_bit 4 a))"
    "d3 = take_bit 4 (ucast a) OR push_bit 4 (ucast c)"
    "d4 = push_bit 6 (ucast (drop_bit 24 a)) OR ucast (drop_bit 4 (ucast c :: u16))" "d5 = d2 XOR d3 XOR d4"
    using assms(3) unfolding kaseikyo_bytes_def Let_def list.inject by - (elim conjE, hypsubst, rule refl)+
  have a: "bit a k \<Longrightarrow> k < 26" and c: "bit c k \<Longrightarrow> k < 10" for k
    using bit_below [OF assms(1)] bit_below [OF assms(2)] by auto
  show "d2 AND 0x0F = ((d0 XOR d1) AND 0xF) XOR drop_bit 4 (d0 XOR d1)"
    unfolding mask_takes d(3) payload_nibbles by (rule bit_word_eqI) (auto simp: bit_simps dest: bit_imp_le_length)
  show "d5 = d2 XOR d3 XOR d4" by (rule d(6))
  have h: "drop_bit 6 d4 = ucast (drop_bit 24 a)" "take_bit 6 d4 = ucast (drop_bit 4 c)"
    unfolding d(5) by (rule bit_word_eqI; auto simp: bit_simps dest: a c)+
  have n: "drop_bit 4 d2 = take_bit 4 (ucast (drop_bit 4 a))" "take_bit 4 d3 = take_bit 4 (ucast a)" "drop_bit 4 d3 = take_bit 4 (ucast c)"
    unfolding d(3,4) payload_nibbles by (rule refl)+
  show "push_bit 24 (ucast (drop_bit 6 d4)) OR push_bit 8 (push_bit 8 (ucast d1) OR ucast d0) OR
       push_bit 4 (ucast (drop_bit 4 d2)) OR ucast (d3 AND 0x0F) = a"
    using take_bit_word_less [of a 32] take_bit_split [of 24 8 a] take_bit_split [of 16 8 a] take_bit_split [of 8 8 a]
      take_bit_split [of 4 4 a] unsigned_less [of a]
    unfolding mask_takes h n d(1,2) ucast_takes by (simp add: ac_simps)
  show "ucast (drop_bit 4 d3) OR push_bit 4 (ucast (d4 AND 0x3F)) = c"
    unfolding mask_takes h n by (rule bit_word_eqI) (auto simp: bit_simps dest: c)
qed

lemma kaseikyo_message:
  assumes "infrared_protocol_kaseikyo_get_variant (protocol m) = Some v" "message_fits v m" "length (enc_data enc) = 6"
  shows "\<exists>enc'. infrared_encoder_kaseikyo_reset (pdata infrared_protocol_kaseikyo) enc m = Inr enc' \<and>
    delivers infrared_protocol_kaseikyo (bits_to_encode enc') enc' m"
proof -
  let ?xs = "kaseikyo_bytes (address m) (command m)"
  have fits: "protocol m = InfraredProtocolKaseikyo" "unat (address m) < 2 ^ 26" "unat (command m) < 2 ^ 10" "\<not> repeat_flag m"
    using assms by (auto simp: message_fits_def infrared_protocol_kaseikyo_get_variant_def split: InfraredProtocol.splits)
  obtain d0 d1 d2 d3 d4 d5 where xs: "?xs = [d0, d1, d2, d3, d4, d5]"
    by (simp add: kaseikyo_bytes_def Let_def)
  note fields = kaseikyo_fields [OF fits(2,3) xs]
  have "delivers infrared_protocol_kaseikyo 48
      (load_payload 48 (\<lambda>d. ?xs @ drop 6 d) (infrared_common_encoder_reset (pdata infrared_protocol_kaseikyo) enc)) m"
  proof (rule kaseikyo.delivers_bytes)
    fix d :: InfraredCommonDecoder
    assume b: "\<And>j. 8 * j < 48 \<Longrightarrow> byte_at (ir_data d) j =
      (?xs @ drop 6 (replicate (payload_bytes (pdata infrared_protocol_kaseikyo)) 0)) ! j"
    have d: "byte_at (ir_data d) 0 = d0" "byte_at (ir_data d) 1 = d1" "byte_at (ir_data d) 2 = d2"
      "byte_at (ir_data d) 3 = d3" "byte_at (ir_data d) 4 = d4" "byte_at (ir_data d) 5 = d5"
      using b [of 0] b [of 1] b [of 2] b [of 3] b [of 4] b [of 5] by (simp_all add: xs kaseikyo_lengths)
    show "interpret_msg infrared_protocol_kaseikyo (pdata infrared_protocol_kaseikyo) d = (True, d\<lparr>message := m\<rparr>)"
      unfolding kaseikyo_lengths infrared_decoder_kaseikyo_interpret_def Let_def d unfolding fields
      using fits by (simp add: set_message_eq)
  next
    fix j k :: nat assume "8 * j < 48" "48 \<le> 8 * j + k"
    then have "8 \<le> k" by auto
    then show "\<not> bit ((?xs @ drop 6 (replicate (payload_bytes (pdata infrared_protocol_kaseikyo)) 0)) ! j) k"
      by (auto dest: bit_imp_le_length)
  qed (use assms(3) in \<open>simp_all add: xs kaseikyo_lengths\<close>)
  then show ?thesis
    using kaseikyo_reset [OF assms(3)] by (simp add: load_payload_def)
qed

end
