(* ===== verification/Infrared_Handler.thy ===== *)
theory Infrared_Handler
  imports Infrared_Transmission
begin

text \<open>
  \<^verbatim>\<open>lib/infrared/encoder_decoder/infrared.c\<close>: the table of the eight protocols and the handlers that
  applications use. A decoder handler feeds every edge to all eight decoders and returns the first
  message; an encoder handler owns one encoder, which it replaces when a message of another protocol is set.
  A decoder that does not return is \<open>None\<close>, one that halts the firmware is \<open>Inl\<close>.
\<close>

section \<open>The table\<close>

record InfraredEncoderDecoder =
  entry_spec :: InfraredCommonProtocolSpec
  entry_reset :: "InfraredEncoderInstance \<Rightarrow> InfraredMessage \<Rightarrow> InfraredEncoderInstance checked"
  entry_encode :: "InfraredCommonEncoder \<Rightarrow> encode_result"
  get_protocol_variant :: "InfraredProtocol \<Rightarrow> InfraredProtocolVariant option"

text \<open>A reset function of the encoders that have no wrapper, on the instance type all encoders share.\<close>

definition on_common ::
  "(InfraredProtocolData \<Rightarrow> InfraredCommonEncoder \<Rightarrow> InfraredMessage \<Rightarrow> InfraredCommonEncoder checked) \<Rightarrow>
   InfraredCommonProtocolSpec \<Rightarrow> InfraredEncoderInstance \<Rightarrow> InfraredMessage \<Rightarrow> InfraredEncoderInstance checked" where
  "on_common reset spec enc m =
     checked_bind (reset (pdata spec) (common_encoder enc) m) (\<lambda>ce. Inr (enc\<lparr>common_encoder := ce\<rparr>))"

definition infrared_encoder_decoder :: "InfraredEncoderDecoder list" where
  "infrared_encoder_decoder =
     [\<lparr>entry_spec = infrared_protocol_nec, entry_reset = on_common infrared_encoder_nec_reset infrared_protocol_nec,
       entry_encode = infrared_common_encode infrared_protocol_nec, get_protocol_variant = infrared_protocol_nec_get_variant\<rparr>,
      \<lparr>entry_spec = infrared_protocol_samsung32, entry_reset = on_common infrared_encoder_samsung32_reset infrared_protocol_samsung32,
       entry_encode = infrared_common_encode infrared_protocol_samsung32, get_protocol_variant = infrared_protocol_samsung32_get_variant\<rparr>,
      \<lparr>entry_spec = infrared_protocol_rc5, entry_reset = (\<lambda>enc m. Inr (infrared_encoder_rc5_reset enc m)),
       entry_encode = infrared_common_encode infrared_protocol_rc5, get_protocol_variant = infrared_protocol_rc5_get_variant\<rparr>,
      \<lparr>entry_spec = infrared_protocol_rc6, entry_reset = (\<lambda>enc m. Inr (infrared_encoder_rc6_reset enc m)),
       entry_encode = infrared_common_encode infrared_protocol_rc6, get_protocol_variant = infrared_protocol_rc6_get_variant\<rparr>,
      \<lparr>entry_spec = infrared_protocol_sirc, entry_reset = on_common infrared_encoder_sirc_reset infrared_protocol_sirc,
       entry_encode = infrared_encoder_sirc_encode, get_protocol_variant = infrared_protocol_sirc_get_variant\<rparr>,
      \<lparr>entry_spec = infrared_protocol_pioneer, entry_reset = on_common infrared_encoder_pioneer_reset infrared_protocol_pioneer,
       entry_encode = infrared_encoder_pioneer_encode, get_protocol_variant = infrared_protocol_pioneer_get_variant\<rparr>,
      \<lparr>entry_spec = infrared_protocol_kaseikyo, entry_reset = on_common infrared_encoder_kaseikyo_reset infrared_protocol_kaseikyo,
       entry_encode = infrared_common_encode infrared_protocol_kaseikyo, get_protocol_variant = infrared_protocol_kaseikyo_get_variant\<rparr>,
      \<lparr>entry_spec = infrared_protocol_rca, entry_reset = on_common infrared_encoder_rca_reset infrared_protocol_rca,
       entry_encode = infrared_common_encode infrared_protocol_rca, get_protocol_variant = infrared_protocol_rca_get_variant\<rparr>]"

section \<open>Decoding\<close>

fun decode_all ::
  "InfraredEncoderDecoder list \<Rightarrow> InfraredCommonDecoder list \<Rightarrow> bool \<Rightarrow> u32 \<Rightarrow>
   (InfraredMessage option \<times> InfraredCommonDecoder list) checked option" where
  "decode_all (e # es) (c # cs) lvl d =
     (case infrared_common_decode (entry_spec e) c lvl d of
        None \<Rightarrow> None
      | Some (Inl err) \<Rightarrow> Some (Inl err)
      | Some (Inr (found, c')) \<Rightarrow>
          map_option (\<lambda>r. checked_bind r (\<lambda>(result, cs'). Inr (if found then Some (message c') else result, c' # cs')))
            (decode_all es cs lvl d))"
| "decode_all _ _ lvl d = Some (Inr (None, []))"

definition infrared_decode ::
  "InfraredCommonDecoder list \<Rightarrow> bool \<Rightarrow> u32 \<Rightarrow> (InfraredMessage option \<times> InfraredCommonDecoder list) checked option" where
  "infrared_decode ctx lvl duration = decode_all infrared_encoder_decoder ctx lvl duration"

definition infrared_reset_decoder :: "InfraredCommonDecoder list \<Rightarrow> InfraredCommonDecoder list" where
  "infrared_reset_decoder ctx =
     map (\<lambda>(e, c). infrared_common_decoder_reset (pdata (entry_spec e)) c) (zip infrared_encoder_decoder ctx)"

definition infrared_alloc_decoder :: "InfraredCommonDecoder list" where
  "infrared_alloc_decoder =
     infrared_reset_decoder (map (\<lambda>e. infrared_common_decoder_alloc (pdata (entry_spec e))) infrared_encoder_decoder)"

fun check_ready_all :: "InfraredEncoderDecoder list \<Rightarrow> InfraredCommonDecoder list \<Rightarrow> InfraredMessage option \<times> InfraredCommonDecoder list" where
  "check_ready_all (e # es) (c # cs) =
     (let (found, c') = infrared_common_decoder_check_ready (entry_spec e) c; (result, cs') = check_ready_all es cs
      in (if found then Some (message c') else result, c' # cs'))"
| "check_ready_all _ _ = (None, [])"

definition infrared_check_decoder_ready :: "InfraredCommonDecoder list \<Rightarrow> InfraredMessage option \<times> InfraredCommonDecoder list" where
  "infrared_check_decoder_ready ctx = check_ready_all infrared_encoder_decoder ctx"

section \<open>Encoding\<close>

text \<open>The encoder pointer of the handler is the index of its table entry.\<close>

record InfraredEncoderHandler =
  encoder_index :: "nat option"
  encoder_ctx :: "InfraredEncoderInstance option"

definition infrared_alloc_encoder :: InfraredEncoderHandler where
  "infrared_alloc_encoder = \<lparr>encoder_index = None, encoder_ctx = None\<rparr>"

definition infrared_free_encoder :: "InfraredEncoderHandler \<Rightarrow> unit checked" where
  "infrared_free_encoder h =
     (if encoder_index h \<noteq> None \<or> encoder_ctx h \<noteq> None
      then furi_check (encoder_index h \<noteq> None) (furi_check (encoder_ctx h \<noteq> None) (Inr ()))
      else Inr ())"

definition find_index :: "InfraredEncoderDecoder list \<Rightarrow> InfraredProtocol \<Rightarrow> nat option" where
  "find_index es p = find (\<lambda>i. get_protocol_variant (es ! i) p \<noteq> None) [0..<length es]"

definition infrared_find_index_by_protocol :: "InfraredProtocol \<Rightarrow> nat option" where
  "infrared_find_index_by_protocol p = find_index infrared_encoder_decoder p"

definition encoder_instance_alloc :: "nat \<Rightarrow> InfraredEncoderInstance" where
  "encoder_instance_alloc i =
     \<lparr>common_encoder = infrared_common_encoder_alloc (pdata (entry_spec (infrared_encoder_decoder ! i))), toggle_bit = False\<rparr>"

definition infrared_reset_encoder :: "InfraredEncoderHandler \<Rightarrow> InfraredMessage \<Rightarrow> InfraredEncoderHandler checked" where
  "infrared_reset_encoder h m =
     (case infrared_find_index_by_protocol (protocol m) of
        None \<Rightarrow> Inl Furi_Check
      | Some i \<Rightarrow>
          let enc = (if encoder_index h = Some i then encoder_ctx h else Some (encoder_instance_alloc i)) in
          (case enc of
             None \<Rightarrow> Inl Out_Of_Bounds
           | Some enc \<Rightarrow> checked_bind (entry_reset (infrared_encoder_decoder ! i) enc m) (\<lambda>enc.
               Inr \<lparr>encoder_index = Some i, encoder_ctx = Some enc\<rparr>)))"

definition infrared_encode :: "InfraredEncoderHandler \<Rightarrow> (InfraredStatus \<times> u32 \<times> bool \<times> InfraredEncoderHandler) checked" where
  "infrared_encode h =
     (case encoder_index h of
        None \<Rightarrow> Inl Furi_Check
      | Some i \<Rightarrow>
          (case encoder_ctx h of
             None \<Rightarrow> Inl Out_Of_Bounds
           | Some enc \<Rightarrow>
               (case entry_encode (infrared_encoder_decoder ! i) (common_encoder enc) of (status, duration, lvl, ce) \<Rightarrow>
                  furi_check (status \<noteq> InfraredStatusError)
                    (Inr (status, duration, lvl, h\<lparr>encoder_ctx := Some (enc\<lparr>common_encoder := ce\<rparr>)\<rparr>)))))"

section \<open>Protocol queries\<close>

definition infrared_is_protocol_valid :: "InfraredProtocol \<Rightarrow> bool" where
  "infrared_is_protocol_valid p \<longleftrightarrow> infrared_find_index_by_protocol p \<noteq> None"

definition infrared_get_variant_by_protocol :: "InfraredProtocol \<Rightarrow> InfraredProtocolVariant checked" where
  "infrared_get_variant_by_protocol p =
     (case infrared_find_index_by_protocol p of
        None \<Rightarrow> Inl Furi_Check
      | Some i \<Rightarrow> (case get_protocol_variant (infrared_encoder_decoder ! i) p of None \<Rightarrow> Inl Furi_Check | Some v \<Rightarrow> Inr v))"

definition infrared_get_protocol_name :: "InfraredProtocol \<Rightarrow> string checked" where
  "infrared_get_protocol_name p = checked_bind (infrared_get_variant_by_protocol p) (\<lambda>v. Inr (variant_name v))"

definition infrared_get_protocol_address_length :: "InfraredProtocol \<Rightarrow> nat checked" where
  "infrared_get_protocol_address_length p = checked_bind (infrared_get_variant_by_protocol p) (\<lambda>v. Inr (address_length v))"

definition infrared_get_protocol_command_length :: "InfraredProtocol \<Rightarrow> nat checked" where
  "infrared_get_protocol_command_length p = checked_bind (infrared_get_variant_by_protocol p) (\<lambda>v. Inr (command_length v))"

definition infrared_get_protocol_frequency :: "InfraredProtocol \<Rightarrow> nat checked" where
  "infrared_get_protocol_frequency p = checked_bind (infrared_get_variant_by_protocol p) (\<lambda>v. Inr (frequency v))"

definition infrared_get_protocol_duty_cycle :: "InfraredProtocol \<Rightarrow> nat checked" where
  "infrared_get_protocol_duty_cycle p = checked_bind (infrared_get_variant_by_protocol p) (\<lambda>v. Inr (duty_cycle v))"

definition infrared_get_protocol_min_repeat_count :: "InfraredProtocol \<Rightarrow> nat checked" where
  "infrared_get_protocol_min_repeat_count p = checked_bind (infrared_get_variant_by_protocol p) (\<lambda>v. Inr (repeat_count v))"

text \<open>The protocols in the order of the enumeration, which the search by name walks through.\<close>

definition all_protocols :: "InfraredProtocol list" where
  "all_protocols =
     [InfraredProtocolNEC, InfraredProtocolNECext, InfraredProtocolNEC42, InfraredProtocolNEC42ext, InfraredProtocolSamsung32,
      InfraredProtocolRC6, InfraredProtocolRC5, InfraredProtocolRC5X, InfraredProtocolSIRC, InfraredProtocolSIRC15,
      InfraredProtocolSIRC20, InfraredProtocolKaseikyo, InfraredProtocolRCA, InfraredProtocolPioneer]"

fun search_name :: "string \<Rightarrow> InfraredProtocol list \<Rightarrow> InfraredProtocol checked" where
  "search_name s [] = Inr InfraredProtocolUnknown"
| "search_name s (p # ps) =
     checked_bind (infrared_get_protocol_name p) (\<lambda>n. if n = s then Inr p else search_name s ps)"

definition infrared_get_protocol_by_name :: "string \<Rightarrow> InfraredProtocol checked" where
  "infrared_get_protocol_by_name s = search_name s all_protocols"

section \<open>The table is a partition of the protocols\<close>

lemmas variant_defs = infrared_protocol_nec_get_variant_def infrared_protocol_samsung32_get_variant_def
  infrared_protocol_rc5_get_variant_def infrared_protocol_rc6_get_variant_def infrared_protocol_sirc_get_variant_def
  infrared_protocol_pioneer_get_variant_def infrared_protocol_kaseikyo_get_variant_def infrared_protocol_rca_get_variant_def

lemma table_length [simp]: "length infrared_encoder_decoder = 8"
  by (simp add: infrared_encoder_decoder_def)

lemma table_nth:
  "map entry_spec infrared_encoder_decoder =
     [infrared_protocol_nec, infrared_protocol_samsung32, infrared_protocol_rc5, infrared_protocol_rc6,
      infrared_protocol_sirc, infrared_protocol_pioneer, infrared_protocol_kaseikyo, infrared_protocol_rca]"
  by (simp add: infrared_encoder_decoder_def)

definition protocol_index :: "InfraredProtocol \<Rightarrow> nat option" where
  "protocol_index p =
     (case p of
        InfraredProtocolUnknown \<Rightarrow> None
      | InfraredProtocolNEC \<Rightarrow> Some 0 | InfraredProtocolNECext \<Rightarrow> Some 0 | InfraredProtocolNEC42 \<Rightarrow> Some 0 | InfraredProtocolNEC42ext \<Rightarrow> Some 0
      | InfraredProtocolSamsung32 \<Rightarrow> Some 1 | InfraredProtocolRC5 \<Rightarrow> Some 2 | InfraredProtocolRC5X \<Rightarrow> Some 2 | InfraredProtocolRC6 \<Rightarrow> Some 3
      | InfraredProtocolSIRC \<Rightarrow> Some 4 | InfraredProtocolSIRC15 \<Rightarrow> Some 4 | InfraredProtocolSIRC20 \<Rightarrow> Some 4
      | InfraredProtocolPioneer \<Rightarrow> Some 5 | InfraredProtocolKaseikyo \<Rightarrow> Some 6 | InfraredProtocolRCA \<Rightarrow> Some 7)"

lemma find_index_eq [simp]: "infrared_find_index_by_protocol p = protocol_index p"
  by (cases p) (simp_all add: infrared_find_index_by_protocol_def find_index_def infrared_encoder_decoder_def variant_defs
      protocol_index_def upt_conv_Cons)

lemma variant_eq:
  "infrared_get_variant_by_protocol p =
     (case protocol_index p of
        None \<Rightarrow> Inl Furi_Check
      | Some i \<Rightarrow> Inr (the (get_protocol_variant (infrared_encoder_decoder ! i) p)))"
  by (cases p) (simp_all add: infrared_get_variant_by_protocol_def infrared_encoder_decoder_def variant_defs protocol_index_def)

lemma name_eq:
  "infrared_get_protocol_name p =
     (case p of
        InfraredProtocolUnknown \<Rightarrow> Inl Furi_Check
      | InfraredProtocolNEC \<Rightarrow> Inr ''NEC'' | InfraredProtocolNECext \<Rightarrow> Inr ''NECext'' | InfraredProtocolNEC42 \<Rightarrow> Inr ''NEC42''
      | InfraredProtocolNEC42ext \<Rightarrow> Inr ''NEC42ext'' | InfraredProtocolSamsung32 \<Rightarrow> Inr ''Samsung32''
      | InfraredProtocolRC5 \<Rightarrow> Inr ''RC5'' | InfraredProtocolRC5X \<Rightarrow> Inr ''RC5X'' | InfraredProtocolRC6 \<Rightarrow> Inr ''RC6''
      | InfraredProtocolSIRC \<Rightarrow> Inr ''SIRC'' | InfraredProtocolSIRC15 \<Rightarrow> Inr ''SIRC15'' | InfraredProtocolSIRC20 \<Rightarrow> Inr ''SIRC20''
      | InfraredProtocolPioneer \<Rightarrow> Inr ''Pioneer'' | InfraredProtocolKaseikyo \<Rightarrow> Inr ''Kaseikyo'' | InfraredProtocolRCA \<Rightarrow> Inr ''RCA'')"
  by (cases p) (simp_all add: infrared_get_protocol_name_def variant_eq infrared_encoder_decoder_def variant_defs protocol_index_def)

text \<open>
  A protocol is valid exactly when it is not the unknown one; every valid protocol has a name,
  searching for that name gives the protocol back, and searching for anything else gives the unknown protocol.
\<close>

theorem infrared_protocol_names:
  "infrared_is_protocol_valid p = (p \<noteq> InfraredProtocolUnknown) \<and>
   (p \<noteq> InfraredProtocolUnknown \<longrightarrow>
      (\<exists>n. infrared_get_protocol_name p = Inr n \<and> infrared_get_protocol_by_name n = Inr p)) \<and>
   ((\<forall>q. infrared_get_protocol_name q \<noteq> Inr s) \<longrightarrow> infrared_get_protocol_by_name s = Inr InfraredProtocolUnknown)"
proof (intro conjI impI)
  show "infrared_is_protocol_valid p = (p \<noteq> InfraredProtocolUnknown)"
    by (cases p) (simp_all add: infrared_is_protocol_valid_def protocol_index_def)
  show "\<exists>n. infrared_get_protocol_name p = Inr n \<and> infrared_get_protocol_by_name n = Inr p" if "p \<noteq> InfraredProtocolUnknown"
    using that by (cases p) (simp_all add: infrared_get_protocol_by_name_def all_protocols_def name_eq)
  have "search_name s ps = Inr InfraredProtocolUnknown"
    if "\<forall>q. infrared_get_protocol_name q \<noteq> Inr s" "InfraredProtocolUnknown \<notin> set ps" for ps
    using that
  proof (induction ps)
    case (Cons q ps)
    then obtain n where "infrared_get_protocol_name q = Inr n"
      by (cases q) (auto simp: name_eq)
    with Cons show ?case by auto
  qed simp
  then show "infrared_get_protocol_by_name s = Inr InfraredProtocolUnknown" if "\<forall>q. infrared_get_protocol_name q \<noteq> Inr s"
    unfolding infrared_get_protocol_by_name_def by (rule) (use that in \<open>simp_all add: all_protocols_def\<close>)
qed

theorem infrared_protocol_names_witness:
  "infrared_get_protocol_by_name ''RC5X'' = Inr InfraredProtocolRC5X \<and>
   infrared_get_protocol_by_name ''rc5'' = Inr InfraredProtocolUnknown"
proof -
  have "infrared_get_protocol_name q \<noteq> Inr ''rc5''" for q by (cases q) (simp_all add: name_eq)
  then show ?thesis
    using infrared_protocol_names [of InfraredProtocolRC5X "''rc5''"] by (auto simp: name_eq)
qed

section \<open>The encoder handler is safe\<close>

text \<open>
  The invariant of an encoder handler: it owns an encoder exactly when it has chosen a table entry, the
  payload has the size of that entry, and the encoder is in its repeat state only if the entry has a repeat.
\<close>

definition encoder_inv :: "InfraredCommonProtocolSpec \<Rightarrow> InfraredCommonEncoder \<Rightarrow> bool" where
  "encoder_inv spec enc \<longleftrightarrow> length (enc_data enc) = payload_bytes (pdata spec) \<and>
     (enc_state enc = InfraredCommonEncoderStateEncodeRepeat \<longrightarrow> encode_repeat spec \<noteq> None)"

definition handler_inv :: "InfraredEncoderHandler \<Rightarrow> bool" where
  "handler_inv h \<longleftrightarrow>
     (case (encoder_index h, encoder_ctx h) of
        (None, None) \<Rightarrow> True
      | (Some i, Some enc) \<Rightarrow> i < 8 \<and> encoder_inv (entry_spec (infrared_encoder_decoder ! i)) (common_encoder enc)
      | _ \<Rightarrow> False)"

datatype tx_op = SetMessage InfraredMessage | NextTiming

fun tx_step :: "tx_op \<Rightarrow> InfraredEncoderHandler \<Rightarrow> InfraredEncoderHandler checked" where
  "tx_step (SetMessage m) h = infrared_reset_encoder h m"
| "tx_step NextTiming h = checked_bind (infrared_encode h) (\<lambda>(_, _, _, h). Inr h)"

fun tx_run :: "tx_op list \<Rightarrow> InfraredEncoderHandler \<Rightarrow> InfraredEncoderHandler checked" where
  "tx_run [] h = Inr h"
| "tx_run (x # xs) h = checked_bind (tx_step x h) (tx_run xs)"

lemma store_le32_length [simp]: "length (store_le32 off v xs) = length xs"
  by (simp add: store_le32_def)

lemma common_reset_inv:
  assumes "length (enc_data enc) = payload_bytes (pdata spec)" "fold max (databit_len (pdata spec)) 0 = max_length (pdata spec)"
  shows "encoder_inv spec (infrared_common_encoder_reset (pdata spec) enc)"
  using assms by (simp add: encoder_inv_def infrared_common_encoder_reset_def Let_def payload_bytes_def)

lemma encoder_inv_load:
  "encoder_inv spec enc \<Longrightarrow> (\<And>d. length (f d) = length d) \<Longrightarrow> encoder_inv spec (load_payload n f enc)"
  by (simp add: encoder_inv_def load_payload_def)

lemmas all_specs = spec_defs infrared_protocol_rc5_def infrared_protocol_rc6_def

lemma max_lengths:
  assumes "spec \<in> {infrared_protocol_nec, infrared_protocol_samsung32, infrared_protocol_rc5, infrared_protocol_rc6,
      infrared_protocol_sirc, infrared_protocol_pioneer, infrared_protocol_kaseikyo, infrared_protocol_rca}"
  shows "fold max (databit_len (pdata spec)) 0 = max_length (pdata spec)"
  using assms by (auto simp: all_specs)

text \<open>
  What the common encoder relies on in a protocol table: the bit encoder and the repeat encoder never fail,
  keep the payload, and leave the state alone or go back to the preamble.
\<close>

locale encoder_contract =
  fixes spec :: InfraredCommonProtocolSpec
  assumes encode_keeps: "encode spec pd enc = (status, d, lvl, enc') \<Longrightarrow>
      status = InfraredStatusOk \<and> enc_data enc' = enc_data enc \<and> enc_state enc' = enc_state enc"
    and repeat_keeps: "encode_repeat spec = Some rep \<Longrightarrow> rep pd enc = (status, d, lvl, enc') \<Longrightarrow>
      status \<noteq> InfraredStatusError \<and> enc_data enc' = enc_data enc"
begin

lemma encode_payload_inv:
  assumes "encoder_inv spec enc" "encode_payload spec enc = (status, d, lvl, enc')" "enc_state enc = InfraredCommonEncoderStateEncode"
  shows "status \<noteq> InfraredStatusError \<and> encoder_inv spec enc'"
proof -
  obtain st d' lvl' e where e: "encode spec (pdata spec) enc = (st, d', lvl', e)" by (metis prod_cases4)
  then show ?thesis
    using assms encode_keeps [OF e]
    by (auto simp: encode_payload_def infrared_common_encode_bits_def encoder_inv_def Let_def split: if_splits)
qed

lemma common_encode_inv:
  assumes "encoder_inv spec enc" "infrared_common_encode spec enc = (status, d, lvl, enc')"
  shows "status \<noteq> InfraredStatusError \<and> encoder_inv spec enc'"
proof (cases "enc_state enc")
  case InfraredCommonEncoderStateSilence
  then show ?thesis using assms by (auto simp: infrared_common_encode_def encoder_inv_def Let_def)
next
  case InfraredCommonEncoderStatePreamble
  then show ?thesis
    using assms encode_payload_inv [of "enc\<lparr>enc_state := InfraredCommonEncoderStateEncode\<rparr>" status d lvl enc']
    by (auto simp: infrared_common_encode_def encoder_inv_def Let_def split: if_splits)
next
  case InfraredCommonEncoderStateEncode
  then show ?thesis using assms encode_payload_inv [OF assms(1)] by (auto simp: infrared_common_encode_def Let_def)
next
  case InfraredCommonEncoderStateEncodeRepeat
  then obtain rep where rep: "encode_repeat spec = Some rep"
    using assms(1) by (auto simp: encoder_inv_def)
  with InfraredCommonEncoderStateEncodeRepeat have "rep (pdata spec) enc = (status, d, lvl, enc')"
    using assms(2) by (simp add: infrared_common_encode_def Let_def)
  from repeat_keeps [OF rep this] show ?thesis
    using assms(1) rep by (simp add: encoder_inv_def)
qed

end

lemma encode_functions_keep:
  "infrared_common_encode_pdwm pd enc = (status, d, lvl, enc') \<Longrightarrow>
     status = InfraredStatusOk \<and> enc_data enc' = enc_data enc \<and> enc_state enc' = enc_state enc"
  "infrared_common_encode_manchester pd enc = (status, d, lvl, enc') \<Longrightarrow>
     status = InfraredStatusOk \<and> enc_data enc' = enc_data enc \<and> enc_state enc' = enc_state enc"
  by (auto simp: infrared_common_encode_pdwm_def infrared_common_encode_manchester_def Let_def split: if_splits)

lemma encode_rc6_keeps:
  "infrared_encoder_rc6_encode_manchester pd enc = (status, d, lvl, enc') \<Longrightarrow>
     status = InfraredStatusOk \<and> enc_data enc' = enc_data enc \<and> enc_state enc' = enc_state enc"
  by (auto simp: infrared_encoder_rc6_encode_manchester_def infrared_common_encode_manchester_def Let_def split: if_splits)

lemmas repeat_defs = infrared_encoder_nec_encode_repeat_def infrared_encoder_samsung32_encode_repeat_def
  infrared_encoder_sirc_encode_repeat_def infrared_encoder_pioneer_encode_repeat_def

interpretation nec_enc: encoder_contract infrared_protocol_nec
  by unfold_locales (auto simp: spec_defs repeat_defs Let_def dest: encode_functions_keep split: if_splits)

interpretation samsung_enc: encoder_contract infrared_protocol_samsung32
  by unfold_locales (auto simp: spec_defs repeat_defs Let_def dest: encode_functions_keep split: if_splits)

interpretation rc5_enc: encoder_contract infrared_protocol_rc5
  by unfold_locales (auto simp: infrared_protocol_rc5_def dest: encode_functions_keep)

interpretation rc6_enc: encoder_contract infrared_protocol_rc6
  by unfold_locales (auto simp: infrared_protocol_rc6_def dest: encode_rc6_keeps)

interpretation sirc_enc: encoder_contract infrared_protocol_sirc
  by unfold_locales (auto simp: spec_defs repeat_defs dest: encode_functions_keep)

interpretation pioneer_enc: encoder_contract infrared_protocol_pioneer
  by unfold_locales (auto simp: spec_defs repeat_defs dest: encode_functions_keep)

interpretation kaseikyo_enc: encoder_contract infrared_protocol_kaseikyo
  by unfold_locales (auto simp: spec_defs dest: encode_functions_keep)

interpretation rca_enc: encoder_contract infrared_protocol_rca
  by unfold_locales (auto simp: spec_defs dest: encode_functions_keep)

lemma finish_inv:
  assumes "finish_on_last_bit r = (status, d, lvl, enc')" "r = (st, d', lvl', e)" "st \<noteq> InfraredStatusError \<and> encoder_inv spec e"
    "encode_repeat spec \<noteq> None"
  shows "status \<noteq> InfraredStatusError \<and> encoder_inv spec enc'"
  using assms by (auto simp: finish_on_last_bit_def encoder_inv_def split: if_splits)

lemma has_repeat: "encode_repeat infrared_protocol_sirc \<noteq> None" "encode_repeat infrared_protocol_pioneer \<noteq> None"
  by (simp_all add: spec_defs)

lemma sirc_encode_inv:
  "encoder_inv infrared_protocol_sirc enc \<Longrightarrow> infrared_encoder_sirc_encode enc = (status, d, lvl, enc') \<Longrightarrow>
   status \<noteq> InfraredStatusError \<and> encoder_inv infrared_protocol_sirc enc'"
  unfolding infrared_encoder_sirc_encode_def
  by (metis finish_inv has_repeat(1) prod_cases4 sirc_enc.common_encode_inv)

lemma pioneer_encode_inv:
  "encoder_inv infrared_protocol_pioneer enc \<Longrightarrow> infrared_encoder_pioneer_encode enc = (status, d, lvl, enc') \<Longrightarrow>
   status \<noteq> InfraredStatusError \<and> encoder_inv infrared_protocol_pioneer enc'"
  unfolding infrared_encoder_pioneer_encode_def
  by (metis finish_inv has_repeat(2) prod_cases4 pioneer_enc.common_encode_inv)

lemmas encode_invs = nec_enc.common_encode_inv samsung_enc.common_encode_inv rc5_enc.common_encode_inv
  rc6_enc.common_encode_inv sirc_encode_inv pioneer_encode_inv kaseikyo_enc.common_encode_inv rca_enc.common_encode_inv

lemma entry_specs:
  "entry_spec (infrared_encoder_decoder ! 0) = infrared_protocol_nec"
  "entry_spec (infrared_encoder_decoder ! 1) = infrared_protocol_samsung32"
  "entry_spec (infrared_encoder_decoder ! 2) = infrared_protocol_rc5"
  "entry_spec (infrared_encoder_decoder ! 3) = infrared_protocol_rc6"
  "entry_spec (infrared_encoder_decoder ! 4) = infrared_protocol_sirc"
  "entry_spec (infrared_encoder_decoder ! 5) = infrared_protocol_pioneer"
  "entry_spec (infrared_encoder_decoder ! 6) = infrared_protocol_kaseikyo"
  "entry_spec (infrared_encoder_decoder ! 7) = infrared_protocol_rca"
  by (simp_all add: infrared_encoder_decoder_def)

lemma entry_encodes:
  "entry_encode (infrared_encoder_decoder ! 0) = infrared_common_encode infrared_protocol_nec"
  "entry_encode (infrared_encoder_decoder ! 1) = infrared_common_encode infrared_protocol_samsung32"
  "entry_encode (infrared_encoder_decoder ! 2) = infrared_common_encode infrared_protocol_rc5"
  "entry_encode (infrared_encoder_decoder ! 3) = infrared_common_encode infrared_protocol_rc6"
  "entry_encode (infrared_encoder_decoder ! 4) = infrared_encoder_sirc_encode"
  "entry_encode (infrared_encoder_decoder ! 5) = infrared_encoder_pioneer_encode"
  "entry_encode (infrared_encoder_decoder ! 6) = infrared_common_encode infrared_protocol_kaseikyo"
  "entry_encode (infrared_encoder_decoder ! 7) = infrared_common_encode infrared_protocol_rca"
  by (simp_all add: infrared_encoder_decoder_def)

lemma entry_encode_inv:
  assumes "i < 8" "encoder_inv (entry_spec (infrared_encoder_decoder ! i)) enc"
    "entry_encode (infrared_encoder_decoder ! i) enc = (status, d, lvl, enc')"
  shows "status \<noteq> InfraredStatusError \<and> encoder_inv (entry_spec (infrared_encoder_decoder ! i)) enc'"
  using assms(1)
  apply (rule less_8_cases)
  apply (insert assms(2,3))
  apply (simp_all only: entry_specs entry_encodes)
  apply (rule encode_invs, assumption, assumption)+
  done

text \<open>Resetting the encoder of the entry that the protocol of a message selects.\<close>

lemma reset_to_inv:
  assumes "encoder_inv spec enc" "fold max (databit_len (pdata spec)) 0 = max_length (pdata spec)" "\<And>d. length (f d) = length d"
  shows "encoder_inv spec (load_payload n f (infrared_common_encoder_reset (pdata spec) enc))"
  using assms by (intro encoder_inv_load common_reset_inv) (simp_all add: encoder_inv_def)

lemma rc5_reset_inv:
  assumes "encoder_inv infrared_protocol_rc5 (common_encoder enc)"
  shows "encoder_inv infrared_protocol_rc5 (common_encoder (infrared_encoder_rc5_reset enc m))"
  using assms common_reset_inv [OF _ max_lengths, of "common_encoder enc" infrared_protocol_rc5]
  by (simp add: infrared_encoder_rc5_reset_def encoder_inv_def Let_def)

lemma rc6_reset_inv:
  assumes "encoder_inv infrared_protocol_rc6 (common_encoder enc)"
  shows "encoder_inv infrared_protocol_rc6 (common_encoder (infrared_encoder_rc6_reset enc m))"
  using reset_to_inv [OF assms max_lengths] by (simp add: infrared_encoder_rc6_reset_def Let_def)

lemma common_resets_inv:
  "protocol_index (protocol m) = Some 0 \<Longrightarrow> encoder_inv infrared_protocol_nec enc \<Longrightarrow>
     \<exists>ce. infrared_encoder_nec_reset (pdata infrared_protocol_nec) enc m = Inr ce \<and> encoder_inv infrared_protocol_nec ce"
  "encoder_inv infrared_protocol_samsung32 enc \<Longrightarrow>
     \<exists>ce. infrared_encoder_samsung32_reset (pdata infrared_protocol_samsung32) enc m = Inr ce \<and> encoder_inv infrared_protocol_samsung32 ce"
  "protocol_index (protocol m) = Some 4 \<Longrightarrow> encoder_inv infrared_protocol_sirc enc \<Longrightarrow>
     \<exists>ce. infrared_encoder_sirc_reset (pdata infrared_protocol_sirc) enc m = Inr ce \<and> encoder_inv infrared_protocol_sirc ce"
  "protocol_index (protocol m) = Some 5 \<Longrightarrow> encoder_inv infrared_protocol_pioneer enc \<Longrightarrow>
     \<exists>ce. infrared_encoder_pioneer_reset (pdata infrared_protocol_pioneer) enc m = Inr ce \<and> encoder_inv infrared_protocol_pioneer ce"
  "encoder_inv infrared_protocol_kaseikyo enc \<Longrightarrow>
     \<exists>ce. infrared_encoder_kaseikyo_reset (pdata infrared_protocol_kaseikyo) enc m = Inr ce \<and> encoder_inv infrared_protocol_kaseikyo ce"
  "encoder_inv infrared_protocol_rca enc \<Longrightarrow>
     \<exists>ce. infrared_encoder_rca_reset (pdata infrared_protocol_rca) enc m = Inr ce \<and> encoder_inv infrared_protocol_rca ce"
  by (auto simp: protocol_index_def infrared_encoder_nec_reset_def infrared_encoder_samsung32_reset_def infrared_encoder_sirc_reset_def
      infrared_encoder_pioneer_reset_def infrared_encoder_kaseikyo_reset_def infrared_encoder_rca_reset_def Let_def
      intro!: reset_to_inv max_lengths split: InfraredProtocol.splits)

lemma entry_reset_inv:
  assumes "protocol_index (protocol m) = Some i" "encoder_inv (entry_spec (infrared_encoder_decoder ! i)) (common_encoder enc)"
  shows "\<exists>enc'. entry_reset (infrared_encoder_decoder ! i) enc m = Inr enc' \<and>
    encoder_inv (entry_spec (infrared_encoder_decoder ! i)) (common_encoder enc')"
proof -
  have "i < 8" using assms(1) by (auto simp: protocol_index_def split: InfraredProtocol.splits)
  then show ?thesis
  proof (cases rule: less_8_cases)
    case 1
    then show ?thesis using assms common_resets_inv(1) [of m "common_encoder enc"] by (auto simp: infrared_encoder_decoder_def on_common_def)
  next
    case 2
    then show ?thesis using assms common_resets_inv(2) [of "common_encoder enc" m] by (auto simp: infrared_encoder_decoder_def on_common_def)
  next
    case 3
    then show ?thesis using assms rc5_reset_inv [of enc m] by (auto simp: infrared_encoder_decoder_def on_common_def)
  next
    case 4
    then show ?thesis using assms rc6_reset_inv [of enc m] by (auto simp: infrared_encoder_decoder_def on_common_def)
  next
    case 5
    then show ?thesis using assms common_resets_inv(3) [of m "common_encoder enc"] by (auto simp: infrared_encoder_decoder_def on_common_def)
  next
    case 6
    then show ?thesis using assms common_resets_inv(4) [of m "common_encoder enc"] by (auto simp: infrared_encoder_decoder_def on_common_def)
  next
    case 7
    then show ?thesis using assms common_resets_inv(5) [of "common_encoder enc" m] by (auto simp: infrared_encoder_decoder_def on_common_def)
  next
    case 8
    then show ?thesis using assms common_resets_inv(6) [of "common_encoder enc" m] by (auto simp: infrared_encoder_decoder_def on_common_def)
  qed
qed

lemma alloc_inv: "encoder_inv (entry_spec (infrared_encoder_decoder ! i)) (common_encoder (encoder_instance_alloc i))"
  by (simp add: encoder_inv_def encoder_instance_alloc_def infrared_common_encoder_alloc_def)

lemma tx_step_inv:
  assumes "handler_inv h"
  shows "protocol m \<noteq> InfraredProtocolUnknown \<Longrightarrow>
      \<exists>h'. infrared_reset_encoder h m = Inr h' \<and> handler_inv h' \<and> encoder_index h' \<noteq> None"
    and "encoder_index h \<noteq> None \<Longrightarrow>
      \<exists>st d lvl h'. infrared_encode h = Inr (st, d, lvl, h') \<and> handler_inv h' \<and> encoder_index h' \<noteq> None"
proof -
  assume "protocol m \<noteq> InfraredProtocolUnknown"
  then obtain i where i: "protocol_index (protocol m) = Some i" "i < 8"
    by (cases "protocol m") (auto simp: protocol_index_def)
  obtain enc where enc: "(if encoder_index h = Some i then encoder_ctx h else Some (encoder_instance_alloc i)) = Some enc"
      "encoder_inv (entry_spec (infrared_encoder_decoder ! i)) (common_encoder enc)"
    using assms alloc_inv [of i] by (cases "encoder_index h = Some i") (auto simp: handler_inv_def split: option.splits)
  from entry_reset_inv [OF i(1) enc(2)] show "\<exists>h'. infrared_reset_encoder h m = Inr h' \<and> handler_inv h' \<and> encoder_index h' \<noteq> None"
    using i enc(1) by (auto simp: infrared_reset_encoder_def handler_inv_def Let_def)
next
  assume "encoder_index h \<noteq> None"
  then obtain i enc where i: "encoder_index h = Some i" "encoder_ctx h = Some enc" "i < 8"
      "encoder_inv (entry_spec (infrared_encoder_decoder ! i)) (common_encoder enc)"
    using assms by (auto simp: handler_inv_def split: option.splits)
  obtain st d lvl ce where e: "entry_encode (infrared_encoder_decoder ! i) (common_encoder enc) = (st, d, lvl, ce)"
    by (metis prod_cases4)
  from entry_encode_inv [OF i(3,4) e] i e
  show "\<exists>st d lvl h'. infrared_encode h = Inr (st, d, lvl, h') \<and> handler_inv h' \<and> encoder_index h' \<noteq> None"
    by (auto simp: infrared_encode_def handler_inv_def)
qed

lemma tx_run_inv:
  assumes "handler_inv h" "encoder_index h \<noteq> None" "\<And>m. SetMessage m \<in> set ops \<Longrightarrow> protocol m \<noteq> InfraredProtocolUnknown"
  shows "\<exists>h'. tx_run ops h = Inr h' \<and> handler_inv h'"
  using assms
proof (induction ops arbitrary: h)
  case (Cons x ops)
  have "\<exists>h1. tx_step x h = Inr h1 \<and> handler_inv h1 \<and> encoder_index h1 \<noteq> None"
  proof (cases x)
    case (SetMessage m)
    then show ?thesis using tx_step_inv(1) [OF Cons.prems(1), of m] Cons.prems(3) by auto
  next
    case NextTiming
    then show ?thesis using tx_step_inv(2) [OF Cons.prems(1,2)] by auto
  qed
  then obtain h1 where "tx_step x h = Inr h1" "handler_inv h1" "encoder_index h1 \<noteq> None" by blast
  with Cons show ?case by simp
qed simp

text \<open>
  C23 (invariant): an encoder handler that was given a first message survives every sequence of further messages
  of known protocols and requests for timings: no check fails, no timing is reported as an error, the
  invariant of the handler holds throughout, and the handler can be freed.
\<close>

theorem infrared_encoder_handler_safe:
  assumes "\<And>m'. SetMessage m' \<in> set (SetMessage m # ops) \<Longrightarrow> protocol m' \<noteq> InfraredProtocolUnknown"
  shows "\<exists>h. tx_run (SetMessage m # ops) infrared_alloc_encoder = Inr h \<and> handler_inv h \<and> infrared_free_encoder h = Inr ()"
proof -
  have "handler_inv infrared_alloc_encoder" by (simp add: handler_inv_def infrared_alloc_encoder_def)
  then obtain h1 where "infrared_reset_encoder infrared_alloc_encoder m = Inr h1" "handler_inv h1" "encoder_index h1 \<noteq> None"
    using tx_step_inv(1) [of infrared_alloc_encoder m] assms [of m] by auto
  moreover from this obtain h where "tx_run ops h1 = Inr h" "handler_inv h"
    using tx_run_inv [of h1 ops] assms by auto
  moreover have "infrared_free_encoder h = Inr ()"
    using calculation(5) by (auto simp: infrared_free_encoder_def handler_inv_def split: option.splits)
  ultimately show ?thesis by simp
qed

theorem infrared_encoder_handler_safe_witness:
  "\<exists>h. tx_run [SetMessage \<lparr>protocol = InfraredProtocolRC5, address = 3, command = 7, repeat_flag = False\<rparr>, NextTiming, NextTiming,
      SetMessage \<lparr>protocol = InfraredProtocolNEC, address = 3, command = 7, repeat_flag = False\<rparr>, NextTiming] infrared_alloc_encoder = Inr h \<and>
    handler_inv h \<and> infrared_free_encoder h = Inr ()"
  by (rule infrared_encoder_handler_safe) auto

section \<open>Messages travel from handler to decoder\<close>

fun infrared_encode_n :: "nat \<Rightarrow> InfraredEncoderHandler \<Rightarrow> ((InfraredStatus \<times> edge) list \<times> InfraredEncoderHandler) checked" where
  "infrared_encode_n 0 h = Inr ([], h)"
| "infrared_encode_n (Suc n) h =
     checked_bind (infrared_encode h) (\<lambda>(status, duration, lvl, h).
     checked_bind (infrared_encode_n n h) (\<lambda>(es, h). Inr ((status, lvl, duration) # es, h)))"

lemma encode_n_of_common:
  assumes "encoder_index h = Some i" "encoder_ctx h = Some enc"
    "entry_encode (infrared_encoder_decoder ! i) = infrared_common_encode spec"
    "ir_encode_n spec n (common_encoder enc) = (es, ce)" "InfraredStatusError \<notin> fst ` set es"
  shows "\<exists>h'. infrared_encode_n n h = Inr (es, h')"
  using assms
proof (induction n arbitrary: h enc es)
  case (Suc n)
  obtain st d lvl c1 where c1: "infrared_common_encode spec (common_encoder enc) = (st, d, lvl, c1)" by (metis prod_cases4)
  obtain es1 c2 where c2: "ir_encode_n spec n c1 = (es1, c2)" by fastforce
  let ?h = "h\<lparr>encoder_ctx := Some (enc\<lparr>common_encoder := c1\<rparr>)\<rparr>"
  have es: "es = (st, lvl, d) # es1" using Suc.prems(4) c1 c2 by simp
  then have "infrared_encode h = Inr (st, d, lvl, ?h)"
    using Suc.prems c1 by (auto simp: infrared_encode_def)
  moreover have "\<exists>h'. infrared_encode_n n ?h = Inr (es1, h')"
    by (rule Suc.IH) (use Suc.prems c1 c2 es in auto)
  ultimately show ?case using es by auto
qed simp

text \<open>The protocols with pulse-distance modulation and a stop mark.\<close>

definition pulse_distance :: "InfraredProtocol \<Rightarrow> bool" where
  "pulse_distance p \<longleftrightarrow> p \<in> {InfraredProtocolNEC, InfraredProtocolNECext, InfraredProtocolNEC42, InfraredProtocolNEC42ext,
     InfraredProtocolSamsung32, InfraredProtocolKaseikyo, InfraredProtocolRCA}"

lemma entry_delivers:
  assumes "pulse_distance (protocol m)" "protocol_index (protocol m) = Some i"
    "encoder_inv (entry_spec (infrared_encoder_decoder ! i)) (common_encoder enc)"
    "infrared_get_variant_by_protocol (protocol m) = Inr v" "message_fits v m"
  shows "\<exists>enc'. entry_reset (infrared_encoder_decoder ! i) enc m = Inr enc' \<and>
    entry_encode (infrared_encoder_decoder ! i) = infrared_common_encode (entry_spec (infrared_encoder_decoder ! i)) \<and>
    delivers (entry_spec (infrared_encoder_decoder ! i)) (bits_to_encode (common_encoder enc')) (common_encoder enc') (reported m)"
proof -
  have v: "get_protocol_variant (infrared_encoder_decoder ! i) (protocol m) = Some v"
    using assms(1,2,4) by (auto simp: pulse_distance_def variant_eq protocol_index_def infrared_encoder_decoder_def variant_defs)
  have same: "i \<noteq> 0 \<Longrightarrow> reported m = m"
    using assms(1,2) reported_other [of m] by (auto simp: pulse_distance_def protocol_index_def)
  have "i \<in> {0, 1, 6, 7}"
    using assms(1,2) by (auto simp: pulse_distance_def protocol_index_def)
  then consider "i = 0" | "i = 1" | "i = 6" | "i = 7" by auto
  then show ?thesis
  proof cases
    case 1
    then show ?thesis
      using nec_message [OF _ assms(5), of "common_encoder enc"] v assms(3)
      by (auto simp: infrared_encoder_decoder_def on_common_def encoder_inv_def nec_lengths)
  next
    case 2
    then show ?thesis
      using samsung_message [OF _ assms(5), of "common_encoder enc"] v assms(3) same
      by (auto simp: infrared_encoder_decoder_def on_common_def encoder_inv_def samsung_lengths)
  next
    case 3
    then show ?thesis
      using kaseikyo_message [OF _ assms(5), of "common_encoder enc"] v assms(3) same
      by (auto simp: infrared_encoder_decoder_def on_common_def encoder_inv_def kaseikyo_lengths)
  next
    case 4
    then show ?thesis
      using rca_message [OF _ assms(5), of "common_encoder enc"] v assms(3) same
      by (auto simp: infrared_encoder_decoder_def on_common_def encoder_inv_def rca_lengths)
  qed
qed

text \<open>
  C4 (roundtrip): a message of a NEC, Samsung32, Kaseikyo or RCA protocol whose address and command fit the
  lengths of its variant can be set on every valid encoder handler. The handler then produces a frame of
  \<open>2 * n + 4\<close> timings that ends with status Done, and the decoder of that protocol, idle (waiting for a
  preamble with no sample pending, whatever its payload and last message), reports one message at the gap
  after the frame. It is the message that was set, with one exception: an extended NEC or NEC42 message
  whose address and command halves are complements of each other is the frame of a plain one on the air,
  and is reported as the plain NEC or NEC42 message of its low halves.
\<close>

theorem infrared_message_roundtrip:
  assumes "handler_inv h" "pulse_distance (protocol m)" "infrared_get_variant_by_protocol (protocol m) = Inr v"
    "message_fits v m"
  shows "\<exists>i spec n h1 h2 es.
    infrared_find_index_by_protocol (protocol m) = Some i \<and> spec = entry_spec (infrared_encoder_decoder ! i) \<and>
    infrared_reset_encoder h m = Inr h1 \<and> infrared_encode_n (2 * n + 4) h1 = Inr (es, h2) \<and>
    map fst es = replicate (2 * n + 3) InfraredStatusOk @ [InfraredStatusDone] \<and>
    (\<forall>dec s. idle (pdata spec) dec \<longrightarrow> min_split_time (spec_timings (pdata spec)) < s \<longrightarrow>
       (\<exists>dec'. ir_feed spec (map snd es @ [(False, s)]) dec = Some (Inr ([reported m], dec'))))"
proof -
  obtain i where i: "protocol_index (protocol m) = Some i"
    using assms(2) by (auto simp: pulse_distance_def protocol_index_def)
  let ?spec = "entry_spec (infrared_encoder_decoder ! i)"
  obtain enc where enc: "(if encoder_index h = Some i then encoder_ctx h else Some (encoder_instance_alloc i)) = Some enc"
      "encoder_inv ?spec (common_encoder enc)"
    using assms(1) alloc_inv [of i] by (cases "encoder_index h = Some i") (auto simp: handler_inv_def split: option.splits)
  obtain enc' where enc': "entry_reset (infrared_encoder_decoder ! i) enc m = Inr enc'"
      "entry_encode (infrared_encoder_decoder ! i) = infrared_common_encode ?spec"
      "delivers ?spec (bits_to_encode (common_encoder enc')) (common_encoder enc') (reported m)"
    using entry_delivers [OF assms(2) i enc(2) assms(3,4)] by blast
  let ?n = "bits_to_encode (common_encoder enc')" and ?h1 = "\<lparr>encoder_index = Some i, encoder_ctx = Some enc'\<rparr>"
  obtain es ce where es: "ir_encode_n ?spec (2 * ?n + 4) (common_encoder enc') = (es, ce)"
      "map fst es = replicate (2 * ?n + 3) InfraredStatusOk @ [InfraredStatusDone]"
      "\<forall>dec s. idle (pdata ?spec) dec \<longrightarrow> min_split_time (spec_timings (pdata ?spec)) < s \<longrightarrow>
         (\<exists>dec'. ir_feed ?spec (map snd es @ [(False, s)]) dec = Some (Inr ([reported m], dec')))"
    using enc'(3) by (auto simp: delivers_def)
  have "infrared_reset_encoder h m = Inr ?h1"
    using i enc(1) enc'(1) by (simp add: infrared_reset_encoder_def Let_def)
  moreover have "InfraredStatusError \<notin> fst ` set es"
    using es(2) by (metis InfraredStatus.distinct(1,3) in_set_replicate list.set(1) list.set_map set_ConsD set_append Un_iff empty_iff)
  then obtain h2 where "infrared_encode_n (2 * ?n + 4) ?h1 = Inr (es, h2)"
    using encode_n_of_common [OF _ _ enc'(2) es(1)] by fastforce
  ultimately show ?thesis
    using i es(2,3)
    by (intro exI [of _ i] exI [of _ ?spec] exI [of _ ?n] exI [of _ ?h1] exI [of _ h2] exI [of _ es]) simp
qed

theorem infrared_message_roundtrip_witness:
  "\<exists>h1 h2 es dec'.
    infrared_reset_encoder infrared_alloc_encoder \<lparr>protocol = InfraredProtocolKaseikyo, address = 0x1234567, command = 0x2A5, repeat_flag = False\<rparr> = Inr h1 \<and>
    infrared_encode_n (length es) h1 = Inr (es, h2) \<and>
    ir_feed infrared_protocol_kaseikyo (map snd es @ [(False, 5000)]) (infrared_common_decoder_alloc (pdata infrared_protocol_kaseikyo)) =
      Some (Inr ([\<lparr>protocol = InfraredProtocolKaseikyo, address = 0x1234567, command = 0x2A5, repeat_flag = False\<rparr>], dec'))"
proof -
  let ?m = "\<lparr>protocol = InfraredProtocolKaseikyo, address = 0x1234567, command = 0x2A5, repeat_flag = False\<rparr>"
  have pre: "handler_inv infrared_alloc_encoder" "pulse_distance (protocol ?m)"
    "infrared_get_variant_by_protocol (protocol ?m) = Inr \<lparr>variant_name = ''Kaseikyo'', address_length = 26, command_length = 10,
          frequency = 38000, duty_cycle = 33, repeat_count = 1\<rparr>"
    by (simp_all add: handler_inv_def infrared_alloc_encoder_def pulse_distance_def variant_eq protocol_index_def
        infrared_encoder_decoder_def variant_defs)
  have same: "reported ?m = ?m" by (rule reported_other) simp_all
  have start: "idle (pdata infrared_protocol_kaseikyo) (infrared_common_decoder_alloc (pdata infrared_protocol_kaseikyo))"
    "min_split_time (spec_timings (pdata infrared_protocol_kaseikyo)) < 5000"
    by (simp_all add: idle_def infrared_common_decoder_alloc_def spec_defs)
  have "message_fits \<lparr>variant_name = ''Kaseikyo'', address_length = 26, command_length = 10,
          frequency = 38000, duty_cycle = 33, repeat_count = 1\<rparr> ?m"
    by (simp add: message_fits_def)
  then obtain i n h1 h2 es where r: "infrared_find_index_by_protocol (protocol ?m) = Some i"
      "infrared_reset_encoder infrared_alloc_encoder ?m = Inr h1" "infrared_encode_n (2 * n + 4) h1 = Inr (es, h2)"
      "map fst es = replicate (2 * n + 3) InfraredStatusOk @ [InfraredStatusDone]"
      "\<forall>dec s. idle (pdata (entry_spec (infrared_encoder_decoder ! i))) dec \<longrightarrow>
         min_split_time (spec_timings (pdata (entry_spec (infrared_encoder_decoder ! i)))) < s \<longrightarrow>
         (\<exists>dec'. ir_feed (entry_spec (infrared_encoder_decoder ! i)) (map snd es @ [(False, s)]) dec = Some (Inr ([?m], dec')))"
    using infrared_message_roundtrip [OF pre] same by auto
  have i: "entry_spec (infrared_encoder_decoder ! i) = infrared_protocol_kaseikyo"
    using r(1) by (simp add: protocol_index_def infrared_encoder_decoder_def)
  have "length es = 2 * n + 4" using arg_cong [OF r(4), of length] by simp
  then show ?thesis using r(2,3) r(5) [unfolded i] start by metis
qed

end
