(* ===== verification/Infrared_Decoder_Safety.thy ===== *)
theory Infrared_Decoder_Safety
  imports Infrared_Handler
begin

text \<open>
  The common decoder on arbitrary input: whatever edges it is fed, it returns, no check fails and no payload
  access leaves the buffer, provided the protocol table meets a contract; all tables but Pioneer's do.
  Pioneer's violates it, and the resulting crash is exhibited.
\<close>

section \<open>The invariant\<close>

definition decoder_inv :: "InfraredCommonProtocolSpec \<Rightarrow> (nat \<Rightarrow> bool \<Rightarrow> bool) \<Rightarrow> InfraredCommonDecoder \<Rightarrow> bool" where
  "decoder_inv spec room dec \<longleftrightarrow>
     length (ir_data dec) = payload_bytes (pdata spec) \<and> databit_cnt dec \<le> max_length (pdata spec) \<and>
     (case dec_state dec of
        InfraredCommonDecoderStateWaitPreamble \<Rightarrow>
          (if preamble_mark (spec_timings (pdata spec)) \<noteq> 0 then length (timings dec) \<le> 5
           else timings dec = [] \<or> length (timings dec) = 1 \<and> \<not> level dec)
      | InfraredCommonDecoderStateDecode \<Rightarrow> timings dec = [] \<and> room (databit_cnt dec) (\<not> level dec)
      | InfraredCommonDecoderStateProcessRepeat \<Rightarrow> decode_repeat spec \<noteq> None \<and> length (timings dec) < 6)"

text \<open>Two decoders that differ at most in payload, bit count and switch detection; the payload keeps its size.\<close>

definition same_frame :: "InfraredCommonDecoder \<Rightarrow> InfraredCommonDecoder \<Rightarrow> bool" where
  "same_frame d d' \<longleftrightarrow> dec_state d' = dec_state d \<and> timings d' = timings d \<and> level d' = level d \<and>
     length (ir_data d') = length (ir_data d)"

lemma oldest_level_0 [simp]: "oldest_level lvl 0 = (\<not> lvl)"
  by (cases lvl) (simp_all add: oldest_level_def)

lemma oldest_level_Suc: "oldest_level lvl (Suc n) = (\<not> oldest_level lvl n)"
  by (cases lvl) (simp_all add: oldest_level_def)

lemma accumulate_lsb_ok:
  assumes "databit_cnt d < max_length pd" "length (ir_data d) = payload_bytes pd"
  shows "\<exists>x. accumulate_lsb d b = Inr (d\<lparr>ir_data := x, databit_cnt := Suc (databit_cnt d)\<rparr>) \<and> length x = length (ir_data d)"
proof -
  let ?i = "databit_cnt d div 8" and ?s = "databit_cnt d mod 8"
  let ?cur = "if ?s = 0 then 0 else ir_data d ! ?i"
  have "?i < length (ir_data d)" using payload_index [OF assms(1)] assms(2) by simp
  then show ?thesis
    by (intro exI [of _ "(ir_data d)[?i := if b then ?cur OR push_bit ?s 1 else ?cur]"])
      (simp add: accumulate_lsb_def Let_def mem_read_def mem_write_def)
qed

text \<open>
  The contract. \<open>room n lvl\<close> says that a decoder with \<open>n\<close> bits may meet a sample of that level; a space is only
  decoded below the maximal length, because at that length a space ends the message or is an error.
\<close>

locale decoder_contract =
  fixes spec :: InfraredCommonProtocolSpec and room :: "nat \<Rightarrow> bool \<Rightarrow> bool"
  assumes split_on: "min_split_time (spec_timings (pdata spec)) \<noteq> 0"
    and max_pos: "0 < max_length (pdata spec)"
    and has_lengths: "databit_len (pdata spec) \<noteq> []"
    and room_0: "room 0 lvl"
    and decode_law: "length (ir_data d) = payload_bytes (pdata spec) \<Longrightarrow> databit_cnt d \<le> max_length (pdata spec) \<Longrightarrow>
      room (databit_cnt d) lvl \<Longrightarrow> (\<not> lvl \<Longrightarrow> databit_cnt d < max_length (pdata spec)) \<Longrightarrow>
      \<exists>st d'. decode spec (pdata spec) d lvl t = Inr (st, d') \<and> same_frame d d' \<and> databit_cnt d' \<le> max_length (pdata spec) \<and>
        (st = InfraredStatusError \<or> st = InfraredStatusOk \<and> room (databit_cnt d') (\<not> lvl))"
    and interpret_law: "interpret_msg spec (pdata spec) d = (ok, d') \<Longrightarrow> same_frame d d' \<and> databit_cnt d' = databit_cnt d"
    and interpret_short: "known_length (pdata spec) (databit_cnt d) \<Longrightarrow> databit_cnt d \<noteq> max_length (pdata spec) \<Longrightarrow>
      fst (interpret_msg spec (pdata spec) d)"
    and repeat_law: "decode_repeat spec = Some rep \<Longrightarrow> rep (pdata spec) d = (st, d') \<Longrightarrow>
      st = InfraredStatusOk \<and> d' = d \<and> length (timings d) < 6 \<or> st = InfraredStatusReady \<and> d' = d\<lparr>timings := []\<rparr> \<or>
      st = InfraredStatusError \<and> d' = d"
begin

lemma max_known: "known_length (pdata spec) (max_length (pdata spec))"
  using max_pos has_lengths by (cases "databit_len (pdata spec)") (auto simp: known_length_def)

text \<open>The bit loop: it consumes samples, keeps the invariant, and answers Ready only at a space and a known length.\<close>

lemma decode_bits_safe:
  assumes "length (ir_data d) = payload_bytes (pdata spec)" "databit_cnt d \<le> max_length (pdata spec)"
    "room (databit_cnt d) (oldest_level (level d) (length ts))"
  shows "\<exists>st d'. decode_bits_loop spec ts d = Inr (st, d') \<and> dec_state d' = dec_state d \<and> level d' = level d \<and>
    length (ir_data d') = length (ir_data d) \<and> databit_cnt d' \<le> max_length (pdata spec) \<and> length (timings d') \<le> length ts \<and>
    (st = InfraredStatusOk \<and> timings d' = [] \<and> room (databit_cnt d') (\<not> level d) \<or>
     st = InfraredStatusError \<and> timings d' \<noteq> [] \<or>
     st = InfraredStatusReady \<and> known_length (pdata spec) (databit_cnt d') \<and> timings d' \<noteq> [] \<and>
       \<not> oldest_level (level d) (length (timings d')))"
  using assms
proof (induction ts arbitrary: d)
  case (Cons t ts)
  let ?tm = "spec_timings (pdata spec)" and ?lvl = "oldest_level (level d) (Suc (length ts))"
  show ?case
  proof (cases "\<not> ?lvl \<and> (min_split_time ?tm < t \<and> known_length (pdata spec) (databit_cnt d) \<or>
      \<not> min_split_time ?tm < t \<and> max_length (pdata spec) = databit_cnt d)")
    case True
    then show ?thesis using split_on Cons.prems by (auto simp: Let_def)
  next
    case False
    have "databit_cnt d < max_length (pdata spec)" if "\<not> ?lvl"
      using that False max_known Cons.prems(2) by (metis order_le_imp_less_or_eq)
    then obtain st d' where d': "decode spec (pdata spec) d ?lvl t = Inr (st, d')" "same_frame d d'"
        "databit_cnt d' \<le> max_length (pdata spec)"
        "st = InfraredStatusError \<or> st = InfraredStatusOk \<and> room (databit_cnt d') (\<not> ?lvl)"
      using decode_law [of d ?lvl t] Cons.prems by auto
    show ?thesis
    proof (cases "st = InfraredStatusError")
      case True
      then show ?thesis using d' False split_on Cons.prems by (auto simp: Let_def same_frame_def)
    next
      case 2: False
      have "room (databit_cnt d') (oldest_level (level d') (length ts))"
        using d' 2 by (simp add: same_frame_def oldest_level_Suc)
      moreover have "decode_bits_loop spec (t # ts) d = decode_bits_loop spec ts d'"
        using d' 2 False split_on by (auto simp: Let_def)
      ultimately show ?thesis
        using Cons.IH [of d'] d'(2,3) Cons.prems(1) by (fastforce simp: same_frame_def)
    qed
  qed
qed simp

text \<open>Taking the message out keeps the samples, and can only fail at the maximal length.\<close>

lemma check_ready_safe:
  assumes "known_length (pdata spec) (databit_cnt d)" "dec_state d = InfraredCommonDecoderStateDecode"
  shows "\<exists>ok d'. infrared_common_decoder_check_ready spec d = (ok, d') \<and> timings d' = timings d \<and> level d' = level d \<and>
    length (ir_data d') = length (ir_data d) \<and>
    (if ok then databit_cnt d' = 0 \<and>
       dec_state d' = (if decode_repeat spec \<noteq> None then InfraredCommonDecoderStateProcessRepeat else InfraredCommonDecoderStateWaitPreamble)
     else databit_cnt d' = max_length (pdata spec) \<and> dec_state d' = InfraredCommonDecoderStateDecode)"
proof -
  obtain ok d' where i: "interpret_msg spec (pdata spec) d = (ok, d')" by fastforce
  have "databit_cnt d = max_length (pdata spec)" if "\<not> ok"
    using interpret_short [OF assms(1)] that i by auto
  then show ?thesis
    using assms i interpret_law [OF i] by (auto simp: infrared_common_decoder_check_ready_def same_frame_def)
qed

end

text \<open>The outer loop of a decoder whose protocol starts with a preamble: every state leads to fewer samples or to a later state.\<close>

definition loop_returns :: "InfraredCommonProtocolSpec \<Rightarrow> (nat \<Rightarrow> bool \<Rightarrow> bool) \<Rightarrow> bool \<Rightarrow> InfraredCommonDecoder \<Rightarrow> bool" where
  "loop_returns spec room found d \<longleftrightarrow>
     (\<exists>found' d'. decode_loop spec found d = Some (Inr (found', d')) \<and> decoder_inv spec room d')"

fun state_rank :: "InfraredCommonStateDecoder \<Rightarrow> nat" where
  "state_rank InfraredCommonDecoderStateWaitPreamble = 0"
| "state_rank InfraredCommonDecoderStateProcessRepeat = 1"
| "state_rank InfraredCommonDecoderStateDecode = 2"

definition loop_measure :: "InfraredCommonDecoder \<Rightarrow> nat" where
  "loop_measure d = 3 * length (timings d) + state_rank (dec_state d)"

lemma preamble_loop_length:
  "preamble_loop tm ts = (ok, ts') \<Longrightarrow> (if ok then Suc (Suc (length ts')) \<le> length ts else length ts' \<le> 1)"
  by (induction tm ts rule: preamble_loop.induct) (auto simp: consume_samples_def split: if_splits)

text \<open>The states of the outer loop: the invariant, with the sample of this edge still to be processed.\<close>

definition loop_inv :: "InfraredCommonProtocolSpec \<Rightarrow> (nat \<Rightarrow> bool \<Rightarrow> bool) \<Rightarrow> InfraredCommonDecoder \<Rightarrow> bool" where
  "loop_inv spec room d \<longleftrightarrow>
     length (ir_data d) = payload_bytes (pdata spec) \<and> databit_cnt d \<le> max_length (pdata spec) \<and>
     (case dec_state d of
        InfraredCommonDecoderStateWaitPreamble \<Rightarrow> length (timings d) \<le> 6
      | InfraredCommonDecoderStateDecode \<Rightarrow> length (timings d) \<le> 4 \<and> room (databit_cnt d) (oldest_level (level d) (length (timings d)))
      | InfraredCommonDecoderStateProcessRepeat \<Rightarrow> decode_repeat spec \<noteq> None \<and> length (timings d) \<le> 6)"

locale preamble_decoder = decoder_contract +
  assumes preamble_on: "preamble_mark (spec_timings (pdata spec)) \<noteq> 0"
begin

lemma check_preamble_safe:
  assumes "infrared_check_preamble (pdata spec) d = (ok, d')"
  shows "dec_state d' = dec_state d \<and> level d' = level d \<and> ir_data d' = ir_data d \<and> databit_cnt d' = databit_cnt d \<and>
    (if ok then Suc (Suc (length (timings d'))) \<le> length (timings d) else length (timings d') \<le> 1)"
proof (cases "timings d = []")
  case False
  define ts where "ts = (if \<not> oldest_level (level d) (length (timings d)) then consume_samples (timings d) 1 else timings d)"
  obtain ok' ts' where l: "preamble_loop (spec_timings (pdata spec)) ts = (ok', ts')" by fastforce
  have "length ts \<le> length (timings d)" by (simp add: ts_def consume_samples_def)
  moreover have "ok = ok'" "d' = d\<lparr>timings := ts'\<rparr>"
    using assms False preamble_on l by (simp_all add: infrared_check_preamble_def Let_def flip: ts_def)
  ultimately show ?thesis using preamble_loop_length [OF l] by (auto split: if_splits)
qed (use assms in \<open>simp add: infrared_check_preamble_def\<close>)

lemma wait_state_returns:
  assumes "loop_inv spec room d" and d: "dec_state d = InfraredCommonDecoderStateWaitPreamble"
    and IH: "\<And>d' f. loop_inv spec room d' \<Longrightarrow> loop_measure d' < loop_measure d \<Longrightarrow> loop_returns spec room f d'"
  shows "loop_returns spec room found d"
proof -
  obtain ok d1 where p: "infrared_check_preamble (pdata spec) d = (ok, d1)" by fastforce
  note c = check_preamble_safe [OF p]
  show ?thesis
  proof (cases ok)
    case True
    have "loop_returns spec room found (d1\<lparr>dec_state := InfraredCommonDecoderStateDecode, databit_cnt := 0, switch_detect := False\<rparr>)"
      using c True assms(1) d room_0 by (intro IH) (auto simp: loop_inv_def loop_measure_def)
    then show ?thesis
      using p True d unfolding loop_returns_def by (subst decode_loop.simps) (simp add: Let_def)
  next
    case False
    then show ?thesis
      using p c assms(1) d preamble_on unfolding loop_returns_def
      by (subst decode_loop.simps) (auto simp: Let_def loop_inv_def decoder_inv_def)
  qed
qed

lemma ready_returns:
  assumes b: "infrared_common_decode_bits spec d = Inr (InfraredStatusReady, d1)" "known_length (pdata spec) (databit_cnt d1)"
    "dec_state d1 = InfraredCommonDecoderStateDecode" "dec_state d = InfraredCommonDecoderStateDecode"
    "length (ir_data d1) = payload_bytes (pdata spec)" "length (timings d1) \<le> length (timings d)" "length (timings d) \<le> 4"
    and IH: "\<And>d' f. loop_inv spec room d' \<Longrightarrow> loop_measure d' < loop_measure d \<Longrightarrow> loop_returns spec room f d'"
  shows "loop_returns spec room found d"
proof -
  obtain found1 d2 where m: "infrared_common_decoder_check_ready spec d1 = (found1, d2)" "timings d2 = timings d1"
      "length (ir_data d2) = length (ir_data d1)"
    and d2: "if found1 then databit_cnt d2 = 0 \<and> dec_state d2 =
        (if decode_repeat spec \<noteq> None then InfraredCommonDecoderStateProcessRepeat else InfraredCommonDecoderStateWaitPreamble)
      else databit_cnt d2 = max_length (pdata spec) \<and> dec_state d2 = InfraredCommonDecoderStateDecode"
    using check_ready_safe [OF b(2,3)] by auto
  show ?thesis
  proof (cases found1)
    case True
    have "loop_returns spec room True d2"
      using b(4-7) m d2 True by (intro IH) (auto simp: loop_inv_def loop_measure_def split: if_splits)
    then show ?thesis
      using b(1,4) m(1) True unfolding loop_returns_def by (subst decode_loop.simps) (simp add: Let_def)
  next
    case False
    then show ?thesis
      using b m d2 preamble_on unfolding loop_returns_def by (subst decode_loop.simps) (auto simp: Let_def decoder_inv_def)
  qed
qed

lemma decode_state_returns:
  assumes "loop_inv spec room d" and d: "dec_state d = InfraredCommonDecoderStateDecode"
    and IH: "\<And>d' f. loop_inv spec room d' \<Longrightarrow> loop_measure d' < loop_measure d \<Longrightarrow> loop_returns spec room f d'"
  shows "loop_returns spec room found d"
proof -
  have pre: "length (ir_data d) = payload_bytes (pdata spec)" "databit_cnt d \<le> max_length (pdata spec)"
      "room (databit_cnt d) (oldest_level (level d) (length (timings d)))" "length (timings d) \<le> 4"
    using assms(1) d by (simp_all add: loop_inv_def)
  obtain st d1 where b: "infrared_common_decode_bits spec d = Inr (st, d1)" "dec_state d1 = dec_state d" "level d1 = level d"
      "length (ir_data d1) = payload_bytes (pdata spec)" "databit_cnt d1 \<le> max_length (pdata spec)" "length (timings d1) \<le> length (timings d)"
    and st: "st = InfraredStatusOk \<and> timings d1 = [] \<and> room (databit_cnt d1) (\<not> level d) \<or> st = InfraredStatusError \<or>
      st = InfraredStatusReady \<and> known_length (pdata spec) (databit_cnt d1)"
    using decode_bits_safe [OF pre(1-3)] pre(1) unfolding infrared_common_decode_bits_def by auto
  from st consider (ok) "st = InfraredStatusOk" "timings d1 = []" "room (databit_cnt d1) (\<not> level d)" | (err) "st = InfraredStatusError"
    | (ready) "st = InfraredStatusReady" "known_length (pdata spec) (databit_cnt d1)" by blast
  then show ?thesis
  proof cases
    case ok
    then show ?thesis
      using b d unfolding loop_returns_def by (subst decode_loop.simps) (auto simp: decoder_inv_def)
  next
    case err
    have "loop_returns spec room found (infrared_common_decoder_reset_state (pdata spec) d1)"
      using b pre d preamble_on by (intro IH) (auto simp: infrared_common_decoder_reset_state_def loop_inv_def loop_measure_def)
    then show ?thesis
      using b err d unfolding loop_returns_def by (subst decode_loop.simps) simp
  next
    case ready
    then show ?thesis using ready_returns [of d d1 found] b d pre(4) IH by simp
  qed
qed

lemma repeat_state_returns:
  assumes "loop_inv spec room d" and d: "dec_state d = InfraredCommonDecoderStateProcessRepeat"
    and IH: "\<And>d' f. loop_inv spec room d' \<Longrightarrow> loop_measure d' < loop_measure d \<Longrightarrow> loop_returns spec room f d'"
  shows "loop_returns spec room found d"
proof -
  obtain rep where rep: "decode_repeat spec = Some rep" and l: "length (ir_data d) = payload_bytes (pdata spec)"
      "databit_cnt d \<le> max_length (pdata spec)" "length (timings d) \<le> 6"
    using assms(1) d by (auto simp: loop_inv_def)
  obtain st d1 where r: "rep (pdata spec) d = (st, d1)" by fastforce
  show ?thesis
  proof (cases "st = InfraredStatusError")
    case True
    have "loop_returns spec room found (infrared_common_decoder_reset_state (pdata spec) d)"
      using l d preamble_on by (intro IH) (auto simp: infrared_common_decoder_reset_state_def loop_inv_def loop_measure_def)
    then show ?thesis
      using repeat_law [OF rep r] r rep d True unfolding loop_returns_def by (subst decode_loop.simps) (auto simp: Let_def)
  next
    case False
    then show ?thesis
      using repeat_law [OF rep r] r rep l d unfolding loop_returns_def
      by (subst decode_loop.simps) (auto simp: decoder_inv_def Let_def)
  qed
qed

lemma decode_loop_safe: "loop_inv spec room d \<Longrightarrow> loop_returns spec room found d"
proof (induction "loop_measure d" arbitrary: d found rule: less_induct)
  case less
  then show ?case
    using wait_state_returns decode_state_returns repeat_state_returns by (cases "dec_state d") blast+
qed

lemma decode_safe:
  assumes "decoder_inv spec room d"
  shows "\<exists>found d'. infrared_common_decode spec d lvl t = Some (Inr (found, d')) \<and> decoder_inv spec room d'"
proof -
  let ?d = "if level d = lvl then infrared_common_decoder_reset (pdata spec) d else d"
  have l: "length (timings ?d @ [t]) \<le> 6" and i: "loop_inv spec room (?d\<lparr>level := lvl, timings := timings ?d @ [t]\<rparr>)"
    using assms preamble_on
    by (auto simp: decoder_inv_def loop_inv_def infrared_common_decoder_reset_def infrared_common_decoder_reset_state_def
        split: InfraredCommonStateDecoder.splits)
  then show ?thesis
    using decode_loop_safe [OF i, of False] unfolding infrared_common_decode_def Let_def loop_returns_def by simp
qed

end

text \<open>A protocol without a preamble never has more than two samples pending, so a few turns of the loop suffice.\<close>

locale bare_decoder = decoder_contract +
  assumes preamble_off: "preamble_mark (spec_timings (pdata spec)) = 0" and no_repeat: "decode_repeat spec = None"
begin

lemma empty_returns:
  assumes "dec_state d = InfraredCommonDecoderStateDecode" "timings d = []" "length (ir_data d) = payload_bytes (pdata spec)"
    "databit_cnt d \<le> max_length (pdata spec)" "room (databit_cnt d) (\<not> level d)"
  shows "loop_returns spec room found d"
  using assms unfolding loop_returns_def
  by (subst decode_loop.simps) (simp add: infrared_common_decode_bits_def decoder_inv_def)

lemma wait_empty_returns:
  assumes "dec_state d = InfraredCommonDecoderStateWaitPreamble" "timings d = []" "length (ir_data d) = payload_bytes (pdata spec)"
    "databit_cnt d \<le> max_length (pdata spec)"
  shows "loop_returns spec room found d"
  using assms preamble_off unfolding loop_returns_def
  by (subst decode_loop.simps) (simp add: infrared_check_preamble_def decoder_inv_def Let_def)

lemma space_skipped:
  assumes "dec_state d = InfraredCommonDecoderStateWaitPreamble" "timings d = [x]" "\<not> level d"
    "length (ir_data d) = payload_bytes (pdata spec)"
  shows "loop_returns spec room found d"
proof -
  have "loop_returns spec room found
      (d\<lparr>timings := [], dec_state := InfraredCommonDecoderStateDecode, databit_cnt := 0, switch_detect := False\<rparr>)"
    using assms room_0 by (intro empty_returns) simp_all
  then show ?thesis
    using assms preamble_off unfolding loop_returns_def
    by (subst decode_loop.simps) (simp add: infrared_check_preamble_def Let_def consume_samples_def)
qed

lemma sample_returns:
  assumes "dec_state d = InfraredCommonDecoderStateDecode" "timings d = [t]" "length (ir_data d) = payload_bytes (pdata spec)"
    "databit_cnt d \<le> max_length (pdata spec)" "room (databit_cnt d) (level d)"
  shows "loop_returns spec room found d"
proof -
  have "room (databit_cnt d) (oldest_level (level d) (length [t]))" using assms(5) by simp
  from decode_bits_safe [OF assms(3,4) this] obtain st d1 where
      b: "infrared_common_decode_bits spec d = Inr (st, d1)" "dec_state d1 = InfraredCommonDecoderStateDecode" "level d1 = level d"
        "length (ir_data d1) = payload_bytes (pdata spec)" "databit_cnt d1 \<le> max_length (pdata spec)" "length (timings d1) \<le> 1"
      and st: "st = InfraredStatusOk \<and> timings d1 = [] \<and> room (databit_cnt d1) (\<not> level d) \<or> st = InfraredStatusError \<and> timings d1 \<noteq> [] \<or>
        st = InfraredStatusReady \<and> known_length (pdata spec) (databit_cnt d1) \<and> timings d1 \<noteq> [] \<and> \<not> oldest_level (level d) (length (timings d1))"
    using assms(1-3) unfolding infrared_common_decode_bits_def by auto
  show ?thesis
  proof (cases "timings d1")
    case Nil
    then show ?thesis
      using b st assms(1) unfolding loop_returns_def by (subst decode_loop.simps) (auto simp: decoder_inv_def)
  next
    case (Cons x xs)
    then have x: "timings d1 = [x]" using b(6) by simp
    show ?thesis
    proof (cases "st = InfraredStatusError")
      case True
      have "loop_returns spec room found (infrared_common_decoder_reset_state (pdata spec) d1)"
        using b x preamble_off by (intro wait_empty_returns) (simp_all add: infrared_common_decoder_reset_state_def consume_samples_def)
      then show ?thesis
        using b(1) True assms(1) unfolding loop_returns_def by (subst decode_loop.simps) simp
    next
      case False
      then have r: "st = InfraredStatusReady" "known_length (pdata spec) (databit_cnt d1)" "\<not> level d1"
        using st x b(3) by auto
      obtain ok d2 where c: "infrared_common_decoder_check_ready spec d1 = (ok, d2)" "timings d2 = [x]" "\<not> level d2"
          "length (ir_data d2) = payload_bytes (pdata spec)"
        and d2: "if ok then databit_cnt d2 = 0 \<and> dec_state d2 = InfraredCommonDecoderStateWaitPreamble
          else databit_cnt d2 = max_length (pdata spec) \<and> dec_state d2 = InfraredCommonDecoderStateDecode"
        using check_ready_safe [OF r(2) b(2)] r(3) x b(4) no_repeat by auto
      then show ?thesis
        using b(1) r(1) assms(1) preamble_off space_skipped [of d2 x True] unfolding loop_returns_def
        by (subst decode_loop.simps) (auto simp: Let_def decoder_inv_def split: if_splits)
    qed
  qed
qed

lemma wait_returns:
  assumes "dec_state d = InfraredCommonDecoderStateWaitPreamble" "length (ir_data d) = payload_bytes (pdata spec)"
    "timings d = [t] \<or> timings d = [x, t] \<and> level d"
  shows "loop_returns spec room found d"
proof (cases "timings d = [t] \<and> \<not> level d")
  case True
  then show ?thesis using assms(1,2) by (intro space_skipped) simp_all
next
  case False
  have "loop_returns spec room found
      (d\<lparr>timings := [t], dec_state := InfraredCommonDecoderStateDecode, databit_cnt := 0, switch_detect := False\<rparr>)"
    using assms(2) room_0 by (intro sample_returns) simp_all
  moreover have "infrared_check_preamble (pdata spec) d = (True, d\<lparr>timings := [t]\<rparr>)"
    using False assms(3) preamble_off
    by (cases "timings d = [t]") (auto simp: infrared_check_preamble_def Let_def consume_samples_def oldest_level_Suc numeral_2_eq_2)
  ultimately show ?thesis
    using assms(1) unfolding loop_returns_def by (subst decode_loop.simps) simp
qed

lemma decode_safe:
  assumes "decoder_inv spec room d"
  shows "\<exists>found d'. infrared_common_decode spec d lvl t = Some (Inr (found, d')) \<and> decoder_inv spec room d'"
proof -
  let ?d = "if level d = lvl then infrared_common_decoder_reset (pdata spec) d else d"
  let ?e = "?d\<lparr>level := lvl, timings := timings ?d @ [t]\<rparr>"
  have l: "length (timings ?d @ [t]) \<le> 6"
    using assms preamble_off no_repeat
    by (auto simp: decoder_inv_def infrared_common_decoder_reset_def split: InfraredCommonStateDecoder.splits)
  have "loop_returns spec room False ?e"
  proof (cases "dec_state ?d")
    case InfraredCommonDecoderStateWaitPreamble
    then have "\<exists>x. timings ?e = [t] \<or> timings ?e = [x, t] \<and> lvl"
      using assms preamble_off
      by (auto simp: decoder_inv_def infrared_common_decoder_reset_def length_Suc_conv split: if_splits)
    then obtain x where "timings ?e = [t] \<or> timings ?e = [x, t] \<and> lvl" by blast
    then show ?thesis
      using assms InfraredCommonDecoderStateWaitPreamble
      by (intro wait_returns [of _ t x]) (auto simp: decoder_inv_def infrared_common_decoder_reset_def infrared_common_decoder_reset_state_def)
  next
    case InfraredCommonDecoderStateDecode
    then show ?thesis
      using assms
      by (intro sample_returns [of _ t])
        (auto simp: decoder_inv_def infrared_common_decoder_reset_def infrared_common_decoder_reset_state_def split: if_splits)
  next
    case InfraredCommonDecoderStateProcessRepeat
    then show ?thesis
      using assms no_repeat
      by (auto simp: decoder_inv_def infrared_common_decoder_reset_def infrared_common_decoder_reset_state_def split: if_splits)
  qed
  then show ?thesis
    using l unfolding infrared_common_decode_def Let_def loop_returns_def by simp
qed

end

section \<open>The bit decoders meet the contract\<close>

definition any_room :: "nat \<Rightarrow> bool \<Rightarrow> bool" where
  "any_room n lvl \<longleftrightarrow> True"

text \<open>With pulse-width modulation a bit ends with its mark, so after the last bit the next sample is a space.\<close>

definition mark_room :: "InfraredProtocolData \<Rightarrow> nat \<Rightarrow> bool \<Rightarrow> bool" where
  "mark_room pd n lvl \<longleftrightarrow> (n = max_length pd \<longrightarrow> \<not> lvl)"

lemma pdm_decode_law:
  assumes "length (ir_data d) = payload_bytes pd" "databit_cnt d \<le> max_length pd" "\<not> lvl \<Longrightarrow> databit_cnt d < max_length pd"
    "bit1_mark (spec_timings pd) = bit0_mark (spec_timings pd)"
  shows "\<exists>st d'. infrared_common_decode_pdwm pd d lvl t = Inr (st, d') \<and> same_frame d d' \<and> databit_cnt d' \<le> max_length pd \<and>
    (st = InfraredStatusError \<or> st = InfraredStatusOk)"
proof (cases lvl)
  case True
  then show ?thesis using assms by (auto simp: infrared_common_decode_pdwm_def Let_def same_frame_def)
next
  case False
  then show ?thesis
    using assms accumulate_lsb_ok [of d pd True] accumulate_lsb_ok [of d pd False]
    by (auto simp: infrared_common_decode_pdwm_def Let_def same_frame_def)
qed

lemma pwm_decode_law:
  assumes "length (ir_data d) = payload_bytes pd" "databit_cnt d \<le> max_length pd" "\<not> lvl \<Longrightarrow> databit_cnt d < max_length pd"
    "mark_room pd (databit_cnt d) lvl" "bit1_mark (spec_timings pd) \<noteq> bit0_mark (spec_timings pd)"
  shows "\<exists>st d'. infrared_common_decode_pdwm pd d lvl t = Inr (st, d') \<and> same_frame d d' \<and> databit_cnt d' \<le> max_length pd \<and>
    (st = InfraredStatusError \<or> st = InfraredStatusOk \<and> mark_room pd (databit_cnt d') (\<not> lvl))"
proof (cases lvl)
  case False
  then show ?thesis using assms by (auto simp: infrared_common_decode_pdwm_def Let_def same_frame_def mark_room_def)
next
  case True
  then have "databit_cnt d < max_length pd" using assms(2,4) by (auto simp: mark_room_def)
  then show ?thesis
    using True assms accumulate_lsb_ok [of d pd True] accumulate_lsb_ok [of d pd False]
    by (auto simp: infrared_common_decode_pdwm_def Let_def same_frame_def mark_room_def)
qed

lemma manchester_decode_law:
  assumes "length (ir_data d) = payload_bytes pd" "databit_cnt d \<le> max_length pd" "1 < max_length pd"
  shows "\<exists>st d'. infrared_common_decode_manchester pd d lvl t = Inr (st, d') \<and> same_frame d d' \<and> databit_cnt d' \<le> max_length pd \<and>
    (st = InfraredStatusError \<or> st = InfraredStatusOk)"
proof -
  obtain d1 where d1: "(if manchester_start_from_space pd \<and> databit_cnt d = 0 then accumulate_lsb (d\<lparr>switch_detect := True\<rparr>) False else Inr d) = Inr d1"
      "same_frame d d1" "databit_cnt d1 \<le> max_length pd" "length (ir_data d1) = payload_bytes pd"
    using assms accumulate_lsb_ok [of "d\<lparr>switch_detect := True\<rparr>" pd False]
    by (cases "manchester_start_from_space pd \<and> databit_cnt d = 0") (auto simp: same_frame_def)
  define d2 where "d2 = (if \<not> switch_detect d1 then d1\<lparr>switch_detect := True\<rparr>
      else if MATCH_TIMING t (ucast (bit1_mark (spec_timings pd))) (bit_tolerance (spec_timings pd)) then d1\<lparr>switch_detect := False\<rparr> else d1)"
  have d2: "same_frame d d2" "databit_cnt d2 \<le> max_length pd" "length (ir_data d2) = payload_bytes pd"
    using d1(2-4) by (auto simp: d2_def same_frame_def)
  have acc: "\<exists>x. accumulate_lsb d2 lvl = Inr (d2\<lparr>ir_data := x, databit_cnt := Suc (databit_cnt d2)\<rparr>) \<and> length x = length (ir_data d2)"
    if "max_length pd \<noteq> databit_cnt d2"
    using accumulate_lsb_ok [of d2 pd lvl] d2(2,3) that by simp
  let ?single = "MATCH_TIMING t (ucast (bit1_mark (spec_timings pd))) (bit_tolerance (spec_timings pd))"
    and ?double = "MATCH_TIMING t (2 * ucast (bit1_mark (spec_timings pd))) (bit_tolerance (spec_timings pd))"
  have "infrared_common_decode_manchester pd d lvl t =
      (if \<not> ?single \<and> \<not> ?double then Inr (InfraredStatusError, d)
       else if \<not> switch_detect d1 \<and> ?double then Inr (InfraredStatusError, d1)
       else if switch_detect d2 then
         if max_length pd = databit_cnt d2 then Inr (InfraredStatusError, d2)
         else checked_bind (accumulate_lsb d2 lvl) (\<lambda>dec. Inr (InfraredStatusOk, dec))
       else Inr (InfraredStatusOk, d2))"
    unfolding infrared_common_decode_manchester_def Let_def d1(1) checked_bind_simps d2_def by (rule refl)
  then show ?thesis
    using assms(2) d1 d2 acc by (cases "max_length pd = databit_cnt d2") (auto simp: same_frame_def)
qed

lemma rc6_decode_law:
  assumes "length (ir_data d) = payload_bytes pd" "databit_cnt d \<le> max_length pd" "5 < max_length pd"
  shows "\<exists>st d'. infrared_decoder_rc6_decode_manchester pd d lvl t = Inr (st, d') \<and> same_frame d d' \<and> databit_cnt d' \<le> max_length pd \<and>
    (st = InfraredStatusError \<or> st = InfraredStatusOk)"
proof -
  have "0 < length (ir_data d)" using payload_index [of 0 pd] assms by simp
  moreover have "\<exists>st d'. infrared_common_decode_manchester pd (d\<lparr>switch_detect := False\<rparr>) lvl t' = Inr (st, d') \<and> same_frame d d' \<and>
      databit_cnt d' \<le> max_length pd \<and> (st = InfraredStatusError \<or> st = InfraredStatusOk)" for t'
    using manchester_decode_law [of "d\<lparr>switch_detect := False\<rparr>" pd lvl t'] assms by (auto simp: same_frame_def)
  ultimately show ?thesis
    using manchester_decode_law [of d pd lvl t] assms
    by (auto simp: infrared_decoder_rc6_decode_manchester_def Let_def mem_read_def mem_write_def same_frame_def)
qed

lemma set_message_frame [simp]: "same_frame d (set_message p a c d)" "same_frame d (set_toggled_message p a c t d)"
  "databit_cnt (set_message p a c d) = databit_cnt d" "databit_cnt (set_toggled_message p a c t d) = databit_cnt d"
  by (simp_all add: same_frame_def set_message_def set_toggled_message_def Let_def)

lemma same_frame_refl [simp]: "same_frame d d"
  by (simp add: same_frame_def)

lemmas interpret_defs = infrared_decoder_nec_interpret_def infrared_decoder_samsung32_interpret_def infrared_decoder_rca_interpret_def
  infrared_decoder_kaseikyo_interpret_def infrared_decoder_sirc_interpret_def infrared_decoder_rc6_interpret_def

interpretation nec_dec: preamble_decoder infrared_protocol_nec any_room
  by unfold_locales (use pdm_decode_law [of _ "pdata infrared_protocol_nec"] in
    \<open>auto simp: spec_defs any_room_def known_length_def interpret_defs infrared_decoder_nec_decode_repeat_def Let_def split: if_splits\<close>)

interpretation samsung_dec: preamble_decoder infrared_protocol_samsung32 any_room
  by unfold_locales (use pdm_decode_law [of _ "pdata infrared_protocol_samsung32"] in
    \<open>auto simp: spec_defs any_room_def known_length_def interpret_defs infrared_decoder_samsung32_decode_repeat_def Let_def split: if_splits\<close>)

interpretation rca_dec: preamble_decoder infrared_protocol_rca any_room
  by unfold_locales (use pdm_decode_law [of _ "pdata infrared_protocol_rca"] in
    \<open>auto simp: spec_defs any_room_def known_length_def interpret_defs Let_def split: if_splits\<close>)

interpretation kaseikyo_dec: preamble_decoder infrared_protocol_kaseikyo any_room
  by unfold_locales (use pdm_decode_law [of _ "pdata infrared_protocol_kaseikyo"] in
    \<open>auto simp: spec_defs any_room_def known_length_def interpret_defs Let_def split: if_splits\<close>)

interpretation sirc_dec: preamble_decoder infrared_protocol_sirc "mark_room (pdata infrared_protocol_sirc)"
  by unfold_locales (use pwm_decode_law [of _ "pdata infrared_protocol_sirc"] in
    \<open>auto simp: spec_defs mark_room_def known_length_def interpret_defs Let_def split: if_splits\<close>)

interpretation rc6_dec: preamble_decoder infrared_protocol_rc6 any_room
  by unfold_locales (use rc6_decode_law [of _ "pdata infrared_protocol_rc6"] in
    \<open>auto simp: infrared_protocol_rc6_def any_room_def known_length_def interpret_defs Let_def split: if_splits\<close>)

lemma rc5_interpret_frame:
  "infrared_decoder_rc5_interpret pd d = (ok, d') \<Longrightarrow> same_frame d d' \<and> databit_cnt d' = databit_cnt d"
  by (auto simp: infrared_decoder_rc5_interpret_def set_toggled_message_def same_frame_def Let_def split: if_splits)

interpretation rc5_dec: bare_decoder infrared_protocol_rc5 any_room
  by unfold_locales (use manchester_decode_law [of _ "pdata infrared_protocol_rc5"] rc5_interpret_frame in
    \<open>auto simp: infrared_protocol_rc5_def any_room_def known_length_def\<close>)

section \<open>No decoder but Pioneer's can hang or halt the firmware\<close>

lemma feed_safe:
  assumes step: "\<And>d lvl t. decoder_inv spec room d \<Longrightarrow>
      \<exists>found d'. infrared_common_decode spec d lvl t = Some (Inr (found, d')) \<and> decoder_inv spec room d'"
  shows "decoder_inv spec room d \<Longrightarrow> \<exists>ms d'. ir_feed spec es d = Some (Inr (ms, d')) \<and> decoder_inv spec room d'"
proof (induction es arbitrary: d)
  case (Cons e es)
  obtain lvl t where e: "e = (lvl, t)" by fastforce
  obtain found d1 where d1: "infrared_common_decode spec d lvl t = Some (Inr (found, d1))" "decoder_inv spec room d1"
    using step [OF Cons.prems] by blast
  from Cons.IH [OF d1(2)] show ?case using e d1(1) by auto
qed simp

lemma alloc_decoder_inv: "decoder_inv spec room (infrared_common_decoder_alloc (pdata spec))"
  by (simp add: decoder_inv_def infrared_common_decoder_alloc_def)

text \<open>
  C5 (termination): every protocol decoder except Pioneer's, fed any sequence of levels and durations from its allocation
  on, returns after each edge (its \<open>while(1)\<close> ends), never fails a \<open>furi_check\<close> (sample buffer, bit count) and
  never writes outside its payload.
\<close>

theorem infrared_decoders_total:
  assumes "spec \<in> {infrared_protocol_nec, infrared_protocol_samsung32, infrared_protocol_rc5, infrared_protocol_rc6,
    infrared_protocol_sirc, infrared_protocol_kaseikyo, infrared_protocol_rca}"
  shows "\<exists>ms dec. ir_feed spec es (infrared_common_decoder_alloc (pdata spec)) = Some (Inr (ms, dec)) \<and> length (timings dec) < 6"
proof -
  have "\<exists>room. \<forall>d lvl t. decoder_inv spec room d \<longrightarrow>
      (\<exists>found d'. infrared_common_decode spec d lvl t = Some (Inr (found, d')) \<and> decoder_inv spec room d')"
    using assms nec_dec.decode_safe samsung_dec.decode_safe rc5_dec.decode_safe rc6_dec.decode_safe sirc_dec.decode_safe
      kaseikyo_dec.decode_safe rca_dec.decode_safe by blast
  then obtain room where step: "\<And>d lvl t. decoder_inv spec room d \<Longrightarrow>
      \<exists>found d'. infrared_common_decode spec d lvl t = Some (Inr (found, d')) \<and> decoder_inv spec room d'" by blast
  obtain ms dec where "ir_feed spec es (infrared_common_decoder_alloc (pdata spec)) = Some (Inr (ms, dec))" "decoder_inv spec room dec"
    using feed_safe [OF step alloc_decoder_inv] by blast
  moreover from this(2) have "length (timings dec) < 6"
    by (auto simp: decoder_inv_def split: InfraredCommonStateDecoder.splits if_splits)
  ultimately show ?thesis by blast
qed

theorem infrared_decoders_total_witness:
  "\<exists>ms dec. ir_feed infrared_protocol_rc6 [(True, 2666), (True, 2666), (False, 889), (True, 7), (False, 70000)]
     (infrared_common_decoder_alloc (pdata infrared_protocol_rc6)) = Some (Inr (ms, dec)) \<and> length (timings dec) < 6"
  by (rule infrared_decoders_total) simp

section \<open>The Pioneer decoder and the handler\<close>

text \<open>
  Pioneer lists the lengths 33 and 32, and its \<open>interpret\<close> fails on a wrong checksum. At 32 bits the decoder then
  neither consumes the gap nor leaves the decoding state, so each further edge is appended to the six-entry sample
  buffer.
\<close>

lemma pioneer_data:
  "payload_bytes (pdata infrared_protocol_pioneer) = 5" "known_length (pdata infrared_protocol_pioneer) 32"
  "databit_len (pdata infrared_protocol_pioneer) = [33, 32, 0, 0]"
  "interpret_msg infrared_protocol_pioneer = infrared_decoder_pioneer_interpret"
  "min_split_time (spec_timings (pdata infrared_protocol_pioneer)) = 26000"
  by (simp_all add: payload_bytes_def known_length_def spec_defs)

definition stuck :: "u32 \<Rightarrow> nat \<Rightarrow> InfraredCommonDecoder \<Rightarrow> bool" where
  "stuck gap k d \<longleftrightarrow> dec_state d = InfraredCommonDecoderStateDecode \<and> databit_cnt d = 32 \<and> length (timings d) = Suc k \<and>
     hd (timings d) = gap \<and> level d = odd k \<and> (\<exists>a b c e. (b \<noteq> NOT a \<or> e \<noteq> NOT c) \<and> byte_at (ir_data d) 0 = a \<and>
       byte_at (ir_data d) 1 = b \<and> byte_at (ir_data d) 2 = c \<and> byte_at (ir_data d) 3 = e)"

lemma pioneer_interpret_fails:
  assumes "byte_at (ir_data d) 1 \<noteq> NOT (byte_at (ir_data d) 0) \<or> byte_at (ir_data d) 3 \<noteq> NOT (byte_at (ir_data d) 2)"
  shows "infrared_decoder_pioneer_interpret pd d = (False, d)"
proof -
  have low: "ucast (x AND 0xFF) = (ucast x :: u8)" for x :: u32
    unfolding mask_takes by (rule bit_word_eqI) (auto simp: bit_simps)
  show ?thesis
    using assms unfolding infrared_decoder_pioneer_interpret_def Let_def low load_le32_def four_bytes by auto
qed

lemma stuck_loop:
  assumes "stuck gap k d" "26000 < gap"
  shows "decode_loop infrared_protocol_pioneer False d = Some (Inr (False, d))"
proof -
  obtain ts where ts: "timings d = gap # ts" "length ts = k"
    using assms(1) by (cases "timings d") (auto simp: stuck_def)
  have "\<not> oldest_level (level d) (Suc (length ts))"
    using assms(1) ts by (auto simp: stuck_def oldest_level_def)
  then have "infrared_common_decode_bits infrared_protocol_pioneer d = Inr (InfraredStatusReady, d\<lparr>timings := gap # ts\<rparr>)"
    using assms ts by (simp add: infrared_common_decode_bits_def stuck_def pioneer_data Let_def)
  moreover have "d\<lparr>timings := gap # ts\<rparr> = d" using ts(1) by (cases d) simp
  moreover have "infrared_common_decoder_check_ready infrared_protocol_pioneer d = (False, d)"
    using assms(1) pioneer_interpret_fails [of d] by (auto simp: infrared_common_decoder_check_ready_def stuck_def pioneer_data)
  ultimately show ?thesis
    using assms(1) by (subst decode_loop.simps) (simp add: stuck_def pioneer_data Let_def)
qed

lemma stuck_step:
  assumes "stuck gap k d" "26000 < gap"
  shows "infrared_common_decode infrared_protocol_pioneer d (odd (Suc k)) t =
    (if k < 5 then Some (Inr (False, d\<lparr>level := odd (Suc k), timings := timings d @ [t]\<rparr>)) else Some (Inl Furi_Check))"
    and "stuck gap (Suc k) (d\<lparr>level := odd (Suc k), timings := timings d @ [t]\<rparr>)"
proof -
  have l: "level d \<noteq> odd (Suc k)" "length (timings d) = Suc k" using assms(1) by (simp_all add: stuck_def)
  show s: "stuck gap (Suc k) (d\<lparr>level := odd (Suc k), timings := timings d @ [t]\<rparr>)"
    using assms(1) by (auto simp: stuck_def hd_append)
  show "infrared_common_decode infrared_protocol_pioneer d (odd (Suc k)) t =
    (if k < 5 then Some (Inr (False, d\<lparr>level := odd (Suc k), timings := timings d @ [t]\<rparr>)) else Some (Inl Furi_Check))"
    using l stuck_loop [OF s assms(2)] by (simp add: infrared_common_decode_def)
qed

text \<open>A frame whose complement bytes are wrong, and the edges after it.\<close>

definition bad_pioneer_frame :: "u8 \<Rightarrow> u8 \<Rightarrow> u8 \<Rightarrow> u8 \<Rightarrow> u32 \<Rightarrow> edge list" where
  "bad_pioneer_frame a b c e gap =
     frame_edges (spec_timings (pdata infrared_protocol_pioneer)) 32 (dbit [a, b, c, e]) @ [(False, gap)]"

lemma pioneer_gets_stuck:
  assumes "b \<noteq> NOT a \<or> e \<noteq> NOT c" "26000 < gap" "idle (pdata infrared_protocol_pioneer) dec"
  shows "\<exists>d. ir_feed infrared_protocol_pioneer (bad_pioneer_frame a b c e gap) dec = Some (Inr ([], d)) \<and> stuck gap 0 d"
proof -
  obtain d1 where d1: "ir_feed infrared_protocol_pioneer
      (frame_edges (spec_timings (pdata infrared_protocol_pioneer)) 32 (dbit [a, b, c, e])) dec = Some (Inr ([], d1))"
      "receiving (pdata infrared_protocol_pioneer) 32 (dbit [a, b, c, e]) True d1"
    using pioneer.feed_frame [OF assms(3), of 32] by (auto simp: pioneer_data)
  let ?d = "d1\<lparr>level := False, timings := [gap]\<rparr>"
  have r: "received 32 (dbit [a, b, c, e]) d1" "length (ir_data d1) = 5" "dec_state d1 = InfraredCommonDecoderStateDecode"
      "timings d1 = []" "level d1"
    using d1(2) by (simp_all add: receiving_def pioneer_data)
  have "byte_at (ir_data d1) 0 = a" "byte_at (ir_data d1) 1 = b" "byte_at (ir_data d1) 2 = c" "byte_at (ir_data d1) 3 = e"
    using whole_byte_received [OF r(1), of 0] whole_byte_received [OF r(1), of 1] whole_byte_received [OF r(1), of 2]
      whole_byte_received [OF r(1), of 3] r(2) by simp_all
  then have s: "stuck gap 0 ?d"
    using r assms(1) by (auto simp: stuck_def received_def)
  have "ir_feed infrared_protocol_pioneer [(False, gap)] d1 = Some (Inr ([], ?d))"
    using stuck_loop [OF s assms(2)] r(4,5) by (simp add: infrared_common_decode_def)
  from ir_feed_append [OF d1(1) this] s show ?thesis by (auto simp: bad_pioneer_frame_def)
qed

lemma stuck_crashes:
  assumes "stuck gap 0 d" "26000 < gap"
  shows "ir_feed infrared_protocol_pioneer [(True, t1), (False, t2), (True, t3), (False, t4), (True, t5), (False, t6)] d = Some (Inl Furi_Check)"
proof -
  note s0 = stuck_step [OF assms, of t1]
  note s1 = stuck_step [OF s0(2) assms(2), of t2]
  note s2 = stuck_step [OF s1(2) assms(2), of t3]
  note s3 = stuck_step [OF s2(2) assms(2), of t4]
  note s4 = stuck_step [OF s3(2) assms(2), of t5]
  note s5 = stuck_step [OF s4(2) assms(2), of t6]
  show ?thesis using s0(1) s1(1) s2(1) s3(1) s4(1) s5(1) by simp
qed

lemma ir_feed_append_fault:
  "ir_feed spec es dec = Some (Inr (ms, dec')) \<Longrightarrow> ir_feed spec fs dec' = Some (Inl err) \<Longrightarrow> ir_feed spec (es @ fs) dec = Some (Inl err)"
proof (induction es arbitrary: dec ms)
  case (Cons e es)
  then show ?case
    by (cases e) (fastforce split: option.splits sum.splits prod.splits simp: checked_bind_Inr)
qed simp

text \<open>The handler, edge by edge, and its invariant: the seven decoders that meet the contract keep theirs.\<close>

fun handler_feed :: "edge list \<Rightarrow> InfraredCommonDecoder list \<Rightarrow> (InfraredMessage list \<times> InfraredCommonDecoder list) checked option" where
  "handler_feed [] ctx = Some (Inr ([], ctx))"
| "handler_feed ((lvl, d) # es) ctx =
     (case infrared_decode ctx lvl d of
        None \<Rightarrow> None
      | Some (Inl e) \<Rightarrow> Some (Inl e)
      | Some (Inr (result, ctx)) \<Rightarrow>
          map_option (\<lambda>r. checked_bind r (\<lambda>(ms, ctx'). Inr ((case result of None \<Rightarrow> [] | Some m \<Rightarrow> [m]) @ ms, ctx'))) (handler_feed es ctx))"

definition ctx_inv :: "InfraredCommonDecoder \<Rightarrow> InfraredCommonDecoder list \<Rightarrow> bool" where
  "ctx_inv p ctx \<longleftrightarrow> (\<exists>c0 c1 c2 c3 c4 c6 c7. ctx = [c0, c1, c2, c3, c4, p, c6, c7] \<and>
     decoder_inv infrared_protocol_nec any_room c0 \<and> decoder_inv infrared_protocol_samsung32 any_room c1 \<and>
     decoder_inv infrared_protocol_rc5 any_room c2 \<and> decoder_inv infrared_protocol_rc6 any_room c3 \<and>
     decoder_inv infrared_protocol_sirc (mark_room (pdata infrared_protocol_sirc)) c4 \<and>
     decoder_inv infrared_protocol_kaseikyo any_room c6 \<and> decoder_inv infrared_protocol_rca any_room c7)"

lemma infrared_decode_step:
  assumes "ctx_inv p ctx"
  shows "infrared_common_decode infrared_protocol_pioneer p lvl t = Some (Inl err) \<Longrightarrow> infrared_decode ctx lvl t = Some (Inl err)"
    and "infrared_common_decode infrared_protocol_pioneer p lvl t = None \<Longrightarrow> infrared_decode ctx lvl t = None"
    and "infrared_common_decode infrared_protocol_pioneer p lvl t = Some (Inr (found, p')) \<Longrightarrow>
      \<exists>result ctx'. infrared_decode ctx lvl t = Some (Inr (result, ctx')) \<and> ctx_inv p' ctx'"
proof -
  obtain c0 c1 c2 c3 c4 c6 c7 where c: "ctx = [c0, c1, c2, c3, c4, p, c6, c7]"
    and i: "decoder_inv infrared_protocol_nec any_room c0" "decoder_inv infrared_protocol_samsung32 any_room c1"
     "decoder_inv infrared_protocol_rc5 any_room c2" "decoder_inv infrared_protocol_rc6 any_room c3"
     "decoder_inv infrared_protocol_sirc (mark_room (pdata infrared_protocol_sirc)) c4"
     "decoder_inv infrared_protocol_kaseikyo any_room c6" "decoder_inv infrared_protocol_rca any_room c7"
    using assms by (auto simp: ctx_inv_def)
  obtain f0 d0 f1 d1 f2 d2 f3 d3 f4 d4 f6 d6 f7 d7 where
    d: "infrared_common_decode infrared_protocol_nec c0 lvl t = Some (Inr (f0, d0))"
     "infrared_common_decode infrared_protocol_samsung32 c1 lvl t = Some (Inr (f1, d1))"
     "infrared_common_decode infrared_protocol_rc5 c2 lvl t = Some (Inr (f2, d2))"
     "infrared_common_decode infrared_protocol_rc6 c3 lvl t = Some (Inr (f3, d3))"
     "infrared_common_decode infrared_protocol_sirc c4 lvl t = Some (Inr (f4, d4))"
     "infrared_common_decode infrared_protocol_kaseikyo c6 lvl t = Some (Inr (f6, d6))"
     "infrared_common_decode infrared_protocol_rca c7 lvl t = Some (Inr (f7, d7))"
    and j: "decoder_inv infrared_protocol_nec any_room d0" "decoder_inv infrared_protocol_samsung32 any_room d1"
     "decoder_inv infrared_protocol_rc5 any_room d2" "decoder_inv infrared_protocol_rc6 any_room d3"
     "decoder_inv infrared_protocol_sirc (mark_room (pdata infrared_protocol_sirc)) d4"
     "decoder_inv infrared_protocol_kaseikyo any_room d6" "decoder_inv infrared_protocol_rca any_room d7"
    using nec_dec.decode_safe [OF i(1), of lvl t] samsung_dec.decode_safe [OF i(2), of lvl t] rc5_dec.decode_safe [OF i(3), of lvl t]
      rc6_dec.decode_safe [OF i(4), of lvl t] sirc_dec.decode_safe [OF i(5), of lvl t] kaseikyo_dec.decode_safe [OF i(6), of lvl t]
      rca_dec.decode_safe [OF i(7), of lvl t] by blast
  show "infrared_common_decode infrared_protocol_pioneer p lvl t = Some (Inl err) \<Longrightarrow> infrared_decode ctx lvl t = Some (Inl err)"
    "infrared_common_decode infrared_protocol_pioneer p lvl t = None \<Longrightarrow> infrared_decode ctx lvl t = None"
    unfolding c infrared_decode_def infrared_encoder_decoder_def by (simp_all add: d)
  assume "infrared_common_decode infrared_protocol_pioneer p lvl t = Some (Inr (found, p'))"
  then have "\<exists>result. infrared_decode ctx lvl t = Some (Inr (result, [d0, d1, d2, d3, d4, p', d6, d7]))"
    unfolding c infrared_decode_def infrared_encoder_decoder_def by (simp add: d)
  then show "\<exists>result ctx'. infrared_decode ctx lvl t = Some (Inr (result, ctx')) \<and> ctx_inv p' ctx'"
    using j unfolding ctx_inv_def by blast
qed

lemma handler_follows_pioneer:
  assumes "ctx_inv p ctx"
  shows "ir_feed infrared_protocol_pioneer es p = Some (Inl err) \<Longrightarrow> handler_feed es ctx = Some (Inl err)"
    and "ir_feed infrared_protocol_pioneer es p = None \<Longrightarrow> handler_feed es ctx = None"
    and "ir_feed infrared_protocol_pioneer es p = Some (Inr (ms, p')) \<Longrightarrow> \<exists>ns ctx'. handler_feed es ctx = Some (Inr (ns, ctx')) \<and> ctx_inv p' ctx'"
proof -
  have "(case ir_feed infrared_protocol_pioneer es p of
          None \<Rightarrow> handler_feed es ctx = None
        | Some (Inl err) \<Rightarrow> handler_feed es ctx = Some (Inl err)
        | Some (Inr (ms, p')) \<Rightarrow> \<exists>ns ctx'. handler_feed es ctx = Some (Inr (ns, ctx')) \<and> ctx_inv p' ctx')"
    using assms
  proof (induction es arbitrary: p ctx)
    case (Cons e es)
    obtain lvl t where e: "e = (lvl, t)" by fastforce
    consider "infrared_common_decode infrared_protocol_pioneer p lvl t = None"
      | err where "infrared_common_decode infrared_protocol_pioneer p lvl t = Some (Inl err)"
      | found p1 where "infrared_common_decode infrared_protocol_pioneer p lvl t = Some (Inr (found, p1))"
      by (metis not_None_eq old.sum.exhaust surj_pair)
    then show ?case
    proof cases
      case 3
      then obtain result ctx1 where "infrared_decode ctx lvl t = Some (Inr (result, ctx1))" "ctx_inv p1 ctx1"
        using infrared_decode_step(3) [OF Cons.prems] by blast
      with Cons.IH [OF this(2)] 3 e show ?thesis
        by (auto split: option.splits sum.splits prod.splits)
    qed (use e infrared_decode_step(1,2) [OF Cons.prems] in simp_all)
  qed simp
  then show "ir_feed infrared_protocol_pioneer es p = Some (Inl err) \<Longrightarrow> handler_feed es ctx = Some (Inl err)"
    "ir_feed infrared_protocol_pioneer es p = None \<Longrightarrow> handler_feed es ctx = None"
    "ir_feed infrared_protocol_pioneer es p = Some (Inr (ms, p')) \<Longrightarrow> \<exists>ns ctx'. handler_feed es ctx = Some (Inr (ns, ctx')) \<and> ctx_inv p' ctx'"
    by simp_all
qed

definition fresh_decoder :: "InfraredCommonProtocolSpec \<Rightarrow> InfraredCommonDecoder" where
  "fresh_decoder spec = infrared_common_decoder_reset (pdata spec) (infrared_common_decoder_alloc (pdata spec))"

lemma fresh_decoder_inv: "decoder_inv spec room (fresh_decoder spec)"
  by (simp add: decoder_inv_def fresh_decoder_def infrared_common_decoder_reset_def infrared_common_decoder_reset_state_def
      infrared_common_decoder_alloc_def)

lemma alloc_ctx_inv: "ctx_inv (fresh_decoder infrared_protocol_pioneer) infrared_alloc_decoder"
proof -
  have eq: "infrared_alloc_decoder = map fresh_decoder (map entry_spec infrared_encoder_decoder)"
    by (simp add: infrared_alloc_decoder_def infrared_reset_decoder_def fresh_decoder_def infrared_encoder_decoder_def)
  show ?thesis
    unfolding ctx_inv_def eq table_nth list.map by (intro exI conjI, rule refl) (rule fresh_decoder_inv)+
qed

text \<open>
  C22 (safety): a freshly allocated decoder handler, on any sequence of edges, returns without a fault exactly when
  the Pioneer decoder alone does; every other fault or hang of the handler is ruled out.
\<close>

theorem infrared_handler_faults:
  "(\<exists>ms ctx. handler_feed es infrared_alloc_decoder = Some (Inr (ms, ctx))) \<longleftrightarrow>
   (\<exists>ms dec. ir_feed infrared_protocol_pioneer es (fresh_decoder infrared_protocol_pioneer) = Some (Inr (ms, dec)))"
proof -
  note h = handler_follows_pioneer [OF alloc_ctx_inv, of es]
  show ?thesis
  proof (cases "ir_feed infrared_protocol_pioneer es (fresh_decoder infrared_protocol_pioneer)")
    case None
    with h(2) show ?thesis by simp
  next
    case (Some r)
    with h(1,3) show ?thesis by (cases r) auto
  qed
qed

text \<open>
  C18 (error): a frame with Pioneer timings and 32 bits whose complement bytes do not match, followed by a gap of more
  than 26 ms and six further edges of any duration, makes the whole decoder handler fail its check on the sample
  buffer: the firmware halts on an infrared signal.
\<close>

theorem infrared_pioneer_crash:
  assumes "b \<noteq> NOT a \<or> e \<noteq> NOT c" "26000 < gap"
  shows "handler_feed (bad_pioneer_frame a b c e gap @ [(True, t1), (False, t2), (True, t3), (False, t4), (True, t5), (False, t6)])
    infrared_alloc_decoder = Some (Inl Furi_Check)"
proof -
  have "idle (pdata infrared_protocol_pioneer) (fresh_decoder infrared_protocol_pioneer)"
    by (simp add: idle_def fresh_decoder_def infrared_common_decoder_reset_def infrared_common_decoder_reset_state_def
        infrared_common_decoder_alloc_def)
  then obtain d where "ir_feed infrared_protocol_pioneer (bad_pioneer_frame a b c e gap) (fresh_decoder infrared_protocol_pioneer) =
      Some (Inr ([], d))" "stuck gap 0 d"
    using pioneer_gets_stuck [OF assms] by blast
  from ir_feed_append_fault [OF this(1) stuck_crashes [OF this(2) assms(2)]]
  show ?thesis by (rule handler_follows_pioneer(1) [OF alloc_ctx_inv])
qed

theorem infrared_pioneer_crash_witness:
  "handler_feed (bad_pioneer_frame 0xA5 0x5A 0x1C 0x1C 40000 @ [(True, 500), (False, 500), (True, 500), (False, 500), (True, 500), (False, 500)])
    infrared_alloc_decoder = Some (Inl Furi_Check)"
  by (rule infrared_pioneer_crash) simp_all

end
