(* ===== verification/Datetime.thy ===== *)
theory Datetime
  imports Checked_Memory
begin

text \<open>
  Calendar dates and UNIX timestamps (\<^verbatim>\<open>lib/datetime/datetime.c\<close>). The fields of a date
  keep their C widths. The day table is read through \<open>mem_read\<close>, so a month out of range is a visible
  fault. Products that the C code computes in \<open>int\<close> before they are added to the \<open>uint32_t\<close> timestamp are taken
  modulo \<open>2 ^ 32\<close>.
\<close>

record DateTime =
  hour :: u8
  minute :: u8
  second :: u8
  day :: u8
  month :: u8
  year :: u16
  weekday :: u8

definition SECONDS_PER_MINUTE :: u32 where "SECONDS_PER_MINUTE = 60"
definition SECONDS_PER_HOUR :: u32 where "SECONDS_PER_HOUR = SECONDS_PER_MINUTE * 60"
definition SECONDS_PER_DAY :: u32 where "SECONDS_PER_DAY = SECONDS_PER_HOUR * 24"
definition EPOCH_START_YEAR :: nat where "EPOCH_START_YEAR = 1970"

definition datetime_days_per_month :: "bool \<Rightarrow> u8 list" where
  "datetime_days_per_month leap_year =
     (if leap_year then [31, 29, 31, 30, 31, 30, 31, 31, 30, 31, 30, 31]
      else [31, 28, 31, 30, 31, 30, 31, 31, 30, 31, 30, 31])"

definition datetime_days_per_year :: "u16 list" where
  "datetime_days_per_year = [365, 366]"

definition datetime_is_leap_year :: "u16 \<Rightarrow> bool" where
  "datetime_is_leap_year y \<longleftrightarrow> (y mod 4 = 0 \<and> y mod 100 \<noteq> 0) \<or> y mod 400 = 0"

definition datetime_get_days_per_year :: "u16 \<Rightarrow> u16" where
  "datetime_get_days_per_year y = datetime_days_per_year ! (if datetime_is_leap_year y then 1 else 0)"

text \<open>Month 0 indexes before the table; the index \<open>month - 1\<close> is an \<open>int\<close> there.\<close>

definition datetime_get_days_per_month :: "bool \<Rightarrow> u8 \<Rightarrow> u8 checked" where
  "datetime_get_days_per_month leap_year m =
     (if m = 0 then Inl Out_Of_Bounds else mem_read (datetime_days_per_month leap_year) (unat m - 1))"

definition datetime_validate_datetime :: "DateTime \<Rightarrow> bool" where
  "datetime_validate_datetime dt =
     (let invalid = (second dt > 59) \<or> (minute dt > 59) \<or> (hour dt > 23) \<or>
        (year dt < 2000) \<or> (year dt > 2099) \<or> (month dt = 0) \<or> (month dt > 12) \<or>
        (day dt = 0) \<or> (day dt > 31) \<or> (weekday dt = 0) \<or> (weekday dt > 7)
      in \<not> invalid)"

definition count_year :: "nat \<Rightarrow> u8 \<times> u8 \<Rightarrow> u8 \<times> u8" where
  "count_year y = (\<lambda>(years, leap_years).
     if datetime_is_leap_year (of_nat y) then (years, leap_years + 1) else (years + 1, leap_years))"

fun add_months :: "bool \<Rightarrow> nat list \<Rightarrow> u32 \<Rightarrow> u32 checked" where
  "add_months leap_year [] timestamp = Inr timestamp"
| "add_months leap_year (m # ms) timestamp =
     checked_bind (datetime_get_days_per_month leap_year (of_nat m)) (\<lambda>n.
       add_months leap_year ms (timestamp + ucast n * SECONDS_PER_DAY))"

definition datetime_datetime_to_timestamp :: "DateTime \<Rightarrow> u32 checked" where
  "datetime_datetime_to_timestamp dt =
     (let (years, leap_years) = fold count_year [EPOCH_START_YEAR..<unat (year dt)] (0, 0);
          timestamp = (ucast years * ucast (datetime_days_per_year ! 0) + ucast leap_years * ucast (datetime_days_per_year ! 1)) *
            SECONDS_PER_DAY;
          leap_year = datetime_is_leap_year (year dt)
      in checked_bind (add_months leap_year [1..<unat (month dt)] timestamp) (\<lambda>timestamp.
         Inr (timestamp + (ucast (day dt) - 1) * SECONDS_PER_DAY + ucast (hour dt) * SECONDS_PER_HOUR +
              ucast (minute dt) * SECONDS_PER_MINUTE + ucast (second dt))))"

lemma days_per_year_cases: "datetime_get_days_per_year y = (if datetime_is_leap_year y then 366 else 365)"
  by (simp add: datetime_get_days_per_year_def datetime_days_per_year_def)

lemma days_per_month_pos:
  assumes "datetime_get_days_per_month leap_year m = Inr n"
  shows "28 \<le> n"
proof -
  have "list_all (\<lambda>n. 28 \<le> n) (datetime_days_per_month leap_year)" by (simp add: datetime_days_per_month_def)
  then show ?thesis
    using assms by (auto simp: datetime_get_days_per_month_def mem_read_Inr list_all_length split: if_splits)
qed

function year_loop :: "u32 \<Rightarrow> u16 \<Rightarrow> u32 \<times> u16" where
  "year_loop days y =
     (let n = ucast (datetime_get_days_per_year y) in
      if n \<le> days then year_loop (days - n) (y + 1) else (days, y))"
  by auto
termination
proof (relation "measure (\<lambda>(days, y). unat days)", goal_cases)
  case (2 days y n)
  then have "0 < unat n" by (simp add: days_per_year_cases split: if_splits)
  with 2(2) show ?case by (simp add: word_le_nat_alt unat_sub)
qed simp

function month_loop :: "bool \<Rightarrow> u32 \<Rightarrow> u8 \<Rightarrow> (u32 \<times> u8) checked" where
  "month_loop leap_year days m =
     (case datetime_get_days_per_month leap_year m of
        Inl e \<Rightarrow> Inl e
      | Inr n \<Rightarrow> if ucast n \<le> days then month_loop leap_year (days - ucast n) (m + 1) else Inr (days, m))"
  by auto
termination
proof (relation "measure (\<lambda>(leap_year, days, m). unat days)", goal_cases)
  case (2 leap_year days m n)
  then have "0 < unat (ucast n :: u32)"
    using days_per_month_pos [of leap_year m n] by (auto simp: unat_ucast_up word_le_nat_alt)
  with 2(2) show ?case by (simp add: word_le_nat_alt unat_sub)
qed simp

declare year_loop.simps [simp del] month_loop.simps [simp del]

definition datetime_timestamp_to_datetime :: "u32 \<Rightarrow> DateTime checked" where
  "datetime_timestamp_to_datetime timestamp =
     (let days = timestamp div SECONDS_PER_DAY;
          seconds_in_day = timestamp mod SECONDS_PER_DAY;
          wd = ucast ((days + 3) mod 7) + 1;
          (days, y) = year_loop days (of_nat EPOCH_START_YEAR)
      in checked_bind (month_loop (datetime_is_leap_year y) days 1) (\<lambda>(days, m).
         Inr \<lparr>hour = ucast (seconds_in_day div SECONDS_PER_HOUR),
              minute = ucast ((seconds_in_day mod SECONDS_PER_HOUR) div SECONDS_PER_MINUTE),
              second = ucast (seconds_in_day mod SECONDS_PER_MINUTE),
              day = ucast (days + 1), month = m, year = y, weekday = wd\<rparr>))"

section \<open>The calendar the code implements\<close>

definition gregorian_leap :: "nat \<Rightarrow> bool" where
  "gregorian_leap y \<longleftrightarrow> (4 dvd y \<and> \<not> 100 dvd y) \<or> 400 dvd y"

definition year_length :: "nat \<Rightarrow> nat" where
  "year_length y = (if gregorian_leap y then 366 else 365)"

fun days_to_year :: "nat \<Rightarrow> nat" where
  "days_to_year 0 = 0"
| "days_to_year (Suc n) = days_to_year n + year_length (1970 + n)"

definition month_length :: "bool \<Rightarrow> nat \<Rightarrow> nat" where
  "month_length leap m = (if m = 2 then if leap then 29 else 28 else if m \<in> {4, 6, 9, 11} then 30 else 31)"

fun days_to_month :: "bool \<Rightarrow> nat \<Rightarrow> nat" where
  "days_to_month leap 0 = 0"
| "days_to_month leap (Suc m) = (if m = 0 then 0 else days_to_month leap m + month_length leap m)"

lemma leap_year_of_nat:
  assumes "y < 65536"
  shows "datetime_is_leap_year (of_nat y) = gregorian_leap y"
proof -
  have y: "unat (of_nat y :: u16) = y" using assms by (simp add: unsigned_of_nat take_bit_nat_eq_self)
  have "((of_nat y :: u16) mod k = 0) = (unat k dvd y)" for k :: u16
    by (simp add: word_unat_eq_iff unat_mod_distrib y dvd_eq_mod_eq_0)
  then show ?thesis by (simp add: datetime_is_leap_year_def gregorian_leap_def)
qed

lemma year_length_of_nat:
  assumes "y < 65536"
  shows "unat (datetime_get_days_per_year (of_nat y)) = year_length y"
  using assms by (simp add: days_per_year_cases leap_year_of_nat year_length_def)

lemma month_length_of_nat:
  assumes "1 \<le> m" "m \<le> 12"
  shows "\<exists>n. datetime_get_days_per_month leap (of_nat m) = Inr n \<and> unat n = month_length leap m"
proof -
  have "m \<in> {1, 2, 3, 4, 5, 6, 7, 8, 9, 10, 11, 12}" using assms by (simp add: le_eq_less_or_eq) arith
  then show ?thesis
    by (auto simp: datetime_get_days_per_month_def mem_read_def datetime_days_per_month_def month_length_def)
qed

lemma year_length_bounds: "365 \<le> year_length y" "year_length y \<le> 366"
  by (simp_all add: year_length_def)

lemma month_length_bounds: "28 \<le> month_length leap m" "month_length leap m \<le> 31"
  by (simp_all add: month_length_def)

lemma days_to_year_le: "365 * n \<le> days_to_year n" "days_to_year n \<le> 366 * n"
  by (induction n) (use year_length_bounds in \<open>auto intro: add_mono order_trans\<close>)

lemma days_to_year_mono: "n \<le> n' \<Longrightarrow> days_to_year n \<le> days_to_year n'"
  by (rule lift_Suc_mono_le [of days_to_year]) simp_all

lemma days_to_month_mono: "m \<le> m' \<Longrightarrow> days_to_month leap m \<le> days_to_month leap m'"
  by (rule lift_Suc_mono_le [of "days_to_month leap"]) (auto simp: days_to_month.simps elim: days_to_month.elims)

text \<open>Each loop of the conversion finds the period its day number falls into.\<close>

lemma year_loop_finds:
  assumes "1970 + n + k < 65536" "r < year_length (1970 + n + k)" "days_to_year (n + k) + r < 2 ^ 32"
  shows "year_loop (of_nat (days_to_year (n + k) - days_to_year n + r)) (of_nat (1970 + n)) = (of_nat r, of_nat (1970 + n + k))"
  using assms
proof (induction k arbitrary: n)
  case 0
  have "r < 2 ^ 32" using 0 by simp
  then have "\<not> (ucast (datetime_get_days_per_year (of_nat (1970 + n))) :: u32) \<le> of_nat r"
    using 0 by (simp add: word_le_nat_alt unat_ucast_up year_length_of_nat unsigned_of_nat take_bit_nat_eq_self del: of_nat_add)
  then show ?case by (subst year_loop.simps) (simp add: Let_def)
next
  case (Suc k)
  let ?l = "year_length (1970 + n)" and ?d = "days_to_year (n + Suc k) - days_to_year n + r"
  have mono: "days_to_year (Suc n) \<le> days_to_year (n + Suc k)" by (rule days_to_year_mono) simp
  then have le: "?l \<le> ?d" by simp
  have "?d < 2 ^ 32" using Suc.prems by simp
  then have d: "unat (of_nat ?d :: u32) = ?d" by (rule unat_of_nat_32)
  have n: "(ucast (datetime_get_days_per_year (of_nat (1970 + n))) :: u32) = of_nat ?l"
    using Suc.prems by (simp add: word_unat_eq_iff unat_ucast_up year_length_of_nat unsigned_of_nat take_bit_nat_eq_self
      year_length_def del: of_nat_add)
  have c: "(of_nat ?l :: u32) \<le> of_nat ?d"
    using le d \<open>?d < 2 ^ 32\<close> by (simp add: word_le_nat_alt unsigned_of_nat take_bit_nat_eq_self del: of_nat_add)
  have "(of_nat ?d :: u32) - of_nat ?l = of_nat (?d - ?l)" using le by (simp del: of_nat_add)
  also have "?d - ?l = days_to_year (Suc n + k) - days_to_year (Suc n) + r" using mono by simp
  finally have "year_loop (of_nat ?d) (of_nat (1970 + n)) =
      year_loop (of_nat (days_to_year (Suc n + k) - days_to_year (Suc n) + r)) (of_nat (1970 + Suc n))"
    using c by (subst year_loop.simps) (simp only: Let_def n if_True, simp)
  also have "\<dots> = (of_nat r, of_nat (1970 + Suc n + k))"
    using Suc.prems by (intro Suc.IH) (simp_all add: add.assoc)
  finally show ?case by simp
qed

lemma month_loop_finds:
  assumes "1 \<le> m" "m + k \<le> 12" "r < month_length leap (m + k)"
  shows "month_loop leap (of_nat (days_to_month leap (m + k) - days_to_month leap m + r)) (of_nat m) = Inr (of_nat r, of_nat (m + k))"
  using assms
proof (induction k arbitrary: m)
  case 0
  obtain n where n: "datetime_get_days_per_month leap (of_nat m) = Inr n" "unat n = month_length leap m"
    using month_length_of_nat [of m leap] 0 by auto
  have "r < 2 ^ 32" using 0 month_length_bounds(2) [of leap m] by simp
  then have "\<not> (ucast n :: u32) \<le> of_nat r"
    using 0 n(2) by (simp add: word_le_nat_alt unat_ucast_up unat_of_nat_32 del: of_nat_add)
  then show ?case by (subst month_loop.simps) (simp add: n(1))
next
  case (Suc k)
  obtain n where n: "datetime_get_days_per_month leap (of_nat m) = Inr n" "unat n = month_length leap m"
    using month_length_of_nat [of m leap] Suc.prems by auto
  let ?d = "days_to_month leap (m + Suc k) - days_to_month leap m + r"
  have mono: "days_to_month leap (Suc m) \<le> days_to_month leap (m + Suc k)" by (rule days_to_month_mono) simp
  have step: "days_to_month leap (Suc m) = days_to_month leap m + month_length leap m" using Suc.prems(1) by simp
  have le: "month_length leap m \<le> ?d" using mono step by simp
  have "days_to_month leap i \<le> 31 * i" for i
    by (induction i) (use month_length_bounds in \<open>auto intro: add_mono order_trans\<close>)
  from this [of "m + Suc k"] have "?d < 2 ^ 32" using Suc.prems month_length_bounds(2) [of leap "m + Suc k"] by simp
  then have d: "unat (of_nat ?d :: u32) = ?d" by (rule unat_of_nat_32)
  have c: "(ucast n :: u32) = of_nat (month_length leap m)"
    using n(2) month_length_bounds(2) [of leap m] by (simp add: word_unat_eq_iff unat_ucast_up unat_of_nat_32)
  have "(of_nat (month_length leap m) :: u32) \<le> of_nat ?d"
    using le d c n(2) by (simp add: word_le_nat_alt unat_ucast_up flip: c del: of_nat_add)
  moreover have "(of_nat ?d :: u32) - of_nat (month_length leap m) = of_nat (?d - month_length leap m)" using le by (simp del: of_nat_add)
  moreover have "?d - month_length leap m = days_to_month leap (Suc m + k) - days_to_month leap (Suc m) + r" using mono step by simp
  ultimately have "month_loop leap (of_nat ?d) (of_nat m) =
      month_loop leap (of_nat (days_to_month leap (Suc m + k) - days_to_month leap (Suc m) + r)) (of_nat (Suc m))"
    by (subst month_loop.simps) (simp only: n(1) sum.case c if_True, simp add: add.commute)
  also have "\<dots> = Inr (of_nat r, of_nat (Suc m + k))"
    using Suc.prems by (intro Suc.IH) simp_all
  finally show ?case by simp
qed

lemma add_months_append:
  "add_months leap (xs @ ys) t = checked_bind (add_months leap xs t) (add_months leap ys)"
  by (induction xs arbitrary: t) (simp_all add: checked_bind_def split: sum.splits)

lemma add_months_days:
  assumes "m \<le> 12"
  shows "add_months leap [1..<m] t = Inr (t + of_nat (days_to_month leap m) * SECONDS_PER_DAY)"
  using assms
proof (induction m)
  case (Suc m)
  show ?case
  proof (cases "m = 0")
    case False
    then obtain n where n: "datetime_get_days_per_month leap (of_nat m) = Inr n" "unat n = month_length leap m"
      using month_length_of_nat [of m leap] Suc.prems by auto
    from n(2) have "(ucast n :: u32) = of_nat (month_length leap m)"
      using month_length_bounds(2) [of leap m] by (simp add: word_unat_eq_iff unat_ucast_up unat_of_nat_32)
    then show ?thesis
      using False Suc n(1) by (simp add: add_months_append algebra_simps)
  qed simp
qed simp

lemma count_years:
  assumes "1970 + n \<le> 65536"
  shows "\<exists>a b. fold count_year [1970..<1970 + n] (0, 0) = (of_nat a, of_nat b) \<and> a + b = n \<and> 365 * a + 366 * b = days_to_year n"
  using assms
proof (induction n)
  case (Suc n)
  then obtain a b where ab: "fold count_year [1970..<1970 + n] (0, 0) = (of_nat a, of_nat b)" "a + b = n"
      "365 * a + 366 * b = days_to_year n"
    by auto
  have l: "datetime_is_leap_year (of_nat (1970 + n)) = gregorian_leap (1970 + n)"
    using Suc.prems by (intro leap_year_of_nat) simp
  have "[1970..<1970 + Suc n] = [1970..<1970 + n] @ [1970 + n]" by (simp only: add_Suc_right upt_Suc) simp
  then have f: "fold count_year [1970..<1970 + Suc n] (0, 0) = count_year (1970 + n) (of_nat a, of_nat b)"
    by (simp only: fold_append ab(1) comp_apply fold.simps id_apply)
  show ?case
  proof (cases "gregorian_leap (1970 + n)")
    case True
    then have "fold count_year [1970..<1970 + Suc n] (0, 0) = (of_nat a, of_nat (Suc b))"
      unfolding f count_year_def l prod.case by (simp add: add.commute)
    then show ?thesis using ab(2,3) True by (intro exI [of _ a] exI [of _ "Suc b"]) (simp add: year_length_def)
  next
    case False
    then have "fold count_year [1970..<1970 + Suc n] (0, 0) = (of_nat (Suc a), of_nat b)"
      unfolding f count_year_def l prod.case by (simp add: add.commute)
    then show ?thesis using ab(2,3) False by (intro exI [of _ "Suc a"] exI [of _ b]) (simp add: year_length_def)
  qed
qed simp

section \<open>Timestamps are calendar dates\<close>

definition calendar_date :: "DateTime \<Rightarrow> bool" where
  "calendar_date dt \<longleftrightarrow> 1970 \<le> unat (year dt) \<and> 1 \<le> unat (month dt) \<and> unat (month dt) \<le> 12 \<and>
     1 \<le> unat (day dt) \<and> unat (day dt) \<le> month_length (gregorian_leap (unat (year dt))) (unat (month dt)) \<and>
     unat (hour dt) < 24 \<and> unat (minute dt) < 60 \<and> unat (second dt) < 60"

definition days_of :: "DateTime \<Rightarrow> nat" where
  "days_of dt = days_to_year (unat (year dt) - 1970) +
     (days_to_month (gregorian_leap (unat (year dt))) (unat (month dt)) + (unat (day dt) - 1))"

definition seconds_of :: "DateTime \<Rightarrow> nat" where
  "seconds_of dt = 86400 * days_of dt + (3600 * unat (hour dt) + 60 * unat (minute dt) + unat (second dt))"

lemma weekday_irrelevant [simp]:
  "calendar_date (dt\<lparr>weekday := w\<rparr>) = calendar_date dt" "days_of (dt\<lparr>weekday := w\<rparr>) = days_of dt"
  "seconds_of (dt\<lparr>weekday := w\<rparr>) = seconds_of dt"
  by (simp_all add: calendar_date_def days_of_def seconds_of_def)

lemma leap_year_word: "datetime_is_leap_year y = gregorian_leap (unat y)"
  using leap_year_of_nat [of "unat y"] unsigned_less [of y] by simp

lemma seconds_per_day: "SECONDS_PER_DAY = of_nat 86400"
  by (simp add: SECONDS_PER_DAY_def SECONDS_PER_HOUR_def SECONDS_PER_MINUTE_def)

lemma to_timestamp_seconds:
  assumes "1970 \<le> unat (year dt)" "unat (year dt) \<le> 2200" "unat (month dt) \<le> 12" "1 \<le> unat (day dt)"
  shows "datetime_datetime_to_timestamp dt = Inr (of_nat (seconds_of dt))"
proof -
  define n where "n = unat (year dt) - 1970"
  have y: "unat (year dt) = 1970 + n" using assms(1) by (simp add: n_def)
  obtain a b where ab: "fold count_year [1970..<1970 + n] (0, 0) = (of_nat a, of_nat b)" "a + b = n"
      "365 * a + 366 * b = days_to_year n"
    using count_years [of n] assms(2) y by auto
  have "a < 256" "b < 256" using ab(2) assms(2) y by auto
  then have small: "(ucast (of_nat a :: u8) :: u32) = of_nat a" "(ucast (of_nat b :: u8) :: u32) = of_nat b"
    by (simp_all add: word_unat_eq_iff unat_ucast_up unsigned_of_nat take_bit_nat_eq_self)
  have yd: "(of_nat a * 365 + of_nat b * 366 :: u32) = of_nat (days_to_year n)"
    using arg_cong [OF ab(3), of "of_nat :: nat \<Rightarrow> u32"] by (simp add: mult.commute)
  have dd: "(ucast (day dt) :: u32) - 1 = of_nat (unat (day dt) - 1)"
    using assms(4) by (simp add: of_nat_diff)
  have "datetime_datetime_to_timestamp dt = Inr (of_nat (days_to_year n) * SECONDS_PER_DAY +
      of_nat (days_to_month (gregorian_leap (unat (year dt))) (unat (month dt))) * SECONDS_PER_DAY +
      of_nat (unat (day dt) - 1) * SECONDS_PER_DAY + ucast (hour dt) * SECONDS_PER_HOUR +
      ucast (minute dt) * SECONDS_PER_MINUTE + ucast (second dt))"
    unfolding datetime_datetime_to_timestamp_def EPOCH_START_YEAR_def y ab(1) Let_def prod.case add_months_days [OF assms(3)]
      checked_bind_simps leap_year_word small dd
    by (simp add: datetime_days_per_year_def yd y)
  then show ?thesis
    by (simp add: seconds_of_def days_of_def n_def seconds_per_day SECONDS_PER_HOUR_def SECONDS_PER_MINUTE_def distrib_left ac_simps)
qed

lemma days_split:
  assumes "calendar_date dt" "seconds_of dt < 2 ^ 32"
  shows "(of_nat (seconds_of dt) :: u32) div SECONDS_PER_DAY = of_nat (days_of dt)"
    "(of_nat (seconds_of dt) :: u32) mod SECONDS_PER_DAY = of_nat (3600 * unat (hour dt) + 60 * unat (minute dt) + unat (second dt))"
    (is "_ = of_nat ?s")
proof -
  have s: "?s < 86400" using assms(1) by (simp add: calendar_date_def)
  have u: "unat (of_nat (seconds_of dt) :: u32) = seconds_of dt" using assms(2) by (rule unat_of_nat_32)
  have "seconds_of dt div 86400 = days_of dt" "seconds_of dt mod 86400 = ?s"
    using s by (simp_all add: seconds_of_def)
  moreover have "days_of dt < 2 ^ 32" using assms(2) by (simp add: seconds_of_def)
  ultimately show "(of_nat (seconds_of dt) :: u32) div SECONDS_PER_DAY = of_nat (days_of dt)"
    "(of_nat (seconds_of dt) :: u32) mod SECONDS_PER_DAY = of_nat ?s"
    using s u by (simp_all only: word_unat_eq_iff unat_div_distrib unat_mod_distrib seconds_per_day unat_of_nat_32) (simp_all add: unat_of_nat_32 del: of_nat_add)
qed

lemma clock_split:
  fixes h m s :: nat
  assumes "m < 60" "s < 60"
  shows "(3600 * h + 60 * m + s) div 3600 = h" "(3600 * h + 60 * m + s) mod 3600 = 60 * m + s"
    "(60 * m + s) div 60 = m" "(3600 * h + 60 * m + s) mod 60 = s"
proof -
  have r: "60 * m + s < 3600" using assms by simp
  show "(3600 * h + 60 * m + s) div 3600 = h" "(3600 * h + 60 * m + s) mod 3600 = 60 * m + s"
    using r by (simp_all add: add.assoc)
  show "(60 * m + s) div 60 = m" using assms by simp
  have "3600 * h + 60 * m + s = 60 * (60 * h + m) + s" by simp
  then show "(3600 * h + 60 * m + s) mod 60 = s" using assms(2) by (simp only: mod_mult_self4) simp
qed

lemma clock_join: "3600 * (s div 3600) + 60 * (s mod 3600 div 60) + s mod 60 = (s :: nat)"
proof -
  have "3600 * (s div 3600) + s mod 3600 = s" "60 * (s mod 3600 div 60) + s mod 3600 mod 60 = s mod 3600" by simp_all
  moreover have "s mod 3600 mod 60 = s mod 60" by (rule mod_mod_cancel) simp
  ultimately show ?thesis by linarith
qed

lemma clock_fields:
  assumes "unat h < 24" "unat m < 60" "unat s < 60"
  shows "ucast ((of_nat (3600 * unat h + 60 * unat m + unat s) :: u32) div SECONDS_PER_HOUR) = (h :: u8)"
    "ucast (((of_nat (3600 * unat h + 60 * unat m + unat s) :: u32) mod SECONDS_PER_HOUR) div SECONDS_PER_MINUTE) = (m :: u8)"
    "ucast ((of_nat (3600 * unat h + 60 * unat m + unat s) :: u32) mod SECONDS_PER_MINUTE) = (s :: u8)"
proof -
  let ?t = "3600 * unat h + 60 * unat m + unat s"
  have t: "unat (of_nat ?t :: u32) = ?t" using assms by (intro unat_of_nat_32) simp
  note d = clock_split [OF assms(2,3)]
  have n: "unat SECONDS_PER_HOUR = 3600" "unat SECONDS_PER_MINUTE = 60"
    by (simp_all add: SECONDS_PER_HOUR_def SECONDS_PER_MINUTE_def)
  have low: "unat (ucast (w :: u32) :: u8) = unat w" if "unat w < 256" for w
    using that by (simp add: unsigned_ucast_eq take_bit_nat_eq_self)
  show "ucast ((of_nat ?t :: u32) div SECONDS_PER_HOUR) = h"
    using assms low [of "of_nat ?t div SECONDS_PER_HOUR"] by (simp only: word_unat_eq_iff unat_div_distrib t n d)
  show "ucast (((of_nat ?t :: u32) mod SECONDS_PER_HOUR) div SECONDS_PER_MINUTE) = m"
    using assms low [of "of_nat ?t mod SECONDS_PER_HOUR div SECONDS_PER_MINUTE"]
    by (simp only: word_unat_eq_iff unat_div_distrib unat_mod_distrib t n d)
  show "ucast ((of_nat ?t :: u32) mod SECONDS_PER_MINUTE) = s"
    using assms low [of "of_nat ?t mod SECONDS_PER_MINUTE"] by (simp only: word_unat_eq_iff unat_mod_distrib t n d)
qed

lemma year_of_days:
  assumes "calendar_date dt"
  shows "days_to_month (gregorian_leap (unat (year dt))) (unat (month dt)) + (unat (day dt) - 1) < year_length (unat (year dt))"
proof -
  let ?l = "gregorian_leap (unat (year dt))"
  have "days_to_month ?l (unat (month dt)) + month_length ?l (unat (month dt)) \<le> days_to_month ?l 13"
    using assms days_to_month_mono [of "Suc (unat (month dt))" 13 ?l] by (simp add: calendar_date_def)
  moreover have "days_to_month ?l 13 = year_length (unat (year dt))"
    by (simp add: year_length_def month_length_def eval_nat_numeral)
  ultimately show ?thesis using assms by (auto simp: calendar_date_def)
qed

definition weekday_of :: "nat \<Rightarrow> nat" where
  "weekday_of days = (days + 3) mod 7 + 1"

lemma from_timestamp_seconds:
  assumes "calendar_date dt" "seconds_of dt < 2 ^ 32"
  shows "datetime_timestamp_to_datetime (of_nat (seconds_of dt)) = Inr (dt\<lparr>weekday := of_nat (weekday_of (days_of dt))\<rparr>)"
proof -
  let ?n = "unat (year dt) - 1970" and ?l = "gregorian_leap (unat (year dt))"
  let ?r = "days_to_month ?l (unat (month dt)) + (unat (day dt) - 1)"
  have days: "days_of dt < 2 ^ 32" "days_of dt + 3 < 2 ^ 32" using assms(2) by (simp_all add: seconds_of_def)
  have y: "1970 + ?n = unat (year dt)" using assms(1) by (simp add: calendar_date_def)
  have "year_loop (of_nat (days_to_year (0 + ?n) - days_to_year 0 + ?r)) (of_nat (1970 + 0)) = (of_nat ?r, of_nat (1970 + 0 + ?n))"
    by (rule year_loop_finds)
      (use y year_of_days [OF assms(1)] days(1) unsigned_less [of "year dt"] in \<open>simp_all add: days_of_def\<close>)
  then have yl: "year_loop (of_nat (days_of dt)) (of_nat 1970) = (of_nat ?r, year dt)"
    by (simp add: days_of_def y flip: of_nat_add)
  have m: "1 \<le> unat (month dt)" "unat (month dt) \<le> 12" using assms(1) by (simp_all add: calendar_date_def)
  then have "1 + (unat (month dt) - 1) = unat (month dt)" by simp
  moreover have "unat (day dt) - 1 < month_length ?l (unat (month dt))" using assms(1) by (auto simp: calendar_date_def)
  ultimately have ml: "month_loop ?l (of_nat ?r) 1 = Inr (of_nat (unat (day dt) - 1), month dt)"
    using month_loop_finds [of 1 "unat (month dt) - 1" "unat (day dt) - 1" ?l] m(2) by simp
  have "unat (day dt) - 1 + 1 = unat (day dt)" using assms(1) by (simp add: calendar_date_def)
  from arg_cong [OF this, of "of_nat :: nat \<Rightarrow> u32"] have "(of_nat (unat (day dt) - 1) :: u32) + 1 = ucast (day dt)" by (simp add: add.commute)
  then have dd: "ucast ((of_nat (unat (day dt) - 1) :: u32) + 1) = day dt" by (simp add: ucast_up_ucast_id is_up)
  have w: "unat ((of_nat (days_of dt) + 3 :: u32) mod 7) = (days_of dt + 3) mod 7"
    using unat_of_nat_32 [OF days(2)] by (simp add: unat_mod_distrib)
  have "(ucast ((of_nat (days_of dt) + 3 :: u32) mod 7) :: u8) = of_nat (unat ((of_nat (days_of dt) + 3 :: u32) mod 7))" by simp
  then have "(ucast ((of_nat (days_of dt) + 3 :: u32) mod 7) :: u8) + 1 = of_nat (weekday_of (days_of dt))"
    unfolding w weekday_of_def by simp
  then show ?thesis
    using clock_fields [of "hour dt" "minute dt" "second dt"] assms(1)
    unfolding datetime_timestamp_to_datetime_def EPOCH_START_YEAR_def days_split [OF assms] Let_def yl prod.case leap_year_word ml
      checked_bind_simps dd
    by (simp add: calendar_date_def)
qed

lemma period_exists:
  fixes f :: "nat \<Rightarrow> nat"
  assumes "f 0 \<le> d" "d < f n"
  shows "\<exists>k<n. f k \<le> d \<and> d < f (Suc k)"
  using assms
proof (induction n)
  case (Suc n)
  then show ?case by (cases "d < f n") (auto intro: less_SucI)
qed simp

lemma date_of_seconds:
  assumes "t < 2 ^ 32"
  shows "\<exists>dt. calendar_date dt \<and> seconds_of dt = t \<and> unat (year dt) \<le> 2106"
proof -
  let ?d = "t div 86400" and ?s = "t mod 86400"
  have "?d < days_to_year 137" using assms days_to_year_le(1) [of 137] by simp
  then obtain n where n: "n < 137" "days_to_year n \<le> ?d" "?d < days_to_year (Suc n)"
    using period_exists [of days_to_year ?d 137] by auto
  let ?l = "gregorian_leap (1970 + n)"
  define r where "r = ?d - days_to_year n"
  have "days_to_month ?l (Suc 12) = year_length (1970 + n)"
    by (simp add: year_length_def month_length_def eval_nat_numeral)
  then have "r < days_to_month ?l (Suc 12)" using n by (simp add: r_def)
  then obtain k where k: "k < 12" "days_to_month ?l (Suc k) \<le> r" "r < days_to_month ?l (Suc (Suc k))"
    using period_exists [of "\<lambda>k. days_to_month ?l (Suc k)" r 12] by auto
  define e where "e = r - days_to_month ?l (Suc k)"
  have e: "e < month_length ?l (Suc k)" using k by (simp add: e_def)
  define dt where "dt = \<lparr>hour = of_nat (?s div 3600), minute = of_nat (?s mod 3600 div 60), second = of_nat (?s mod 60), day = of_nat (e + 1),
    month = of_nat (Suc k), year = of_nat (1970 + n), weekday = 0\<rparr>"
  have u: "unat (of_nat x :: u8) = x" if "x < 256" for x using that by (simp add: unsigned_of_nat take_bit_nat_eq_self)
  have s: "?s div 3600 < 24" "?s mod 3600 div 60 < 60" "?s mod 60 < 60" by (simp_all add: less_mult_imp_div_less)
  have f: "unat (hour dt) = ?s div 3600" "unat (minute dt) = ?s mod 3600 div 60" "unat (second dt) = ?s mod 60" "unat (day dt) = e + 1"
      "unat (month dt) = Suc k"
    unfolding dt_def DateTime.select_convs
    using s k(1) e month_length_bounds(2) [of ?l "Suc k"] by (intro u; simp)+
  have y: "unat (year dt) = 1970 + n" using n(1) by (simp add: dt_def unsigned_of_nat take_bit_nat_eq_self del: of_nat_add)
  have clock: "3600 * (?s div 3600) + 60 * (?s mod 3600 div 60) + ?s mod 60 = ?s"
    by (rule clock_join)
  have "days_of dt = ?d" using n(2) k(2) by (simp add: days_of_def f y e_def r_def)
  then have "seconds_of dt = t" unfolding seconds_of_def f clock by simp
  moreover have "calendar_date dt" unfolding calendar_date_def f y using s e k(1) by simp
  ultimately show ?thesis using y n(1) by auto
qed

lemma weekday_range: "1 \<le> weekday_of d" "weekday_of d \<le> 7"
  using mod_less_divisor [of 7 "d + 3"] by (simp_all add: weekday_of_def)

lemma timestamp_roundtrip_calendar:
  "\<exists>dt. datetime_timestamp_to_datetime t = Inr (dt\<lparr>weekday := of_nat (weekday_of (days_of dt))\<rparr>) \<and> calendar_date dt \<and>
     unat (year dt) \<le> 2106 \<and> seconds_of dt = unat t"
proof -
  have "unat t < 2 ^ 32" using unsigned_less [of t] by simp
  then obtain dt where dt: "calendar_date dt" "seconds_of dt = unat t" "unat (year dt) \<le> 2106"
    using date_of_seconds by blast
  moreover from this have "datetime_timestamp_to_datetime t = Inr (dt\<lparr>weekday := of_nat (weekday_of (days_of dt))\<rparr>)"
    using from_timestamp_seconds [OF dt(1)] \<open>unat t < 2 ^ 32\<close> by simp
  ultimately show ?thesis by blast
qed

text \<open>
  C32 (type): every 32-bit timestamp converts to a date without leaving the day table, and the date is a real one: month 1 to 12,
  a day that the month has in that year, a time of day, a weekday 1 to 7, and a year from 1970 to 2106. Converting the
  date back gives the timestamp.
\<close>

theorem timestamp_roundtrip:
  "\<exists>dt. datetime_timestamp_to_datetime t = Inr dt \<and> calendar_date dt \<and> unat (year dt) \<le> 2106 \<and>
     1 \<le> unat (weekday dt) \<and> unat (weekday dt) \<le> 7 \<and> datetime_datetime_to_timestamp dt = Inr t"
proof -
  obtain dt where dt: "datetime_timestamp_to_datetime t = Inr (dt\<lparr>weekday := of_nat (weekday_of (days_of dt))\<rparr>)" "calendar_date dt"
      "unat (year dt) \<le> 2106" "seconds_of dt = unat t"
    using timestamp_roundtrip_calendar by blast
  let ?dt = "dt\<lparr>weekday := of_nat (weekday_of (days_of dt))\<rparr>"
  have "unat (of_nat (weekday_of (days_of dt)) :: u8) = weekday_of (days_of dt)"
    using weekday_range(2) [of "days_of dt"] by (simp add: unsigned_of_nat take_bit_nat_eq_self)
  moreover have "datetime_datetime_to_timestamp ?dt = Inr t"
    using to_timestamp_seconds [of ?dt] dt(2-4) by (simp add: calendar_date_def)
  ultimately show ?thesis
    using dt weekday_range [of "days_of dt"] by (intro exI [of _ ?dt]) simp
qed

text \<open>
  C33 (functional): a date that passes validation converts to a timestamp without leaving the day table, and the timestamp
  converts back to the same date and time (with the weekday recomputed) exactly when the month has that day;
  validation alone accepts the 31st of every month.
\<close>

theorem validated_date_roundtrip:
  assumes "datetime_validate_datetime dt"
  shows "\<exists>t dt'. datetime_datetime_to_timestamp dt = Inr t \<and> datetime_timestamp_to_datetime t = Inr dt' \<and>
    (dt' = dt\<lparr>weekday := weekday dt'\<rparr> \<longleftrightarrow> unat (day dt) \<le> month_length (gregorian_leap (unat (year dt))) (unat (month dt)))"
proof -
  have v: "2000 \<le> unat (year dt)" "unat (year dt) \<le> 2099" "1 \<le> unat (month dt)" "unat (month dt) \<le> 12" "1 \<le> unat (day dt)"
      "unat (day dt) \<le> 31" "unat (hour dt) < 24" "unat (minute dt) < 60" "unat (second dt) < 60"
    using assms by (auto simp: datetime_validate_datetime_def word_less_nat_alt not_less unat_gt_0 Suc_le_eq)
  then have t: "datetime_datetime_to_timestamp dt = Inr (of_nat (seconds_of dt))" by (intro to_timestamp_seconds) simp_all
  obtain dt' where dt': "datetime_timestamp_to_datetime (of_nat (seconds_of dt)) = Inr dt'" "calendar_date dt'"
    using timestamp_roundtrip_calendar [of "of_nat (seconds_of dt)"] by auto
  show ?thesis
  proof (intro exI conjI)
    show "dt' = dt\<lparr>weekday := weekday dt'\<rparr> \<longleftrightarrow> unat (day dt) \<le> month_length (gregorian_leap (unat (year dt))) (unat (month dt))"
    proof
      assume "dt' = dt\<lparr>weekday := weekday dt'\<rparr>"
      then obtain w where "dt' = dt\<lparr>weekday := w\<rparr>" by blast
      with dt'(2) show "unat (day dt) \<le> month_length (gregorian_leap (unat (year dt))) (unat (month dt))"
        by (simp add: calendar_date_def)
    next
      assume "unat (day dt) \<le> month_length (gregorian_leap (unat (year dt))) (unat (month dt))"
      then have c: "calendar_date dt" using v by (simp add: calendar_date_def)
      have "days_to_year (unat (year dt) - 1970) \<le> 366 * 129"
        using v(2) days_to_year_le(2) [of "unat (year dt) - 1970"] by simp
      then have "days_of dt < 366 * 129 + 366"
        using year_of_days [OF c] year_length_bounds(2) [of "unat (year dt)"] by (simp add: days_of_def)
      then have "seconds_of dt < 2 ^ 32" using v(7-9) by (simp add: seconds_of_def)
      from from_timestamp_seconds [OF c this] dt'(1) have "dt' = dt\<lparr>weekday := of_nat (weekday_of (days_of dt))\<rparr>" by simp
      then show "dt' = dt\<lparr>weekday := weekday dt'\<rparr>" by simp
    qed
  qed (fact t dt'(1))+
qed

theorem validated_date_roundtrip_witness:
  "\<exists>t dt'. datetime_datetime_to_timestamp \<lparr>hour = 23, minute = 59, second = 59, day = 30, month = 2, year = 2024, weekday = 4\<rparr> = Inr t \<and>
    datetime_timestamp_to_datetime t = Inr dt' \<and>
    dt' \<noteq> \<lparr>hour = 23, minute = 59, second = 59, day = 30, month = 2, year = 2024, weekday = weekday dt'\<rparr>"
  using validated_date_roundtrip [of "\<lparr>hour = 23, minute = 59, second = 59, day = 30, month = 2, year = 2024, weekday = 4\<rparr>"]
  by (auto simp: datetime_validate_datetime_def month_length_def split: if_splits)

end
