(* ===== verification/Toolbox_Numbers.thy ===== *)
theory Toolbox_Numbers
  imports Checked_Memory "HOL-Library.Signed_Division"
begin

text \<open>
  Number codecs of the toolbox: variable-length integers (\<^verbatim>\<open>lib/toolbox/varint.c\<close>), the checked string to
  integer conversion (\<^verbatim>\<open>lib/toolbox/strint.c\<close>) and hexadecimal text (\<^verbatim>\<open>lib/toolbox/hex.c\<close>).

  A packed number is the list of the bytes written; a C string is the list of its characters before the
  terminating zero. Signed products that overflow \<open>int32_t\<close> are taken modulo \<open>2 ^ 32\<close>.
\<close>

section \<open>Variable-length integers\<close>

function varint_uint32_pack :: "u32 \<Rightarrow> u8 list" where
  "varint_uint32_pack value =
     (if 0x80 \<le> value then ucast (value OR 0x80) # varint_uint32_pack (drop_bit 7 value) else [ucast value])"
  by auto
termination
  by (relation "measure unat") (auto simp: word_le_nat_alt drop_bit_eq_div unat_div_distrib)

fun unpack_loop :: "nat \<Rightarrow> u8 list \<Rightarrow> nat \<Rightarrow> u32 \<Rightarrow> (u32 \<times> nat) checked" where
  "unpack_loop 0 input i parsed = Inr (parsed, i)"
| "unpack_loop (Suc n) input i parsed =
     checked_bind (mem_read input i) (\<lambda>b.
       let parsed = parsed OR push_bit (7 * i) (ucast b AND 0x7F) in
       if b AND 0x80 = 0 then Inr (parsed, i) else unpack_loop n input (i + 1) parsed)"

definition varint_uint32_unpack :: "u8 list \<Rightarrow> nat \<Rightarrow> (u32 \<times> nat) checked" where
  "varint_uint32_unpack input input_size =
     checked_bind (unpack_loop input_size input 0 0) (\<lambda>(parsed, i). Inr (parsed, i + 1))"

function varint_uint32_length :: "u32 \<Rightarrow> nat" where
  "varint_uint32_length value = (if 0x80 \<le> value then Suc (varint_uint32_length (drop_bit 7 value)) else 1)"
  by auto
termination
  by (relation "measure unat") (auto simp: word_le_nat_alt drop_bit_eq_div unat_div_distrib)

declare varint_uint32_pack.simps [simp del] varint_uint32_length.simps [simp del]

text \<open>The zigzag of the signed packer; \<open>int32_t\<close> values are words read by \<open>sint\<close>.\<close>

definition zigzag :: "u32 \<Rightarrow> u32" where
  "zigzag value = (if 0 \<le> sint value then value * 2 else (value * (- 2)) - 1)"

definition varint_int32_pack :: "u32 \<Rightarrow> u8 list" where
  "varint_int32_pack value = varint_uint32_pack (zigzag value)"

definition varint_int32_unpack :: "u8 list \<Rightarrow> nat \<Rightarrow> (u32 \<times> nat) checked" where
  "varint_int32_unpack input input_size =
     checked_bind (varint_uint32_unpack input input_size) (\<lambda>(v, size).
       Inr (if v AND 1 \<noteq> 0 then word_of_int (sint (v + 1) sdiv (- 2)) else v div 2, size))"

definition varint_int32_length :: "u32 \<Rightarrow> nat" where
  "varint_int32_length value = varint_uint32_length (zigzag value)"

lemma bit_0x80: "bit (0x80 :: 'a::len word) n \<longleftrightarrow> n = 7 \<and> 7 < LENGTH('a)" "bit (0x80 :: int) n \<longleftrightarrow> n = 7"
proof -
  have "(0x80 :: 'a word) = push_bit 7 1" "(0x80 :: int) = push_bit 7 1" by simp_all
  then show "bit (0x80 :: 'a::len word) n \<longleftrightarrow> n = 7 \<and> 7 < LENGTH('a)" "bit (0x80 :: int) n \<longleftrightarrow> n = 7"
    by (auto simp only: bit_push_bit_iff bit_1_iff possible_bit_word possible_bit_int)
qed

lemma low_seven: "(b :: u8) AND 0x80 = 0 \<longleftrightarrow> \<not> bit b 7"
proof
  assume "b AND 0x80 = 0"
  then have "\<not> bit (b AND 0x80) 7" by simp
  then show "\<not> bit b 7" by (simp add: bit_and_iff bit_0x80)
next
  assume "\<not> bit b 7"
  then show "b AND 0x80 = 0" by (intro bit_word_eqI) (auto simp: bit_and_iff bit_0x80)
qed

lemma length_pack [simp]: "length (varint_uint32_pack v) = varint_uint32_length v"
  by (induction v rule: varint_uint32_pack.induct)
    (subst varint_uint32_pack.simps, subst varint_uint32_length.simps, simp)

lemma length_pack_pos: "0 < varint_uint32_length v"
  by (subst varint_uint32_length.simps) simp

lemma seven_bits: "(w :: u32) AND 0x7F = take_bit 7 w"
  by (simp add: take_bit_eq_mask mask_eq_exp_minus_1)

lemma push_seven:
  "push_bit (7 * i) (ucast (ucast (v OR 0x80) :: u8) AND 0x7F) OR push_bit (7 * (i + 1)) (drop_bit 7 v) = push_bit (7 * i) (v :: u32)"
proof (rule bit_word_eqI)
  fix n assume "n < LENGTH(32)"
  show "bit (push_bit (7 * i) (ucast (ucast (v OR 0x80) :: u8) AND 0x7F) OR push_bit (7 * (i + 1)) (drop_bit 7 v)) n =
      bit (push_bit (7 * i) v) n"
  proof (cases "7 * i \<le> n")
    case True
    then obtain k where "n = 7 * i + k" using le_Suc_ex by blast
    then show ?thesis
      using \<open>n < LENGTH(32)\<close> unfolding seven_bits by (cases "k < 7") (auto simp: bit_simps bit_0x80 not_less)
  qed (simp add: bit_simps)
qed

lemma small_value:
  assumes "\<not> 0x80 \<le> (v :: u32)"
  shows "ucast (ucast v :: u8) AND 0x7F = v" "\<not> bit (ucast v :: u8) 7"
proof -
  have "unat v < 2 ^ 7" using assms by (simp add: word_le_nat_alt)
  then have "take_bit 7 v = v" by (simp add: word_unat_eq_iff unsigned_take_bit_eq take_bit_nat_eq_self)
  then have b: "n < 7" if "bit v n" for n using that bit_take_bit_iff [of 7 v n] by simp
  show "ucast (ucast v :: u8) AND 0x7F = v"
    unfolding seven_bits by (rule bit_word_eqI) (use b in \<open>fastforce simp: bit_simps\<close>)
  show "\<not> bit (ucast v :: u8) 7" using b [of 7] by (auto simp: bit_simps)
qed

lemma unpack_packed:
  assumes "length pre = i" "varint_uint32_length v \<le> n"
  shows "unpack_loop n (pre @ varint_uint32_pack v @ rest) i parsed =
    Inr (parsed OR push_bit (7 * i) v, i + varint_uint32_length v - 1)"
  using assms
proof (induction v arbitrary: pre i n parsed rule: varint_uint32_pack.induct)
  case (1 v)
  obtain m where n: "n = Suc m" using 1(3) length_pack_pos [of v] by (cases n) auto
  show ?case
  proof (cases "0x80 \<le> v")
    case True
    let ?b = "ucast (v OR 0x80) :: u8"
    have "bit ?b 7" by (simp add: bit_simps bit_0x80)
    have p: "varint_uint32_pack v = ?b # varint_uint32_pack (drop_bit 7 v)" "varint_uint32_length v = Suc (varint_uint32_length (drop_bit 7 v))"
      by (subst varint_uint32_pack.simps, simp add: True) (subst varint_uint32_length.simps, simp add: True)
    have "mem_read (pre @ (?b # varint_uint32_pack (drop_bit 7 v)) @ rest) i = Inr ?b"
      using 1(2) by (simp add: mem_read_def nth_append)
    moreover have "unpack_loop m ((pre @ [?b]) @ varint_uint32_pack (drop_bit 7 v) @ rest) (i + 1)
        (parsed OR push_bit (7 * i) (ucast ?b AND 0x7F)) =
        Inr ((parsed OR push_bit (7 * i) (ucast ?b AND 0x7F)) OR push_bit (7 * (i + 1)) (drop_bit 7 v),
          i + 1 + varint_uint32_length (drop_bit 7 v) - 1)"
      by (rule 1(1) [OF True]) (use 1(2,3) p n in auto)
    ultimately show ?thesis
      using \<open>bit ?b 7\<close> unfolding p n by (simp add: low_seven or.assoc push_seven [simplified])
  next
    case False
    then have p: "varint_uint32_pack v = [ucast v]" "varint_uint32_length v = 1"
      by (subst varint_uint32_pack.simps, simp) (use False in \<open>subst varint_uint32_length.simps, simp\<close>)
    have "mem_read (pre @ [ucast v] @ rest) i = Inr (ucast v)" using 1(2) by (simp add: mem_read_def nth_append)
    then show ?thesis
      unfolding n p unpack_loop.simps by (simp only: checked_bind_simps Let_def low_seven small_value [OF False] simp_thms if_True) simp
  qed
qed

lemma length_pack_bound: "unat v < 2 ^ (7 * k) \<Longrightarrow> 0 < k \<Longrightarrow> varint_uint32_length v \<le> k"
proof (induction v arbitrary: k rule: varint_uint32_pack.induct)
  case (1 v)
  show ?case
  proof (cases "0x80 \<le> v")
    case True
    have k: "1 < k"
    proof (rule ccontr)
      assume "\<not> 1 < k"
      then have "k = 1" using 1(3) by simp
      then show False using 1(2) True by (simp add: word_le_nat_alt)
    qed
    then have "7 * k = 7 * (k - 1) + 7" by simp
    then have "(2::nat) ^ (7 * k) = 2 ^ (7 * (k - 1)) * 2 ^ 7" by (simp only: power_add)
    then have "unat (drop_bit 7 v) < 2 ^ (7 * (k - 1))"
      using 1(2) by (simp add: drop_bit_eq_div unat_div_distrib less_mult_imp_div_less)
    then have "varint_uint32_length (drop_bit 7 v) \<le> k - 1" using 1(1) [OF True] k by simp
    then show ?thesis using True k by (subst varint_uint32_length.simps) simp
  qed (use 1(3) in \<open>subst varint_uint32_length.simps, simp\<close>)
qed

lemma unpack_pack:
  assumes "varint_uint32_length v \<le> n"
  shows "varint_uint32_unpack (varint_uint32_pack v @ rest) n = Inr (v, varint_uint32_length v)"
  using unpack_packed [of "[]" 0 v n rest 0] assms length_pack_pos [of v] by (simp add: varint_uint32_unpack_def)

lemma length_pack_5: "varint_uint32_length v \<le> 5"
proof -
  have "unat v < 2 ^ LENGTH(32)" by (rule unsigned_less)
  then show ?thesis using length_pack_bound [of v 5] by simp
qed

lemma unpack_truncated:
  assumes "\<forall>i<n. bit (input ! i) 7" "n \<le> length input"
  shows "\<exists>v. varint_uint32_unpack input n = Inr (v, n + 1)"
proof -
  have "\<exists>v. unpack_loop k input i parsed = Inr (v, n)" if "i + k = n" for k i parsed
    using that assms
  proof (induction k arbitrary: i parsed)
    case (Suc k)
    then have "mem_read input i = Inr (input ! i)" "input ! i AND 0x80 \<noteq> 0"
      by (simp_all add: mem_read_def low_seven)
    then show ?case using Suc.IH [of "i + 1"] Suc.prems by (simp add: Let_def)
  qed simp
  from this [of 0 n 0] show ?thesis by (auto simp: varint_uint32_unpack_def)
qed

text \<open>The signed codec is right for the values whose double fits into \<open>int32_t\<close>, and for larger positive ones.\<close>

lemma sint_word_of_int_range: "- (2 ^ 31) \<le> k \<Longrightarrow> k < 2 ^ 31 \<Longrightarrow> sint (word_of_int k :: u32) = k"
  by (simp add: signed_of_int signed_take_bit_int_eq_self)

lemma uint_word_of_int_range: "0 \<le> k \<Longrightarrow> k < 2 ^ 32 \<Longrightarrow> uint (word_of_int k :: u32) = k"
  by (simp add: unsigned_of_int take_bit_int_eq_self)

lemma sint_range_32: "- (2 ^ 31) \<le> sint (v :: u32)" "sint (v :: u32) < 2 ^ 31"
  using sint_greater_eq [of v] sint_less [of v] by simp_all

lemma sdiv_minus_2: "(2 * k) sdiv (- 2) = - (k :: int)"
  by (cases "k \<ge> 0") (auto simp: signed_divide_int_def sgn_if abs_if)

lemma unzigzag_nonneg:
  assumes "0 \<le> sint (v :: u32)"
  shows "even (zigzag v)" "zigzag v div 2 = v"
proof -
  have u: "uint v = sint v" using uint_word_of_int_range [of "sint v"] assms sint_range_32(2) [of v] by simp
  have "uint (v * 2) = 2 * uint v" using sint_range_32(2) [of v] assms u by (simp add: uint_word_ariths)
  then show "zigzag v div 2 = v" using assms by (simp add: zigzag_def word_uint_eq_iff uint_div_distrib)
  show "even (zigzag v)" using assms by (simp add: zigzag_def)
qed

lemma unzigzag_neg:
  assumes "sint (v :: u32) < 0"
  shows "odd (zigzag v)" "word_of_int (sint (zigzag v + 1) sdiv (- 2)) = v \<longleftrightarrow> - (2 ^ 30) < sint v"
proof -
  show "odd (zigzag v)" using assms by (simp add: zigzag_def)
  have v: "v = word_of_int (sint v)" by simp
  have z: "zigzag v + 1 = word_of_int (2 * (- sint v))" using assms by (simp add: zigzag_def)
  show "word_of_int (sint (zigzag v + 1) sdiv (- 2)) = v \<longleftrightarrow> - (2 ^ 30) < sint v"
  proof (cases "- (2 ^ 30) < sint v")
    case True
    then have "sint (zigzag v + 1) = 2 * (- sint v)" unfolding z using assms by (intro sint_word_of_int_range) simp_all
    then show ?thesis using True by (simp only: sdiv_minus_2) simp
  next
    case False
    let ?k = "- sint v - 2 ^ 31"
    have "zigzag v + 1 = word_of_int (2 * ?k)" unfolding z by (simp add: word_of_int_eq_iff take_bit_eq_mod mod_eq_dvd_iff)
    then have "sint (zigzag v + 1) = 2 * ?k" using False sint_range_32 [of v] by (simp only:) (intro sint_word_of_int_range; simp)
    then have "word_of_int (sint (zigzag v + 1) sdiv (- 2)) = (word_of_int (sint v + 2 ^ 31) :: u32)"
      by (simp only: sdiv_minus_2) simp
    moreover have "sint (word_of_int (sint v + 2 ^ 31) :: u32) = sint v + 2 ^ 31"
      using assms sint_range_32 [of v] by (intro sint_word_of_int_range) simp_all
    ultimately show ?thesis using False by (metis add_cancel_right_right power_eq_0_iff zero_neq_numeral)
  qed
qed

text \<open>
  C34 (roundtrip): packing a number takes one to five bytes, as many as the length function says; unpacking from a longer buffer
  reads exactly these bytes and gives the number back. An input whose bytes all have the continuation flag is reported
  with a size one larger than the input. The signed codec gives a value back exactly when it is greater than \<open>-2 ^ 30\<close>.
\<close>

theorem varint_roundtrip:
  assumes "varint_uint32_length v \<le> n" "varint_int32_length v \<le> n" "\<forall>i<k. bit (input ! i) 7" "k \<le> length input"
  shows "varint_uint32_unpack (varint_uint32_pack v @ rest) n = Inr (v, length (varint_uint32_pack v)) \<and>
    length (varint_uint32_pack v) = varint_uint32_length v \<and> varint_uint32_length v \<in> {1..5} \<and>
    (\<exists>v'. varint_int32_unpack (varint_int32_pack v @ rest) n = Inr (v', length (varint_int32_pack v)) \<and>
       (v' = v \<longleftrightarrow> - (2 ^ 30) < sint v)) \<and>
    (\<exists>v'. varint_uint32_unpack input k = Inr (v', k + 1))"
proof (intro conjI)
  let ?v' = "if zigzag v AND 1 \<noteq> 0 then word_of_int (sint (zigzag v + 1) sdiv (- 2)) else zigzag v div 2"
  have "zigzag v AND 1 \<noteq> 0 \<longleftrightarrow> odd (zigzag v)" by (simp add: and_one_eq odd_iff_mod_2_eq_one)
  then have "?v' = v \<longleftrightarrow> - (2 ^ 30) < sint v"
    using unzigzag_nonneg [of v] unzigzag_neg [of v] by (cases "0 \<le> sint v") simp_all
  moreover have "varint_int32_unpack (varint_int32_pack v @ rest) n = Inr (?v', length (varint_int32_pack v))"
    using unpack_pack [of "zigzag v" n rest] assms(2)
    by (simp add: varint_int32_unpack_def varint_int32_pack_def varint_int32_length_def)
  ultimately show "\<exists>v'. varint_int32_unpack (varint_int32_pack v @ rest) n = Inr (v', length (varint_int32_pack v)) \<and>
       (v' = v \<longleftrightarrow> - (2 ^ 30) < sint v)" by blast
  show "\<exists>v'. varint_uint32_unpack input k = Inr (v', k + 1)" using unpack_truncated assms(3,4) by blast
qed (use assms(1) unpack_pack length_pack_5 [of v] length_pack_pos [of v] in simp_all)

theorem varint_roundtrip_witness:
  "varint_uint32_unpack (varint_uint32_pack 300 @ [1, 2]) 5 = Inr (300, length (varint_uint32_pack 300)) \<and>
   (\<exists>v'. varint_int32_unpack (varint_int32_pack 0xC0000000) 5 = Inr (v', length (varint_int32_pack 0xC0000000)) \<and> v' \<noteq> 0xC0000000)"
  using varint_roundtrip [of 300 5 0 "[]" "[1, 2]"] varint_roundtrip [of "0xC0000000" 5 0 "[]" "[]"]
  by (simp add: length_pack_5 varint_int32_length_def)

section \<open>Strings to integers\<close>

datatype StrintParseError = StrintParseSignError | StrintParseAbsentError | StrintParseOverflowError

text \<open>\<open>*str\<close>: the code of the first character, zero at the end of the string.\<close>

definition peek :: "string \<Rightarrow> nat" where
  "peek s = (case s of [] \<Rightarrow> 0 | c # _ \<Rightarrow> of_char c)"

fun skip_whitespace :: "string \<Rightarrow> string" where
  "skip_whitespace [] = []"
| "skip_whitespace (c # s) = (if (9 \<le> peek (c # s) \<and> peek (c # s) \<le> 13) \<or> c = CHR '' '' then skip_whitespace s else c # s)"

definition digit_value :: "char \<Rightarrow> nat option" where
  "digit_value c =
     (if of_char CHR ''0'' \<le> (of_char c :: nat) \<and> of_char c \<le> (of_char CHR ''9'' :: nat) then Some (of_char c - of_char CHR ''0'')
      else if of_char CHR ''A'' \<le> (of_char c :: nat) \<and> of_char c \<le> (of_char CHR ''Z'' :: nat) then Some (of_char c - of_char CHR ''A'' + 10)
      else if of_char CHR ''a'' \<le> (of_char c :: nat) \<and> of_char c \<le> (of_char CHR ''z'' :: nat) then Some (of_char c - of_char CHR ''a'' + 10)
      else None)"

fun read_digits :: "nat \<Rightarrow> u64 \<Rightarrow> u64 \<Rightarrow> string \<Rightarrow> u64 \<Rightarrow> nat \<Rightarrow> StrintParseError + (u64 \<times> nat \<times> string)" where
  "read_digits base limit mul_limit [] result read_total = Inr (result, read_total, [])"
| "read_digits base limit mul_limit (c # s) result read_total =
     (case digit_value c of
        None \<Rightarrow> Inr (result, read_total, c # s)
      | Some d \<Rightarrow>
          if base \<le> d then Inr (result, read_total, c # s)
          else if mul_limit < result then Inl StrintParseOverflowError
          else let result = result * of_nat base in
               if limit - of_nat d < result then Inl StrintParseOverflowError
               else read_digits base limit mul_limit s (result + of_nat d) (read_total + 1))"

definition infer_base :: "string \<Rightarrow> nat \<times> string" where
  "infer_base s =
     (if s \<noteq> [] \<and> hd s = CHR ''0'' then
        let t = tl s in
        if t \<noteq> [] \<and> hd t \<in> {CHR ''x'', CHR ''X''} then (16, tl t)
        else if t \<noteq> [] \<and> hd t \<in> {CHR ''b'', CHR ''B''} then (2, tl t)
        else (8, t)
      else (10, s))"

definition is_sign :: "string \<Rightarrow> bool" where
  "is_sign s = (case s of [] \<Rightarrow> False | c # _ \<Rightarrow> c = CHR ''+'' \<or> c = CHR ''-'')"

definition strint_to_uint64_internal ::
  "string \<Rightarrow> u8 \<Rightarrow> u64 \<Rightarrow> u64 \<Rightarrow> StrintParseError + (u64 \<times> bool \<times> string)" where
  "strint_to_uint64_internal str base max_abs_negative max_positive =
     (let str = skip_whitespace str;
          negative = (is_sign str \<and> hd str = CHR ''-'');
          str = (if is_sign str then tl str else str)
      in if is_sign str then Inl StrintParseSignError
         else if max_abs_negative = 0 \<and> negative then Inl StrintParseSignError
         else
           let (inferred_base, str) = infer_base str;
               base = (if base = 0 then inferred_base else unat base);
               limit = (if negative then max_abs_negative else max_positive)
           in case read_digits base limit (limit div of_nat base) str 0 0 of
                Inl e \<Rightarrow> Inl e
              | Inr (result, read_total, str) \<Rightarrow>
                  if read_total = 0
                  then (if inferred_base = 8 then Inr (0, negative, str) else Inl StrintParseAbsentError)
                  else Inr (result, negative, str))"

definition STRINT_MONO :: "u64 \<Rightarrow> u64 \<Rightarrow> string \<Rightarrow> u8 \<Rightarrow> StrintParseError + ('a::len word \<times> string)" where
  "STRINT_MONO neg_abs_limit pos_limit str base =
     (case strint_to_uint64_internal str base neg_abs_limit pos_limit of
        Inl err \<Rightarrow> Inl err
      | Inr (absolute, negative, end_str) \<Rightarrow> Inr (if negative then - ucast absolute else ucast absolute, end_str))"

definition strint_to_uint64 :: "string \<Rightarrow> u8 \<Rightarrow> StrintParseError + (u64 \<times> string)" where
  "strint_to_uint64 = STRINT_MONO 0 0xFFFFFFFFFFFFFFFF"

definition strint_to_int64 :: "string \<Rightarrow> u8 \<Rightarrow> StrintParseError + (u64 \<times> string)" where
  "strint_to_int64 = STRINT_MONO (0x7FFFFFFFFFFFFFFF + 1) 0x7FFFFFFFFFFFFFFF"

definition strint_to_uint32 :: "string \<Rightarrow> u8 \<Rightarrow> StrintParseError + (u32 \<times> string)" where
  "strint_to_uint32 = STRINT_MONO 0 0xFFFFFFFF"

definition strint_to_int32 :: "string \<Rightarrow> u8 \<Rightarrow> StrintParseError + (u32 \<times> string)" where
  "strint_to_int32 = STRINT_MONO (0x7FFFFFFF + 1) 0x7FFFFFFF"

definition strint_to_uint16 :: "string \<Rightarrow> u8 \<Rightarrow> StrintParseError + (u16 \<times> string)" where
  "strint_to_uint16 = STRINT_MONO 0 0xFFFF"

definition strint_to_int16 :: "string \<Rightarrow> u8 \<Rightarrow> StrintParseError + (u16 \<times> string)" where
  "strint_to_int16 = STRINT_MONO (0x7FFF + 1) 0x7FFF"

text \<open>What the digits stand for, and when the digits end.\<close>

definition digits_value :: "nat \<Rightarrow> string \<Rightarrow> nat \<Rightarrow> nat" where
  "digits_value base cs a = foldl (\<lambda>a c. a * base + the (digit_value c)) a cs"

definition is_digit :: "nat \<Rightarrow> char \<Rightarrow> bool" where
  "is_digit base c \<longleftrightarrow> (\<exists>d<base. digit_value c = Some d)"

definition is_whitespace :: "char \<Rightarrow> bool" where
  "is_whitespace c \<longleftrightarrow> (9 \<le> (of_char c :: nat) \<and> of_char c \<le> (13 :: nat)) \<or> c = CHR '' ''"

lemma digits_value_mono: "0 < base \<Longrightarrow> a \<le> digits_value base cs a"
proof (induction cs arbitrary: a)
  case (Cons c cs)
  have "a \<le> a * base + the (digit_value c)" using Cons.prems by (simp add: trans_le_add1)
  also have "\<dots> \<le> digits_value base cs (a * base + the (digit_value c))" using Cons by blast
  finally show ?case by (simp add: digits_value_def)
qed (simp add: digits_value_def)

lemma is_digit_bound: "is_digit base c \<Longrightarrow> the (digit_value c) < 36"
  by (auto simp: is_digit_def digit_value_def split: if_splits)

lemma read_digits_value:
  assumes "list_all (is_digit base) cs" "rest = [] \<or> \<not> is_digit base (hd rest)" "36 \<le> unat limit" "0 < base" "base \<le> 255"
    "unat result \<le> unat limit"
  shows "read_digits base limit (limit div of_nat base) (cs @ rest) result k =
    (if digits_value base cs (unat result) \<le> unat limit
     then Inr (of_nat (digits_value base cs (unat result)), k + length cs, rest) else Inl StrintParseOverflowError)"
  using assms(1,6)
proof (induction cs arbitrary: result k)
  case Nil
  show ?case
  proof (cases rest)
    case (Cons c r)
    then have "\<not> is_digit base c" using assms(2) by simp
    then show ?thesis using Nil Cons by (auto simp: is_digit_def digits_value_def not_less split: option.splits)
  qed (use Nil in \<open>simp add: digits_value_def\<close>)
next
  case (Cons c cs)
  obtain d where d: "digit_value c = Some d" "d < base" using Cons.prems(1) by (auto simp: is_digit_def)
  have d36: "d < 36" using is_digit_bound [of base c] Cons.prems(1) d(1) by simp
  have b: "unat (of_nat base :: u64) = base" "unat (of_nat d :: u64) = d"
    using assms(5) d36 by (simp_all add: unsigned_of_nat take_bit_nat_eq_self)
  have v: "digits_value base (c # cs) (unat result) = digits_value base cs (unat result * base + d)"
    by (simp add: digits_value_def d(1))
  have m: "limit div of_nat base < result \<longleftrightarrow> unat limit < unat result * base"
    using assms(4) by (simp add: word_less_nat_alt unat_div_distrib b(1) div_less_iff_less_mult)
  show ?case
  proof (cases "unat limit < unat result * base")
    case True
    then have "unat limit < digits_value base cs (unat result * base + d)"
      using digits_value_mono [OF assms(4), of "unat result * base + d" cs] by simp
    then show ?thesis unfolding v using True m d by simp
  next
    case False
    have lim: "unat limit < 2 ^ LENGTH(64)" by (rule unsigned_less)
    then have r: "unat (result * of_nat base) = unat result * base"
      using False b(1) by (subst unat_mult_lem [THEN iffD1]) simp_all
    have "unat (limit - of_nat d) = unat limit - d"
      using assms(3) d36 b(2) by (subst unat_sub) (simp_all add: word_le_nat_alt)
    then have c: "limit - of_nat d < result * of_nat base \<longleftrightarrow> unat limit < unat result * base + d"
      using assms(3) d36 by (simp add: word_less_nat_alt r) arith
    show ?thesis
    proof (cases "unat limit < unat result * base + d")
      case True
      then have "unat limit < digits_value base cs (unat result * base + d)"
        using digits_value_mono [OF assms(4), of "unat result * base + d" cs] by simp
      then show ?thesis unfolding v using True False m c d by (simp add: Let_def)
    next
      case le: False
      then have "unat (result * of_nat base + of_nat d) = unat result * base + d"
        using lim b(2) r by (subst unat_add_lem [THEN iffD1]) simp_all
      then show ?thesis unfolding v
        using Cons.IH [of "result * of_nat base + of_nat d" "k + 1"] Cons.prems(1) False le m c d by (simp add: Let_def)
    qed
  qed
qed

lemma skip_whitespace_append:
  assumes "list_all is_whitespace ws" "s = [] \<or> \<not> is_whitespace (hd s)"
  shows "skip_whitespace (ws @ s) = s"
  using assms(1)
proof (induction ws)
  case Nil
  then show ?case using assms(2) by (cases s) (auto simp: is_whitespace_def peek_def)
qed (auto simp: is_whitespace_def peek_def)

lemma digit_chars:
  assumes "is_digit base c"
  shows "\<not> is_whitespace c" "c \<noteq> CHR ''+''" "c \<noteq> CHR ''-''"
  using assms by (auto simp: is_digit_def digit_value_def is_whitespace_def split: if_splits)

definition number_prefixes :: "(string \<times> nat) set" where
  "number_prefixes = {('''', 10), (''0x'', 16), (''0X'', 16), (''0b'', 2), (''0B'', 2), (''0'', 8)}"

text \<open>The base the digits are read in: the argument, or what the prefix stands for when it is zero.\<close>

definition text_base :: "nat \<Rightarrow> u8 \<Rightarrow> nat" where
  "text_base b base = (if base = 0 then b else unat base)"

text \<open>
  A number in a string: white space, up to two signs, a base prefix, the longest run of digits of
  the base in force, and what follows. The prefix is what the reader takes it for: no prefix only
  before a text that does not start with a zero, the prefix of base eight only where none of the
  longer prefixes is there.
\<close>

definition number_text :: "string \<Rightarrow> string \<Rightarrow> string \<Rightarrow> string \<Rightarrow> string \<Rightarrow> nat \<Rightarrow> u8 \<Rightarrow> bool" where
  "number_text ws sn pre cs rest b base \<longleftrightarrow> list_all is_whitespace ws \<and>
     sn \<in> {'''', ''+'', ''-'', ''++'', ''+-'', ''-+'', ''--''} \<and> (pre, b) \<in> number_prefixes \<and>
     list_all (is_digit (text_base b base)) cs \<and> (rest = [] \<or> \<not> is_digit (text_base b base) (hd rest)) \<and>
     (cs @ rest = [] \<or>
       (pre = '''' \<longrightarrow> hd (cs @ rest) \<noteq> CHR ''0'') \<and>
       (pre = ''0'' \<longrightarrow> hd (cs @ rest) \<notin> {CHR ''x'', CHR ''X'', CHR ''b'', CHR ''B''})) \<and>
     (pre = '''' \<and> cs = [] \<and> rest \<noteq> [] \<longrightarrow>
       \<not> is_sign rest \<and> (sn = '''' \<longrightarrow> \<not> is_whitespace (hd rest)))"

lemma infer_base_prefix:
  assumes "number_text ws sn pre cs rest b base"
  shows "infer_base (pre @ cs @ rest) = (b, cs @ rest)"
proof -
  have p: "(pre, b) \<in> number_prefixes" using assms by (simp only: number_text_def)
  define s where "s = cs @ rest"
  have s: "s = [] \<or> (pre = '''' \<longrightarrow> hd s \<noteq> CHR ''0'') \<and>
      (pre = ''0'' \<longrightarrow> hd s \<notin> {CHR ''x'', CHR ''X'', CHR ''b'', CHR ''B''})"
    using assms by (simp only: number_text_def s_def)
  consider "pre = ''''" "b = 10" | "pre = ''0x'' \<or> pre = ''0X''" "b = 16" | "pre = ''0b'' \<or> pre = ''0B''" "b = 2"
    | "pre = ''0''" "b = 8"
    using p by (auto simp: number_prefixes_def)
  then have "infer_base (pre @ s) = (b, s)"
  proof cases
    case 1
    then show ?thesis using s by (cases "s = []") (simp_all add: infer_base_def)
  next
    case 2
    then show ?thesis by (elim disjE) (simp_all add: infer_base_def Let_def)
  next
    case 3
    then show ?thesis by (elim disjE) (simp_all add: infer_base_def Let_def)
  next
    case 4
    then show ?thesis using s by (cases "s = []") (simp_all add: infer_base_def Let_def)
  qed
  then show ?thesis by (simp only: s_def)
qed

lemma digit_zero_chars: "\<not> is_whitespace CHR ''0''" by (simp add: is_whitespace_def)

lemma number_start:
  assumes "number_text ws sn pre cs rest b base"
  shows "\<not> is_sign (pre @ cs @ rest)"
    and "sn @ pre @ cs @ rest = [] \<or> \<not> is_whitespace (hd (sn @ pre @ cs @ rest))"
proof -
  have m: "(pre, b) \<in> number_prefixes" "sn \<in> {'''', ''+'', ''-'', ''++'', ''+-'', ''-+'', ''--''}"
    using assms unfolding number_text_def by iprover+
  have p: "pre = [] \<or> hd pre = CHR ''0''" using m(1) by (auto simp: number_prefixes_def)
  have sn: "sn = [] \<or> \<not> is_whitespace (hd sn)" using m(2) by (auto simp: is_whitespace_def)
  have all: "list_all (is_digit (text_base b base)) cs"
    and none: "pre = [] \<and> cs = [] \<and> rest \<noteq> [] \<longrightarrow> \<not> is_sign rest \<and> (sn = '''' \<longrightarrow> \<not> is_whitespace (hd rest))"
    using assms unfolding number_text_def by iprover+
  from all have d: "cs = [] \<or> is_digit (text_base b base) (hd cs)" by (cases cs) simp_all
  have sign: "is_sign s \<longleftrightarrow> s \<noteq> [] \<and> hd s \<in> {CHR ''+'', CHR ''-''}" for s
    by (cases s) (simp_all add: is_sign_def)
  consider "pre \<noteq> []" | "pre = []" "cs \<noteq> []" | "pre = []" "cs = []" by blast
  note cases = this
  from cases show "\<not> is_sign (pre @ cs @ rest)"
  proof cases
    case 1
    then show ?thesis using p by (simp add: sign)
  next
    case 2
    then show ?thesis using d digit_chars(2,3) [of "text_base b base" "hd cs"] by (simp add: sign)
  next
    case 3
    then show ?thesis using none by (simp add: sign) (cases "rest = []"; simp)
  qed
  from cases show "sn @ pre @ cs @ rest = [] \<or> \<not> is_whitespace (hd (sn @ pre @ cs @ rest))"
  proof cases
    case 1
    then show ?thesis using p sn digit_zero_chars by (cases "sn = []") simp_all
  next
    case 2
    then show ?thesis using d sn digit_chars(1) [of "text_base b base" "hd cs"] by (cases "sn = []") simp_all
  next
    case 3
    then show ?thesis using none sn by (cases "sn = []"; cases "rest = []") simp_all
  qed
qed

text \<open>What the caller is told: the outcome for a type with values from \<open>lo\<close> up to, not including, \<open>hi\<close>.\<close>

definition strint_outcome ::
  "int \<Rightarrow> int \<Rightarrow> string \<Rightarrow> string \<Rightarrow> nat \<Rightarrow> int \<Rightarrow> string \<Rightarrow> StrintParseError + ('a::len word \<times> string)" where
  "strint_outcome lo hi sn cs b v rest =
     (if length sn = 2 \<or> lo = 0 \<and> sn = ''-'' then Inl StrintParseSignError
      else if cs = [] \<and> b \<noteq> 8 then Inl StrintParseAbsentError
      else if lo \<le> v \<and> v < hi then Inr (word_of_int v, rest) else Inl StrintParseOverflowError)"

lemma u8_below: "unat (w :: u8) \<le> 255"
proof -
  have "unat w < 2 ^ LENGTH(8)" by (rule unsigned_less)
  then show ?thesis by simp
qed

lemma strint_internal_value:
  assumes nt: "number_text ws sn pre cs rest b base" and "36 \<le> unat pos" "neg = 0 \<or> 36 \<le> unat neg"
  shows "strint_to_uint64_internal (ws @ sn @ pre @ cs @ rest) base neg pos =
    (if length sn = 2 \<or> neg = 0 \<and> sn = ''-'' then Inl StrintParseSignError
     else if cs = [] \<and> b \<noteq> 8 then Inl StrintParseAbsentError
     else if digits_value (text_base b base) cs 0 \<le> unat (if sn = ''-'' then neg else pos)
     then Inr (of_nat (digits_value (text_base b base) cs 0), sn = ''-'', rest) else Inl StrintParseOverflowError)"
proof -
  let ?b = "text_base b base"
  have t: "list_all is_whitespace ws" "sn \<in> {'''', ''+'', ''-'', ''++'', ''+-'', ''-+'', ''--''}"
    "(pre, b) \<in> number_prefixes" "list_all (is_digit ?b) cs" "rest = [] \<or> \<not> is_digit ?b (hd rest)"
    using nt unfolding number_text_def by iprover+
  have skip: "skip_whitespace (ws @ sn @ pre @ cs @ rest) = sn @ pre @ cs @ rest"
    by (rule skip_whitespace_append) (rule t(1), rule number_start(2) [OF nt])
  note u = strint_to_uint64_internal_def [of _ base neg pos] Let_def skip
  show ?thesis
  proof (cases "length sn = 2")
    case True
    then have "is_sign (sn @ pre @ cs @ rest)" "is_sign (tl (sn @ pre @ cs @ rest))" using t(2) by (auto simp: is_sign_def)
    then show ?thesis unfolding u using True by simp
  next
    case False
    then have sn: "sn \<in> {'''', ''+'', ''-''}" using t(2) by auto
    have sign: "is_sign (sn @ pre @ cs @ rest) = (sn \<noteq> '''')"
      using sn number_start(1) [OF nt] by (auto simp: is_sign_def)
    have minus: "(sn \<noteq> '''' \<and> hd (sn @ pre @ cs @ rest) = CHR ''-'') = (sn = ''-'')" using sn by auto
    have tail: "(if sn \<noteq> '''' then tl (sn @ pre @ cs @ rest) else sn @ pre @ cs @ rest) = pre @ cs @ rest" using sn by auto
    have nb: "0 < b" "b \<le> 255" using t(3) by (auto simp: number_prefixes_def)
    have b: "0 < ?b" "?b \<le> 255" "(if base = 0 then b else unat base) = ?b"
      using nb u8_below [of base] by (auto simp: text_base_def unat_gt_0)
    have digits: "read_digits ?b lim (lim div of_nat ?b) (cs @ rest) 0 0 =
        (if digits_value ?b cs 0 \<le> unat lim then Inr (of_nat (digits_value ?b cs 0), length cs, rest)
         else Inl StrintParseOverflowError)" if "36 \<le> unat lim" for lim
      using read_digits_value [OF t(4,5) that b(1,2), of 0 0] by simp
    have empty: "digits_value ?b [] 0 = 0" by (simp add: digits_value_def)
    have none: "read_digits ?b lim (lim div of_nat ?b) rest 0 0 = Inr (0, 0, rest)"
      if "36 \<le> unat lim" "cs = []" for lim
      using digits [OF that(1)] empty by (simp add: that(2))
    define bb where "bb = ?b"
    note digits = digits [folded bb_def] and none = none [folded bb_def] and empty = empty [folded bb_def]
    show ?thesis
      unfolding u sign minus tail infer_base_prefix [OF nt] prod.case b(3) bb_def [symmetric]
      using number_start(1) [OF nt] assms(2,3) False
      by (cases "sn = ''-''"; cases "neg = 0"; cases "cs = []") (simp_all add: digits none empty)
  qed
qed

definition text_value :: "string \<Rightarrow> nat \<Rightarrow> string \<Rightarrow> int" where
  "text_value sn b cs = (if sn = ''-'' then - int (digits_value b cs 0) else int (digits_value b cs 0))"

lemma STRINT_MONO_value:
  assumes "number_text ws sn pre cs rest b base" "36 \<le> unat pos" "neg = 0 \<or> 36 \<le> unat neg" "LENGTH('a::len) \<le> 64"
  shows "(STRINT_MONO neg pos (ws @ sn @ pre @ cs @ rest) base :: StrintParseError + ('a word \<times> string)) =
    strint_outcome (- uint neg) (uint pos + 1) sn cs b (text_value sn (text_base b base) cs) rest"
proof -
  let ?v = "digits_value (text_base b base) cs 0"
  have u: "ucast (of_nat ?v :: u64) = (word_of_int (int ?v) :: 'a word)" if "?v \<le> unat (lim :: u64)" for lim
  proof -
    have "?v < 2 ^ LENGTH(64)" by (rule le_less_trans [OF that unsigned_less])
    then have "unat (of_nat ?v :: u64) = ?v" by (simp add: unsigned_of_nat take_bit_nat_eq_self)
    moreover have "ucast (of_nat ?v :: u64) = (of_nat (unat (of_nat ?v :: u64)) :: 'a word)" by (rule of_nat_unat [symmetric])
    ultimately show ?thesis by simp
  qed
  have e: "?v \<le> unat w \<longleftrightarrow> int ?v \<le> uint w" for w :: u64
    using of_nat_le_iff [of ?v "unat w", where 'a = int] by simp
  have lt: "x < uint pos + 1 \<longleftrightarrow> x \<le> uint pos" for x by linarith
  have "- int ?v \<le> uint pos" "- uint neg \<le> int ?v"
    by (rule order_trans [of _ 0], simp, rule unsigned_greater_eq) (rule order_trans [of _ 0], simp_all)
  then show ?thesis
    unfolding STRINT_MONO_def strint_internal_value [OF assms(1-3)] text_value_def strint_outcome_def
    by (cases "sn = ''-''") (use u [of neg] u [of pos] in \<open>simp_all add: e lt uint_0_iff\<close>)
qed

text \<open>
  C35 (functional): the six string conversions read white space, a sign, an optional base prefix and the digits up to the
  first character that is none, without false overflow and without wrap-around. The digits count in the base argument,
  also after the prefix of another base, and in the prefix's base when the argument is zero. A number that the type can
  hold is returned with the rest of the string, a larger one is an overflow error; a second sign is a sign error, and so
  is a minus sign for an unsigned type; without digits the answer is that the number is absent, except after a single
  zero, which is the number zero in every base.
\<close>

theorem strint_value:
  assumes "number_text ws sn pre cs rest b base" "s = ws @ sn @ pre @ cs @ rest" "v = text_value sn (text_base b base) cs"
  shows
    "strint_to_int16 s base = strint_outcome (- (2 ^ 15)) (2 ^ 15) sn cs b v rest \<and>
     strint_to_int32 s base = strint_outcome (- (2 ^ 31)) (2 ^ 31) sn cs b v rest \<and>
     strint_to_int64 s base = strint_outcome (- (2 ^ 63)) (2 ^ 63) sn cs b v rest \<and>
     strint_to_uint16 s base = strint_outcome 0 (2 ^ 16) sn cs b v rest \<and>
     strint_to_uint32 s base = strint_outcome 0 (2 ^ 32) sn cs b v rest \<and>
     strint_to_uint64 s base = strint_outcome 0 (2 ^ 64) sn cs b v rest"
proof -
  note m = STRINT_MONO_value [OF assms(1)]
  show ?thesis
    unfolding strint_to_int16_def strint_to_int32_def strint_to_int64_def strint_to_uint16_def strint_to_uint32_def
      strint_to_uint64_def assms(2)
    by (intro conjI; subst m; simp flip: assms(3))
qed

theorem strint_value_witness:
  "strint_to_int32 (''  -0x80000000,1'') 0 = Inr (0x80000000, '',1'') \<and>
   strint_to_uint16 ''0b19'' 16 = Inr (0x19, '''') \<and> strint_to_uint16 ''0'' 10 = Inr (0, '''') \<and>
   strint_to_uint16 ''0x'' 0 = Inl StrintParseAbsentError"
proof (intro conjI)
  note d = number_text_def is_whitespace_def number_prefixes_def is_digit_def digit_value_def text_value_def digits_value_def
    text_base_def strint_outcome_def is_sign_def
  show "strint_to_int32 (''  -0x80000000,1'') 0 = Inr (0x80000000, '',1'')"
    using strint_value [of "''  ''" "''-''" "''0x''" "''80000000''" "'',1''" 16 0 "''  -0x80000000,1''" "- (2 ^ 31)"]
    by (simp add: d)
  show "strint_to_uint16 ''0b19'' 16 = Inr (0x19, '''')"
    using strint_value [of "''''" "''''" "''0b''" "''19''" "''''" 2 16 "''0b19''" "0x19"] by (simp add: d)
  show "strint_to_uint16 ''0'' 10 = Inr (0, '''')"
    using strint_value [of "''''" "''''" "''0''" "''''" "''''" 8 10 "''0''" 0] by (simp add: d)
  show "strint_to_uint16 ''0x'' 0 = Inl StrintParseAbsentError"
    using strint_value [of "''''" "''''" "''0x''" "''''" "''''" 16 0 "''0x''" 0] by (simp add: d)
qed

end
