(* ===== verification/Toolbox_Hex.thy ===== *)
theory Toolbox_Hex
  imports Checked_Memory
begin

text \<open>
  Hexadecimal text (\<^verbatim>\<open>lib/toolbox/hex.c\<close>). Characters are their codes. Text that the code scans to its terminating
  zero is the list of the characters before it; text that the code indexes is the memory including the zero.
\<close>

definition hex_char_to_hex_nibble :: "u8 \<Rightarrow> u8 option" where
  "hex_char_to_hex_nibble c =
     (if 0x30 \<le> c \<and> c \<le> 0x39 then Some (c - 0x30)
      else if 0x41 \<le> c \<and> c \<le> 0x46 then Some (c - 0x41 + 10)
      else if 0x61 \<le> c \<and> c \<le> 0x66 then Some (c - 0x61 + 10)
      else None)"

definition hex_char_to_uint8 :: "u8 \<Rightarrow> u8 \<Rightarrow> u8 option" where
  "hex_char_to_uint8 hi low =
     (case hex_char_to_hex_nibble hi of
        None \<Rightarrow> None
      | Some hi_nibble_value \<Rightarrow>
          (case hex_char_to_hex_nibble low of
             None \<Rightarrow> None
           | Some low_nibble_value \<Rightarrow> Some (push_bit 4 hi_nibble_value OR low_nibble_value)))"

text \<open>The result of the last pair, and the bytes written so far.\<close>

fun hex_chars_loop :: "u8 list \<Rightarrow> bool \<Rightarrow> u8 list \<Rightarrow> bool \<times> u8 list" where
  "hex_chars_loop (hi # low # value_str) parse_success val =
     (case hex_char_to_uint8 hi low of
        None \<Rightarrow> (False, val)
      | Some b \<Rightarrow> hex_chars_loop value_str True (val @ [b]))"
| "hex_chars_loop _ parse_success val = (parse_success, val)"

definition hex_chars_to_uint8 :: "u8 list \<Rightarrow> bool \<times> u8 list" where
  "hex_chars_to_uint8 value_str = hex_chars_loop value_str False []"

text \<open>The eight bytes of the number in memory, the least significant first; \<open>i\<close> counts up to 8.\<close>

fun hex_uint64_loop :: "nat \<Rightarrow> nat \<Rightarrow> u8 list \<Rightarrow> u8 list \<Rightarrow> bool \<Rightarrow> (bool \<times> u8 list) checked" where
  "hex_uint64_loop 0 i value_str val parse_success = Inr (parse_success, val)"
| "hex_uint64_loop (Suc n) i value_str val parse_success =
     checked_bind (mem_read value_str (i * 2)) (\<lambda>hi. checked_bind (mem_read value_str (i * 2 + 1)) (\<lambda>low.
       case hex_char_to_uint8 hi low of
         None \<Rightarrow> Inr (False, val)
       | Some b \<Rightarrow> checked_bind (mem_write val (7 - i) b) (\<lambda>val. hex_uint64_loop n (i + 1) value_str val True)))"

definition hex_chars_to_uint64 :: "u8 list \<Rightarrow> u8 list \<Rightarrow> (bool \<times> u8 list) checked" where
  "hex_chars_to_uint64 value_str val = hex_uint64_loop 8 0 value_str val False"

definition hex_digits :: "u8 list" where
  "hex_digits = [0x30, 0x31, 0x32, 0x33, 0x34, 0x35, 0x36, 0x37, 0x38, 0x39, 0x41, 0x42, 0x43, 0x44, 0x45, 0x46]"

fun uint8_to_hex_chars :: "u8 list \<Rightarrow> u8 list \<Rightarrow> nat \<Rightarrow> u8 list checked" where
  "uint8_to_hex_chars src target 0 = Inr target"
| "uint8_to_hex_chars src target (Suc len) =
     checked_bind (mem_read src (len div 2)) (\<lambda>b.
     checked_bind (mem_write target len (hex_digits ! unat (drop_bit ((1 - len mod 2) * 4) b AND 0xF))) (\<lambda>target.
       uint8_to_hex_chars src target len))"

definition hex_pair :: "u8 \<Rightarrow> u8 list" where
  "hex_pair b = [hex_digits ! unat (drop_bit 4 b AND 0xF), hex_digits ! unat (b AND 0xF)]"

lemma nibble_of_digit:
  assumes "n < 16"
  shows "hex_char_to_hex_nibble (hex_digits ! n) = Some (of_nat n)"
  by (rule less_16_cases [OF assms]) (simp_all add: hex_digits_def hex_char_to_hex_nibble_def)

lemma and_15_less: "unat ((b :: u8) AND 0xF) < 16"
proof -
  have "b AND 0xF = take_bit 4 b" by (simp add: take_bit_eq_mask mask_eq_exp_minus_1)
  then show ?thesis using take_bit_nat_less_exp [of 4 "unat b"] by (simp add: unsigned_take_bit_eq)
qed

lemma byte_nibbles: "push_bit 4 (drop_bit 4 b AND 0xF) OR (b AND 0xF) = (b :: u8)"
proof -
  have "c AND 0xF = take_bit 4 c" for c :: u8 by (simp add: take_bit_eq_mask mask_eq_exp_minus_1)
  then show ?thesis by (intro bit_word_eqI) (auto simp: bit_simps)
qed

lemma hex_pair_back [simp]: "hex_char_to_uint8 (hex_pair b ! 0) (hex_pair b ! 1) = Some b"
  unfolding hex_char_to_uint8_def hex_pair_def nth_Cons_0 nth_Cons_Suc One_nat_def nibble_of_digit [OF and_15_less] option.case
  using byte_nibbles [of b] by simp

lemma hex_loop_pairs: "hex_chars_loop (concat (map hex_pair bs)) s acc = (s \<or> bs \<noteq> [], acc @ bs)"
  by (induction bs arbitrary: s acc) (use hex_pair_back in \<open>simp_all add: hex_pair_def\<close>)

definition hex_digit_at :: "u8 list \<Rightarrow> nat \<Rightarrow> u8" where
  "hex_digit_at src i = hex_digits ! unat (drop_bit ((1 - i mod 2) * 4) (src ! (i div 2)) AND 0xF)"

lemma hex_text_eq: "n \<le> length src \<Longrightarrow> map (hex_digit_at src) [0..<2 * n] = concat (map hex_pair (take n src))"
proof (induction n)
  case (Suc n)
  have "[0..<2 * Suc n] = [0..<2 * n] @ [2 * n, 2 * n + 1]" by (simp add: upt_rec [of "2 * n"])
  then show ?case using Suc by (simp add: take_Suc_conv_app_nth hex_digit_at_def hex_pair_def)
qed simp

lemma hex_chars_written:
  "len \<le> 2 * length src \<Longrightarrow> len \<le> length target \<Longrightarrow>
   uint8_to_hex_chars src target len = Inr (map (hex_digit_at src) [0..<len] @ drop len target)"
proof (induction len arbitrary: target)
  case (Suc len)
  then have "len div 2 < length src" "len < length target" by auto
  then show ?case
    using Suc.IH [of "target[len := hex_digit_at src len]"] Suc.prems
    by (simp add: mem_read_def mem_write_def hex_digit_at_def drop_update_swap flip: Cons_nth_drop_Suc)
qed simp

lemma length_hex_text [simp]: "length (concat (map hex_pair bs)) = 2 * length bs"
  by (induction bs) (simp_all add: hex_pair_def)

lemma nth_hex_text:
  "i < length bs \<Longrightarrow> concat (map hex_pair bs) ! (2 * i) = hex_pair (bs ! i) ! 0"
  "i < length bs \<Longrightarrow> concat (map hex_pair bs) ! (2 * i + 1) = hex_pair (bs ! i) ! 1"
proof (induction bs arbitrary: i)
  case (Cons b bs)
  {
    case 1
    then show ?case using Cons.IH(1) [of "i - 1"] by (cases i) (simp_all add: hex_pair_def)
  next
    case 2
    then show ?case using Cons.IH(2) [of "i - 1"] by (cases i) (simp_all add: hex_pair_def)
  }
qed simp_all

lemma hex_uint64_pairs:
  assumes "length bs = 8"
  shows "i + n = 8 \<Longrightarrow> length val = 8 \<Longrightarrow>
    hex_uint64_loop n i (concat (map hex_pair bs) @ tail) val s = Inr (s \<or> 0 < n, rev (drop i bs) @ drop n val)"
proof (induction n arbitrary: i val s)
  case (Suc n)
  have i: "i < length bs" "7 - i = n" "n < length val" using Suc.prems assms by auto
  then have "mem_read (concat (map hex_pair bs) @ tail) (i * 2) = Inr (hex_pair (bs ! i) ! 0)"
    "mem_read (concat (map hex_pair bs) @ tail) (i * 2 + 1) = Inr (hex_pair (bs ! i) ! 1)"
    using nth_hex_text [of i bs] by (simp_all add: mem_read_def nth_append mult.commute)
  moreover have "drop n (val[n := bs ! i]) = bs ! i # drop (Suc n) val"
    using i(3) by (simp add: drop_update_swap flip: Cons_nth_drop_Suc)
  ultimately show ?case
    using Suc.IH [of "i + 1" "val[n := bs ! i]" True] Suc.prems i hex_pair_back [of "bs ! i"]
    by (simp add: mem_write_def Cons_nth_drop_Suc [symmetric])
qed (use assms in simp)

text \<open>
  Printing bytes as hexadecimal text stays within the source and the target, touches only the text,
  and parsing the text gives the bytes back; a text of sixteen digits parses to the number with these bytes, most
  significant first.
\<close>

theorem hex_roundtrip:
  assumes "0 < n" "n \<le> length src" "2 * n \<le> length target" "length val = 8"
  shows "\<exists>txt. uint8_to_hex_chars src target (2 * n) = Inr (txt @ drop (2 * n) target) \<and> length txt = 2 * n \<and>
    hex_chars_to_uint8 txt = (True, take n src) \<and>
    (n = 8 \<longrightarrow> hex_chars_to_uint64 (txt @ [0]) val = Inr (True, rev (take n src)))"
proof (intro exI conjI impI)
  let ?txt = "concat (map hex_pair (take n src))"
  show "uint8_to_hex_chars src target (2 * n) = Inr (?txt @ drop (2 * n) target)"
    using assms by (simp add: hex_chars_written hex_text_eq)
  show "length ?txt = 2 * n" using assms(2) by simp
  have "take n src \<noteq> []" using assms(1,2) by auto
  then show "hex_chars_to_uint8 ?txt = (True, take n src)" by (simp add: hex_chars_to_uint8_def hex_loop_pairs)
  show "hex_chars_to_uint64 (?txt @ [0]) val = Inr (True, rev (take n src))" if "n = 8"
    using hex_uint64_pairs [of "take n src" 0 8 val "[0]" False] that assms(2,4) by (simp add: hex_chars_to_uint64_def)
qed

theorem hex_roundtrip_witness:
  "\<exists>txt. uint8_to_hex_chars [0xDE, 0xAD, 7] [1, 2, 3, 4, 5] 4 = Inr (txt @ [5]) \<and> hex_chars_to_uint8 txt = (True, [0xDE, 0xAD])"
  using hex_roundtrip [of 2 "[0xDE, 0xAD, 7]" "[1, 2, 3, 4, 5]" "replicate 8 0"] by auto

end
