(* ===== verification/Toolbox_Manchester.thy ===== *)
theory Toolbox_Manchester
  imports Checked_Memory
begin

text \<open>
  Manchester coding (\<^verbatim>\<open>lib/toolbox/manchester_encoder.c\<close> and \<^verbatim>\<open>manchester_decoder.c\<close>). States, events and encoder results
  are the numbers of the C enumerations, because the code computes with them.
\<close>

section \<open>Decoder\<close>

definition ManchesterEventShortLow :: nat where "ManchesterEventShortLow = 0"
definition ManchesterEventShortHigh :: nat where "ManchesterEventShortHigh = 2"
definition ManchesterEventLongLow :: nat where "ManchesterEventLongLow = 4"
definition ManchesterEventLongHigh :: nat where "ManchesterEventLongHigh = 6"
definition ManchesterEventReset :: nat where "ManchesterEventReset = 8"

definition ManchesterStateStart1 :: nat where "ManchesterStateStart1 = 0"
definition ManchesterStateMid1 :: nat where "ManchesterStateMid1 = 1"
definition ManchesterStateMid0 :: nat where "ManchesterStateMid0 = 2"
definition ManchesterStateStart0 :: nat where "ManchesterStateStart0 = 3"

definition transitions :: "u8 list" where
  "transitions = [0x01, 0x91, 0x9B, 0xFB]"

definition manchester_reset_state :: nat where
  "manchester_reset_state = ManchesterStateMid1"

text \<open>The decoded bit, if there is one, and the next state.\<close>

definition manchester_advance :: "nat \<Rightarrow> nat \<Rightarrow> bool option \<times> nat" where
  "manchester_advance state event =
     (if event = ManchesterEventReset then (None, manchester_reset_state)
      else
        let new_state = unat (drop_bit event (transitions ! state) AND 0x3) in
        if new_state = state then (None, manchester_reset_state)
        else if new_state = ManchesterStateMid0 then (Some False, new_state)
        else if new_state = ManchesterStateMid1 then (Some True, new_state)
        else (None, new_state))"

section \<open>Encoder\<close>

record ManchesterEncoderState =
  prev_bit :: bool
  step :: nat

definition ManchesterEncoderResultShortLow :: nat where "ManchesterEncoderResultShortLow = 0"
definition ManchesterEncoderResultLongLow :: nat where "ManchesterEncoderResultLongLow = 1"
definition ManchesterEncoderResultLongHigh :: nat where "ManchesterEncoderResultLongHigh = 2"
definition ManchesterEncoderResultShortHigh :: nat where "ManchesterEncoderResultShortHigh = 3"

definition manchester_encoder_reset :: "ManchesterEncoderState \<Rightarrow> ManchesterEncoderState" where
  "manchester_encoder_reset st = st\<lparr>step := 0\<rparr>"

text \<open>The advance flag, the state and the result; an unknown step halts the device.\<close>

definition manchester_encoder_advance ::
  "ManchesterEncoderState \<Rightarrow> bool \<Rightarrow> (bool \<times> ManchesterEncoderState \<times> nat) checked" where
  "manchester_encoder_advance st curr_bit =
     (if step st = 0 then
        Inr (True, st\<lparr>prev_bit := curr_bit, step := 1\<rparr>,
             if curr_bit then ManchesterEncoderResultShortLow else ManchesterEncoderResultShortHigh)
      else if step st = 1 then
        let result = of_bool (prev_bit st) * 2 + of_bool curr_bit in
        if curr_bit = prev_bit st then Inr (False, st\<lparr>step := 2\<rparr>, result)
        else Inr (True, st\<lparr>prev_bit := curr_bit\<rparr>, result)
      else if step st = 2 then
        Inr (True, st\<lparr>prev_bit := curr_bit, step := 1\<rparr>,
             if curr_bit then ManchesterEncoderResultShortLow else ManchesterEncoderResultShortHigh)
      else Inl Furi_Check)"

definition manchester_encoder_finish :: "ManchesterEncoderState \<Rightarrow> ManchesterEncoderState \<times> nat" where
  "manchester_encoder_finish st = (st\<lparr>step := 0\<rparr>, of_bool (prev_bit st) * 2 + of_bool (prev_bit st))"

lemmas manchester_numbers =
  ManchesterEventShortLow_def ManchesterEventShortHigh_def ManchesterEventLongLow_def ManchesterEventLongHigh_def
  ManchesterEventReset_def ManchesterStateStart1_def ManchesterStateMid1_def ManchesterStateMid0_def ManchesterStateStart0_def
  ManchesterEncoderResultShortLow_def ManchesterEncoderResultLongLow_def ManchesterEncoderResultLongHigh_def
  ManchesterEncoderResultShortHigh_def manchester_reset_state_def

section \<open>From bits to half-bits and back\<close>

text \<open>
  How the encoder is used: a bit is offered again until the encoder advances, and every result is sent. The decoder sees
  the result as the event of the same name.
\<close>

fun manchester_send :: "ManchesterEncoderState \<Rightarrow> bool list \<Rightarrow> (nat list \<times> ManchesterEncoderState) checked" where
  "manchester_send st [] = Inr ([], st)"
| "manchester_send st (b # bs) =
     checked_bind (manchester_encoder_advance st b) (\<lambda>(adv, st, r).
       if adv then checked_bind (manchester_send st bs) (\<lambda>(rs, st). Inr (r # rs, st))
       else checked_bind (manchester_encoder_advance st b) (\<lambda>(adv, st, r').
         checked_bind (manchester_send st bs) (\<lambda>(rs, st). Inr (r # r' # rs, st))))"

definition result_event :: "nat \<Rightarrow> nat" where
  "result_event r = [ManchesterEventShortLow, ManchesterEventLongLow, ManchesterEventLongHigh, ManchesterEventShortHigh] ! r"

lemma result_event_simps:
  "result_event 0 = 0" "result_event (Suc 0) = 4" "result_event 2 = 6" "result_event 3 = 2"
  by (simp_all add: result_event_def manchester_numbers)

fun manchester_receive :: "nat \<Rightarrow> nat list \<Rightarrow> bool list \<times> nat" where
  "manchester_receive s [] = ([], s)"
| "manchester_receive s (e # es) =
     (let (d, s) = manchester_advance s e; (bs, s) = manchester_receive s es
      in ((case d of None \<Rightarrow> bs | Some b \<Rightarrow> b # bs), s))"

definition mid_state :: "bool \<Rightarrow> nat" where
  "mid_state b = (if b then ManchesterStateMid1 else ManchesterStateMid0)"

text \<open>Every move of the decoder, as the table gives it.\<close>

lemma advance_table:
  "manchester_advance 0 0 = (Some True, 1)" "manchester_advance 0 2 = (None, 1)" "manchester_advance 0 4 = (None, 1)" "manchester_advance 0 6 = (None, 1)"
  "manchester_advance 1 0 = (None, 1)" "manchester_advance 1 2 = (None, 0)" "manchester_advance 1 4 = (None, 1)" "manchester_advance 1 6 = (Some False, 2)"
  "manchester_advance 2 0 = (None, 3)" "manchester_advance 2 2 = (None, 1)" "manchester_advance 2 4 = (Some True, 1)" "manchester_advance 2 6 = (None, 1)"
  "manchester_advance 3 0 = (None, 1)" "manchester_advance 3 2 = (Some False, 2)" "manchester_advance 3 4 = (None, 1)" "manchester_advance 3 6 = (None, 1)"
  "manchester_advance s 8 = (None, 1)"
  by (simp_all add: manchester_advance_def manchester_numbers transitions_def Let_def)

text \<open>The events of a bit that follows the bit \<open>b\<close>, given by their levels: True is high.\<close>

definition event_of :: "bool \<Rightarrow> bool \<Rightarrow> nat" where
  "event_of high long = (if long then if high then ManchesterEventLongHigh else ManchesterEventLongLow
     else if high then ManchesterEventShortHigh else ManchesterEventShortLow)"

definition bit_events :: "bool \<Rightarrow> bool \<Rightarrow> nat list" where
  "bit_events b c = (if c = b then [event_of b False, event_of (\<not> b) False] else [event_of b True])"

fun line_events :: "bool \<Rightarrow> bool list \<Rightarrow> nat list" where
  "line_events b [] = []"
| "line_events b (c # cs) = bit_events b c @ line_events c cs"

lemma receive_append:
  "manchester_receive s (xs @ ys) =
     (let (bs, s) = manchester_receive s xs; (cs, s) = manchester_receive s ys in (bs @ cs, s))"
  by (induction xs arbitrary: s) (auto simp: Let_def split: prod.splits option.splits)

lemma receive_append':
  "manchester_receive s (xs @ ys) = (fst (manchester_receive s xs) @ fst (manchester_receive (snd (manchester_receive s xs)) ys),
     snd (manchester_receive (snd (manchester_receive s xs)) ys))"
  by (simp add: receive_append Let_def case_prod_beta)

lemma receive_line: "manchester_receive (mid_state b) (line_events b cs) = (cs, mid_state (last (b # cs)))"
proof (induction cs arbitrary: b)
  case (Cons c cs)
  have "manchester_receive (mid_state b) (bit_events b c) = ([c], mid_state c)"
    by (cases b; cases c) (simp_all add: bit_events_def event_of_def mid_state_def manchester_numbers advance_table One_nat_def [symmetric] del: One_nat_def)
  then show ?case using Cons by (simp add: receive_append)
qed simp

abbreviation sending :: "bool \<Rightarrow> ManchesterEncoderState" where
  "sending b \<equiv> \<lparr>prev_bit = b, step = 1\<rparr>"

lemma send_line:
  "\<exists>rs. manchester_send (sending b) cs = Inr (rs, sending (last (b # cs))) \<and> map result_event rs = line_events b cs"
proof (induction cs arbitrary: b)
  case (Cons c cs)
  obtain rs where "manchester_send (sending c) cs = Inr (rs, sending (last (c # cs)))" "map result_event rs = line_events c cs"
    using Cons.IH by blast
  then show ?case
    by (cases b; cases c)
      (auto simp: manchester_encoder_advance_def manchester_numbers result_event_simps bit_events_def event_of_def Let_def split: if_splits)
qed simp

lemma line_events_append: "line_events b (xs @ ys) = line_events b xs @ line_events (last (b # xs)) ys"
  by (induction xs arbitrary: b) auto

lemma long_low_synchronises: "s < 4 \<Longrightarrow> snd (manchester_advance s ManchesterEventLongLow) = mid_state True"
proof -
  assume "s < 4"
  then have "s = 0 \<or> s = 1 \<or> s = 2 \<or> s = 3" by arith
  then show ?thesis
    by (elim disjE) (simp_all add: advance_table manchester_numbers mid_state_def del: One_nat_def)
qed

lemma advance_state: "s < 4 \<Longrightarrow> snd (manchester_advance s e) < 4"
proof -
  have "unat (w AND 0x3) < 4" for w :: u8
  proof -
    have "w AND 0x3 = take_bit 2 w" by (simp add: take_bit_eq_mask mask_eq_exp_minus_1)
    then show ?thesis using take_bit_nat_less_exp [of 2 "unat w"] by (simp add: unsigned_take_bit_eq)
  qed
  then show ?thesis by (auto simp: manchester_advance_def manchester_numbers Let_def)
qed

lemma receive_state: "s < 4 \<Longrightarrow> snd (manchester_receive s es) < 4"
proof (induction es arbitrary: s)
  case (Cons e es)
  then show ?case using advance_state [of s e] by (simp add: Let_def case_prod_beta)
qed simp

lemma receive_after_change:
  assumes "s < 4" "c # cs = xs @ [False, True] @ ys"
  shows "\<exists>os. manchester_receive s (event_of (\<not> c) False # line_events c cs) = (os @ ys, mid_state (last (c # cs)))"
proof -
  let ?es = "event_of (\<not> c) False # line_events c cs"
  obtain pre where pre: "?es = pre @ ManchesterEventLongLow # line_events True ys"
  proof (cases xs)
    case Nil
    then have "c = False" "cs = True # ys" using assms(2) by simp_all
    then show thesis using that [of "[event_of (\<not> c) False]"] by (simp add: bit_events_def event_of_def)
  next
    case (Cons x zs)
    then have "x = c" "cs = (zs @ [False]) @ True # ys" using assms(2) by simp_all
    then have "line_events c cs = line_events c (zs @ [False]) @ bit_events False True @ line_events True ys"
      by (simp only: line_events_append) simp
    then show thesis using that [of "event_of (\<not> c) False # line_events c (zs @ [False])"] by (simp add: bit_events_def event_of_def)
  qed
  define p where "p = manchester_receive s (pre @ [ManchesterEventLongLow])"
  have "snd p = mid_state True"
    using long_low_synchronises [OF receive_state [OF assms(1), of pre]]
    by (simp add: p_def receive_append Let_def case_prod_beta)
  moreover have "?es = (pre @ [ManchesterEventLongLow]) @ line_events True ys" using pre by simp
  ultimately have "manchester_receive s ?es = (fst p @ ys, mid_state (last (True # ys)))"
    by (simp only: receive_append' [of s "pre @ [ManchesterEventLongLow]"] p_def [symmetric] receive_line fst_conv snd_conv)
  moreover have "last (True # ys) = last (c # cs)" unfolding assms(2) by simp
  ultimately show ?thesis by auto
qed

text \<open>
  C36 (roundtrip): the half-bits the Manchester encoder produces for a message, from a reset on and with the final half-bit,
  decode to the message from any state of the decoder, from the first change from zero to one on: whatever the
  decoder makes of the half-bits before this change, every bit after it is decoded, once and in order.
\<close>

theorem manchester_roundtrip:
  assumes "s < 4"
  shows "\<exists>rs st os s'. manchester_send (manchester_encoder_reset st0) (xs @ [False, True] @ ys) = Inr (rs, st) \<and>
    manchester_receive s (map result_event (rs @ [snd (manchester_encoder_finish st)])) = (os @ ys, s')"
proof -
  obtain c cs where c: "c # cs = xs @ [False, True] @ ys" by (cases "xs @ [False, True] @ ys") auto
  obtain rs where rs: "manchester_send (sending c) cs = Inr (rs, sending (last (c # cs)))" "map result_event rs = line_events c cs"
    using send_line by blast
  let ?r = "if c then ManchesterEncoderResultShortLow else ManchesterEncoderResultShortHigh"
  have send: "manchester_send (manchester_encoder_reset st0) (xs @ [False, True] @ ys) = Inr (?r # rs, sending (last (c # cs)))"
    unfolding c [symmetric] using rs(1) by (cases st0) (simp add: manchester_encoder_reset_def manchester_encoder_advance_def)
  let ?es = "event_of (\<not> c) False # line_events c cs" and ?last = "event_of (last (c # cs)) False"
  have ev: "map result_event (?r # rs @ [snd (manchester_encoder_finish (sending (last (c # cs))))]) = ?es @ [?last]"
    using rs(2) by (simp add: result_event_def manchester_numbers manchester_encoder_finish_def event_of_def)
  obtain os where "manchester_receive s ?es = (os @ ys, mid_state (last (c # cs)))"
    using receive_after_change [OF assms c] by blast
  moreover have "fst (manchester_receive (mid_state b) [event_of b False]) = []" for b
    by (cases b) (simp_all add: mid_state_def event_of_def manchester_numbers advance_table One_nat_def [symmetric] del: One_nat_def)
  ultimately have "manchester_receive s (?es @ [?last]) = (os @ ys, snd (manchester_receive (mid_state (last (c # cs))) [?last]))"
    unfolding receive_append' [of s ?es "[?last]"] by (simp only: fst_conv snd_conv append_Nil2)
  then show ?thesis using send ev by (metis append_Cons)
qed

theorem manchester_roundtrip_witness:
  "\<exists>rs st os s'. manchester_send (manchester_encoder_reset \<lparr>prev_bit = False, step = 2\<rparr>) [True, True, False, True, False, False, True] = Inr (rs, st) \<and>
    manchester_receive ManchesterStateMid1 (map result_event (rs @ [snd (manchester_encoder_finish st)])) = (os @ [False, False, True], s')"
  using manchester_roundtrip [of ManchesterStateMid1 "\<lparr>prev_bit = False, step = 2\<rparr>" "[True, True]" "[False, False, True]"]
  by (simp add: manchester_numbers)

end
