(* ===== verification/Lfrfid_Em4100.thy ===== *)
theory Lfrfid_Em4100
  imports Subghz_Common Bit_Lib Toolbox_Manchester
begin

text \<open>
  The EM4100 card protocol of the 125 kHz reader (\<^verbatim>\<open>lib/lfrfid/protocols/protocol_em4100.c\<close>): a 64-bit frame with
  a header of nine ones, ten rows of four data bits and a parity bit, four column parities and a stop bit, sent in
  Manchester code. The casts between the 64-bit frame and its bytes in memory are left out: both sides of every call read the
  frame as the same number.
\<close>

record ProtocolEM4100 =
  em_data :: "u8 list"
  encoded_data :: u64
  encoded_epilogue :: u64
  encoded_data_index :: u8
  encoded_polarity :: bool
  decoder_manchester_state :: nat
  clock_per_bit :: u8

definition EM_HEADER_POS :: nat where "EM_HEADER_POS = 55"
definition EM_HEADER_MASK :: u64 where "EM_HEADER_MASK = push_bit EM_HEADER_POS 0x1FF"
definition EM_FIRST_ROW_POS :: nat where "EM_FIRST_ROW_POS = 50"
definition EM_ROW_COUNT :: nat where "EM_ROW_COUNT = 10"
definition EM_COLUMN_COUNT :: nat where "EM_COLUMN_COUNT = 4"
definition EM_BITS_PER_ROW_COUNT :: nat where "EM_BITS_PER_ROW_COUNT = EM_COLUMN_COUNT + 1"
definition EM_COLUMN_POS :: nat where "EM_COLUMN_POS = 4"
definition EM_STOP_POS :: nat where "EM_STOP_POS = 0"
definition EM_STOP_MASK :: u64 where "EM_STOP_MASK = push_bit EM_STOP_POS 1"
definition EM_HEADER_AND_STOP_MASK :: u64 where "EM_HEADER_AND_STOP_MASK = EM_HEADER_MASK OR EM_STOP_MASK"
definition EM_HEADER_AND_STOP_DATA :: u64 where "EM_HEADER_AND_STOP_DATA = EM_HEADER_MASK"
definition EM4100_DECODED_DATA_SIZE :: nat where "EM4100_DECODED_DATA_SIZE = 5"
definition EM_READ_SHORT_TIME_BASE :: u16 where "EM_READ_SHORT_TIME_BASE = 256"
definition EM_READ_LONG_TIME_BASE :: u16 where "EM_READ_LONG_TIME_BASE = 512"
definition EM_READ_JITTER_TIME_BASE :: u16 where "EM_READ_JITTER_TIME_BASE = 100"
definition EM_EPILOGUE_HEADER :: u64 where "EM_EPILOGUE_HEADER = 0x1FF"

lemmas em_numbers = EM_HEADER_POS_def EM_HEADER_MASK_def EM_FIRST_ROW_POS_def EM_ROW_COUNT_def EM_COLUMN_COUNT_def
  EM_BITS_PER_ROW_COUNT_def EM_COLUMN_POS_def EM_STOP_POS_def EM_STOP_MASK_def EM_HEADER_AND_STOP_MASK_def
  EM_HEADER_AND_STOP_DATA_def EM4100_DECODED_DATA_SIZE_def EM_EPILOGUE_HEADER_def

section \<open>Timing\<close>

definition protocol_em4100_get_time_divisor :: "ProtocolEM4100 \<Rightarrow> u16" where
  "protocol_em4100_get_time_divisor proto =
     (if clock_per_bit proto = 64 then 1 else if clock_per_bit proto = 32 then 2 else if clock_per_bit proto = 16 then 4 else 1)"

definition LFRFID_T5577_BITRATE_RF_16 :: u32 where "LFRFID_T5577_BITRATE_RF_16 = 0x00040000"
definition LFRFID_T5577_BITRATE_RF_32 :: u32 where "LFRFID_T5577_BITRATE_RF_32 = 0x00080000"
definition LFRFID_T5577_BITRATE_RF_64 :: u32 where "LFRFID_T5577_BITRATE_RF_64 = 0x00140000"

definition protocol_em4100_get_t5577_bitrate :: "ProtocolEM4100 \<Rightarrow> u32" where
  "protocol_em4100_get_t5577_bitrate proto =
     (if clock_per_bit proto = 64 then LFRFID_T5577_BITRATE_RF_64 else if clock_per_bit proto = 32 then LFRFID_T5577_BITRATE_RF_32
      else if clock_per_bit proto = 16 then LFRFID_T5577_BITRATE_RF_16 else LFRFID_T5577_BITRATE_RF_64)"

definition EM4x05_SET_BITRATE :: "u32 \<Rightarrow> u32" where
  "EM4x05_SET_BITRATE x = (x - 2) div 2"

definition protocol_em4100_get_em4305_bitrate :: "ProtocolEM4100 \<Rightarrow> u32" where
  "protocol_em4100_get_em4305_bitrate proto =
     (if clock_per_bit proto = 64 then EM4x05_SET_BITRATE 64 else if clock_per_bit proto = 32 then EM4x05_SET_BITRATE 32
      else if clock_per_bit proto = 16 then EM4x05_SET_BITRATE 16 else EM4x05_SET_BITRATE 64)"

definition protocol_em4100_get_short_time_low :: "ProtocolEM4100 \<Rightarrow> u16" where
  "protocol_em4100_get_short_time_low proto =
     EM_READ_SHORT_TIME_BASE div protocol_em4100_get_time_divisor proto - EM_READ_JITTER_TIME_BASE div protocol_em4100_get_time_divisor proto"

definition protocol_em4100_get_short_time_high :: "ProtocolEM4100 \<Rightarrow> u16" where
  "protocol_em4100_get_short_time_high proto =
     EM_READ_SHORT_TIME_BASE div protocol_em4100_get_time_divisor proto + EM_READ_JITTER_TIME_BASE div protocol_em4100_get_time_divisor proto"

definition protocol_em4100_get_long_time_low :: "ProtocolEM4100 \<Rightarrow> u16" where
  "protocol_em4100_get_long_time_low proto =
     EM_READ_LONG_TIME_BASE div protocol_em4100_get_time_divisor proto - EM_READ_JITTER_TIME_BASE div protocol_em4100_get_time_divisor proto"

definition protocol_em4100_get_long_time_high :: "ProtocolEM4100 \<Rightarrow> u16" where
  "protocol_em4100_get_long_time_high proto =
     EM_READ_LONG_TIME_BASE div protocol_em4100_get_time_divisor proto + EM_READ_JITTER_TIME_BASE div protocol_em4100_get_time_divisor proto"

text \<open>\<open>malloc\<close> of the firmware clears the block.\<close>

definition em4100_alloc_with :: "u8 \<Rightarrow> ProtocolEM4100" where
  "em4100_alloc_with clock = \<lparr>em_data = replicate EM4100_DECODED_DATA_SIZE 0, encoded_data = 0, encoded_epilogue = 0,
     encoded_data_index = 0, encoded_polarity = False, decoder_manchester_state = 0, clock_per_bit = clock\<rparr>"

definition protocol_em4100_alloc :: ProtocolEM4100 where "protocol_em4100_alloc = em4100_alloc_with 64"
definition protocol_em4100_16_alloc :: ProtocolEM4100 where "protocol_em4100_16_alloc = em4100_alloc_with 16"
definition protocol_em4100_32_alloc :: ProtocolEM4100 where "protocol_em4100_32_alloc = em4100_alloc_with 32"

definition protocol_em4100_get_data :: "ProtocolEM4100 \<Rightarrow> u8 list" where
  "protocol_em4100_get_data proto = em_data proto"

section \<open>Frames\<close>

definition em4100_decode_bit :: "nat \<Rightarrow> u64 \<times> u8 \<Rightarrow> u64 \<times> u8" where
  "em4100_decode_bit i = (\<lambda>(card_data, nibble).
     (push_bit 1 card_data, if i < 4 then push_bit 1 nibble OR of_bool (bit card_data 63) else nibble))"

definition em4100_decode_row :: "nat \<Rightarrow> u64 \<times> u8 \<times> nat \<times> u8 list \<Rightarrow> u64 \<times> u8 \<times> nat \<times> u8 list" where
  "em4100_decode_row r = (\<lambda>(card_data, val, idx, decoded_data).
     let (card_data, nibble) = fold em4100_decode_bit [0..<5] (card_data, 0);
         val = push_bit 4 val OR nibble
     in if r mod 2 \<noteq> 0 then (card_data, 0, idx + 1, decoded_data[idx := decoded_data ! idx OR val])
        else (card_data, val, idx, decoded_data))"

definition em4100_decode :: "u64 \<Rightarrow> u8 list" where
  "em4100_decode card_data =
     (let (_, _, _, decoded_data) = fold em4100_decode_row [0..<EM_ROW_COUNT]
        (((\<lambda>w. push_bit 1 w) ^^ 9) card_data, 0, 0, replicate EM4100_DECODED_DATA_SIZE 0)
      in decoded_data)"

definition em4100_row_parity_sum :: "u64 \<Rightarrow> nat \<Rightarrow> u8" where
  "em4100_row_parity_sum card_data i =
     fold (\<lambda>j s. s + ucast (drop_bit (EM_FIRST_ROW_POS - i * EM_BITS_PER_ROW_COUNT + j) card_data AND 1)) [0..<EM_BITS_PER_ROW_COUNT] 0"

definition em4100_column_parity_sum :: "u64 \<Rightarrow> nat \<Rightarrow> u8" where
  "em4100_column_parity_sum card_data i =
     fold (\<lambda>j s. s + ucast (drop_bit (EM_COLUMN_POS - i + j * EM_BITS_PER_ROW_COUNT) card_data AND 1)) [0..<EM_ROW_COUNT + 1] 0"

definition em4100_can_be_decoded :: "u64 \<Rightarrow> u64 \<Rightarrow> bool" where
  "em4100_can_be_decoded card_data epilogue \<longleftrightarrow>
     epilogue AND EM_EPILOGUE_HEADER = EM_EPILOGUE_HEADER \<and>
     card_data AND EM_HEADER_AND_STOP_MASK = EM_HEADER_AND_STOP_DATA \<and>
     list_all (\<lambda>i. em4100_row_parity_sum card_data i mod 2 = 0) [0..<EM_ROW_COUNT] \<and>
     list_all (\<lambda>i. em4100_column_parity_sum card_data i mod 2 = 0) [0..<EM_COLUMN_COUNT]"

definition em4100_write_nibble :: "bool \<Rightarrow> u8 \<Rightarrow> u64 \<Rightarrow> u64" where
  "em4100_write_nibble low_nibble b encoded =
     (let start = (if low_nibble then 0 else 4 :: nat);
          (parity_sum, encoded) = fold (\<lambda>i (parity_sum, encoded).
            (parity_sum + (drop_bit i b AND 1), push_bit 1 encoded OR ucast (drop_bit i b AND 1)))
            (rev [start..<start + 4]) (0 :: u8, encoded)
      in push_bit 1 encoded OR ucast (parity_sum mod 2 AND 1))"

definition em4100_column_bit :: "nat \<Rightarrow> u64 \<Rightarrow> u64" where
  "em4100_column_bit c encoded =
     (let parity_sum = fold (\<lambda>i s. s + ucast (drop_bit (i * EM_BITS_PER_ROW_COUNT - 1) encoded AND 1)) [1..<EM_ROW_COUNT + 1] (0 :: u8)
      in push_bit 1 encoded OR ucast (parity_sum mod 2 AND 1))"

definition em4100_frame :: "u8 list \<Rightarrow> u64" where
  "em4100_frame d =
     (let encoded = fold (\<lambda>i e. em4100_write_nibble True (d ! i) (em4100_write_nibble False (d ! i) e))
            [0..<EM4100_DECODED_DATA_SIZE] 0x1FF;
          encoded = fold em4100_column_bit [0..<EM_COLUMN_COUNT] encoded
      in push_bit 1 encoded OR 0)"

definition protocol_em4100_encoder_start :: "ProtocolEM4100 \<Rightarrow> ProtocolEM4100" where
  "protocol_em4100_encoder_start proto =
     proto\<lparr>encoded_data := em4100_frame (em_data proto), encoded_data_index := 0, encoded_polarity := True\<rparr>"

section \<open>Signals\<close>

definition protocol_em4100_decoder_start :: "ProtocolEM4100 \<Rightarrow> ProtocolEM4100" where
  "protocol_em4100_decoder_start proto =
     proto\<lparr>em_data := replicate EM4100_DECODED_DATA_SIZE 0, encoded_data := 0, encoded_epilogue := 0,
       decoder_manchester_state := snd (manchester_advance (decoder_manchester_state proto) ManchesterEventReset)\<rparr>"

definition em4100_event :: "ProtocolEM4100 \<Rightarrow> bool \<Rightarrow> u32 \<Rightarrow> nat" where
  "em4100_event proto level duration =
     (if ucast (protocol_em4100_get_short_time_low proto) < duration \<and> duration < ucast (protocol_em4100_get_short_time_high proto)
      then (if \<not> level then ManchesterEventShortHigh else ManchesterEventShortLow)
      else if ucast (protocol_em4100_get_long_time_low proto) < duration \<and> duration < ucast (protocol_em4100_get_long_time_high proto)
      then (if \<not> level then ManchesterEventLongHigh else ManchesterEventLongLow)
      else ManchesterEventReset)"

definition em4100_take_bit :: "bool \<Rightarrow> ProtocolEM4100 \<Rightarrow> bool \<times> ProtocolEM4100" where
  "em4100_take_bit b proto =
     (let carry = bit (encoded_epilogue proto) 8;
          proto = proto\<lparr>encoded_data := push_bit 1 (encoded_data proto) OR of_bool carry\<rparr>;
          proto = proto\<lparr>encoded_epilogue := (push_bit 1 (encoded_epilogue proto) OR of_bool b) AND EM_EPILOGUE_HEADER\<rparr>
      in if em4100_can_be_decoded (encoded_data proto) (encoded_epilogue proto)
         then (True, proto\<lparr>em_data := em4100_decode (encoded_data proto)\<rparr>) else (False, proto))"

definition protocol_em4100_decoder_feed :: "ProtocolEM4100 \<Rightarrow> bool \<Rightarrow> u32 \<Rightarrow> bool \<times> ProtocolEM4100" where
  "protocol_em4100_decoder_feed proto level duration =
     (let event = em4100_event proto level duration in
      if event \<noteq> ManchesterEventReset then
        let (d, state) = manchester_advance (decoder_manchester_state proto) event;
            proto = proto\<lparr>decoder_manchester_state := state\<rparr>
        in case d of None \<Rightarrow> (False, proto) | Some b \<Rightarrow> em4100_take_bit b proto
      else (False, proto))"

definition protocol_em4100_encoder_yield :: "ProtocolEM4100 \<Rightarrow> LevelDuration \<times> ProtocolEM4100" where
  "protocol_em4100_encoder_yield proto =
     (let level = bit (encoded_data proto) (63 - unat (encoded_data_index proto));
          duration = ucast (clock_per_bit proto div 2)
      in if encoded_polarity proto then (level_duration_make level duration, proto\<lparr>encoded_polarity := False\<rparr>)
         else
           let index = encoded_data_index proto + 1;
               proto = proto\<lparr>encoded_polarity := True, encoded_data_index := (if 64 \<le> index then 0 else index)\<rparr>
           in (level_duration_make (\<not> level) duration, proto))"

section \<open>Frames as lists of bits\<close>

definition shift_bits :: "'a::len word \<Rightarrow> bool list \<Rightarrow> 'a word" where
  "shift_bits w bs = foldl (\<lambda>w b. push_bit 1 w OR of_bool b) w bs"

lemma shift_bits_simps [simp]:
  "shift_bits w [] = w" "shift_bits w (b # bs) = shift_bits (push_bit 1 w OR of_bool b) bs"
  by (simp_all add: shift_bits_def)

lemma shift_bits_append: "shift_bits w (xs @ ys) = shift_bits (shift_bits w xs) ys"
  by (simp add: shift_bits_def)

lemma bit_shift_bits:
  "bit (shift_bits (w :: 'a::len word) bs) j \<longleftrightarrow>
     j < LENGTH('a) \<and> (if j < length bs then bs ! (length bs - 1 - j) else bit w (j - length bs))"
proof (induction bs arbitrary: j rule: rev_induct)
  case Nil
  show ?case using bit_imp_le_length [of w j] by auto
next
  case (snoc b bs)
  have "bit (shift_bits w (bs @ [b])) j \<longleftrightarrow> (if j = 0 then b else j < LENGTH('a) \<and> bit (shift_bits w bs) (j - 1))"
    by (simp add: shift_bits_append bit_shift_in [simplified])
  then show ?case by (cases j) (auto simp: snoc nth_append)
qed

lemma shift_bits_0: "shift_bits w bs = push_bit (length bs) w OR shift_bits 0 bs"
  by (rule bit_word_eqI) (auto simp: bit_shift_bits bit_simps)

lemma bits_of_shift_bits:
  "length bs = LENGTH('a::len) \<Longrightarrow> map (bit (shift_bits 0 bs :: 'a word)) (rev [0..<LENGTH('a)]) = bs"
  by (rule nth_equalityI) (auto simp: bit_shift_bits rev_nth)

lemma shift_bits_of_bits: "shift_bits 0 (map (bit w) (rev [0..<LENGTH('a)])) = (w :: 'a::len word)"
  by (rule bit_word_eqI) (auto simp: bit_shift_bits rev_nth)

lemma and_one_bit: "drop_bit i (w :: 'a::len word) AND 1 = of_bool (bit w i)"
  using bit_read_of_bool [of w i] by (simp add: bit_read_def)

lemma ucast_of_bool: "(ucast (of_bool b :: 'a::len word) :: 'b::len word) = of_bool b"
  by (cases b) simp_all

definition parity :: "bool list \<Rightarrow> bool" where
  "parity bs = odd (count_list bs True)"

lemma parity_simps [simp]: "parity [] = False" "parity (b # bs) = (b \<noteq> parity bs)"
  by (simp_all add: parity_def)

lemma parity_append [simp]: "parity (xs @ ys) = (parity xs \<noteq> parity ys)"
  by (induction xs) auto

lemma parity_rev [simp]: "parity (rev xs) = parity xs"
  by (induction xs) auto

lemma bit_sum:
  "fold (\<lambda>j s. s + ucast (drop_bit (f j) (w :: u64) AND 1)) js (s :: u8) = s + of_nat (count_list (map (\<lambda>j. bit w (f j)) js) True)"
  by (induction js arbitrary: s) (simp_all add: and_one_bit ucast_of_bool)

lemma count_mod_2: "(of_nat n :: u8) mod 2 = of_bool (odd n)"
  by (simp add: of_nat_and_one flip: and_one_eq)

lemma nibble_fold:
  "fold (\<lambda>i (p, e). (p + (drop_bit i b AND 1), push_bit 1 e OR ucast (drop_bit i b AND 1))) is (p :: u8, e :: u64) =
     (p + of_nat (count_list (map (bit b) is) True), shift_bits e (map (bit (b :: u8)) is))"
  by (induction "is" arbitrary: p e) (simp_all add: and_one_bit ucast_of_bool)

definition em_row :: "u8 \<Rightarrow> nat \<Rightarrow> bool list" where
  "em_row b s = (let r = map (bit b) (rev [s..<s + 4]) in r @ [parity r])"

lemma write_nibble_bits: "em4100_write_nibble low b e = shift_bits e (em_row b (if low then 0 else 4))"
  unfolding em4100_write_nibble_def Let_def nibble_fold prod.case em_row_def shift_bits_append
  by (simp add: count_mod_2 ucast_of_bool parity_def)

definition em_rows :: "u8 list \<Rightarrow> bool list list" where
  "em_rows d = concat (map (\<lambda>b. [em_row b 4, em_row b 0]) d)"

definition em_columns :: "bool list list \<Rightarrow> bool list" where
  "em_columns rows = map (\<lambda>c. parity (map (\<lambda>r. r ! c) rows)) [0..<4]"

definition em_frame_bits :: "u8 list \<Rightarrow> bool list" where
  "em_frame_bits d = replicate 9 True @ concat (em_rows d) @ em_columns (em_rows d) @ [False]"

lemma length_em_row [simp]: "length (em_row b s) = 5"
  by (simp add: em_row_def Let_def)

lemma length_em_rows [simp]: "length (em_rows d) = 2 * length d"
  by (induction d) (simp_all add: em_rows_def)

lemma em_rows_lengths: "r \<in> set (em_rows d) \<Longrightarrow> length r = 5"
  by (auto simp: em_rows_def)

lemma length_concat_rows: "(\<And>r. r \<in> set rows \<Longrightarrow> length r = 5) \<Longrightarrow> length (concat rows) = 5 * length rows"
  by (induction rows) auto

lemma nth_concat_rows:
  "(\<And>r. r \<in> set rows \<Longrightarrow> length r = 5) \<Longrightarrow> i < length rows \<Longrightarrow> c < 5 \<Longrightarrow> concat rows ! (5 * i + c) = rows ! i ! c"
proof (induction rows arbitrary: i)
  case (Cons r rows)
  then show ?case by (cases i) (auto simp: nth_append)
qed simp

lemma write_rows:
  "fold (\<lambda>i e. em4100_write_nibble True (d ! i) (em4100_write_nibble False (d ! i) e)) [0..<length d] e = shift_bits e (concat (em_rows d))"
proof (induction d rule: rev_induct)
  case (snoc b d)
  have "fold (\<lambda>i e. em4100_write_nibble True ((d @ [b]) ! i) (em4100_write_nibble False ((d @ [b]) ! i) e)) [0..<length d] e =
      fold (\<lambda>i e. em4100_write_nibble True (d ! i) (em4100_write_nibble False (d ! i) e)) [0..<length d] e"
    by (rule fold_cong) (simp_all add: nth_append)
  then show ?case using snoc by (simp add: em_rows_def write_nibble_bits shift_bits_append nth_append)
qed (simp add: em_rows_def)

lemma column_bit_value:
  assumes "length rows = 10" "\<And>r. r \<in> set rows \<Longrightarrow> length r = 5" "c < 4"
    "e = shift_bits h (concat rows @ cs)" "length cs = c"
  shows "em4100_column_bit c e = shift_bits e [parity (map (\<lambda>r. r ! c) rows)]"
proof -
  have "bit e (i * 5 - 1) = rows ! (10 - i) ! c" if "1 \<le> i" "i \<le> 10" for i
  proof -
    have "length (concat rows) = 50" using length_concat_rows [of rows] assms(1,2) by simp
    moreover have "50 + c - 1 - (i * 5 - 1) = 5 * (10 - i) + c" using that by simp
    moreover have "5 * (10 - i) + c < 50" "i * 5 - 1 < 64" "i * 5 - 1 < 50 + c" using that assms(3) by simp_all
    ultimately show ?thesis
      using nth_concat_rows [of rows "10 - i" c] that assms by (simp add: bit_shift_bits nth_append)
  qed
  then have "map (\<lambda>i. bit e (i * 5 - 1)) [1..<11] = map (\<lambda>i. rows ! (10 - i) ! c) [1..<11]"
    by (intro map_cong) auto
  also have "\<dots> = rev (map (\<lambda>r. r ! c) rows)"
    using assms(1) by (intro nth_equalityI) (simp_all add: rev_nth)
  finally have "parity (map (\<lambda>i. bit e (i * 5 - 1)) [1..<11]) = parity (map (\<lambda>r. r ! c) rows)" by simp
  then show ?thesis
    unfolding em4100_column_bit_def Let_def bit_sum em_numbers by (simp add: count_mod_2 ucast_of_bool parity_def)
qed

lemma frame_bits_word:
  assumes "length d = 5"
  shows "em4100_frame d = shift_bits 0 (em_frame_bits d)"
proof -
  let ?rows = "em_rows d" let ?col = "\<lambda>c. parity (map (\<lambda>r. r ! c) ?rows)"
  let ?e = "shift_bits 0x1FF (concat ?rows)"
  have "shift_bits ?e (map ?col [0..<c]) = fold em4100_column_bit [0..<c] ?e" if "c \<le> 4" for c
    using that
  proof (induction c)
    case (Suc c)
    have "em4100_column_bit c (shift_bits ?e (map ?col [0..<c])) = shift_bits (shift_bits ?e (map ?col [0..<c])) [?col c]"
      by (rule column_bit_value [where h = "0x1FF" and cs = "map ?col [0..<c]"])
        (use assms Suc.prems em_rows_lengths in \<open>simp_all add: shift_bits_append\<close>)
    then show ?case using Suc by (simp add: shift_bits_append)
  qed simp
  from this [of 4] have "fold em4100_column_bit [0..<4] ?e = shift_bits ?e (em_columns ?rows)" by (simp add: em_columns_def)
  moreover have "shift_bits (0 :: u64) (replicate 9 True) = 0x1FF" by (simp add: numeral_eq_Suc)
  ultimately show ?thesis
    unfolding em4100_frame_def em_frame_bits_def em_numbers Let_def assms [symmetric] write_rows
    by (simp add: shift_bits_append)
qed

section \<open>Decoding a frame\<close>

definition frame_row :: "u64 \<Rightarrow> nat \<Rightarrow> bool list" where
  "frame_row w r = map (\<lambda>k. bit w (54 - 5 * r - k)) [0..<5]"

lemma decode_row_bits:
  assumes "k \<le> 59"
  shows "fold em4100_decode_bit [0..<5] (push_bit k w, 0) =
    (push_bit (k + 5) w, shift_bits 0 [bit w (63 - k), bit w (62 - k), bit w (61 - k), bit w (60 - k)])"
proof -
  have "[0..<5] = [0, 1, 2, 3, 4 :: nat]" by (simp add: upt_rec)
  then show ?thesis
    using assms by (simp add: em4100_decode_bit_def bit_push_bit_iff numeral_eq_Suc)
qed

definition frame_byte :: "u64 \<Rightarrow> nat \<Rightarrow> u8" where
  "frame_byte w i = shift_bits 0 (take 4 (frame_row w (2 * i)) @ take 4 (frame_row w (2 * i + 1)))"

lemma take_frame_row:
  "take 4 (frame_row w r) = [bit w (54 - 5 * r), bit w (53 - 5 * r), bit w (52 - 5 * r), bit w (51 - 5 * r)]"
proof -
  have "[0..<4] = [0, 1, 2, 3 :: nat]" by (simp add: upt_rec)
  then show ?thesis by (simp add: frame_row_def take_map take_upt diff_commute)
qed

lemma decode_row_pair:
  assumes "r < 9" "even r"
  shows "em4100_decode_row (Suc r) (em4100_decode_row r (push_bit (9 + 5 * r) w, 0, idx, out)) =
    (push_bit (9 + 5 * (r + 2)) w, 0, idx + 1, out[idx := out ! idx OR frame_byte w (r div 2)])"
proof -
  have k: "63 - (9 + 5 * r) = 54 - 5 * r" "62 - (9 + 5 * r) = 53 - 5 * r" "61 - (9 + 5 * r) = 52 - 5 * r" "60 - (9 + 5 * r) = 51 - 5 * r"
    for r :: nat by simp_all
  have d: "fold em4100_decode_bit [0..<5] (push_bit (9 + 5 * q) w, 0) = (push_bit (9 + 5 * Suc q) w, shift_bits 0 (take 4 (frame_row w q)))"
    if "q < 10" for q
    using decode_row_bits [of "9 + 5 * q" w] that unfolding k take_frame_row by (simp add: algebra_simps)
  have b: "frame_byte w (r div 2) = push_bit 4 (shift_bits 0 (take 4 (frame_row w r))) OR shift_bits 0 (take 4 (frame_row w (Suc r)))"
    using assms(2) shift_bits_0 [of "shift_bits (0 :: u8) (take 4 (frame_row w r))" "take 4 (frame_row w (Suc r))"]
    unfolding frame_byte_def shift_bits_append by (simp add: frame_row_def)
  show ?thesis
    using assms unfolding em4100_decode_row_def prod.case d [of r, OF order.strict_trans [OF assms(1)], simplified] Let_def
    by (simp add: d [of "Suc r", simplified] b mod_2_eq_odd)
qed

lemma decode_bytes: "em4100_decode w = map (frame_byte w) [0..<5]"
proof -
  have "fold em4100_decode_row [0..<2 * n] (push_bit 9 w, 0, 0, replicate 5 0) =
      (push_bit (9 + 5 * (2 * n)) w, 0, n, map (frame_byte w) [0..<n] @ replicate (5 - n) 0)" if "n \<le> 5" for n
    using that
  proof (induction n)
    case (Suc n)
    let ?out = "map (frame_byte w) [0..<n] @ replicate (5 - n) 0"
    have "?out[n := ?out ! n OR frame_byte w n] = map (frame_byte w) [0..<Suc n] @ replicate (5 - Suc n) 0"
      using Suc.prems by (simp add: nth_append list_update_append Suc_diff_le [of n 4, simplified])
    then show ?case
      using Suc decode_row_pair [of "2 * n" w n ?out] by simp
  qed simp
  from this [of 5] have "fold em4100_decode_row [0..<10] (push_bit 9 w, 0, 0, replicate 5 0) =
      (push_bit (9 + 5 * 10) w, 0, 5, map (frame_byte w) [0..<5])" by simp
  moreover have "((\<lambda>w. push_bit 1 w) ^^ 9) w = push_bit 9 w" by (simp add: numeral_eq_Suc)
  ultimately show ?thesis by (simp add: em4100_decode_def em_numbers)
qed

lemma mask_bits: "(w :: u64) AND m = m' \<longleftrightarrow> (\<forall>j<64. (bit w j \<and> bit m j) = bit m' j)"
  by (auto simp: bit_eq_iff bit_and_iff)

lemma bit_0x1FF: "bit (0x1FF :: u64) j \<longleftrightarrow> j < 9"
proof -
  have "(0x1FF :: u64) = mask 9" by (simp add: mask_eq_exp_minus_1)
  then show ?thesis by (simp only: bit_mask_iff) auto
qed

lemma header_stop_bits:
  "w AND EM_HEADER_AND_STOP_MASK = EM_HEADER_AND_STOP_DATA \<longleftrightarrow> (\<forall>k<9. bit w (63 - k)) \<and> \<not> bit w 0"
proof -
  have m: "bit EM_HEADER_AND_STOP_MASK j \<longleftrightarrow> 55 \<le> j \<and> j < 64 \<or> j = 0" "bit EM_HEADER_AND_STOP_DATA j \<longleftrightarrow> 55 \<le> j \<and> j < 64" for j
    unfolding em_numbers bit_or_iff bit_push_bit_iff bit_0x1FF by (auto simp: bit_1_iff)
  have "(\<forall>k<9. bit w (63 - k)) \<longleftrightarrow> (\<forall>j. 55 \<le> j \<and> j < 64 \<longrightarrow> bit w j)"
  proof (intro iffI allI impI)
    fix j :: nat assume a: "\<forall>k<9. bit w (63 - k)" "55 \<le> j \<and> j < 64"
    then have "63 - j < 9" "63 - (63 - j) = j" by arith+
    then show "bit w j" using a(1) [rule_format, of "63 - j"] by simp
  next
    fix k :: nat assume a: "\<forall>j. 55 \<le> j \<and> j < 64 \<longrightarrow> bit w j" "k < 9"
    then have "55 \<le> 63 - k \<and> 63 - k < 64" by arith
    then show "bit w (63 - k)" using a(1) by blast
  qed
  moreover have "(\<forall>j<64. (bit w j \<and> (55 \<le> j \<and> j < 64 \<or> j = 0)) = (55 \<le> j \<and> j < 64)) \<longleftrightarrow>
      (\<forall>j. 55 \<le> j \<and> j < 64 \<longrightarrow> bit w j) \<and> \<not> bit w 0" (is "?l \<longleftrightarrow> ?r")
  proof
    assume a: ?l
    from a [rule_format, of 0] have "\<not> bit w 0" by simp
    moreover have "bit w j" if "55 \<le> j \<and> j < 64" for j using a [rule_format, of j] that by simp
    ultimately show ?r by blast
  qed auto
  ultimately show ?thesis unfolding mask_bits m by simp
qed

lemma epilogue_bits: "e AND EM_EPILOGUE_HEADER = EM_EPILOGUE_HEADER \<longleftrightarrow> (\<forall>k<9. bit e k)"
proof -
  have "(\<forall>j<64::nat. (bit e j \<and> j < 9) = (j < 9)) \<longleftrightarrow> (\<forall>k<9. bit e k)"
  proof (intro iffI allI impI)
    fix k :: nat assume a: "\<forall>j<64. (bit e j \<and> j < 9) = (j < 9)" "k < 9"
    then show "bit e k" using a(1) [rule_format, of k] by simp
  qed auto
  then show ?thesis unfolding mask_bits EM_EPILOGUE_HEADER_def bit_0x1FF .
qed

lemma row_parity_bits:
  assumes "i < 10"
  shows "em4100_row_parity_sum w i mod 2 = 0 \<longleftrightarrow> \<not> parity (frame_row w i)"
proof -
  have "map (\<lambda>j. bit w (50 - i * 5 + j)) [0..<5] = rev (frame_row w i)"
    using assms by (intro nth_equalityI) (auto simp: frame_row_def rev_nth intro!: arg_cong [of _ _ "bit w"])
  then show ?thesis unfolding em4100_row_parity_sum_def bit_sum em_numbers by (simp add: count_mod_2 flip: parity_def)
qed

lemma column_parity_bits:
  assumes "c < 4"
  shows "em4100_column_parity_sum w c mod 2 = 0 \<longleftrightarrow> bit w (4 - c) = parity (map (\<lambda>r. frame_row w r ! c) [0..<10])"
proof -
  have "[0..<11] = 0 # [1..<11::nat]" by (simp add: upt_rec)
  then have "map (\<lambda>j. bit w (4 - c + j * 5)) [0..<11] = bit w (4 - c) # map (\<lambda>j. bit w (4 - c + j * 5)) [1..<11]" by simp
  moreover have "map (\<lambda>j. bit w (4 - c + j * 5)) [1..<11] = rev (map (\<lambda>r. frame_row w r ! c) [0..<10])"
    using assms by (intro nth_equalityI) (auto simp: frame_row_def rev_nth intro!: arg_cong [of _ _ "bit w"])
  ultimately have "parity (map (\<lambda>j. bit w (4 - c + j * 5)) [0..<11]) = (bit w (4 - c) \<noteq> parity (map (\<lambda>r. frame_row w r ! c) [0..<10]))"
    by (simp only: parity_simps parity_rev)
  then show ?thesis unfolding em4100_column_parity_sum_def bit_sum em_numbers by (simp add: count_mod_2 flip: parity_def)
qed

definition frame_ok :: "u64 \<Rightarrow> bool" where
  "frame_ok w \<longleftrightarrow> (\<forall>k<9. bit w (63 - k)) \<and> \<not> bit w 0 \<and> (\<forall>r<10. \<not> parity (frame_row w r)) \<and>
     (\<forall>c<4. bit w (4 - c) = parity (map (\<lambda>r. frame_row w r ! c) [0..<10]))"

lemma can_be_decoded_bits: "em4100_can_be_decoded w e \<longleftrightarrow> (\<forall>k<9. bit e k) \<and> frame_ok w"
  unfolding em4100_can_be_decoded_def epilogue_bits header_stop_bits list_all_length frame_ok_def
  by (auto simp: em_numbers row_parity_bits column_parity_bits)

section \<open>Accepted frames are the encoded ones\<close>

lemma length_frame_bits: "length d = 5 \<Longrightarrow> length (em_frame_bits d) = 64"
  using length_concat_rows [of "em_rows d"] em_rows_lengths by (simp add: em_frame_bits_def em_columns_def)

lemma bit_frame: "length d = 5 \<Longrightarrow> k < 64 \<Longrightarrow> bit (em4100_frame d) (63 - k) = em_frame_bits d ! k"
proof -
  assume a: "length d = 5" "k < 64"
  then have "63 - k < 64" "64 - 1 - (63 - k) = k" by arith+
  then show ?thesis using a(1) by (simp add: frame_bits_word bit_shift_bits length_frame_bits)
qed

lemma em_rows_nth:
  "i < length d \<Longrightarrow> em_rows d ! (2 * i) = em_row (d ! i) 4" "i < length d \<Longrightarrow> em_rows d ! (2 * i + 1) = em_row (d ! i) 0"
proof (induction d arbitrary: i)
  case (Cons b d)
  {
    case 1
    then show ?case using Cons.IH(1) [of "i - 1"] by (cases i) (simp_all add: em_rows_def)
  next
    case 2
    then show ?case using Cons.IH(2) [of "i - 1"] by (cases i) (simp_all add: em_rows_def)
  }
qed simp_all

lemma frame_rows_of_data:
  assumes "length d = 5" "r < 10"
  shows "frame_row (em4100_frame d) r = em_rows d ! r"
proof (rule nth_equalityI)
  have l: "length (concat (em_rows d)) = 50" using length_concat_rows [of "em_rows d"] em_rows_lengths assms(1) by simp
  have "em_rows d ! r \<in> set (em_rows d)" using assms by (intro nth_mem) simp
  then show "length (frame_row (em4100_frame d) r) = length (em_rows d ! r)"
    using em_rows_lengths by (simp add: frame_row_def)
  fix k assume "k < length (frame_row (em4100_frame d) r)"
  then have k: "k < 5" by (simp add: frame_row_def)
  have "frame_row (em4100_frame d) r ! k = em_frame_bits d ! (9 + (5 * r + k))"
    using bit_frame [OF assms(1), of "9 + (5 * r + k)"] k assms(2) by (simp add: frame_row_def)
  also have "\<dots> = concat (em_rows d) ! (5 * r + k)" using k assms(2) l by (simp add: em_frame_bits_def nth_append)
  also have "\<dots> = em_rows d ! r ! k" using nth_concat_rows [of "em_rows d" r k] em_rows_lengths assms k by simp
  finally show "frame_row (em4100_frame d) r ! k = em_rows d ! r ! k" .
qed

lemma take_em_row: "take 4 (em_row b s) = map (bit b) (rev [s..<s + 4])"
  by (simp add: em_row_def Let_def)

lemma decode_frame:
  assumes "length d = 5"
  shows "em4100_decode (em4100_frame d) = d"
proof -
  have "rev [0..<8] = rev [4..<4 + 4] @ rev [0..<0 + 4 :: nat]" by (simp add: upt_rec)
  then have "frame_byte (em4100_frame d) i = d ! i" if "i < 5" for i
    using that assms shift_bits_of_bits [of "d ! i"]
    by (simp add: frame_byte_def frame_rows_of_data em_rows_nth [simplified] take_em_row)
  then show ?thesis unfolding decode_bytes using assms by (intro nth_equalityI) simp_all
qed

lemma frame_is_ok:
  assumes "length d = 5"
  shows "frame_ok (em4100_frame d)"
proof -
  have l: "length (concat (em_rows d)) = 50" using length_concat_rows [of "em_rows d"] em_rows_lengths assms by simp
  have "bit (em4100_frame d) (63 - k)" if "k < 9" for k
    using bit_frame [OF assms, of k] that by (simp add: em_frame_bits_def nth_append)
  moreover have "\<not> bit (em4100_frame d) 0"
    using bit_frame [OF assms, of 63] l by (simp add: em_frame_bits_def nth_append em_columns_def)
  moreover have "\<not> parity (em_rows d ! r)" if "r < 10" for r
  proof -
    have "em_rows d ! r \<in> set (em_rows d)" using that assms by (intro nth_mem) simp
    then show ?thesis by (auto simp: em_rows_def em_row_def Let_def)
  qed
  moreover have "bit (em4100_frame d) (4 - c) = parity (map (\<lambda>r. em_rows d ! r ! c) [0..<10])" if "c < 4" for c
  proof -
    have "map (\<lambda>r. r ! c) (em_rows d) = map (\<lambda>r. em_rows d ! r ! c) [0..<10]"
      using assms by (intro nth_equalityI) simp_all
    then show ?thesis
      using bit_frame [OF assms, of "59 + c"] that l by (simp add: em_frame_bits_def nth_append em_columns_def)
  qed
  moreover have m: "map (\<lambda>r. frame_row (em4100_frame d) r ! c) [0..<10] = map (\<lambda>r. em_rows d ! r ! c) [0..<10]" for c
    using assms by (intro map_cong) (simp_all add: frame_rows_of_data)
  ultimately show ?thesis unfolding frame_ok_def m using frame_rows_of_data [OF assms] by auto
qed

lemma ok_frame_rows:
  assumes "frame_ok w"
  shows "em_rows (em4100_decode w) = map (frame_row w) [0..<10]"
proof (rule nth_equalityI)
  show "length (em_rows (em4100_decode w)) = length (map (frame_row w) [0..<10])" by (simp add: decode_bytes)
  fix r assume "r < length (em_rows (em4100_decode w))"
  then have r: "r < 10" by (simp add: decode_bytes)
  let ?b = "frame_byte w (r div 2)" and ?s = "if even r then 4 else 0 :: nat"
  have l: "length (take 4 (frame_row w q)) = 4" for q by (simp add: frame_row_def)
  have "map (bit ?b) (rev [0..<8]) = take 4 (frame_row w (2 * (r div 2))) @ take 4 (frame_row w (2 * (r div 2) + 1))"
    using bits_of_shift_bits [of "take 4 (frame_row w (2 * (r div 2))) @ take 4 (frame_row w (2 * (r div 2) + 1))", where 'a = 8] l
    by (simp add: frame_byte_def)
  moreover have "rev [0..<8] = rev [4..<4 + 4] @ rev [0..<0 + 4 :: nat]" by (simp add: upt_rec)
  ultimately have eq: "map (bit ?b) (rev [4..<4 + 4]) @ map (bit ?b) (rev [0..<0 + 4]) =
      take 4 (frame_row w (2 * (r div 2))) @ take 4 (frame_row w (2 * (r div 2) + 1))"
    by (simp only: map_append)
  have "map (bit ?b) (rev [4..<4 + 4]) = take 4 (frame_row w (2 * (r div 2))) \<and>
      map (bit ?b) (rev [0..<0 + 4]) = take 4 (frame_row w (2 * (r div 2) + 1))"
    by (rule append_eq_append_conv [THEN iffD1, OF _ eq]) (simp only: l length_map length_rev length_upt, simp)
  then have bits: "map (bit ?b) (rev [?s..<?s + 4]) = take 4 (frame_row w r)"
    by (cases "even r") simp_all
  have "frame_row w r = take 4 (frame_row w r) @ [frame_row w r ! 4]"
    using take_Suc_conv_app_nth [of 4 "frame_row w r"] by (simp add: frame_row_def)
  moreover from this have "frame_row w r ! 4 = parity (take 4 (frame_row w r))"
    using assms r parity_append [of "take 4 (frame_row w r)" "[frame_row w r ! 4]"] by (auto simp: frame_ok_def)
  ultimately have "frame_row w r = em_row ?b ?s" unfolding em_row_def bits Let_def by simp
  moreover have "em_rows (em4100_decode w) ! r = em_row ?b ?s"
    using em_rows_nth [of "r div 2" "em4100_decode w"] r by (cases "even r") (auto simp: decode_bytes elim!: evenE oddE)
  ultimately show "em_rows (em4100_decode w) ! r = map (frame_row w) [0..<10] ! r" using r by simp
qed

lemma ok_frame_bits:
  assumes "frame_ok w" "k < 64"
  shows "em_frame_bits (em4100_decode w) ! k = bit w (63 - k)"
proof -
  let ?rows = "map (frame_row w) [0..<10]"
  have rows: "length r = 5" if "r \<in> set ?rows" for r using that by (auto simp: frame_row_def)
  have l: "length (concat ?rows) = 50" using length_concat_rows [of ?rows] rows by simp
  note e = em_frame_bits_def ok_frame_rows [OF assms(1)]
  consider "k < 9" | "9 \<le> k" "k < 59" | "59 \<le> k" "k < 63" | "k = 63" using assms(2) by arith
  then show ?thesis
  proof cases
    case 1
    then show ?thesis using assms(1) unfolding e by (simp add: nth_append frame_ok_def)
  next
    case 2
    define q m where "q = (k - 9) div 5" and "m = (k - 9) mod 5"
    have k: "k - 9 = 5 * q + m" "m < 5" by (simp_all add: q_def m_def)
    have "q < 10" "5 * q + m < 50" using 2 k by arith+
    have "(replicate 9 True @ concat ?rows @ em_columns ?rows @ [False]) ! k = concat ?rows ! (5 * q + m)"
      using 2 l k(1) \<open>5 * q + m < 50\<close> by (simp add: nth_append)
    also have "\<dots> = frame_row w q ! m" using nth_concat_rows [of ?rows q m] rows k(2) \<open>q < 10\<close> by simp
    also have "\<dots> = bit w (54 - 5 * q - m)" using k(2) by (simp add: frame_row_def)
    also have "54 - 5 * q - m = 63 - k" using 2 k(1) by arith
    finally show ?thesis unfolding e .
  next
    case 3
    then obtain c where c: "k = 59 + c" "c < 4" by (metis add_less_cancel_left le_Suc_ex numeral_plus_numeral add_num_simps)
    have "(replicate 9 True @ concat ?rows @ em_columns ?rows @ [False]) ! k = em_columns ?rows ! c"
      using l c by (simp add: nth_append em_columns_def)
    also have "\<dots> = parity (map (\<lambda>r. frame_row w r ! c) [0..<10])" using c(2) by (simp add: em_columns_def comp_def)
    also have "\<dots> = bit w (63 - k)" using assms(1) c by (simp add: frame_ok_def)
    finally show ?thesis unfolding e .
  next
    case 4
    then show ?thesis using assms(1) l unfolding e by (simp add: nth_append em_columns_def frame_ok_def)
  qed
qed

lemma frame_of_ok:
  assumes "frame_ok w"
  shows "em4100_frame (em4100_decode w) = w"
proof (rule bit_word_eqI)
  fix n assume "n < LENGTH(64)"
  then have "63 - n < 64" "63 - (63 - n) = n" by (simp_all add: less_Suc_eq_le)
  then show "bit (em4100_frame (em4100_decode w)) n = bit w n"
    using bit_frame [of "em4100_decode w" "63 - n"] ok_frame_bits [OF assms, of "63 - n"] by (simp add: decode_bytes)
qed

text \<open>
  C37 (equivalence): the frame check of the reader accepts exactly the frames the encoder builds (followed by the header of the
  next frame), and decoding the frame of a card number gives the number: no damaged or foreign 64 bits pass.
\<close>

theorem em4100_frames_exact:
  assumes "length d = 5"
  shows "em4100_decode (em4100_frame d) = d \<and>
    (em4100_can_be_decoded w e \<longleftrightarrow> (\<forall>k<9. bit e k) \<and> w = em4100_frame (em4100_decode w))"
proof -
  have "length (em4100_decode w) = 5" by (simp add: decode_bytes)
  then have "frame_ok w \<longleftrightarrow> w = em4100_frame (em4100_decode w)"
    using frame_of_ok [of w] frame_is_ok [of "em4100_decode w"] by auto
  then show ?thesis using decode_frame [OF assms] by (simp add: can_be_decoded_bits)
qed

theorem em4100_frames_exact_witness: "em4100_decode (em4100_frame [0x12, 0x34, 0x56, 0x78, 0x9A]) = [0x12, 0x34, 0x56, 0x78, 0x9A]"
  using em4100_frames_exact [of "[0x12, 0x34, 0x56, 0x78, 0x9A]"] by simp

end
