(* ===== verification/Lfrfid_Em4100_Signal.thy ===== *)
theory Lfrfid_Em4100_Signal
  imports Lfrfid_Em4100
begin

text \<open>
  An EM4100 card on the air: the half-bits the emulator yields, as the reader sees them, and what is written to a
  rewritable card (\<^verbatim>\<open>protocol_em4100_write_data\<close>). The four members of the write request share memory in C; each
  branch writes one of them only, so they are separate fields here.
\<close>

section \<open>Writing a card\<close>

datatype LFRFIDWriteType =
  LFRFIDWriteTypeT5577 | LFRFIDWriteTypeEM4305 | LFRFIDWriteTypeHitagMicro | LFRFIDWriteTypeHitagS | LFRFIDWriteTypeMax

record LFRFIDWriteRequest =
  write_type :: LFRFIDWriteType
  t5577_block :: "u32 list"
  t5577_blocks_to_write :: u32
  em4305_word :: "u32 list"
  em4305_mask :: u16
  hitagmicro_block0 :: "u8 list"
  hitagmicro_block1 :: "u8 list"
  hitagmicro_config :: "u8 list"
  hitags_page4 :: "u8 list"
  hitags_page5 :: "u8 list"

definition LFRFID_T5577_MODULATION_MANCHESTER :: u32 where "LFRFID_T5577_MODULATION_MANCHESTER = 0x00008000"
definition LFRFID_T5577_MAXBLOCK_SHIFT :: nat where "LFRFID_T5577_MAXBLOCK_SHIFT = 5"
definition EM4x05_MODULATION_MANCHESTER :: u32 where "EM4x05_MODULATION_MANCHESTER = 0x00000040"
definition EM4x05_MAXBLOCK_SHIFT :: nat where "EM4x05_MAXBLOCK_SHIFT = 14"

definition protocol_em4100_split_frame :: "u64 \<Rightarrow> u8 list \<Rightarrow> u8 list \<Rightarrow> (u8 list \<times> u8 list) option" where
  "protocol_em4100_split_frame frame high low =
     (case bit_lib_num_to_bytes_be (drop_bit 32 frame) 4 high of
        None \<Rightarrow> None
      | Some high \<Rightarrow> (case bit_lib_num_to_bytes_be frame 4 low of None \<Rightarrow> None | Some low \<Rightarrow> Some (high, low)))"

text \<open>The result of the C function, the protocol and the request; \<open>None\<close> is a failed check.\<close>

definition protocol_em4100_write_data ::
  "ProtocolEM4100 \<Rightarrow> LFRFIDWriteRequest \<Rightarrow> (bool \<times> ProtocolEM4100 \<times> LFRFIDWriteRequest) option" where
  "protocol_em4100_write_data protocol request =
     (let protocol = protocol_em4100_encoder_start protocol;
          protocol = protocol\<lparr>em_data := em4100_decode (encoded_data protocol)\<rparr>;
          protocol = protocol_em4100_encoder_start protocol;
          frame = encoded_data protocol
      in case write_type request of
           LFRFIDWriteTypeT5577 \<Rightarrow>
             Some (True, protocol, request\<lparr>t5577_block := (t5577_block request)
               [0 := LFRFID_T5577_MODULATION_MANCHESTER OR protocol_em4100_get_t5577_bitrate protocol OR push_bit LFRFID_T5577_MAXBLOCK_SHIFT 2,
                1 := ucast (drop_bit 32 frame), 2 := ucast frame],
               t5577_blocks_to_write := 3\<rparr>)
         | LFRFIDWriteTypeEM4305 \<Rightarrow>
             (let reversed = fold (\<lambda>i r. push_bit 1 r OR (drop_bit i frame AND 1)) [0..<64] 0 in
              Some (True, protocol, request\<lparr>em4305_word := (em4305_word request)
                [4 := EM4x05_MODULATION_MANCHESTER OR protocol_em4100_get_em4305_bitrate protocol OR push_bit EM4x05_MAXBLOCK_SHIFT 6,
                 5 := ucast reversed, 6 := ucast (drop_bit 32 reversed)],
                em4305_mask := 0x70\<rparr>))
         | LFRFIDWriteTypeHitagMicro \<Rightarrow>
             (case protocol_em4100_split_frame frame (hitagmicro_block0 request) (hitagmicro_block1 request) of
                None \<Rightarrow> None
              | Some (high, low) \<Rightarrow>
                  let config_byte0 = (if clock_per_bit protocol = 32 then 0x85 else if clock_per_bit protocol = 16 then 0x45 else 0x05)
                  in Some (True, protocol, request\<lparr>hitagmicro_block0 := high, hitagmicro_block1 := low,
                       hitagmicro_config := (hitagmicro_config request)[0 := config_byte0, 1 := 0, 2 := 0, 3 := 0]\<rparr>))
         | LFRFIDWriteTypeHitagS \<Rightarrow>
             if clock_per_bit protocol = 64 then
               (case protocol_em4100_split_frame frame (hitags_page4 request) (hitags_page5 request) of
                  None \<Rightarrow> None
                | Some (high, low) \<Rightarrow> Some (True, protocol, request\<lparr>hitags_page4 := high, hitags_page5 := low\<rparr>))
             else Some (False, protocol, request)
         | LFRFIDWriteTypeMax \<Rightarrow> Some (False, protocol, request))"

section \<open>The signal\<close>

fun em_yields :: "nat \<Rightarrow> ProtocolEM4100 \<Rightarrow> LevelDuration list" where
  "em_yields 0 proto = []"
| "em_yields (Suc n) proto = (let (ld, proto) = protocol_em4100_encoder_yield proto in ld # em_yields n proto)"

text \<open>A yield lasts its duration in periods of the 125 kHz carrier, 8 microseconds each.\<close>

definition on_air :: "LevelDuration list \<Rightarrow> (bool \<times> u32) list" where
  "on_air lds = map (\<lambda>ld. (level_duration_get_level ld, level_duration_get_duration ld * 8)) lds"

text \<open>The reader sees the completed runs of equal level.\<close>

fun runs :: "bool \<Rightarrow> u32 \<Rightarrow> (bool \<times> u32) list \<Rightarrow> (bool \<times> u32) list" where
  "runs l t [] = []"
| "runs l t ((l', t') # xs) = (if l' = l then runs l (t + t') xs else (l, t) # runs l' t' xs)"

definition edges :: "(bool \<times> u32) list \<Rightarrow> (bool \<times> u32) list" where
  "edges xs = (case xs of [] \<Rightarrow> [] | (l, t) # xs \<Rightarrow> runs l t xs)"

text \<open>The result of the last edge, and the reader after it.\<close>

definition em_run :: "(bool \<times> u32) list \<Rightarrow> ProtocolEM4100 \<Rightarrow> bool \<times> ProtocolEM4100" where
  "em_run es proto = fold (\<lambda>(l, t) (_, proto). protocol_em4100_decoder_feed proto l t) es (False, proto)"

definition half_bits :: "u32 \<Rightarrow> bool list \<Rightarrow> (bool \<times> u32) list" where
  "half_bits h bs = concat (map (\<lambda>b. [(b, h), (\<not> b, h)]) bs)"

fun line_edges :: "u32 \<Rightarrow> bool \<Rightarrow> bool list \<Rightarrow> (bool \<times> u32) list" where
  "line_edges h b [] = []"
| "line_edges h b (c # cs) = (if c = b then [(\<not> b, h), (c, h)] else [(c, h + h)]) @ line_edges h c cs"

lemma runs_half_bits: "runs (\<not> b) h (half_bits h cs) = line_edges h b cs"
proof (induction cs arbitrary: b)
  case (Cons c cs)
  show ?case using Cons.IH [of True] Cons.IH [of False] by (cases b; cases c) (simp_all add: half_bits_def)
qed (simp add: half_bits_def)

lemma edges_half_bits: "edges (half_bits h (c # cs)) = (c, h) # line_edges h c cs"
  using runs_half_bits [of c h cs] by (simp add: edges_def half_bits_def)

lemma line_edges_append: "line_edges h b (xs @ ys) = line_edges h b xs @ line_edges h (last (b # xs)) ys"
  by (induction xs arbitrary: b) auto

definition half_time :: "ProtocolEM4100 \<Rightarrow> u32" where
  "half_time proto = ucast (clock_per_bit proto div 2) * 8"

lemma event_of_half:
  assumes "clock_per_bit proto \<in> {16, 32, 64}"
  shows "em4100_event proto l (half_time proto) = event_of (\<not> l) False"
    "em4100_event proto l (half_time proto + half_time proto) = event_of (\<not> l) True"
  using assms
  by (auto simp: em4100_event_def half_time_def event_of_def protocol_em4100_get_short_time_low_def protocol_em4100_get_short_time_high_def
      protocol_em4100_get_long_time_low_def protocol_em4100_get_long_time_high_def protocol_em4100_get_time_divisor_def
      EM_READ_SHORT_TIME_BASE_def EM_READ_LONG_TIME_BASE_def EM_READ_JITTER_TIME_BASE_def)

lemma edges_events:
  assumes "clock_per_bit proto \<in> {16, 32, 64}"
  shows "map (\<lambda>(l, t). em4100_event proto l t) (line_edges (half_time proto) b cs) = line_events b cs"
  using event_of_half [OF assms] by (induction cs arbitrary: b) (auto simp: bit_events_def)

section \<open>The reader's register\<close>

definition reg_step :: "bool \<Rightarrow> u64 \<times> u64 \<Rightarrow> u64 \<times> u64" where
  "reg_step b = (\<lambda>(w, e). (push_bit 1 w OR of_bool (bit e 8), (push_bit 1 e OR of_bool b) AND EM_EPILOGUE_HEADER))"

definition registers :: "ProtocolEM4100 \<Rightarrow> u64 \<times> u64" where
  "registers proto = (encoded_data proto, encoded_epilogue proto)"

text \<open>The two registers are one shift register of 73 bits.\<close>

definition reg_bit :: "u64 \<times> u64 \<Rightarrow> nat \<Rightarrow> bool" where
  "reg_bit r j = (if j < 9 then bit (snd r) j else bit (fst r) (j - 9))"

lemma reg_bit_step: "reg_bit (reg_step b r) j \<longleftrightarrow> (if j = 0 then b else j < 73 \<and> reg_bit r (j - 1))"
proof -
  obtain w e where r: "r = (w, e)" by (cases r)
  have "reg_bit (reg_step b r) j \<longleftrightarrow> (if j < 9 then bit (push_bit 1 e OR of_bool b) j else bit (push_bit 1 w OR of_bool (bit e 8)) (j - 9))"
    unfolding r reg_bit_def reg_step_def prod.case fst_conv snd_conv EM_EPILOGUE_HEADER_def bit_and_iff bit_0x1FF by auto
  then show ?thesis
    unfolding bit_shift_in by (auto simp: r reg_bit_def)
qed

lemma reg_bit_fold:
  "j < 73 \<Longrightarrow> reg_bit (fold reg_step bs r) j \<longleftrightarrow> (if j < length bs then bs ! (length bs - 1 - j) else reg_bit r (j - length bs))"
proof (induction bs arbitrary: j rule: rev_induct)
  case (snoc b bs)
  then show ?case by (cases j) (auto simp: reg_bit_step nth_append)
qed simp

lemma registers_hold:
  assumes "length fb = 64" "w = shift_bits 0 fb"
  shows "\<exists>e. fold reg_step (os @ fb @ replicate 9 True) r = (w, e) \<and> (\<forall>k<9. bit e k)"
proof -
  let ?bs = "os @ fb @ replicate 9 True"
  define R where "R = fold reg_step ?bs r"
  have n: "length ?bs = length os + 73" using assms(1) by simp
  have "bit (fst R) j = bit w j" if "j < 64" for j
  proof -
    have "length ?bs - 1 - (j + 9) = length os + (63 - j)" "63 - j < 64" using n that by arith+
    then have "?bs ! (length ?bs - 1 - (j + 9)) = fb ! (63 - j)" using assms(1) by (simp add: nth_append)
    then show ?thesis
      using reg_bit_fold [of "j + 9" ?bs r, folded R_def] n that assms by (simp add: reg_bit_def bit_shift_bits)
  qed
  then have "fst R = w" by (intro bit_word_eqI) simp
  moreover have "bit (snd R) k" if "k < 9" for k
  proof -
    have "length ?bs - 1 - k = length os + (64 + (8 - k))" using n that by arith
    moreover have "8 - k < 9" by arith
    ultimately have "?bs ! (length ?bs - 1 - k) = True"
      using nth_append_length_plus [of os "fb @ replicate 9 True" "64 + (8 - k)"] nth_append_length_plus [of fb "replicate 9 True" "8 - k"] assms(1)
      by (simp only: nth_replicate)
    then show ?thesis using reg_bit_fold [of k ?bs r, folded R_def] n that by (simp add: reg_bit_def)
  qed
  ultimately show ?thesis unfolding R_def [symmetric] by (metis prod.collapse)
qed

lemma take_bit_registers: "registers (snd (em4100_take_bit b proto)) = reg_step b (registers proto)"
  "clock_per_bit (snd (em4100_take_bit b proto)) = clock_per_bit proto"
  "decoder_manchester_state (snd (em4100_take_bit b proto)) = decoder_manchester_state proto"
  by (simp_all add: em4100_take_bit_def reg_step_def registers_def Let_def)

lemma event_cases: "em4100_event proto l t \<noteq> ManchesterEventReset \<Longrightarrow>
  protocol_em4100_decoder_feed proto l t =
    (case manchester_advance (decoder_manchester_state proto) (em4100_event proto l t) of (d, state) \<Rightarrow>
       case d of None \<Rightarrow> (False, proto\<lparr>decoder_manchester_state := state\<rparr>)
       | Some b \<Rightarrow> em4100_take_bit b (proto\<lparr>decoder_manchester_state := state\<rparr>))"
  by (simp add: protocol_em4100_decoder_feed_def Let_def)

lemma event_clock: "clock_per_bit p = clock_per_bit q \<Longrightarrow> em4100_event p = em4100_event q"
  by (simp add: fun_eq_iff em4100_event_def protocol_em4100_get_short_time_low_def protocol_em4100_get_short_time_high_def
      protocol_em4100_get_long_time_low_def protocol_em4100_get_long_time_high_def protocol_em4100_get_time_divisor_def)

lemma run_registers:
  assumes "map (\<lambda>(l, t). em4100_event proto l t) es = evs" "ManchesterEventReset \<notin> set evs"
  shows "clock_per_bit (snd (em_run es proto)) = clock_per_bit proto \<and>
    decoder_manchester_state (snd (em_run es proto)) = snd (manchester_receive (decoder_manchester_state proto) evs) \<and>
    registers (snd (em_run es proto)) = fold reg_step (fst (manchester_receive (decoder_manchester_state proto) evs)) (registers proto)"
  using assms
proof (induction es arbitrary: evs rule: rev_induct)
  case Nil
  then show ?case by (simp add: em_run_def)
next
  case (snoc e es)
  obtain l t where e: "e = (l, t)" by (cases e)
  let ?q = "snd (em_run es proto)" let ?ev = "em4100_event proto l t"
  obtain evs' where evs: "evs = evs' @ [?ev]" "map (\<lambda>(l, t). em4100_event proto l t) es = evs'" using snoc.prems e by auto
  then have ih: "clock_per_bit ?q = clock_per_bit proto"
      "decoder_manchester_state ?q = snd (manchester_receive (decoder_manchester_state proto) evs')"
      "registers ?q = fold reg_step (fst (manchester_receive (decoder_manchester_state proto) evs')) (registers proto)"
    using snoc.IH [of evs'] snoc.prems(2) by auto
  have "em_run (es @ [e]) proto = protocol_em4100_decoder_feed ?q l t"
    by (simp add: em_run_def e case_prod_beta)
  also have "\<dots> = (case manchester_advance (decoder_manchester_state ?q) ?ev of (d, state) \<Rightarrow>
       case d of None \<Rightarrow> (False, ?q\<lparr>decoder_manchester_state := state\<rparr>)
       | Some b \<Rightarrow> em4100_take_bit b (?q\<lparr>decoder_manchester_state := state\<rparr>))"
    using event_cases [of ?q l t] event_clock [OF ih(1)] evs(1) snoc.prems(2) by auto
  finally show ?case
    unfolding evs(1) receive_append' using ih take_bit_registers
    by (auto simp: registers_def case_prod_beta split: option.splits prod.splits)
qed

section \<open>From the emulator to the reader\<close>

lemma yields_bits:
  assumes "encoded_polarity p" "encoded_data_index p < 64" "encoded_data p = w" "h = ucast (clock_per_bit p div 2)"
  shows "em_yields (2 * n) p = concat (map (\<lambda>k. let b = bit w (63 - (unat (encoded_data_index p) + k) mod 64)
    in [level_duration_make b h, level_duration_make (\<not> b) h]) [0..<n])"
  using assms
proof (induction n arbitrary: p)
  case (Suc n)
  let ?i = "encoded_data_index p"
  let ?q = "p\<lparr>encoded_polarity := True, encoded_data_index := (if 64 \<le> ?i + 1 then 0 else ?i + 1)\<rparr>"
  have i: "unat ?i < 64" using Suc.prems(2) by (simp add: word_less_nat_alt)
  then have i1: "unat (?i + 1) = unat ?i + 1" by (simp add: unat_word_ariths)
  have q: "unat (encoded_data_index ?q) = (unat ?i + 1) mod 64"
  proof (cases "unat ?i = 63")
    case True
    then show ?thesis using i1 by (simp add: word_le_nat_alt)
  next
    case False
    then have "unat ?i + 1 < 64" using i by arith
    then show ?thesis using i1 by (simp add: word_le_nat_alt)
  qed
  have y1: "em_yields (2 * Suc n) p = level_duration_make (bit w (63 - unat ?i)) h # level_duration_make (\<not> bit w (63 - unat ?i)) h # em_yields (2 * n) ?q"
    using Suc.prems by (simp add: protocol_em4100_encoder_yield_def Let_def)
  have "em_yields (2 * n) ?q = concat (map (\<lambda>k. let b = bit w (63 - (unat (encoded_data_index ?q) + k) mod 64)
      in [level_duration_make b h, level_duration_make (\<not> b) h]) [0..<n])"
  proof (rule Suc.IH)
    show "encoded_data_index ?q < 64" unfolding word_less_nat_alt q by simp
  qed (use Suc.prems in simp_all)
  also have "\<dots> = concat (map (\<lambda>k. let b = bit w (63 - (unat ?i + k) mod 64)
      in [level_duration_make b h, level_duration_make (\<not> b) h]) (map Suc [0..<n]))"
    unfolding q by (simp add: mod_simps comp_def)
  finally have y2: "em_yields (2 * n) ?q = concat (map (\<lambda>k. let b = bit w (63 - (unat ?i + k) mod 64)
      in [level_duration_make b h, level_duration_make (\<not> b) h]) (map Suc [0..<n]))" .
  have u: "[0..<Suc n] = 0 # map Suc [0..<n]" by (simp add: upt_conv_Cons map_Suc_upt del: upt_Suc)
  show ?case unfolding y1 y2 u using i by (simp add: Let_def)
qed simp

definition stream :: "u8 list \<Rightarrow> bool list" where
  "stream d = em_frame_bits d @ em_frame_bits d @ em_frame_bits d @ replicate 9 True"

lemma stream_nth:
  assumes "length d = 5" "k < 201"
  shows "stream d ! k = em_frame_bits d ! (k mod 64)"
proof -
  let ?f = "em_frame_bits d"
  have f: "length ?f = 64" by (rule length_frame_bits [OF assms(1)])
  have h: "?f ! j = True" if "j < 9" for j using that by (simp add: em_frame_bits_def nth_append)
  consider "k < 64" | "64 \<le> k" "k < 128" | "128 \<le> k" "k < 192" | "192 \<le> k" using assms(2) by arith
  then show ?thesis
  proof cases
    case 4
    then obtain j where j: "k = 192 + j" using le_Suc_ex by blast
    then have "j < 9" "k = j + 64 * 3" using assms(2) by simp_all
    then have "k mod 64 = j" by (simp only: mod_mult_self2) simp
    then show ?thesis using j f h [of j] assms(2) by (simp add: stream_def nth_append)
  qed (auto simp: stream_def nth_append f mod_if)
qed

lemma emulator_edges:
  assumes "length (em_data p) = 5" "clock_per_bit p \<in> {16, 32, 64}"
  shows "on_air (em_yields 402 (protocol_em4100_encoder_start p)) = half_bits (half_time p) (stream (em_data p))"
proof -
  let ?p = "protocol_em4100_encoder_start p" and ?h = "ucast (clock_per_bit p div 2) :: u32"
  let ?F = "\<lambda>b. [level_duration_make b ?h, level_duration_make (\<not> b) ?h]"
  let ?bits = "map (\<lambda>k. bit (em4100_frame (em_data p)) (63 - k mod 64)) [0..<201]"
  have "em_yields (2 * 201) ?p = concat (map (\<lambda>k. let b = bit (em4100_frame (em_data p)) (63 - (unat (encoded_data_index ?p) + k) mod 64)
      in ?F b) [0..<201])"
    by (rule yields_bits) (simp_all add: protocol_em4100_encoder_start_def)
  then have "em_yields 402 ?p = concat (map ?F ?bits)"
    by (simp add: protocol_em4100_encoder_start_def Let_def comp_def)
  also have "?bits = stream (em_data p)"
  proof (rule nth_equalityI)
    show "length ?bits = length (stream (em_data p))" using length_frame_bits [OF assms(1)] by (simp add: stream_def)
    show "?bits ! k = stream (em_data p) ! k" if "k < length ?bits" for k
      using bit_frame [OF assms(1), of "k mod 64"] stream_nth [OF assms(1), of k] that by simp
  qed
  finally have "em_yields 402 ?p = concat (map ?F (stream (em_data p)))" .
  moreover have "?h < 0x40000000" using assms(2) by auto
  then have "on_air (concat (map ?F bs)) = half_bits (half_time p) bs" for bs
    by (induction bs) (simp_all add: on_air_def half_bits_def half_time_def)
  ultimately show ?thesis by (simp only:)
qed

lemma stream_split:
  assumes "length d = 5"
  shows "\<exists>xs cs. stream d = (True # cs) @ [True] \<and> last (True # cs) = True \<and>
    True # cs = xs @ [False, True] @ tl (em_frame_bits d) @ em_frame_bits d @ replicate 8 True"
proof -
  let ?f = "em_frame_bits d"
  have "?f = replicate 9 True @ concat (em_rows d) @ em_columns (em_rows d) @ [False]" by (rule em_frame_bits_def)
  then obtain g where g: "?f = True # g @ [False]" by (simp add: numeral_eq_Suc)
  have "replicate 9 True = replicate 8 True @ [True]" by (simp add: numeral_eq_Suc)
  then have "stream d = (True # (g @ [False] @ ?f @ ?f @ replicate 8 True)) @ [True]" by (simp add: stream_def) (simp add: g)
  moreover have "last (True # g @ [False] @ ?f @ ?f @ replicate 8 True) = True" by (simp add: numeral_eq_Suc)
  moreover have "True # g @ [False] @ ?f @ ?f @ replicate 8 True = (True # g) @ [False, True] @ tl ?f @ ?f @ replicate 8 True"
    by (simp add: g)
  ultimately show ?thesis by blast
qed

text \<open>
  C10 (roundtrip): an emulated EM4100 card, at each of the three bit rates, is read: the half-bits that the emulator yields for
  three frames and the header of the fourth, seen by a reader that starts in any state, end with a report of
  exactly the card's five bytes.
\<close>

theorem em4100_signal_roundtrip:
  assumes "length (em_data p) = 5" "clock_per_bit p \<in> {16, 32, 64}" "clock_per_bit q = clock_per_bit p"
    "decoder_manchester_state q < 4"
  shows "\<exists>q'. em_run (edges (on_air (em_yields 402 (protocol_em4100_encoder_start p)))) q = (True, q') \<and>
    protocol_em4100_get_data q' = em_data p"
proof -
  let ?f = "em_frame_bits (em_data p)" and ?h = "half_time p"
  obtain xs cs where cs: "stream (em_data p) = (True # cs) @ [True]" "last (True # cs) = True"
      "True # cs = xs @ [False, True] @ tl ?f @ ?f @ replicate 8 True"
    using stream_split [OF assms(1)] by blast
  let ?es = "(True, ?h) # line_edges ?h True cs"
  have edges: "edges (on_air (em_yields 402 (protocol_em4100_encoder_start p))) = ?es @ [(False, ?h), (True, ?h)]"
    using emulator_edges [OF assms(1,2)] cs(2) line_edges_append [of ?h True cs "[True]"]
    by (simp add: cs(1) edges_half_bits)
  have hq: "half_time q = ?h" "clock_per_bit q \<in> {16, 32, 64}" using assms(2,3) by (simp_all add: half_time_def)
  let ?evs = "event_of False False # line_events True cs"
  have "map (\<lambda>(l, t). em4100_event q l t) ?es = ?evs"
    using edges_events [OF hq(2)] event_of_half(1) [OF hq(2), of True] hq(1) by simp
  moreover have "ManchesterEventReset \<notin> set (line_events b bs)" for b bs
    by (induction bs arbitrary: b) (auto simp: bit_events_def event_of_def manchester_numbers)
  ultimately have run: "clock_per_bit (snd (em_run ?es q)) = clock_per_bit q"
      "decoder_manchester_state (snd (em_run ?es q)) = snd (manchester_receive (decoder_manchester_state q) ?evs)"
      "registers (snd (em_run ?es q)) = fold reg_step (fst (manchester_receive (decoder_manchester_state q) ?evs)) (registers q)"
    using run_registers [of q ?es ?evs] by (auto simp: event_of_def manchester_numbers)
  obtain os where os: "manchester_receive (decoder_manchester_state q) ?evs = (os @ tl ?f @ ?f @ replicate 8 True, mid_state True)"
    using receive_after_change [OF assms(4) cs(3)] cs(2) by auto
  let ?q1 = "snd (em_run ?es q)" and ?w = "em4100_frame (em_data p)"
  let ?q2 = "?q1\<lparr>decoder_manchester_state := 1\<rparr>"
  have st: "decoder_manchester_state ?q1 = 1" using run(2) os by (simp add: mid_state_def manchester_numbers)
  have ev: "em4100_event ?q1 l ?h = event_of (\<not> l) False" for l
    using event_of_half(1) [OF hq(2)] event_clock [OF run(1)] hq(1) by simp
  then have "protocol_em4100_decoder_feed ?q1 False ?h = (False, ?q1\<lparr>decoder_manchester_state := 0\<rparr>)"
    using st by (simp add: protocol_em4100_decoder_feed_def event_of_def manchester_numbers advance_table Let_def del: One_nat_def)
  moreover have "em4100_event (?q1\<lparr>decoder_manchester_state := 0\<rparr>) True ?h = ManchesterEventShortLow"
    using ev [of True] event_clock [of "?q1\<lparr>decoder_manchester_state := 0\<rparr>" ?q1] by (simp add: event_of_def)
  then have "protocol_em4100_decoder_feed (?q1\<lparr>decoder_manchester_state := 0\<rparr>) True ?h = em4100_take_bit True ?q2"
    by (simp add: protocol_em4100_decoder_feed_def manchester_numbers advance_table Let_def del: One_nat_def)
  ultimately have last: "em_run (?es @ [(False, ?h), (True, ?h)]) q = em4100_take_bit True ?q2"
    by (simp add: em_run_def case_prod_beta)
  have "registers (snd (em4100_take_bit True ?q2)) = fold reg_step ((os @ tl ?f) @ ?f @ replicate 9 True) (registers q)"
    using run(3) os take_bit_registers(1) [of True ?q2] by (simp add: registers_def numeral_eq_Suc)
  moreover obtain e where "fold reg_step ((os @ tl ?f) @ ?f @ replicate 9 True) (registers q) = (?w, e)" "\<forall>k<9. bit e k"
    using registers_hold [OF length_frame_bits [OF assms(1)] frame_bits_word [OF assms(1)]] by blast
  ultimately have r: "registers (snd (em4100_take_bit True ?q2)) = (?w, e)" "em4100_can_be_decoded ?w e"
    using frame_is_ok [OF assms(1)] by (simp_all add: can_be_decoded_bits)
  then have "fst (em4100_take_bit True ?q2)" "em_data (snd (em4100_take_bit True ?q2)) = em_data p"
    using decode_frame [OF assms(1)] by (auto simp: em4100_take_bit_def registers_def Let_def split: if_splits)
  then show ?thesis unfolding edges last by (metis prod.collapse protocol_em4100_get_data_def)
qed

theorem em4100_signal_roundtrip_witness:
  "\<exists>q'. em_run (edges (on_air (em_yields 402 (protocol_em4100_encoder_start (protocol_em4100_32_alloc\<lparr>em_data := [1, 2, 3, 4, 5]\<rparr>)))))
       protocol_em4100_32_alloc = (True, q') \<and> protocol_em4100_get_data q' = [1, 2, 3, 4, 5]"
  using em4100_signal_roundtrip [of "protocol_em4100_32_alloc\<lparr>em_data := [1, 2, 3, 4, 5]\<rparr>" protocol_em4100_32_alloc]
  by (simp add: protocol_em4100_32_alloc_def em4100_alloc_with_def)

section \<open>Cards that are written\<close>

lemma split_64: "push_bit 32 (ucast (ucast (drop_bit 32 w) :: u32)) OR ucast (ucast w :: u32) = (w :: u64)"
  by (rule bit_word_eqI) (auto simp: bit_simps)

lemma reversed_bits:
  "fold (\<lambda>i r. push_bit 1 r OR (drop_bit i w AND 1)) [0..<64] (0 :: u64) = shift_bits 0 (map (bit w) [0..<64])"
proof -
  have "fold (\<lambda>i r. push_bit 1 r OR (drop_bit i w AND 1)) is r = shift_bits r (map (bit w) is)" for "is" and r :: u64
    by (induction "is" arbitrary: r) (simp_all add: and_one_bit)
  then show ?thesis .
qed

text \<open>
  Writing a card leaves the card number as it is. The two data blocks written to a T5577 are the frame that the
  reader accepts for this number; the two words written to an EM4305 hold the frame with its first bit lowest; a Hitag S is
  refused at every bit rate but RF/64, and then nothing of the request changes.
\<close>

theorem em4100_write_data:
  assumes "length (em_data p) = 5" "length (t5577_block r) = 8" "length (em4305_word r) = 16"
  shows "(write_type r = LFRFIDWriteTypeT5577 \<longrightarrow> (\<exists>p' r'. protocol_em4100_write_data p r = Some (True, p', r') \<and> em_data p' = em_data p \<and>
      (let w = push_bit 32 (ucast (t5577_block r' ! 1)) OR ucast (t5577_block r' ! 2)
       in em4100_can_be_decoded w EM_EPILOGUE_HEADER \<and> em4100_decode w = em_data p))) \<and>
    (write_type r = LFRFIDWriteTypeEM4305 \<longrightarrow> (\<exists>p' r'. protocol_em4100_write_data p r = Some (True, p', r') \<and> em_data p' = em_data p \<and>
      (\<forall>k<32. bit (em4305_word r' ! 5) k = bit (em4100_frame (em_data p)) (63 - k) \<and>
              bit (em4305_word r' ! 6) k = bit (em4100_frame (em_data p)) (31 - k)))) \<and>
    (write_type r = LFRFIDWriteTypeHitagS \<longrightarrow> clock_per_bit p \<noteq> 64 \<longrightarrow>
      (\<exists>p'. protocol_em4100_write_data p r = Some (False, p', r) \<and> em_data p' = em_data p))"
proof -
  note d = protocol_em4100_write_data_def Let_def protocol_em4100_encoder_start_def
  have f: "em4100_decode (em4100_frame (em_data p)) = em_data p" by (rule decode_frame [OF assms(1)])
  have ok: "em4100_can_be_decoded (em4100_frame (em_data p)) EM_EPILOGUE_HEADER"
    using frame_is_ok [OF assms(1)] by (simp only: can_be_decoded_bits EM_EPILOGUE_HEADER_def bit_0x1FF) simp
  have "bit (ucast (shift_bits (0 :: u64) (map (bit w) [0..<64])) :: u32) k = bit w (63 - k)"
    "bit (ucast (drop_bit 32 (shift_bits (0 :: u64) (map (bit w) [0..<64]))) :: u32) k = bit w (31 - k)" if "k < 32" for k and w :: u64
  proof -
    have "63 - k < 64" "64 - 1 - (32 + k) = 31 - k" "31 - k < 64" using that by arith+
    then show "bit (ucast (shift_bits (0 :: u64) (map (bit w) [0..<64])) :: u32) k = bit w (63 - k)"
      "bit (ucast (drop_bit 32 (shift_bits (0 :: u64) (map (bit w) [0..<64]))) :: u32) k = bit w (31 - k)"
      using that by (simp_all add: bit_ucast_iff bit_drop_bit_eq bit_shift_bits)
  qed
  then show ?thesis
    unfolding d reversed_bits using assms(2,3) f ok by (auto simp: split_64)
qed

theorem em4100_write_data_witness:
  "\<exists>p' r'. protocol_em4100_write_data (protocol_em4100_alloc\<lparr>em_data := [1, 2, 3, 4, 5]\<rparr>)
      \<lparr>write_type = LFRFIDWriteTypeT5577, t5577_block = replicate 8 0, t5577_blocks_to_write = 0, em4305_word = replicate 16 0, em4305_mask = 0,
       hitagmicro_block0 = [], hitagmicro_block1 = [], hitagmicro_config = [], hitags_page4 = [], hitags_page5 = []\<rparr> = Some (True, p', r') \<and>
    em_data p' = [1, 2, 3, 4, 5]"
  using em4100_write_data [of "protocol_em4100_alloc\<lparr>em_data := [1, 2, 3, 4, 5]\<rparr>"
      "\<lparr>write_type = LFRFIDWriteTypeT5577, t5577_block = replicate 8 0, t5577_blocks_to_write = 0, em4305_word = replicate 16 0, em4305_mask = 0,
       hitagmicro_block0 = [], hitagmicro_block1 = [], hitagmicro_config = [], hitags_page4 = [], hitags_page5 = []\<rparr>"]
  by auto

end
