(* ===== verification/Mf_Classic.thy ===== *)
theory Mf_Classic
  imports Bit_Lib Checked_Memory
begin

text \<open>
  The card image of MIFARE Classic (\<^verbatim>\<open>lib/nfc/protocols/mf_classic/mf_classic.c\<close>) and the ISO 14443-3A
  identification it contains (\<^verbatim>\<open>lib/nfc/protocols/iso14443_3a/iso14443_3a.c\<close>): the geometry of sectors and
  trailers, keys and read masks, value blocks and the access conditions.

  A block is the list of its 16 bytes; the array \<open>block\<close> has 256 of them, so every \<open>uint8_t\<close> is an index of
  it. A sector trailer is a block seen as key A (bytes 0 to 5), access bits (6 to 9) and key B (10 to 15); a
  routine that returns a pointer to a trailer returns its block number here. \<open>furi_check\<close> and \<open>furi_crash\<close>
  halt the device. An \<open>int32_t\<close> is its 32-bit pattern.
\<close>

section \<open>ISO 14443-3A data\<close>

record Iso14443_3aData =
  uid :: "u8 list"
  uid_len :: u8
  atqa :: "u8 list"
  sak :: u8

text \<open>The memory the allocator returns is zeroed.\<close>

definition iso14443_3a_alloc :: Iso14443_3aData where
  "iso14443_3a_alloc = \<lparr>uid = replicate 10 0, uid_len = 0, atqa = replicate 2 0, sak = 0\<rparr>"

definition iso14443_3a_reset :: "Iso14443_3aData \<Rightarrow> Iso14443_3aData" where
  "iso14443_3a_reset data = \<lparr>uid = replicate 10 0, uid_len = 0, atqa = replicate 2 0, sak = 0\<rparr>"

definition iso14443_3a_copy :: "Iso14443_3aData \<Rightarrow> Iso14443_3aData \<Rightarrow> Iso14443_3aData" where
  "iso14443_3a_copy data other = other"

definition iso14443_3a_is_equal :: "Iso14443_3aData \<Rightarrow> Iso14443_3aData \<Rightarrow> bool" where
  "iso14443_3a_is_equal data other = (data = other)"

definition iso14443_3a_set_uid :: "Iso14443_3aData \<Rightarrow> u8 list \<Rightarrow> nat \<Rightarrow> (bool \<times> Iso14443_3aData) checked" where
  "iso14443_3a_set_uid data new_uid n =
     (let uid_valid = (n = 4 \<or> n = 7 \<or> n = 10) in
      if uid_valid
      then checked_bind (mem_copy (uid data) 0 new_uid 0 n) (\<lambda>u. Inr (uid_valid, data\<lparr>uid := u, uid_len := of_nat n\<rparr>))
      else Inr (uid_valid, data))"

definition iso14443_3a_get_cuid :: "Iso14443_3aData \<Rightarrow> u32" where
  "iso14443_3a_get_cuid data =
     (let s = (if uid_len data = 7 then 3 else 0) in
      push_bit 24 (ucast (uid data ! s)) OR push_bit 16 (ucast (uid data ! (s + 1))) OR
      push_bit 8 (ucast (uid data ! (s + 2))) OR ucast (uid data ! (s + 3)))"

definition iso14443_3a_supports_iso14443_4 :: "Iso14443_3aData \<Rightarrow> bool" where
  "iso14443_3a_supports_iso14443_4 data = (sak data AND push_bit 5 1 \<noteq> 0)"

definition iso14443_3a_verify :: "Iso14443_3aData \<Rightarrow> string \<Rightarrow> bool" where
  "iso14443_3a_verify data device_type = (device_type = ''UID'')"

definition iso14443_3a_get_device_name :: "Iso14443_3aData \<Rightarrow> string" where
  "iso14443_3a_get_device_name data = ''ISO14443-3A (Unknown)''"

definition iso14443_3a_get_uid :: "Iso14443_3aData \<Rightarrow> u8 list \<times> nat" where
  "iso14443_3a_get_uid data = (uid data, unat (uid_len data))"

definition iso14443_3a_get_sak :: "Iso14443_3aData \<Rightarrow> u8" where
  "iso14443_3a_get_sak data = sak data"

definition iso14443_3a_get_atqa :: "Iso14443_3aData \<Rightarrow> u8 list \<Rightarrow> u8 list checked" where
  "iso14443_3a_get_atqa data a = mem_copy a 0 (atqa data) 0 2"

definition iso14443_3a_set_sak :: "Iso14443_3aData \<Rightarrow> u8 \<Rightarrow> Iso14443_3aData" where
  "iso14443_3a_set_sak data new_sak = data\<lparr>sak := new_sak\<rparr>"

definition iso14443_3a_set_atqa :: "Iso14443_3aData \<Rightarrow> u8 list \<Rightarrow> Iso14443_3aData checked" where
  "iso14443_3a_set_atqa data new_atqa = checked_bind (mem_copy (atqa data) 0 new_atqa 0 2) (\<lambda>a. Inr (data\<lparr>atqa := a\<rparr>))"

section \<open>The card image\<close>

datatype MfClassicType = MfClassicTypeMini | MfClassicType1k | MfClassicType4k | MfClassicType2k

datatype MfClassicAction =
    MfClassicActionDataRead | MfClassicActionDataWrite | MfClassicActionDataInc | MfClassicActionDataDec
  | MfClassicActionKeyARead | MfClassicActionKeyAWrite | MfClassicActionKeyBRead | MfClassicActionKeyBWrite
  | MfClassicActionACRead | MfClassicActionACWrite

datatype MfClassicKeyType = MfClassicKeyTypeA | MfClassicKeyTypeB

type_synonym MfClassicBlock = "u8 list"

record MfClassicData =
  iso14443_3a_data :: Iso14443_3aData
  mf_type :: MfClassicType
  block_read_mask :: "u32 list"
  key_a_mask :: u64
  key_b_mask :: u64
  block :: "MfClassicBlock list"

record MfClassicFeatures =
  sectors_total :: u8
  blocks_total :: u16
  full_name :: string
  type_name :: string

fun mf_classic_features :: "MfClassicType \<Rightarrow> MfClassicFeatures" where
  "mf_classic_features MfClassicTypeMini =
     \<lparr>sectors_total = 5, blocks_total = 20, full_name = ''Mifare Mini 0.3K'', type_name = ''MINI''\<rparr>"
| "mf_classic_features MfClassicType1k =
     \<lparr>sectors_total = 16, blocks_total = 64, full_name = ''Mifare Classic 1K'', type_name = ''1K''\<rparr>"
| "mf_classic_features MfClassicType4k =
     \<lparr>sectors_total = 40, blocks_total = 256, full_name = ''Mifare Classic 4K'', type_name = ''4K''\<rparr>"
| "mf_classic_features MfClassicType2k =
     \<lparr>sectors_total = 32, blocks_total = 128, full_name = ''Mifare Plus 2K (SL1)'', type_name = ''2K''\<rparr>"

text \<open>The type of a new image is the first of the enumeration.\<close>

definition mf_classic_alloc :: MfClassicData where
  "mf_classic_alloc = \<lparr>iso14443_3a_data = iso14443_3a_alloc, mf_type = MfClassicTypeMini,
     block_read_mask = replicate 8 0, key_a_mask = 0, key_b_mask = 0, block = replicate 256 (replicate 16 0)\<rparr>"

definition mf_classic_reset :: "MfClassicData \<Rightarrow> MfClassicData" where
  "mf_classic_reset data = data\<lparr>iso14443_3a_data := iso14443_3a_reset (iso14443_3a_data data)\<rparr>"

definition mf_classic_copy :: "MfClassicData \<Rightarrow> MfClassicData \<Rightarrow> MfClassicData" where
  "mf_classic_copy data other =
     data\<lparr>iso14443_3a_data := iso14443_3a_copy (iso14443_3a_data data) (iso14443_3a_data other),
          block := fold (\<lambda>i b. b[i := block other ! i]) [0..<256] (block data),
          block_read_mask := fold (\<lambda>i m. m[i := block_read_mask other ! i]) [0..<8] (block_read_mask data),
          mf_type := mf_type other, key_a_mask := key_a_mask other, key_b_mask := key_b_mask other\<rparr>"

definition mf_classic_is_equal :: "MfClassicData \<Rightarrow> MfClassicData \<Rightarrow> bool" where
  "mf_classic_is_equal data other \<longleftrightarrow>
     iso14443_3a_is_equal (iso14443_3a_data data) (iso14443_3a_data other) \<and> mf_type data = mf_type other \<and>
     key_a_mask data = key_a_mask other \<and> key_b_mask data = key_b_mask other \<and>
     list_all (\<lambda>i. block_read_mask data ! i = block_read_mask other ! i) [0..<8] \<and>
     list_all (\<lambda>i. block data ! i = block other ! i) [0..<256]"

definition mf_classic_verify :: "MfClassicData \<Rightarrow> string \<Rightarrow> bool" where
  "mf_classic_verify data device_type = (device_type = ''Mifare Classic'')"

datatype NfcDeviceNameType = NfcDeviceNameTypeFull | NfcDeviceNameTypeShort

definition mf_classic_get_device_name :: "MfClassicData \<Rightarrow> NfcDeviceNameType \<Rightarrow> string" where
  "mf_classic_get_device_name data name_type =
     (if name_type = NfcDeviceNameTypeFull then full_name (mf_classic_features (mf_type data))
      else type_name (mf_classic_features (mf_type data)))"

definition mf_classic_get_uid :: "MfClassicData \<Rightarrow> u8 list \<times> nat" where
  "mf_classic_get_uid data = iso14443_3a_get_uid (iso14443_3a_data data)"

definition mf_classic_get_base_data :: "MfClassicData \<Rightarrow> Iso14443_3aData" where
  "mf_classic_get_base_data data = iso14443_3a_data data"

definition mf_classic_set_uid :: "MfClassicData \<Rightarrow> u8 list \<Rightarrow> nat \<Rightarrow> (bool \<times> MfClassicData) checked" where
  "mf_classic_set_uid data new_uid n =
     checked_bind (iso14443_3a_set_uid (iso14443_3a_data data) new_uid n) (\<lambda>(uid_valid, iso).
     let data = data\<lparr>iso14443_3a_data := iso\<rparr> in
     if uid_valid
     then checked_bind (mem_copy (block data ! 0) 0 (uid iso) 0 n) (\<lambda>b.
          let b = (if n = 4 then fold (\<lambda>i b. b[n := b ! n XOR b ! i]) [0..<n] (b[n := 0]) else b)
          in Inr (uid_valid, data\<lparr>block := (block data)[0 := b]\<rparr>))
     else Inr (uid_valid, data))"

section \<open>Sectors and trailers\<close>

definition mf_classic_get_total_sectors_num :: "MfClassicType \<Rightarrow> u8" where
  "mf_classic_get_total_sectors_num t = sectors_total (mf_classic_features t)"

definition mf_classic_get_total_block_num :: "MfClassicType \<Rightarrow> u16" where
  "mf_classic_get_total_block_num t = blocks_total (mf_classic_features t)"

definition mf_classic_get_sector_trailer_num_by_sector :: "u8 \<Rightarrow> u8 checked" where
  "mf_classic_get_sector_trailer_num_by_sector sector =
     (if sector < 32 then Inr (sector * 4 + 3)
      else if sector < 40 then Inr (32 * 4 + (sector - 32) * 16 + 15)
      else Inl Furi_Check)"

definition mf_classic_get_sector_trailer_num_by_block :: "u8 \<Rightarrow> u8" where
  "mf_classic_get_sector_trailer_num_by_block b = (if b < 128 then b OR 0x03 else b OR 0x0f)"

definition mf_classic_get_sector_trailer_by_sector :: "u8 \<Rightarrow> u8 checked" where
  "mf_classic_get_sector_trailer_by_sector sector_num = mf_classic_get_sector_trailer_num_by_sector sector_num"

definition mf_classic_is_sector_trailer :: "u8 \<Rightarrow> bool" where
  "mf_classic_is_sector_trailer b = (b = mf_classic_get_sector_trailer_num_by_block b)"

definition mf_classic_get_sector_by_block :: "u8 \<Rightarrow> u8" where
  "mf_classic_get_sector_by_block b =
     (if b < 128 then (b OR 0x03) div 4 else 32 + ((b OR 0x0f) - 32 * 4) div 16)"

definition mf_classic_get_first_block_num_of_sector :: "u8 \<Rightarrow> u8 checked" where
  "mf_classic_get_first_block_num_of_sector sector =
     furi_check (sector < 40) (Inr (if sector < 32 then sector * 4 else 32 * 4 + (sector - 32) * 16))"

definition mf_classic_get_blocks_num_in_sector :: "u8 \<Rightarrow> u8 checked" where
  "mf_classic_get_blocks_num_in_sector sector = furi_check (sector < 40) (Inr (if sector < 32 then 4 else 16))"

definition mf_classic_set_sector_trailer_read :: "MfClassicData \<Rightarrow> u8 \<Rightarrow> MfClassicBlock \<Rightarrow> MfClassicData checked" where
  "mf_classic_set_sector_trailer_read data block_num sec_tr =
     furi_check (mf_classic_is_sector_trailer block_num)
       (let sector_num = mf_classic_get_sector_by_block block_num in
        checked_bind (mf_classic_get_sector_trailer_by_sector sector_num) (\<lambda>tr.
        Inr (data\<lparr>block := (block data)[unat tr := sec_tr],
          block_read_mask := (block_read_mask data)[unat block_num div 32 :=
            bit_set (block_read_mask data ! (unat block_num div 32)) (unat block_num mod 32)],
          key_a_mask := bit_set (key_a_mask data) (unat sector_num),
          key_b_mask := bit_set (key_b_mask data) (unat sector_num)\<rparr>)))"

section \<open>Value blocks\<close>

text \<open>A \<open>uint32_t\<close> read from and written to memory, the least significant byte first.\<close>

definition load_u32 :: "u8 list \<Rightarrow> nat \<Rightarrow> u32" where
  "load_u32 d i = ucast (d ! i) OR push_bit 8 (ucast (d ! (i + 1))) OR push_bit 16 (ucast (d ! (i + 2))) OR
     push_bit 24 (ucast (d ! (i + 3)))"

definition u32_bytes :: "u32 \<Rightarrow> u8 list" where
  "u32_bytes v = [ucast v, ucast (drop_bit 8 v), ucast (drop_bit 16 v), ucast (drop_bit 24 v)]"

text \<open>The result, the value and the address byte.\<close>

definition mf_classic_block_to_value :: "MfClassicBlock \<Rightarrow> bool \<times> u32 \<times> u8" where
  "mf_classic_block_to_value d =
     (let v = load_u32 d 0; v_inv = load_u32 d 4; v1 = load_u32 d 8;
          val_checks = (v = v1 \<and> v = NOT v_inv \<and> d ! 12 = NOT (d ! 13) AND 0xFF \<and>
            d ! 14 = NOT (d ! 15) AND 0xFF \<and> d ! 12 = d ! 14)
      in (val_checks, v, d ! 12))"

definition mf_classic_value_to_block :: "u32 \<Rightarrow> u8 \<Rightarrow> MfClassicBlock \<Rightarrow> MfClassicBlock checked" where
  "mf_classic_value_to_block v addr d =
     checked_bind (mem_copy d 0 (u32_bytes v) 0 4) (\<lambda>d.
     checked_bind (mem_copy d 4 (u32_bytes (NOT v)) 0 4) (\<lambda>d.
     checked_bind (mem_copy d 8 (u32_bytes v) 0 4) (\<lambda>d.
     checked_bind (mem_write d 12 addr) (\<lambda>d.
     checked_bind (mem_write d 13 (NOT addr AND 0xFF)) (\<lambda>d.
     checked_bind (mem_write d 14 addr) (\<lambda>d.
     mem_write d 15 (NOT addr AND 0xFF)))))))"

section \<open>Keys and read masks\<close>

definition mf_classic_is_key_found :: "MfClassicData \<Rightarrow> u8 \<Rightarrow> MfClassicKeyType \<Rightarrow> bool" where
  "mf_classic_is_key_found data sector_num key_type =
     (case key_type of
        MfClassicKeyTypeA \<Rightarrow> bit_read (key_a_mask data) (unat sector_num) = 1
      | MfClassicKeyTypeB \<Rightarrow> bit_read (key_b_mask data) (unat sector_num) = 1)"

definition mf_classic_set_key_found :: "MfClassicData \<Rightarrow> u8 \<Rightarrow> MfClassicKeyType \<Rightarrow> u64 \<Rightarrow> MfClassicData checked" where
  "mf_classic_set_key_found data sector_num key_type key =
     checked_bind (mf_classic_get_sector_trailer_by_sector sector_num) (\<lambda>tr.
     case bit_lib_num_to_bytes_be key 6 (replicate 6 0) of None \<Rightarrow> Inl Furi_Check | Some key_arr \<Rightarrow>
       (case key_type of
          MfClassicKeyTypeA \<Rightarrow>
            checked_bind (mem_copy (block data ! unat tr) 0 key_arr 0 6) (\<lambda>b.
            Inr (data\<lparr>block := (block data)[unat tr := b], key_a_mask := bit_set (key_a_mask data) (unat sector_num)\<rparr>))
        | MfClassicKeyTypeB \<Rightarrow>
            checked_bind (mem_copy (block data ! unat tr) 10 key_arr 0 6) (\<lambda>b.
            Inr (data\<lparr>block := (block data)[unat tr := b], key_b_mask := bit_set (key_b_mask data) (unat sector_num)\<rparr>))))"

definition mf_classic_set_key_not_found :: "MfClassicData \<Rightarrow> u8 \<Rightarrow> MfClassicKeyType \<Rightarrow> MfClassicData" where
  "mf_classic_set_key_not_found data sector_num key_type =
     (case key_type of
        MfClassicKeyTypeA \<Rightarrow> data\<lparr>key_a_mask := bit_clear (key_a_mask data) (unat sector_num)\<rparr>
      | MfClassicKeyTypeB \<Rightarrow> data\<lparr>key_b_mask := bit_clear (key_b_mask data) (unat sector_num)\<rparr>)"

definition mf_classic_get_key :: "MfClassicData \<Rightarrow> u8 \<Rightarrow> MfClassicKeyType \<Rightarrow> u8 list checked" where
  "mf_classic_get_key data sector_num key_type =
     furi_check (sector_num < mf_classic_get_total_sectors_num (mf_type data))
       (checked_bind (mf_classic_get_sector_trailer_by_sector sector_num) (\<lambda>tr.
        Inr (case key_type of
               MfClassicKeyTypeA \<Rightarrow> take 6 (block data ! unat tr)
             | MfClassicKeyTypeB \<Rightarrow> take 6 (drop 10 (block data ! unat tr)))))"

definition mf_classic_is_block_read :: "MfClassicData \<Rightarrow> u8 \<Rightarrow> bool" where
  "mf_classic_is_block_read data block_num =
     (bit_read (block_read_mask data ! (unat block_num div 32)) (unat block_num mod 32) = 1)"

definition mf_classic_set_block_read :: "MfClassicData \<Rightarrow> u8 \<Rightarrow> MfClassicBlock \<Rightarrow> MfClassicData checked" where
  "mf_classic_set_block_read data block_num block_data =
     checked_bind
       (if mf_classic_is_sector_trailer block_num
        then mem_copy (block data ! unat block_num) 6 block_data 6 4
        else mem_copy (block data ! unat block_num) 0 block_data 0 16) (\<lambda>b.
     Inr (data\<lparr>block := (block data)[unat block_num := b],
       block_read_mask := (block_read_mask data)[unat block_num div 32 :=
         bit_set (block_read_mask data ! (unat block_num div 32)) (unat block_num mod 32)]\<rparr>))"

definition sector_blocks_read :: "MfClassicData \<Rightarrow> u8 \<Rightarrow> bool checked" where
  "sector_blocks_read data sector =
     checked_bind (mf_classic_get_first_block_num_of_sector sector) (\<lambda>first.
     checked_bind (mf_classic_get_blocks_num_in_sector sector) (\<lambda>n.
     Inr (list_all (\<lambda>j. mf_classic_is_block_read data (of_nat j)) [unat first..<unat first + unat n])))"

definition read_sectors_step :: "MfClassicData \<Rightarrow> nat \<Rightarrow> u8 \<times> u8 \<Rightarrow> (u8 \<times> u8) checked" where
  "read_sectors_step data i s =
     (case s of (sectors_read, keys_found) \<Rightarrow>
        let keys_found = (if mf_classic_is_key_found data (of_nat i) MfClassicKeyTypeA then keys_found + 1 else keys_found);
            keys_found = (if mf_classic_is_key_found data (of_nat i) MfClassicKeyTypeB then keys_found + 1 else keys_found) in
        checked_bind (sector_blocks_read data (of_nat i)) (\<lambda>blocks_read.
        Inr (if blocks_read then sectors_read + 1 else sectors_read, keys_found)))"

definition mf_classic_get_read_sectors_and_keys :: "MfClassicData \<Rightarrow> (u8 \<times> u8) checked" where
  "mf_classic_get_read_sectors_and_keys data =
     fold (\<lambda>i r. checked_bind r (read_sectors_step data i))
       [0..<unat (mf_classic_get_total_sectors_num (mf_type data))] (Inr (0, 0))"

definition mf_classic_is_card_read :: "MfClassicData \<Rightarrow> bool checked" where
  "mf_classic_is_card_read data =
     (let total = mf_classic_get_total_sectors_num (mf_type data) in
      checked_bind (mf_classic_get_read_sectors_and_keys data) (\<lambda>(sectors_read, keys_found).
      Inr (sectors_read = total \<and> unat keys_found = unat total * 2)))"

definition mf_classic_is_sector_read :: "MfClassicData \<Rightarrow> u8 \<Rightarrow> bool checked" where
  "mf_classic_is_sector_read data sector_num =
     (if \<not> mf_classic_is_key_found data sector_num MfClassicKeyTypeA then Inr False
      else if \<not> mf_classic_is_key_found data sector_num MfClassicKeyTypeB then Inr False
      else sector_blocks_read data sector_num)"

section \<open>Access conditions\<close>

definition mf_classic_is_allowed_access_sector_trailer ::
  "MfClassicData \<Rightarrow> u8 \<Rightarrow> MfClassicKeyType \<Rightarrow> MfClassicAction \<Rightarrow> bool checked" where
  "mf_classic_is_allowed_access_sector_trailer data block_num key_type action =
     checked_bind (mf_classic_get_sector_trailer_by_sector (mf_classic_get_sector_by_block block_num)) (\<lambda>tr.
     let access_bits_arr = drop 6 (block data ! unat tr);
         AC = (drop_bit 5 (access_bits_arr ! 1) AND 0x04) OR (drop_bit 2 (access_bits_arr ! 2) AND 0x02) OR
              (drop_bit 7 (access_bits_arr ! 2) AND 0x01) in
     Inr (case action of
        MfClassicActionKeyARead \<Rightarrow> False
      | MfClassicActionKeyAWrite \<Rightarrow>
          key_type = MfClassicKeyTypeA \<and> (AC = 0x00 \<or> AC = 0x01) \<or>
          key_type = MfClassicKeyTypeB \<and> (AC = 0x00 \<or> AC = 0x04 \<or> AC = 0x03 \<or> AC = 0x01)
      | MfClassicActionKeyBWrite \<Rightarrow>
          key_type = MfClassicKeyTypeA \<and> (AC = 0x00 \<or> AC = 0x01) \<or>
          key_type = MfClassicKeyTypeB \<and> (AC = 0x00 \<or> AC = 0x04 \<or> AC = 0x03 \<or> AC = 0x01)
      | MfClassicActionKeyBRead \<Rightarrow>
          key_type = MfClassicKeyTypeA \<and> (AC = 0x00 \<or> AC = 0x02 \<or> AC = 0x01) \<or>
          key_type = MfClassicKeyTypeB \<and> (AC = 0x00 \<or> AC = 0x02 \<or> AC = 0x01)
      | MfClassicActionACRead \<Rightarrow> key_type = MfClassicKeyTypeA \<or> key_type = MfClassicKeyTypeB
      | MfClassicActionACWrite \<Rightarrow>
          key_type = MfClassicKeyTypeA \<and> AC = 0x01 \<or>
          key_type = MfClassicKeyTypeB \<and> (AC = 0x01 \<or> AC = 0x03 \<or> AC = 0x05)
      | _ \<Rightarrow> False))"

definition data_block_AC :: "u8 list \<Rightarrow> u8 \<Rightarrow> u8 option" where
  "data_block_AC access_bits_arr sector_block =
     (if sector_block = 0x00 then
        Some ((drop_bit 2 (access_bits_arr ! 1) AND 0x04) OR (push_bit 1 (access_bits_arr ! 2) AND 0x02) OR
              (drop_bit 4 (access_bits_arr ! 2) AND 0x01))
      else if sector_block = 0x01 then
        Some ((drop_bit 3 (access_bits_arr ! 1) AND 0x04) OR (drop_bit 0 (access_bits_arr ! 2) AND 0x02) OR
              (drop_bit 5 (access_bits_arr ! 2) AND 0x01))
      else if sector_block = 0x02 then
        Some ((drop_bit 4 (access_bits_arr ! 1) AND 0x04) OR (drop_bit 1 (access_bits_arr ! 2) AND 0x02) OR
              (drop_bit 6 (access_bits_arr ! 2) AND 0x01))
      else None)"

definition mf_classic_is_allowed_access_data_block ::
  "MfClassicBlock \<Rightarrow> u8 \<Rightarrow> MfClassicKeyType \<Rightarrow> MfClassicAction \<Rightarrow> bool" where
  "mf_classic_is_allowed_access_data_block sec_tr block_num key_type action =
     (let access_bits_arr = drop 6 sec_tr in
      if block_num = 0 \<and> action = MfClassicActionDataWrite then False
      else let sector_block = (if block_num \<le> 128 then block_num AND 0x03 else (block_num AND 0x0f) div 5) in
      case data_block_AC access_bits_arr sector_block of
        None \<Rightarrow> False
      | Some AC \<Rightarrow>
          (case action of
             MfClassicActionDataRead \<Rightarrow>
               key_type = MfClassicKeyTypeA \<and> \<not> (AC = 0x03 \<or> AC = 0x05 \<or> AC = 0x07) \<or>
               key_type = MfClassicKeyTypeB \<and> \<not> (AC = 0x07)
           | MfClassicActionDataWrite \<Rightarrow>
               key_type = MfClassicKeyTypeA \<and> AC = 0x00 \<or>
               key_type = MfClassicKeyTypeB \<and> (AC = 0x00 \<or> AC = 0x04 \<or> AC = 0x06 \<or> AC = 0x03)
           | MfClassicActionDataInc \<Rightarrow>
               key_type = MfClassicKeyTypeA \<and> AC = 0x00 \<or>
               key_type = MfClassicKeyTypeB \<and> (AC = 0x00 \<or> AC = 0x06)
           | MfClassicActionDataDec \<Rightarrow>
               key_type = MfClassicKeyTypeA \<and> (AC = 0x00 \<or> AC = 0x06 \<or> AC = 0x01) \<or>
               key_type = MfClassicKeyTypeB \<and> (AC = 0x00 \<or> AC = 0x06 \<or> AC = 0x01)
           | _ \<Rightarrow> False))"

definition mf_classic_is_allowed_access ::
  "MfClassicData \<Rightarrow> u8 \<Rightarrow> MfClassicKeyType \<Rightarrow> MfClassicAction \<Rightarrow> bool checked" where
  "mf_classic_is_allowed_access data block_num key_type action =
     (if mf_classic_is_sector_trailer block_num
      then mf_classic_is_allowed_access_sector_trailer data block_num key_type action
      else checked_bind (mf_classic_get_sector_trailer_by_sector (mf_classic_get_sector_by_block block_num)) (\<lambda>tr.
           Inr (mf_classic_is_allowed_access_data_block (block data ! unat tr) block_num key_type action)))"

definition mf_classic_is_value_block :: "MfClassicBlock \<Rightarrow> u8 \<Rightarrow> bool" where
  "mf_classic_is_value_block sec_tr block_num \<longleftrightarrow>
     \<not> mf_classic_is_allowed_access_data_block sec_tr block_num MfClassicKeyTypeA MfClassicActionDataWrite \<and>
     (mf_classic_is_allowed_access_data_block sec_tr block_num MfClassicKeyTypeB MfClassicActionDataInc \<or>
      mf_classic_is_allowed_access_data_block sec_tr block_num MfClassicKeyTypeB MfClassicActionDataDec)"

section \<open>Geometry\<close>

text \<open>Every block lies in one sector of the card, whose last block is the trailer.\<close>

lemma nat_or_mask: "(x :: nat) OR mask n = 2 ^ n * (x div 2 ^ n) + (2 ^ n - 1)"
proof -
  have "x OR mask n = push_bit n (drop_bit n x) OR mask n"
    by (rule bit_eqI) (auto simp: bit_simps)
  also have "\<dots> = push_bit n (drop_bit n x) + mask n"
    by (rule disjunctive_add [symmetric]) (auto simp: bit_simps)
  finally show ?thesis by (simp add: push_bit_eq_mult drop_bit_eq_div mask_eq_exp_minus_1 mult.commute)
qed

lemma unat_or_3: "unat (b OR 3 :: u8) = 4 * (unat b div 4) + 3"
  using nat_or_mask [of "unat b" 2] by (simp add: unsigned_or_eq mask_eq_exp_minus_1)

lemma unat_or_15: "unat (b OR 15 :: u8) = 16 * (unat b div 16) + 15"
  using nat_or_mask [of "unat b" 4] by (simp add: unsigned_or_eq mask_eq_exp_minus_1)

lemma unat_u8_less: "unat (b :: u8) < 256"
  using unsigned_less [of b] by simp

lemma unat_trailer:
  "unat (mf_classic_get_sector_trailer_num_by_block b) =
     (if unat b < 128 then 4 * (unat b div 4) + 3 else 16 * (unat b div 16) + 15)"
  by (simp add: mf_classic_get_sector_trailer_num_by_block_def unat_or_3 unat_or_15 word_less_nat_alt)

lemma div_bounds: "4 * (n div 4) \<le> n" "n \<le> 4 * (n div 4) + 3" "16 * (n div 16) \<le> n" "n \<le> 16 * (n div 16) + (15 :: nat)"
  "n < 256 \<Longrightarrow> 16 * (n div 16) + 15 < 256" "n < 128 \<Longrightarrow> 4 * (n div 4) + 3 < 128"
  using less_mult_imp_div_less [of n 16 16] less_mult_imp_div_less [of n 32 4] by linarith+

lemma div16_shift: "\<not> n < 128 \<Longrightarrow> n div 16 = 8 + (n - 128) div (16 :: nat)"
proof -
  assume "\<not> n < 128"
  then obtain k where n: "n = 128 + k" by (metis le_Suc_ex not_less)
  show ?thesis unfolding n by (simp add: div_add1_eq)
qed

lemma unat_sector:
  "unat (mf_classic_get_sector_by_block b) =
     (if unat b < 128 then unat b div 4 else 32 + (unat b - 128) div 16)"
proof (cases "unat b < 128")
  case True
  then show ?thesis
    by (simp add: mf_classic_get_sector_by_block_def word_less_nat_alt unat_div_distrib unat_or_3)
next
  case False
  have "unat (b OR 15) < 256" by (rule unat_u8_less)
  then have "unat ((b OR 15) - 128) = 16 * (unat b div 16) + 15 - 128"
    using False by (subst unat_sub) (simp_all add: word_le_nat_alt unat_or_15 div16_shift)
  moreover have "(16 * (unat b div 16) + 15 - 128) div 16 = (unat b - 128) div 16"
    unfolding div16_shift [OF False] by simp
  ultimately have "unat (((b OR 15) - 128) div 16) = (unat b - 128) div 16"
    by (simp add: unat_div_distrib)
  moreover have "(unat b - 128) div 16 < 8" using unat_u8_less [of b] False by linarith
  ultimately show ?thesis
    using False by (simp add: mf_classic_get_sector_by_block_def word_less_nat_alt unat_word_ariths)
qed

lemma sector_of_block:
  "mf_classic_get_sector_by_block b < 40"
  "mf_classic_get_sector_trailer_num_by_sector (mf_classic_get_sector_by_block b) =
     Inr (mf_classic_get_sector_trailer_num_by_block b)"
  "mf_classic_is_sector_trailer (mf_classic_get_sector_trailer_num_by_block b)"
  "mf_classic_get_sector_by_block (mf_classic_get_sector_trailer_num_by_block b) = mf_classic_get_sector_by_block b"
proof -
  let ?s = "mf_classic_get_sector_by_block b" and ?t = "mf_classic_get_sector_trailer_num_by_block b"
  have b: "unat b < 256" by (rule unat_u8_less)
  have 40: "unat ?s < 40" using b unfolding unat_sector by (auto simp: less_mult_imp_div_less)
  then show "?s < 40" by (simp add: word_less_nat_alt)
  have lt: "unat ?s < 32 \<longleftrightarrow> unat b < 128" unfolding unat_sector by (auto simp: less_mult_imp_div_less)
  have "?s * 4 + 3 = ?t" if "unat b < 128"
    using that by (simp add: word_unat_eq_iff unat_word_ariths unat_sector unat_trailer)
  moreover have "32 * 4 + (?s - 32) * 16 + 15 = ?t" if n: "\<not> unat b < 128"
  proof -
    have "?s = of_nat (unat ?s)" "?t = of_nat (unat ?t)" by simp_all
    then show ?thesis unfolding unat_sector unat_trailer using n div16_shift [OF n] by simp
  qed
  ultimately show "mf_classic_get_sector_trailer_num_by_sector ?s = Inr ?t"
    using lt 40 by (auto simp: mf_classic_get_sector_trailer_num_by_sector_def word_less_nat_alt)
  have t: "unat ?t < 128 \<longleftrightarrow> unat b < 128"
    unfolding unat_trailer using div_bounds [of "unat b"] by auto
  show "mf_classic_is_sector_trailer ?t"
    unfolding mf_classic_is_sector_trailer_def word_unat_eq_iff unat_trailer [of ?t] t by (simp add: unat_trailer)
  show "mf_classic_get_sector_by_block ?t = ?s"
    unfolding word_unat_eq_iff unat_sector [of ?t] t by (auto simp: unat_trailer unat_sector div16_shift)
qed

lemma first_block:
  "mf_classic_get_first_block_num_of_sector (mf_classic_get_sector_by_block b) =
     Inr (of_nat (if unat b < 128 then 4 * (unat b div 4) else 16 * (unat b div 16)))"
proof -
  let ?s = "mf_classic_get_sector_by_block b"
  have lt: "?s < 32 \<longleftrightarrow> unat b < 128"
    unfolding word_less_nat_alt unat_sector by (auto simp: less_mult_imp_div_less)
  have s: "?s = of_nat (unat ?s)" by simp
  have "?s * 4 = of_nat (4 * (unat b div 4))" if "unat b < 128"
    by (subst s, subst unat_sector) (simp only: that if_True of_nat_mult of_nat_numeral mult.commute)
  moreover have "32 * 4 + (?s - 32) * 16 = of_nat (16 * (unat b div 16))" if n: "\<not> unat b < 128"
  proof -
    have "?s = 32 + of_nat ((unat b - 128) div 16)"
      by (subst s, subst unat_sector) (simp only: n if_False of_nat_add of_nat_numeral)
    then show ?thesis unfolding div16_shift [OF n] by simp
  qed
  ultimately show ?thesis
    using lt sector_of_block(1) by (simp add: mf_classic_get_first_block_num_of_sector_def)
qed

text \<open>
  The geometry routines agree for every block number, on both sides of block 128 where sectors
  grow from four to sixteen blocks: the block lies between the first block and the trailer of its sector, the
  number of blocks is right, and the trailer found by block is the one found by sector.
\<close>

theorem mf_classic_geometry:
  "\<exists>f k. mf_classic_get_first_block_num_of_sector (mf_classic_get_sector_by_block b) = Inr f \<and>
     mf_classic_get_blocks_num_in_sector (mf_classic_get_sector_by_block b) = Inr k \<and>
     f \<le> b \<and> b \<le> mf_classic_get_sector_trailer_num_by_block b \<and>
     unat f + unat k = unat (mf_classic_get_sector_trailer_num_by_block b) + 1 \<and>
     mf_classic_get_sector_trailer_num_by_sector (mf_classic_get_sector_by_block b) =
       Inr (mf_classic_get_sector_trailer_num_by_block b)"
proof -
  let ?f = "if unat b < 128 then 4 * (unat b div 4) else 16 * (unat b div 16)"
  have lt: "mf_classic_get_sector_by_block b < 32 \<longleftrightarrow> unat b < 128"
    unfolding word_less_nat_alt unat_sector by (auto simp: less_mult_imp_div_less)
  have b: "unat b < 256" by (rule unat_u8_less)
  have "?f < 256" using b by (simp split: if_split) linarith
  then have f: "unat (of_nat ?f :: u8) = ?f" by (simp add: unat_of_nat take_bit_nat_eq_self)
  have "of_nat ?f \<le> b" unfolding word_le_nat_alt f by auto
  moreover have "b \<le> mf_classic_get_sector_trailer_num_by_block b" unfolding word_le_nat_alt unat_trailer using div_bounds [of "unat b"] by simp
  ultimately show ?thesis
    unfolding first_block using f
    by (auto simp: mf_classic_get_blocks_num_in_sector_def sector_of_block lt unat_trailer)
qed

lemma trailer_by_sector [simp]:
  "mf_classic_get_sector_trailer_by_sector (mf_classic_get_sector_by_block b) =
     Inr (mf_classic_get_sector_trailer_num_by_block b)"
  by (simp add: mf_classic_get_sector_trailer_by_sector_def sector_of_block)

section \<open>Well-formed images\<close>

definition mf_wf :: "MfClassicData \<Rightarrow> bool" where
  "mf_wf d \<longleftrightarrow> length (block d) = 256 \<and> list_all (\<lambda>b. length b = 16) (block d) \<and>
     length (block_read_mask d) = 8 \<and> length (uid (iso14443_3a_data d)) = 10 \<and> length (atqa (iso14443_3a_data d)) = 2"

lemma mf_wf_block [simp]: "mf_wf d \<Longrightarrow> length (block d ! unat (b :: u8)) = 16"
  using unat_u8_less [of b] by (simp add: mf_wf_def list_all_length)

lemma mf_wf_alloc: "mf_wf mf_classic_alloc"
  by (simp add: mf_wf_def mf_classic_alloc_def iso14443_3a_alloc_def list_all_iff)

lemma mf_wf_update: "mf_wf d \<Longrightarrow> length x = 16 \<Longrightarrow> mf_wf (d\<lparr>block := (block d)[i := x]\<rparr>)"
  by (auto simp: mf_wf_def list_all_iff dest: set_update_subset_insert [THEN subsetD])

section \<open>Value blocks\<close>

lemma load_u32_bytes: "load_u32 (u32_bytes v @ xs) 0 = v"
proof (rule bit_word_eqI)
  fix n assume "n < LENGTH(32)"
  then have "n < 8 \<or> 8 \<le> n \<and> n < 16 \<or> 16 \<le> n \<and> n < 24 \<or> 24 \<le> n \<and> n < 32" by auto
  then show "bit (load_u32 (u32_bytes v @ xs) 0) n = bit v n"
    by (elim disjE; simp add: load_u32_def u32_bytes_def bit_simps; auto)
qed

lemma not_0xFF: "NOT a AND 0xFF = NOT (a :: u8)"
proof -
  have m: "(0xFF :: u8) = mask 8" by (simp add: mask_eq_exp_minus_1)
  show ?thesis unfolding m by (rule bit_word_eqI) (simp add: bit_and_iff bit_mask_iff)
qed

lemma and_0xFF: "a AND 0xFF = (a :: u8)"
  using not_0xFF [of "NOT a"] by simp

lemma value_to_block:
  assumes "length d = 16"
  shows "mf_classic_value_to_block v addr d =
    Inr (u32_bytes v @ u32_bytes (NOT v) @ u32_bytes v @ [addr, NOT addr, addr, NOT addr])"
proof -
  obtain d0 d1 d2 d3 d4 d5 d6 d7 d8 d9 d10 d11 d12 d13 d14 d15 where
    "d = [d0, d1, d2, d3, d4, d5, d6, d7, d8, d9, d10, d11, d12, d13, d14, d15]"
    using assms by (auto simp: numeral_eq_Suc length_Suc_conv)
  then show ?thesis
    by (simp add: mf_classic_value_to_block_def mem_copy_def mem_write_def u32_bytes_def not_0xFF)
qed

lemma load_u32_shift: "load_u32 (xs @ ys) (length xs + i) = load_u32 ys i"
  by (simp add: load_u32_def nth_append)

lemma load_u32_parts:
  "load_u32 (u32_bytes a @ u32_bytes b @ u32_bytes c @ xs) 0 = a"
  "load_u32 (u32_bytes a @ u32_bytes b @ u32_bytes c @ xs) 4 = b"
  "load_u32 (u32_bytes a @ u32_bytes b @ u32_bytes c @ xs) 8 = c"
proof -
  have l: "length (u32_bytes v) = 4" for v by (simp add: u32_bytes_def)
  show "load_u32 (u32_bytes a @ u32_bytes b @ u32_bytes c @ xs) 0 = a" by (rule load_u32_bytes)
  show "load_u32 (u32_bytes a @ u32_bytes b @ u32_bytes c @ xs) 4 = b"
    using load_u32_shift [of "u32_bytes a" _ 0] load_u32_bytes by (simp add: l)
  show "load_u32 (u32_bytes a @ u32_bytes b @ u32_bytes c @ xs) 8 = c"
    using load_u32_shift [of "u32_bytes a @ u32_bytes b" "u32_bytes c @ xs" 0] load_u32_bytes by (simp add: l)
qed

lemma u32_bytes_load: "u32_bytes (load_u32 (a # b # c # d # xs) 0) = [a, b, c, d]"
proof -
  have "ucast (ucast a :: u32) = (a :: u8)" for a by (rule bit_word_eqI) (auto simp: bit_simps)
  moreover have "ucast (drop_bit k (ucast a :: u32)) = (0 :: u8)" if "8 \<le> k" for k and a :: u8
    by (rule bit_word_eqI) (use that in \<open>auto simp: bit_simps\<close>)
  moreover have "ucast (push_bit k (ucast a :: u32)) = (0 :: u8)" if "8 \<le> k" for k and a :: u8
    by (rule bit_word_eqI) (use that in \<open>auto simp: bit_simps\<close>)
  moreover have "ucast (drop_bit j (push_bit k (ucast a :: u32))) = (if j = k then a else 0 :: u8)"
    if "j \<in> {8, 16, 24}" "k \<in> {8, 16, 24}" for j k and a :: u8
    by (rule bit_word_eqI) (use that in \<open>auto simp: bit_simps\<close>)
  ultimately show ?thesis
    by (simp add: u32_bytes_def load_u32_def unsigned_or_eq)
qed

lemma value_tail_nth:
  "(u32_bytes a @ u32_bytes b @ u32_bytes c @ [p, q, r, s]) ! 12 = p"
  "(u32_bytes a @ u32_bytes b @ u32_bytes c @ [p, q, r, s]) ! 13 = q"
  "(u32_bytes a @ u32_bytes b @ u32_bytes c @ [p, q, r, s]) ! 14 = r"
  "(u32_bytes a @ u32_bytes b @ u32_bytes c @ [p, q, r, s]) ! 15 = s"
  by (simp_all add: u32_bytes_def)

lemma length_u32_bytes [simp]: "length (u32_bytes v) = 4"
  by (simp add: u32_bytes_def)

text \<open>
  C40 (roundtrip): a value and an address written as a value block are read back, and a block accepted as a value
  block is the one that writing its value and address gives, so no damaged block is accepted.
\<close>

theorem value_block_roundtrip:
  assumes "length d = 16"
  shows "(\<exists>d'. mf_classic_value_to_block v addr d = Inr d' \<and> length d' = 16 \<and>
      mf_classic_block_to_value d' = (True, v, addr)) \<and>
    (\<forall>w a. mf_classic_block_to_value d = (True, w, a) \<longrightarrow> mf_classic_value_to_block w a d = Inr d)"
proof
  show "\<exists>d'. mf_classic_value_to_block v addr d = Inr d' \<and> length d' = 16 \<and>
      mf_classic_block_to_value d' = (True, v, addr)"
    by (intro exI conjI, rule value_to_block [OF assms])
      (simp_all add: mf_classic_block_to_value_def Let_def load_u32_parts not_0xFF and_0xFF value_tail_nth)
next
  obtain d0 d1 d2 d3 d4 d5 d6 d7 d8 d9 d10 d11 d12 d13 d14 d15 where
    d: "d = [d0, d1, d2, d3] @ [d4, d5, d6, d7] @ [d8, d9, d10, d11] @ [d12, d13, d14, d15]"
    using assms by (auto simp: numeral_eq_Suc length_Suc_conv)
  have l: "load_u32 d 0 = load_u32 [d0, d1, d2, d3] 0" "load_u32 d 4 = load_u32 [d4, d5, d6, d7] 0"
    "load_u32 d 8 = load_u32 [d8, d9, d10, d11] 0"
    by (simp_all add: d load_u32_def)
  show "\<forall>w a. mf_classic_block_to_value d = (True, w, a) \<longrightarrow> mf_classic_value_to_block w a d = Inr d"
  proof (intro allI impI)
    fix w a assume "mf_classic_block_to_value d = (True, w, a)"
    then have e: "load_u32 d 0 = w" "load_u32 d 8 = w" "w = NOT (load_u32 d 4)" "d ! 12 = a" "NOT (d ! 13) = a" "d ! 14 = a" "NOT (d ! 15) = a"
      by (auto simp: mf_classic_block_to_value_def Let_def not_0xFF)
    have "NOT w = load_u32 d 4" using e(3) by simp
    then have "u32_bytes w = [d0, d1, d2, d3]" "u32_bytes (NOT w) = [d4, d5, d6, d7]"
      using e(1) unfolding l by (metis u32_bytes_load)+
    moreover have "u32_bytes w = [d8, d9, d10, d11]" using e(2) unfolding l by (metis u32_bytes_load)
    moreover have "[d12, d13, d14, d15] = [a, NOT a, a, NOT a]"
      using e(4-7) by (auto simp: d)
    ultimately have "u32_bytes w @ u32_bytes (NOT w) @ u32_bytes w @ [a, NOT a, a, NOT a] = d"
      unfolding d by metis
    then show "mf_classic_value_to_block w a d = Inr d"
      using value_to_block [OF assms, of w a] by metis
  qed
qed

theorem value_block_roundtrip_witness:
  "\<exists>d'. mf_classic_value_to_block 100 4 (replicate 16 0) = Inr d' \<and> length d' = 16 \<and> mf_classic_block_to_value d' = (True, 100, 4)"
  using value_block_roundtrip [of "replicate 16 0" 100 4] by simp

section \<open>Keys and read masks\<close>

lemma bit_read_1: "(bit_read w n = (1 :: 'a::len word)) = bit w n"
  by (simp add: bit_read_of_bool)

lemma key_found_bit:
  "mf_classic_is_key_found d s MfClassicKeyTypeA = bit (key_a_mask d) (unat s)"
  "mf_classic_is_key_found d s MfClassicKeyTypeB = bit (key_b_mask d) (unat s)"
  by (simp_all add: mf_classic_is_key_found_def bit_read_1)

definition sector_read :: "MfClassicData \<Rightarrow> nat \<Rightarrow> bool" where
  "sector_read d s = (sector_blocks_read d (of_nat s) = Inr True)"

lemma sector_blocks_read_total: "s < 40 \<Longrightarrow> \<exists>r. sector_blocks_read d s = Inr r"
  by (simp add: sector_blocks_read_def mf_classic_get_first_block_num_of_sector_def mf_classic_get_blocks_num_in_sector_def)

lemma sector_blocks_read_eq: "s < 40 \<Longrightarrow> sector_blocks_read d (of_nat s) = Inr (sector_read d s)"
  using sector_blocks_read_total [of "of_nat s" d]
  by (auto simp: sector_read_def word_less_nat_alt unat_of_nat take_bit_nat_eq_self)

lemma unat_of_nat_8: "x < 256 \<Longrightarrow> unat (of_nat x :: u8) = x"
  by (simp add: unat_of_nat take_bit_nat_eq_self)

lemma read_sectors_loop:
  "n \<le> 40 \<Longrightarrow> fold (\<lambda>i r. checked_bind r (read_sectors_step d i)) [0..<n] (Inr (0, 0)) =
     Inr (of_nat (length (filter (sector_read d) [0..<n])),
       of_nat (length (filter (bit (key_a_mask d)) [0..<n]) + length (filter (bit (key_b_mask d)) [0..<n])))"
proof (induction n)
  case (Suc n)
  then have "unat (of_nat n :: u8) = n" by (simp add: unat_of_nat take_bit_nat_eq_self)
  with Suc show ?case
    by (simp add: read_sectors_step_def key_found_bit sector_blocks_read_eq Let_def add.commute add.left_commute)
qed simp

lemma all_length_filter: "length (filter p xs) = length xs \<longleftrightarrow> (\<forall>x \<in> set xs. p x)"
  by (metis filter_id_conv length_filter_less nat_neq_iff)

text \<open>
  \<open>mf_classic_is_card_read\<close>, which only compares the numbers of read sectors and found keys with
  the totals, holds exactly when every single sector is read with both keys.
\<close>

theorem card_read_iff:
  "mf_classic_is_card_read d =
     Inr (list_all (\<lambda>s. mf_classic_is_sector_read d (of_nat s) = Inr True)
       [0..<unat (mf_classic_get_total_sectors_num (mf_type d))])"
proof -
  let ?n = "unat (mf_classic_get_total_sectors_num (mf_type d))"
  let ?R = "length (filter (sector_read d) [0..<?n])" and ?A = "length (filter (bit (key_a_mask d)) [0..<?n])"
    and ?B = "length (filter (bit (key_b_mask d)) [0..<?n])"
  have n: "?n \<le> 40" by (cases "mf_type d") (simp_all add: mf_classic_get_total_sectors_num_def)
  have le: "?R \<le> ?n" "?A \<le> ?n" "?B \<le> ?n" using length_filter_le [of _ "[0..<?n]"] by simp_all
  have u: "unat (of_nat ?R :: u8) = ?R" "unat (of_nat (?A + ?B) :: u8) = ?A + ?B"
    using le n by (auto intro!: unat_of_nat_8 simp del: of_nat_add)
  have "mf_classic_is_card_read d = Inr (?R = ?n \<and> ?A + ?B = ?n * 2)"
    unfolding mf_classic_is_card_read_def mf_classic_get_read_sectors_and_keys_def Let_def read_sectors_loop [OF n]
      checked_bind_simps prod.case word_unat_eq_iff u ..
  also have "(?R = ?n \<and> ?A + ?B = ?n * 2) \<longleftrightarrow> ?R = length [0..<?n] \<and> ?A = length [0..<?n] \<and> ?B = length [0..<?n]"
    using le by auto
  also have "\<dots> \<longleftrightarrow> list_all (\<lambda>s. mf_classic_is_sector_read d (of_nat s) = Inr True) [0..<?n]"
  proof -
    have "mf_classic_is_sector_read d (of_nat s) = Inr True \<longleftrightarrow>
        bit (key_a_mask d) s \<and> bit (key_b_mask d) s \<and> sector_read d s" if "s < ?n" for s
    proof -
      have "unat (of_nat s :: u8) = s" using that n by (simp add: unat_of_nat take_bit_nat_eq_self)
      then show ?thesis using that n by (simp add: mf_classic_is_sector_read_def key_found_bit sector_read_def)
    qed
    then show ?thesis unfolding all_length_filter by (auto simp: list_all_iff)
  qed
  finally show ?thesis .
qed

section \<open>Access conditions\<close>

definition access_allowed :: "MfClassicData \<Rightarrow> u8 \<Rightarrow> MfClassicKeyType \<Rightarrow> MfClassicAction \<Rightarrow> bool" where
  "access_allowed d b kt a = (mf_classic_is_allowed_access d b kt a = Inr True)"

lemma is_allowed_access [simp]: "mf_classic_is_allowed_access d b kt a = Inr (access_allowed d b kt a)"
proof -
  have "\<exists>r. mf_classic_is_allowed_access d b kt a = Inr r"
    unfolding mf_classic_is_allowed_access_def mf_classic_is_allowed_access_sector_trailer_def Let_def
      trailer_by_sector checked_bind_simps
    by (cases "mf_classic_is_sector_trailer b") (simp_all only: if_True if_False sum.inject simp_thms)
  then obtain r where r: "mf_classic_is_allowed_access d b kt a = Inr r" ..
  show ?thesis unfolding access_allowed_def r by simp
qed

lemma trailer_access:
  assumes "mf_classic_is_sector_trailer b"
  shows "\<not> access_allowed d b kt MfClassicActionKeyARead" "access_allowed d b kt MfClassicActionACRead"
    "\<not> access_allowed d b kt MfClassicActionDataRead" "\<not> access_allowed d b kt MfClassicActionDataWrite"
    "\<not> access_allowed d b kt MfClassicActionDataInc" "\<not> access_allowed d b kt MfClassicActionDataDec"
  using assms
  by (cases kt; simp add: access_allowed_def mf_classic_is_allowed_access_def
      mf_classic_is_allowed_access_sector_trailer_def Let_def del: is_allowed_access)+

end
