(* ===== verification/Nfc_Crypto1.thy ===== *)
theory Nfc_Crypto1
  imports Bit_Lib Bit_Buffer
begin

text \<open>
  The stream cipher of MIFARE Classic (\<^verbatim>\<open>lib/nfc/helpers/crypto1.c\<close>) and the parity helpers it uses
  (\<^verbatim>\<open>lib/nfc/helpers/nfc_util.c\<close>). A routine that changes the cipher returns its output with the new
  state; the modes \<open>is_encrypted\<close> and \<open>fb\<close>, which the code reads only as \<open>!!is_encrypted\<close>, are
  truth values. The frames are \<open>BitBuffer\<close>s, the source and the destination of a call being two
  different buffers, as in every call of the firmware. \<open>furi_assert\<close> is compiled out.
\<close>

section \<open>Parity helpers\<close>

definition nfc_util_odd_byte_parity :: "u8 list" where
  "nfc_util_odd_byte_parity =
     [1, 0, 0, 1, 0, 1, 1, 0, 0, 1, 1, 0, 1, 0, 0, 1, 0, 1, 1, 0, 1, 0, 0, 1, 1, 0, 0, 1, 0, 1, 1, 0,
      0, 1, 1, 0, 1, 0, 0, 1, 1, 0, 0, 1, 0, 1, 1, 0, 1, 0, 0, 1, 0, 1, 1, 0, 0, 1, 1, 0, 1, 0, 0, 1,
      0, 1, 1, 0, 1, 0, 0, 1, 1, 0, 0, 1, 0, 1, 1, 0, 1, 0, 0, 1, 0, 1, 1, 0, 0, 1, 1, 0, 1, 0, 0, 1,
      1, 0, 0, 1, 0, 1, 1, 0, 0, 1, 1, 0, 1, 0, 0, 1, 0, 1, 1, 0, 1, 0, 0, 1, 1, 0, 0, 1, 0, 1, 1, 0,
      0, 1, 1, 0, 1, 0, 0, 1, 1, 0, 0, 1, 0, 1, 1, 0, 1, 0, 0, 1, 0, 1, 1, 0, 0, 1, 1, 0, 1, 0, 0, 1,
      1, 0, 0, 1, 0, 1, 1, 0, 0, 1, 1, 0, 1, 0, 0, 1, 0, 1, 1, 0, 1, 0, 0, 1, 1, 0, 0, 1, 0, 1, 1, 0,
      1, 0, 0, 1, 0, 1, 1, 0, 0, 1, 1, 0, 1, 0, 0, 1, 0, 1, 1, 0, 1, 0, 0, 1, 1, 0, 0, 1, 0, 1, 1, 0,
      0, 1, 1, 0, 1, 0, 0, 1, 1, 0, 0, 1, 0, 1, 1, 0, 1, 0, 0, 1, 0, 1, 1, 0, 0, 1, 1, 0, 1, 0, 0, 1]"

definition nfc_util_even_parity8 :: "u8 \<Rightarrow> u8" where
  "nfc_util_even_parity8 data = of_bool (nfc_util_odd_byte_parity ! unat data = 0)"

definition nfc_util_even_parity32 :: "u32 \<Rightarrow> u8" where
  "nfc_util_even_parity32 data = of_bool (builtin_parity data) AND 0xFF"

definition nfc_util_odd_parity8 :: "u8 \<Rightarrow> u8" where
  "nfc_util_odd_parity8 data = nfc_util_odd_byte_parity ! unat data"

text \<open>The loop over the source bytes: \<open>parity\<close> and \<open>n\<close> (the \<open>bit\<close> of the code) are the byte being filled, \<open>i\<close> its index in \<open>dst\<close>.\<close>

fun odd_parity_loop :: "u8 list \<Rightarrow> nat \<Rightarrow> u8 \<Rightarrow> nat \<Rightarrow> u8 list \<Rightarrow> u8 list checked" where
  "odd_parity_loop [] i parity n dst = (if n \<noteq> 0 then mem_write dst i parity else Inr dst)"
| "odd_parity_loop (x # src) i parity n dst =
     (let parity = parity OR push_bit (7 - n) (nfc_util_odd_parity8 x); n = n + 1 in
      if n = 8 then checked_bind (mem_write dst i parity) (odd_parity_loop src (i + 1) 0 0)
      else odd_parity_loop src i parity n dst)"

definition nfc_util_odd_parity :: "u8 list \<Rightarrow> u8 list \<Rightarrow> u8 \<Rightarrow> u8 list checked" where
  "nfc_util_odd_parity src dst len =
     (if unat len \<le> length src then odd_parity_loop (take (unat len) src) 0 0 0 dst else Inl Out_Of_Bounds)"

section \<open>The cipher\<close>

record Crypto1 =
  cr_odd :: u32
  cr_even :: u32

abbreviation (input) LF_POLY_ODD :: u32 where "LF_POLY_ODD \<equiv> 0x29CE5C"
abbreviation (input) LF_POLY_EVEN :: u32 where "LF_POLY_EVEN \<equiv> 0x870804"

definition SWAPENDIAN :: "u32 \<Rightarrow> u32" where
  "SWAPENDIAN x =
     (let x = (drop_bit 8 x AND 0xff00ff) OR push_bit 8 (x AND 0xff00ff)
      in drop_bit 16 x OR push_bit 16 x)"

definition BEBIT :: "u32 \<Rightarrow> nat \<Rightarrow> u32" where
  "BEBIT x n = bit_read x (n XOR 24)"

definition crypto1_reset :: "Crypto1 \<Rightarrow> Crypto1" where
  "crypto1_reset crypto1 = crypto1\<lparr>cr_even := 0, cr_odd := 0\<rparr>"

text \<open>\<open>i\<close> runs through 47, 45, ..., 1.\<close>

definition crypto1_init :: "Crypto1 \<Rightarrow> u64 \<Rightarrow> Crypto1" where
  "crypto1_init crypto1 key =
     fold (\<lambda>i c. c\<lparr>cr_odd := push_bit 1 (cr_odd c) OR ucast (bit_read key ((i - 1) XOR 7)),
                   cr_even := push_bit 1 (cr_even c) OR ucast (bit_read key (i XOR 7))\<rparr>)
       (map (\<lambda>k. 47 - 2 * k) [0..<24]) (crypto1\<lparr>cr_even := 0, cr_odd := 0\<rparr>)"

definition crypto1_filter :: "u32 \<Rightarrow> u32" where
  "crypto1_filter i =
     (let out = drop_bit (unat (i AND 0xf)) 0xf22c0 AND 16;
          out = out OR (drop_bit (unat (drop_bit 4 i AND 0xf)) 0x6c9c0 AND 8);
          out = out OR (drop_bit (unat (drop_bit 8 i AND 0xf)) 0x3c8b0 AND 4);
          out = out OR (drop_bit (unat (drop_bit 12 i AND 0xf)) 0x1e458 AND 2);
          out = out OR (drop_bit (unat (drop_bit 16 i AND 0xf)) 0x0d938 AND 1)
      in bit_read 0xEC57E80A (unat (out :: u32)))"

definition crypto1_bit :: "Crypto1 \<Rightarrow> u8 \<Rightarrow> bool \<Rightarrow> u8 \<times> Crypto1" where
  "crypto1_bit crypto1 i is_encrypted =
     (let out = ucast (crypto1_filter (cr_odd crypto1)) :: u8;
          feed = ucast out AND of_bool is_encrypted;
          feed = feed XOR of_bool (i \<noteq> 0);
          feed = feed XOR (LF_POLY_ODD AND cr_odd crypto1);
          feed = feed XOR (LF_POLY_EVEN AND cr_even crypto1);
          crypto1 = crypto1\<lparr>cr_even := push_bit 1 (cr_even crypto1) OR ucast (nfc_util_even_parity32 feed)\<rparr>
      in (out, crypto1\<lparr>cr_odd := cr_even crypto1, cr_even := cr_odd crypto1\<rparr>))"

definition crypto1_byte :: "Crypto1 \<Rightarrow> u8 \<Rightarrow> bool \<Rightarrow> u8 \<times> Crypto1" where
  "crypto1_byte crypto1 x is_encrypted =
     fold (\<lambda>i (out, c). let (b, c) = crypto1_bit c (bit_read x i) is_encrypted in (out OR push_bit i b, c))
       [0..<8] (0, crypto1)"

definition crypto1_word :: "Crypto1 \<Rightarrow> u32 \<Rightarrow> bool \<Rightarrow> u32 \<times> Crypto1" where
  "crypto1_word crypto1 x is_encrypted =
     fold (\<lambda>i (out, c). let (b, c) = crypto1_bit c (ucast (BEBIT x i)) is_encrypted
                        in (out OR push_bit (24 XOR i) (ucast b), c))
       [0..<32] (0, crypto1)"

definition prng_step :: "u32 \<Rightarrow> u32" where
  "prng_step x = drop_bit 1 x OR push_bit 31 (drop_bit 16 x XOR drop_bit 18 x XOR drop_bit 19 x XOR drop_bit 21 x)"

definition crypto1_prng_successor :: "u32 \<Rightarrow> u32 \<Rightarrow> u32" where
  "crypto1_prng_successor x n = SWAPENDIAN ((prng_step ^^ unat n) (SWAPENDIAN x))"

section \<open>Frames\<close>

definition decrypt_step :: "u8 list \<Rightarrow> nat \<Rightarrow> Crypto1 \<times> BitBuffer \<Rightarrow> (Crypto1 \<times> BitBuffer) checked" where
  "decrypt_step encrypted_data i s =
     (case s of (crypto, out) \<Rightarrow>
        checked_bind (mem_read encrypted_data i) (\<lambda>e.
        let (k, crypto) = crypto1_byte crypto 0 False in
        checked_bind (bit_buffer_set_byte out i (k XOR e)) (\<lambda>out. Inr (crypto, out))))"

text \<open>The four bits a short frame is decrypted to, \<open>(crypto1_bit(crypto, 0, 0) ^ FURI_BIT(byte, i)) << i\<close> joined over \<open>i < n\<close>.\<close>

definition crypt_bits :: "nat \<Rightarrow> Crypto1 \<Rightarrow> u8 \<Rightarrow> u8 \<times> Crypto1" where
  "crypt_bits n crypto byte =
     fold (\<lambda>i (out, c). let (b, c) = crypto1_bit c 0 False in (out OR push_bit i (b XOR bit_read byte i), c))
       [0..<n] (0, crypto)"

definition crypto1_decrypt :: "Crypto1 \<Rightarrow> BitBuffer \<Rightarrow> BitBuffer \<Rightarrow> (Crypto1 \<times> BitBuffer) checked" where
  "crypto1_decrypt crypto buff out =
     (let bits = bit_buffer_get_size buff in
      checked_bind (bit_buffer_set_size out bits) (\<lambda>out.
      let encrypted_data = bit_buffer_get_data buff in
      if bits < 8
      then checked_bind (mem_read encrypted_data 0) (\<lambda>encrypted_byte.
           let (decrypted_byte, crypto) = crypt_bits 4 crypto encrypted_byte in
           checked_bind (bit_buffer_set_byte out 0 decrypted_byte) (\<lambda>out. Inr (crypto, out)))
      else fold (\<lambda>i r. checked_bind r (decrypt_step encrypted_data i)) [0..<bits div 8] (Inr (crypto, out))))"

definition encrypt_step ::
  "u8 list option \<Rightarrow> u8 list \<Rightarrow> nat \<Rightarrow> Crypto1 \<times> BitBuffer \<Rightarrow> (Crypto1 \<times> BitBuffer) checked" where
  "encrypt_step keystream plain_data i s =
     (case s of (crypto, out) \<Rightarrow>
        checked_bind (case keystream of Some ks \<Rightarrow> mem_read ks i | None \<Rightarrow> Inr 0) (\<lambda>k_in.
        checked_bind (mem_read plain_data i) (\<lambda>p.
        let (k, crypto) = crypto1_byte crypto k_in False;
            parity_bit = (ucast (crypto1_filter (cr_odd crypto)) XOR nfc_util_odd_parity8 p) AND 0x01 in
        checked_bind (bit_buffer_set_byte_with_parity out i (k XOR p) (parity_bit \<noteq> 0)) (\<lambda>out. Inr (crypto, out)))))"

definition crypto1_encrypt ::
  "Crypto1 \<Rightarrow> u8 list option \<Rightarrow> BitBuffer \<Rightarrow> BitBuffer \<Rightarrow> (Crypto1 \<times> BitBuffer) checked" where
  "crypto1_encrypt crypto keystream buff out =
     (let bits = bit_buffer_get_size buff in
      checked_bind (bit_buffer_set_size out bits) (\<lambda>out.
      let plain_data = bit_buffer_get_data buff in
      if bits < 8
      then checked_bind (if bits = 0 then Inr 0 else mem_read plain_data 0) (\<lambda>plain_byte.
           let (encrypted_byte, crypto) = crypt_bits bits crypto plain_byte in
           checked_bind (bit_buffer_set_byte out 0 encrypted_byte) (\<lambda>out. Inr (crypto, out)))
      else fold (\<lambda>i r. checked_bind r (encrypt_step keystream plain_data i)) [0..<bits div 8] (Inr (crypto, out))))"

text \<open>The two loops of \<open>crypto1_encrypt_reader_nonce\<close>; the first also overwrites the nonce by its ciphertext.\<close>

definition reader_nonce_step ::
  "nat \<Rightarrow> Crypto1 \<times> u8 list \<times> BitBuffer \<Rightarrow> (Crypto1 \<times> u8 list \<times> BitBuffer) checked" where
  "reader_nonce_step i s =
     (case s of (crypto, nr, out) \<Rightarrow>
        checked_bind (mem_read nr i) (\<lambda>n.
        let (k, crypto) = crypto1_byte crypto n False; byte = k XOR n;
            parity_bit = (ucast (crypto1_filter (cr_odd crypto)) XOR nfc_util_odd_parity8 n) AND 0x01 in
        checked_bind (bit_buffer_set_byte_with_parity out i byte (parity_bit \<noteq> 0)) (\<lambda>out.
        checked_bind (mem_write nr i byte) (\<lambda>nr. Inr (crypto, nr, out)))))"

definition reader_answer_step ::
  "nat \<Rightarrow> Crypto1 \<times> u32 \<times> BitBuffer \<Rightarrow> (Crypto1 \<times> u32 \<times> BitBuffer) checked" where
  "reader_answer_step i s =
     (case s of (crypto, nt_num, out) \<Rightarrow>
        let nt_num = crypto1_prng_successor nt_num 8;
            (k, crypto) = crypto1_byte crypto 0 False; byte = k XOR ucast nt_num;
            parity_bit = (ucast (crypto1_filter (cr_odd crypto)) XOR nfc_util_odd_parity8 (ucast nt_num)) AND 0x01 in
        checked_bind (bit_buffer_set_byte_with_parity out i byte (parity_bit \<noteq> 0)) (\<lambda>out. Inr (crypto, nt_num, out)))"

definition crypto1_encrypt_reader_nonce ::
  "Crypto1 \<Rightarrow> u64 \<Rightarrow> u32 \<Rightarrow> u8 list \<Rightarrow> u8 list \<Rightarrow> BitBuffer \<Rightarrow> bool \<Rightarrow> (Crypto1 \<times> u8 list \<times> BitBuffer) checked" where
  "crypto1_encrypt_reader_nonce crypto key cuid nt nr out is_nested =
     checked_bind (bit_buffer_set_size_bytes out 8) (\<lambda>out.
     case bit_lib_bytes_to_num_be nt 4 of None \<Rightarrow> Inl Furi_Check | Some nt64 \<Rightarrow>
     let nt_num = ucast nt64;
         crypto = crypto1_init crypto key;
         (ks, crypto) = crypto1_word crypto (nt_num XOR cuid) is_nested;
         nt_num = (if is_nested then ks XOR nt_num else nt_num) in
     checked_bind (fold (\<lambda>i r. checked_bind r (reader_nonce_step i)) [0..<4] (Inr (crypto, nr, out))) (\<lambda>(crypto, nr, out).
     let nt_num = crypto1_prng_successor nt_num 32 in
     checked_bind (fold (\<lambda>i r. checked_bind r (reader_answer_step i)) [4..<8] (Inr (crypto, nt_num, out))) (\<lambda>(crypto, nt_num, out).
     Inr (crypto, nr, out))))"

section \<open>Running the cipher backwards\<close>

definition lfsr_rollback_bit :: "Crypto1 \<Rightarrow> u32 \<Rightarrow> bool \<Rightarrow> u8 \<times> Crypto1" where
  "lfsr_rollback_bit crypto1 i fb =
     (let crypto1 = crypto1\<lparr>cr_odd := cr_odd crypto1 AND 0xffffff\<rparr>;
          t = cr_odd crypto1;
          crypto1 = crypto1\<lparr>cr_odd := cr_even crypto1\<rparr>;
          crypto1 = crypto1\<lparr>cr_even := t\<rparr>;
          out = cr_even crypto1 AND 1;
          crypto1 = crypto1\<lparr>cr_even := drop_bit 1 (cr_even crypto1)\<rparr>;
          out = out XOR (LF_POLY_EVEN AND cr_even crypto1);
          out = out XOR (LF_POLY_ODD AND cr_odd crypto1);
          out = out XOR of_bool (i \<noteq> 0);
          ret = ucast (crypto1_filter (cr_odd crypto1)) :: u8;
          out = out XOR (ucast ret AND of_bool fb)
      in (ret, crypto1\<lparr>cr_even := cr_even crypto1 OR push_bit 23 (ucast (nfc_util_even_parity32 out))\<rparr>))"

definition crypto1_lfsr_rollback_word :: "Crypto1 \<Rightarrow> u32 \<Rightarrow> bool \<Rightarrow> u32 \<times> Crypto1" where
  "crypto1_lfsr_rollback_word crypto1 x fb =
     fold (\<lambda>i (ret, c). let (b, c) = lfsr_rollback_bit c (BEBIT x i) fb
                        in (ret OR push_bit (24 XOR i) (ucast b), c))
       (rev [0..<32]) (0, crypto1)"

section \<open>Nonces\<close>

definition crypto1_nonce_matches_encrypted_parity_bits :: "u32 \<Rightarrow> u32 \<Rightarrow> u8 \<Rightarrow> bool" where
  "crypto1_nonce_matches_encrypted_parity_bits nt ks nt_par_enc \<longleftrightarrow>
     ucast (nfc_util_even_parity8 (ucast (drop_bit 24 nt AND 0xFF))) = ucast (bit_read nt_par_enc 3) XOR bit_read ks 16 \<and>
     ucast (nfc_util_even_parity8 (ucast (drop_bit 16 nt AND 0xFF))) = ucast (bit_read nt_par_enc 2) XOR bit_read ks 8 \<and>
     ucast (nfc_util_even_parity8 (ucast (drop_bit 8 nt AND 0xFF))) = ucast (bit_read nt_par_enc 1) XOR bit_read ks 0"

definition weak_prng_step :: "u16 \<Rightarrow> u16" where
  "weak_prng_step x = drop_bit 1 x OR push_bit 15 (x XOR drop_bit 2 x XOR drop_bit 3 x XOR drop_bit 5 x)"

definition crypto1_is_weak_prng_nonce :: "u32 \<Rightarrow> bool" where
  "crypto1_is_weak_prng_nonce nonce =
     (if nonce = 0 then False
      else let x = ucast (drop_bit 16 nonce) :: u16;
               x = push_bit 8 (x AND 0xff) OR drop_bit 8 x;
               x = (weak_prng_step ^^ 16) x;
               x = push_bit 8 (x AND 0xff) OR drop_bit 8 x
           in ucast x = nonce AND 0xFFFF)"

text \<open>\<open>crypto_temp\<close> is an uninitialised local which \<open>crypto1_init\<close> overwrites.\<close>

definition crypto1_decrypt_nt_enc :: "u32 \<Rightarrow> u32 \<Rightarrow> u8 list \<Rightarrow> Crypto1 \<Rightarrow> u32 option" where
  "crypto1_decrypt_nt_enc cuid nt_enc known_key crypto_temp =
     (case bit_lib_bytes_to_num_be known_key 6 of
        None \<Rightarrow> None
      | Some known_key_int \<Rightarrow>
          let crypto_temp = crypto1_init crypto_temp known_key_int;
              crypto_temp = snd (crypto1_word crypto_temp (nt_enc XOR cuid) True)
          in Some (nt_enc XOR fst (crypto1_lfsr_rollback_word crypto_temp (nt_enc XOR cuid) True)))"

section \<open>One bit forward and back\<close>

definition filter_bit :: "u32 \<Rightarrow> bool" where
  "filter_bit x \<longleftrightarrow> crypto1_filter x \<noteq> 0"

lemma filter_of_bool: "crypto1_filter x = of_bool (filter_bit x)"
  by (simp add: filter_bit_def crypto1_filter_def Let_def bit_read_of_bool)

lemma and_0xf_take: "drop_bit n x AND 0xf = take_bit 4 (drop_bit n (x :: 'a::len word))"
  by (simp add: take_bit_eq_mask mask_eq_exp_minus_1)

lemma filter_take_bit: "crypto1_filter (take_bit 24 x) = crypto1_filter x"
proof -
  have "take_bit 4 (drop_bit n (take_bit 24 x)) = take_bit 4 (drop_bit n x)" if "n \<le> 16" for n
    by (rule bit_word_eqI) (use that in \<open>auto simp: bit_simps\<close>)
  from this [of 0] this [of 4] this [of 8] this [of 12] this [of 16] show ?thesis
    unfolding crypto1_filter_def and_0xf_take and_0xf_take [of 0, simplified] by simp
qed

lemma odd_length_filter_xor:
  "odd (length (filter (\<lambda>j. p j \<noteq> q j) xs)) \<longleftrightarrow> odd (length (filter p xs)) \<noteq> odd (length (filter q xs))"
  by (induction xs) auto

lemma parity_xor: "builtin_parity (a XOR b) \<longleftrightarrow> builtin_parity a \<noteq> builtin_parity b"
  unfolding builtin_parity_def builtin_popcount_def bit_xor_iff by (rule odd_length_filter_xor)

lemma parity_of_bool: "builtin_parity (of_bool b) = b"
proof -
  have "[0..<32] = 0 # [1..<32]" by (simp add: upt_conv_Cons)
  moreover have "filter (bit (of_bool b :: u32)) [1..<32] = []"
    by (auto simp: filter_empty_conv bit_1_iff)
  ultimately show ?thesis by (simp add: builtin_parity_def builtin_popcount_def)
qed

lemma even_parity32: "nfc_util_even_parity32 x = of_bool (builtin_parity x)"
  by (simp add: nfc_util_even_parity32_def)

definition feedback :: "Crypto1 \<Rightarrow> bool \<Rightarrow> bool \<Rightarrow> bool" where
  "feedback c b e \<longleftrightarrow>
     (((filter_bit (cr_odd c) \<and> e) \<noteq> b) \<noteq> builtin_parity (LF_POLY_ODD AND cr_odd c)) \<noteq>
       builtin_parity (LF_POLY_EVEN AND cr_even c)"

lemma ucast_of_bool_word: "ucast (of_bool b :: 'a::len word) = (of_bool b :: 'b::len word)"
  by (cases b) simp_all

lemma crypto1_bit_alt:
  "crypto1_bit c i e =
     (of_bool (filter_bit (cr_odd c)),
      c\<lparr>cr_odd := push_bit 1 (cr_even c) OR of_bool (feedback c (i \<noteq> 0) e), cr_even := cr_odd c\<rparr>)"
proof -
  have "(of_bool a AND of_bool b :: u32) = of_bool (a \<and> b)" for a b by simp
  then show ?thesis
    unfolding crypto1_bit_def Let_def filter_of_bool even_parity32 ucast_of_bool_word parity_xor feedback_def
    by (simp add: parity_of_bool parity_xor del: of_bool_eq)
qed

definition low24 :: "Crypto1 \<Rightarrow> Crypto1" where
  "low24 c = c\<lparr>cr_odd := take_bit 24 (cr_odd c), cr_even := take_bit 24 (cr_even c)\<rparr>"

lemma low24_low24 [simp]: "low24 (low24 c) = low24 c"
  by (simp add: low24_def)

lemma low24_eq: "low24 c = low24 d \<longleftrightarrow> take_bit 24 (cr_odd c) = take_bit 24 (cr_odd d) \<and>
    take_bit 24 (cr_even c) = take_bit 24 (cr_even d)"
  by (cases c; cases d) (auto simp: low24_def)

lemma and_take_bit: "take_bit n a = a \<Longrightarrow> a AND take_bit n x = a AND (x :: 'a::len word)"
  by (metis and.right_neutral and.assoc and.commute take_bit_eq_mask take_bit_and)

lemma poly_take_bit:
  "LF_POLY_ODD AND take_bit 24 x = LF_POLY_ODD AND x" "LF_POLY_EVEN AND take_bit 24 x = LF_POLY_EVEN AND x"
  by (rule and_take_bit, simp add: take_bit_eq_mask mask_eq_exp_minus_1)+

lemma filter_bit_take_bit: "filter_bit (take_bit 24 x) = filter_bit x"
  by (simp add: filter_bit_def filter_take_bit)

lemma filter_bit_low24:
  "low24 c = low24 d \<Longrightarrow> filter_bit (cr_odd c) = filter_bit (cr_odd d) \<and> filter_bit (cr_even c) = filter_bit (cr_even d)"
  unfolding low24_eq by (metis filter_bit_take_bit)

lemma feedback_low24: "low24 c = low24 d \<Longrightarrow> feedback c b e = feedback d b e"
  unfolding feedback_def low24_eq by (metis filter_bit_take_bit poly_take_bit)

definition roll_feedback :: "Crypto1 \<Rightarrow> bool \<Rightarrow> bool \<Rightarrow> bool" where
  "roll_feedback c b e \<longleftrightarrow>
     (((bit (cr_odd c) 0 \<noteq> builtin_parity (LF_POLY_EVEN AND take_bit 23 (drop_bit 1 (cr_odd c)))) \<noteq>
         builtin_parity (LF_POLY_ODD AND cr_even c)) \<noteq> b) \<noteq> (filter_bit (cr_even c) \<and> e)"

lemma drop_bit_and_mask: "drop_bit 1 (x AND 0xffffff) = take_bit 23 (drop_bit 1 (x :: u32))"
proof -
  have "x AND 0xffffff = take_bit 24 x" by (simp add: take_bit_eq_mask mask_eq_exp_minus_1)
  then show ?thesis by (simp add: drop_bit_take_bit)
qed

lemma rollback_bit_alt:
  "lfsr_rollback_bit c i e =
     (of_bool (filter_bit (cr_even c)),
      c\<lparr>cr_odd := cr_even c,
        cr_even := take_bit 23 (drop_bit 1 (cr_odd c)) OR push_bit 23 (of_bool (roll_feedback c (i \<noteq> 0) e))\<rparr>)"
proof -
  have 1: "(of_bool a AND of_bool b :: u32) = of_bool (a \<and> b)" for a b by simp
  have 2: "(x AND 0xffffff) AND 1 = of_bool (bit x 0)" for x :: u32
  proof -
    have "(x AND 0xffffff) AND 1 = x AND 1" by (simp add: and.assoc)
    then show ?thesis by (simp add: and_one_eq mod_2_eq_odd bit_0)
  qed
  show ?thesis
    by (cases c) (simp only: lfsr_rollback_bit_def Let_def filter_of_bool even_parity32 ucast_of_bool_word roll_feedback_def
      Crypto1.select_convs Crypto1.update_convs 1 2 drop_bit_and_mask parity_of_bool parity_xor prod.inject simp_thms)
qed

lemma rollback_bit:
  assumes "low24 d = low24 (snd (crypto1_bit c i e))" "(j \<noteq> 0) = (i \<noteq> 0)"
  shows "fst (lfsr_rollback_bit d j e) = fst (crypto1_bit c i e)"
    "low24 (snd (lfsr_rollback_bit d j e)) = low24 c"
    "cr_odd (snd (lfsr_rollback_bit d j e)) = cr_even d"
    "take_bit 24 (cr_even (snd (lfsr_rollback_bit d j e))) = cr_even (snd (lfsr_rollback_bit d j e))"
proof -
  let ?f = "feedback c (i \<noteq> 0) e"
  have ev: "take_bit 24 (cr_even d) = take_bit 24 (cr_odd c)"
    and od: "take_bit 24 (cr_odd d) = take_bit 24 (push_bit 1 (cr_even c) OR of_bool ?f)"
    using assms(1) by (simp_all add: low24_eq crypto1_bit_alt)
  have b: "n < 24 \<Longrightarrow> bit (cr_odd d) n \<longleftrightarrow> (if n = 0 then ?f else bit (cr_even c) (n - 1))" for n
    using arg_cong [OF od, of "\<lambda>w. bit w n"] unfolding bit_take_bit_iff bit_shift_in by auto
  have t: "take_bit 23 (drop_bit 1 (cr_odd d)) = take_bit 23 (cr_even c)"
    by (rule bit_word_eqI) (auto simp: bit_simps b)
  have split: "take_bit 24 x = take_bit 23 x XOR push_bit 23 (of_bool (bit x 23))" for x :: u32
    by (rule bit_word_eqI) (auto simp: bit_simps bit_1_iff less_Suc_eq numeral_eq_Suc)
  have p23: "builtin_parity (LF_POLY_EVEN AND push_bit 23 (of_bool b)) = b" for b
    by (cases b) (simp_all add: builtin_parity_def builtin_popcount_def, code_simp)
  have pe: "builtin_parity (LF_POLY_EVEN AND take_bit 23 x) = (builtin_parity (LF_POLY_EVEN AND x) \<noteq> bit x 23)" for x
    using p23 [of "bit x 23"]
    by (subst (2) poly_take_bit(2) [symmetric], subst split) (auto simp: bit.conj_xor_distrib parity_xor simp del: of_bool_eq)
  have fe: "filter_bit (cr_even d) = filter_bit (cr_odd c)" "LF_POLY_ODD AND cr_even d = LF_POLY_ODD AND cr_odd c"
    using ev by (metis filter_bit_take_bit, metis poly_take_bit(1))
  have r: "roll_feedback d (j \<noteq> 0) e = bit (cr_even c) 23"
    unfolding roll_feedback_def t pe fe assms(2) using b [of 0] by (auto simp: feedback_def)
  show "fst (lfsr_rollback_bit d j e) = fst (crypto1_bit c i e)"
    by (simp add: rollback_bit_alt crypto1_bit_alt fe)
  show "cr_odd (snd (lfsr_rollback_bit d j e)) = cr_even d" by (simp add: rollback_bit_alt)
  have e: "cr_even (snd (lfsr_rollback_bit d j e)) = take_bit 24 (cr_even c)"
  proof -
    have "cr_even (snd (lfsr_rollback_bit d j e)) = take_bit 23 (cr_even c) OR push_bit 23 (of_bool (bit (cr_even c) 23))"
      by (simp only: rollback_bit_alt r t) simp
    also have "\<dots> = take_bit 24 (cr_even c)"
      by (rule bit_word_eqI) (auto simp: bit_simps bit_1_iff less_Suc_eq numeral_eq_Suc)
    finally show ?thesis .
  qed
  show "low24 (snd (lfsr_rollback_bit d j e)) = low24 c"
    unfolding low24_eq e using ev by (simp add: rollback_bit_alt)
  show "take_bit 24 (cr_even (snd (lfsr_rollback_bit d j e))) = cr_even (snd (lfsr_rollback_bit d j e))"
    unfolding e by simp
qed

section \<open>Runs of the cipher\<close>

fun run :: "('s \<Rightarrow> bool \<Rightarrow> bool \<times> 's) \<Rightarrow> bool list \<Rightarrow> 's \<Rightarrow> bool list \<times> 's" where
  "run f [] c = ([], c)"
| "run f (b # bs) c = (let (k, c) = f c b; (ks, c) = run f bs c in (k # ks, c))"

definition clock :: "bool \<Rightarrow> Crypto1 \<Rightarrow> bool \<Rightarrow> bool \<times> Crypto1" where
  "clock e c b = (filter_bit (cr_odd c), snd (crypto1_bit c (of_bool b) e))"

definition unclock :: "bool \<Rightarrow> Crypto1 \<Rightarrow> bool \<Rightarrow> bool \<times> Crypto1" where
  "unclock e c b = (filter_bit (cr_even c), snd (lfsr_rollback_bit c (of_bool b) e))"

lemma length_run [simp]: "length (fst (run f bs c)) = length bs"
  by (induction bs arbitrary: c) (auto simp: Let_def case_prod_beta)

lemma run_append:
  "run f (as @ bs) c = (fst (run f as c) @ fst (run f bs (snd (run f as c))), snd (run f bs (snd (run f as c))))"
  by (induction as arbitrary: c) (auto simp: Let_def case_prod_beta)

lemma crypto1_bit_clock: "crypto1_bit c i e = (of_bool (fst (clock e c (i \<noteq> 0))), snd (clock e c (i \<noteq> 0)))"
  by (simp add: clock_def crypto1_bit_alt)

lemma rollback_bit_unclock:
  "lfsr_rollback_bit c i e = (of_bool (fst (unclock e c (i \<noteq> 0))), snd (unclock e c (i \<noteq> 0)))"
  by (simp add: unclock_def rollback_bit_alt)

text \<open>A loop that collects the output bits of a run, bit \<open>i\<close> at position \<open>pos i\<close> of a word.\<close>

lemma collect_loop:
  assumes "\<And>i c. h i c = (of_bool (fst (f c (g i))), snd (f c (g i)))"
  shows "fold (\<lambda>i (out, c). let (b, c) = h i c in (out OR push_bit (pos i) (ucast (b :: u8)), c)) is (out, c) =
    (fold (\<lambda>(i, k) out. out OR push_bit (pos i) (of_bool k)) (zip is (fst (run f (map g is) c))) (out :: 'a::len word),
     snd (run f (map g is) c))"
  by (induction "is" arbitrary: out c) (simp_all add: assms Let_def case_prod_beta ucast_of_bool_word)

lemma bit_collected:
  "length ks = length is \<Longrightarrow>
   bit (fold (\<lambda>(i, k) out. out OR push_bit (pos i) (of_bool k)) (zip is ks) (out :: 'a::len word)) n \<longleftrightarrow>
     bit out n \<or> n < LENGTH('a) \<and> (\<exists>m < length is. pos (is ! m) = n \<and> ks ! m)"
proof (induction ks "is" arbitrary: out rule: list_induct2)
  case (Cons k ks i "is")
  show ?case
    unfolding zip_Cons_Cons fold_simps comp_apply case_prod_conv Cons.IH
    by (cases k) (auto simp: bit_simps bit_1_iff nth_Cons Ex_less_Suc2 less_Suc_eq_0_disj)
qed simp

definition byte_bits :: "u8 \<Rightarrow> bool list" where
  "byte_bits x = map (bit x) [0..<8]"

definition word_bits :: "u32 \<Rightarrow> bool list" where
  "word_bits x = map (\<lambda>i. bit x (i XOR 24)) [0..<32]"

lemma xor_24_less: "i < 32 \<Longrightarrow> i XOR 24 < (32 :: nat)"
proof -
  assume "i < 32"
  then have "take_bit 5 i = i" by (simp add: take_bit_nat_eq_self)
  moreover have "take_bit 5 (24 :: nat) = 24" by (simp add: take_bit_eq_mod)
  ultimately have "take_bit 5 (i XOR 24) = i XOR 24" by (metis take_bit_xor)
  then show ?thesis using take_bit_nat_less_exp [of 5 "i XOR 24"] by simp
qed

lemma xor_24_24 [simp]: "(i XOR 24) XOR 24 = (i :: nat)" "24 XOR (24 XOR i) = (i :: nat)"
  by (simp_all add: xor.assoc) (simp add: xor.assoc [symmetric])

lemma length_byte_bits [simp]: "length (byte_bits x) = 8" "length (word_bits y) = 32"
  by (simp_all add: byte_bits_def word_bits_def)

lemma byte_bits_eqI: "byte_bits x = byte_bits y \<Longrightarrow> x = y"
  by (rule bit_word_eqI) (simp add: byte_bits_def)

lemma word_bits_eqI:
  assumes "word_bits x = word_bits y"
  shows "x = y"
proof (rule bit_word_eqI)
  fix n assume "n < LENGTH(32)"
  then have "n XOR 24 < 32" using xor_24_less by simp
  then have "bit x (n XOR 24 XOR 24) = bit y (n XOR 24 XOR 24)"
    using arg_cong [OF assms, of "\<lambda>l. l ! (n XOR 24)"] by (simp add: word_bits_def)
  then show "bit x n = bit y n" by simp
qed

lemma crypto1_byte_run:
  "byte_bits (fst (crypto1_byte c x e)) = fst (run (clock e) (byte_bits x) c)"
  "snd (crypto1_byte c x e) = snd (run (clock e) (byte_bits x) c)"
proof -
  have m: "map (\<lambda>i. bit_read x i \<noteq> 0) [0..<8] = byte_bits x" by (simp add: byte_bits_def)
  note l = collect_loop [where g = "\<lambda>i. bit_read x i \<noteq> 0" and f = "clock e" and pos = id
      and h = "\<lambda>i c. crypto1_bit c (bit_read x i) e" and 'a = 8, OF crypto1_bit_clock, of "[0..<8]" 0 c,
      unfolded m id_apply ucast_id, folded crypto1_byte_def]
  show "snd (crypto1_byte c x e) = snd (run (clock e) (byte_bits x) c)" by (simp add: l)
  show "byte_bits (fst (crypto1_byte c x e)) = fst (run (clock e) (byte_bits x) c)"
    unfolding l by (rule nth_equalityI) (auto simp: byte_bits_def bit_collected)
qed

lemma bit_collected_word:
  assumes "length ks = 32" "m < 32"
  shows "bit (fold (\<lambda>(i, k) out. out OR push_bit (24 XOR i) (of_bool k)) (zip [0..<32] ks) (0 :: u32)) (m XOR 24) = ks ! m"
  using assms xor_24_less [OF assms(2)] 
  by (auto simp: bit_collected xor.commute [of 24] dest: arg_cong [where f = "\<lambda>i. i XOR (24 :: nat)"])

lemma crypto1_word_run:
  "word_bits (fst (crypto1_word c x e)) = fst (run (clock e) (word_bits x) c)"
  "snd (crypto1_word c x e) = snd (run (clock e) (word_bits x) c)"
proof -
  have m: "map (\<lambda>i. ucast (BEBIT x i) \<noteq> (0 :: u8)) [0..<32] = word_bits x"
    by (simp add: word_bits_def BEBIT_def bit_read_of_bool ucast_of_bool_word)
  note l = collect_loop [where g = "\<lambda>i. ucast (BEBIT x i) \<noteq> (0 :: u8)" and f = "clock e" and pos = "\<lambda>i. 24 XOR i"
      and h = "\<lambda>i c. crypto1_bit c (ucast (BEBIT x i)) e" and 'a = 32, OF crypto1_bit_clock, of "[0..<32]" 0 c,
      unfolded m, folded crypto1_word_def]
  show "snd (crypto1_word c x e) = snd (run (clock e) (word_bits x) c)" by (simp add: l)
  show "word_bits (fst (crypto1_word c x e)) = fst (run (clock e) (word_bits x) c)"
    unfolding l by (rule nth_equalityI) (simp_all add: word_bits_def bit_collected_word)
qed

lemma snd_clock: "snd (clock e c b) = snd (crypto1_bit c (of_bool b) e)"
  by (simp add: clock_def)

lemma run_unclock:
  "low24 d = low24 (snd (run (clock e) bs c)) \<Longrightarrow>
   fst (run (unclock e) (rev bs) d) = rev (fst (run (clock e) bs c)) \<and>
   low24 (snd (run (unclock e) (rev bs) d)) = low24 c"
proof (induction bs arbitrary: d rule: rev_induct)
  case (snoc b bs)
  let ?c = "snd (run (clock e) bs c)"
  have d: "low24 d = low24 (snd (crypto1_bit ?c (of_bool b) e))"
    using snoc.prems by (simp only: run_append run.simps snd_clock case_prod_beta Let_def snd_conv)
  note r = rollback_bit [OF d, of "of_bool b"]
  have d': "low24 (snd (unclock e d b)) = low24 ?c" using r(2) by (simp add: unclock_def)
  have k: "fst (unclock e d b) = fst (clock e ?c b)"
    using r(1) by (simp add: unclock_def clock_def rollback_bit_alt crypto1_bit_alt of_bool_eq_iff)
  show ?case using snoc.IH [OF d'] k by (simp add: run_append case_prod_beta Let_def)
qed simp

lemma low24_unclock:
  "take_bit 24 (cr_even (snd (unclock e d b))) = cr_even (snd (unclock e d b))"
  "low24 (snd (unclock e (snd (unclock e d a)) b)) = snd (unclock e (snd (unclock e d a)) b)"
proof -
  show ev: "take_bit 24 (cr_even (snd (unclock e d b))) = cr_even (snd (unclock e d b))" for d b
    unfolding unclock_def rollback_bit_alt by (simp only: snd_conv Crypto1.simps) (rule bit_word_eqI, auto simp: bit_simps bit_1_iff)
  have "cr_odd (snd (unclock e d b)) = cr_even d" for d b by (simp add: unclock_def rollback_bit_alt)
  then show "low24 (snd (unclock e (snd (unclock e d a)) b)) = snd (unclock e (snd (unclock e d a)) b)"
    using ev by (simp add: low24_def)
qed

lemma low24_run_unclock:
  assumes "2 \<le> length bs"
  shows "low24 (snd (run (unclock e) bs d)) = snd (run (unclock e) bs d)"
proof -
  obtain as x y where bs: "bs = as @ [x, y]"
    using assms by (cases bs rule: rev_cases; cases "butlast bs" rule: rev_cases) auto
  show ?thesis by (simp add: bs run_append Let_def case_prod_beta low24_unclock)
qed

lemma rollback_word_run:
  "crypto1_lfsr_rollback_word d x e =
    (fold (\<lambda>(i, k) out. out OR push_bit (24 XOR i) (of_bool k))
       (zip (rev [0..<32]) (fst (run (unclock e) (rev (word_bits x)) d))) 0,
     snd (run (unclock e) (rev (word_bits x)) d))"
proof -
  have m: "map (\<lambda>i. BEBIT x i \<noteq> 0) (rev [0..<32]) = rev (word_bits x)"
    by (simp add: word_bits_def BEBIT_def rev_map)
  show ?thesis
    using collect_loop [where g = "\<lambda>i. BEBIT x i \<noteq> 0" and f = "unclock e" and pos = "\<lambda>i. 24 XOR i"
      and h = "\<lambda>i c. lfsr_rollback_bit c (BEBIT x i) e" and 'a = 32, OF rollback_bit_unclock, of "rev [0..<32]" 0 d]
    unfolding m crypto1_lfsr_rollback_word_def .
qed

lemma word_bits_collect_rev:
  assumes "length ks = 32"
  shows "word_bits (fold (\<lambda>(i, k) out. out OR push_bit (24 XOR i) (of_bool k)) (zip (rev [0..<32]) (rev ks)) 0) = ks"
proof (rule nth_equalityI)
  show "length (word_bits (fold (\<lambda>(i, k) out. out OR push_bit (24 XOR i) (of_bool k)) (zip (rev [0..<32]) (rev ks)) 0)) = length ks"
    using assms by simp
  fix m assume "m < length (word_bits (fold (\<lambda>(i, k) out. out OR push_bit (24 XOR i) (of_bool k)) (zip (rev [0..<32]) (rev ks)) 0))"
  then have m: "m < 32" by simp
  have eq: "24 XOR i = m XOR 24 \<longleftrightarrow> i = m" for i by (metis xor.commute xor_24_24(1))
  have "(\<exists>j<32. rev [0..<32] ! j = m \<and> rev ks ! j) \<longleftrightarrow> ks ! m"
  proof
    assume "ks ! m"
    then show "\<exists>j<32. rev [0..<32] ! j = m \<and> rev ks ! j"
      using m assms by (intro exI [of _ "31 - m"]) (auto simp: rev_nth)
  qed (use assms in \<open>auto simp: rev_nth\<close>)
  then show "word_bits (fold (\<lambda>(i, k) out. out OR push_bit (24 XOR i) (of_bool k)) (zip (rev [0..<32]) (rev ks)) 0) ! m = ks ! m"
    using m assms xor_24_less [OF m] by (simp add: word_bits_def bit_collected eq)
qed

text \<open>
  C15 (roundtrip): rolling the cipher back over a word undoes clocking it: with the same input word and mode,
  \<open>crypto1_lfsr_rollback_word\<close> returns the keystream that \<open>crypto1_word\<close> returned and the state before it, each half
  cut to its 24 bits.
\<close>

theorem crypto1_rollback:
  "crypto1_lfsr_rollback_word (snd (crypto1_word c x fb)) x fb =
     (fst (crypto1_word c x fb), c\<lparr>cr_odd := cr_odd c AND 0xFFFFFF, cr_even := cr_even c AND 0xFFFFFF\<rparr>)"
proof -
  let ?d = "snd (crypto1_word c x fb)"
  note r = run_unclock [of ?d fb "word_bits x" c, unfolded crypto1_word_run, OF refl]
  have "snd (crypto1_lfsr_rollback_word ?d x fb) = low24 c"
    unfolding rollback_word_run snd_conv crypto1_word_run using conjunct2 [OF r] low24_run_unclock [of "rev (word_bits x)"] by simp
  also have "low24 c = c\<lparr>cr_odd := cr_odd c AND 0xFFFFFF, cr_even := cr_even c AND 0xFFFFFF\<rparr>"
    by (simp add: low24_def take_bit_eq_mask mask_eq_exp_minus_1)
  finally have s: "snd (crypto1_lfsr_rollback_word ?d x fb) = \<dots>" .
  have "word_bits (fst (crypto1_lfsr_rollback_word ?d x fb)) = word_bits (fst (crypto1_word c x fb))"
    unfolding rollback_word_run fst_conv crypto1_word_run conjunct1 [OF r] by (rule word_bits_collect_rev) simp
  then have "fst (crypto1_lfsr_rollback_word ?d x fb) = fst (crypto1_word c x fb)" by (rule word_bits_eqI)
  with s show ?thesis by (metis prod.collapse)
qed

text \<open>Feeding the ciphertext in the encrypted mode is feeding the plaintext in the plain mode.\<close>

lemma clock_encrypted: "clock True c (b \<noteq> fst (clock False c b)) = clock False c b"
  by (simp add: clock_def crypto1_bit_alt feedback_def) (metis (full_types))

lemma run_encrypted:
  "run (clock True) (map2 (\<noteq>) bs (fst (run (clock False) bs c))) c = run (clock False) bs c"
  by (induction bs arbitrary: c) (simp_all add: clock_encrypted [simplified] case_prod_beta Let_def)

lemma word_bits_xor: "word_bits (x XOR y) = map2 (\<noteq>) (word_bits x) (word_bits y)"
  by (rule nth_equalityI) (auto simp: word_bits_def bit_xor_iff)

lemma byte_bits_xor: "byte_bits (x XOR y) = map2 (\<noteq>) (byte_bits x) (byte_bits y)"
  by (rule nth_equalityI) (auto simp: byte_bits_def bit_xor_iff)

lemma crypto1_word_encrypted:
  "crypto1_word c (x XOR fst (crypto1_word c x False)) True = crypto1_word c x False"
proof (rule prod_eqI)
  have r: "run (clock True) (word_bits (x XOR fst (crypto1_word c x False))) c = run (clock False) (word_bits x) c"
    unfolding word_bits_xor crypto1_word_run by (rule run_encrypted)
  show "snd (crypto1_word c (x XOR fst (crypto1_word c x False)) True) = snd (crypto1_word c x False)"
    unfolding crypto1_word_run r ..
  show "fst (crypto1_word c (x XOR fst (crypto1_word c x False)) True) = fst (crypto1_word c x False)"
    by (rule word_bits_eqI) (subst crypto1_word_run, subst crypto1_word_run, simp only: r)
qed

text \<open>
  From a nonce encrypted in a nested authentication and the right key, \<open>crypto1_decrypt_nt_enc\<close>
  recovers the nonce, although the cipher is fed the ciphertext first and is rolled back.
\<close>

theorem decrypt_nt_enc_correct:
  assumes "bit_lib_bytes_to_num_be key 6 = Some k"
    "ks = fst (crypto1_word (crypto1_init c k) (nt XOR cuid) False)"
  shows "crypto1_decrypt_nt_enc cuid (nt XOR ks) key c = Some nt"
proof -
  have "(nt XOR ks) XOR cuid = (nt XOR cuid) XOR ks" by (simp add: xor.assoc xor.commute xor.left_commute)
  then show ?thesis
    using crypto1_word_encrypted [of "crypto1_init c k" "nt XOR cuid"]
    by (simp add: crypto1_decrypt_nt_enc_def assms(1) crypto1_rollback Let_def assms(2) [symmetric] xor.assoc)
qed

theorem decrypt_nt_enc_correct_witness:
  "crypto1_decrypt_nt_enc 0x12345678
     (0xCAFEBABE XOR fst (crypto1_word (crypto1_init \<lparr>cr_odd = 1, cr_even = 2\<rparr> 0xA0A1A2A3A4A5) (0xCAFEBABE XOR 0x12345678) False))
     [0xA0, 0xA1, 0xA2, 0xA3, 0xA4, 0xA5] \<lparr>cr_odd = 1, cr_even = 2\<rparr> = Some 0xCAFEBABE"
proof -
  have k: "bit_lib_bytes_to_num_be [0xA0, 0xA1, 0xA2, 0xA3, 0xA4, 0xA5] 6 = Some 0xA0A1A2A3A4A5" by code_simp
  show ?thesis by (rule decrypt_nt_enc_correct [OF k refl])
qed

section \<open>The nonce generator\<close>

lemma less_32_cases:
  assumes "j < (32 :: nat)"
  obtains i where "i < 16" "j = i" | i where "i < 16" "j = 16 + i"
  using assms that(1) [of j] that(2) [of "j - 16"] by (cases "j < 16") auto

lemma bit_swapendian: "j < 32 \<Longrightarrow> bit (SWAPENDIAN x) j = bit x (j XOR 24)"
  by (erule less_32_cases; erule less_16_cases) (simp_all add: SWAPENDIAN_def Let_def bit_iffs, simp add: eval_nat_numeral)

lemma swapendian_swapendian [simp]: "SWAPENDIAN (SWAPENDIAN x) = x"
  by (rule bit_word_eqI) (simp add: bit_swapendian xor_24_less)

lemma prng_successor_add:
  "unat m + unat n < 2 ^ 32 \<Longrightarrow>
   crypto1_prng_successor (crypto1_prng_successor x m) n = crypto1_prng_successor x (m + n)"
  by (simp add: crypto1_prng_successor_def funpow_add unat_add_lem [THEN iffD1] add.commute [of m n])

definition hi16 :: "u32 \<Rightarrow> u16" where
  "hi16 r = ucast (drop_bit 16 r)"

definition lo16 :: "u32 \<Rightarrow> u16" where
  "lo16 r = ucast r"

lemma hi16_step: "hi16 (prng_step r) = weak_prng_step (hi16 r)"
  by (rule bit_word_eqI) (auto simp: hi16_def prng_step_def weak_prng_step_def bit_simps)

lemma hi16_steps: "hi16 ((prng_step ^^ n) r) = (weak_prng_step ^^ n) (hi16 r)"
  by (induction n) (simp_all add: hi16_step)

lemma bit_prng_steps: "j + n < 32 \<Longrightarrow> bit ((prng_step ^^ n) r) j = bit r (j + n)"
proof (induction n arbitrary: j)
  case (Suc n)
  then have "bit (prng_step ((prng_step ^^ n) r)) j = bit ((prng_step ^^ n) r) (Suc j)"
    by (simp add: prng_step_def bit_simps)
  with Suc.IH [of "Suc j"] Suc.prems show ?case by simp
qed simp

lemma lo16_steps: "lo16 ((prng_step ^^ 16) r) = hi16 r"
proof (rule bit_word_eqI)
  fix j assume "j < LENGTH(16)"
  then show "bit (lo16 ((prng_step ^^ 16) r)) j = bit (hi16 r) j"
    using bit_prng_steps [of j 16 r] by (simp add: lo16_def hi16_def bit_simps add.commute)
qed

lemma halves_eqI:
  assumes h: "hi16 r = hi16 s" and l: "lo16 r = lo16 s"
  shows "r = s"
proof (rule bit_word_eqI)
  fix j assume "j < LENGTH(32)"
  then have "j < 32" by simp
  then show "bit r j = bit s j"
  proof (rule less_32_cases)
    fix i assume "i < 16" "j = i"
    then show ?thesis using arg_cong [OF l, of "\<lambda>w. bit w i"] by (simp add: lo16_def bit_simps)
  next
    fix i assume "i < 16" "j = 16 + i"
    then show ?thesis using arg_cong [OF h, of "\<lambda>w. bit w i"] by (simp add: hi16_def bit_simps add.commute)
  qed
qed

definition swap16 :: "u16 \<Rightarrow> u16" where
  "swap16 x = push_bit 8 (x AND 0xff) OR drop_bit 8 x"

lemma swap16_hi16: "swap16 (hi16 n) = lo16 (SWAPENDIAN n)"
proof (rule bit_word_eqI)
  fix j assume "j < LENGTH(16)"
  then have j: "j < 16" by simp
  have "bit (swap16 x) j = bit x (j XOR 8)" for x
    using j by (rule less_16_cases) (simp_all add: swap16_def bit_iffs, simp add: eval_nat_numeral)
  moreover have "bit (hi16 n) (j XOR 8) = bit n (j XOR 24)"
    using j by (rule less_16_cases) (simp_all add: hi16_def bit_simps)
  ultimately show "bit (swap16 (hi16 n)) j = bit (lo16 (SWAPENDIAN n)) j"
    using j by (simp add: lo16_def bit_simps bit_swapendian)
qed

lemma swap16_swap16 [simp]: "swap16 (swap16 x) = x"
  by (rule bit_word_eqI, simp, erule less_16_cases) (simp_all add: swap16_def bit_iffs)

lemma weak_prng_nonce_alt:
  "crypto1_is_weak_prng_nonce n \<longleftrightarrow>
     n \<noteq> 0 \<and> hi16 (SWAPENDIAN n) = (weak_prng_step ^^ 16) (lo16 (SWAPENDIAN n))"
proof -
  have lo: "ucast (swap16 y) = n AND 0xFFFF \<longleftrightarrow> swap16 y = lo16 n" for y
  proof -
    have len_le: "LENGTH(16) \<le> LENGTH(32)" by simp
    have "ucast (lo16 n) = n AND 0xFFFF"
    proof -
      have "n AND 0xFFFF = take_bit 16 n" by (simp add: take_bit_eq_mask mask_eq_exp_minus_1)
      then show ?thesis by (intro bit_word_eqI) (auto simp: lo16_def bit_simps)
    qed
    then show ?thesis by (metis ucast_inj_up [where 'a = 16 and 'b = 32] len_le)
  qed
  have inv: "swap16 y = lo16 n \<longleftrightarrow> hi16 (SWAPENDIAN n) = y" for y
    by (metis swap16_swap16 swap16_hi16 swapendian_swapendian)
  show ?thesis
    unfolding crypto1_is_weak_prng_nonce_def Let_def hi16_def [symmetric] swap16_def [symmetric] swap16_hi16 lo inv by simp
qed

text \<open>
  The test for weak nonces, which looks at 16 of the 32 bits only, accepts exactly the non-zero
  nonces that the 16-bit generator of the card produces.
\<close>

theorem weak_prng_nonce_iff:
  "crypto1_is_weak_prng_nonce n \<longleftrightarrow> n \<noteq> 0 \<and> (\<exists>x. n = crypto1_prng_successor x 16)"
proof -
  have iff: "hi16 r = (weak_prng_step ^^ 16) (lo16 r) \<longleftrightarrow> (\<exists>s. r = (prng_step ^^ 16) s)" for r
  proof
    assume h: "hi16 r = (weak_prng_step ^^ 16) (lo16 r)"
    let ?s = "push_bit 16 (ucast (lo16 r)) :: u32"
    have "hi16 ?s = lo16 r" by (rule bit_word_eqI) (auto simp: hi16_def bit_simps)
    then have "r = (prng_step ^^ 16) ?s"
      by (intro halves_eqI) (simp_all only: h hi16_steps lo16_steps)
    then show "\<exists>s. r = (prng_step ^^ 16) s" ..
  next
    assume "\<exists>s. r = (prng_step ^^ 16) s"
    then show "hi16 r = (weak_prng_step ^^ 16) (lo16 r)" by (auto simp only: hi16_steps lo16_steps)
  qed
  have unat16: "unat (16 :: u32) = 16" by simp
  have "(\<exists>x. n = crypto1_prng_successor x 16) \<longleftrightarrow> (\<exists>s. SWAPENDIAN n = (prng_step ^^ 16) s)"
    unfolding crypto1_prng_successor_def by (metis swapendian_swapendian unat16)
  then show ?thesis by (simp only: weak_prng_nonce_alt iff)
qed

end
