(* ===== verification/Mf_Classic_Listener.thy ===== *)
theory Mf_Classic_Listener
  imports Mf_Classic Nfc_Crypto1 Nfc_Crc
begin

text \<open>
  The emulation of a MIFARE Classic card (\<^verbatim>\<open>lib/nfc/protocols/mf_classic/mf_classic_listener.c\<close>): the state
  of the emulated card, one definition per command handler, the table of handlers and the event loop body
  \<open>mf_classic_listener_run\<close>.

  What the card sends is appended to \<open>sent\<close> (with or without custom parity bits) and what it reports to the
  application to \<open>events\<close>; \<open>callback\<close> says whether the application has registered a callback, which
  is taken not to change the emulated card. The four random bytes of a new nonce, which the code takes from the
  hardware, are an argument of the handlers. The result of a transmission is not used by the code. Signed
  arithmetic wraps around, as the compiled code does.
\<close>

section \<open>State\<close>

datatype MfClassicListenerCommand =
    MfClassicListenerCommandProcessed | MfClassicListenerCommandAck | MfClassicListenerCommandNack
  | MfClassicListenerCommandSilent | MfClassicListenerCommandSleep

datatype MfClassicListenerState = MfClassicListenerStateIdle | MfClassicListenerStateAuthComplete

datatype MfClassicListenerCommState = MfClassicListenerCommStatePlain | MfClassicListenerCommStateEncrypted

datatype MfClassicValueCommand =
    MfClassicValueCommandIncrement | MfClassicValueCommandDecrement | MfClassicValueCommandRestore
  | MfClassicValueCommandInvalid

record MfClassicAuthContext =
  block_num :: u8
  key :: "u8 list"
  key_type :: MfClassicKeyType
  nt :: "u8 list"
  nr :: "u8 list"
  ar :: "u8 list"
  at :: "u8 list"

datatype MfClassicListenerEvent =
    MfClassicListenerEventTypeAuthContextPartCollected MfClassicAuthContext
  | MfClassicListenerEventTypeAuthContextFullCollected MfClassicAuthContext

datatype card_frame = Tx BitBuffer | Tx_With_Custom_Parity BitBuffer

datatype NfcCommand = NfcCommandContinue | NfcCommandReset | NfcCommandStop | NfcCommandSleep

datatype Iso14443_3aListenerEvent =
    Iso14443_3aListenerEventTypeFieldOff
  | Iso14443_3aListenerEventTypeHalted
  | Iso14443_3aListenerEventTypeReceivedStandardFrame BitBuffer
  | Iso14443_3aListenerEventTypeReceivedData BitBuffer

record MfClassicListener =
  state :: MfClassicListenerState
  comm_state :: MfClassicListenerCommState
  data :: MfClassicData
  tx_plain_buffer :: BitBuffer
  tx_encrypted_buffer :: BitBuffer
  rx_plain_buffer :: BitBuffer
  crypto :: Crypto1
  auth_context :: MfClassicAuthContext
  write_block :: u8
  transfer_value :: u32
  transfer_valid :: bool
  value_cmd :: MfClassicValueCommand
  callback :: bool
  cmd_in_progress :: bool
  current_cmd_idx :: nat
  current_cmd_handler_idx :: nat
  total_block_num :: nat
  sent :: "card_frame list"
  events :: "MfClassicListenerEvent list"

type_synonym handler = "u8 list \<Rightarrow> MfClassicListener \<Rightarrow> BitBuffer \<Rightarrow> (MfClassicListenerCommand \<times> MfClassicListener) checked"

definition iso14443_3a_listener_tx :: "MfClassicListener \<Rightarrow> BitBuffer \<Rightarrow> MfClassicListener" where
  "iso14443_3a_listener_tx inst tx_buffer = inst\<lparr>sent := sent inst @ [Tx tx_buffer]\<rparr>"

definition iso14443_3a_listener_tx_with_custom_parity :: "MfClassicListener \<Rightarrow> BitBuffer \<Rightarrow> MfClassicListener" where
  "iso14443_3a_listener_tx_with_custom_parity inst tx_buffer =
     inst\<lparr>sent := sent inst @ [Tx_With_Custom_Parity tx_buffer]\<rparr>"

definition listener_callback :: "(MfClassicAuthContext \<Rightarrow> MfClassicListenerEvent) \<Rightarrow> MfClassicListener \<Rightarrow> MfClassicListener" where
  "listener_callback ev inst =
     (if callback inst then inst\<lparr>events := events inst @ [ev (auth_context inst)]\<rparr> else inst)"

definition zero_auth_context :: MfClassicAuthContext where
  "zero_auth_context = \<lparr>block_num = 0, key = replicate 6 0, key_type = MfClassicKeyTypeA,
     nt = replicate 4 0, nr = replicate 4 0, ar = replicate 4 0, at = replicate 4 0\<rparr>"

definition mf_classic_listener_prepare_emulation :: "MfClassicListener \<Rightarrow> MfClassicListener" where
  "mf_classic_listener_prepare_emulation inst =
     inst\<lparr>total_block_num := unat (mf_classic_get_total_block_num (mf_type (data inst)))\<rparr>"

definition mf_classic_listener_reset_state :: "MfClassicListener \<Rightarrow> MfClassicListener" where
  "mf_classic_listener_reset_state inst =
     inst\<lparr>crypto := crypto1_reset (crypto inst), auth_context := zero_auth_context,
       comm_state := MfClassicListenerCommStatePlain, state := MfClassicListenerStateIdle,
       cmd_in_progress := False, current_cmd_handler_idx := 0, write_block := 0, transfer_value := 0,
       transfer_valid := False, value_cmd := MfClassicValueCommandInvalid\<rparr>"

section \<open>Handlers\<close>

definition mf_classic_listener_halt_handler :: handler where
  "mf_classic_listener_halt_handler rnd inst buff =
     checked_bind (bit_buffer_get_byte buff 1) (\<lambda>b.
     Inr (if b = 0x00 then MfClassicListenerCommandSleep else MfClassicListenerCommandNack, inst))"

text \<open>The first answer of the card: its nonce, in the clear or, during a session, encrypted with the new key.\<close>

definition mf_classic_listener_auth_first_part_handler ::
  "u8 list \<Rightarrow> MfClassicListener \<Rightarrow> MfClassicKeyType \<Rightarrow> u8 \<Rightarrow> (MfClassicListenerCommand \<times> MfClassicListener) checked" where
  "mf_classic_listener_auth_first_part_handler rnd inst kt bn =
     (let inst = inst\<lparr>state := MfClassicListenerStateIdle\<rparr> in
      if unat bn \<ge> total_block_num inst then Inr (MfClassicListenerCommandNack, inst)
      else
        checked_bind (mf_classic_get_sector_trailer_by_sector (mf_classic_get_sector_by_block bn)) (\<lambda>tr.
        let sec_tr = block (data inst) ! unat tr;
            k = (if kt = MfClassicKeyTypeA then take 6 sec_tr else take 6 (drop 10 sec_tr)) in
        case bit_lib_bytes_to_num_be k 6 of None \<Rightarrow> Inl Furi_Check | Some key_num \<Rightarrow>
        let cuid = iso14443_3a_get_cuid (iso14443_3a_data (data inst));
            inst = inst\<lparr>auth_context := (auth_context inst)\<lparr>key_type := kt, block_num := bn, nt := rnd\<rparr>\<rparr> in
        case bit_lib_bytes_to_num_be rnd 4 of None \<Rightarrow> Inl Furi_Check | Some n \<Rightarrow>
        let nt_num = ucast n :: u32;
            inst = inst\<lparr>crypto := crypto1_init (crypto inst) key_num\<rparr> in
        checked_bind
          (if comm_state inst = MfClassicListenerCommStatePlain
           then let inst = inst\<lparr>crypto := snd (crypto1_word (crypto inst) (nt_num XOR cuid) False)\<rparr> in
                checked_bind (bit_buffer_copy_bytes (tx_encrypted_buffer inst) (nt (auth_context inst)) 4) (\<lambda>tx.
                Inr (iso14443_3a_listener_tx (inst\<lparr>tx_encrypted_buffer := tx\<rparr>) tx))
           else (case bit_lib_num_to_bytes_be (ucast (nt_num XOR cuid)) 4 (replicate 4 0) of
                   None \<Rightarrow> Inl Furi_Check
                 | Some key_stream \<Rightarrow>
                     checked_bind (bit_buffer_copy_bytes (tx_plain_buffer inst) (nt (auth_context inst)) 4) (\<lambda>plain.
                     checked_bind (crypto1_encrypt (crypto inst) (Some key_stream) plain (tx_encrypted_buffer inst)) (\<lambda>(c, tx).
                     Inr (iso14443_3a_listener_tx_with_custom_parity
                       (inst\<lparr>crypto := c, tx_plain_buffer := plain, tx_encrypted_buffer := tx\<rparr>) tx))))) (\<lambda>inst.
        Inr (MfClassicListenerCommandProcessed,
          inst\<lparr>cmd_in_progress := True, current_cmd_handler_idx := current_cmd_handler_idx inst + 1\<rparr>))))"

definition mf_classic_listener_auth_key_a_handler :: handler where
  "mf_classic_listener_auth_key_a_handler rnd inst buff =
     checked_bind (bit_buffer_get_byte buff 1) (mf_classic_listener_auth_first_part_handler rnd inst MfClassicKeyTypeA)"

definition mf_classic_listener_auth_key_b_handler :: handler where
  "mf_classic_listener_auth_key_b_handler rnd inst buff =
     checked_bind (bit_buffer_get_byte buff 1) (mf_classic_listener_auth_first_part_handler rnd inst MfClassicKeyTypeB)"

text \<open>The second part: check the reader's answer, send the card's answer and start the session.\<close>

definition mf_classic_listener_auth_second_part_handler :: handler where
  "mf_classic_listener_auth_second_part_handler rnd inst buff =
     (let inst = inst\<lparr>cmd_in_progress := False\<rparr> in
      if bit_buffer_get_size_bytes buff \<noteq> 4 + 4 then Inr (MfClassicListenerCommandSleep, inst)
      else
        checked_bind (bit_buffer_write_bytes_mid buff (nr (auth_context inst)) 0 4) (\<lambda>nr'.
        checked_bind (bit_buffer_write_bytes_mid buff (ar (auth_context inst)) 4 4) (\<lambda>ar'.
        let inst = inst\<lparr>auth_context := (auth_context inst)\<lparr>nr := nr', ar := ar'\<rparr>\<rparr>;
            inst = listener_callback MfClassicListenerEventTypeAuthContextPartCollected inst in
        case (bit_lib_bytes_to_num_be nr' 4, bit_lib_bytes_to_num_be ar' 4,
              bit_lib_bytes_to_num_be (nt (auth_context inst)) 4) of
          (Some nr64, Some ar64, Some nt64) \<Rightarrow>
            (let nr_num = ucast nr64 :: u32; ar_num = ucast ar64 :: u32; nt_num = ucast nt64 :: u32;
                 inst = inst\<lparr>crypto := snd (crypto1_word (crypto inst) nr_num True)\<rparr>;
                 (w, c) = crypto1_word (crypto inst) 0 False;
                 inst = inst\<lparr>crypto := c\<rparr>;
                 secret_poller = ar_num XOR w in
             if secret_poller \<noteq> crypto1_prng_successor nt_num 64 then Inr (MfClassicListenerCommandSleep, inst)
             else
               (case bit_lib_num_to_bytes_be (ucast (crypto1_prng_successor nt_num 96)) 4 (at (auth_context inst)) of
                  None \<Rightarrow> Inl Furi_Check
                | Some at' \<Rightarrow>
                    let inst = inst\<lparr>auth_context := (auth_context inst)\<lparr>at := at'\<rparr>\<rparr> in
                    checked_bind (bit_buffer_copy_bytes (tx_plain_buffer inst) at' 4) (\<lambda>plain.
                    checked_bind (crypto1_encrypt (crypto inst) None plain (tx_encrypted_buffer inst)) (\<lambda>(c, tx).
                    let inst = iso14443_3a_listener_tx_with_custom_parity
                          (inst\<lparr>crypto := c, tx_plain_buffer := plain, tx_encrypted_buffer := tx\<rparr>) tx;
                        inst = inst\<lparr>state := MfClassicListenerStateAuthComplete,
                          comm_state := MfClassicListenerCommStateEncrypted\<rparr> in
                    Inr (MfClassicListenerCommandProcessed,
                      listener_callback MfClassicListenerEventTypeAuthContextFullCollected inst)))))
        | _ \<Rightarrow> Inl Furi_Check)))"

text \<open>\<open>memset(b + i, 0, n)\<close> if access is denied.\<close>

definition hide :: "bool \<Rightarrow> nat \<Rightarrow> nat \<Rightarrow> u8 list \<Rightarrow> u8 list checked" where
  "hide allowed i n b = (if allowed then Inr b else mem_copy b i (replicate n 0) 0 n)"

definition mf_classic_listener_read_block_handler :: handler where
  "mf_classic_listener_read_block_handler rnd inst buff =
     (if state inst \<noteq> MfClassicListenerStateAuthComplete then Inr (MfClassicListenerCommandNack, inst)
      else
        checked_bind (bit_buffer_get_byte buff 1) (\<lambda>bn.
        let kt = key_type (auth_context inst) in
        if mf_classic_get_sector_by_block bn \<noteq> mf_classic_get_sector_by_block (block_num (auth_context inst))
        then Inr (MfClassicListenerCommandNack, inst)
        else
          checked_bind
            (let access_block = block (data inst) ! unat bn in
             if mf_classic_is_sector_trailer bn
             then checked_bind (mf_classic_is_allowed_access (data inst) bn kt MfClassicActionKeyARead) (\<lambda>a.
                  checked_bind (hide a 0 6 access_block) (\<lambda>access_block.
                  checked_bind (mf_classic_is_allowed_access (data inst) bn kt MfClassicActionKeyBRead) (\<lambda>a.
                  checked_bind (hide a 10 6 access_block) (\<lambda>access_block.
                  checked_bind (mf_classic_is_allowed_access (data inst) bn kt MfClassicActionACRead) (\<lambda>a.
                  checked_bind (hide a 6 4 access_block) (\<lambda>access_block. Inr (Some access_block)))))))
             else checked_bind (mf_classic_is_allowed_access (data inst) bn kt MfClassicActionDataRead) (\<lambda>a.
                  Inr (if a then Some access_block else None))) (\<lambda>access_block.
          case access_block of None \<Rightarrow> Inr (MfClassicListenerCommandNack, inst) | Some access_block \<Rightarrow>
          checked_bind (bit_buffer_copy_bytes (tx_plain_buffer inst) access_block 16) (\<lambda>plain.
          checked_bind (iso14443_crc_append Iso14443CrcTypeA plain) (\<lambda>plain.
          checked_bind (crypto1_encrypt (crypto inst) None plain (tx_encrypted_buffer inst)) (\<lambda>(c, tx).
          Inr (MfClassicListenerCommandProcessed,
            iso14443_3a_listener_tx_with_custom_parity
              (inst\<lparr>crypto := c, tx_plain_buffer := plain, tx_encrypted_buffer := tx\<rparr>) tx)))))))"

definition mf_classic_listener_write_block_first_part_handler :: handler where
  "mf_classic_listener_write_block_first_part_handler rnd inst buff =
     (if state inst \<noteq> MfClassicListenerStateAuthComplete then Inr (MfClassicListenerCommandNack, inst)
      else
        checked_bind (bit_buffer_get_byte buff 1) (\<lambda>bn.
        if unat bn \<ge> total_block_num inst then Inr (MfClassicListenerCommandNack, inst)
        else if bn = 0 then Inr (MfClassicListenerCommandNack, inst)
        else if mf_classic_get_sector_by_block bn \<noteq> mf_classic_get_sector_by_block (block_num (auth_context inst))
        then Inr (MfClassicListenerCommandNack, inst)
        else Inr (MfClassicListenerCommandAck,
          inst\<lparr>write_block := bn, cmd_in_progress := True,
            current_cmd_handler_idx := current_cmd_handler_idx inst + 1\<rparr>)))"

text \<open>\<open>bit_buffer_write_bytes_mid(buff, b + i, i, n)\<close> if access is allowed.\<close>

definition write_field :: "bool \<Rightarrow> BitBuffer \<Rightarrow> nat \<Rightarrow> nat \<Rightarrow> u8 list \<Rightarrow> u8 list checked" where
  "write_field allowed buff i n b =
     (if allowed
      then checked_bind (bit_buffer_write_bytes_mid buff (drop i b) i n) (\<lambda>d. Inr (take i b @ d))
      else Inr b)"

definition mf_classic_listener_write_block_second_part_handler :: handler where
  "mf_classic_listener_write_block_second_part_handler rnd inst buff =
     (let inst = inst\<lparr>cmd_in_progress := False\<rparr> in
      if bit_buffer_get_size_bytes buff \<noteq> 16 then Inr (MfClassicListenerCommandNack, inst)
      else
        let bn = write_block inst; kt = key_type (auth_context inst); b = block (data inst) ! unat bn in
        checked_bind
          (if mf_classic_is_sector_trailer bn
           then checked_bind (mf_classic_is_allowed_access (data inst) bn kt MfClassicActionKeyAWrite) (\<lambda>aw.
                checked_bind (mf_classic_is_allowed_access (data inst) bn kt MfClassicActionKeyBWrite) (\<lambda>bw.
                checked_bind (mf_classic_is_allowed_access (data inst) bn kt MfClassicActionACWrite) (\<lambda>acw.
                if \<not> aw \<and> \<not> bw \<and> \<not> acw then Inr None
                else
                  checked_bind (write_field aw buff 0 6 b) (\<lambda>b.
                  checked_bind (write_field bw buff 10 6 b) (\<lambda>b.
                  checked_bind (write_field acw buff 6 4 b) (\<lambda>b. Inr (Some b)))))))
           else checked_bind (mf_classic_is_allowed_access (data inst) bn kt MfClassicActionDataWrite) (\<lambda>w.
                if w then checked_bind (write_field True buff 0 16 b) (\<lambda>b. Inr (Some b)) else Inr None)) (\<lambda>b.
        Inr (case b of
               None \<Rightarrow> (MfClassicListenerCommandNack, inst)
             | Some b \<Rightarrow> (MfClassicListenerCommandAck, inst\<lparr>data := (data inst)\<lparr>block := (block (data inst))[unat bn := b]\<rparr>\<rparr>))))"

definition mf_classic_listener_value_cmd_handler :: handler where
  "mf_classic_listener_value_cmd_handler rnd inst buff =
     (if state inst \<noteq> MfClassicListenerStateAuthComplete then Inr (MfClassicListenerCommandNack, inst)
      else
        checked_bind (bit_buffer_get_byte buff 1) (\<lambda>bn.
        if unat bn \<ge> total_block_num inst then Inr (MfClassicListenerCommandNack, inst)
        else if mf_classic_get_sector_by_block bn \<noteq> mf_classic_get_sector_by_block (block_num (auth_context inst))
        then Inr (MfClassicListenerCommandNack, inst)
        else
          checked_bind (bit_buffer_get_byte buff 0) (\<lambda>cmd.
          let go = (\<lambda>vc action.
            let inst = inst\<lparr>value_cmd := vc\<rparr> in
            checked_bind (mf_classic_is_allowed_access (data inst) bn (key_type (auth_context inst)) action) (\<lambda>a.
            if \<not> a then Inr (MfClassicListenerCommandNack, inst)
            else
              let (ok, v, _) = mf_classic_block_to_value (block (data inst) ! unat bn);
                  inst = inst\<lparr>transfer_value := v\<rparr> in
              if \<not> ok then Inr (MfClassicListenerCommandNack, inst)
              else Inr (MfClassicListenerCommandAck,
                inst\<lparr>transfer_valid := True, cmd_in_progress := True,
                  current_cmd_handler_idx := current_cmd_handler_idx inst + 1\<rparr>))) in
          if cmd = 0xC0 then go MfClassicValueCommandDecrement MfClassicActionDataDec
          else if cmd = 0xC1 then go MfClassicValueCommandIncrement MfClassicActionDataInc
          else if cmd = 0xC2 then go MfClassicValueCommandRestore MfClassicActionDataDec
          else Inr (MfClassicListenerCommandNack, inst))))"

definition mf_classic_listener_value_dec_handler :: handler where
  "mf_classic_listener_value_dec_handler = mf_classic_listener_value_cmd_handler"

definition mf_classic_listener_value_inc_handler :: handler where
  "mf_classic_listener_value_inc_handler = mf_classic_listener_value_cmd_handler"

definition mf_classic_listener_value_restore_handler :: handler where
  "mf_classic_listener_value_restore_handler = mf_classic_listener_value_cmd_handler"

definition mf_classic_listener_value_data_receive_handler :: handler where
  "mf_classic_listener_value_data_receive_handler rnd inst buff =
     (if bit_buffer_get_size_bytes buff \<noteq> 4 then Inr (MfClassicListenerCommandNack, inst)
      else
        checked_bind (bit_buffer_write_bytes_mid buff (replicate 4 0) 0 4) (\<lambda>bytes.
        let d = load_u32 bytes 0;
            d = (if sint d < 0 then - d else d);
            d = (if value_cmd inst = MfClassicValueCommandDecrement then - d
                 else if value_cmd inst = MfClassicValueCommandRestore then 0 else d) in
        Inr (MfClassicListenerCommandSilent,
          inst\<lparr>transfer_value := transfer_value inst + d, transfer_valid := True, cmd_in_progress := True,
            current_cmd_handler_idx := current_cmd_handler_idx inst + 1\<rparr>)))"

definition mf_classic_listener_value_transfer_handler :: handler where
  "mf_classic_listener_value_transfer_handler rnd inst buff =
     (let inst = inst\<lparr>cmd_in_progress := False\<rparr> in
      if bit_buffer_get_size_bytes buff \<noteq> 2 then Inr (MfClassicListenerCommandNack, inst)
      else
        checked_bind (bit_buffer_get_byte buff 0) (\<lambda>cmd.
        if cmd \<noteq> 0xB0 then Inr (MfClassicListenerCommandNack, inst)
        else
          checked_bind (bit_buffer_get_byte buff 1) (\<lambda>bn.
          checked_bind (mf_classic_is_allowed_access (data inst) bn (key_type (auth_context inst)) MfClassicActionDataDec) (\<lambda>a.
          if \<not> a then Inr (MfClassicListenerCommandNack, inst)
          else
            checked_bind (mf_classic_value_to_block (transfer_value inst) bn (block (data inst) ! unat bn)) (\<lambda>b.
            Inr (MfClassicListenerCommandAck,
              inst\<lparr>data := (data inst)\<lparr>block := (block (data inst))[unat bn := b]\<rparr>,
                transfer_value := 0, transfer_valid := False\<rparr>))))))"

section \<open>The handler table and the event loop\<close>

record MfClassicListenerCmd =
  cmd_start_byte :: u8
  cmd_len_bits :: nat
  cmd_handler :: "handler list"

definition mf_classic_listener_value_handlers :: "handler \<Rightarrow> handler list" where
  "mf_classic_listener_value_handlers first =
     [first, mf_classic_listener_value_data_receive_handler, mf_classic_listener_value_transfer_handler]"

definition mf_classic_listener_cmd_handlers :: "MfClassicListenerCmd list" where
  "mf_classic_listener_cmd_handlers =
    [\<lparr>cmd_start_byte = 0x50, cmd_len_bits = 2 * 8, cmd_handler = [mf_classic_listener_halt_handler]\<rparr>,
     \<lparr>cmd_start_byte = 0x50, cmd_len_bits = 15, cmd_handler = [mf_classic_listener_halt_handler]\<rparr>,
     \<lparr>cmd_start_byte = 0x60, cmd_len_bits = 2 * 8,
      cmd_handler = [mf_classic_listener_auth_key_a_handler, mf_classic_listener_auth_second_part_handler]\<rparr>,
     \<lparr>cmd_start_byte = 0x61, cmd_len_bits = 2 * 8,
      cmd_handler = [mf_classic_listener_auth_key_b_handler, mf_classic_listener_auth_second_part_handler]\<rparr>,
     \<lparr>cmd_start_byte = 0x30, cmd_len_bits = 2 * 8, cmd_handler = [mf_classic_listener_read_block_handler]\<rparr>,
     \<lparr>cmd_start_byte = 0xA0, cmd_len_bits = 2 * 8,
      cmd_handler = [mf_classic_listener_write_block_first_part_handler, mf_classic_listener_write_block_second_part_handler]\<rparr>,
     \<lparr>cmd_start_byte = 0xC0, cmd_len_bits = 2 * 8,
      cmd_handler = mf_classic_listener_value_handlers mf_classic_listener_value_dec_handler\<rparr>,
     \<lparr>cmd_start_byte = 0xC1, cmd_len_bits = 2 * 8,
      cmd_handler = mf_classic_listener_value_handlers mf_classic_listener_value_inc_handler\<rparr>,
     \<lparr>cmd_start_byte = 0xC2, cmd_len_bits = 2 * 8,
      cmd_handler = mf_classic_listener_value_handlers mf_classic_listener_value_restore_handler\<rparr>]"

definition mf_classic_listener_send_short_frame :: "MfClassicListener \<Rightarrow> u8 \<Rightarrow> MfClassicListener checked" where
  "mf_classic_listener_send_short_frame inst d =
     checked_bind (bit_buffer_set_size (tx_plain_buffer inst) 4) (\<lambda>plain.
     checked_bind (bit_buffer_set_byte plain 0 d) (\<lambda>plain.
     let inst = inst\<lparr>tx_plain_buffer := plain\<rparr> in
     if comm_state inst = MfClassicListenerCommStateEncrypted
     then checked_bind (crypto1_encrypt (crypto inst) None plain (tx_encrypted_buffer inst)) (\<lambda>(c, tx).
          Inr (iso14443_3a_listener_tx_with_custom_parity (inst\<lparr>crypto := c, tx_encrypted_buffer := tx\<rparr>) tx))
     else Inr (iso14443_3a_listener_tx_with_custom_parity inst plain)))"

text \<open>The frame the handlers see: decrypted, and without its checksum if that is right, during a session.\<close>

definition listener_receive :: "MfClassicListener \<Rightarrow> BitBuffer \<Rightarrow> (MfClassicListener \<times> BitBuffer) checked" where
  "listener_receive inst buffer =
     (if comm_state inst = MfClassicListenerCommStateEncrypted \<and> state inst = MfClassicListenerStateAuthComplete
      then checked_bind (crypto1_decrypt (crypto inst) buffer (rx_plain_buffer inst)) (\<lambda>(c, rx).
           checked_bind (iso14443_crc_check Iso14443CrcTypeA rx) (\<lambda>ok.
           checked_bind (if ok then iso14443_crc_trim rx else Inr rx) (\<lambda>rx.
           Inr (inst\<lparr>crypto := c, rx_plain_buffer := rx\<rparr>, rx))))
      else Inr (inst, buffer))"

text \<open>The loop that looks for the command; \<open>i\<close> is the index of the first entry of \<open>cmds\<close>.\<close>

fun find_command ::
  "MfClassicListenerCmd list \<Rightarrow> nat \<Rightarrow> u8 list \<Rightarrow> MfClassicListener \<Rightarrow> BitBuffer \<Rightarrow>
     (MfClassicListenerCommand \<times> MfClassicListener) checked" where
  "find_command [] i rnd inst rx = Inr (MfClassicListenerCommandNack, inst)"
| "find_command (cmd # cmds) i rnd inst rx =
     (if bit_buffer_get_size rx \<noteq> cmd_len_bits cmd then find_command cmds (i + 1) rnd inst rx
      else
        checked_bind (bit_buffer_get_byte rx 0) (\<lambda>b.
        if b \<noteq> cmd_start_byte cmd then find_command cmds (i + 1) rnd inst rx
        else
          checked_bind (mem_read (cmd_handler cmd) 0) (\<lambda>h.
          h rnd (inst\<lparr>current_cmd_idx := i, current_cmd_handler_idx := 0\<rparr>) rx)))"

definition listener_dispatch ::
  "u8 list \<Rightarrow> MfClassicListener \<Rightarrow> BitBuffer \<Rightarrow> (MfClassicListenerCommand \<times> MfClassicListener) checked" where
  "listener_dispatch rnd inst rx =
     (if cmd_in_progress inst
      then checked_bind (mem_read mf_classic_listener_cmd_handlers (current_cmd_idx inst)) (\<lambda>cmd.
           checked_bind (mem_read (cmd_handler cmd) (current_cmd_handler_idx inst)) (\<lambda>h. h rnd inst rx))
      else find_command mf_classic_listener_cmd_handlers 0 rnd inst rx)"

definition listener_answer :: "MfClassicListenerCommand \<Rightarrow> MfClassicListener \<Rightarrow> (NfcCommand \<times> MfClassicListener) checked" where
  "listener_answer mfc_command inst =
     (case mfc_command of
        MfClassicListenerCommandAck \<Rightarrow>
          checked_bind (mf_classic_listener_send_short_frame inst 0x0A) (\<lambda>inst. Inr (NfcCommandContinue, inst))
      | MfClassicListenerCommandNack \<Rightarrow>
          checked_bind (mf_classic_listener_send_short_frame inst (if transfer_valid inst then 0x00 else 0x00 + 0x04)) (\<lambda>inst.
          Inr (NfcCommandSleep, mf_classic_listener_reset_state inst))
      | MfClassicListenerCommandSilent \<Rightarrow> Inr (NfcCommandReset, inst)
      | MfClassicListenerCommandSleep \<Rightarrow> Inr (NfcCommandSleep, mf_classic_listener_reset_state inst)
      | MfClassicListenerCommandProcessed \<Rightarrow> Inr (NfcCommandContinue, inst))"

definition listener_frame :: "u8 list \<Rightarrow> MfClassicListener \<Rightarrow> BitBuffer \<Rightarrow> (NfcCommand \<times> MfClassicListener) checked" where
  "listener_frame rnd inst buffer =
     checked_bind (listener_receive inst buffer) (\<lambda>(inst, rx).
     checked_bind (listener_dispatch rnd inst rx) (\<lambda>(mfc_command, inst).
     listener_answer mfc_command inst))"

definition mf_classic_listener_run ::
  "u8 list \<Rightarrow> MfClassicListener \<Rightarrow> Iso14443_3aListenerEvent \<Rightarrow> (NfcCommand \<times> MfClassicListener) checked" where
  "mf_classic_listener_run rnd inst ev =
     (case ev of
        Iso14443_3aListenerEventTypeFieldOff \<Rightarrow> Inr (NfcCommandSleep, mf_classic_listener_reset_state inst)
      | Iso14443_3aListenerEventTypeReceivedData buffer \<Rightarrow> listener_frame rnd inst buffer
      | Iso14443_3aListenerEventTypeReceivedStandardFrame buffer \<Rightarrow> listener_frame rnd inst buffer
      | Iso14443_3aListenerEventTypeHalted \<Rightarrow> Inr (NfcCommandContinue, mf_classic_listener_reset_state inst))"

text \<open>The memory the allocator returns is zeroed.\<close>

definition mf_classic_listener_alloc :: "MfClassicData \<Rightarrow> MfClassicListener checked" where
  "mf_classic_listener_alloc d =
     checked_bind (bit_buffer_alloc 64) (\<lambda>plain.
     checked_bind (bit_buffer_alloc 64) (\<lambda>enc.
     checked_bind (bit_buffer_alloc 64) (\<lambda>rx.
     Inr (mf_classic_listener_prepare_emulation
       \<lparr>state = MfClassicListenerStateIdle, comm_state = MfClassicListenerCommStatePlain, data = d,
        tx_plain_buffer = plain, tx_encrypted_buffer = enc, rx_plain_buffer = rx,
        crypto = \<lparr>cr_odd = 0, cr_even = 0\<rparr>, auth_context = zero_auth_context, write_block = 0,
        transfer_value = 0, transfer_valid = False, value_cmd = MfClassicValueCommandIncrement,
        callback = False, cmd_in_progress = False, current_cmd_idx = 0, current_cmd_handler_idx = 0,
        total_block_num = 0, sent = [], events = []\<rparr>))))"

text \<open>A callback is registered, or a null pointer is.\<close>

definition mf_classic_listener_set_callback :: "MfClassicListener \<Rightarrow> bool \<Rightarrow> MfClassicListener" where
  "mf_classic_listener_set_callback inst cb = inst\<lparr>callback := cb\<rparr>"

end
