(* ===== verification/Nfc_Crypto1_Frames.thy ===== *)
theory Nfc_Crypto1_Frames
  imports Nfc_Crypto1
begin

text \<open>
  Frames under the MIFARE Classic cipher: a word is four bytes, the encryption and decryption of byte frames,
  and the frame a reader sends to authenticate.
\<close>

section \<open>Bytes and words\<close>

fun byte_run :: "bool \<Rightarrow> u8 list \<Rightarrow> Crypto1 \<Rightarrow> u8 list \<times> Crypto1" where
  "byte_run e [] c = ([], c)"
| "byte_run e (x # xs) c = (let (k, c) = crypto1_byte c x e; (ks, c) = byte_run e xs c in (k # ks, c))"

primrec bytes_bits :: "u8 list \<Rightarrow> bool list" where
  "bytes_bits [] = []"
| "bytes_bits (x # xs) = byte_bits x @ bytes_bits xs"

lemma length_byte_run [simp]: "length (fst (byte_run e xs c)) = length xs"
  by (induction xs arbitrary: c) (auto simp: Let_def case_prod_beta)

lemma byte_run_append:
  "byte_run e (xs @ ys) c =
     (fst (byte_run e xs c) @ fst (byte_run e ys (snd (byte_run e xs c))), snd (byte_run e ys (snd (byte_run e xs c))))"
  by (induction xs arbitrary: c) (auto simp: Let_def case_prod_beta)

lemma byte_run_bits:
  "bytes_bits (fst (byte_run e xs c)) = fst (run (clock e) (bytes_bits xs) c) \<and>
   snd (byte_run e xs c) = snd (run (clock e) (bytes_bits xs) c)"
  by (induction xs arbitrary: c) (simp_all add: Let_def case_prod_beta run_append crypto1_byte_run)

lemma length_bytes_bits [simp]: "length (bytes_bits xs) = 8 * length xs"
  by (induction xs) simp_all

lemma byte_bits_not_Nil [simp]: "byte_bits x \<noteq> []"
  by (simp add: byte_bits_def)

lemma bytes_bits_eqI: "bytes_bits xs = bytes_bits ys \<Longrightarrow> xs = ys"
proof (induction xs arbitrary: ys)
  case Nil
  then have "length (bytes_bits [] :: bool list) = length (bytes_bits ys)" by (rule arg_cong)
  then show ?case unfolding length_bytes_bits by simp
next
  case (Cons x xs)
  then obtain y zs where "ys = y # zs" using arg_cong [OF Cons.prems, of length] by (cases ys) auto
  with Cons show ?case by (auto simp: byte_bits_eqI)
qed

lemma bytes_bits_xor:
  "length xs = length ys \<Longrightarrow> bytes_bits (map2 (XOR) xs ys) = map2 (\<noteq>) (bytes_bits xs) (bytes_bits ys)"
  by (induction xs ys rule: list_induct2) (simp_all add: byte_bits_xor)

text \<open>Feeding the ciphertext of some bytes in the encrypted mode is feeding the bytes.\<close>

lemma byte_run_encrypted:
  "byte_run True (map2 (XOR) xs (fst (byte_run False xs c))) c = byte_run False xs c"
proof -
  have r: "run (clock True) (bytes_bits (map2 (XOR) xs (fst (byte_run False xs c)))) c = run (clock False) (bytes_bits xs) c"
    by (simp add: bytes_bits_xor byte_run_bits run_encrypted [simplified])
  show ?thesis
    by (rule prod_eqI, rule bytes_bits_eqI) (simp_all only: byte_run_bits r)
qed

text \<open>The word whose bytes, most significant first, are \<open>bs\<close>.\<close>

definition be32 :: "u8 list \<Rightarrow> u32" where
  "be32 bs = ucast (the (bit_lib_bytes_to_num_be bs 4))"

lemma be32: "bit_lib_bytes_to_num_be bs 4 = Some v \<Longrightarrow> ucast v = be32 bs"
  by (simp add: be32_def)

lemma bit_be32: "bit (be32 bs) j \<longleftrightarrow> j < 32 \<and> bit (bs ! (3 - j div 8)) (j mod 8)"
  unfolding be32_def bit_lib_bytes_to_num_be_def
  by (simp add: bit_ucast_iff) (simp add: bit_bytes_to_num_be_loop del: fold_simps, auto)

lemma word_bits_be32:
  assumes "length bs = 4"
  shows "word_bits (be32 bs) = bytes_bits bs"
proof -
  obtain a b c d where bs: "bs = [a, b, c, d]"
    using assms by (auto simp: numeral_eq_Suc length_Suc_conv)
  show ?thesis
  proof (rule nth_equalityI)
    show "length (word_bits (be32 bs)) = length (bytes_bits bs)" by (simp add: bs)
    fix i assume "i < length (word_bits (be32 bs))"
    then have "i < 32" by simp
    then show "word_bits (be32 bs) ! i = bytes_bits bs ! i"
      by (elim less_32_cases; elim less_16_cases)
        (simp_all add: bs word_bits_def byte_bits_def bit_be32 nth_append numeral_2_eq_2 [symmetric])
  qed
qed

lemma be32_eqI: "length bs = 4 \<Longrightarrow> word_bits w = bytes_bits bs \<Longrightarrow> w = be32 bs"
  by (rule word_bits_eqI) (simp add: word_bits_be32)

lemma crypto1_word_bytes:
  assumes "length bs = 4"
  shows "crypto1_word c (be32 bs) e = (be32 (fst (byte_run e bs c)), snd (byte_run e bs c))"
proof (rule prod_eqI)
  show "fst (crypto1_word c (be32 bs) e) = fst (be32 (fst (byte_run e bs c)), snd (byte_run e bs c))"
    unfolding fst_conv by (rule be32_eqI) (simp_all add: assms crypto1_word_run word_bits_be32 byte_run_bits)
  show "snd (crypto1_word c (be32 bs) e) = snd (be32 (fst (byte_run e bs c)), snd (byte_run e bs c))"
    by (simp add: assms crypto1_word_run word_bits_be32 byte_run_bits)
qed

lemma be32_xor:
  assumes "length xs = 4" "length ys = 4"
  shows "be32 (map2 (XOR) xs ys) = be32 xs XOR be32 ys"
  using assms by (intro word_bits_eqI) (simp add: word_bits_xor word_bits_be32 bytes_bits_xor)

lemma be32_zero: "be32 [0, 0, 0, 0] = 0"
  by (rule bit_word_eqI) (auto simp: bit_be32 nth_Cons split: nat.splits)

text \<open>The last byte of a word after eight steps of the generator is the next byte it produces.\<close>


lemma successor_bytes:
  "be32 [ucast (crypto1_prng_successor x 8), ucast (crypto1_prng_successor x 16),
         ucast (crypto1_prng_successor x 24), ucast (crypto1_prng_successor x 32)] = crypto1_prng_successor x 32"
proof (rule bit_word_eqI)
  fix j assume "j < LENGTH(32)"
  then have j: "j < 32" by simp
  let ?f = "\<lambda>m. (prng_step ^^ m) (SWAPENDIAN x)"
  have b: "bit (crypto1_prng_successor x n) i = bit (?f (unat n)) (24 + i)" if "i < 8" for n i
  proof -
    have "i XOR 24 = 24 + i" using that by (rule less_8_cases) (simp_all add: numeral_2_eq_2 [symmetric])
    then show ?thesis using that by (simp add: crypto1_prng_successor_def bit_swapendian)
  qed
  have shifted: "bit (?f m) (24 + i) = bit (?f 32) (m + i - 8)" if "i < 8" "m \<le> 32" "8 \<le> m" for m i
  proof -
    have "?f 32 = (prng_step ^^ (32 - m)) (?f m)"
      using funpow_add [of "32 - m" m prng_step] that(2) by (metis comp_apply le_add_diff_inverse2)
    then show ?thesis using bit_prng_steps [of "m + i - 8" "32 - m" "?f m"] that by simp
  qed
  have "bit (crypto1_prng_successor x 32) j = bit (?f 32) (j XOR 24)"
    using j by (simp add: crypto1_prng_successor_def bit_swapendian)
  moreover have "j XOR 24 = 8 * (3 - j div 8) + j mod 8"
    using j by (elim less_32_cases; elim less_16_cases) (simp_all add: numeral_2_eq_2 [symmetric])
  moreover have "bit (be32 [ucast (crypto1_prng_successor x 8), ucast (crypto1_prng_successor x 16),
      ucast (crypto1_prng_successor x 24), ucast (crypto1_prng_successor x 32)]) j =
      bit (crypto1_prng_successor x (8 * (4 - of_nat (j div 8)))) (j mod 8)"
    using j unfolding bit_be32 by (elim less_32_cases; elim less_16_cases) (simp_all add: bit_ucast_iff)
  moreover have "unat (8 * (4 - of_nat (j div 8)) :: u32) = 8 * (4 - j div 8)"
    using j by (elim less_32_cases; elim less_16_cases) simp_all
  moreover have "8 \<le> 8 * (4 - j div 8)" "8 * (4 - j div 8) \<le> 32" using j by auto
  moreover have "8 * (4 - j div 8) + j mod 8 - 8 = 8 * (3 - j div 8) + j mod 8" using j by linarith
  ultimately show "bit (be32 [ucast (crypto1_prng_successor x 8), ucast (crypto1_prng_successor x 16),
      ucast (crypto1_prng_successor x 24), ucast (crypto1_prng_successor x 32)]) j = bit (crypto1_prng_successor x 32) j"
    using shifted [of "j mod 8" "8 * (4 - j div 8)"] by (simp add: b)
qed

section \<open>Frames\<close>

lemma set_byte_ok:
  assumes "bb_wf b" "8 * Suc i \<le> size_bits b"
  shows "bit_buffer_set_byte b i x = Inr (b\<lparr>bb_data := (bb_data b)[i := x]\<rparr>)"
proof -
  have "i < bit_buffer_get_size_bytes b" using assms(2) size_bytes_bits(1) [of b] by simp
  moreover have "i < length (bb_data b)" using assms by (auto simp: bb_wf_def)
  ultimately show ?thesis by (simp add: bit_buffer_set_byte_def mem_write_def)
qed

text \<open>The parity block after the write of \<open>bit_buffer_set_byte_with_parity\<close>.\<close>

definition parity_write :: "u8 list \<Rightarrow> nat \<Rightarrow> bool \<Rightarrow> u8 list" where
  "parity_write ps i p =
     ps[i div 8 := (if i mod 8 = 0 then of_bool p else ps ! (i div 8) OR push_bit (i mod 8) (of_bool p))]"

lemma length_parity_write [simp]: "length (parity_write ps i p) = length ps"
  by (simp add: parity_write_def)

lemma set_byte_with_parity_ok:
  assumes "bb_wf b" "8 * Suc i \<le> size_bits b"
  shows "bit_buffer_set_byte_with_parity b i x p =
    Inr (b\<lparr>bb_data := (bb_data b)[i := x], bb_parity := parity_write (bb_parity b) i p\<rparr>)"
proof -
  have "i < size_bits b div 8" using assms(2) by (simp add: less_eq_div_iff_mult_less_eq Suc_le_eq [symmetric] mult.commute)
  moreover have "i < length (bb_data b)" "i div 8 < length (bb_parity b)"
    using assms parity_index [of i "capacity_bytes b"] by (auto simp: bb_wf_def)
  ultimately show ?thesis
    by (simp add: bit_buffer_set_byte_with_parity_def mem_write_def mem_read_def parity_write_def)
qed

text \<open>A buffer into which the first bytes of a frame have been written.\<close>

definition filled :: "BitBuffer \<Rightarrow> u8 list \<Rightarrow> u8 list \<Rightarrow> BitBuffer" where
  "filled b xs ps = b\<lparr>bb_data := xs @ drop (length xs) (bb_data b), bb_parity := ps\<rparr>"

lemma filled_simps [simp]:
  "size_bits (filled b xs ps) = size_bits b" "capacity_bytes (filled b xs ps) = capacity_bytes b"
  "bb_parity (filled b xs ps) = ps"
  by (simp_all add: filled_def)

lemma bb_wf_filled:
  "bb_wf b \<Longrightarrow> length xs \<le> capacity_bytes b \<Longrightarrow> length ps = length (bb_parity b) \<Longrightarrow> bb_wf (filled b xs ps)"
  by (simp add: bb_wf_def filled_def)

lemma take_filled: "take (length xs) (bb_data (filled b xs ps)) = xs"
  by (simp add: filled_def)

lemma filled_write:
  assumes "length xs < length (bb_data b)"
  shows "(filled b xs ps)\<lparr>bb_data := (bb_data (filled b xs ps))[length xs := x], bb_parity := qs\<rparr> = filled b (xs @ [x]) qs"
    "(filled b xs ps)\<lparr>bb_data := (bb_data (filled b xs ps))[length xs := x]\<rparr> = filled b (xs @ [x]) ps"
proof -
  have "drop (length xs) (bb_data b) = bb_data b ! length xs # drop (Suc (length xs)) (bb_data b)"
    by (rule Cons_nth_drop_Suc [OF assms, symmetric])
  then have "(xs @ drop (length xs) (bb_data b))[length xs := x] = (xs @ [x]) @ drop (Suc (length xs)) (bb_data b)"
    by simp
  then show "(filled b xs ps)\<lparr>bb_data := (bb_data (filled b xs ps))[length xs := x], bb_parity := qs\<rparr> = filled b (xs @ [x]) qs"
    "(filled b xs ps)\<lparr>bb_data := (bb_data (filled b xs ps))[length xs := x]\<rparr> = filled b (xs @ [x]) ps"
    by (cases b; simp add: filled_def)+
qed

lemma filled_set_byte:
  assumes "bb_wf b" "8 * Suc (length xs) \<le> size_bits b" "length ps = length (bb_parity b)"
  shows "bit_buffer_set_byte (filled b xs ps) (length xs) x = Inr (filled b (xs @ [x]) ps)"
    "bit_buffer_set_byte_with_parity (filled b xs ps) (length xs) x p =
       Inr (filled b (xs @ [x]) (parity_write ps (length xs) p))"
proof -
  have c: "length xs < capacity_bytes b" using assms(1,2) by (auto simp: bb_wf_def)
  then have l: "length xs < length (bb_data b)" using assms(1) by (simp add: bb_wf_def)
  have wf: "bb_wf (filled b xs ps)" using bb_wf_filled [OF assms(1) _ assms(3)] c by simp
  show "bit_buffer_set_byte (filled b xs ps) (length xs) x = Inr (filled b (xs @ [x]) ps)"
    using set_byte_ok [OF wf, of "length xs"] assms(2) by (simp add: filled_write(2) [OF l])
  show "bit_buffer_set_byte_with_parity (filled b xs ps) (length xs) x p =
       Inr (filled b (xs @ [x]) (parity_write ps (length xs) p))"
    using set_byte_with_parity_ok [OF wf, of "length xs"] assms(2) by (simp add: filled_write(1) [OF l])
qed

lemma byte_run_snoc:
  "byte_run e (xs @ [x]) c =
    (fst (byte_run e xs c) @ [fst (crypto1_byte (snd (byte_run e xs c)) x e)], snd (crypto1_byte (snd (byte_run e xs c)) x e))"
  by (simp add: byte_run_append Let_def case_prod_beta)

text \<open>The bytes fed into the cipher while a frame of \<open>n\<close> bytes is encrypted.\<close>

definition feed_bytes :: "u8 list option \<Rightarrow> nat \<Rightarrow> u8 list" where
  "feed_bytes keystream n = (case keystream of Some ks \<Rightarrow> take n ks | None \<Rightarrow> replicate n 0)"

definition feed_ok :: "u8 list option \<Rightarrow> nat \<Rightarrow> bool" where
  "feed_ok keystream n = (case keystream of Some ks \<Rightarrow> n \<le> length ks | None \<Rightarrow> True)"

lemma length_feed_bytes [simp]: "feed_ok keystream n \<Longrightarrow> length (feed_bytes keystream n) = n"
  by (auto simp: feed_ok_def feed_bytes_def split: option.splits)

lemma replicate_Suc_conv_snoc: "replicate (Suc n) x = replicate n x @ [x]"
  by (simp add: replicate_append_same)

lemma feed_bytes_0 [simp]: "feed_bytes keystream 0 = []"
  by (simp add: feed_bytes_def split: option.split)

lemma feed_bytes_Suc:
  assumes "feed_ok keystream (Suc n)"
  shows "(case keystream of Some ks \<Rightarrow> mem_read ks n | None \<Rightarrow> Inr 0) = Inr (feed_bytes keystream (Suc n) ! n)"
    "feed_bytes keystream (Suc n) = feed_bytes keystream n @ [feed_bytes keystream (Suc n) ! n]"
    "feed_ok keystream n"
  using assms
  by (auto simp: feed_ok_def feed_bytes_def mem_read_def take_Suc_conv_app_nth replicate_Suc_conv_snoc nth_append split: option.splits simp del: replicate_Suc)

lemma encrypt_loop:
  assumes "bb_wf out"
  shows "8 * n \<le> size_bits out \<Longrightarrow> n \<le> length plain \<Longrightarrow> feed_ok keystream n \<Longrightarrow>
    \<exists>ps. length ps = length (bb_parity out) \<and>
      fold (\<lambda>i r. checked_bind r (encrypt_step keystream plain i)) [0..<n] (Inr (c, out)) =
       Inr (snd (byte_run False (feed_bytes keystream n) c),
         filled out (map2 (XOR) (fst (byte_run False (feed_bytes keystream n) c)) (take n plain)) ps)"
proof (induction n)
  case 0
  show ?case by (intro exI [of _ "bb_parity out"]) (simp add: filled_def)
next
  case (Suc n)
  note f = feed_bytes_Suc [OF Suc.prems(3)]
  let ?r = "byte_run False (feed_bytes keystream n) c" and ?x = "feed_bytes keystream (Suc n) ! n"
  let ?xs = "map2 (XOR) (fst ?r) (take n plain)" and ?k = "crypto1_byte (snd ?r) ?x False"
  obtain ps where ps: "length ps = length (bb_parity out)"
    and IH: "fold (\<lambda>i r. checked_bind r (encrypt_step keystream plain i)) [0..<n] (Inr (c, out)) = Inr (snd ?r, filled out ?xs ps)"
    using Suc f(3) by auto
  have l: "length ?xs = n" using f(3) Suc.prems(2) by simp
  have b: "byte_run False (feed_bytes keystream (Suc n)) c = (fst ?r @ [fst ?k], snd ?k)"
    by (subst f(2)) (rule byte_run_snoc)
  have x: "map2 (XOR) (fst ?r @ [fst ?k]) (take (Suc n) plain) = ?xs @ [fst ?k XOR plain ! n]"
    using f(3) Suc.prems(2) by (simp add: take_Suc_conv_app_nth)
  have "encrypt_step keystream plain n (snd ?r, filled out ?xs ps) =
    Inr (snd ?k, filled out (?xs @ [fst ?k XOR plain ! n])
      (parity_write ps n ((ucast (crypto1_filter (cr_odd (snd ?k))) XOR nfc_util_odd_parity8 (plain ! n)) AND 0x01 \<noteq> 0)))"
    using filled_set_byte(2) [OF assms _ ps, of ?xs, unfolded l, OF Suc.prems(1)] Suc.prems(2)
    unfolding encrypt_step_def case_prod_conv f(1) checked_bind_simps
    by (simp add: mem_read_def Let_def case_prod_beta)
  then show ?case
    unfolding b x fst_conv snd_conv
    by (intro exI [of _ "parity_write ps n _"] conjI) (simp_all add: ps IH)
qed

lemma decrypt_loop:
  assumes "bb_wf out"
  shows "8 * n \<le> size_bits out \<Longrightarrow> n \<le> length enc \<Longrightarrow>
    fold (\<lambda>i r. checked_bind r (decrypt_step enc i)) [0..<n] (Inr (c, out)) =
       Inr (snd (byte_run False (replicate n 0) c),
         filled out (map2 (XOR) (fst (byte_run False (replicate n 0) c)) (take n enc)) (bb_parity out))"
proof (induction n)
  case 0
  show ?case by (simp add: filled_def)
next
  case (Suc n)
  let ?r = "byte_run False (replicate n 0) c"
  let ?xs = "map2 (XOR) (fst ?r) (take n enc)" and ?k = "crypto1_byte (snd ?r) 0 False"
  have l: "length ?xs = n" using Suc.prems(2) by simp
  have b: "byte_run False (replicate (Suc n) 0) c = (fst ?r @ [fst ?k], snd ?k)"
    unfolding replicate_Suc_conv_snoc by (rule byte_run_snoc)
  have x: "map2 (XOR) (fst ?r @ [fst ?k]) (take (Suc n) enc) = ?xs @ [fst ?k XOR enc ! n]"
    using Suc.prems(2) by (simp add: take_Suc_conv_app_nth)
  have "decrypt_step enc n (snd ?r, filled out ?xs (bb_parity out)) =
    Inr (snd ?k, filled out (?xs @ [fst ?k XOR enc ! n]) (bb_parity out))"
    using filled_set_byte(1) [OF assms _ refl, of ?xs, unfolded l, OF Suc.prems(1)] Suc.prems(2)
    unfolding decrypt_step_def case_prod_conv by (simp add: mem_read_def Let_def case_prod_beta)
  then show ?case
    using Suc unfolding b x fst_conv snd_conv by simp
qed

text \<open>A frame of \<open>n\<close> bytes.\<close>

lemma encrypt_frame:
  assumes "bb_wf buff" "bb_wf out" "size_bits buff = 8 * n" "0 < n" "n \<le> capacity_bytes out" "feed_ok keystream n"
  obtains enc where
    "crypto1_encrypt c keystream buff out = Inr (snd (byte_run False (feed_bytes keystream n) c), enc)"
    "bb_wf enc" "size_bits enc = 8 * n" "capacity_bytes enc = capacity_bytes out"
    "take n (bb_data enc) = map2 (XOR) (fst (byte_run False (feed_bytes keystream n) c)) (take n (bb_data buff))"
proof -
  let ?out = "out\<lparr>size_bits := 8 * n\<rparr>"
  let ?xs = "map2 (XOR) (fst (byte_run False (feed_bytes keystream n) c)) (take n (bb_data buff))"
  have wf: "bb_wf ?out" using assms(2,5) by (simp add: bb_wf_def)
  have n: "n \<le> length (bb_data buff)" using assms(1,3) by (auto simp: bb_wf_def)
  then have l: "length ?xs = n" using assms(6) by simp
  obtain ps where ps: "length ps = length (bb_parity ?out)"
    and f: "fold (\<lambda>i r. checked_bind r (encrypt_step keystream (bb_data buff) i)) [0..<n] (Inr (c, ?out)) =
      Inr (snd (byte_run False (feed_bytes keystream n) c), filled ?out ?xs ps)"
    using encrypt_loop [OF wf _ n assms(6)] by auto
  show thesis
  proof (rule that)
    show "crypto1_encrypt c keystream buff out = Inr (snd (byte_run False (feed_bytes keystream n) c), filled ?out ?xs ps)"
      using assms(3-5) f by (simp add: crypto1_encrypt_def bit_buffer_get_size_def bit_buffer_set_size_def bit_buffer_get_data_def)
    show "bb_wf (filled ?out ?xs ps)" using bb_wf_filled [OF wf _ ps, of ?xs] l assms(5) by simp
    show "take n (bb_data (filled ?out ?xs ps)) = ?xs" using take_filled [of ?xs] l by simp
  qed simp_all
qed

lemma decrypt_frame:
  assumes "bb_wf buff" "bb_wf out" "size_bits buff = 8 * n" "0 < n" "n \<le> capacity_bytes out"
  obtains dec where "crypto1_decrypt c buff out = Inr (snd (byte_run False (replicate n 0) c), dec)"
    "bb_wf dec" "size_bits dec = 8 * n" "capacity_bytes dec = capacity_bytes out"
    "take n (bb_data dec) = map2 (XOR) (fst (byte_run False (replicate n 0) c)) (take n (bb_data buff))"
proof -
  let ?out = "out\<lparr>size_bits := 8 * n\<rparr>"
  let ?xs = "map2 (XOR) (fst (byte_run False (replicate n 0) c)) (take n (bb_data buff))"
  have wf: "bb_wf ?out" using assms(2,5) by (simp add: bb_wf_def)
  have n: "n \<le> length (bb_data buff)" using assms(1,3) by (auto simp: bb_wf_def)
  then have l: "length ?xs = n" by simp
  show thesis
  proof (rule that)
    show "crypto1_decrypt c buff out =
      Inr (snd (byte_run False (replicate n 0) c), filled ?out ?xs (bb_parity ?out))"
      using assms(3-5) decrypt_loop [OF wf _ n]
      by (simp add: crypto1_decrypt_def bit_buffer_get_size_def bit_buffer_set_size_def bit_buffer_get_data_def)
    show "bb_wf (filled ?out ?xs (bb_parity ?out))" using bb_wf_filled [OF wf _ refl, of ?xs] l assms(5) by simp
    show "take n (bb_data (filled ?out ?xs (bb_parity ?out))) = ?xs" using take_filled [of ?xs] l by simp
  qed simp_all
qed

lemma map2_xor_twice: "length xs = length ys \<Longrightarrow> map2 (XOR) xs (map2 (XOR) xs ys) = (ys :: u8 list)"
  by (induction xs ys rule: list_induct2) (simp_all add: xor.assoc [symmetric])

text \<open>
  C39 (roundtrip): a frame of whole bytes encrypted in a session is decrypted to the same bytes by a peer whose
  cipher has the same state, and both leave with the same state again.
\<close>

theorem crypto1_frame_roundtrip:
  assumes "bb_wf buff" "bb_wf out" "bb_wf out'" "size_bits buff = 8 * n" "0 < n"
    "n \<le> capacity_bytes out" "n \<le> capacity_bytes out'"
  shows "\<exists>c' enc dec. crypto1_encrypt c None buff out = Inr (c', enc) \<and> crypto1_decrypt c enc out' = Inr (c', dec) \<and>
    size_bits dec = size_bits buff \<and> take n (bb_data dec) = take n (bb_data buff)"
proof -
  obtain enc where e: "crypto1_encrypt c None buff out = Inr (snd (byte_run False (feed_bytes None n) c), enc)"
    "bb_wf enc" "size_bits enc = 8 * n"
    "take n (bb_data enc) = map2 (XOR) (fst (byte_run False (feed_bytes None n) c)) (take n (bb_data buff))"
    by (rule encrypt_frame [OF assms(1,2,4,5,6), of None c]) (simp add: feed_ok_def)
  obtain dec where d: "crypto1_decrypt c enc out' = Inr (snd (byte_run False (replicate n 0) c), dec)"
    "size_bits dec = 8 * n"
    "take n (bb_data dec) = map2 (XOR) (fst (byte_run False (replicate n 0) c)) (take n (bb_data enc))"
    by (rule decrypt_frame [OF e(2) assms(3) e(3) assms(5,7), of c])
  have "n \<le> length (bb_data buff)" using assms(1,4) by (auto simp: bb_wf_def)
  then have "take n (bb_data dec) = take n (bb_data buff)"
    unfolding d(3) e(4) by (simp add: feed_bytes_def map2_xor_twice)
  with e(1) d(1,2) assms(4) show ?thesis by (simp add: feed_bytes_def)
qed

definition empty_frame :: BitBuffer where
  "empty_frame = \<lparr>bb_data = replicate 64 0, bb_parity = replicate 8 0, capacity_bytes = 64, size_bits = 0\<rparr>"

lemma empty_frame_wf: "bb_wf empty_frame" "capacity_bytes empty_frame = 64"
  by (simp_all add: empty_frame_def bb_wf_def)

text \<open>A frame with the given bytes.\<close>

definition frame_of :: "u8 list \<Rightarrow> BitBuffer" where
  "frame_of xs = empty_frame\<lparr>bb_data := xs @ replicate (64 - length xs) 0, size_bits := 8 * length xs\<rparr>"

lemma frame_of_wf: "length xs \<le> 64 \<Longrightarrow> bb_wf (frame_of xs)"
  by (simp add: empty_frame_def bb_wf_def frame_of_def)

lemma frame_of_simps [simp]:
  "capacity_bytes (frame_of xs) = 64" "size_bits (frame_of xs) = 8 * length xs"
  "bb_data (frame_of xs) = xs @ replicate (64 - length xs) 0"
  by (simp_all add: frame_of_def empty_frame_def)

theorem crypto1_frame_roundtrip_witness:
  "\<exists>c' enc dec. crypto1_encrypt \<lparr>cr_odd = 5, cr_even = 7\<rparr> None (frame_of [0x30, 0x04]) empty_frame = Inr (c', enc) \<and>
     crypto1_decrypt \<lparr>cr_odd = 5, cr_even = 7\<rparr> enc empty_frame = Inr (c', dec) \<and>
     size_bits dec = 16 \<and> take 2 (bb_data dec) = [0x30, 0x04]"
  using crypto1_frame_roundtrip [of "frame_of [0x30, 0x04]" empty_frame empty_frame 2 "\<lparr>cr_odd = 5, cr_even = 7\<rparr>"]
  by (simp add: empty_frame_wf frame_of_wf)

section \<open>The reader's side of an authentication\<close>

lemma reader_nonce_loop:
  assumes "bb_wf out"
  shows "8 * n \<le> size_bits out \<Longrightarrow> n \<le> length nr \<Longrightarrow>
    \<exists>ps. length ps = length (bb_parity out) \<and>
      fold (\<lambda>i r. checked_bind r (reader_nonce_step i)) [0..<n] (Inr (c, nr, out)) =
       Inr (snd (byte_run False (take n nr) c),
         map2 (XOR) (fst (byte_run False (take n nr) c)) (take n nr) @ drop n nr,
         filled out (map2 (XOR) (fst (byte_run False (take n nr) c)) (take n nr)) ps)"
proof (induction n)
  case 0
  show ?case by (intro exI [of _ "bb_parity out"]) (simp add: filled_def)
next
  case (Suc n)
  let ?r = "byte_run False (take n nr) c"
  let ?xs = "map2 (XOR) (fst ?r) (take n nr)" and ?k = "crypto1_byte (snd ?r) (nr ! n) False"
  obtain ps where ps: "length ps = length (bb_parity out)"
    and IH: "fold (\<lambda>i r. checked_bind r (reader_nonce_step i)) [0..<n] (Inr (c, nr, out)) =
      Inr (snd ?r, ?xs @ drop n nr, filled out ?xs ps)"
    using Suc by auto
  have n: "n < length nr" using Suc.prems(2) by simp
  have l: "length ?xs = n" using n by simp
  have t: "take (Suc n) nr = take n nr @ [nr ! n]" using n by (simp add: take_Suc_conv_app_nth)
  have b: "byte_run False (take (Suc n) nr) c = (fst ?r @ [fst ?k], snd ?k)"
    unfolding t by (rule byte_run_snoc)
  have x: "map2 (XOR) (fst ?r @ [fst ?k]) (take (Suc n) nr) = ?xs @ [fst ?k XOR nr ! n]"
    unfolding t using n by simp
  have mem: "mem_read (?xs @ drop n nr) n = Inr (nr ! n)"
    "mem_write (?xs @ drop n nr) n y = Inr ((?xs @ [y]) @ drop (Suc n) nr)" for y
    using n Cons_nth_drop_Suc [OF n, symmetric]
    by (simp_all add: mem_read_def mem_write_def nth_append list_update_append)
  have "reader_nonce_step n (snd ?r, ?xs @ drop n nr, filled out ?xs ps) =
    Inr (snd ?k, (?xs @ [fst ?k XOR nr ! n]) @ drop (Suc n) nr, filled out (?xs @ [fst ?k XOR nr ! n])
      (parity_write ps n ((ucast (crypto1_filter (cr_odd (snd ?k))) XOR nfc_util_odd_parity8 (nr ! n)) AND 0x01 \<noteq> 0)))"
    using filled_set_byte(2) [OF assms _ ps, of ?xs, unfolded l, OF Suc.prems(1)]
    unfolding reader_nonce_step_def case_prod_conv mem(1) checked_bind_simps
    by (simp only: Let_def case_prod_beta mem(2) checked_bind_simps)
  then show ?case
    unfolding b x fst_conv snd_conv
    by (intro exI [of _ "parity_write ps n _"] conjI) (simp_all only: ps IH length_parity_write upt_Suc_append fold_append
        fold_simps comp_apply checked_bind_simps le0)
qed

definition successor_tail :: "u32 \<Rightarrow> nat \<Rightarrow> u8 list" where
  "successor_tail x n = map (\<lambda>k. ucast (crypto1_prng_successor x (8 * of_nat (Suc k)))) [0..<n]"

lemma reader_answer_loop:
  assumes "bb_wf out" "length xs = m" "length ps = length (bb_parity out)"
  shows "8 * (m + n) \<le> size_bits out \<Longrightarrow> n < 2 ^ 24 \<Longrightarrow>
    \<exists>qs. length qs = length (bb_parity out) \<and>
      fold (\<lambda>i r. checked_bind r (reader_answer_step i)) [m..<m + n] (Inr (c, x, filled out xs ps)) =
       Inr (snd (byte_run False (replicate n 0) c), crypto1_prng_successor x (8 * of_nat n),
         filled out (xs @ map2 (XOR) (fst (byte_run False (replicate n 0) c)) (successor_tail x n)) qs)"
proof (induction n)
  case 0
  show ?case using assms(3) by (intro exI [of _ ps]) (simp add: successor_tail_def crypto1_prng_successor_def)
next
  case (Suc n)
  let ?r = "byte_run False (replicate n 0) c" and ?s = "crypto1_prng_successor x (8 * of_nat (Suc n))"
  let ?xs = "xs @ map2 (XOR) (fst ?r) (successor_tail x n)" and ?k = "crypto1_byte (snd ?r) 0 False"
  obtain qs where qs: "length qs = length (bb_parity out)"
    and IH: "fold (\<lambda>i r. checked_bind r (reader_answer_step i)) [m..<m + n] (Inr (c, x, filled out xs ps)) =
      Inr (snd ?r, crypto1_prng_successor x (8 * of_nat n), filled out ?xs qs)"
    using Suc by auto
  have s: "crypto1_prng_successor (crypto1_prng_successor x (8 * of_nat n)) 8 = ?s"
  proof -
    have "unat (8 * of_nat n :: u32) = 8 * n"
      using unat_of_nat_32 [of "8 * n"] Suc.prems(2) by simp
    then show ?thesis using Suc.prems(2) by (subst prng_successor_add) (simp, simp add: add.commute)
  qed
  have l: "length ?xs = m + n" using assms(2) by (simp add: successor_tail_def)
  have b: "byte_run False (replicate (Suc n) 0) c = (fst ?r @ [fst ?k], snd ?k)"
    unfolding replicate_Suc_conv_snoc by (rule byte_run_snoc)
  have x: "xs @ map2 (XOR) (fst ?r @ [fst ?k]) (successor_tail x (Suc n)) = ?xs @ [fst ?k XOR ucast ?s]"
    by (simp add: successor_tail_def)
  have "reader_answer_step (m + n) (snd ?r, crypto1_prng_successor x (8 * of_nat n), filled out ?xs qs) =
    Inr (snd ?k, ?s, filled out (?xs @ [fst ?k XOR ucast ?s])
      (parity_write qs (m + n) ((ucast (crypto1_filter (cr_odd (snd ?k))) XOR nfc_util_odd_parity8 (ucast ?s)) AND 0x01 \<noteq> 0)))"
    using filled_set_byte(2) [OF assms(1) _ qs, of ?xs, unfolded l] Suc.prems(1)
    unfolding reader_answer_step_def case_prod_conv s
    by (simp only: Let_def case_prod_beta checked_bind_simps add_Suc_right)
  then show ?case
    unfolding b x fst_conv snd_conv add_Suc_right
    by (intro exI [of _ "parity_write qs (m + n) _"] conjI) (simp_all only: qs IH length_parity_write upt_Suc_append fold_append
        fold_simps comp_apply checked_bind_simps le_add1)
qed

lemma bytes_to_num_be_4: "\<exists>v. bit_lib_bytes_to_num_be bs 4 = Some v \<and> ucast v = be32 bs"
  by (simp add: be32_def bit_lib_bytes_to_num_be_def)

text \<open>The frame the reader sends: its nonce and the answer to the tag's nonce, both encrypted.\<close>

definition reader_frame :: "Crypto1 \<Rightarrow> u32 \<Rightarrow> u8 list \<Rightarrow> u8 list" where
  "reader_frame c nt nr =
     map2 (XOR) (fst (byte_run False nr c)) nr @
     map2 (XOR) (fst (byte_run False (replicate 4 0) (snd (byte_run False nr c))))
       (successor_tail (crypto1_prng_successor nt 32) 4)"

definition reader_state :: "Crypto1 \<Rightarrow> u8 list \<Rightarrow> Crypto1" where
  "reader_state c nr = snd (byte_run False (nr @ replicate 4 0) c)"

lemma reader_nonce_frame:
  assumes "bb_wf out" "8 \<le> capacity_bytes out" "length nr = 4"
    "crypto1_word (crypto1_init c key) (be32 nt XOR cuid) is_nested = (ks, c0)"
    "x = (if is_nested then ks XOR be32 nt else be32 nt)"
  obtains out' where "crypto1_encrypt_reader_nonce c key cuid nt nr out is_nested =
      Inr (reader_state c0 nr, take 4 (reader_frame c0 x nr), out')"
    "bb_wf out'" "size_bits out' = 64" "capacity_bytes out' = capacity_bytes out"
    "take 8 (bb_data out') = reader_frame c0 x nr"
proof -
  let ?out = "out\<lparr>size_bits := 64\<rparr>"
  let ?xs = "map2 (XOR) (fst (byte_run False nr c0)) nr" and ?c1 = "snd (byte_run False nr c0)"
  let ?ys = "map2 (XOR) (fst (byte_run False (replicate 4 0) ?c1)) (successor_tail (crypto1_prng_successor x 32) 4)"
  have wf: "bb_wf ?out" using assms(1,2) by (simp add: bb_wf_def)
  obtain v where v: "bit_lib_bytes_to_num_be nt 4 = Some v" "ucast v = be32 nt"
    using bytes_to_num_be_4 by blast
  obtain ps where ps: "length ps = length (bb_parity ?out)"
    and 1: "fold (\<lambda>i r. checked_bind r (reader_nonce_step i)) [0..<4] (Inr (c0, nr, ?out)) =
      Inr (?c1, ?xs, filled ?out ?xs ps)"
    using reader_nonce_loop [OF wf, of 4 nr c0] assms(3) by auto
  obtain qs where qs: "length qs = length (bb_parity ?out)"
    and 2: "fold (\<lambda>i r. checked_bind r (reader_answer_step i)) [4..<8] (Inr (?c1, crypto1_prng_successor x 32, filled ?out ?xs ps)) =
      Inr (snd (byte_run False (replicate 4 0) ?c1), crypto1_prng_successor (crypto1_prng_successor x 32) 32, filled ?out (?xs @ ?ys) qs)"
    using reader_answer_loop [OF wf _ ps, of ?xs 4 4 ?c1 "crypto1_prng_successor x 32"] assms(3) by auto
  have l: "length (?xs @ ?ys) = 8" using assms(3) by (simp add: successor_tail_def)
  show thesis
  proof (rule that)
    show "crypto1_encrypt_reader_nonce c key cuid nt nr out is_nested =
      Inr (reader_state c0 nr, take 4 (reader_frame c0 x nr), filled ?out (?xs @ ?ys) qs)"
      using assms(2,3) 1 2
      by (simp add: crypto1_encrypt_reader_nonce_def bit_buffer_set_size_bytes_def v assms(4) assms(5) [symmetric] Let_def
          reader_frame_def reader_state_def byte_run_append del: upt_rec_numeral)
    show "bb_wf (filled ?out (?xs @ ?ys) qs)" using bb_wf_filled [OF wf _ qs, of "?xs @ ?ys"] l assms(2) by simp
    show "take 8 (bb_data (filled ?out (?xs @ ?ys) qs)) = reader_frame c0 x nr"
      using take_filled [of "?xs @ ?ys" ?out qs] l by (simp add: reader_frame_def)
  qed simp_all
qed

lemma xor_cancel: "b XOR (a XOR b) = (a :: 'a::len word)"
  by (rule bit_word_eqI) (auto simp: bit_xor_iff)

text \<open>A reader that authenticates again in a session sends the same frame as in a first authentication.\<close>

theorem nested_reader_nonce:
  assumes "bb_wf out" "8 \<le> capacity_bytes out" "length nr = 4" "length nt = 4" "length nt_enc = 4"
    "be32 nt_enc = be32 nt XOR fst (crypto1_word (crypto1_init c key) (be32 nt XOR cuid) False)"
  shows "\<exists>c' out' out''. crypto1_encrypt_reader_nonce c key cuid nt_enc nr out True = Inr (c', take 4 (bb_data out'), out') \<and>
    crypto1_encrypt_reader_nonce c key cuid nt nr out False = Inr (c', take 4 (bb_data out'), out'') \<and>
    take 8 (bb_data out') = take 8 (bb_data out'')"
proof -
  let ?c = "crypto1_init c key"
  obtain ks c0 where w: "crypto1_word ?c (be32 nt XOR cuid) False = (ks, c0)" by (metis surj_pair)
  have eq: "be32 nt_enc XOR cuid = (be32 nt XOR cuid) XOR ks"
    using assms(6) w by (simp add: xor.assoc xor.commute xor.left_commute)
  then have n: "crypto1_word ?c (be32 nt_enc XOR cuid) True = (ks, c0)"
    using crypto1_word_encrypted [of ?c "be32 nt XOR cuid"] w by simp
  have plain: "be32 nt = (if True then ks XOR be32 nt_enc else be32 nt_enc)"
    using assms(6) w by (simp add: xor_cancel)
  obtain out' where 1: "crypto1_encrypt_reader_nonce c key cuid nt_enc nr out True =
      Inr (reader_state c0 nr, take 4 (reader_frame c0 (be32 nt) nr), out')" "take 8 (bb_data out') = reader_frame c0 (be32 nt) nr"
    by (rule reader_nonce_frame [OF assms(1-3) n plain])
  obtain out'' where 2: "crypto1_encrypt_reader_nonce c key cuid nt nr out False =
      Inr (reader_state c0 nr, take 4 (reader_frame c0 (be32 nt) nr), out'')" "take 8 (bb_data out'') = reader_frame c0 (be32 nt) nr"
    by (rule reader_nonce_frame [OF assms(1-3) w]) simp_all
  have "take 4 (reader_frame c0 (be32 nt) nr) = take 4 (bb_data out')" by (simp add: 1(2) [symmetric])
  then show ?thesis using 1 2 by auto
qed

end
