(* ===== verification/Mf_Classic_Listener_Safety.thy ===== *)
theory Mf_Classic_Listener_Safety
  imports Mf_Classic_Listener Nfc_Crypto1_Frames
begin

text \<open>
  The emulated card never reaches a failed check: an invariant of the card (\<open>listener_inv\<close>: the image and the
  buffers have their sizes, and a command in progress has a next handler) that every handler, the dispatcher and
  the event handler keep, for every sequence of events of the driver below. The one frame that halts the device is
  one of more than 64 bytes during a session.
\<close>

section \<open>Buffers and frames\<close>

lemma furi_checkI: "b \<Longrightarrow> furi_check b m = m"
  by simp

lemma copy_bytes_ok:
  assumes "bb_wf b" "length src = n" "n \<le> capacity_bytes b"
  obtains b' where "bit_buffer_copy_bytes b src n = Inr b'" "bb_wf b'" "capacity_bytes b' = capacity_bytes b"
    "size_bits b' = 8 * n" "take n (bb_data b') = src"
proof
  let ?b = "b\<lparr>bb_data := src @ drop n (bb_data b), size_bits := n * 8\<rparr>"
  show "bit_buffer_copy_bytes b src n = Inr ?b"
    using assms by (simp add: bit_buffer_copy_bytes_def mem_copy_def bb_wf_def)
  show "bb_wf ?b" using assms by (simp add: bb_wf_def)
qed (use assms in simp_all)

lemma crypt_short:
  assumes "bb_wf buff" "bb_wf out" "size_bits buff = n" "0 < n" "n < 8"
  shows "\<exists>c' d. crypto1_decrypt c buff out = Inr (c', d) \<and> bb_wf d \<and> capacity_bytes d = capacity_bytes out \<and> size_bits d = n"
    "\<exists>c' d. crypto1_encrypt c ks buff out = Inr (c', d) \<and> bb_wf d \<and> capacity_bytes d = capacity_bytes out \<and> size_bits d = n"
proof -
  let ?out = "out\<lparr>size_bits := n\<rparr>"
  have r: "mem_read (bb_data buff) 0 = Inr (bb_data buff ! 0)"
    using assms(1) by (auto simp: bb_wf_def mem_read_def)
  have s: "bit_buffer_set_size out n = Inr ?out"
    using assms by (auto simp: bb_wf_def bit_buffer_set_size_def)
  have w: "bit_buffer_set_byte ?out 0 x = Inr (?out\<lparr>bb_data := (bb_data out)[0 := x]\<rparr>)" for x
  proof -
    have "(n + 7) div 8 = 1" using assms(4,5) by (intro div_nat_eqI) simp_all
    then show ?thesis using assms by (auto simp: bb_wf_def bit_buffer_set_byte_def size_bytes_alt mem_write_def)
  qed
  have wf: "bb_wf (?out\<lparr>bb_data := (bb_data out)[0 := x]\<rparr>)" for x
    using assms by (auto simp: bb_wf_def)
  show "\<exists>c' d. crypto1_decrypt c buff out = Inr (c', d) \<and> bb_wf d \<and> capacity_bytes d = capacity_bytes out \<and> size_bits d = n"
    using assms(3-5) by (simp add: crypto1_decrypt_def bit_buffer_get_size_def bit_buffer_get_data_def s r w wf Let_def case_prod_beta)
  show "\<exists>c' d. crypto1_encrypt c ks buff out = Inr (c', d) \<and> bb_wf d \<and> capacity_bytes d = capacity_bytes out \<and> size_bits d = n"
    using assms(3-5) by (simp add: crypto1_encrypt_def bit_buffer_get_size_def bit_buffer_get_data_def s r w wf Let_def case_prod_beta)
qed

lemma decrypt_total:
  assumes "bb_wf buff" "bb_wf out" "0 < size_bits buff" "size_bits buff \<le> 8 * capacity_bytes out"
  obtains c' d where "crypto1_decrypt c buff out = Inr (c', d)" "bb_wf d" "capacity_bytes d = capacity_bytes out"
    "size_bits d = size_bits buff"
proof (cases "size_bits buff < 8")
  case True
  then show thesis using crypt_short(1) [OF assms(1,2) refl assms(3) True] that by blast
next
  case False
  let ?out = "out\<lparr>size_bits := size_bits buff\<rparr>" and ?n = "size_bits buff div 8"
  let ?xs = "map2 (XOR) (fst (byte_run False (replicate ?n 0) c)) (take ?n (bb_data buff))"
  have wf: "bb_wf ?out" using assms(2,4) by (simp add: bb_wf_def)
  have n: "?n \<le> length (bb_data buff)" using assms(1) by (auto simp: bb_wf_def)
  have l: "length ?xs \<le> capacity_bytes ?out" using assms(4) by simp
  show thesis
  proof (rule that)
    show "crypto1_decrypt c buff out = Inr (snd (byte_run False (replicate ?n 0) c), filled ?out ?xs (bb_parity ?out))"
      using False assms(4) decrypt_loop [OF wf _ n, of c]
      by (simp add: crypto1_decrypt_def bit_buffer_get_size_def bit_buffer_set_size_def bit_buffer_get_data_def mult.commute Let_def)
    show "bb_wf (filled ?out ?xs (bb_parity ?out))" using bb_wf_filled [OF wf l refl] .
  qed simp_all
qed

lemma crc_append_ok:
  assumes "bb_wf b" "size_bits b = 8 * n" "n + 2 \<le> capacity_bytes b"
  obtains b' where "iso14443_crc_append t b = Inr b'" "bb_wf b'" "capacity_bytes b' = capacity_bytes b"
    "size_bits b' = 8 * (n + 2)"
    "take (n + 2) (bb_data b') = take n (bb_data b) @ crc_bytes (iso14443_crc_calculate t (take n (bb_data b)))"
proof
  let ?crc = "crc_bytes (iso14443_crc_calculate t (take n (bb_data b)))"
  let ?b = "b\<lparr>bb_data := take n (bb_data b) @ ?crc @ drop (n + 2) (bb_data b), size_bits := size_bits b + 2 * 8\<rparr>"
  have s: "bit_buffer_get_size_bytes b = n" using assms(2) by (simp add: size_bytes_alt)
  have l: "length (bb_data b) = capacity_bytes b" using assms(1) by (simp add: bb_wf_def)
  show "iso14443_crc_append t b = Inr ?b"
    using assms(3) l by (simp add: iso14443_crc_append_def s bit_buffer_get_data_def bit_buffer_append_bytes_def mem_copy_def crc_bytes_def Let_def)
  show "bb_wf ?b" using assms l by (simp add: bb_wf_def crc_bytes_def)
  show "take (n + 2) (bb_data ?b) = take n (bb_data b) @ ?crc" using assms(3) l by (simp add: crc_bytes_def)
qed (use assms(2) in simp_all)

lemma crc_check_passes:
  assumes "bb_wf b" "size_bits b = 8 * (n + 2)" "0 < n" "length d = n" "take (n + 2) (bb_data b) = d @ crc_bytes (iso14443_crc_calculate t d)"
  shows "iso14443_crc_check t b = Inr True"
proof -
  have s: "bit_buffer_get_size_bytes b = n + 2" using assms(2) by (simp add: size_bytes_alt)
  have l: "n + 2 \<le> length (bb_data b)" using assms(1,2) by (simp add: bb_wf_def)
  have "take n (bb_data b) = d"
    using arg_cong [OF assms(5), of "take n"] assms(4) by simp
  moreover have "take 2 (drop n (bb_data b)) = crc_bytes (iso14443_crc_calculate t d)"
    using arg_cong [OF assms(5), of "drop n"] assms(4) by (simp add: drop_take)
  ultimately show ?thesis
    using assms(3) l by (simp add: iso14443_crc_check_def s bit_buffer_write_bytes_mid_def mem_copy_def bit_buffer_get_data_def)
qed

lemma crc_check_total: "bb_wf b \<Longrightarrow> \<exists>ok. iso14443_crc_check t b = Inr ok"
proof -
  assume wf: "bb_wf b"
  have "bit_buffer_get_size_bytes b \<le> length (bb_data b)" using size_bytes_le [OF wf] wf by (simp add: bb_wf_def)
  then show ?thesis
    by (auto simp: iso14443_crc_check_def bit_buffer_write_bytes_mid_def mem_copy_def Let_def furi_checkI)
qed

lemma receive_crc:
  assumes "bb_wf b"
  obtains b' where "checked_bind (iso14443_crc_check t b) (\<lambda>ok. checked_bind (if ok then iso14443_crc_trim b else Inr b) f) = f b'"
    "bb_wf b'" "capacity_bytes b' = capacity_bytes b"
proof -
  obtain ok where ok: "iso14443_crc_check t b = Inr ok" using crc_check_total [OF assms] by blast
  show thesis
  proof (cases ok)
    case True
    let ?n = "bit_buffer_get_size_bytes b"
    have 2: "2 < ?n" using ok True by (auto simp: iso14443_crc_check_def Let_def split: if_splits)
    have le: "?n \<le> capacity_bytes b" by (rule size_bytes_le [OF assms])
    show thesis
    proof (rule that)
      show "checked_bind (iso14443_crc_check t b) (\<lambda>ok. checked_bind (if ok then iso14443_crc_trim b else Inr b) f) =
        f (b\<lparr>size_bits := (?n - 2) * 8\<rparr>)"
        using 2 le True by (simp add: ok iso14443_crc_trim_def bit_buffer_set_size_bytes_def furi_checkI)
      show "bb_wf (b\<lparr>size_bits := (?n - 2) * 8\<rparr>)" using assms le by (simp add: bb_wf_def)
    qed simp
  qed (use ok that [of b] assms in simp)
qed

section \<open>The invariant of the emulated card\<close>

definition card_buffer :: "BitBuffer \<Rightarrow> bool" where
  "card_buffer b \<longleftrightarrow> bb_wf b \<and> capacity_bytes b = 64"

definition auth_context_wf :: "MfClassicAuthContext \<Rightarrow> bool" where
  "auth_context_wf a \<longleftrightarrow> length (nt a) = 4 \<and> length (nr a) = 4 \<and> length (ar a) = 4 \<and> length (at a) = 4"

definition card_wf :: "MfClassicListener \<Rightarrow> bool" where
  "card_wf inst \<longleftrightarrow> mf_wf (data inst) \<and> card_buffer (tx_plain_buffer inst) \<and> card_buffer (tx_encrypted_buffer inst) \<and>
     card_buffer (rx_plain_buffer inst) \<and> auth_context_wf (auth_context inst)"

text \<open>A command in progress is one of the table, at its second handler or later.\<close>

definition command_wf :: "MfClassicListener \<Rightarrow> bool" where
  "command_wf inst \<longleftrightarrow> (cmd_in_progress inst \<longrightarrow>
     current_cmd_idx inst < length mf_classic_listener_cmd_handlers \<and> 0 < current_cmd_handler_idx inst \<and>
     current_cmd_handler_idx inst < length (cmd_handler (mf_classic_listener_cmd_handlers ! current_cmd_idx inst)))"

definition listener_inv :: "MfClassicListener \<Rightarrow> bool" where
  "listener_inv inst \<longleftrightarrow> card_wf inst \<and> command_wf inst"

text \<open>A call that returns, with a property of its result.\<close>

definition returns :: "('a \<Rightarrow> bool) \<Rightarrow> 'a checked \<Rightarrow> bool" where
  "returns P r \<longleftrightarrow> (\<exists>x. r = Inr x \<and> P x)"

lemma returns_Inr [simp]: "returns P (Inr x) = P x"
  by (simp add: returns_def)

lemma returns_bind: "returns Q m \<Longrightarrow> (\<And>x. Q x \<Longrightarrow> returns P (f x)) \<Longrightarrow> returns P (checked_bind m f)"
  by (auto simp: returns_def)

lemma returns_mono: "returns Q r \<Longrightarrow> (\<And>x. Q x \<Longrightarrow> P x) \<Longrightarrow> returns P r"
  by (auto simp: returns_def)

lemma returns_obtain: "returns Q r \<Longrightarrow> (\<And>x. r = Inr x \<Longrightarrow> Q x \<Longrightarrow> thesis) \<Longrightarrow> thesis"
  by (auto simp: returns_def)

text \<open>What the buffer operations of the handlers yield on a card's buffers.\<close>

lemma copy_bytes_returns:
  assumes "card_buffer b" "length src = n" "n \<le> 64"
  shows "returns (\<lambda>b'. card_buffer b' \<and> size_bits b' = 8 * n \<and> take n (bb_data b') = src) (bit_buffer_copy_bytes b src n)"
proof -
  have "bb_wf b" "n \<le> capacity_bytes b" using assms by (simp_all add: card_buffer_def)
  then show ?thesis
    by (rule copy_bytes_ok [OF _ assms(2)]) (use assms(1) in \<open>simp add: card_buffer_def\<close>)
qed

lemma encrypt_returns:
  assumes "card_buffer buff" "card_buffer out" "size_bits buff = 8 * n" "0 < n" "n \<le> 64" "feed_ok ks n"
  shows "returns (\<lambda>(c', enc). card_buffer enc \<and> size_bits enc = 8 * n \<and> c' = snd (byte_run False (feed_bytes ks n) c) \<and>
    take n (bb_data enc) = map2 (XOR) (fst (byte_run False (feed_bytes ks n) c)) (take n (bb_data buff)))
    (crypto1_encrypt c ks buff out)"
proof -
  have "bb_wf buff" "bb_wf out" "n \<le> capacity_bytes out" using assms(1,2,5) by (simp_all add: card_buffer_def)
  note b = this
  show ?thesis
    by (rule encrypt_frame [OF b(1,2) assms(3,4) b(3) assms(6), of c]) (use assms(2) in \<open>simp add: card_buffer_def\<close>)
qed

lemma get_byte_returns: "bb_wf b \<Longrightarrow> i < capacity_bytes b \<Longrightarrow> bit_buffer_get_byte b i = Inr (bb_data b ! i)"
  by (simp add: bit_buffer_get_byte_def mem_read_def bb_wf_def)

lemma write_mid_ok:
  assumes "bb_wf b" "start + n \<le> bit_buffer_get_size_bytes b" "n \<le> length dest"
  shows "bit_buffer_write_bytes_mid b dest start n = Inr (take n (drop start (bb_data b)) @ drop n dest)"
proof -
  have "start + n \<le> length (bb_data b)" using assms(2) size_bytes_le [OF assms(1)] assms(1) by (simp add: bb_wf_def)
  then show ?thesis using assms(2,3) by (simp add: bit_buffer_write_bytes_mid_def mem_copy_def)
qed

section \<open>Every handler returns\<close>

text \<open>
  The result of a handler: the card stays well-formed, and if a command is in progress it is the current one, at the
  given handler.
\<close>

definition handled :: "nat \<Rightarrow> nat \<Rightarrow> MfClassicListenerCommand \<times> MfClassicListener \<Rightarrow> bool" where
  "handled i j r \<longleftrightarrow> card_wf (snd r) \<and>
     (cmd_in_progress (snd r) \<longrightarrow> fst r = MfClassicListenerCommandNack \<or>
        current_cmd_idx (snd r) = i \<and> current_cmd_handler_idx (snd r) = j)"

lemmas card_wf_simps = card_wf_def auth_context_wf_def handled_def iso14443_3a_listener_tx_def
  iso14443_3a_listener_tx_with_custom_parity_def listener_callback_def

lemma halt_handled:
  assumes "card_wf inst" "\<not> cmd_in_progress inst" "bb_wf rx" "2 \<le> capacity_bytes rx"
  shows "returns (handled i j) (mf_classic_listener_halt_handler rnd inst rx)"
  using assms by (simp add: mf_classic_listener_halt_handler_def get_byte_returns handled_def)

lemma bytes_to_num_be_Some: "n \<le> 8 \<Longrightarrow> \<exists>v. bit_lib_bytes_to_num_be d n = Some v"
  by (simp add: bit_lib_bytes_to_num_be_def)

lemma num_to_bytes_be_length:
  assumes "n \<le> 8"
  obtains d where "bit_lib_num_to_bytes_be v n dest = Some d" "length d = length dest"
proof -
  have "length (snd (fold (\<lambda>k (src, dest). (drop_bit 8 src, dest[k := ucast src])) ks (v :: u64, dest :: u8 list))) = length dest" for ks
    by (induction ks arbitrary: v dest) simp_all
  then show thesis using that assms by (simp add: bit_lib_num_to_bytes_be_def)
qed

lemma auth_first_part_handled:
  assumes "card_wf inst" "\<not> cmd_in_progress inst" "length rnd = 4" "current_cmd_idx inst = i" "current_cmd_handler_idx inst = 0"
  shows "returns (handled i 1) (mf_classic_listener_auth_first_part_handler rnd inst kt bn)"
proof (cases "unat bn \<ge> total_block_num inst")
  case True
  then show ?thesis using assms(1,2)
    by (simp add: mf_classic_listener_auth_first_part_handler_def Let_def card_wf_simps)
next
  case False
  obtain v where v: "bit_lib_bytes_to_num_be rnd 4 = Some v" using bytes_to_num_be_Some [of 4] by auto
  define k where "k = (if kt = MfClassicKeyTypeA
    then take 6 (block (data inst) ! unat (mf_classic_get_sector_trailer_num_by_block bn))
    else take 6 (drop 10 (block (data inst) ! unat (mf_classic_get_sector_trailer_num_by_block bn))))"
  obtain kn where kn: "bit_lib_bytes_to_num_be k 6 = Some kn" using bytes_to_num_be_Some [of 6] by auto
  show ?thesis
  proof (cases "comm_state inst")
    case MfClassicListenerCommStatePlain
    have "returns (\<lambda>b'. card_buffer b' \<and> size_bits b' = 8 * 4 \<and> take 4 (bb_data b') = rnd)
      (bit_buffer_copy_bytes (tx_encrypted_buffer inst) rnd 4)"
      using assms(1,3) by (intro copy_bytes_returns) (simp_all add: card_wf_def)
    then show ?thesis
      using False assms MfClassicListenerCommStatePlain
      by (elim returns_obtain) (simp add: mf_classic_listener_auth_first_part_handler_def Let_def card_wf_simps v k_def [symmetric] kn)
  next
    case MfClassicListenerCommStateEncrypted
    let ?x = "ucast (ucast v XOR iso14443_3a_get_cuid (iso14443_3a_data (data inst)) :: u32) :: u64"
    obtain ks where ks: "bit_lib_num_to_bytes_be ?x 4 (replicate 4 0) = Some ks" "length ks = 4"
      using num_to_bytes_be_length [of 4 ?x "replicate 4 0"] by auto
    have "returns (\<lambda>b'. card_buffer b' \<and> size_bits b' = 8 * 4 \<and> take 4 (bb_data b') = rnd)
      (bit_buffer_copy_bytes (tx_plain_buffer inst) rnd 4)"
      using assms(1,3) by (intro copy_bytes_returns) (simp_all add: card_wf_def)
    then obtain p where p: "bit_buffer_copy_bytes (tx_plain_buffer inst) rnd 4 = Inr p" "card_buffer p" "size_bits p = 8 * 4"
      by (auto elim: returns_obtain)
    obtain c' e where e: "crypto1_encrypt (crypto1_init (crypto inst) kn) (Some ks) p (tx_encrypted_buffer inst) = Inr (c', e)"
      "card_buffer e"
      using encrypt_returns [OF p(2) _ p(3), of "tx_encrypted_buffer inst" "Some ks" "crypto1_init (crypto inst) kn"] assms(1) ks(2)
      by (auto simp: card_wf_def feed_ok_def elim!: returns_obtain)
    show ?thesis
      using False assms MfClassicListenerCommStateEncrypted p e ks
      by (simp add: mf_classic_listener_auth_first_part_handler_def Let_def card_wf_simps v k_def [symmetric] kn)
  qed
qed

lemma auth_second_part_handled:
  assumes "card_wf inst" "bb_wf rx"
  shows "returns (handled i j) (mf_classic_listener_auth_second_part_handler rnd inst rx)"
proof (cases "bit_buffer_get_size_bytes rx = 8")
  case False
  then show ?thesis using assms(1)
    by (simp add: mf_classic_listener_auth_second_part_handler_def Let_def card_wf_simps)
next
  case True
  let ?nr = "take 4 (bb_data rx)" and ?ar = "take 4 (drop 4 (bb_data rx))"
  have len: "length (nr (auth_context inst)) = 4" "length (ar (auth_context inst)) = 4"
    using assms(1) by (simp_all add: card_wf_def auth_context_wf_def)
  have w: "bit_buffer_write_bytes_mid rx (nr (auth_context inst)) 0 4 = Inr ?nr"
    "bit_buffer_write_bytes_mid rx (ar (auth_context inst)) 4 4 = Inr ?ar"
    using write_mid_ok [OF assms(2)] True len by simp_all
  have "8 \<le> length (bb_data rx)" using size_bytes_le [OF assms(2)] True assms(2) by (simp add: bb_wf_def)
  then have l: "length ?nr = 4" "length ?ar = 4" by simp_all
  define cb where "cb = callback inst"
  obtain v1 v2 v3 where v: "bit_lib_bytes_to_num_be ?nr 4 = Some v1" "bit_lib_bytes_to_num_be ?ar 4 = Some v2"
    "bit_lib_bytes_to_num_be (nt (auth_context inst)) 4 = Some v3"
    using bytes_to_num_be_Some [of 4] by (metis numeral_le_iff semiring_norm(71) semiring_norm(68) semiring_norm(72))
  let ?at = "ucast (crypto1_prng_successor (ucast v3) 96) :: u64"
  obtain d where d: "bit_lib_num_to_bytes_be ?at 4 (at (auth_context inst)) = Some d" "length d = 4"
    using num_to_bytes_be_length [of 4 ?at "at (auth_context inst)"] assms(1) by (auto simp: card_wf_def auth_context_wf_def)
  have "card_buffer (tx_plain_buffer inst)" "card_buffer (tx_encrypted_buffer inst)" using assms(1) by (simp_all add: card_wf_def)
  note b = this
  obtain p where p: "bit_buffer_copy_bytes (tx_plain_buffer inst) d 4 = Inr p" "card_buffer p" "size_bits p = 8 * 4"
    using copy_bytes_returns [OF b(1) d(2)] by (auto elim: returns_obtain)
  have e: "\<exists>c' e. crypto1_encrypt c None p (tx_encrypted_buffer inst) = Inr (c', e) \<and> card_buffer e" for c
    using encrypt_returns [OF p(2) b(2) p(3), of None c] by (auto simp: feed_ok_def elim!: returns_obtain)
  define c1 where "c1 = snd (crypto1_word (crypto inst) (ucast v1) True)"
  obtain w c2 where w2: "crypto1_word c1 0 False = (w, c2)" by fastforce
  obtain c3 e where e3: "crypto1_encrypt c2 None p (tx_encrypted_buffer inst) = Inr (c3, e)" "card_buffer e"
    using e by blast
  show ?thesis
    using assms(1) l d(2) p(2) e3(2)
    by (simp add: mf_classic_listener_auth_second_part_handler_def Let_def True w v c1_def [symmetric] w2 d(1) p(1) e3(1)
        card_wf_simps)
qed

lemma hide_ok: "length b = 16 \<Longrightarrow> i + n \<le> 16 \<Longrightarrow>
  hide a i n b = Inr (if a then b else take i b @ replicate n 0 @ drop (i + n) b)"
  by (simp add: hide_def mem_copy_def)

text \<open>The block a read sends: what the card would show of a trailer, or the block if its data may be read.\<close>

definition shown_block :: "MfClassicData \<Rightarrow> u8 \<Rightarrow> MfClassicKeyType \<Rightarrow> u8 list option" where
  "shown_block d bn kt =
     (let b = block d ! unat bn in
      if mf_classic_is_sector_trailer bn
      then Some (replicate 6 0 @ take 4 (drop 6 b) @
             (if access_allowed d bn kt MfClassicActionKeyBRead then drop 10 b else replicate 6 0))
      else if access_allowed d bn kt MfClassicActionDataRead then Some b else None)"

lemma length_shown_block: "mf_wf d \<Longrightarrow> shown_block d bn kt = Some b \<Longrightarrow> length b = 16"
  by (auto simp: shown_block_def Let_def split: if_splits)

lemma read_access:
  assumes "mf_wf d"
  shows "(let access_block = block d ! unat bn in
     if mf_classic_is_sector_trailer bn
     then checked_bind (mf_classic_is_allowed_access d bn kt MfClassicActionKeyARead) (\<lambda>a.
          checked_bind (hide a 0 6 access_block) (\<lambda>access_block.
          checked_bind (mf_classic_is_allowed_access d bn kt MfClassicActionKeyBRead) (\<lambda>a.
          checked_bind (hide a 10 6 access_block) (\<lambda>access_block.
          checked_bind (mf_classic_is_allowed_access d bn kt MfClassicActionACRead) (\<lambda>a.
          checked_bind (hide a 6 4 access_block) (\<lambda>access_block. Inr (Some access_block)))))))
     else checked_bind (mf_classic_is_allowed_access d bn kt MfClassicActionDataRead) (\<lambda>a.
          Inr (if a then Some access_block else None))) = Inr (shown_block d bn kt)"
proof -
  have l: "length (block d ! unat bn) = 16" by (rule mf_wf_block [OF assms])
  have "take 10 (replicate 6 0 @ drop 6 b) = replicate 6 0 @ take 4 (drop 6 b)" for b :: "u8 list" by simp
  moreover have "drop 6 b = take 4 (drop 6 b) @ drop 10 b" for b :: "u8 list"
    using append_take_drop_id [of 4 "drop 6 b"] by simp
  ultimately show ?thesis
    using l by (auto simp: Let_def shown_block_def hide_ok trailer_access)
qed

lemma read_block_alt:
  assumes "mf_wf (data inst)"
  shows "mf_classic_listener_read_block_handler rnd inst rx =
    (if state inst \<noteq> MfClassicListenerStateAuthComplete then Inr (MfClassicListenerCommandNack, inst)
     else checked_bind (bit_buffer_get_byte rx 1) (\<lambda>bn.
       if mf_classic_get_sector_by_block bn \<noteq> mf_classic_get_sector_by_block (block_num (auth_context inst))
       then Inr (MfClassicListenerCommandNack, inst)
       else
         case shown_block (data inst) bn (key_type (auth_context inst)) of
           None \<Rightarrow> Inr (MfClassicListenerCommandNack, inst)
         | Some access_block \<Rightarrow>
             checked_bind (bit_buffer_copy_bytes (tx_plain_buffer inst) access_block 16) (\<lambda>plain.
             checked_bind (iso14443_crc_append Iso14443CrcTypeA plain) (\<lambda>plain.
             checked_bind (crypto1_encrypt (crypto inst) None plain (tx_encrypted_buffer inst)) (\<lambda>(c, tx).
             Inr (MfClassicListenerCommandProcessed,
               iso14443_3a_listener_tx_with_custom_parity
                 (inst\<lparr>crypto := c, tx_plain_buffer := plain, tx_encrypted_buffer := tx\<rparr>) tx))))))"
  unfolding mf_classic_listener_read_block_handler_def Let_def [of "key_type _"] read_access [OF assms] checked_bind_simps ..

text \<open>A successful read: the frame sent is the shown block with its checksum, encrypted.\<close>

lemma read_block_sends:
  assumes "card_wf inst" "state inst = MfClassicListenerStateAuthComplete" "bb_wf rx" "2 \<le> capacity_bytes rx"
    "mf_classic_get_sector_by_block (bb_data rx ! 1) = mf_classic_get_sector_by_block (block_num (auth_context inst))"
    "shown_block (data inst) (bb_data rx ! 1) (key_type (auth_context inst)) = Some blk"
  obtains q c' tx where "size_bits q = 8 * 18" "card_buffer q" "take 18 (bb_data q) = blk @ crc_bytes (iso14443_crc_calculate Iso14443CrcTypeA blk)"
    "crypto1_encrypt (crypto inst) None q (tx_encrypted_buffer inst) = Inr (c', tx)" "card_buffer tx" "size_bits tx = 8 * 18"
    "c' = snd (byte_run False (replicate 18 0) (crypto inst))"
    "take 18 (bb_data tx) = map2 (XOR) (fst (byte_run False (replicate 18 0) (crypto inst))) (take 18 (bb_data q))"
    "mf_classic_listener_read_block_handler rnd inst rx = Inr (MfClassicListenerCommandProcessed,
       inst\<lparr>crypto := c', tx_plain_buffer := q, tx_encrypted_buffer := tx, sent := sent inst @ [Tx_With_Custom_Parity tx]\<rparr>)"
proof -
  have d: "mf_wf (data inst)" and b: "card_buffer (tx_plain_buffer inst)" "card_buffer (tx_encrypted_buffer inst)"
    using assms(1) by (simp_all add: card_wf_def)
  have g: "bit_buffer_get_byte rx 1 = Inr (bb_data rx ! 1)" using assms(3,4) by (simp add: get_byte_returns)
  have l: "length blk = 16" by (rule length_shown_block [OF d assms(6)])
  obtain p where p: "bit_buffer_copy_bytes (tx_plain_buffer inst) blk 16 = Inr p" "card_buffer p" "size_bits p = 8 * 16"
    "take 16 (bb_data p) = blk"
    using copy_bytes_returns [OF b(1) l] by (auto elim: returns_obtain)
  have "bb_wf p" "16 + 2 \<le> capacity_bytes p" using p(2) by (simp_all add: card_buffer_def)
  then obtain q where q: "iso14443_crc_append Iso14443CrcTypeA p = Inr q" "card_buffer q" "size_bits q = 8 * 18"
    "take 18 (bb_data q) = blk @ crc_bytes (iso14443_crc_calculate Iso14443CrcTypeA blk)"
    by (rule crc_append_ok [OF _ p(3), of Iso14443CrcTypeA]) (use p(2,4) in \<open>simp add: card_buffer_def\<close>)
  obtain c' e where e: "crypto1_encrypt (crypto inst) None q (tx_encrypted_buffer inst) = Inr (c', e)" "card_buffer e"
    "size_bits e = 8 * 18" "c' = snd (byte_run False (replicate 18 0) (crypto inst))"
    "take 18 (bb_data e) = map2 (XOR) (fst (byte_run False (replicate 18 0) (crypto inst))) (take 18 (bb_data q))"
    using encrypt_returns [OF q(2) b(2) q(3), of None "crypto inst"] by (auto simp: feed_ok_def feed_bytes_def elim!: returns_obtain)
  show thesis
  proof (rule that [OF q(3,2,4) e(1,2,3,4,5)])
    show "mf_classic_listener_read_block_handler rnd inst rx = Inr (MfClassicListenerCommandProcessed,
       inst\<lparr>crypto := c', tx_plain_buffer := q, tx_encrypted_buffer := e, sent := sent inst @ [Tx_With_Custom_Parity e]\<rparr>)"
      unfolding read_block_alt [OF d] g checked_bind_simps
      by (simp add: assms(2,5,6) [unfolded One_nat_def] p(1) q(1) e(1) iso14443_3a_listener_tx_with_custom_parity_def)
  qed
qed

lemma read_block_handled:
  assumes "card_wf inst" "\<not> cmd_in_progress inst" "bb_wf rx" "2 \<le> capacity_bytes rx"
  shows "returns (handled i j) (mf_classic_listener_read_block_handler rnd inst rx)"
proof (cases "state inst = MfClassicListenerStateAuthComplete \<and>
    mf_classic_get_sector_by_block (bb_data rx ! 1) = mf_classic_get_sector_by_block (block_num (auth_context inst)) \<and>
    shown_block (data inst) (bb_data rx ! 1) (key_type (auth_context inst)) \<noteq> None")
  case True
  then obtain blk where "shown_block (data inst) (bb_data rx ! 1) (key_type (auth_context inst)) = Some blk" by blast
  with True show ?thesis
    by (elim read_block_sends [OF assms(1) _ assms(3,4), where rnd = rnd] conjE) (use assms(1,2) in \<open>simp_all add: card_wf_simps\<close>)
next
  case False
  have g: "bit_buffer_get_byte rx 1 = Inr (bb_data rx ! 1)" using assms(3,4) by (simp add: get_byte_returns)
  have d: "mf_wf (data inst)" using assms(1) by (simp add: card_wf_def)
  have "mf_classic_listener_read_block_handler rnd inst rx = Inr (MfClassicListenerCommandNack, inst)"
    unfolding read_block_alt [OF d] g checked_bind_simps using False by (auto split: option.split)
  then show ?thesis using assms(1,2) by (simp add: handled_def)
qed

lemma write_block_first_part_handled:
  assumes "card_wf inst" "\<not> cmd_in_progress inst" "bb_wf rx" "2 \<le> capacity_bytes rx"
    "current_cmd_idx inst = i" "current_cmd_handler_idx inst = 0"
  shows "returns (handled i 1) (mf_classic_listener_write_block_first_part_handler rnd inst rx)"
  using assms by (simp add: mf_classic_listener_write_block_first_part_handler_def get_byte_returns card_wf_simps)

lemma write_field_ok:
  assumes "bb_wf rx" "bit_buffer_get_size_bytes rx = 16" "length b = 16" "i + n \<le> 16"
  shows "write_field a rx i n b =
    Inr (if a then take i b @ take n (drop i (bb_data rx)) @ drop (i + n) b else b)"
  using assms write_mid_ok [OF assms(1), of i n "drop i b"] by (simp add: write_field_def add.commute)

text \<open>What a write of the 16 bytes \<open>w\<close> makes of a block, if any of it may be written.\<close>

definition written_block :: "MfClassicData \<Rightarrow> u8 \<Rightarrow> MfClassicKeyType \<Rightarrow> u8 list \<Rightarrow> u8 list option" where
  "written_block d bn kt w =
     (let b = block d ! unat bn; aw = access_allowed d bn kt MfClassicActionKeyAWrite;
          bw = access_allowed d bn kt MfClassicActionKeyBWrite; acw = access_allowed d bn kt MfClassicActionACWrite in
      if mf_classic_is_sector_trailer bn
      then (if aw \<or> bw \<or> acw
            then Some ((if aw then take 6 w else take 6 b) @ (if acw then take 4 (drop 6 w) else take 4 (drop 6 b)) @
                   (if bw then drop 10 w else drop 10 b))
            else None)
      else if access_allowed d bn kt MfClassicActionDataWrite then Some w else None)"

lemma length_written_block: "mf_wf d \<Longrightarrow> length w = 16 \<Longrightarrow> written_block d bn kt w = Some b \<Longrightarrow> length b = 16"
  by (auto simp: written_block_def Let_def split: if_splits)

lemma three_fields:
  assumes "length b = 16"
  obtains k a c where "b = k @ a @ c" "length k = 6" "length a = 4" "length c = 6"
proof
  show "b = take 6 b @ take 4 (drop 6 b) @ drop 10 b" using append_take_drop_id [of 4 "drop 6 b"] by simp
qed (use assms in simp_all)

lemma write_access:
  assumes "mf_wf d" "bb_wf rx" "bit_buffer_get_size_bytes rx = 16"
  shows "(if mf_classic_is_sector_trailer bn
     then checked_bind (mf_classic_is_allowed_access d bn kt MfClassicActionKeyAWrite) (\<lambda>aw.
          checked_bind (mf_classic_is_allowed_access d bn kt MfClassicActionKeyBWrite) (\<lambda>bw.
          checked_bind (mf_classic_is_allowed_access d bn kt MfClassicActionACWrite) (\<lambda>acw.
          if \<not> aw \<and> \<not> bw \<and> \<not> acw then Inr None
          else
            checked_bind (write_field aw rx 0 6 (block d ! unat bn)) (\<lambda>b.
            checked_bind (write_field bw rx 10 6 b) (\<lambda>b.
            checked_bind (write_field acw rx 6 4 b) (\<lambda>b. Inr (Some b)))))))
     else checked_bind (mf_classic_is_allowed_access d bn kt MfClassicActionDataWrite) (\<lambda>w.
          if w then checked_bind (write_field True rx 0 16 (block d ! unat bn)) (\<lambda>b. Inr (Some b)) else Inr None)) =
     Inr (written_block d bn kt (take 16 (bb_data rx)))"
proof -
  have l: "length (block d ! unat bn) = 16" by (rule mf_wf_block [OF assms(1)])
  obtain k a c where b: "block d ! unat bn = k @ a @ c" "length k = 6" "length a = 4" "length c = 6"
    by (rule three_fields [OF l])
  have "16 \<le> length (bb_data rx)" using size_bytes_le [OF assms(2)] assms(2,3) by (simp add: bb_wf_def)
  then have "length (take 16 (bb_data rx)) = 16" by simp
  then obtain k' a' c' where w: "take 16 (bb_data rx) = k' @ a' @ c'" "length k' = 6" "length a' = 4" "length c' = 6"
    by (rule three_fields)
  have t: "take 6 (bb_data rx) = k'" "take 4 (drop 6 (bb_data rx)) = a'" "take 6 (drop 10 (bb_data rx)) = c'"
  proof -
    have "take n (drop i (bb_data rx)) = take n (drop i (take 16 (bb_data rx)))" if "i + n \<le> 16" for i n
      using that by (simp add: drop_take)
    from this [of 0 6] this [of 6 4] this [of 10 6]
    show "take 6 (bb_data rx) = k'" "take 4 (drop 6 (bb_data rx)) = a'" "take 6 (drop 10 (bb_data rx)) = c'"
      unfolding w(1) using w(2-4) by simp_all
  qed
  note f = write_field_ok [OF assms(2,3)]
  show ?thesis
    unfolding written_block_def Let_def
    by (auto simp: b w t f is_allowed_access)
qed

lemma write_block_second_part_alt:
  assumes "mf_wf (data inst)" "bb_wf rx"
  shows "mf_classic_listener_write_block_second_part_handler rnd inst rx =
    Inr (if bit_buffer_get_size_bytes rx \<noteq> 16 then (MfClassicListenerCommandNack, inst\<lparr>cmd_in_progress := False\<rparr>)
     else case written_block (data inst) (write_block inst) (key_type (auth_context inst)) (take 16 (bb_data rx)) of
       None \<Rightarrow> (MfClassicListenerCommandNack, inst\<lparr>cmd_in_progress := False\<rparr>)
     | Some b \<Rightarrow> (MfClassicListenerCommandAck, inst\<lparr>cmd_in_progress := False,
         data := (data inst)\<lparr>block := (block (data inst))[unat (write_block inst) := b]\<rparr>\<rparr>))"
proof (cases "bit_buffer_get_size_bytes rx = 16")
  case True
  have d: "mf_wf (data (inst\<lparr>cmd_in_progress := False\<rparr>))" using assms(1) by simp
  show ?thesis
    unfolding mf_classic_listener_write_block_second_part_handler_def Let_def
      write_access [OF d assms(2) True] checked_bind_simps
    using True by (simp split: option.split)
qed (simp add: mf_classic_listener_write_block_second_part_handler_def)

lemma write_block_second_part_handled:
  assumes "card_wf inst" "bb_wf rx"
  shows "returns (handled i j) (mf_classic_listener_write_block_second_part_handler rnd inst rx)"
proof -
  have d: "mf_wf (data inst)" using assms(1) by (simp add: card_wf_def)
  have "length (take 16 (bb_data rx)) = 16" if "bit_buffer_get_size_bytes rx = 16"
    using size_bytes_le [OF assms(2)] that assms(2) by (simp add: bb_wf_def)
  then have "length b = 16" if "bit_buffer_get_size_bytes rx = 16"
    "written_block (data inst) bn kt (take 16 (bb_data rx)) = Some b" for b bn kt
    using length_written_block [OF d _ that(2)] that(1) by blast
  then show ?thesis
    unfolding write_block_second_part_alt [OF d assms(2)] using assms(1)
    by (auto simp: card_wf_simps intro!: mf_wf_update split: option.split)
qed

text \<open>The value command: the current value of the block is loaded if it is a value block that may be changed.\<close>

definition value_action :: "u8 \<Rightarrow> (MfClassicValueCommand \<times> MfClassicAction) option" where
  "value_action cmd =
     (if cmd = 0xC0 then Some (MfClassicValueCommandDecrement, MfClassicActionDataDec)
      else if cmd = 0xC1 then Some (MfClassicValueCommandIncrement, MfClassicActionDataInc)
      else if cmd = 0xC2 then Some (MfClassicValueCommandRestore, MfClassicActionDataDec) else None)"

lemma value_cmd_handled:
  assumes "card_wf inst" "\<not> cmd_in_progress inst" "bb_wf rx" "2 \<le> capacity_bytes rx"
    "current_cmd_idx inst = i" "current_cmd_handler_idx inst = 0"
  shows "returns (handled i 1) (mf_classic_listener_value_cmd_handler rnd inst rx)"
proof -
  have g: "bit_buffer_get_byte rx 1 = Inr (bb_data rx ! 1)" "bit_buffer_get_byte rx 0 = Inr (bb_data rx ! 0)"
    using assms(3,4) by (simp_all add: get_byte_returns)
  show ?thesis
    unfolding mf_classic_listener_value_cmd_handler_def g checked_bind_simps Let_def is_allowed_access case_prod_beta
    using assms by (auto simp: card_wf_simps)
qed

lemma value_data_receive_handled:
  assumes "card_wf inst" "bb_wf rx" "current_cmd_idx inst = i" "current_cmd_handler_idx inst = 1"
  shows "returns (handled i 2) (mf_classic_listener_value_data_receive_handler rnd inst rx)"
proof (cases "bit_buffer_get_size_bytes rx = 4")
  case True
  have w: "bit_buffer_write_bytes_mid rx (replicate 4 0) 0 4 = Inr (take 4 (bb_data rx))"
    using write_mid_ok [OF assms(2), of 0 4 "replicate 4 0"] True by simp
  show ?thesis
    unfolding mf_classic_listener_value_data_receive_handler_def w Let_def checked_bind_simps
    using True assms by (simp add: card_wf_simps)
qed (use assms in \<open>simp add: mf_classic_listener_value_data_receive_handler_def handled_def\<close>)

lemma value_transfer_alt:
  assumes "mf_wf (data inst)" "bb_wf rx" "2 \<le> capacity_bytes rx"
  shows "mf_classic_listener_value_transfer_handler rnd inst rx =
    Inr (if bit_buffer_get_size_bytes rx = 2 \<and> bb_data rx ! 0 = 0xB0 \<and>
           access_allowed (data inst) (bb_data rx ! 1) (key_type (auth_context inst)) MfClassicActionDataDec
     then (MfClassicListenerCommandAck, inst\<lparr>cmd_in_progress := False,
       data := (data inst)\<lparr>block := (block (data inst))[unat (bb_data rx ! 1) :=
         u32_bytes (transfer_value inst) @ u32_bytes (NOT (transfer_value inst)) @ u32_bytes (transfer_value inst) @
         [bb_data rx ! 1, NOT (bb_data rx ! 1), bb_data rx ! 1, NOT (bb_data rx ! 1)]]\<rparr>,
       transfer_value := 0, transfer_valid := False\<rparr>)
     else (MfClassicListenerCommandNack, inst\<lparr>cmd_in_progress := False\<rparr>))"
proof -
  have g: "bit_buffer_get_byte rx 1 = Inr (bb_data rx ! 1)" "bit_buffer_get_byte rx 0 = Inr (bb_data rx ! 0)"
    using assms(2,3) by (simp_all add: get_byte_returns)
  have d: "mf_wf (data (inst\<lparr>cmd_in_progress := False\<rparr>))" using assms(1) by simp
  show ?thesis
    unfolding mf_classic_listener_value_transfer_handler_def g checked_bind_simps Let_def is_allowed_access
      value_to_block [OF mf_wf_block [OF d]]
    by simp
qed

lemma value_transfer_handled:
  assumes "card_wf inst" "bb_wf rx" "2 \<le> capacity_bytes rx"
  shows "returns (handled i j) (mf_classic_listener_value_transfer_handler rnd inst rx)"
proof -
  have d: "mf_wf (data inst)" using assms(1) by (simp add: card_wf_def)
  show ?thesis
    unfolding value_transfer_alt [OF d assms(2,3)] using assms(1)
    by (auto simp: card_wf_simps intro!: mf_wf_update)
qed

section \<open>The event loop\<close>

definition first_handlers :: "handler list" where
  "first_handlers = map (\<lambda>c. cmd_handler c ! 0) mf_classic_listener_cmd_handlers"

lemma find_command_cases:
  "bb_wf rx \<Longrightarrow> 0 < capacity_bytes rx \<Longrightarrow> list_all (\<lambda>c. 0 < length (cmd_handler c)) cmds \<Longrightarrow>
   (find_command cmds k rnd inst rx = Inr (MfClassicListenerCommandNack, inst)) \<or>
   (\<exists>m < length cmds. find_command cmds k rnd inst rx =
      (cmd_handler (cmds ! m) ! 0) rnd (inst\<lparr>current_cmd_idx := k + m, current_cmd_handler_idx := 0\<rparr>) rx)"
proof (induction cmds arbitrary: k)
  case (Cons c cmds)
  have g: "bit_buffer_get_byte rx 0 = Inr (bb_data rx ! 0)"
    using Cons.prems by (simp add: get_byte_returns)
  from Cons.IH [of "k + 1"] Cons.prems have IH: "find_command cmds (k + 1) rnd inst rx = Inr (MfClassicListenerCommandNack, inst) \<or>
    (\<exists>m < length (c # cmds). find_command cmds (k + 1) rnd inst rx =
      (cmd_handler ((c # cmds) ! m) ! 0) rnd (inst\<lparr>current_cmd_idx := k + m, current_cmd_handler_idx := 0\<rparr>) rx)"
    by fastforce
  show ?case
  proof (cases "bit_buffer_get_size rx = cmd_len_bits c \<and> bb_data rx ! 0 = cmd_start_byte c")
    case True
    then show ?thesis using Cons.prems(3) by (intro disjI2 exI [of _ 0]) (simp add: g mem_read_def)
  next
    case False
    then have "find_command (c # cmds) k rnd inst rx = find_command cmds (k + 1) rnd inst rx" by (auto simp: g)
    then show ?thesis using IH by (simp only:)
  qed
qed simp

lemma less_9_cases:
  assumes "m < (9 :: nat)"
  obtains "m = 0" | "m = 1" | "m = 2" | "m = 3" | "m = 4" | "m = 5" | "m = 6" | "m = 7" | "m = 8"
  using assms by linarith

text \<open>What the dispatcher gives: after a refusal the state is reset anyway.\<close>

definition dispatched :: "MfClassicListenerCommand \<times> MfClassicListener \<Rightarrow> bool" where
  "dispatched r \<longleftrightarrow> card_wf (snd r) \<and> (fst r = MfClassicListenerCommandNack \<or> command_wf (snd r))"

lemma dispatched_last:
  assumes "\<And>j. returns (handled i j) r"
  shows "returns dispatched r"
  using assms [of 1] assms [of 2] by (auto simp: returns_def handled_def dispatched_def command_wf_def)

lemma dispatched_next:
  assumes "returns (handled i j) r" "i < length mf_classic_listener_cmd_handlers" "0 < j"
    "j < length (cmd_handler (mf_classic_listener_cmd_handlers ! i))"
  shows "returns dispatched r"
  using assms by (auto simp: returns_def handled_def dispatched_def command_wf_def)

lemmas handler_table = mf_classic_listener_cmd_handlers_def mf_classic_listener_value_handlers_def
  mf_classic_listener_value_dec_handler_def mf_classic_listener_value_inc_handler_def
  mf_classic_listener_value_restore_handler_def mf_classic_listener_auth_key_a_handler_def
  mf_classic_listener_auth_key_b_handler_def

lemma first_handler_dispatched:
  assumes "card_wf inst" "\<not> cmd_in_progress inst" "bb_wf rx" "2 \<le> capacity_bytes rx" "length rnd = 4" "m < 9"
    "current_cmd_idx inst = m" "current_cmd_handler_idx inst = 0"
  shows "returns dispatched ((cmd_handler (mf_classic_listener_cmd_handlers ! m) ! 0) rnd inst rx)"
proof -
  have g: "bit_buffer_get_byte rx (Suc 0) = Inr (bb_data rx ! Suc 0)"
    using assms(3,4) by (simp add: get_byte_returns)
  note h = halt_handled [OF assms(1-4)] read_block_handled [OF assms(1-4)]
  have s: "returns (handled m 1) (mf_classic_listener_auth_first_part_handler rnd inst kt bn)"
    "returns (handled m 1) (mf_classic_listener_write_block_first_part_handler rnd inst rx)"
    "returns (handled m 1) (mf_classic_listener_value_cmd_handler rnd inst rx)" for kt bn
    using auth_first_part_handled [OF assms(1,2,5,7,8)] write_block_first_part_handled [OF assms(1-4,7,8)]
      value_cmd_handled [OF assms(1-4,7,8)] by blast+
  from \<open>m < 9\<close> show ?thesis
    by (rule less_9_cases)
      (use dispatched_last [OF h(1)] dispatched_last [OF h(2)] dispatched_next [OF s(1)] dispatched_next [OF s(2)] dispatched_next [OF s(3)]
       in \<open>simp_all add: handler_table g\<close>)
qed

lemma dispatch_total:
  assumes "listener_inv inst" "bb_wf rx" "2 \<le> capacity_bytes rx" "length rnd = 4"
  shows "returns dispatched (listener_dispatch rnd inst rx)"
proof (cases "cmd_in_progress inst")
  case False
  have c: "card_wf inst" using assms(1) by (simp add: listener_inv_def)
  have nack: "dispatched (MfClassicListenerCommandNack, inst)" using c by (simp add: dispatched_def)
  have ne: "list_all (\<lambda>c. 0 < length (cmd_handler c)) mf_classic_listener_cmd_handlers"
    by (simp add: mf_classic_listener_cmd_handlers_def mf_classic_listener_value_handlers_def)
  have len: "length mf_classic_listener_cmd_handlers = 9" by (simp add: mf_classic_listener_cmd_handlers_def)
  have "0 < capacity_bytes rx" using assms(3) by simp
  from find_command_cases [OF assms(2) this ne, of 0 rnd inst] show ?thesis
  proof
    assume "find_command mf_classic_listener_cmd_handlers 0 rnd inst rx = Inr (MfClassicListenerCommandNack, inst)"
    then show ?thesis using False nack by (simp add: listener_dispatch_def)
  next
    assume "\<exists>m<length mf_classic_listener_cmd_handlers. find_command mf_classic_listener_cmd_handlers 0 rnd inst rx =
      (cmd_handler (mf_classic_listener_cmd_handlers ! m) ! 0) rnd (inst\<lparr>current_cmd_idx := 0 + m, current_cmd_handler_idx := 0\<rparr>) rx"
    then obtain m where m: "m < 9" "find_command mf_classic_listener_cmd_handlers 0 rnd inst rx =
      (cmd_handler (mf_classic_listener_cmd_handlers ! m) ! 0) rnd (inst\<lparr>current_cmd_idx := m, current_cmd_handler_idx := 0\<rparr>) rx"
      by (auto simp: len)
    have "card_wf (inst\<lparr>current_cmd_idx := m, current_cmd_handler_idx := 0\<rparr>)" using c by (simp add: card_wf_def)
    from first_handler_dispatched [OF this _ assms(2-4) m(1)] False m(2) show ?thesis
      by (simp add: listener_dispatch_def)
  qed
next
  case True
  let ?i = "current_cmd_idx inst" and ?j = "current_cmd_handler_idx inst"
  have c: "card_wf inst" and i: "?i < 9" and j: "0 < ?j" "?j < length (cmd_handler (mf_classic_listener_cmd_handlers ! ?i))"
    using assms(1) True by (simp_all add: listener_inv_def command_wf_def mf_classic_listener_cmd_handlers_def)
  have len: "length mf_classic_listener_cmd_handlers = 9" by (simp add: mf_classic_listener_cmd_handlers_def)
  have d: "listener_dispatch rnd inst rx = (cmd_handler (mf_classic_listener_cmd_handlers ! ?i) ! ?j) rnd inst rx"
    using True i j(2) by (simp add: listener_dispatch_def mem_read_def len)
  note h = dispatched_last [OF auth_second_part_handled [OF c assms(2)]] dispatched_last [OF write_block_second_part_handled [OF c assms(2)]]
    dispatched_last [OF value_transfer_handled [OF c assms(2,3)]]
  have v: "returns dispatched (mf_classic_listener_value_data_receive_handler rnd inst rx)"
    if "?j = 1" "?i \<in> {6, 7, 8}"
    using that by (intro dispatched_next [OF value_data_receive_handled [OF c assms(2) refl]]) (auto simp: handler_table)
  have j3: "?j < 3"
    using i j(2) by (elim less_9_cases) (simp_all add: handler_table)
  then consider "?j = 1" | "?j = 2" using j(1) by linarith
  then show ?thesis
  proof cases
    case 1
    from i show ?thesis unfolding d
      by (rule less_9_cases) (use h v 1 j in \<open>simp_all add: handler_table\<close>)
  next
    case 2
    from i show ?thesis unfolding d
      by (rule less_9_cases) (use h 2 j in \<open>simp_all add: handler_table\<close>)
  qed
qed

lemma reset_state_inv:
  assumes "card_wf inst"
  shows "listener_inv (mf_classic_listener_reset_state inst)"
  using assms by (simp add: listener_inv_def card_wf_def command_wf_def mf_classic_listener_reset_state_def
      auth_context_wf_def zero_auth_context_def)

lemma short_frame_total:
  assumes "card_wf inst"
  shows "returns (\<lambda>i. card_wf i \<and> (command_wf inst \<longrightarrow> command_wf i)) (mf_classic_listener_send_short_frame inst d)"
proof -
  have b: "card_buffer (tx_plain_buffer inst)" "card_buffer (tx_encrypted_buffer inst)" using assms by (simp_all add: card_wf_def)
  let ?p = "(tx_plain_buffer inst)\<lparr>size_bits := 4, bb_data := (bb_data (tx_plain_buffer inst))[0 := d]\<rparr>"
  have s: "bit_buffer_set_size (tx_plain_buffer inst) 4 = Inr ((tx_plain_buffer inst)\<lparr>size_bits := 4\<rparr>)"
    "bit_buffer_set_byte ((tx_plain_buffer inst)\<lparr>size_bits := 4\<rparr>) 0 d = Inr ?p"
    using b(1) by (auto simp: card_buffer_def bb_wf_def bit_buffer_set_size_def bit_buffer_set_byte_def
        bit_buffer_get_size_bytes_def mem_write_def furi_checkI)
  have p: "card_buffer ?p" using b(1) by (auto simp: card_buffer_def bb_wf_def)
  have "\<exists>c' e. crypto1_encrypt (crypto inst) None ?p (tx_encrypted_buffer inst) = Inr (c', e) \<and> bb_wf e \<and>
    capacity_bytes e = capacity_bytes (tx_encrypted_buffer inst) \<and> size_bits e = 4"
    using p b(2) by (intro crypt_short(2)) (auto simp: card_buffer_def)
  then obtain c' e where e: "crypto1_encrypt (crypto inst) None ?p (tx_encrypted_buffer inst) = Inr (c', e)" "card_buffer e"
    using b(2) by (auto simp: card_buffer_def)
  show ?thesis
    using assms e p by (simp add: mf_classic_listener_send_short_frame_def s Let_def card_wf_simps command_wf_def)
qed

lemma answer_total:
  assumes "dispatched (cmd, inst)"
  shows "returns (\<lambda>r. listener_inv (snd r)) (listener_answer cmd inst)"
proof -
  have c: "card_wf inst" using assms by (simp add: dispatched_def)
  note f = short_frame_total [OF c]
  have w: "command_wf inst" if "cmd \<noteq> MfClassicListenerCommandNack" using assms that by (simp add: dispatched_def)
  show ?thesis
  proof (cases cmd)
    case MfClassicListenerCommandAck
    then show ?thesis using w
      by (auto simp: listener_answer_def listener_inv_def intro: returns_bind [OF f])
  next
    case MfClassicListenerCommandNack
    then show ?thesis
      by (auto simp: listener_answer_def intro!: returns_bind [OF f] reset_state_inv)
  qed (use c w in \<open>simp_all add: listener_answer_def listener_inv_def [of inst] reset_state_inv\<close>)
qed

text \<open>What a frame may be: not empty, and short enough for the buffer it is decrypted into.\<close>

definition receivable :: "BitBuffer \<Rightarrow> bool" where
  "receivable b \<longleftrightarrow> bb_wf b \<and> 2 \<le> capacity_bytes b \<and> 0 < size_bits b \<and> size_bits b \<le> 8 * 64"

lemma receive_total:
  assumes "listener_inv inst" "receivable b"
  shows "returns (\<lambda>r. listener_inv (fst r) \<and> bb_wf (snd r) \<and> 2 \<le> capacity_bytes (snd r)) (listener_receive inst b)"
proof (cases "comm_state inst = MfClassicListenerCommStateEncrypted \<and> state inst = MfClassicListenerStateAuthComplete")
  case True
  have rx: "bb_wf (rx_plain_buffer inst)" "capacity_bytes (rx_plain_buffer inst) = 64"
    using assms(1) by (simp_all add: listener_inv_def card_wf_def card_buffer_def)
  obtain c' d where d: "crypto1_decrypt (crypto inst) b (rx_plain_buffer inst) = Inr (c', d)" "bb_wf d"
    "capacity_bytes d = 64"
    by (rule decrypt_total [of b "rx_plain_buffer inst" "crypto inst"]) (use assms(2) rx in \<open>simp_all add: receivable_def\<close>)
  obtain d' where d': "checked_bind (iso14443_crc_check Iso14443CrcTypeA d) (\<lambda>ok.
      checked_bind (if ok then iso14443_crc_trim d else Inr d) (\<lambda>rx. Inr (inst\<lparr>crypto := c', rx_plain_buffer := rx\<rparr>, rx))) =
      Inr (inst\<lparr>crypto := c', rx_plain_buffer := d'\<rparr>, d')" "bb_wf d'" "capacity_bytes d' = 64"
    by (rule receive_crc [OF d(2), of Iso14443CrcTypeA "\<lambda>rx. Inr (inst\<lparr>crypto := c', rx_plain_buffer := rx\<rparr>, rx)"]) (use d(3) in simp)
  show ?thesis
    using True assms(1) d(1) d' by (simp add: listener_receive_def listener_inv_def card_wf_def card_buffer_def command_wf_def)
next
  case False
  then have "listener_receive inst b = Inr (inst, b)" by (simp only: listener_receive_def if_False)
  then show ?thesis using assms by (simp add: receivable_def)
qed

fun event_ok :: "Iso14443_3aListenerEvent \<Rightarrow> bool" where
  "event_ok (Iso14443_3aListenerEventTypeReceivedData b) = receivable b"
| "event_ok (Iso14443_3aListenerEventTypeReceivedStandardFrame b) = receivable b"
| "event_ok _ = True"

lemma run_total:
  assumes "listener_inv inst" "event_ok ev" "length rnd = 4"
  shows "returns (\<lambda>r. listener_inv (snd r)) (mf_classic_listener_run rnd inst ev)"
proof -
  have c: "card_wf inst" using assms(1) by (simp add: listener_inv_def)
  have "returns (\<lambda>r. listener_inv (snd r)) (listener_frame rnd inst b)" if "receivable b" for b
    unfolding listener_frame_def
    by (rule returns_bind [OF receive_total [OF assms(1) that]])
      (auto intro!: returns_bind [OF dispatch_total [OF _ _ _ assms(3)]] intro: answer_total)
  then show ?thesis
    using assms(2) c by (cases ev) (simp_all add: mf_classic_listener_run_def reset_state_inv)
qed

text \<open>The events of a whole emulation, with the random bytes drawn while each is handled.\<close>

fun listener_session :: "(u8 list \<times> Iso14443_3aListenerEvent) list \<Rightarrow> MfClassicListener \<Rightarrow> MfClassicListener checked" where
  "listener_session [] inst = Inr inst"
| "listener_session ((rnd, ev) # evs) inst =
     checked_bind (mf_classic_listener_run rnd inst ev) (\<lambda>(command, inst). listener_session evs inst)"

text \<open>
  C3 (safety): the emulation of any card image, from the allocation on and through any sequence of events of the
  driver with non-empty frames of at most 64 bytes, reaches no failed check and no access outside a buffer, and keeps
  the invariant of the card; a command in progress always has a handler for the next frame.
\<close>

theorem listener_total:
  assumes "mf_wf d" "list_all (\<lambda>(rnd, ev). length rnd = 4 \<and> event_ok ev) evs"
  shows "\<exists>inst. checked_bind (mf_classic_listener_alloc d) (\<lambda>inst. listener_session evs (mf_classic_listener_set_callback inst cb)) =
    Inr inst \<and> listener_inv inst"
proof -
  have "returns listener_inv (listener_session evs inst)" if "listener_inv inst" for inst
    using assms(2) that
  proof (induction evs arbitrary: inst)
    case (Cons p evs)
    then show ?case by (cases p) (auto intro!: returns_bind [OF run_total])
  qed simp
  moreover have "listener_inv (mf_classic_listener_set_callback inst cb)" if "listener_inv inst" for inst
    using that by (simp add: mf_classic_listener_set_callback_def listener_inv_def card_wf_def command_wf_def)
  moreover have "returns listener_inv (mf_classic_listener_alloc d)"
    using assms(1) by (simp add: mf_classic_listener_alloc_def bit_buffer_alloc_def mf_classic_listener_prepare_emulation_def
        listener_inv_def card_wf_def card_buffer_def bb_wf_def auth_context_wf_def zero_auth_context_def command_wf_def)
  ultimately have "returns listener_inv (checked_bind (mf_classic_listener_alloc d)
      (\<lambda>inst. listener_session evs (mf_classic_listener_set_callback inst cb)))"
    by (blast intro: returns_bind)
  then show ?thesis by (simp add: returns_def)
qed

theorem listener_total_witness:
  "\<exists>inst. checked_bind (mf_classic_listener_alloc mf_classic_alloc) (\<lambda>inst. listener_session
      [([1, 2, 3, 4], Iso14443_3aListenerEventTypeReceivedStandardFrame (frame_of [0x60, 0x00])),
       ([5, 6, 7, 8], Iso14443_3aListenerEventTypeFieldOff)] (mf_classic_listener_set_callback inst True)) =
    Inr inst \<and> listener_inv inst"
  by (rule listener_total [OF mf_wf_alloc]) (simp add: receivable_def frame_of_wf)

text \<open>
  C38 (error): during a session a frame of more than 64 bytes, which any reader in the field can send, fails the check
  of the buffer it is decrypted into and halts the device.
\<close>

theorem listener_long_frame:
  assumes "listener_inv inst" "comm_state inst = MfClassicListenerCommStateEncrypted"
    "state inst = MfClassicListenerStateAuthComplete" "8 * 64 < size_bits b"
  shows "mf_classic_listener_run rnd inst (Iso14443_3aListenerEventTypeReceivedData b) = Inl Furi_Check"
proof -
  have "crypto1_decrypt (crypto inst) b (rx_plain_buffer inst) = Inl Furi_Check"
    using assms(1,4) by (simp add: crypto1_decrypt_def bit_buffer_set_size_def bit_buffer_get_size_def listener_inv_def
        card_wf_def card_buffer_def Let_def)
  then show ?thesis
    using assms(2,3) by (simp add: mf_classic_listener_run_def listener_frame_def listener_receive_def)
qed

section \<open>A sample session\<close>

text \<open>A session with key A of sector 1, of an image that holds the value 100 in block 4.\<close>

definition value_100 :: MfClassicBlock where
  "value_100 = u32_bytes 100 @ u32_bytes (NOT 100) @ u32_bytes 100 @ [4, NOT 4, 4, NOT 4]"

definition sample_image :: MfClassicData where
  "sample_image = mf_classic_alloc\<lparr>block := (block mf_classic_alloc)[4 := value_100]\<rparr>"

definition open_session :: MfClassicListener where
  "open_session =
     \<lparr>state = MfClassicListenerStateAuthComplete, comm_state = MfClassicListenerCommStateEncrypted, data = sample_image,
      tx_plain_buffer = empty_frame, tx_encrypted_buffer = empty_frame, rx_plain_buffer = empty_frame,
      crypto = \<lparr>cr_odd = 5, cr_even = 7\<rparr>, auth_context = zero_auth_context\<lparr>block_num := 4\<rparr>, write_block = 0,
      transfer_value = 0, transfer_valid = False, value_cmd = MfClassicValueCommandInvalid,
      callback = False, cmd_in_progress = False, current_cmd_idx = 0, current_cmd_handler_idx = 0,
      total_block_num = 20, sent = [], events = []\<rparr>"

lemma sample_image_wf: "mf_wf sample_image"
  using mf_wf_update [OF mf_wf_alloc, of value_100 4] by (simp add: sample_image_def value_100_def u32_bytes_def)

lemma open_session_inv: "listener_inv open_session" "card_wf open_session"
  by (simp_all add: open_session_def listener_inv_def card_wf_def command_wf_def card_buffer_def empty_frame_wf sample_image_wf
      auth_context_wf_def zero_auth_context_def)

theorem listener_long_frame_witness:
  "mf_classic_listener_run [1, 2, 3, 4] open_session
     (Iso14443_3aListenerEventTypeReceivedData (frame_of (replicate 65 0))) = Inl Furi_Check"
  by (rule listener_long_frame [OF open_session_inv(1)]) (simp_all add: open_session_def)

end
