(* ===== verification/Mf_Classic_Listener_Auth.thy ===== *)
theory Mf_Classic_Listener_Auth
  imports Mf_Classic_Listener_Safety
begin

text \<open>
  The authentication of the emulated card against a reader that encrypts with \<open>crypto1_encrypt_reader_nonce\<close>: which
  frames the card accepts, and that card and reader leave with the same cipher state.
\<close>

section \<open>Authentication\<close>

lemma crypto1_init_any: "crypto1_init c k = crypto1_init d k"
proof -
  have "c\<lparr>cr_even := 0, cr_odd := 0\<rparr> = d\<lparr>cr_even := 0, cr_odd := 0\<rparr>" by (cases c; cases d) simp
  then show ?thesis by (simp only: crypto1_init_def)
qed

lemma num_to_be32:
  assumes "bit_lib_num_to_bytes_be (ucast (w :: u32)) 4 dest = Some d" "length dest = 4"
  shows "be32 d = w" "length d = 4"
proof -
  have d: "length d = 4 \<and> (\<forall>i < 4. d ! i = ucast (drop_bit (8 * (3 - i)) (ucast w :: u64)))"
    using num_to_bytes_be_loop [of 4 dest "ucast w"] assms
    by (auto simp: bit_lib_num_to_bytes_be_def Let_def simp del: upt_rec_numeral)
  then show "length d = 4" by simp
  have "bit_lib_bytes_to_num_be d 4 = Some (take_bit (8 * 4) (ucast w))"
    using d by (intro bytes_to_num_be_of_bytes) simp_all
  then have "be32 d = ucast (take_bit 32 (ucast w :: u64))" by (simp add: be32_def)
  also have "\<dots> = w" by (rule bit_word_eqI) (auto simp: bit_simps)
  finally show "be32 d = w" .
qed

text \<open>The first part: the card's nonce, in the clear or encrypted, and the cipher both sides have then.\<close>

definition sector_key :: "MfClassicData \<Rightarrow> u8 \<Rightarrow> MfClassicKeyType \<Rightarrow> u64" where
  "sector_key d bn kt =
     (let sec_tr = block d ! unat (mf_classic_get_sector_trailer_num_by_block bn)
      in the (bit_lib_bytes_to_num_be (if kt = MfClassicKeyTypeA then take 6 sec_tr else take 6 (drop 10 sec_tr)) 6))"

abbreviation cuid_of :: "MfClassicListener \<Rightarrow> u32" where
  "cuid_of inst \<equiv> iso14443_3a_get_cuid (iso14443_3a_data (data inst))"

lemma auth_first_part_sends:
  assumes "card_wf inst" "length rnd = 4" "unat bn < total_block_num inst"
    "crypto1_word (crypto1_init c (sector_key (data inst) bn kt)) (be32 rnd XOR cuid_of inst) False = (ks, c0)"
  obtains inst' tx where "mf_classic_listener_auth_first_part_handler rnd inst kt bn = Inr (MfClassicListenerCommandProcessed, inst')"
    "card_wf inst'" "crypto inst' = c0" "nt (auth_context inst') = rnd" "data inst' = data inst"
    "comm_state inst' = comm_state inst" "bb_wf tx" "size_bits tx = 32"
    "sent inst' = sent inst @ [if comm_state inst = MfClassicListenerCommStatePlain then Tx tx else Tx_With_Custom_Parity tx]"
    "be32 (take 4 (bb_data tx)) = (if comm_state inst = MfClassicListenerCommStatePlain then be32 rnd else be32 rnd XOR ks)"
proof -
  obtain v where v: "bit_lib_bytes_to_num_be rnd 4 = Some v" "ucast v = be32 rnd" using bytes_to_num_be_4 by blast
  define k where "k = (if kt = MfClassicKeyTypeA
    then take 6 (block (data inst) ! unat (mf_classic_get_sector_trailer_num_by_block bn))
    else take 6 (drop 10 (block (data inst) ! unat (mf_classic_get_sector_trailer_num_by_block bn))))"
  let ?kn = "sector_key (data inst) bn kt" and ?cuid = "cuid_of inst"
  have kn: "bit_lib_bytes_to_num_be k 6 = Some ?kn"
    using bytes_to_num_be_Some [of 6 k] by (auto simp: sector_key_def k_def Let_def)
  have w: "crypto1_word (crypto1_init (crypto inst) ?kn) (be32 rnd XOR ?cuid) False = (ks, c0)"
    using assms(4) crypto1_init_any by metis
  note def = mf_classic_listener_auth_first_part_handler_def Let_def card_wf_simps v k_def [symmetric] kn
  show thesis
  proof (cases "comm_state inst")
    case MfClassicListenerCommStatePlain
    obtain tx where tx: "bit_buffer_copy_bytes (tx_encrypted_buffer inst) rnd 4 = Inr tx" "card_buffer tx" "size_bits tx = 8 * 4"
      "take 4 (bb_data tx) = rnd"
      using copy_bytes_returns [OF _ assms(2), of "tx_encrypted_buffer inst"] assms(1) by (auto simp: card_wf_def elim!: returns_obtain)
    show thesis
      by (rule that [of "inst\<lparr>state := MfClassicListenerStateIdle,
           auth_context := (auth_context inst)\<lparr>key_type := kt, block_num := bn, nt := rnd\<rparr>,
           crypto := c0, tx_encrypted_buffer := tx, sent := sent inst @ [Tx tx], cmd_in_progress := True,
           current_cmd_handler_idx := current_cmd_handler_idx inst + 1\<rparr>" tx])
        (use assms(1-3) MfClassicListenerCommStatePlain tx w in \<open>simp_all add: def card_buffer_def\<close>)
  next
    case MfClassicListenerCommStateEncrypted
    let ?x = "ucast (be32 rnd XOR ?cuid) :: u64"
    obtain key_stream where kst: "bit_lib_num_to_bytes_be ?x 4 (replicate 4 0) = Some key_stream"
      using num_to_bytes_be_length [of 4 ?x "replicate 4 0"] by auto
    have b: "be32 key_stream = be32 rnd XOR ?cuid" "length key_stream = 4" using num_to_be32 [OF kst] by simp_all
    have r: "be32 (fst (byte_run False key_stream (crypto1_init (crypto inst) ?kn))) = ks"
      "snd (byte_run False key_stream (crypto1_init (crypto inst) ?kn)) = c0"
      using crypto1_word_bytes [OF b(2), of "crypto1_init (crypto inst) ?kn" False] w unfolding b(1) by simp_all
    obtain p where p: "bit_buffer_copy_bytes (tx_plain_buffer inst) rnd 4 = Inr p" "card_buffer p" "size_bits p = 8 * 4"
      "take 4 (bb_data p) = rnd"
      using copy_bytes_returns [OF _ assms(2), of "tx_plain_buffer inst"] assms(1) by (auto simp: card_wf_def elim!: returns_obtain)
    obtain tx where tx: "crypto1_encrypt (crypto1_init (crypto inst) ?kn) (Some key_stream) p (tx_encrypted_buffer inst) = Inr (c0, tx)"
      "card_buffer tx" "size_bits tx = 8 * 4"
      "take 4 (bb_data tx) = map2 (XOR) (fst (byte_run False key_stream (crypto1_init (crypto inst) ?kn))) rnd"
      using encrypt_returns [OF p(2) _ p(3), of "tx_encrypted_buffer inst" "Some key_stream" "crypto1_init (crypto inst) ?kn"]
        assms(1) b(2) p(4) r(2)
      by (auto simp: card_wf_def feed_ok_def feed_bytes_def elim!: returns_obtain)
    have "be32 (take 4 (bb_data tx)) = be32 rnd XOR ks"
      unfolding tx(4) using b(2) assms(2) by (simp add: be32_xor r(1) xor.commute)
    then show thesis
      by (intro that [of "inst\<lparr>state := MfClassicListenerStateIdle,
           auth_context := (auth_context inst)\<lparr>key_type := kt, block_num := bn, nt := rnd\<rparr>,
           crypto := c0, tx_plain_buffer := p, tx_encrypted_buffer := tx,
           sent := sent inst @ [Tx_With_Custom_Parity tx], cmd_in_progress := True,
           current_cmd_handler_idx := current_cmd_handler_idx inst + 1\<rparr>" tx])
        (use assms(1-3) MfClassicListenerCommStateEncrypted p tx kst in \<open>simp_all add: def card_buffer_def\<close>)
  qed
qed

lemma map2_xor_commute: "map2 (XOR) xs ys = map2 (XOR) ys (xs :: 'a::len word list)"
  by (induction xs arbitrary: ys) (auto simp: xor.commute zip_Cons1 split: list.split)

lemma successor_tail_4: "be32 (successor_tail x 4) = crypto1_prng_successor x 32"
proof -
  have "[0..<4] = [0, 1, 2, 3 :: nat]" by (simp add: upt_rec)
  then show ?thesis using successor_bytes [of x] by (simp add: successor_tail_def)
qed

lemma crypto1_word_zero:
  "crypto1_word c 0 False = (be32 (fst (byte_run False (replicate 4 0) c)), snd (byte_run False (replicate 4 0) c))"
proof -
  have "replicate 4 0 = [0, 0, 0, 0 :: u8]" by (simp add: eval_nat_numeral)
  then show ?thesis using crypto1_word_bytes [of "replicate 4 0" c False] be32_zero by simp
qed

text \<open>The second part accepts the frame a reader with the same cipher builds for the same nonce.\<close>

lemma auth_second_part_accepts:
  assumes "card_wf inst" "bb_wf rx" "size_bits rx = 64" "length nr' = 4"
    "take 8 (bb_data rx) = reader_frame (crypto inst) (be32 (nt (auth_context inst))) nr'"
  obtains inst' tx where "mf_classic_listener_auth_second_part_handler rnd inst rx = Inr (MfClassicListenerCommandProcessed, inst')"
    "state inst' = MfClassicListenerStateAuthComplete" "comm_state inst' = MfClassicListenerCommStateEncrypted"
    "data inst' = data inst" "sent inst' = sent inst @ [Tx_With_Custom_Parity tx]" "size_bits tx = 32"
    "be32 (take 4 (bb_data tx)) = fst (crypto1_word (reader_state (crypto inst) nr') 0 False) XOR
       crypto1_prng_successor (be32 (nt (auth_context inst))) 96"
    "crypto inst' = snd (crypto1_word (reader_state (crypto inst) nr') 0 False)"
proof -
  let ?c = "crypto inst" and ?nt = "nt (auth_context inst)"
  let ?r = "byte_run False nr' ?c"
  let ?s = "byte_run False (replicate 4 0) (snd ?r)"
  have size: "bit_buffer_get_size_bytes rx = 8" using assms(3) by (simp add: size_bytes_alt)
  let ?nr = "take 4 (bb_data rx)" and ?ar = "take 4 (drop 4 (bb_data rx))"
  have nrb: "?nr = map2 (XOR) nr' (fst ?r)"
    using arg_cong [OF assms(5), of "take 4"] assms(4) by (simp add: reader_frame_def map2_xor_commute)
  have arb: "?ar = map2 (XOR) (fst ?s) (successor_tail (crypto1_prng_successor (be32 ?nt) 32) 4)"
  proof -
    have "?ar = drop 4 (take 8 (bb_data rx))" by (simp add: drop_take)
    also have "\<dots> = map2 (XOR) (fst ?s) (successor_tail (crypto1_prng_successor (be32 ?nt) 32) 4)"
      unfolding assms(5) reader_frame_def using assms(4) by simp
    finally show ?thesis .
  qed
  have l: "length ?nr = 4" "length ?ar = 4" unfolding nrb arb using assms(4) by (simp_all add: successor_tail_def)
  have len: "length (nr (auth_context inst)) = 4" "length (ar (auth_context inst)) = 4" "length (at (auth_context inst)) = 4"
    using assms(1) by (simp_all add: card_wf_def auth_context_wf_def)
  have w: "bit_buffer_write_bytes_mid rx (nr (auth_context inst)) 0 4 = Inr ?nr"
    "bit_buffer_write_bytes_mid rx (ar (auth_context inst)) 4 4 = Inr ?ar"
    using write_mid_ok [OF assms(2)] size len by simp_all
  obtain v1 v2 v3 where v: "bit_lib_bytes_to_num_be ?nr 4 = Some v1" "ucast v1 = be32 ?nr"
    "bit_lib_bytes_to_num_be ?ar 4 = Some v2" "ucast v2 = be32 ?ar"
    "bit_lib_bytes_to_num_be ?nt 4 = Some v3" "ucast v3 = be32 ?nt"
    using bytes_to_num_be_4 [of ?nr] bytes_to_num_be_4 [of ?ar] bytes_to_num_be_4 [of ?nt] by auto
  have c1: "snd (crypto1_word ?c (be32 ?nr) True) = snd ?r"
    unfolding crypto1_word_bytes [OF l(1)] snd_conv unfolding nrb byte_run_encrypted ..
  have st: "snd ?s = reader_state ?c nr'" by (simp add: reader_state_def byte_run_append)
  have ar: "be32 ?ar XOR be32 (fst ?s) = crypto1_prng_successor (be32 ?nt) 64"
  proof -
    have "be32 ?ar = be32 (fst ?s) XOR crypto1_prng_successor (crypto1_prng_successor (be32 ?nt) 32) 32"
      unfolding arb by (subst be32_xor) (simp_all add: successor_tail_4, simp add: successor_tail_def)
    moreover have "crypto1_prng_successor (crypto1_prng_successor (be32 ?nt) 32) 32 = crypto1_prng_successor (be32 ?nt) 64"
      by (subst prng_successor_add) simp_all
    ultimately show ?thesis by (simp add: xor.commute xor.left_commute xor_cancel)
  qed
  let ?at = "ucast (crypto1_prng_successor (be32 ?nt) 96) :: u64"
  obtain d where d: "bit_lib_num_to_bytes_be ?at 4 (at (auth_context inst)) = Some d"
    using num_to_bytes_be_length [of 4 ?at "at (auth_context inst)"] by auto
  note be = num_to_be32 [OF d len(3)]
  have "card_buffer (tx_plain_buffer inst)" "card_buffer (tx_encrypted_buffer inst)" using assms(1) by (simp_all add: card_wf_def)
  note b = this
  obtain p where p: "bit_buffer_copy_bytes (tx_plain_buffer inst) d 4 = Inr p" "card_buffer p" "size_bits p = 8 * 4" "take 4 (bb_data p) = d"
    using copy_bytes_returns [OF b(1) be(2)] by (auto elim: returns_obtain)
  let ?t = "byte_run False (replicate 4 0) (reader_state ?c nr')"
  obtain e where e: "crypto1_encrypt (reader_state ?c nr') None p (tx_encrypted_buffer inst) = Inr (snd ?t, e)" "size_bits e = 8 * 4"
    "take 4 (bb_data e) = map2 (XOR) (fst ?t) d"
    using encrypt_returns [OF p(2) b(2) p(3), of None "reader_state ?c nr'"] p(4)
    by (auto simp: feed_ok_def feed_bytes_def elim!: returns_obtain)
  have word1: "crypto1_word (snd ?r) 0 False = (be32 (fst ?s), reader_state ?c nr')" unfolding crypto1_word_zero st ..
  show thesis
  proof (rule that [where tx = e])
    show "be32 (take 4 (bb_data e)) = fst (crypto1_word (reader_state (crypto inst) nr') 0 False) XOR
       crypto1_prng_successor (be32 (nt (auth_context inst))) 96"
      unfolding e(3) crypto1_word_zero fst_conv by (subst be32_xor) (simp_all add: be)
  next
    show "size_bits e = 32" using e(2) by simp
  next
    show "mf_classic_listener_auth_second_part_handler rnd inst rx = Inr (MfClassicListenerCommandProcessed,
      listener_callback MfClassicListenerEventTypeAuthContextFullCollected
        ((iso14443_3a_listener_tx_with_custom_parity
           ((listener_callback MfClassicListenerEventTypeAuthContextPartCollected
              (inst\<lparr>cmd_in_progress := False, auth_context := (auth_context inst)\<lparr>nr := ?nr, ar := ?ar\<rparr>\<rparr>))
            \<lparr>crypto := snd ?t, auth_context := (auth_context inst)\<lparr>nr := ?nr, ar := ?ar, at := d\<rparr>,
             tx_plain_buffer := p, tx_encrypted_buffer := e\<rparr>) e)
         \<lparr>state := MfClassicListenerStateAuthComplete, comm_state := MfClassicListenerCommStateEncrypted\<rparr>))"
      by (simp add: mf_classic_listener_auth_second_part_handler_def Let_def size w v c1 word1 ar d p(1) e(1)
          listener_callback_def iso14443_3a_listener_tx_with_custom_parity_def)
  qed (simp_all add: listener_callback_def iso14443_3a_listener_tx_with_custom_parity_def crypto1_word_zero)
qed

lemma clock_decrypted: "clock False c (b \<noteq> fst (clock True c b)) = clock True c b"
  by (simp add: clock_def crypto1_bit_alt feedback_def) (metis (full_types))

lemma run_decrypted:
  "run (clock False) (map2 (\<noteq>) bs (fst (run (clock True) bs c))) c = run (clock True) bs c"
  by (induction bs arbitrary: c) (simp_all add: clock_decrypted [simplified] case_prod_beta Let_def)

lemma byte_run_decrypted:
  "byte_run False (map2 (XOR) xs (fst (byte_run True xs c))) c = byte_run True xs c"
proof -
  have r: "run (clock False) (bytes_bits (map2 (XOR) xs (fst (byte_run True xs c)))) c = run (clock True) (bytes_bits xs) c"
    by (simp add: bytes_bits_xor byte_run_bits run_decrypted [simplified])
  show ?thesis
    by (rule prod_eqI, rule bytes_bits_eqI) (simp_all only: byte_run_bits r)
qed

text \<open>Every four bytes are the ciphertext of some nonce.\<close>

lemma nonce_of_cipher:
  assumes "length xs = 4"
  obtains nr' where "length nr' = 4" "map2 (XOR) (fst (byte_run False nr' c)) nr' = xs"
proof
  let ?nr = "map2 (XOR) xs (fst (byte_run True xs c))"
  show "length ?nr = 4" using assms by simp
  show "map2 (XOR) (fst (byte_run False ?nr c)) ?nr = xs"
    unfolding byte_run_decrypted
    by (subst (2) map2_xor_commute, rule map2_xor_twice) simp
qed

lemma be32_inject: "length xs = 4 \<Longrightarrow> length ys = 4 \<Longrightarrow> be32 xs = be32 ys \<longleftrightarrow> xs = ys"
  by (metis bytes_bits_eqI word_bits_be32)

lemma auth_second_part_rejects:
  assumes "card_wf inst" "bb_wf rx" "size_bits rx = 64" "length nr' = 4"
    "take 4 (bb_data rx) = take 4 (reader_frame (crypto inst) (be32 (nt (auth_context inst))) nr')"
    "take 8 (bb_data rx) \<noteq> reader_frame (crypto inst) (be32 (nt (auth_context inst))) nr'"
  shows "\<exists>inst'. mf_classic_listener_auth_second_part_handler rnd inst rx = Inr (MfClassicListenerCommandSleep, inst')"
proof -
  let ?c = "crypto inst" and ?nt = "nt (auth_context inst)"
  let ?r = "byte_run False nr' ?c"
  let ?s = "byte_run False (replicate 4 0) (snd ?r)"
  let ?S = "successor_tail (crypto1_prng_successor (be32 ?nt) 32) 4"
  let ?nr = "take 4 (bb_data rx)" and ?ar = "take 4 (drop 4 (bb_data rx))"
  have size: "bit_buffer_get_size_bytes rx = 8" using assms(3) by (simp add: size_bytes_alt)
  have "8 \<le> length (bb_data rx)" using size_bytes_le [OF assms(2)] size assms(2) by (simp add: bb_wf_def)
  then have l: "length ?nr = 4" "length ?ar = 4" by simp_all
  have nrb: "?nr = map2 (XOR) nr' (fst ?r)"
    using assms(4,5) by (simp add: reader_frame_def map2_xor_commute)
  have S: "length ?S = 4" by (simp add: successor_tail_def)
  have "?ar \<noteq> map2 (XOR) (fst ?s) ?S"
  proof
    assume "?ar = map2 (XOR) (fst ?s) ?S"
    moreover have "take 8 (bb_data rx) = ?nr @ ?ar" by (simp add: take_add [of 4 4, simplified])
    ultimately show False using assms(4,6) nrb by (simp add: reader_frame_def map2_xor_commute)
  qed
  then have "be32 ?ar \<noteq> be32 (fst ?s) XOR crypto1_prng_successor (be32 ?nt) 64"
    using be32_inject [OF l(2), of "map2 (XOR) (fst ?s) ?S"] S prng_successor_add [of 32 32 "be32 ?nt"]
    by (simp add: be32_xor successor_tail_4)
  then have ne: "be32 ?ar XOR be32 (fst ?s) \<noteq> crypto1_prng_successor (be32 ?nt) 64"
    by (metis xor.commute xor_cancel)
  have len: "length (nr (auth_context inst)) = 4" "length (ar (auth_context inst)) = 4"
    using assms(1) by (simp_all add: card_wf_def auth_context_wf_def)
  have w: "bit_buffer_write_bytes_mid rx (nr (auth_context inst)) 0 4 = Inr ?nr"
    "bit_buffer_write_bytes_mid rx (ar (auth_context inst)) 4 4 = Inr ?ar"
    using write_mid_ok [OF assms(2)] size len by simp_all
  obtain v1 v2 v3 where v: "bit_lib_bytes_to_num_be ?nr 4 = Some v1" "ucast v1 = be32 ?nr"
    "bit_lib_bytes_to_num_be ?ar 4 = Some v2" "ucast v2 = be32 ?ar"
    "bit_lib_bytes_to_num_be ?nt 4 = Some v3" "ucast v3 = be32 ?nt"
    using bytes_to_num_be_4 [of ?nr] bytes_to_num_be_4 [of ?ar] bytes_to_num_be_4 [of ?nt] by auto
  have c1: "snd (crypto1_word ?c (be32 ?nr) True) = snd ?r"
    unfolding crypto1_word_bytes [OF l(1)] snd_conv unfolding nrb byte_run_encrypted ..
  have w0: "crypto1_word (snd ?r) 0 False = (be32 (fst ?s), snd ?s)"
    by (rule crypto1_word_zero)
  show ?thesis
    by (simp add: mf_classic_listener_auth_second_part_handler_def Let_def size w v c1 w0 ne listener_callback_def)
qed

text \<open>
  C9 (safety): the card starts a session for an answer of eight bytes exactly if it is the frame of a reader that
  has the key and the nonce of the card: the encryption of some reader nonce followed by that of the 64th successor of
  the card nonce.
\<close>

theorem listener_accepts_exactly:
  assumes "card_wf inst" "bb_wf rx" "size_bits rx = 64"
  shows "(\<exists>inst'. mf_classic_listener_auth_second_part_handler rnd inst rx = Inr (MfClassicListenerCommandProcessed, inst')) \<longleftrightarrow>
    (\<exists>nr'. length nr' = 4 \<and> take 8 (bb_data rx) = reader_frame (crypto inst) (be32 (nt (auth_context inst))) nr')"
proof
  assume a: "\<exists>inst'. mf_classic_listener_auth_second_part_handler rnd inst rx = Inr (MfClassicListenerCommandProcessed, inst')"
  have "8 \<le> length (bb_data rx)" using size_bytes_le [OF assms(2)] assms(2,3) by (simp add: bb_wf_def size_bytes_alt)
  then have l: "length (take 4 (bb_data rx)) = 4" by simp
  then obtain nr' where n: "length nr' = 4" "map2 (XOR) (fst (byte_run False nr' (crypto inst))) nr' = take 4 (bb_data rx)"
    by (rule nonce_of_cipher)
  then have "take 4 (bb_data rx) = take 4 (reader_frame (crypto inst) (be32 (nt (auth_context inst))) nr')"
    using l by (simp add: reader_frame_def)
  from auth_second_part_rejects [OF assms n(1) this, where rnd = rnd] a n(1)
  show "\<exists>nr'. length nr' = 4 \<and> take 8 (bb_data rx) = reader_frame (crypto inst) (be32 (nt (auth_context inst))) nr'"
    by fastforce
next
  assume "\<exists>nr'. length nr' = 4 \<and> take 8 (bb_data rx) = reader_frame (crypto inst) (be32 (nt (auth_context inst))) nr'"
  then obtain nr' where "length nr' = 4" "take 8 (bb_data rx) = reader_frame (crypto inst) (be32 (nt (auth_context inst))) nr'"
    by blast
  from auth_second_part_accepts [OF assms this, where rnd = rnd]
  show "\<exists>inst'. mf_classic_listener_auth_second_part_handler rnd inst rx = Inr (MfClassicListenerCommandProcessed, inst')"
    by blast
qed

theorem listener_accepts_exactly_witness:
  "(\<exists>inst'. mf_classic_listener_auth_second_part_handler [] open_session (frame_of [1, 2, 3, 4, 5, 6, 7, 8]) =
      Inr (MfClassicListenerCommandProcessed, inst')) \<longleftrightarrow>
    (\<exists>nr'. length nr' = 4 \<and>
      take 8 (bb_data (frame_of [1, 2, 3, 4, 5, 6, 7, 8])) =
        reader_frame (crypto open_session) (be32 (nt (auth_context open_session))) nr')"
  by (rule listener_accepts_exactly [OF open_session_inv(2)]) (simp_all add: frame_of_wf)

text \<open>
  C2 (functional): the authentication of a reader that knows the key succeeds, plain or nested in an earlier session:
  from the nonce the card sends, \<open>crypto1_encrypt_reader_nonce\<close> builds an answer the card accepts; the reader
  decrypts the reply to the 96th successor of the nonce, and both cipher states agree when the session starts.
\<close>

theorem listener_reader_authentication:
  assumes "card_wf inst" "unat bn < total_block_num inst" "length rnd = 4" "length reader_nr = 4"
    "bb_wf out" "8 \<le> capacity_bytes out"
  shows "\<exists>inst1 tx c rn out' inst2 ans.
    mf_classic_listener_auth_first_part_handler rnd inst kt bn = Inr (MfClassicListenerCommandProcessed, inst1) \<and>
    sent inst1 = sent inst @ [if comm_state inst = MfClassicListenerCommStatePlain then Tx tx else Tx_With_Custom_Parity tx] \<and>
    crypto1_encrypt_reader_nonce reader_crypto (sector_key (data inst) bn kt) (cuid_of inst) (take 4 (bb_data tx)) reader_nr out
      (comm_state inst \<noteq> MfClassicListenerCommStatePlain) = Inr (c, rn, out') \<and>
    mf_classic_listener_auth_second_part_handler rnd' inst1 out' = Inr (MfClassicListenerCommandProcessed, inst2) \<and>
    state inst2 = MfClassicListenerStateAuthComplete \<and> comm_state inst2 = MfClassicListenerCommStateEncrypted \<and>
    sent inst2 = sent inst1 @ [Tx_With_Custom_Parity ans] \<and>
    be32 (take 4 (bb_data ans)) XOR fst (crypto1_word c 0 False) = crypto1_prng_successor (be32 rnd) 96 \<and>
    crypto inst2 = snd (crypto1_word c 0 False)"
proof -
  let ?k = "sector_key (data inst) bn kt" and ?nested = "comm_state inst \<noteq> MfClassicListenerCommStatePlain"
  obtain ks c0 where w: "crypto1_word (crypto1_init reader_crypto ?k) (be32 rnd XOR cuid_of inst) False = (ks, c0)" by fastforce
  obtain inst1 tx where f: "mf_classic_listener_auth_first_part_handler rnd inst kt bn = Inr (MfClassicListenerCommandProcessed, inst1)"
    "card_wf inst1" "crypto inst1 = c0" "nt (auth_context inst1) = rnd"
    "sent inst1 = sent inst @ [if comm_state inst = MfClassicListenerCommStatePlain then Tx tx else Tx_With_Custom_Parity tx]"
    "be32 (take 4 (bb_data tx)) = (if comm_state inst = MfClassicListenerCommStatePlain then be32 rnd else be32 rnd XOR ks)"
    by (rule auth_first_part_sends [OF assms(1,3,2) w])
  have eq: "(be32 rnd XOR ks) XOR cuid_of inst = (be32 rnd XOR cuid_of inst) XOR ks"
    by (simp add: xor.assoc xor.commute xor.left_commute)
  have r: "crypto1_word (crypto1_init reader_crypto ?k) (be32 (take 4 (bb_data tx)) XOR cuid_of inst) ?nested = (ks, c0)"
    using w crypto1_word_encrypted [of "crypto1_init reader_crypto ?k" "be32 rnd XOR cuid_of inst"]
    by (simp add: f(6) eq)
  have x: "be32 rnd = (if ?nested then ks XOR be32 (take 4 (bb_data tx)) else be32 (take 4 (bb_data tx)))"
    by (simp add: f(6) xor_cancel)
  obtain out' where o: "crypto1_encrypt_reader_nonce reader_crypto ?k (cuid_of inst) (take 4 (bb_data tx)) reader_nr out ?nested =
      Inr (reader_state c0 reader_nr, take 4 (reader_frame c0 (be32 rnd) reader_nr), out')"
    "bb_wf out'" "size_bits out' = 64" "take 8 (bb_data out') = reader_frame c0 (be32 rnd) reader_nr"
    by (rule reader_nonce_frame [OF assms(5,6,4) r x])
  have "take 8 (bb_data out') = reader_frame (crypto inst1) (be32 (nt (auth_context inst1))) reader_nr"
    using o(4) f(3,4) by simp
  then obtain inst2 ans where s: "mf_classic_listener_auth_second_part_handler rnd' inst1 out' = Inr (MfClassicListenerCommandProcessed, inst2)"
    "state inst2 = MfClassicListenerStateAuthComplete" "comm_state inst2 = MfClassicListenerCommStateEncrypted"
    "sent inst2 = sent inst1 @ [Tx_With_Custom_Parity ans]"
    "be32 (take 4 (bb_data ans)) = fst (crypto1_word (reader_state c0 reader_nr) 0 False) XOR crypto1_prng_successor (be32 rnd) 96"
    "crypto inst2 = snd (crypto1_word (reader_state c0 reader_nr) 0 False)"
    by (rule auth_second_part_accepts [OF f(2) o(2,3) assms(4), where rnd = rnd']) (use f(3,4) in simp)
  have "be32 (take 4 (bb_data ans)) XOR fst (crypto1_word (reader_state c0 reader_nr) 0 False) = crypto1_prng_successor (be32 rnd) 96"
    unfolding s(5) by (simp add: xor.commute xor.left_commute)
  with f(1,5) o(1) s(1-4,6) show ?thesis by blast
qed

theorem listener_reader_authentication_witness:
  "\<exists>inst1 tx c rn out' inst2 ans.
    mf_classic_listener_auth_first_part_handler [1, 2, 3, 4] open_session MfClassicKeyTypeA 4 =
      Inr (MfClassicListenerCommandProcessed, inst1) \<and>
    sent inst1 = [Tx_With_Custom_Parity tx] \<and>
    crypto1_encrypt_reader_nonce \<lparr>cr_odd = 0, cr_even = 0\<rparr> (sector_key sample_image 4 MfClassicKeyTypeA)
      (cuid_of open_session) (take 4 (bb_data tx)) [5, 6, 7, 8] empty_frame True = Inr (c, rn, out') \<and>
    mf_classic_listener_auth_second_part_handler [] inst1 out' = Inr (MfClassicListenerCommandProcessed, inst2) \<and>
    state inst2 = MfClassicListenerStateAuthComplete \<and> comm_state inst2 = MfClassicListenerCommStateEncrypted \<and>
    sent inst2 = sent inst1 @ [Tx_With_Custom_Parity ans] \<and>
    be32 (take 4 (bb_data ans)) XOR fst (crypto1_word c 0 False) = crypto1_prng_successor (be32 [1, 2, 3, 4]) 96 \<and>
    crypto inst2 = snd (crypto1_word c 0 False)"
proof -
  have e: "data open_session = sample_image" "sent open_session = []"
    "comm_state open_session = MfClassicListenerCommStateEncrypted" "unat (4 :: u8) < total_block_num open_session"
    by (simp_all add: open_session_def)
  show ?thesis
    using listener_reader_authentication [OF open_session_inv(2) e(4), of "[1, 2, 3, 4]" "[5, 6, 7, 8]" empty_frame
        MfClassicKeyTypeA "\<lparr>cr_odd = 0, cr_even = 0\<rparr>" "[]"]
    by (simp add: e empty_frame_wf)
qed

end
