(* ===== verification/Mf_Classic_Listener_Access.thy ===== *)
theory Mf_Classic_Listener_Access
  imports Mf_Classic_Listener_Auth
begin

text \<open>
  What the commands of a session read and write: a read shows what the access bits of the sector permit, a write
  changes what they permit and nothing else, and the three frames of a value command store the new value.
\<close>

section \<open>Reading and writing blocks\<close>

text \<open>
  C12 (functional): during a session a read command for a block of the authenticated sector sends a frame which a
  reader in the same cipher state decrypts to the block, with the keys and the access bits blanked as the access
  conditions of the trailer demand, and a valid checksum, leaving card and reader in the same cipher state; every
  other read command, or one the conditions forbid, is refused and changes nothing.
\<close>

theorem listener_read_block:
  assumes "card_wf inst" "bb_wf rx" "2 \<le> capacity_bytes rx" "bb_wf out" "18 \<le> capacity_bytes out"
  shows "if state inst = MfClassicListenerStateAuthComplete \<and>
      mf_classic_get_sector_by_block (bb_data rx ! 1) = mf_classic_get_sector_by_block (block_num (auth_context inst)) \<and>
      shown_block (data inst) (bb_data rx ! 1) (key_type (auth_context inst)) \<noteq> None
    then \<exists>inst' tx dec.
      mf_classic_listener_read_block_handler rnd inst rx = Inr (MfClassicListenerCommandProcessed, inst') \<and>
      sent inst' = sent inst @ [Tx_With_Custom_Parity tx] \<and> data inst' = data inst \<and>
      crypto1_decrypt (crypto inst) tx out = Inr (crypto inst', dec) \<and>
      iso14443_crc_check Iso14443CrcTypeA dec = Inr True \<and>
      shown_block (data inst) (bb_data rx ! 1) (key_type (auth_context inst)) = Some (take 16 (bb_data dec))
    else mf_classic_listener_read_block_handler rnd inst rx = Inr (MfClassicListenerCommandNack, inst)"
proof -
  have d: "mf_wf (data inst)" using assms(1) by (simp add: card_wf_def)
  have g: "bit_buffer_get_byte rx 1 = Inr (bb_data rx ! 1)" using assms(2,3) by (simp add: get_byte_returns)
  show ?thesis
  proof (rule if_split [THEN iffD2], intro conjI impI)
    assume c: "state inst = MfClassicListenerStateAuthComplete \<and>
      mf_classic_get_sector_by_block (bb_data rx ! 1) = mf_classic_get_sector_by_block (block_num (auth_context inst)) \<and>
      shown_block (data inst) (bb_data rx ! 1) (key_type (auth_context inst)) \<noteq> None"
    then obtain blk where blk: "shown_block (data inst) (bb_data rx ! 1) (key_type (auth_context inst)) = Some blk" by blast
    have l: "length blk = 16" by (rule length_shown_block [OF d blk])
    obtain q c' tx where q: "size_bits q = 8 * 18" "card_buffer q" "take 18 (bb_data q) = blk @ crc_bytes (iso14443_crc_calculate Iso14443CrcTypeA blk)"
      and e: "card_buffer tx" "size_bits tx = 8 * 18" "c' = snd (byte_run False (replicate 18 0) (crypto inst))"
        "take 18 (bb_data tx) = map2 (XOR) (fst (byte_run False (replicate 18 0) (crypto inst))) (take 18 (bb_data q))"
      and h: "mf_classic_listener_read_block_handler rnd inst rx = Inr (MfClassicListenerCommandProcessed,
        inst\<lparr>crypto := c', tx_plain_buffer := q, tx_encrypted_buffer := tx, sent := sent inst @ [Tx_With_Custom_Parity tx]\<rparr>)"
      by (rule read_block_sends [OF assms(1) conjunct1 [OF c] assms(2,3) conjunct1 [OF conjunct2 [OF c]] blk, where rnd = rnd])
    have wf: "bb_wf tx" using e(1) by (simp add: card_buffer_def)
    obtain dec where dec: "crypto1_decrypt (crypto inst) tx out = Inr (c', dec)" "bb_wf dec" "size_bits dec = 8 * 18"
      "take 18 (bb_data dec) = map2 (XOR) (fst (byte_run False (replicate 18 0) (crypto inst))) (take 18 (bb_data tx))"
      by (rule decrypt_frame [OF wf assms(4) e(2) _ assms(5), of "crypto inst"]) (simp_all add: e(3))
    have "length (take 18 (bb_data q)) = 18" unfolding q(3) by (simp add: l crc_bytes_def)
    then have p: "take 18 (bb_data dec) = blk @ crc_bytes (iso14443_crc_calculate Iso14443CrcTypeA blk)"
      unfolding dec(4) e(4) q(3) [symmetric] by (intro map2_xor_twice) simp
    have "iso14443_crc_check Iso14443CrcTypeA dec = Inr True"
      by (rule crc_check_passes [OF dec(2), of 16 blk]) (simp_all add: dec(3) l p)
    moreover have "take 16 (bb_data dec) = blk"
      using arg_cong [OF p, of "take 16"] l by simp
    ultimately show "\<exists>inst' tx dec.
      mf_classic_listener_read_block_handler rnd inst rx = Inr (MfClassicListenerCommandProcessed, inst') \<and>
      sent inst' = sent inst @ [Tx_With_Custom_Parity tx] \<and> data inst' = data inst \<and>
      crypto1_decrypt (crypto inst) tx out = Inr (crypto inst', dec) \<and>
      iso14443_crc_check Iso14443CrcTypeA dec = Inr True \<and>
      shown_block (data inst) (bb_data rx ! 1) (key_type (auth_context inst)) = Some (take 16 (bb_data dec))"
      using h dec(1) blk by (intro exI [of _ "inst\<lparr>crypto := c', tx_plain_buffer := q, tx_encrypted_buffer := tx,
        sent := sent inst @ [Tx_With_Custom_Parity tx]\<rparr>"] exI [of _ tx] exI [of _ dec]) simp
  next
    assume "\<not> (state inst = MfClassicListenerStateAuthComplete \<and>
      mf_classic_get_sector_by_block (bb_data rx ! 1) = mf_classic_get_sector_by_block (block_num (auth_context inst)) \<and>
      shown_block (data inst) (bb_data rx ! 1) (key_type (auth_context inst)) \<noteq> None)"
    then show "mf_classic_listener_read_block_handler rnd inst rx = Inr (MfClassicListenerCommandNack, inst)"
      unfolding read_block_alt [OF d] g checked_bind_simps by (auto split: option.split)
  qed
qed

lemma sample_blocks: "block sample_image ! unat (b :: u8) = (if b = 4 then value_100 else replicate 16 0)"
  using unat_u8_less [of b] by (auto simp: sample_image_def mf_classic_alloc_def nth_list_update word_unat_eq_iff)

lemma sample_access:
  assumes "bn = 4 \<or> bn = 8" "a \<in> {MfClassicActionDataRead, MfClassicActionDataWrite, MfClassicActionDataInc, MfClassicActionDataDec}"
  shows "access_allowed sample_image bn MfClassicKeyTypeA a"
proof -
  have "mf_classic_is_allowed_access_data_block (replicate 16 0) bn MfClassicKeyTypeA a" "\<not> mf_classic_is_sector_trailer bn"
    using assms by (auto simp: mf_classic_is_allowed_access_data_block_def data_block_AC_def mf_classic_is_sector_trailer_def
        mf_classic_get_sector_trailer_num_by_block_def Let_def nth_drop)
  moreover obtain tr where "mf_classic_get_sector_trailer_by_sector (mf_classic_get_sector_by_block bn) = Inr tr" "tr \<noteq> 4"
    using assms(1) by (auto simp: mf_classic_get_sector_trailer_by_sector_def mf_classic_get_sector_trailer_num_by_sector_def
        mf_classic_get_sector_by_block_def)
  ultimately show ?thesis
    by (simp add: access_allowed_def mf_classic_is_allowed_access_def sample_blocks del: is_allowed_access)
qed

lemma open_session_data:
  "data open_session = sample_image" "state open_session = MfClassicListenerStateAuthComplete" "total_block_num open_session = 20"
  "key_type (auth_context open_session) = MfClassicKeyTypeA" "block_num (auth_context open_session) = 4" "sent open_session = []"
  "mf_classic_is_sector_trailer 4 = False"
  by (simp_all add: open_session_def zero_auth_context_def mf_classic_is_sector_trailer_def
      mf_classic_get_sector_trailer_num_by_block_def)

theorem listener_read_block_witness:
  "\<exists>inst' tx dec.
    mf_classic_listener_read_block_handler [] open_session (frame_of [0x30, 4]) = Inr (MfClassicListenerCommandProcessed, inst') \<and>
    sent inst' = [Tx_With_Custom_Parity tx] \<and> data inst' = sample_image \<and>
    crypto1_decrypt (crypto open_session) tx empty_frame = Inr (crypto inst', dec) \<and>
    iso14443_crc_check Iso14443CrcTypeA dec = Inr True \<and> value_100 = take 16 (bb_data dec)"
  using listener_read_block [OF open_session_inv(2), of "frame_of [0x30, 4]" empty_frame "[]"]
  by (simp add: frame_of_wf empty_frame_wf open_session_data shown_block_def sample_blocks [of 4, simplified] sample_access)

text \<open>Key A is never shown, nor the access bits hidden.\<close>

lemma shown_trailer:
  assumes "mf_classic_is_sector_trailer bn" "shown_block d bn kt = Some b"
  shows "take 6 b = replicate 6 0"
  using assms by (auto simp: shown_block_def Let_def)

text \<open>A write command of two frames.\<close>

definition write_frames :: "MfClassicListener \<Rightarrow> BitBuffer \<Rightarrow> BitBuffer \<Rightarrow> (MfClassicListenerCommand \<times> MfClassicListener) checked" where
  "write_frames inst rx rx' =
     checked_bind (mf_classic_listener_write_block_first_part_handler [] inst rx) (\<lambda>(cmd, inst).
     if cmd = MfClassicListenerCommandAck then mf_classic_listener_write_block_second_part_handler [] inst rx' else Inr (cmd, inst))"

text \<open>
  C13 (safety): the two frames of a write command change the named block only, and only if there is a session of
  its sector, it is not the manufacturer block, it is on the card and the access conditions permit; of a trailer
  only the parts the conditions permit are changed. Otherwise the command is refused and the image is kept.
\<close>

theorem listener_write_block:
  assumes "card_wf inst" "bb_wf rx" "2 \<le> capacity_bytes rx" "bb_wf rx'" "size_bits rx' = 8 * 16"
  shows "\<exists>cmd inst'. write_frames inst rx rx' = Inr (cmd, inst') \<and>
   (if state inst = MfClassicListenerStateAuthComplete \<and> unat (bb_data rx ! 1) < total_block_num inst \<and> bb_data rx ! 1 \<noteq> 0 \<and>
      mf_classic_get_sector_by_block (bb_data rx ! 1) = mf_classic_get_sector_by_block (block_num (auth_context inst)) \<and>
      written_block (data inst) (bb_data rx ! 1) (key_type (auth_context inst)) (take 16 (bb_data rx')) \<noteq> None
    then cmd = MfClassicListenerCommandAck \<and>
      data inst' = (data inst)\<lparr>block := (block (data inst))[unat (bb_data rx ! 1) :=
        the (written_block (data inst) (bb_data rx ! 1) (key_type (auth_context inst)) (take 16 (bb_data rx')))]\<rparr>
    else cmd = MfClassicListenerCommandNack \<and> data inst' = data inst)"
proof -
  have d: "mf_wf (data inst)" using assms(1) by (simp add: card_wf_def)
  have g: "bit_buffer_get_byte rx 1 = Inr (bb_data rx ! 1)" using assms(2,3) by (simp add: get_byte_returns)
  have s: "bit_buffer_get_size_bytes rx' = 16" using assms(5) by (simp add: size_bytes_alt)
  let ?bn = "bb_data rx ! 1"
  let ?w = "written_block (data inst) ?bn (key_type (auth_context inst)) (take 16 (bb_data rx'))"
  let ?i1 = "inst\<lparr>write_block := ?bn, cmd_in_progress := True, current_cmd_handler_idx := current_cmd_handler_idx inst + 1\<rparr>"
  let ?ok = "state inst = MfClassicListenerStateAuthComplete \<and> unat ?bn < total_block_num inst \<and> ?bn \<noteq> 0 \<and>
       mf_classic_get_sector_by_block ?bn = mf_classic_get_sector_by_block (block_num (auth_context inst))"
  have w: "mf_classic_listener_write_block_second_part_handler [] ?i1 rx' =
    Inr (case ?w of None \<Rightarrow> (MfClassicListenerCommandNack, ?i1\<lparr>cmd_in_progress := False\<rparr>)
     | Some b \<Rightarrow> (MfClassicListenerCommandAck, ?i1\<lparr>cmd_in_progress := False,
         data := (data inst)\<lparr>block := (block (data inst))[unat ?bn := b]\<rparr>\<rparr>))"
    by (subst write_block_second_part_alt) (simp_all add: d assms(4) s split: option.split)
  have f: "write_frames inst rx rx' =
    (if ?ok then mf_classic_listener_write_block_second_part_handler [] ?i1 rx' else Inr (MfClassicListenerCommandNack, inst))"
    unfolding write_frames_def mf_classic_listener_write_block_first_part_handler_def g checked_bind_simps
    by simp
  show ?thesis
  proof (cases ?ok)
    case True
    have f': "write_frames inst rx rx' = mf_classic_listener_write_block_second_part_handler [] ?i1 rx'"
      by (rule trans [OF f if_P [OF True]])
    show ?thesis
    proof (cases ?w)
      case None
      show ?thesis unfolding f' w None option.case
        by (rule exI, rule exI, rule conjI, rule refl) simp
    next
      case (Some b)
      show ?thesis unfolding f' w Some option.case
        by (rule exI, rule exI, rule conjI, rule refl) (simp add: True [simplified])
    qed
  next
    case False
    have f': "write_frames inst rx rx' = Inr (MfClassicListenerCommandNack, inst)"
      by (rule trans [OF f if_not_P [OF False]])
    show ?thesis unfolding f'
      by (rule exI, rule exI, rule conjI, rule refl) (use False in \<open>simp del: One_nat_def, blast\<close>)
  qed
qed

theorem listener_write_block_witness:
  "\<exists>cmd inst'. write_frames open_session (frame_of [0xA0, 4]) (frame_of (replicate 16 7)) = Inr (cmd, inst') \<and>
    cmd = MfClassicListenerCommandAck \<and> data inst' = sample_image\<lparr>block := (block sample_image)[4 := replicate 16 7]\<rparr>"
  using listener_write_block [OF open_session_inv(2), of "frame_of [0xA0, 4]" "frame_of (replicate 16 7)"]
  by (simp add: frame_of_wf open_session_data written_block_def sample_blocks sample_access)

section \<open>Value commands\<close>

definition value_frames ::
  "MfClassicListener \<Rightarrow> BitBuffer \<Rightarrow> BitBuffer \<Rightarrow> BitBuffer \<Rightarrow> (MfClassicListenerCommand \<times> MfClassicListener) checked" where
  "value_frames inst rx rx' rx'' =
     checked_bind (mf_classic_listener_value_cmd_handler [] inst rx) (\<lambda>(cmd, inst).
     if cmd \<noteq> MfClassicListenerCommandAck then Inr (cmd, inst)
     else checked_bind (mf_classic_listener_value_data_receive_handler [] inst rx') (\<lambda>(cmd, inst).
     if cmd \<noteq> MfClassicListenerCommandSilent then Inr (cmd, inst)
     else mf_classic_listener_value_transfer_handler [] inst rx''))"

text \<open>The value after the operation.\<close>

definition value_result :: "u8 \<Rightarrow> u32 \<Rightarrow> u32 \<Rightarrow> u32" where
  "value_result cmd v d =
     (let m = (if sint d < 0 then - d else d) in if cmd = 0xC0 then v - m else if cmd = 0xC1 then v + m else v)"

lemma value_block_parts:
  "mf_classic_block_to_value (u32_bytes v @ u32_bytes (NOT v) @ u32_bytes v @ [a, NOT a, a, NOT a]) = (True, v, a)"
  by (simp add: mf_classic_block_to_value_def Let_def load_u32_parts not_0xFF and_0xFF value_tail_nth)

lemma value_actionE:
  assumes "value_action cmd = Some (vc, action)"
  obtains "cmd = 0xC0" "vc = MfClassicValueCommandDecrement" "action = MfClassicActionDataDec"
  | "cmd = 0xC1" "vc = MfClassicValueCommandIncrement" "action = MfClassicActionDataInc"
  | "cmd = 0xC2" "vc = MfClassicValueCommandRestore" "action = MfClassicActionDataDec"
  using assms by (simp add: value_action_def split: if_splits)

lemma value_cmd_accepts:
  assumes "state inst = MfClassicListenerStateAuthComplete" "mf_wf (data inst)"
    "bb_wf rx" "2 \<le> capacity_bytes rx" "value_action (bb_data rx ! 0) = Some (vc, action)"
    "unat (bb_data rx ! 1) < total_block_num inst"
    "mf_classic_get_sector_by_block (bb_data rx ! 1) = mf_classic_get_sector_by_block (block_num (auth_context inst))"
    "access_allowed (data inst) (bb_data rx ! 1) (key_type (auth_context inst)) action"
    "mf_classic_block_to_value (block (data inst) ! unat (bb_data rx ! 1)) = (True, v, a)"
  shows "mf_classic_listener_value_cmd_handler rnd inst rx = Inr (MfClassicListenerCommandAck,
    inst\<lparr>value_cmd := vc, transfer_value := v, transfer_valid := True, cmd_in_progress := True,
      current_cmd_handler_idx := current_cmd_handler_idx inst + 1\<rparr>)"
proof -
  have g: "bit_buffer_get_byte rx 1 = Inr (bb_data rx ! 1)" "bit_buffer_get_byte rx 0 = Inr (bb_data rx ! 0)"
    using assms(3,4) by (simp_all add: get_byte_returns)
  have n: "\<not> total_block_num inst \<le> unat (bb_data rx ! 1)" using assms(6) by simp
  have a: "mf_classic_is_allowed_access (data (inst\<lparr>value_cmd := vc\<rparr>)) (bb_data rx ! 1)
      (key_type (auth_context (inst\<lparr>value_cmd := vc\<rparr>))) action = Inr True"
    using assms(2,8) by simp
  from assms(5) show ?thesis
    by (rule value_actionE)
      (use assms(1,9) a n in \<open>simp_all only: mf_classic_listener_value_cmd_handler_def g checked_bind_simps Let_def assms(7)\<close>, simp_all)
qed

lemma value_data_accepts:
  assumes "bb_wf rx" "size_bits rx = 8 * 4" "value_action cmd = Some (value_cmd inst, action)"
  shows "mf_classic_listener_value_data_receive_handler rnd inst rx = Inr (MfClassicListenerCommandSilent,
    inst\<lparr>transfer_value := value_result cmd (transfer_value inst) (load_u32 (bb_data rx) 0), transfer_valid := True,
      cmd_in_progress := True, current_cmd_handler_idx := current_cmd_handler_idx inst + 1\<rparr>)"
proof -
  have s: "bit_buffer_get_size_bytes rx = 4" using assms(2) by (simp add: size_bytes_alt)
  have w: "bit_buffer_write_bytes_mid rx (replicate 4 0) 0 4 = Inr (take 4 (bb_data rx))"
    using write_mid_ok [OF assms(1), of 0 4 "replicate 4 0"] s by simp
  have ld: "load_u32 (take 4 (bb_data rx)) 0 = load_u32 (bb_data rx) 0" by (simp add: load_u32_def)
  have h: "mf_classic_listener_value_data_receive_handler rnd inst rx = Inr (MfClassicListenerCommandSilent,
    inst\<lparr>transfer_value := transfer_value inst + (let d = load_u32 (bb_data rx) 0; d = (if sint d < 0 then - d else d) in
        if value_cmd inst = MfClassicValueCommandDecrement then - d
        else if value_cmd inst = MfClassicValueCommandRestore then 0 else d), transfer_valid := True,
      cmd_in_progress := True, current_cmd_handler_idx := current_cmd_handler_idx inst + 1\<rparr>)"
    by (simp only: mf_classic_listener_value_data_receive_handler_def s w checked_bind_simps Let_def ld simp_thms if_False)
  have "transfer_value inst + (let d = load_u32 (bb_data rx) 0; d = (if sint d < 0 then - d else d) in
        if value_cmd inst = MfClassicValueCommandDecrement then - d
        else if value_cmd inst = MfClassicValueCommandRestore then 0 else d) =
      value_result cmd (transfer_value inst) (load_u32 (bb_data rx) 0)"
    using assms(3) by (rule value_actionE) (simp_all add: value_result_def Let_def)
  with h show ?thesis by (simp only:)
qed

text \<open>The block a transfer names gets the value; its number is checked neither against the size of the card nor
  against the sector of the session.\<close>

lemma value_transfer_accepts:
  assumes "mf_wf (data inst)" "bb_wf rx" "2 \<le> capacity_bytes rx" "size_bits rx = 8 * 2" "bb_data rx ! 0 = 0xB0"
    "access_allowed (data inst) (bb_data rx ! 1) (key_type (auth_context inst)) MfClassicActionDataDec"
  obtains inst' b where "mf_classic_listener_value_transfer_handler rnd inst rx = Inr (MfClassicListenerCommandAck, inst')"
    "data inst' = (data inst)\<lparr>block := (block (data inst))[unat (bb_data rx ! 1) := b]\<rparr>"
    "mf_classic_block_to_value b = (True, transfer_value inst, bb_data rx ! 1)"
proof -
  let ?bn = "bb_data rx ! 1" and ?v = "transfer_value inst"
  let ?b = "u32_bytes ?v @ u32_bytes (NOT ?v) @ u32_bytes ?v @ [?bn, NOT ?bn, ?bn, NOT ?bn]"
  let ?i = "inst\<lparr>cmd_in_progress := False, data := (data inst)\<lparr>block := (block (data inst))[unat ?bn := ?b]\<rparr>,
    transfer_value := 0, transfer_valid := False\<rparr>"
  have s: "bit_buffer_get_size_bytes rx = 2" using assms(4) by (simp add: size_bytes_alt)
  show ?thesis
  proof (rule that)
    show "mf_classic_listener_value_transfer_handler rnd inst rx = Inr (MfClassicListenerCommandAck, ?i)"
      unfolding value_transfer_alt [OF assms(1-3)] s using assms(5,6) by simp
    show "mf_classic_block_to_value ?b = (True, ?v, ?bn)" by (rule value_block_parts)
  qed simp
qed

text \<open>
  C14 (functional): a decrement, increment or restore that is permitted on a value block of the sector, its operand
  and a transfer store the new value, computed modulo \<open>2\<^sup>3\<^sup>2\<close>, in the block the transfer names. That block need not be
  in the sector of the session nor on the card: only the access conditions of its own sector are asked.
\<close>

theorem listener_value_command:
  assumes "card_wf inst" "state inst = MfClassicListenerStateAuthComplete"
    "bb_wf rx" "2 \<le> capacity_bytes rx" "value_action (bb_data rx ! 0) = Some (vc, action)"
    "unat (bb_data rx ! 1) < total_block_num inst"
    "mf_classic_get_sector_by_block (bb_data rx ! 1) = mf_classic_get_sector_by_block (block_num (auth_context inst))"
    "access_allowed (data inst) (bb_data rx ! 1) (key_type (auth_context inst)) action"
    "mf_classic_block_to_value (block (data inst) ! unat (bb_data rx ! 1)) = (True, v, a)"
    "bb_wf rx'" "size_bits rx' = 8 * 4"
    "bb_wf rx''" "2 \<le> capacity_bytes rx''" "size_bits rx'' = 8 * 2" "bb_data rx'' ! 0 = 0xB0"
    "access_allowed (data inst) (bb_data rx'' ! 1) (key_type (auth_context inst)) MfClassicActionDataDec"
  shows "\<exists>inst' b. value_frames inst rx rx' rx'' = Inr (MfClassicListenerCommandAck, inst') \<and>
    data inst' = (data inst)\<lparr>block := (block (data inst))[unat (bb_data rx'' ! 1) := b]\<rparr> \<and>
    mf_classic_block_to_value b = (True, value_result (bb_data rx ! 0) v (load_u32 (bb_data rx') 0), bb_data rx'' ! 1)"
proof -
  have d: "mf_wf (data inst)" using assms(1) by (simp add: card_wf_def)
  define i1 where "i1 = inst\<lparr>value_cmd := vc, transfer_value := v, transfer_valid := True, cmd_in_progress := True,
    current_cmd_handler_idx := current_cmd_handler_idx inst + 1\<rparr>"
  define i2 where "i2 = i1\<lparr>transfer_value := value_result (bb_data rx ! 0) (transfer_value i1) (load_u32 (bb_data rx') 0),
    transfer_valid := True, cmd_in_progress := True, current_cmd_handler_idx := current_cmd_handler_idx i1 + 1\<rparr>"
  have 1: "mf_classic_listener_value_cmd_handler [] inst rx = Inr (MfClassicListenerCommandAck, i1)"
    unfolding i1_def by (rule value_cmd_accepts [OF assms(2) d assms(3-9)])
  have 2: "mf_classic_listener_value_data_receive_handler [] i1 rx' = Inr (MfClassicListenerCommandSilent, i2)"
    unfolding i2_def by (rule value_data_accepts [OF assms(10,11), where action = action]) (simp add: i1_def assms(5))
  have e: "data i2 = data inst" "auth_context i2 = auth_context inst"
    "transfer_value i2 = value_result (bb_data rx ! 0) v (load_u32 (bb_data rx') 0)"
    by (simp_all add: i2_def i1_def)
  obtain inst' b where "mf_classic_listener_value_transfer_handler [] i2 rx'' = Inr (MfClassicListenerCommandAck, inst')"
    "data inst' = (data i2)\<lparr>block := (block (data i2))[unat (bb_data rx'' ! 1) := b]\<rparr>"
    "mf_classic_block_to_value b = (True, transfer_value i2, bb_data rx'' ! 1)"
    by (rule value_transfer_accepts [of i2 rx'' "[]"]) (use d assms(12-16) in \<open>simp_all only: e\<close>)
  then have "value_frames inst rx rx' rx'' = Inr (MfClassicListenerCommandAck, inst') \<and>
    data inst' = (data inst)\<lparr>block := (block (data inst))[unat (bb_data rx'' ! 1) := b]\<rparr> \<and>
    mf_classic_block_to_value b = (True, value_result (bb_data rx ! 0) v (load_u32 (bb_data rx') 0), bb_data rx'' ! 1)"
    by (simp add: value_frames_def 1 2 e del: One_nat_def)
  then show ?thesis by blast
qed

theorem listener_value_command_witness:
  "\<exists>inst' b. value_frames open_session (frame_of [0xC1, 4]) (frame_of [5, 0, 0, 0]) (frame_of [0xB0, 8]) =
      Inr (MfClassicListenerCommandAck, inst') \<and>
    data inst' = sample_image\<lparr>block := (block sample_image)[8 := b]\<rparr> \<and> mf_classic_block_to_value b = (True, 105, 8)"
proof -
  have v: "mf_classic_block_to_value value_100 = (True, 100, 4)"
    unfolding value_100_def by (rule value_block_parts)
  have r: "value_result 0xC1 100 (load_u32 (5 # 0 # 0 # 0 # replicate 60 0) 0) = 105"
    by (simp add: value_result_def load_u32_def Let_def)
  have "value_action 0xC1 = Some (MfClassicValueCommandIncrement, MfClassicActionDataInc)"
    by (simp add: value_action_def)
  then show ?thesis
    using listener_value_command [OF open_session_inv(2) open_session_data(2), of "frame_of [0xC1, 4]" MfClassicValueCommandIncrement
        MfClassicActionDataInc 100 4 "frame_of [5, 0, 0, 0]" "frame_of [0xB0, 8]"]
    by (simp add: frame_of_wf open_session_data sample_blocks [of 4, simplified] sample_access v r)
qed

end
