(* ===== verification/Subghz_Secplus_V2.thy ===== *)
theory Subghz_Secplus_V2
  imports Subghz_Math Subghz_Blocks
begin

text \<open>
  The message codec of Security+ 2.0 (\<^verbatim>\<open>lib/subghz/protocols/secplus_v2.c\<close>): a rolling counter, a button and
  a serial number are split over two packets, each with nine rolling digits to the base 3 and part of the fixed code,
  interleaved, reordered and inverted as the digits say; remotes send 62-bit packets, keypads 86-bit ones, which
  carry a data word too.

  The arrays \<open>p\<close> are triples. A routine that fails returns \<open>None\<close>; what it has written to its out-parameters
  by then is not used by its callers. The counter step of the radio settings is the argument \<open>mult\<close>, a 32-bit pattern.
\<close>

section \<open>Packets\<close>

type_synonym triple = "u32 \<times> u32 \<times> u32"

definition subghz_protocol_secplus_v2_mix_invet :: "u8 \<Rightarrow> triple \<Rightarrow> u32 \<Rightarrow> triple option" where
  "subghz_protocol_secplus_v2_mix_invet invert p m =
     (case p of (p0, p1, p2) \<Rightarrow>
        if invert = 0x00 then Some (NOT p0 AND m, NOT p1 AND m, p2)
        else if invert = 0x01 then Some (p0, NOT p1 AND m, p2)
        else if invert = 0x02 then Some (p0, p1, NOT p2 AND m)
        else if invert = 0x04 then Some (NOT p0 AND m, NOT p1 AND m, NOT p2 AND m)
        else if invert = 0x05 \<or> invert = 0x0a then Some (NOT p0 AND m, p1, NOT p2 AND m)
        else if invert = 0x06 then Some (p0, NOT p1 AND m, NOT p2 AND m)
        else if invert = 0x08 then Some (NOT p0 AND m, p1, p2)
        else if invert = 0x09 then Some (p0, p1, p2)
        else None)"

definition subghz_protocol_secplus_v2_mix_order_decode :: "u8 \<Rightarrow> triple \<Rightarrow> triple option" where
  "subghz_protocol_secplus_v2_mix_order_decode order p =
     (case p of (a, b, c) \<Rightarrow>
        if order = 0x06 \<or> order = 0x09 then Some (c, b, a)
        else if order = 0x08 \<or> order = 0x04 then Some (c, a, b)
        else if order = 0x01 then Some (b, c, a)
        else if order = 0x00 then Some (a, c, b)
        else if order = 0x05 then Some (b, a, c)
        else if order = 0x02 \<or> order = 0x0A then Some (a, b, c)
        else None)"

definition subghz_protocol_secplus_v2_mix_order_encode :: "u8 \<Rightarrow> triple \<Rightarrow> triple option" where
  "subghz_protocol_secplus_v2_mix_order_encode order p =
     (case p of (p0, p1, p2) \<Rightarrow>
        if order = 0x06 \<or> order = 0x09 then Some (p2, p1, p0)
        else if order = 0x08 \<or> order = 0x04 then Some (p1, p2, p0)
        else if order = 0x01 then Some (p2, p0, p1)
        else if order = 0x00 then Some (p0, p2, p1)
        else if order = 0x05 then Some (p1, p0, p2)
        else if order = 0x02 \<or> order = 0x0A then Some (p0, p1, p2)
        else None)"

text \<open>The loops that interleave and separate the three buffers, of \<open>n\<close> bits each.\<close>

definition interleave :: "nat \<Rightarrow> triple \<Rightarrow> u64" where
  "interleave n p =
     (case p of (p0, p1, p2) \<Rightarrow>
        fold (\<lambda>i data. push_bit 3 data OR (push_bit 2 (ucast (bit_read p0 (n - 1 - i))) OR
            push_bit 1 (ucast (bit_read p1 (n - 1 - i))) OR ucast (bit_read p2 (n - 1 - i)))) [0..<n] 0)"

definition separate :: "nat \<Rightarrow> u64 \<Rightarrow> triple" where
  "separate n frame =
     fold (\<lambda>i (p0, p1, p2). (push_bit 1 p0 OR ucast (bit_read frame i), push_bit 1 p1 OR ucast (bit_read frame (i - 1)),
         push_bit 1 p2 OR ucast (bit_read frame (i - 2)))) (map (\<lambda>j. 3 * n - 1 - 3 * j) [0..<n]) (0, 0, 0)"

text \<open>The digits of two bits of \<open>v\<close> at the positions \<open>is\<close>; the digit 3 is an error.\<close>

definition roll_digits :: "u32 \<Rightarrow> nat list \<Rightarrow> u8 list option" where
  "roll_digits v is =
     (let ds = map (\<lambda>i. ucast (drop_bit i v AND 0x03)) is in if list_all (\<lambda>d. d \<noteq> 3) ds then Some ds else None)"

text \<open>The result is the array of rolling digits and the fixed part.\<close>

definition subghz_protocol_secplus_v2_decode_half :: "u64 \<Rightarrow> (u8 list \<times> u32) option" where
  "subghz_protocol_secplus_v2_decode_half frame =
     (let order = ucast (drop_bit 34 frame) AND 0x0f; invert = ucast (drop_bit 30 frame) AND 0x0f in
      case subghz_protocol_secplus_v2_mix_invet invert (separate 10 frame) 0x03FF of None \<Rightarrow> None | Some p \<Rightarrow>
      case subghz_protocol_secplus_v2_mix_order_decode order p of None \<Rightarrow> None | Some (p0, p1, p2) \<Rightarrow>
      case roll_digits (push_bit 4 (ucast order) OR ucast invert) [6, 4, 2, 0] of None \<Rightarrow> None | Some head \<Rightarrow>
      case roll_digits p2 [8, 6, 4, 2, 0] of None \<Rightarrow> None | Some tail \<Rightarrow>
        Some (head @ tail, push_bit 10 p0 OR p1))"

definition subghz_protocol_secplus_v2_encode_half :: "u8 list \<Rightarrow> u32 \<Rightarrow> u64" where
  "subghz_protocol_secplus_v2_encode_half roll_array fixed =
     (let d = (\<lambda>i. ucast (roll_array ! i) :: u32);
          order = push_bit 2 (roll_array ! 0) OR roll_array ! 1; invert = push_bit 2 (roll_array ! 2) OR roll_array ! 3;
          p = (drop_bit 10 fixed AND 0x3FF, fixed AND 0x3FF,
               push_bit 8 (d 4) OR push_bit 6 (d 5) OR push_bit 4 (d 6) OR push_bit 2 (d 7) OR d 8) in
      case subghz_protocol_secplus_v2_mix_order_encode order p of None \<Rightarrow> 0 | Some p \<Rightarrow>
      case subghz_protocol_secplus_v2_mix_invet invert p 0x03FF of None \<Rightarrow> 0 | Some p \<Rightarrow>
        interleave 10 p OR (push_bit 34 (ucast order) OR push_bit 30 (ucast invert)))"

text \<open>The result is the array of rolling digits, the fixed part and the data field.\<close>

definition subghz_protocol_secplus_v2_decode_half_86 :: "u64 \<Rightarrow> (u8 list \<times> u32 \<times> u16) option" where
  "subghz_protocol_secplus_v2_decode_half_86 frame =
     (if drop_bit 62 frame \<noteq> 1 then None
      else
        let invert = ucast (drop_bit 54 frame) AND 0x0F; order = ucast (drop_bit 58 frame) AND 0x0F in
        case subghz_protocol_secplus_v2_mix_invet invert (separate 18 frame) 0x3FFFF of None \<Rightarrow> None | Some p \<Rightarrow>
        case subghz_protocol_secplus_v2_mix_order_decode order p of None \<Rightarrow> None | Some (p0, p1, p2) \<Rightarrow>
        case roll_digits (push_bit 4 (ucast order) OR ucast invert) [6, 4, 2, 0] of None \<Rightarrow> None | Some head \<Rightarrow>
        case roll_digits p2 [16, 14, 12, 10, 8, 6, 4, 2, 0] of None \<Rightarrow> None | Some tail \<Rightarrow>
        let digits = head @ tail in
        if list_all (\<lambda>i. digits ! i = digits ! (i + 9)) [0..<4]
        then Some (take 9 digits, push_bit 2 p0 AND 0xFFC00 OR (drop_bit 8 p1 AND 0x3FF),
               ucast (push_bit 8 p0 OR (p1 AND 0xFF)))
        else None)"

definition subghz_protocol_secplus_v2_encode_half_86 :: "u8 list \<Rightarrow> u32 \<Rightarrow> u16 \<Rightarrow> u64" where
  "subghz_protocol_secplus_v2_encode_half_86 roll_array fixed data_part =
     (let d = (\<lambda>i. ucast (roll_array ! i) :: u32);
          p = (push_bit 8 (drop_bit 10 fixed AND 0x3FF) OR (ucast (drop_bit 8 data_part) AND 0xFF),
               push_bit 8 (fixed AND 0x3FF) OR (ucast data_part AND 0xFF),
               push_bit 16 (d 4) OR push_bit 14 (d 5) OR push_bit 12 (d 6) OR push_bit 10 (d 7) OR push_bit 8 (d 8) OR
               push_bit 6 (d 0) OR push_bit 4 (d 1) OR push_bit 2 (d 2) OR d 3);
          order = push_bit 2 (roll_array ! 0) OR roll_array ! 1; invert = push_bit 2 (roll_array ! 2) OR roll_array ! 3 in
      case subghz_protocol_secplus_v2_mix_order_encode order p of None \<Rightarrow> 0 | Some p \<Rightarrow>
      case subghz_protocol_secplus_v2_mix_invet invert p 0x3FFFF of None \<Rightarrow> 0 | Some p \<Rightarrow>
        interleave 18 p OR (push_bit 58 (ucast order) OR push_bit 54 (ucast invert) OR push_bit 62 1))"

section \<open>The rolling code\<close>

text \<open>The eighteen digits to the base 3, the most significant first.\<close>

definition split_rolling :: "u32 \<Rightarrow> u8 list" where
  "split_rolling rolling =
     fst (fold (\<lambda>i (ds, r). (ucast (r mod 3) # ds, r div 3)) (rev [0..<18]) ([], rolling))"

text \<open>The two arrays \<open>roll_1\<close> and \<open>roll_2\<close>.\<close>

definition deal_digits :: "u8 list \<Rightarrow> u8 list \<times> u8 list" where
  "deal_digits ds =
     ([ds ! 14, ds ! 15, ds ! 16, ds ! 17, ds ! 6, ds ! 7, ds ! 8, ds ! 9, ds ! 1],
      [ds ! 10, ds ! 11, ds ! 12, ds ! 13, ds ! 2, ds ! 3, ds ! 4, ds ! 5, ds ! 0])"

definition gather_digits :: "u8 list \<Rightarrow> u8 list \<Rightarrow> u8 list" where
  "gather_digits r1 r2 =
     [r2 ! 8, r1 ! 8, r2 ! 4, r2 ! 5, r2 ! 6, r2 ! 7, r1 ! 4, r1 ! 5, r1 ! 6, r1 ! 7,
      r2 ! 0, r2 ! 1, r2 ! 2, r2 ! 3, r1 ! 0, r1 ! 1, r1 ! 2, r1 ! 3]"

definition join_rolling :: "u8 list \<Rightarrow> u32" where
  "join_rolling ds = foldl (\<lambda>v d. v * 3 + ucast d) 0 ds"

definition subghz_protocol_secplus_v2_rolling_join :: "u8 list \<Rightarrow> u8 list \<Rightarrow> u32 option" where
  "subghz_protocol_secplus_v2_rolling_join r1 r2 =
     (let v = join_rolling (gather_digits r1 r2) in
      if v \<ge> 0x10000000 then None else Some (ucast (subghz_protocol_blocks_reverse_key (ucast v) 28)))"

section \<open>Messages\<close>

text \<open>The second component is the custom button state.\<close>

definition subghz_protocol_secplus_v2_remote_controller ::
  "SubGhzCustomBtn \<Rightarrow> SubGhzBlockGeneric \<Rightarrow> u64 \<Rightarrow> SubGhzBlockGeneric \<times> SubGhzCustomBtn" where
  "subghz_protocol_secplus_v2_remote_controller cb g packet_1 =
     (let none = g\<lparr>cnt := 0, btn := 0, serial := 0\<rparr>;
          g = (case (subghz_protocol_secplus_v2_decode_half packet_1, subghz_protocol_secplus_v2_decode_half (data g)) of
                 (Some (roll_1, fixed_1), Some (roll_2, fixed_2)) \<Rightarrow>
                   (let rolling = join_rolling (gather_digits roll_1 roll_2) in
                    if rolling \<ge> 0x10000000 then none
                    else g\<lparr>cnt := ucast (subghz_protocol_blocks_reverse_key (ucast rolling) 28),
                           btn := ucast (drop_bit 12 fixed_1), serial := push_bit 20 fixed_1 OR fixed_2\<rparr>)
               | _ \<Rightarrow> none);
          cb = (if subghz_custom_btn_get_original cb = 0 then subghz_custom_btn_set_original (btn g) cb else cb)
      in (g, subghz_custom_btn_set_max 4 cb))"

text \<open>The nibbles of the data word exclusive-ored onto the low nibble of the button.\<close>

definition nibble_check :: "u8 \<Rightarrow> u32 \<Rightarrow> u8" where
  "nibble_check b data_word =
     fold (\<lambda>i check. check XOR ucast (drop_bit i data_word AND 0x0F)) [0, 4, 8, 12, 16, 20, 24, 28] (b AND 0x0F)"

definition subghz_protocol_secplus_v2_remote_controller_86 ::
  "SubGhzBlockGeneric \<Rightarrow> u64 \<Rightarrow> (SubGhzBlockGeneric \<times> u32) option" where
  "subghz_protocol_secplus_v2_remote_controller_86 g packet_1 =
     (case subghz_protocol_secplus_v2_decode_half_86 packet_1 of None \<Rightarrow> None | Some (roll_1, fixed_1, part_1) \<Rightarrow>
      case subghz_protocol_secplus_v2_decode_half_86 (data g) of None \<Rightarrow> None | Some (roll_2, fixed_2, part_2) \<Rightarrow>
      case subghz_protocol_secplus_v2_rolling_join roll_1 roll_2 of None \<Rightarrow> None | Some rolling \<Rightarrow>
        (let data_word = push_bit 16 (ucast part_1) OR ucast part_2 :: u32; b = ucast (drop_bit 12 fixed_1) :: u8 in
         if nibble_check b data_word \<noteq> 0 then None
         else Some (g\<lparr>cnt := rolling, btn := b, serial := push_bit 20 fixed_1 OR fixed_2\<rparr>, data_word)))"

definition subghz_protocol_secplus_v2_pin_extract :: "u32 \<Rightarrow> u16" where
  "subghz_protocol_secplus_v2_pin_extract data_word =
     (let high = ucast (drop_bit 16 data_word) :: u16; pin = push_bit 8 high OR drop_bit 8 high
      in if pin \<le> 9999 then pin else 0xFFFF)"

definition subghz_protocol_secplus_v2_pin_apply :: "u32 \<Rightarrow> u16 \<Rightarrow> u32" where
  "subghz_protocol_secplus_v2_pin_apply data_word pin =
     (let high = push_bit 8 pin OR drop_bit 8 pin in push_bit 16 (ucast high) OR (data_word AND 0xFFFF))"

definition subghz_protocol_secplus_v2_get_btn_code :: "SubGhzCustomBtn \<Rightarrow> u8" where
  "subghz_protocol_secplus_v2_get_btn_code cb =
     (let i = subghz_custom_btn_get cb; b = subghz_custom_btn_get_original cb in
      if i = SUBGHZ_CUSTOM_BTN_OK \<and> b \<noteq> 0 then b
      else if i = SUBGHZ_CUSTOM_BTN_UP then
        (if b = 0x80 then 0x68 else if b = 0x68 \<or> b = 0x81 \<or> b = 0xE2 \<or> b = 0x78 then 0x80 else b)
      else if i = SUBGHZ_CUSTOM_BTN_DOWN then
        (if b = 0x81 then 0x68 else if b = 0x68 \<or> b = 0x80 \<or> b = 0xE2 \<or> b = 0x78 then 0x81 else b)
      else if i = SUBGHZ_CUSTOM_BTN_LEFT then
        (if b = 0xE2 then 0x68 else if b = 0x68 \<or> b = 0x80 \<or> b = 0x81 \<or> b = 0x78 then 0xE2 else b)
      else if i = SUBGHZ_CUSTOM_BTN_RIGHT then
        (if b = 0x78 then 0x68 else if b = 0x68 \<or> b = 0x80 \<or> b = 0x81 \<or> b = 0xE2 then 0x78 else b)
      else b)"

record SubGhzProtocolEncoderSecPlus_v2 =
  generic :: SubGhzBlockGeneric
  secplus_packet_1 :: u64
  secplus_data :: u32

definition subghz_protocol_secplus_v2_encode_86 :: "SubGhzProtocolEncoderSecPlus_v2 \<Rightarrow> SubGhzProtocolEncoderSecPlus_v2" where
  "subghz_protocol_secplus_v2_encode_86 instance =
     (let g = generic instance;
          rolling = ucast (subghz_protocol_blocks_reverse_key (ucast (cnt g)) 28);
          (roll_1, roll_2) = deal_digits (split_rolling rolling);
          fixed_1 = push_bit 12 (ucast (btn g)) OR drop_bit 20 (serial g);
          fixed_2 = serial g AND 0xFFFFF;
          data_word = secplus_data instance AND NOT 0xF000;
          data_word = data_word OR push_bit 12 (ucast (nibble_check (btn g) data_word AND 0x0F)) in
      instance\<lparr>secplus_data := data_word,
        secplus_packet_1 := subghz_protocol_secplus_v2_encode_half_86 roll_1 fixed_1 (ucast (drop_bit 16 data_word)),
        generic := g\<lparr>data := subghz_protocol_secplus_v2_encode_half_86 roll_2 fixed_2 (ucast data_word)\<rparr>\<rparr>)"

text \<open>The counter of the next message: from the settings, or stepped.\<close>

definition secplus_v2_next_cnt :: "u32 \<Rightarrow> SubGhzBlockGenericGlobal \<Rightarrow> u32 \<Rightarrow> u32 \<times> SubGhzBlockGenericGlobal" where
  "secplus_v2_next_cnt mult global c =
     (if mult \<noteq> - 0x7FFFFFFF then
        (let (ok, c', global) = subghz_block_generic_global_counter_override_get c global;
             c' = (if \<not> ok then (if c' + mult > 0xFFFFFFF then 0xE500000 else c' + mult) else c') in
         (if c' < 0xE500000 then 0xE500000 else c', global))
      else if c + 0x1 > 0xFFFFFFF then (0xE500000, global)
      else if c \<ge> 0xE500000 \<and> c \<noteq> 0xFFFFFFE then (0xFFFFFFE, global)
      else (c + 1, global))"

definition subghz_protocol_secplus_v2_encode ::
  "u32 \<Rightarrow> SubGhzCustomBtn \<Rightarrow> SubGhzBlockGenericGlobal \<Rightarrow> SubGhzProtocolEncoderSecPlus_v2 \<Rightarrow>
     SubGhzProtocolEncoderSecPlus_v2 \<times> SubGhzCustomBtn \<times> SubGhzBlockGenericGlobal" where
  "subghz_protocol_secplus_v2_encode mult cb global instance =
     (let g = generic instance;
          cb = (if subghz_custom_btn_get_original cb = 0 then subghz_custom_btn_set_original (btn g) cb else cb);
          (_, b, global) = subghz_block_generic_global_button_override_get (subghz_protocol_secplus_v2_get_btn_code cb) global;
          fixed_1 = push_bit 12 (ucast b) OR drop_bit 20 (serial g);
          fixed_2 = serial g AND 0xFFFFF;
          (c, global) = secplus_v2_next_cnt mult global (cnt g);
          (roll_1, roll_2) = deal_digits (split_rolling (ucast (subghz_protocol_blocks_reverse_key (ucast c) 28))) in
      (instance\<lparr>
         secplus_packet_1 := 0x3C0000000000 OR 0x000000000000 OR subghz_protocol_secplus_v2_encode_half roll_1 fixed_1,
         generic := g\<lparr>btn := b, cnt := c,
           data := 0x3C0000000000 OR 0x010000000000 OR subghz_protocol_secplus_v2_encode_half roll_2 fixed_2\<rparr>\<rparr>,
       cb, global))"

end
