(* ===== verification/Subghz_Secplus_V2_Roundtrip.thy ===== *)
theory Subghz_Secplus_V2_Roundtrip
  imports Subghz_Secplus_V2
begin

text \<open>
  The Security+ 2.0 codec against itself: interleaving, reordering and inverting are undone, the base-3 digits and the
  parts of the fixed code come back, and so do the messages of remotes and of keypads.
\<close>

section \<open>Packets come back\<close>

lemma bit_interleave_step:
  "bit (push_bit 3 d OR (push_bit 2 (of_bool a) OR push_bit 1 (of_bool b) OR of_bool c) :: u64) k \<longleftrightarrow>
     (if k = 0 then c else if k = 1 then b else if k = 2 then a else k < 64 \<and> bit d (k - 3))"
proof -
  consider "k = 0" | "k = 1" | "k = 2" | "3 \<le> k" by linarith
  then show ?thesis by cases (auto simp: bit_or_iff bit_push_bit_iff bit_of_bool_iff)
qed

lemma bit_interleave_loop:
  assumes "3 * n \<le> 64"
  shows "m \<le> n \<Longrightarrow> bit (fold (\<lambda>i data. push_bit 3 data OR (push_bit 2 (of_bool (bit (p0 :: u32) (n - 1 - i))) OR
            push_bit 1 (of_bool (bit (p1 :: u32) (n - 1 - i))) OR of_bool (bit (p2 :: u32) (n - 1 - i)))) [0..<m] (0 :: u64)) k \<longleftrightarrow>
    k < 3 * m \<and> bit (if k mod 3 = 2 then p0 else if k mod 3 = 1 then p1 else p2) (n - m + k div 3)"
proof (induction m arbitrary: k)
  case (Suc m)
  let ?d = "fold (\<lambda>i data. push_bit 3 data OR (push_bit 2 (of_bool (bit p0 (n - 1 - i))) OR
            push_bit 1 (of_bool (bit p1 (n - 1 - i))) OR of_bool (bit p2 (n - 1 - i)))) [0..<m] (0 :: u64)"
  have e: "fold (\<lambda>i data. push_bit 3 data OR (push_bit 2 (of_bool (bit p0 (n - 1 - i))) OR
            push_bit 1 (of_bool (bit p1 (n - 1 - i))) OR of_bool (bit p2 (n - 1 - i)))) [0..<Suc m] (0 :: u64) =
    push_bit 3 ?d OR (push_bit 2 (of_bool (bit p0 (n - 1 - m))) OR
            push_bit 1 (of_bool (bit p1 (n - 1 - m))) OR of_bool (bit p2 (n - 1 - m)))"
    by (simp only: upt_Suc_append le0 fold_append o_apply fold_simps)
  consider "k = 0" | "k = 1" | "k = 2" | k' where "k = k' + 3"
  proof (cases "k < 3")
    case True
    then have "k = 0 \<or> k = 1 \<or> k = 2" by linarith
    then show ?thesis using that(1-3) by blast
  next
    case False
    then have "k = (k - 3) + 3" by simp
    then show ?thesis by (rule that(4))
  qed
  then show ?case
  proof cases
    case (4 k')
    have k: "k mod 3 = k' mod 3" "n - Suc m + k div 3 = n - m + k' div 3" "k - 3 = k'" "k < 3 * Suc m \<longleftrightarrow> k' < 3 * m"
      "k \<noteq> 0" "k \<noteq> 1" "k \<noteq> 2"
      using 4 Suc.prems by simp_all
    have "m \<le> n" using Suc.prems by simp
    note IH = Suc.IH [OF this, of k']
    have "k' < 3 * m \<Longrightarrow> k < 64" using 4 Suc.prems assms by simp
    then show ?thesis
      unfolding e bit_interleave_step k IH using k(5-7) by (simp only: if_False) blast
  next
    case 1
    then show ?thesis unfolding e bit_interleave_step by simp
  next
    case 2
    then show ?thesis unfolding e bit_interleave_step by simp
  next
    case 3
    then show ?thesis unfolding e bit_interleave_step by simp
  qed
qed simp

lemma bit_interleave:
  assumes "3 * n \<le> 64"
  shows "bit (interleave n (p0, p1, p2)) k \<longleftrightarrow>
    k < 3 * n \<and> bit (if k mod 3 = 2 then p0 else if k mod 3 = 1 then p1 else p2) (k div 3)"
proof -
  have c: "(ucast (bit_read p i) :: u64) = of_bool (bit p i)" for p :: u32 and i
    by (simp add: bit_read_of_bool)
  show ?thesis
    unfolding interleave_def prod.case c using bit_interleave_loop [OF assms order.refl, of p0 p1 p2 k] by simp
qed

lemma bit_shift_step: "bit (push_bit 1 d OR of_bool b :: u32) k \<longleftrightarrow> (if k = 0 then b else k < 32 \<and> bit d (k - 1))"
  by (cases k) (auto simp: bit_or_iff bit_push_bit_iff bit_of_bool_iff)

definition separate_loop :: "nat \<Rightarrow> nat \<Rightarrow> u64 \<Rightarrow> nat \<Rightarrow> u32" where
  "separate_loop n m frame r =
     fold (\<lambda>j p. push_bit 1 p OR of_bool (bit frame (3 * n - 1 - 3 * j - r))) [0..<m] 0"

lemma separate_alt: "separate n frame = (separate_loop n n frame 0, separate_loop n n frame 1, separate_loop n n frame 2)"
proof -
  have c: "(ucast (bit_read frame i) :: u32) = of_bool (bit frame i)" for i by (simp add: bit_read_of_bool)
  have "fold (\<lambda>i (p0, p1, p2). (push_bit 1 p0 OR of_bool (bit frame i), push_bit 1 p1 OR of_bool (bit frame (i - 1)),
         push_bit 1 p2 OR of_bool (bit frame (i - 2)))) (map (\<lambda>j. 3 * n - 1 - 3 * j) [0..<m]) (0, 0, 0 :: u32) =
    (separate_loop n m frame 0, separate_loop n m frame 1, separate_loop n m frame 2)" for m
    by (induction m) (simp_all add: separate_loop_def)
  then show ?thesis unfolding separate_def c .
qed

lemma bit_separate_loop:
  assumes "n \<le> 32"
  shows "m \<le> n \<Longrightarrow> r \<le> 2 \<Longrightarrow> bit (separate_loop n m frame r) k \<longleftrightarrow> k < m \<and> bit frame (3 * (n - m + k) + 2 - r)"
proof (induction m arbitrary: k)
  case (Suc m)
  have e: "separate_loop n (Suc m) frame r =
    push_bit 1 (separate_loop n m frame r) OR of_bool (bit frame (3 * n - 1 - 3 * m - r))"
    by (simp add: separate_loop_def)
  have i: "3 * n - 1 - 3 * m - r = 3 * (n - Suc m) + 2 - r" using Suc.prems by simp
  show ?case
  proof (cases k)
    case 0
    show ?thesis unfolding e i bit_shift_step using 0 by simp
  next
    case (Suc k')
    have n: "n - Suc m + k = n - m + k'" using Suc.prems Suc by simp
    have "m \<le> n" using Suc.prems by simp
    from Suc.IH [OF this Suc.prems(2), of k'] show ?thesis
      unfolding e bit_shift_step n using Suc Suc.prems assms by auto
  qed
qed (simp add: separate_loop_def)

text \<open>The bits above the packet, its order and its inversion, are not read.\<close>

lemma separate_interleave:
  assumes "3 * n \<le> 64" "n \<le> 32" "\<And>k. k < 3 * n \<Longrightarrow> \<not> bit h k"
  shows "separate n (interleave n (p0, p1, p2) OR h) = (take_bit n p0, take_bit n p1, take_bit n p2)"
proof -
  have b: "bit (interleave n (p0, p1, p2) OR h) j = bit (interleave n (p0, p1, p2)) j" if "j < 3 * n" for j
    using assms(3) [OF that] by (simp add: bit_or_iff)
  have "separate_loop n n (interleave n (p0, p1, p2) OR h) r = take_bit n (if r = 0 then p0 else if r = 1 then p1 else p2)"
    if r: "r \<le> 2" for r
  proof (rule bit_word_eqI)
    fix k assume "k < LENGTH(32)"
    show "bit (separate_loop n n (interleave n (p0, p1, p2) OR h) r) k =
      bit (take_bit n (if r = 0 then p0 else if r = 1 then p1 else p2)) k"
    proof (cases "k < n")
      case True
      have "(3 * k + j) div 3 = k \<and> (3 * k + j) mod 3 = j" if "j < 3" for j :: nat using that by simp
      moreover have "3 * k + 2 - r = 3 * k + (2 - r)" "2 - r < 3" using r by simp_all
      ultimately have "(3 * k + 2 - r) div 3 = k \<and> (3 * k + 2 - r) mod 3 = 2 - r" by presburger
      moreover have "3 * k + 2 - r < 3 * n" using True by simp
      ultimately have "(3 * k + 2 - r) div 3 = k" "(3 * k + 2 - r) mod 3 = 2 - r" "3 * k + 2 - r < 3 * n" by simp_all
      then show ?thesis
        using bit_separate_loop [OF assms(2) order.refl r, of "interleave n (p0, p1, p2) OR h" k] True r b
        by (auto simp: bit_interleave [OF assms(1)] bit_take_bit_iff split: if_splits)
    qed (use bit_separate_loop [OF assms(2) order.refl r] in \<open>simp add: bit_take_bit_iff\<close>)
  qed
  from this [of 0] this [of 1] this [of 2] show ?thesis unfolding separate_alt by simp
qed

section \<open>Digits, order and inversion\<close>

lemma and_3: "x AND 3 = take_bit 2 (x :: 'a::len word)"
  by (simp add: take_bit_eq_mask mask_eq_exp_minus_1)

lemma and_15: "x AND 0xF = take_bit 4 (x :: 'a::len word)"
  by (simp add: take_bit_eq_mask mask_eq_exp_minus_1)

lemma digit_less: "d < (3 :: u8) \<Longrightarrow> d = take_bit 2 d"
  by (simp add: word_less_nat_alt word_unat_eq_iff unsigned_take_bit_eq take_bit_nat_eq_self)

lemma digit_cases: "d < (3 :: u8) \<Longrightarrow> d = 0 \<or> d = 1 \<or> d = 2"
  by (simp add: word_less_nat_alt word_unat_eq_iff) linarith

lemma digit_neq: "d < (3 :: u8) \<Longrightarrow> d \<noteq> 3"
  by auto

text \<open>Two digits name one of nine orders or inversions.\<close>

definition mix_ok :: "u8 \<Rightarrow> bool" where
  "mix_ok x \<longleftrightarrow> x \<in> {0, 1, 2, 4, 5, 6, 8, 9, 0xA}"

lemma mix_ok_digits:
  assumes "a < 3" "b < 3"
  shows "mix_ok (push_bit 2 a OR b)"
  using digit_cases [OF assms(1)] digit_cases [OF assms(2)] by (elim disjE) (simp_all add: mix_ok_def)

lemma mix_ok_less: "mix_ok x \<Longrightarrow> take_bit 4 x = x"
  by (auto simp: mix_ok_def)

lemma mix_order_back:
  assumes "mix_ok order"
  obtains q0 q1 q2 where "subghz_protocol_secplus_v2_mix_order_encode order (a, b, c) = Some (q0, q1, q2)"
    "subghz_protocol_secplus_v2_mix_order_decode order (q0, q1, q2) = Some (a, b, c)"
    "q0 \<in> {a, b, c}" "q1 \<in> {a, b, c}" "q2 \<in> {a, b, c}"
  using assms unfolding mix_ok_def
  by (auto simp: subghz_protocol_secplus_v2_mix_order_encode_def subghz_protocol_secplus_v2_mix_order_decode_def)

lemma not_and_mask: "NOT p AND mask n = take_bit n (NOT (p :: u32))"
  by (simp add: take_bit_eq_mask)

lemma mix_invet_back:
  assumes "mix_ok invert" "take_bit n p0 = p0" "take_bit n p1 = p1" "take_bit n p2 = p2"
  obtains r0 r1 r2 where "subghz_protocol_secplus_v2_mix_invet invert (p0, p1, p2) (mask n) = Some (r0, r1, r2)"
    "subghz_protocol_secplus_v2_mix_invet invert (take_bit n r0, take_bit n r1, take_bit n r2) (mask n) = Some (p0, p1, p2)"
proof -
  have t: "take_bit n (NOT (take_bit n (NOT p))) = take_bit n p" for p :: u32
    by (rule bit_word_eqI) (auto simp: bit_take_bit_iff bit_not_iff)
  show ?thesis
    using assms(1) that unfolding mix_ok_def
    by (elim insertE emptyE) (simp_all add: subghz_protocol_secplus_v2_mix_invet_def not_and_mask t assms(2-4))
qed

lemma head_digits:
  assumes "a < 3" "b < 3" "c < 3" "d < 3"
  shows "roll_digits (push_bit 4 (ucast (push_bit 2 a OR b)) OR ucast (push_bit 2 c OR d)) [6, 4, 2, 0] = Some [a, b, c, d]"
proof -
  let ?v = "push_bit 4 (ucast (push_bit 2 a OR b)) OR ucast (push_bit 2 c OR d) :: u32"
  have "ucast (drop_bit 6 ?v AND 3) = a" "ucast (drop_bit 4 ?v AND 3) = b" "ucast (drop_bit 2 ?v AND 3) = c" "ucast (drop_bit 0 ?v AND 3) = d"
    using digit_cases [OF assms(1)] digit_cases [OF assms(2)] digit_cases [OF assms(3)] digit_cases [OF assms(4)]
    by (elim disjE; simp)+
  then show ?thesis using assms by (simp add: roll_digits_def Let_def digit_neq)
qed

text \<open>\<open>pack\<close> is the number with the given two-bit digits, the most significant first.\<close>

fun pack :: "u8 list \<Rightarrow> u32" where
  "pack [] = 0"
| "pack (d # ds) = push_bit (2 * length ds) (ucast d) OR pack ds"

lemma bit_pack: "list_all (\<lambda>d. d < 3) ds \<Longrightarrow> bit (pack ds) k \<longleftrightarrow> k < 32 \<and> k < 2 * length ds \<and> bit (ds ! (length ds - 1 - k div 2)) (k mod 2)"
proof (induction ds)
  case (Cons d ds)
  have d: "bit d j \<Longrightarrow> j < 2" for j
    using digit_less [of d] Cons.prems bit_take_bit_iff [of 2 d j] by auto
  consider "k < 2 * length ds" | "k = 2 * length ds" | "k = 2 * length ds + 1" | "k \<ge> 2 * length ds + 2" by linarith
  then show ?case
  proof cases
    case 1
    then have "length ds - k div 2 = Suc (length ds - 1 - k div 2)" by simp
    then show ?thesis using 1 Cons by (simp add: bit_or_iff bit_push_bit_iff nth_Cons')
  next
    case 4
    then have "2 \<le> k - 2 * length ds" by linarith
    with d [of "k - 2 * length ds"] have "\<not> bit d (k - 2 * length ds)" by linarith
    then show ?thesis using 4 Cons by (auto simp: bit_or_iff bit_push_bit_iff bit_ucast_iff)
  qed (use Cons in \<open>auto simp: bit_or_iff bit_push_bit_iff bit_ucast_iff\<close>)
qed simp

lemma pack_digits:
  assumes "list_all (\<lambda>d. d < 3) ds" "length ds \<le> 16" "is = map (\<lambda>i. 2 * (length ds - 1 - i)) [0..<length ds]"
  shows "roll_digits (pack ds) is = Some ds"
proof -
  have "ucast (drop_bit (2 * (length ds - 1 - i)) (pack ds) AND 3) = ds ! i" if i: "i < length ds" for i
  proof -
    have "ds ! i < 3" using assms(1) i by (simp add: list_all_length)
    note d = digit_less [OF this]
    have "bit (pack ds) (2 * (length ds - 1 - i) + k) \<longleftrightarrow> bit (ds ! i) k" if "k < 2" for k
    proof -
      have "(2 * (length ds - 1 - i) + k) div 2 = length ds - 1 - i" "(2 * (length ds - 1 - i) + k) mod 2 = k"
        "length ds - 1 - (length ds - 1 - i) = i" "2 * (length ds - 1 - i) + k < 2 * length ds"
        using that i by simp_all
      moreover have "2 * (length ds - 1 - i) + k < 32" using assms(2) that i by simp
      ultimately show ?thesis by (simp only: bit_pack [OF assms(1)] simp_thms)
    qed
    then show ?thesis
      by (subst d, intro bit_word_eqI) (auto simp: and_3 bit_ucast_iff bit_take_bit_iff bit_drop_bit_eq)
  qed
  then have "map (\<lambda>i. ucast (drop_bit i (pack ds) AND 3)) is = ds"
    unfolding assms(3) map_map o_def by (intro nth_equalityI) simp_all
  then show ?thesis using assms(1) by (simp add: roll_digits_def list_all_iff digit_neq)
qed

lemma mixed_back:
  assumes "mix_ok order" "mix_ok invert" "3 * n \<le> 64" "n \<le> 32"
    "take_bit n p0 = p0" "take_bit n p1 = p1" "take_bit n p2 = p2"
  obtains q r where "subghz_protocol_secplus_v2_mix_order_encode order (p0, p1, p2) = Some q"
    "subghz_protocol_secplus_v2_mix_invet invert q (mask n) = Some r"
    "\<And>h. (\<And>k. k < 3 * n \<Longrightarrow> \<not> bit h k) \<Longrightarrow>
      subghz_protocol_secplus_v2_mix_invet invert (separate n (interleave n r OR h)) (mask n) = Some q"
    "subghz_protocol_secplus_v2_mix_order_decode order q = Some (p0, p1, p2)"
proof -
  obtain q0 q1 q2 where q: "subghz_protocol_secplus_v2_mix_order_encode order (p0, p1, p2) = Some (q0, q1, q2)"
    "subghz_protocol_secplus_v2_mix_order_decode order (q0, q1, q2) = Some (p0, p1, p2)"
    "q0 \<in> {p0, p1, p2}" "q1 \<in> {p0, p1, p2}" "q2 \<in> {p0, p1, p2}"
    by (rule mix_order_back [OF assms(1)])
  have t: "take_bit n q0 = q0" "take_bit n q1 = q1" "take_bit n q2 = q2" using q(3-5) assms(5-7) by auto
  obtain r0 r1 r2 where r: "subghz_protocol_secplus_v2_mix_invet invert (q0, q1, q2) (mask n) = Some (r0, r1, r2)"
    "subghz_protocol_secplus_v2_mix_invet invert (take_bit n r0, take_bit n r1, take_bit n r2) (mask n) = Some (q0, q1, q2)"
    by (rule mix_invet_back [OF assms(2) t])
  have "subghz_protocol_secplus_v2_mix_invet invert (separate n (interleave n (r0, r1, r2) OR h)) (mask n) = Some (q0, q1, q2)"
    if "\<And>k. k < 3 * n \<Longrightarrow> \<not> bit h k" for h
    using separate_interleave [OF assms(3,4) that] r(2) by simp
  then show ?thesis by (rule that [OF q(1) r(1) _ q(2)])
qed

lemma nibble_field:
  assumes "mix_ok x" "\<And>k. k < 4 \<Longrightarrow> bit v (i + k) \<longleftrightarrow> bit x k" "i + 4 \<le> 64"
  shows "ucast (drop_bit i (v :: u64)) AND 0xF = x"
proof -
  have "ucast (drop_bit i v) AND 0xF = take_bit 4 x"
    by (rule bit_word_eqI) (use assms(2,3) in \<open>auto simp: and_15 bit_take_bit_iff bit_ucast_iff bit_drop_bit_eq\<close>)
  then show ?thesis using mix_ok_less [OF assms(1)] by simp
qed

lemma mix_ok_bit: "mix_ok x \<Longrightarrow> bit x k \<Longrightarrow> k < 4"
  using mix_ok_less [of x] bit_take_bit_iff [of 4 x k] by simp

lemma nine_digits:
  assumes "length rs = 9" "list_all (\<lambda>d. d < (3 :: u8)) rs"
  obtains a b c d where "rs = [a, b, c, d] @ drop 4 rs" "rs ! 0 = a" "rs ! 1 = b" "rs ! 2 = c" "rs ! 3 = d"
    "a < 3" "b < 3" "c < 3" "d < 3" "list_all (\<lambda>d. d < 3) (drop 4 rs)" "length (drop 4 rs) = 5"
    "drop 4 rs = [rs ! 4, rs ! 5, rs ! 6, rs ! 7, rs ! 8]"
proof (rule that)
  from assms(1) show "rs = [rs ! 0, rs ! 1, rs ! 2, rs ! 3] @ drop 4 rs"
    by (intro nth_equalityI) (auto simp: nth_append nth_Cons' less_Suc_eq numeral_eq_Suc)
  show "drop 4 rs = [rs ! 4, rs ! 5, rs ! 6, rs ! 7, rs ! 8]"
    using assms(1) by (intro nth_equalityI) (auto simp: nth_Cons' less_Suc_eq numeral_eq_Suc)
  show "rs ! 0 < 3" "rs ! 1 < 3" "rs ! 2 < 3" "rs ! 3 < 3" using assms by (simp_all add: list_all_length)
  show "list_all (\<lambda>d. d < 3) (drop 4 rs)" using assms(2) by (auto simp: list_all_iff dest: in_set_dropD)
qed (use assms(1) in simp_all)

lemma decode_encode_half:
  assumes "length rs = 9" "list_all (\<lambda>d. d < 3) rs" "\<And>k. k < 38 \<Longrightarrow> \<not> bit h k"
  shows "subghz_protocol_secplus_v2_decode_half (h OR subghz_protocol_secplus_v2_encode_half rs fixed) = Some (rs, take_bit 20 fixed)"
proof -
  obtain a b c d where rs: "rs = [a, b, c, d] @ drop 4 rs" "rs ! 0 = a" "rs ! 1 = b" "rs ! 2 = c" "rs ! 3 = d"
    "a < 3" "b < 3" "c < 3" "d < 3" "list_all (\<lambda>d. d < 3) (drop 4 rs)" "length (drop 4 rs) = 5"
    "drop 4 rs = [rs ! 4, rs ! 5, rs ! 6, rs ! 7, rs ! 8]"
    by (rule nine_digits [OF assms(1,2)])
  let ?order = "push_bit 2 a OR b" and ?invert = "push_bit 2 c OR d"
  have ok: "mix_ok ?order" "mix_ok ?invert" using rs(6-9) by (simp_all add: mix_ok_digits)
  have p2: "push_bit 8 (ucast (rs ! 4)) OR push_bit 6 (ucast (rs ! 5)) OR push_bit 4 (ucast (rs ! 6)) OR
      push_bit 2 (ucast (rs ! 7)) OR ucast (rs ! 8) = pack (drop 4 rs)"
    by (subst rs(12)) simp
  have m: "(0x3FF :: u32) = mask 10" by (simp add: mask_eq_exp_minus_1)
  have t: "take_bit 10 (drop_bit 10 fixed AND mask 10) = drop_bit 10 fixed AND mask 10"
    "take_bit 10 (fixed AND mask 10) = fixed AND mask 10"
    by (simp_all flip: take_bit_eq_mask)
  have tp: "take_bit 10 (pack (drop 4 rs)) = pack (drop 4 rs)"
    by (rule bit_word_eqI) (use rs(11) in \<open>auto simp: bit_take_bit_iff bit_pack [OF rs(10)]\<close>)
  obtain q r where q: "subghz_protocol_secplus_v2_mix_order_encode ?order (drop_bit 10 fixed AND mask 10, fixed AND mask 10, pack (drop 4 rs)) = Some q"
    "subghz_protocol_secplus_v2_mix_invet ?invert q (mask 10) = Some r"
    "\<And>h. (\<And>k. k < 3 * 10 \<Longrightarrow> \<not> bit h k) \<Longrightarrow>
      subghz_protocol_secplus_v2_mix_invet ?invert (separate 10 (interleave 10 r OR h)) (mask 10) = Some q"
    "subghz_protocol_secplus_v2_mix_order_decode ?order q = Some (drop_bit 10 fixed AND mask 10, fixed AND mask 10, pack (drop 4 rs))"
    by (rule mixed_back [OF ok _ _ t tp]) simp_all
  let ?h = "h OR (push_bit 34 (ucast ?order) OR push_bit 30 (ucast ?invert))"
  have e: "h OR subghz_protocol_secplus_v2_encode_half rs fixed = interleave 10 r OR ?h"
    unfolding subghz_protocol_secplus_v2_encode_half_def Let_def rs(2-5) p2 m q(1,2) option.case by (simp add: or.left_commute)
  have il: "bit (interleave 10 r) k \<Longrightarrow> k < 30" for k
    by (cases r) (simp add: bit_interleave)
  note mb = mix_ok_bit [OF ok(1)] mix_ok_bit [OF ok(2)]
  have h: "\<not> bit ?h k" if "k < 3 * 10" for k
    using that assms(3) by (auto simp: bit_or_iff bit_push_bit_iff)
  have q3: "subghz_protocol_secplus_v2_mix_invet ?invert (separate 10 (interleave 10 r OR ?h)) (mask 10) = Some q"
    by (rule q(3), rule h)
  have o: "ucast (drop_bit 34 (interleave 10 r OR ?h)) AND 0xF = ?order"
  proof (rule nibble_field [OF ok(1)])
    fix k :: nat assume k: "k < 4"
    then have "\<not> bit (interleave 10 r) (34 + k)" "\<not> bit h (34 + k)" "\<not> bit ?invert (4 + k)"
      using il [of "34 + k"] assms(3) [of "34 + k"] mb(2) [of "4 + k"] by auto
    then show "bit (interleave 10 r OR ?h) (34 + k) \<longleftrightarrow> bit ?order k"
      using k by (simp add: bit_or_iff [of _ _ "34 + k"] bit_push_bit_iff [of _ _ "34 + k"] bit_ucast_iff)
  qed simp
  have i: "ucast (drop_bit 30 (interleave 10 r OR ?h)) AND 0xF = ?invert"
  proof (rule nibble_field [OF ok(2)])
    fix k :: nat assume k: "k < 4"
    then have "\<not> bit (interleave 10 r) (30 + k)" "\<not> bit h (30 + k)"
      using il [of "30 + k"] assms(3) [of "30 + k"] by auto
    then show "bit (interleave 10 r OR ?h) (30 + k) \<longleftrightarrow> bit ?invert k"
      using k by (simp add: bit_or_iff [of _ _ "30 + k"] bit_push_bit_iff [of _ _ "30 + k"] bit_ucast_iff)
  qed simp
  have tail: "roll_digits (pack (drop 4 rs)) [8, 6, 4, 2, 0] = Some (drop 4 rs)"
    by (rule pack_digits [OF rs(10)]) (simp_all only: rs(11), simp_all add: upt_rec)
  have fx: "push_bit 10 (drop_bit 10 fixed AND mask 10) OR (fixed AND mask 10) = take_bit 20 fixed"
    by (rule bit_word_eqI) (auto simp: bit_or_iff bit_push_bit_iff bit_take_bit_iff bit_drop_bit_eq simp flip: take_bit_eq_mask)
  show ?thesis
    unfolding e subghz_protocol_secplus_v2_decode_half_def Let_def m o i q3 option.case q(4) prod.case
      head_digits [OF rs(6-9)] tail fx rs(1) [symmetric] ..
qed

lemma take_bit_OR_push:
  assumes "take_bit 10 x = x" "take_bit 8 y = (y :: u32)"
  shows "take_bit 18 (push_bit 8 x OR y) = push_bit 8 x OR y"
    "drop_bit 8 (push_bit 8 x OR y) = x" "(push_bit 8 x OR y) AND mask 8 = y"
proof -
  have b: "bit x k \<Longrightarrow> k < 10" "bit y k \<Longrightarrow> k < 8" for k
    using assms bit_take_bit_iff [of 10 x k] bit_take_bit_iff [of 8 y k] by auto
  have "bit (push_bit 8 x OR y) k \<Longrightarrow> k < 18" for k
    by (auto simp: bit_or_iff bit_push_bit_iff dest: b)
  then show "take_bit 18 (push_bit 8 x OR y) = push_bit 8 x OR y"
    by (intro bit_word_eqI) (simp only: bit_take_bit_iff, blast)
  show "drop_bit 8 (push_bit 8 x OR y) = x"
    by (rule bit_word_eqI) (use b in \<open>fastforce simp: bit_or_iff bit_push_bit_iff bit_drop_bit_eq\<close>)
  show "(push_bit 8 x OR y) AND mask 8 = y"
    by (rule bit_word_eqI) (use b in \<open>auto simp: bit_or_iff bit_push_bit_iff bit_take_bit_iff simp flip: take_bit_eq_mask\<close>)
qed

lemma fields_86:
  fixes x y :: u8 and I :: u64
  assumes "mix_ok x" "mix_ok y" "\<And>k. bit I k \<Longrightarrow> k < 54" "h = push_bit 58 (ucast x) OR push_bit 54 (ucast y) OR push_bit 62 1"
  shows "k < 54 \<Longrightarrow> \<not> bit h k" "ucast (drop_bit 58 (I OR h)) AND 0xF = x" "ucast (drop_bit 54 (I OR h)) AND 0xF = y"
    "drop_bit 62 (I OR h) = 1"
proof -
  have b: "bit h k \<longleftrightarrow> 58 \<le> k \<and> k < 64 \<and> bit x (k - 58) \<or> 54 \<le> k \<and> k < 64 \<and> bit y (k - 54) \<or> k = 62" for k
    unfolding assms(4) bit_or_iff bit_push_bit_iff by (auto simp: bit_ucast_iff bit_1_iff)
  show "k < 54 \<Longrightarrow> \<not> bit h k" unfolding b by auto
  note mb = mix_ok_bit [OF assms(1)] mix_ok_bit [OF assms(2)]
  show "ucast (drop_bit 58 (I OR h)) AND 0xF = x"
    by (rule nibble_field [OF assms(1)]) (use assms(3) [of "58 + _"] mb(2) [of "4 + _"] in \<open>auto simp: bit_or_iff b\<close>)
  show "ucast (drop_bit 54 (I OR h)) AND 0xF = y"
    by (rule nibble_field [OF assms(2)]) (use assms(3) [of "54 + _"] in \<open>auto simp: bit_or_iff b\<close>)
  show "drop_bit 62 (I OR h) = 1"
    by (rule bit_word_eqI) (use assms(3) [of "62 + _"] mb(1) [of "4 + _"] mb(2) [of "8 + _"] in \<open>auto simp: bit_drop_bit_eq bit_or_iff b bit_1_iff\<close>)
qed

lemma decode_encode_half_86:
  assumes "length rs = 9" "list_all (\<lambda>d. d < 3) rs"
  shows "subghz_protocol_secplus_v2_decode_half_86 (subghz_protocol_secplus_v2_encode_half_86 rs fixed w) = Some (rs, take_bit 20 fixed, w)"
proof -
  obtain a b c d where rs: "rs = [a, b, c, d] @ drop 4 rs" "rs ! 0 = a" "rs ! 1 = b" "rs ! 2 = c" "rs ! 3 = d"
    "a < 3" "b < 3" "c < 3" "d < 3" "list_all (\<lambda>d. d < 3) (drop 4 rs)" "length (drop 4 rs) = 5"
    "drop 4 rs = [rs ! 4, rs ! 5, rs ! 6, rs ! 7, rs ! 8]"
    by (rule nine_digits [OF assms(1,2)])
  let ?order = "push_bit 2 a OR b" and ?invert = "push_bit 2 c OR d" and ?ds = "drop 4 rs @ [a, b, c, d]"
  let ?f1 = "drop_bit 10 fixed AND mask 10" and ?f0 = "fixed AND mask 10"
  let ?w1 = "ucast (drop_bit 8 w) AND mask 8 :: u32" and ?w0 = "ucast w AND mask 8 :: u32"
  have ok: "mix_ok ?order" "mix_ok ?invert" using rs(6-9) by (simp_all add: mix_ok_digits)
  have dsl: "length ?ds = 9" "list_all (\<lambda>d. d < 3) ?ds" using rs(6-11) by simp_all
  have p2: "push_bit 16 (ucast (rs ! 4)) OR push_bit 14 (ucast (rs ! 5)) OR push_bit 12 (ucast (rs ! 6)) OR
      push_bit 10 (ucast (rs ! 7)) OR push_bit 8 (ucast (rs ! 8)) OR
      push_bit 6 (ucast a) OR push_bit 4 (ucast b) OR push_bit 2 (ucast c) OR ucast d = pack ?ds"
    by (subst rs(12)) simp
  have m: "(0x3FF :: u32) = mask 10" "(0xFF :: u32) = mask 8" "(0x3FFFF :: u32) = mask 18" by (simp_all add: mask_eq_exp_minus_1)
  have f: "take_bit 10 ?f1 = ?f1" "take_bit 10 ?f0 = ?f0" "take_bit 8 ?w1 = ?w1" "take_bit 8 ?w0 = ?w0"
    by (simp_all flip: take_bit_eq_mask)
  note p0 = take_bit_OR_push [OF f(1,3)] and p1 = take_bit_OR_push [OF f(2,4)]
  have tp: "take_bit 18 (pack ?ds) = pack ?ds"
    by (rule bit_word_eqI) (use dsl(1) in \<open>auto simp: bit_take_bit_iff bit_pack [OF dsl(2)]\<close>)
  obtain q r where q: "subghz_protocol_secplus_v2_mix_order_encode ?order (push_bit 8 ?f1 OR ?w1, push_bit 8 ?f0 OR ?w0, pack ?ds) = Some q"
    "subghz_protocol_secplus_v2_mix_invet ?invert q (mask 18) = Some r"
    "\<And>h. (\<And>k. k < 3 * 18 \<Longrightarrow> \<not> bit h k) \<Longrightarrow>
      subghz_protocol_secplus_v2_mix_invet ?invert (separate 18 (interleave 18 r OR h)) (mask 18) = Some q"
    "subghz_protocol_secplus_v2_mix_order_decode ?order q = Some (push_bit 8 ?f1 OR ?w1, push_bit 8 ?f0 OR ?w0, pack ?ds)"
    by (rule mixed_back [OF ok _ _ p0(1) p1(1) tp]) simp_all
  let ?h = "push_bit 58 (ucast ?order) OR push_bit 54 (ucast ?invert) OR push_bit 62 1 :: u64"
  have e: "subghz_protocol_secplus_v2_encode_half_86 rs fixed w = interleave 18 r OR ?h"
    unfolding subghz_protocol_secplus_v2_encode_half_86_def Let_def rs(2-5) p2 m q(1,2) option.case ..
  have il: "bit (interleave 18 r) k \<Longrightarrow> k < 54" for k
    by (cases r) (simp add: bit_interleave)
  have o: "ucast (drop_bit 58 (interleave 18 r OR ?h)) AND 0xF = ?order"
    by (rule fields_86(2) [OF ok _ refl], rule il)
  have i: "ucast (drop_bit 54 (interleave 18 r OR ?h)) AND 0xF = ?invert"
    by (rule fields_86(3) [OF ok _ refl], rule il)
  have top: "drop_bit 62 (interleave 18 r OR ?h) = 1"
    by (rule fields_86(4) [OF ok _ refl], rule il)
  have q3: "subghz_protocol_secplus_v2_mix_invet ?invert (separate 18 (interleave 18 r OR ?h)) (mask 18) = Some q"
    by (rule q(3), rule fields_86(1) [OF ok _ refl], rule il) simp_all
  have tail: "roll_digits (pack ?ds) [16, 14, 12, 10, 8, 6, 4, 2, 0] = Some ?ds"
    by (rule pack_digits [OF dsl(2)]) (simp_all only: dsl(1), simp_all add: upt_rec)
  have k: "(0xFFC00 :: u32) = push_bit 10 (mask 10)" by (simp add: mask_eq_exp_minus_1 push_bit_eq_mult)
  have fx: "push_bit 2 (push_bit 8 ?f1 OR ?w1) AND 0xFFC00 OR ((?f0) AND mask 10) = take_bit 20 fixed"
    unfolding k
    by (rule bit_word_eqI)
      (auto simp: bit_or_iff bit_and_iff bit_push_bit_iff bit_take_bit_iff bit_drop_bit_eq bit_mask_iff bit_ucast_iff)
  have wx: "(ucast (push_bit 8 (push_bit 8 ?f1 OR ?w1) OR ?w0) :: u16) = w"
    by (rule bit_word_eqI)
      (auto simp: bit_or_iff bit_push_bit_iff bit_take_bit_iff bit_drop_bit_eq bit_ucast_iff simp flip: take_bit_eq_mask)
  have dup: "list_all (\<lambda>i. ([a, b, c, d] @ ?ds) ! i = ([a, b, c, d] @ ?ds) ! (i + 9)) [0..<4]"
    using rs(11) by (simp add: nth_append upt_rec nth_Cons')
  have nine: "take 9 ([a, b, c, d] @ ?ds) = rs"
    using rs(11) assms(1) rs(1) by (metis append.assoc append_eq_conv_conj)
  show ?thesis
    unfolding e subghz_protocol_secplus_v2_decode_half_86_def Let_def top m o i q3 option.case q(4) prod.case
      head_digits [OF rs(6-9)] tail p1(2,3) fx wx nine using dup by simp
qed

section \<open>Digits to the base 3\<close>

fun base3 :: "nat \<Rightarrow> u32 \<Rightarrow> u8 list" where
  "base3 0 x = []"
| "base3 (Suc n) x = base3 n (x div 3) @ [ucast (x mod 3)]"

lemma split_loop: "fst (fold (\<lambda>i (ds, r). (ucast (r mod 3) # ds, r div 3)) is (acc, x)) = base3 (length is) x @ acc"
  by (induction "is" arbitrary: acc x) simp_all

lemma split_rolling_base3: "split_rolling x = base3 18 x"
  unfolding split_rolling_def split_loop by simp

lemma mod_3_cases: "x mod 3 = 0 \<or> x mod 3 = 1 \<or> x mod 3 = (2 :: u32)"
proof -
  have "unat (x mod 3) < 3" by (simp add: unat_mod)
  then show ?thesis by (simp add: word_unat_eq_iff) linarith
qed

lemma base3_valid: "length (base3 n x) = n \<and> list_all (\<lambda>d. d < 3) (base3 n x)"
proof (induction n arbitrary: x)
  case (Suc n)
  have "ucast (x mod 3) < (3 :: u8)" using mod_3_cases [of x] by (elim disjE) (simp_all only:, simp_all)
  then show ?case using Suc by simp
qed simp

lemma join_base3: "unat x < 3 ^ n \<Longrightarrow> join_rolling (base3 n x) = x"
proof (induction n arbitrary: x)
  case 0
  then show ?case by (simp add: join_rolling_def unat_eq_0)
next
  case (Suc n)
  have "unat (x div 3) < 3 ^ n" using Suc.prems by (simp add: unat_div less_mult_imp_div_less mult.commute)
  then have "join_rolling (base3 n (x div 3)) = x div 3" by (rule Suc.IH)
  moreover have "ucast (ucast (x mod 3) :: u8) = (x mod 3 :: u32)" using mod_3_cases [of x] by (elim disjE) (simp_all only:, simp_all)
  ultimately show ?case by (simp add: join_rolling_def div_mult_mod_eq)
qed

lemma gather_deal:
  assumes "length ds = 18"
  shows "gather_digits (fst (deal_digits ds)) (snd (deal_digits ds)) = ds"
proof (rule nth_equalityI)
  show "length (gather_digits (fst (deal_digits ds)) (snd (deal_digits ds))) = length ds"
    by (simp add: gather_digits_def assms)
  fix i assume "i < length (gather_digits (fst (deal_digits ds)) (snd (deal_digits ds)))"
  then have "i \<in> set [0..<18]" by (simp add: gather_digits_def)
  then show "gather_digits (fst (deal_digits ds)) (snd (deal_digits ds)) ! i = ds ! i"
    by (simp add: upt_rec) (elim disjE; simp add: gather_digits_def deal_digits_def eval_nat_numeral)
qed

lemma deal_valid:
  assumes "length ds = 18" "list_all (\<lambda>d. d < (3 :: u8)) ds"
  shows "length (fst (deal_digits ds)) = 9" "length (snd (deal_digits ds)) = 9"
    "list_all (\<lambda>d. d < 3) (fst (deal_digits ds))" "list_all (\<lambda>d. d < 3) (snd (deal_digits ds))"
proof -
  have "ds ! i < 3" if "i < 18" for i using assms that by (simp add: list_all_length)
  then show "list_all (\<lambda>d. d < 3) (fst (deal_digits ds))" "list_all (\<lambda>d. d < 3) (snd (deal_digits ds))"
    by (simp_all add: deal_digits_def)
qed (simp_all add: deal_digits_def)

section \<open>The counter\<close>

definition counter_code :: "u32 \<Rightarrow> u32" where
  "counter_code c = ucast (subghz_protocol_blocks_reverse_key (ucast c) 28)"

lemma counter_code_less: "counter_code c < 0x10000000" "unat (counter_code c) < 3 ^ 18"
proof -
  have "bit (counter_code c) k \<Longrightarrow> k < 28" for k by (simp add: counter_code_def bit_ucast_iff bit_reverse_key)
  then have "take_bit 28 (counter_code c) = counter_code c" by (intro bit_word_eqI) (auto simp: bit_take_bit_iff)
  then have "take_bit 28 (unat (counter_code c)) = unat (counter_code c)" by (metis unsigned_take_bit_eq)
  then have "unat (counter_code c) < 2 ^ 28" by (metis take_bit_nat_less_exp)
  then show "counter_code c < 0x10000000" "unat (counter_code c) < 3 ^ 18" by (simp_all add: word_less_nat_alt)
qed

lemma counter_code_back: "ucast (subghz_protocol_blocks_reverse_key (ucast (counter_code c)) 28) = c AND 0xFFFFFFF"
proof -
  have m: "(0xFFFFFFF :: u32) = mask 28" by (simp add: mask_eq_exp_minus_1)
  show ?thesis unfolding m counter_code_def
    by (rule bit_word_eqI) (auto simp: bit_ucast_iff bit_reverse_key bit_and_iff bit_mask_iff)
qed

text \<open>The two packets of a message.\<close>

lemma rolling_packets:
  assumes "deal_digits (split_rolling (counter_code c)) = (r1, r2)"
  shows "length r1 = 9" "length r2 = 9" "list_all (\<lambda>d. d < 3) r1" "list_all (\<lambda>d. d < 3) r2"
    "join_rolling (gather_digits r1 r2) = counter_code c"
proof -
  have v: "length (split_rolling (counter_code c)) = 18" "list_all (\<lambda>d. d < 3) (split_rolling (counter_code c))"
    unfolding split_rolling_base3 using base3_valid by blast+
  show "length r1 = 9" "length r2 = 9" "list_all (\<lambda>d. d < 3) r1" "list_all (\<lambda>d. d < 3) r2"
    using deal_valid [OF v] assms by simp_all
  show "join_rolling (gather_digits r1 r2) = counter_code c"
    using gather_deal [OF v(1)] assms join_base3 [OF counter_code_less(2)] by (simp add: split_rolling_base3)
qed

lemma fixed_parts:
  "take_bit 20 (push_bit 12 (ucast (b :: u8)) OR drop_bit 20 s) = (push_bit 12 (ucast b) OR drop_bit 20 (s :: u32) :: u32)"
  "ucast (drop_bit 12 (push_bit 12 (ucast b) OR drop_bit 20 s :: u32)) = b"
  "push_bit 20 (push_bit 12 (ucast b) OR drop_bit 20 s :: u32) OR take_bit 20 (s AND 0xFFFFF) = s"
proof -
  have m: "(0xFFFFF :: u32) = mask 20" by (simp add: mask_eq_exp_minus_1)
  have b: "bit b k \<Longrightarrow> k < 8" "bit s k \<Longrightarrow> k < 32" for k using bit_imp_le_length [of b k] bit_imp_le_length [of s k] by simp_all
  show "take_bit 20 (push_bit 12 (ucast b) OR drop_bit 20 s) = (push_bit 12 (ucast b) OR drop_bit 20 s :: u32)"
    by (rule bit_word_eqI) (auto simp: bit_take_bit_iff bit_or_iff bit_push_bit_iff bit_ucast_iff bit_drop_bit_eq dest: b)
  show "ucast (drop_bit 12 (push_bit 12 (ucast b) OR drop_bit 20 s :: u32)) = b"
    by (rule bit_word_eqI) (auto simp: bit_or_iff bit_push_bit_iff bit_ucast_iff bit_drop_bit_eq dest: b)
  show "push_bit 20 (push_bit 12 (ucast b) OR drop_bit 20 s :: u32) OR take_bit 20 (s AND 0xFFFFF) = s"
    unfolding m
    by (rule bit_word_eqI) (auto simp: bit_take_bit_iff bit_or_iff bit_and_iff bit_mask_iff bit_push_bit_iff bit_ucast_iff bit_drop_bit_eq le_add_diff_inverse dest: b,
        metis le_add_diff_inverse not_less)
qed

section \<open>Messages come back\<close>

text \<open>
  C16 (roundtrip): a Security+ 2.0 remote message comes back: whatever the settings, the loaded signal and the step of the
  counter, decoding the two packets of the next message gives the serial number of the signal, the button that was
  sent and the 28 low bits of the new counter; no digit, order or inversion makes the encoder fail.
\<close>

theorem secplus_v2_roundtrip:
  "case subghz_protocol_secplus_v2_encode mult cb global inst of (inst', cb', global') \<Rightarrow>
   case subghz_protocol_secplus_v2_remote_controller cb0 (g\<lparr>data := data (generic inst')\<rparr>) (secplus_packet_1 inst') of (r, cb1) \<Rightarrow>
     serial r = serial (generic inst) \<and> serial (generic inst') = serial (generic inst) \<and>
     btn r = btn (generic inst') \<and> cnt r = cnt (generic inst') AND 0xFFFFFFF"
proof -
  let ?cb = "if subghz_custom_btn_get_original cb = 0 then subghz_custom_btn_set_original (btn (generic inst)) cb else cb"
  obtain ok b gl where b: "subghz_block_generic_global_button_override_get (subghz_protocol_secplus_v2_get_btn_code ?cb) global = (ok, b, gl)"
    by (metis surj_pair)
  obtain c gl' where c: "secplus_v2_next_cnt mult gl (cnt (generic inst)) = (c, gl')" by fastforce
  obtain r1 r2 where r: "deal_digits (split_rolling (counter_code c)) = (r1, r2)" by fastforce
  note p = rolling_packets [OF r]
  define f1 :: u32 where "f1 = push_bit 12 (ucast b) OR drop_bit 20 (serial (generic inst))"
  define f2 where "f2 = serial (generic inst) AND 0xFFFFF"
  define P1 where "P1 = 0x3C0000000000 OR 0x000000000000 OR subghz_protocol_secplus_v2_encode_half r1 f1"
  define P2 where "P2 = 0x3C0000000000 OR 0x010000000000 OR subghz_protocol_secplus_v2_encode_half r2 f2"
  have f: "take_bit 20 f1 = f1" "ucast (drop_bit 12 f1) = b" "push_bit 20 f1 OR take_bit 20 f2 = serial (generic inst)"
    unfolding f1_def f2_def by (rule fixed_parts)+
  have z: "\<not> bit x k" if "k < 38" "take_bit 38 x = 0" for k and x :: u64
    using bit_take_bit_iff [of 38 x k] that by simp
  have h: "\<not> bit (0x3C0000000000 OR 0x000000000000 :: u64) k" "\<not> bit (0x3C0000000000 OR 0x010000000000 :: u64) k" if "k < 38" for k
    by (rule z [OF that], simp)+
  have d: "subghz_protocol_secplus_v2_decode_half P1 = Some (r1, f1)"
    "subghz_protocol_secplus_v2_decode_half P2 = Some (r2, take_bit 20 f2)"
    using decode_encode_half [OF p(1,3) h(1), of f1] decode_encode_half [OF p(2,4) h(2), of f2] f(1)
    by (simp_all only: P1_def P2_def or.assoc)
  have e: "subghz_protocol_secplus_v2_encode mult cb global inst =
    (inst\<lparr>secplus_packet_1 := P1, generic := (generic inst)\<lparr>btn := b, cnt := c, data := P2\<rparr>\<rparr>, ?cb, gl')"
    unfolding subghz_protocol_secplus_v2_encode_def Let_def b c prod.case counter_code_def [symmetric] r P1_def P2_def f1_def f2_def ..
  have "\<not> 0x10000000 \<le> counter_code c" using counter_code_less(1) [of c] by (simp add: not_le)
  then show ?thesis
    unfolding e prod.case subghz_protocol_secplus_v2_remote_controller_def Let_def
    by (simp add: d p(5) f counter_code_back)
qed

lemma word_halves: "push_bit 16 (ucast (ucast (drop_bit 16 w) :: u16)) OR ucast (ucast w :: u16) = (w :: u32)"
  by (rule bit_word_eqI) (auto simp: bit_or_iff bit_push_bit_iff bit_ucast_iff bit_drop_bit_eq)

definition nibble :: "nat \<Rightarrow> u32 \<Rightarrow> u8" where
  "nibble i w = ucast (drop_bit i w AND 0x0F)"

lemma bit_nibble: "bit (nibble i w) k \<longleftrightarrow> k < 4 \<and> bit w (i + k)"
  by (auto simp: nibble_def and_15 bit_ucast_iff bit_take_bit_iff bit_drop_bit_eq dest: bit_imp_le_length)

text \<open>The check nibble cancels out.\<close>

lemma nibble_check_cancels:
  fixes b :: u8 and w :: u32
  defines "c \<equiv> nibble_check b (w AND NOT 0xF000)"
  shows "nibble_check b ((w AND NOT 0xF000) OR push_bit 12 (ucast (c AND 0x0F))) = 0"
    "((w AND NOT 0xF000) OR push_bit 12 (ucast (c AND 0x0F))) AND NOT 0xF000 = w AND NOT 0xF000"
proof -
  define v where "v = w AND NOT 0xF000"
  define u where "u = v OR push_bit 12 (ucast (c AND 0x0F))"
  have m: "(0xF000 :: u32) = push_bit 12 (mask 4)" by (simp add: mask_eq_exp_minus_1 push_bit_eq_mult)
  have bv: "bit v k \<longleftrightarrow> bit w k \<and> \<not> (12 \<le> k \<and> k < 16)" for k
    unfolding v_def m by (auto simp: bit_and_iff bit_not_iff bit_push_bit_iff bit_mask_iff dest: bit_imp_le_length)
  have bu: "bit u k \<longleftrightarrow> bit v k \<or> 12 \<le> k \<and> k < 16 \<and> bit c (k - 12)" for k
    unfolding u_def bit_or_iff by (auto simp: bit_push_bit_iff bit_ucast_iff and_15 bit_take_bit_iff)
  have check: "nibble_check b x = ((((((((b AND 0x0F) XOR nibble 0 x) XOR nibble 4 x) XOR nibble 8 x) XOR nibble 12 x) XOR nibble 16 x) XOR
      nibble 20 x) XOR nibble 24 x) XOR nibble 28 x" for x
    by (simp only: nibble_check_def nibble_def fold_simps)
  have c: "c = nibble_check b v" by (simp only: c_def v_def)
  have c4: "take_bit 4 c = c"
    unfolding c check
    by (rule bit_word_eqI) (auto simp: bit_xor_iff bit_take_bit_iff bit_nibble and_15)
  have same: "nibble i u = nibble i v" if "i + 4 \<le> 12 \<or> 16 \<le> i" for i
    by (rule bit_word_eqI) (use that in \<open>auto simp: bit_nibble bu\<close>)
  have mid: "nibble 12 u = c" "nibble 12 v = 0"
  proof -
    have "nibble 12 u = take_bit 4 c" by (rule bit_word_eqI) (auto simp: bit_nibble bu bv bit_take_bit_iff)
    then show "nibble 12 u = c" using c4 by simp
    show "nibble 12 v = 0" by (rule bit_word_eqI) (auto simp: bit_nibble bv)
  qed
  have "nibble_check b u = nibble_check b v XOR c"
    unfolding check same [of 0, simplified] same [of 4, simplified] same [of 8, simplified] same [of 16, simplified]
      same [of 20, simplified] same [of 24, simplified] same [of 28, simplified] mid
    by (simp add: xor.assoc xor.commute xor.left_commute)
  then have "nibble_check b u = 0" by (simp add: c)
  then show "nibble_check b ((w AND NOT 0xF000) OR push_bit 12 (ucast (c AND 0x0F))) = 0" by (simp only: u_def v_def)
  have "u AND NOT 0xF000 = v"
    unfolding m by (rule bit_word_eqI) (auto simp: bit_and_iff bit_not_iff bit_push_bit_iff bit_mask_iff bu bv)
  then show "((w AND NOT 0xF000) OR push_bit 12 (ucast (c AND 0x0F))) AND NOT 0xF000 = w AND NOT 0xF000" by (simp only: u_def v_def)
qed

text \<open>
  A Security+ 2.0 keypad message comes back: decoding the two packets gives the serial number,
  the button, the 28 low bits of the counter and the data word, in which the encoder has changed nothing but the check
  nibble, so that the check of the decoder passes.
\<close>

theorem secplus_v2_86_roundtrip:
  "let inst' = subghz_protocol_secplus_v2_encode_86 inst in
   (\<exists>r. subghz_protocol_secplus_v2_remote_controller_86 (g\<lparr>data := data (generic inst')\<rparr>) (secplus_packet_1 inst') =
       Some (r, secplus_data inst') \<and>
     serial r = serial (generic inst) \<and> btn r = btn (generic inst) \<and> cnt r = cnt (generic inst) AND 0xFFFFFFF) \<and>
   secplus_data inst' AND NOT 0xF000 = secplus_data inst AND NOT 0xF000"
proof -
  let ?b = "btn (generic inst)" and ?c = "cnt (generic inst)"
  obtain r1 r2 where r: "deal_digits (split_rolling (counter_code ?c)) = (r1, r2)" by fastforce
  note p = rolling_packets [OF r]
  define f1 :: u32 where "f1 = push_bit 12 (ucast ?b) OR drop_bit 20 (serial (generic inst))"
  define f2 where "f2 = serial (generic inst) AND 0xFFFFF"
  define w where "w = (secplus_data inst AND NOT 0xF000) OR
    push_bit 12 (ucast (nibble_check ?b (secplus_data inst AND NOT 0xF000) AND 0x0F))"
  have f: "take_bit 20 f1 = f1" "ucast (drop_bit 12 f1) = ?b" "push_bit 20 f1 OR take_bit 20 f2 = serial (generic inst)"
    unfolding f1_def f2_def by (rule fixed_parts)+
  have n: "nibble_check ?b w = 0" "w AND NOT 0xF000 = secplus_data inst AND NOT 0xF000"
    unfolding w_def by (rule nibble_check_cancels)+
  define P1 where "P1 = subghz_protocol_secplus_v2_encode_half_86 r1 f1 (ucast (drop_bit 16 w))"
  define P2 where "P2 = subghz_protocol_secplus_v2_encode_half_86 r2 f2 (ucast w)"
  have d: "subghz_protocol_secplus_v2_decode_half_86 P1 = Some (r1, f1, ucast (drop_bit 16 w))"
    "subghz_protocol_secplus_v2_decode_half_86 P2 = Some (r2, take_bit 20 f2, ucast w)"
    unfolding P1_def P2_def using decode_encode_half_86 p(1-4) f(1) by simp_all
  have e: "subghz_protocol_secplus_v2_encode_86 inst =
    inst\<lparr>secplus_data := w, secplus_packet_1 := P1, generic := (generic inst)\<lparr>data := P2\<rparr>\<rparr>"
    unfolding subghz_protocol_secplus_v2_encode_86_def Let_def counter_code_def [symmetric] r prod.case P1_def P2_def f1_def f2_def w_def ..
  have j: "subghz_protocol_secplus_v2_rolling_join r1 r2 = Some (?c AND 0xFFFFFFF)"
    using counter_code_less(1) [of ?c]
    by (simp only: subghz_protocol_secplus_v2_rolling_join_def Let_def p(5) counter_code_back not_less [symmetric] if_False simp_thms)
  show ?thesis
    unfolding e Let_def subghz_protocol_secplus_v2_remote_controller_86_def
    by (simp add: d j f word_halves [simplified] n(1) n(2) [simplified])
qed

lemma secplus_v2_pin_back:
  assumes "pin \<le> 9999"
  shows "subghz_protocol_secplus_v2_pin_extract (subghz_protocol_secplus_v2_pin_apply data_word pin) = pin"
proof -
  have "push_bit 8 (ucast (drop_bit 16 (subghz_protocol_secplus_v2_pin_apply data_word pin)) :: u16) OR
    drop_bit 8 (ucast (drop_bit 16 (subghz_protocol_secplus_v2_pin_apply data_word pin))) = pin"
  proof (rule bit_word_eqI)
    fix k assume k: "k < LENGTH(16)"
    have m: "(0xFFFF :: u32) = mask 16" by (simp add: mask_eq_exp_minus_1)
    show "bit (push_bit 8 (ucast (drop_bit 16 (subghz_protocol_secplus_v2_pin_apply data_word pin)) :: u16) OR
      drop_bit 8 (ucast (drop_bit 16 (subghz_protocol_secplus_v2_pin_apply data_word pin)))) k \<longleftrightarrow> bit pin k"
      using k unfolding subghz_protocol_secplus_v2_pin_apply_def Let_def m
      by (auto simp: bit_or_iff bit_push_bit_iff bit_drop_bit_eq bit_ucast_iff bit_and_iff bit_mask_iff dest: bit_imp_le_length)
  qed
  then show ?thesis using assms by (simp only: subghz_protocol_secplus_v2_pin_extract_def Let_def if_True)
qed

end
