(* ===== verification/Subghz_Rolling_Code.thy ===== *)
theory Subghz_Rolling_Code
  imports Subghz_Properties Toolbox_Manchester
begin

text \<open>
  What the rolling-code protocols share: bytes of a \<open>uint64_t\<close> in memory and in transmission order, the counter steps
  that several protocols have in the same words, and the contract of a decoder that hears a Manchester-coded line.
\<close>

section \<open>Words and bytes\<close>

definition le_bytes :: "u64 \<Rightarrow> u8 list" where
  "le_bytes d = map (\<lambda>i. ucast (drop_bit (8 * i) d)) [0..<8]"

definition le64 :: "u8 list \<Rightarrow> u64" where
  "le64 p = foldr (\<lambda>b d. push_bit 8 d OR ucast b) p 0"

definition be64_bytes :: "u64 \<Rightarrow> u8 list" where
  "be64_bytes d = map (\<lambda>i. ucast (drop_bit (56 - 8 * i) d)) [0..<8]"

definition be64 :: "u8 list \<Rightarrow> u64" where
  "be64 p = fold (\<lambda>b d. push_bit 8 d OR ucast b) p 0"

lemma length_le_bytes [simp]: "length (le_bytes d) = 8"
  by (simp add: le_bytes_def)

lemma nth_le_bytes: "i < 8 \<Longrightarrow> le_bytes d ! i = ucast (drop_bit (8 * i) d)"
  by (simp add: le_bytes_def)

lemma bit_le64: "bit (le64 p) k \<longleftrightarrow> k < 64 \<and> k div 8 < length p \<and> bit (p ! (k div 8)) (k mod 8)"
proof (induction p arbitrary: k)
  case Nil
  then show ?case by (simp add: le64_def)
next
  case (Cons b p)
  have "le64 (b # p) = push_bit 8 (le64 p) OR ucast b" by (simp add: le64_def)
  then show ?case
    by (cases "k < 8") (auto simp: Cons bit_or_iff bit_push_bit_iff bit_ucast_iff le_div_geq le_mod_geq dest: bit_imp_le_length)
qed

lemma le64_le_bytes [simp]: "le64 (le_bytes d) = d"
  by (rule bit_word_eqI) (simp add: bit_le64 nth_le_bytes bit_ucast_iff bit_drop_bit_eq less_mult_imp_div_less)

lemma nth_le_bytes_le64: "length p \<le> 8 \<Longrightarrow> i < length p \<Longrightarrow> le_bytes (le64 p) ! i = p ! i"
  by (rule bit_word_eqI) (simp add: nth_le_bytes bit_ucast_iff bit_drop_bit_eq bit_le64)

lemma le_bytes_le64 [simp]: "length p = 8 \<Longrightarrow> le_bytes (le64 p) = p"
  by (rule nth_equalityI) (simp_all add: nth_le_bytes_le64)

lemma be64_le64: "be64 p = le64 (rev p)"
  by (simp add: be64_def le64_def foldr_conv_fold)

lemma be64_bytes_rev: "be64_bytes d = rev (le_bytes d)"
  by (rule nth_equalityI) (auto simp: be64_bytes_def le_bytes_def rev_nth diff_mult_distrib2)

lemma length_be64_bytes [simp]: "length (be64_bytes d) = 8"
  by (simp add: be64_bytes_rev)

lemma be64_be64_bytes [simp]: "be64 (be64_bytes d) = d"
  by (simp add: be64_le64 be64_bytes_rev)

lemma be64_bytes_be64 [simp]: "length p = 8 \<Longrightarrow> be64_bytes (be64 p) = p"
  by (simp add: be64_le64 be64_bytes_rev)

lemma bit_be64: "bit (be64 p) k \<longleftrightarrow> k < 64 \<and> k div 8 < length p \<and> bit (p ! (length p - 1 - k div 8)) (k mod 8)"
  by (auto simp: be64_le64 bit_le64 rev_nth)

lemma eight_bytes: "length p = 8 \<Longrightarrow> p = [p ! 0, p ! 1, p ! 2, p ! 3, p ! 4, p ! 5, p ! 6, p ! 7]"
  by (auto simp: length_Suc_conv eval_nat_numeral)

section \<open>Counters\<close>

text \<open>
  The step of a 16-bit counter when the radio settings say by how much, and in the mode that jumps to the last values. The
  first takes the counter set by the user, if one is set; \<open>mult\<close> is the 32-bit pattern of the setting.
\<close>

definition standard_cnt_16 :: "u32 \<Rightarrow> SubGhzBlockGenericGlobal \<Rightarrow> u32 \<Rightarrow> u32 \<times> SubGhzBlockGenericGlobal" where
  "standard_cnt_16 mult global c =
     (let (ok, c', global') = subghz_block_generic_global_counter_override_get c global in
      (if \<not> ok then (if c' + mult > 0xFFFF then 0 else c' + mult) else c', global'))"

definition ofex_cnt_16 :: "u32 \<Rightarrow> u32" where
  "ofex_cnt_16 c = (if c + 0x1 > 0xFFFF then 0 else if c \<ge> 0x1 \<and> c \<noteq> 0xFFFE then 0xFFFE else c + 1)"

definition rolling_mult_ofex :: u32 where
  "rolling_mult_ofex = - 0x7FFFFFFF"

text \<open>The first branch of the counter modes: the counter, the global state and the flag \<open>bypass\<close>.\<close>

definition mode_0_cnt_16 ::
  "u32 \<Rightarrow> bool \<Rightarrow> SubGhzBlockGenericGlobal \<Rightarrow> u32 \<Rightarrow> u32 \<times> SubGhzBlockGenericGlobal \<times> bool" where
  "mode_0_cnt_16 mult bypass global c =
     (if mult \<noteq> rolling_mult_ofex \<or> bypass
      then (case standard_cnt_16 mult global c of (c, global) \<Rightarrow> (c, global, False))
      else (ofex_cnt_16 c, global, bypass))"

section \<open>A Manchester-coded channel\<close>

text \<open>Bits shifted into a \<open>uint64_t\<close>, the first one highest.\<close>

definition bits_word :: "bool list \<Rightarrow> u64" where
  "bits_word bs = foldl (\<lambda>d b. push_bit 1 d OR of_bool b) 0 bs"

definition key_bits :: "nat \<Rightarrow> u64 \<Rightarrow> bool list" where
  "key_bits n key = map (bit key) (rev [0..<n])"

lemma bits_word_Nil [simp]: "bits_word [] = 0"
  by (simp add: bits_word_def)

lemma bits_word_snoc: "bits_word (bs @ [b]) = push_bit 1 (bits_word bs) OR of_bool b"
  by (simp add: bits_word_def)

lemma bits_word_key: "bits_word (bs @ key_bits n key) = push_bit n (bits_word bs) OR take_bit n key"
proof (induction n arbitrary: bs)
  case (Suc n)
  have "bs @ key_bits (Suc n) key = (bs @ [bit key n]) @ key_bits n key" by (simp add: key_bits_def)
  then have "bits_word (bs @ key_bits (Suc n) key) = push_bit n (push_bit 1 (bits_word bs) OR of_bool (bit key n)) OR take_bit n key"
    using Suc by (simp only: bits_word_snoc)
  also have "\<dots> = push_bit (Suc n) (bits_word bs) OR take_bit (Suc n) key"
    by (rule bit_word_eqI) (auto simp: bit_or_iff bit_push_bit_iff bit_of_bool_iff bit_take_bit_iff less_Suc_eq)
  finally show ?case .
qed (simp add: key_bits_def)

lemma length_key_bits [simp]: "length (key_bits n key) = n"
  by (simp add: key_bits_def)

lemma key_bits_Suc: "key_bits (Suc n) key = bit key n # key_bits n key"
  by (simp add: key_bits_def)

text \<open>
  A decoder that hands each level to the Manchester state machine: \<open>ready f m bs s\<close> says that it has received the bits
  \<open>bs\<close> and that the machine is in state \<open>m\<close>; \<open>f\<close> carries what bits do not change. \<open>wave e\<close> is the level of the event \<open>e\<close>.
\<close>

definition received_bit :: "bool option \<Rightarrow> bool list" where
  "received_bit d = (case d of None \<Rightarrow> [] | Some b \<Rightarrow> [b])"

locale manchester_link =
  fixes feed :: "'s \<Rightarrow> bool \<Rightarrow> u32 \<Rightarrow> 's"
    and wave :: "nat \<Rightarrow> LevelDuration"
    and ready :: "'f \<Rightarrow> nat \<Rightarrow> bool list \<Rightarrow> 's \<Rightarrow> bool"
  assumes one_event: "ready f m bs s \<Longrightarrow> e \<in> {0, 2, 4, 6} \<Longrightarrow>
    ready f (snd (manchester_advance m e)) (bs @ received_bit (fst (manchester_advance m e)))
      (feed s (level_duration_get_level (wave e)) (level_duration_get_duration (wave e)))"
begin

lemma events:
  "ready f m bs s \<Longrightarrow> set es \<subseteq> {0, 2, 4, 6} \<Longrightarrow>
     ready f (snd (manchester_receive m es)) (bs @ fst (manchester_receive m es)) (feed_upload feed (map wave es) s)"
proof (induction es arbitrary: m bs s)
  case (Cons e es)
  from one_event [OF Cons.prems(1), of e] Cons.prems(2) Cons.IH show ?case
    by (fastforce simp: Let_def case_prod_beta received_bit_def split: option.splits)
qed simp

lemma line_wave: "ready f (mid_state b) bs s \<Longrightarrow>
    ready f (mid_state (last (b # cs))) (bs @ cs) (feed_upload feed (map wave (line_events b cs)) s)"
proof -
  assume r: "ready f (mid_state b) bs s"
  have "set (line_events b cs) \<subseteq> {0, 2, 4, 6}"
    by (induction cs arbitrary: b) (auto simp: bit_events_def event_of_def manchester_numbers)
  from events [OF r this] show ?thesis by (simp add: receive_line)
qed

end

end
