(* ===== verification/Subghz_Came_Atomo.thy ===== *)
theory Subghz_Came_Atomo
  imports Subghz_Rolling_Code
begin

text \<open>
  CAME Atomo (\<^verbatim>\<open>lib/subghz/protocols/came_atomo.c\<close>): a stream cipher keyed by a byte of the message, a message of a
  press counter, a rolling counter, a serial number and a button, eight Manchester-coded parcels per transmission and
  the decoder that receives them.
\<close>

section \<open>Cipher\<close>

definition atomo_next :: "u8 \<Rightarrow> u8" where
  "atomo_next tmpB = (if tmpB AND 0x18 \<noteq> 0 \<and> (tmpB div 8) AND 3 \<noteq> 3 then push_bit 1 tmpB OR 1 else push_bit 1 tmpB)"

definition atomo_bit :: "nat \<Rightarrow> u8 \<times> u8 list \<Rightarrow> u8 \<times> u8 list" where
  "atomo_bit bitCnt s =
     (case s of (tmpB, buff) \<Rightarrow>
        let tmpB = atomo_next tmpB in
        (tmpB, if tmpB AND 0x80 \<noteq> 0
               then buff[bitCnt div 8 := buff ! (bitCnt div 8) XOR drop_bit (bitCnt mod 8) 0x80] else buff))"

definition atomo_encrypt :: "u8 list \<Rightarrow> u8 list" where
  "atomo_encrypt buff =
     (let (_, buff) = fold atomo_bit [8..<59] ((NOT (buff ! 0) + 1) AND 0x7F, buff) in buff[0 := (buff ! 0 XOR 5) AND 0x7F])"

definition atomo_decrypt :: "u8 list \<Rightarrow> u8 list" where
  "atomo_decrypt buff =
     (let buff = buff[0 := (buff ! 0 XOR 5) AND 0x7F] in snd (fold atomo_bit [8..<59] (- (buff ! 0) AND 0x7F, buff)))"

section \<open>Messages\<close>

text \<open>The eight bytes before encryption, and the key made of the eight after it.\<close>

definition came_atomo_pack :: "u8 \<Rightarrow> u32 \<Rightarrow> u64 \<Rightarrow> u8 \<Rightarrow> u8 list" where
  "came_atomo_pack press c d2 code =
     [press, ucast (drop_bit 8 c), ucast (c AND 0xFF), ucast (drop_bit 32 d2 AND 0xFF),
      ucast (drop_bit 24 d2 AND 0xFF), ucast (drop_bit 16 d2 AND 0xFF), ucast (drop_bit 8 d2 AND 0xFF), code]"

definition came_atomo_key :: "u8 list \<Rightarrow> u64" where
  "came_atomo_key pack = drop_bit 4 (be64 (atomo_encrypt pack) XOR 0xFFFFFFFFFFFFFFFF) AND 0xFFFFFFFFFFFFFFF"

definition subghz_protocol_came_atomo_create_data :: "u32 \<Rightarrow> u16 \<Rightarrow> SubGhzBlockGeneric \<Rightarrow> SubGhzBlockGeneric" where
  "subghz_protocol_came_atomo_create_data new_serial counter g =
     (let g = g\<lparr>btn := 0x1, serial := new_serial, cnt := ucast counter, cnt_2 := 0x7e, data_count_bit := 62,
            data_2 := push_bit 56 0x7e OR push_bit 40 (ucast counter) OR push_bit 8 (ucast new_serial)\<rparr> in
      g\<lparr>data := came_atomo_key (came_atomo_pack (cnt_2 g) (cnt g) (data_2 g) (ucast (data_2 g AND 0xFF)))\<rparr>)"

text \<open>The result is the inverted key, the message and the custom button state.\<close>

definition subghz_protocol_came_atomo_remote_controller ::
  "SubGhzCustomBtn \<Rightarrow> SubGhzBlockGeneric \<Rightarrow> u64 \<times> SubGhzBlockGeneric \<times> SubGhzCustomBtn" where
  "subghz_protocol_came_atomo_remote_controller cb g =
     (let d = push_bit 4 (data g XOR 0xFFFFFFFFFFFFFFFF);
          pack = atomo_decrypt (be64_bytes d);
          g = g\<lparr>cnt_2 := pack ! 0, cnt := push_bit 8 (ucast (pack ! 1)) OR ucast (pack ! 2),
            serial := push_bit 24 (ucast (pack ! 3)) OR push_bit 16 (ucast (pack ! 4)) OR push_bit 8 (ucast (pack ! 5)) OR ucast (pack ! 6)\<rparr>;
          btn_decode = drop_bit 4 (pack ! 7);
          g = (if btn_decode = 0x0 then g\<lparr>btn := 0x1\<rparr> else if btn_decode = 0x2 then g\<lparr>btn := 0x2\<rparr>
               else if btn_decode = 0x4 then g\<lparr>btn := 0x3\<rparr> else if btn_decode = 0x6 then g\<lparr>btn := 0x4\<rparr>
               else if btn_decode = 0x0C then g\<lparr>btn := 0x5\<rparr> else if btn_decode = 0x0E then g\<lparr>btn := 0x6\<rparr> else g);
          g = g\<lparr>data_2 := be64 pack\<rparr>;
          cb = (if subghz_custom_btn_get_original cb = 0 then subghz_custom_btn_set_original (btn g) cb else cb)
      in (d, g, subghz_custom_btn_set_max 4 cb))"

definition subghz_protocol_came_atomo_get_btn_code :: "SubGhzCustomBtn \<Rightarrow> u8" where
  "subghz_protocol_came_atomo_get_btn_code cb =
     (let i = subghz_custom_btn_get cb; b = subghz_custom_btn_get_original cb; known = b \<in> {0x1, 0x2, 0x3, 0x4, 0x5, 0x6} in
      if i = SUBGHZ_CUSTOM_BTN_OK \<and> b \<noteq> 0 then b
      else if i = SUBGHZ_CUSTOM_BTN_UP then (if b = 0x1 then 0x2 else if known then 0x1 else b)
      else if i = SUBGHZ_CUSTOM_BTN_DOWN then (if b = 0x1 \<or> b = 0x2 then 0x3 else if known then 0x2 else b)
      else if i = SUBGHZ_CUSTOM_BTN_LEFT then (if b = 0x4 then 0x3 else if known then 0x4 else b)
      else if i = SUBGHZ_CUSTOM_BTN_RIGHT then (if b = 0x5 then 0x6 else if known then 0x5 else b)
      else b)"

text \<open>The button as it is sent.\<close>

definition came_atomo_btn_code :: "u8 \<Rightarrow> u8" where
  "came_atomo_btn_code b =
     (if b = 0x1 then 0x0 else if b = 0x2 then 0x2 else if b = 0x3 then 0x4 else if b = 0x4 then 0x6
      else if b = 0x5 then 0x0C else if b = 0x6 then 0x0E else b)"

text \<open>The counter modes; the result is the counter, the global state and the flag \<open>bypass\<close>.\<close>

definition came_atomo_next_cnt ::
  "u8 \<Rightarrow> u32 \<Rightarrow> bool \<Rightarrow> SubGhzBlockGenericGlobal \<Rightarrow> u32 \<Rightarrow> u32 \<times> SubGhzBlockGenericGlobal \<times> bool" where
  "came_atomo_next_cnt mode mult bypass global c =
     (let bypass = (bypass \<or> cnt_need_override global \<or> btn_need_override global) in
      if mode = 0 \<or> bypass then mode_0_cnt_16 mult bypass global c
      else if mode = 1 then (ofex_cnt_16 c, global, bypass)
      else if mode = 2 then
        (if c \<noteq> 0x807B \<and> c \<noteq> 0x807C \<and> c \<noteq> 0x007B then 0x807B else if c = 0x807C then 0x007B else c + 1, global, bypass)
      else (c, global, bypass))"

section \<open>Encoder\<close>

definition subghz_protocol_came_atomo_const :: SubGhzBlockConst where
  "subghz_protocol_came_atomo_const = \<lparr>te_long = 1200, te_short = 600, te_delta = 250, min_count_bit_for_found = 62\<rparr>"

definition subghz_protocol_encoder_came_atomo_alloc :: SubGhzProtocolEncoderCommonGeneric where
  "subghz_protocol_encoder_came_atomo_alloc = subghz_protocol_encoder_common_alloc ''CAME Atomo'' 1 1024"

definition subghz_protocol_encoder_came_atomo_add_duration_to_upload :: "nat \<Rightarrow> LevelDuration" where
  "subghz_protocol_encoder_came_atomo_add_duration_to_upload result =
     (let c = subghz_protocol_came_atomo_const in
      if result = ManchesterEncoderResultShortLow then level_duration_make False (short_us c)
      else if result = ManchesterEncoderResultLongLow then level_duration_make False (long_us c)
      else if result = ManchesterEncoderResultLongHigh then level_duration_make True (long_us c)
      else if result = ManchesterEncoderResultShortHigh then level_duration_make True (short_us c)
      else level_duration_make False 0)"

text \<open>
  One parcel: its lead-in, the inverted bits of the key, the last half-bit if it is high, and the pause. The state
  of the Manchester encoder goes from parcel to parcel.
\<close>

definition came_atomo_parcel ::
  "nat \<Rightarrow> u64 \<Rightarrow> ManchesterEncoderState \<Rightarrow> (LevelDuration list \<times> ManchesterEncoderState) checked" where
  "came_atomo_parcel n key enc_state =
     (let c = subghz_protocol_came_atomo_const in
      checked_bind (manchester_send enc_state (map (\<lambda>i. bit_read key i = 0) (rev [0..<n]))) (\<lambda>(rs, enc_state).
        let (enc_state, result) = manchester_encoder_finish enc_state;
            fin = subghz_protocol_encoder_came_atomo_add_duration_to_upload result in
        Inr ([level_duration_make True (long_us c), level_duration_make False (short_us c)] @
             map subghz_protocol_encoder_came_atomo_add_duration_to_upload rs @
             (if level_duration_get_level fin then [fin] else []) @
             [level_duration_make False (delta_us c * 272)], enc_state)))"

fun came_atomo_parcels ::
  "nat \<Rightarrow> u64 list \<Rightarrow> ManchesterEncoderState \<Rightarrow> (LevelDuration list \<times> ManchesterEncoderState) checked" where
  "came_atomo_parcels n [] st = Inr ([], st)"
| "came_atomo_parcels n (key # keys) st =
     checked_bind (came_atomo_parcel n key st) (\<lambda>(ws, st).
     checked_bind (came_atomo_parcels n keys st) (\<lambda>(vs, st). Inr (ws @ vs, st)))"

definition came_atomo_presses :: "u8 list" where
  "came_atomo_presses = [10, 30, 125, 126, 127, 0, 1, 3]"

text \<open>
  The local state of the Manchester encoder is not initialised but for its step, so it is an argument. The button is
  the last argument of the source's function.
\<close>

definition subghz_protocol_encoder_came_atomo_get_upload ::
  "u8 \<Rightarrow> u32 \<Rightarrow> ManchesterEncoderState \<Rightarrow> bool \<times> SubGhzCustomBtn \<times> SubGhzBlockGenericGlobal \<Rightarrow>
   SubGhzProtocolEncoderCommonGeneric \<Rightarrow> u8 \<Rightarrow>
   (SubGhzProtocolEncoderCommonGeneric \<times> bool \<times> SubGhzCustomBtn \<times> SubGhzBlockGenericGlobal) checked" where
  "subghz_protocol_encoder_came_atomo_get_upload mode mult st0 env inst b =
     (case env of (bypass, cb, global) \<Rightarrow>
        let c = subghz_protocol_came_atomo_const; g = enc_generic inst;
            (c', global, bypass) = came_atomo_next_cnt mode mult bypass global (cnt g);
            g = g\<lparr>cnt := c'\<rparr>;
            cb = (if subghz_custom_btn_get_original cb = 0 then subghz_custom_btn_set_original b cb else cb);
            (_, b, global) = subghz_block_generic_global_button_override_get
               (came_atomo_btn_code (subghz_protocol_came_atomo_get_btn_code cb)) global;
            pack = (\<lambda>press. came_atomo_pack press (cnt g) (data_2 g) (push_bit 4 b)) in
        checked_bind (came_atomo_parcels (unat (ucast (data_count_bit g - 2) :: u8))
            (map (\<lambda>press. came_atomo_key (pack press)) came_atomo_presses) (manchester_encoder_reset st0)) (\<lambda>(ws, _).
          let ws = [level_duration_make True (long_us c * 15), level_duration_make False (long_us c * 60)] @ ws;
              g = g\<lparr>cnt_2 := cnt_2 g + 1\<rparr> in
          Inr (inst\<lparr>encoder := (store_upload ws (encoder inst))\<lparr>size_upload := length ws\<rparr>,
                    enc_generic := g\<lparr>data := came_atomo_key (pack (cnt_2 g))\<rparr>\<rparr>,
               bypass, cb, global)))"

section \<open>Decoder\<close>

record SubGhzProtocolDecoderCameAtomo = SubGhzProtocolDecoderCommon +
  manchester_saved_state :: nat

abbreviation CameAtomoDecoderStepReset :: u32 where "CameAtomoDecoderStepReset \<equiv> 0"
abbreviation CameAtomoDecoderStepDecoderData :: u32 where "CameAtomoDecoderStepDecoderData \<equiv> 1"

definition subghz_protocol_decoder_came_atomo_alloc :: SubGhzProtocolDecoderCameAtomo where
  "subghz_protocol_decoder_came_atomo_alloc =
     SubGhzProtocolDecoderCommon.extend (subghz_protocol_decoder_common_alloc ''CAME Atomo'') \<lparr>manchester_saved_state = 0\<rparr>"

definition subghz_protocol_decoder_came_atomo_reset :: "SubGhzProtocolDecoderCameAtomo \<Rightarrow> SubGhzProtocolDecoderCameAtomo" where
  "subghz_protocol_decoder_came_atomo_reset i =
     (step_to CameAtomoDecoderStepReset i)
       \<lparr>manchester_saved_state := snd (manchester_advance (manchester_saved_state i) ManchesterEventReset)\<rparr>"

text \<open>The start of a frame: no data, one bit counted, and the machine is where the first half-bit expects it.\<close>

definition came_atomo_start :: "SubGhzProtocolDecoderCameAtomo \<Rightarrow> SubGhzProtocolDecoderCameAtomo" where
  "came_atomo_start i =
     (decoder_update (\<lambda>d. d\<lparr>decode_data := 0, decode_count_bit := 1\<rparr>) i)
       \<lparr>manchester_saved_state := snd (manchester_advance
          (snd (manchester_advance (manchester_saved_state i) ManchesterEventReset)) ManchesterEventShortLow)\<rparr>"

definition came_atomo_event :: "nat \<Rightarrow> SubGhzProtocolDecoderCameAtomo \<Rightarrow> SubGhzProtocolDecoderCameAtomo" where
  "came_atomo_event event i =
     (if event \<noteq> ManchesterEventReset then
        (case manchester_advance (manchester_saved_state i) event of (d, m) \<Rightarrow>
           let i = i\<lparr>manchester_saved_state := m\<rparr> in
           (case d of None \<Rightarrow> i
            | Some b \<Rightarrow> decoder_update (\<lambda>d. d\<lparr>decode_data := push_bit 1 (decode_data d) OR of_bool (\<not> b),
                decode_count_bit := decode_count_bit d + 1\<rparr>) i))
      else i)"

definition subghz_protocol_decoder_came_atomo_feed ::
  "SubGhzProtocolDecoderCameAtomo \<Rightarrow> bool \<Rightarrow> u32 \<Rightarrow> SubGhzProtocolDecoderCameAtomo" where
  "subghz_protocol_decoder_came_atomo_feed i level duration =
     (let c = subghz_protocol_came_atomo_const; st = parser_step (decoder i) in
      if st = CameAtomoDecoderStepReset then
        (if \<not> level \<and> (DURATION_DIFF duration (long_us c * 10) < delta_us c * 20 \<or>
              DURATION_DIFF duration (long_us c * 16) < delta_us c * 10 \<or>
              DURATION_DIFF duration (long_us c * 60) < delta_us c * 40)
         then came_atomo_start (step_to CameAtomoDecoderStepDecoderData i) else i)
      else if st = CameAtomoDecoderStepDecoderData then
        (if \<not> level then
           (if DURATION_DIFF duration (short_us c) < delta_us c then came_atomo_event ManchesterEventShortLow i
            else if DURATION_DIFF duration (long_us c) < delta_us c then came_atomo_event ManchesterEventLongLow i
            else if long_us c * 2 + delta_us c \<le> duration then
              came_atomo_start
                (if decode_count_bit (decoder i) = min_count_bit_for_found c then invoke_callback (take_key i) else i)
            else step_to CameAtomoDecoderStepReset i)
         else
           (if DURATION_DIFF duration (short_us c) < delta_us c then came_atomo_event ManchesterEventShortHigh i
            else if DURATION_DIFF duration (long_us c) < delta_us c then came_atomo_event ManchesterEventLongHigh i
            else step_to CameAtomoDecoderStepReset i))
      else i)"

definition subghz_protocol_decoder_came_atomo_get_hash_data ::
  "SubGhzCustomBtn \<Rightarrow> SubGhzProtocolDecoderCameAtomo \<Rightarrow> u8 \<times> SubGhzProtocolDecoderCameAtomo \<times> SubGhzCustomBtn" where
  "subghz_protocol_decoder_came_atomo_get_hash_data cb i =
     (case subghz_protocol_came_atomo_remote_controller cb (generic i) of (_, g, cb) \<Rightarrow>
        let i = i\<lparr>generic := g\<rparr> in (subghz_protocol_decoder_common_get_hash_data_serial i, i, cb))"

section \<open>The cipher comes back\<close>

definition atomo_flip :: "nat \<Rightarrow> u8 \<Rightarrow> u8 list \<Rightarrow> u8 list" where
  "atomo_flip i t b = (if t AND 0x80 \<noteq> 0 then b[i div 8 := b ! (i div 8) XOR drop_bit (i mod 8) 0x80] else b)"

lemma atomo_bit_flip: "atomo_bit i (t, b) = (atomo_next t, atomo_flip i (atomo_next t) b)"
  by (simp add: atomo_bit_def atomo_flip_def Let_def)

lemma length_flip [simp]: "length (atomo_flip i t b) = length b"
  by (simp add: atomo_flip_def)

lemma flip_flip [simp]: "i div 8 < length b \<Longrightarrow> atomo_flip i t (atomo_flip i t b) = b"
  by (simp add: atomo_flip_def xor.assoc)

lemma flip_commute:
  "i div 8 < length b \<Longrightarrow> j div 8 < length b \<Longrightarrow> atomo_flip i t (atomo_flip j u b) = atomo_flip j u (atomo_flip i t b)"
  by (cases "i div 8 = j div 8") (simp_all add: atomo_flip_def ac_simps list_update_swap)

lemma length_stream [simp]: "length (snd (fold atomo_bit is (t, b))) = length b"
  by (induction "is" arbitrary: t b) (simp_all add: atomo_bit_flip)

lemma stream_flip:
  "\<forall>i\<in>set is. i div 8 < length b \<Longrightarrow> j div 8 < length b \<Longrightarrow>
     snd (fold atomo_bit is (t, atomo_flip j u b)) = atomo_flip j u (snd (fold atomo_bit is (t, b)))"
proof (induction "is" arbitrary: t b)
  case (Cons i "is")
  then show ?case using flip_commute [of i b j "atomo_next t" u] by (simp add: atomo_bit_flip)
qed simp

lemma stream_twice: "\<forall>i\<in>set is. i div 8 < length b \<Longrightarrow> snd (fold atomo_bit is (t, snd (fold atomo_bit is (t, b)))) = b"
  by (induction "is" arbitrary: t b) (simp_all add: atomo_bit_flip stream_flip)

lemma stream_first: "\<forall>i\<in>set is. 8 \<le> i \<Longrightarrow> snd (fold atomo_bit is (t, b)) ! 0 = b ! 0"
  by (induction "is" arbitrary: t b) (simp_all add: atomo_bit_flip, auto simp: atomo_flip_def)

lemma stream_last: "\<forall>i\<in>set is. i < 59 \<Longrightarrow> snd (fold atomo_bit is (t, b)) ! 7 AND 0xF = b ! 7 AND 0xF"
proof (induction "is" arbitrary: t b)
  case (Cons i "is")
  have "drop_bit (i mod 8) 0x80 AND 0xF = (0 :: u8)" if "i div 8 = 7"
  proof -
    have "i mod 8 < 3" using Cons.prems that div_mult_mod_eq [of i 8] by (simp del: div_mult_mod_eq)
    then consider "i mod 8 = 0" | "i mod 8 = 1" | "i mod 8 = 2" by linarith
    then show ?thesis by cases simp_all
  qed
  then have "atomo_flip i u b ! 7 AND 0xF = b ! 7 AND 0xF" for u
    by (cases "i div 8 = 7"; cases "7 < length b") (auto simp: atomo_flip_def bit.conj_xor_distrib2 list_update_beyond not_less)
  then show ?case using Cons by (simp add: atomo_bit_flip)
qed simp

definition atomo_stream :: "u8 \<Rightarrow> u8 list \<Rightarrow> u8 list" where
  "atomo_stream t b = snd (fold atomo_bit [8..<59] (t, b))"

lemma atomo_stream_simps [simp]:
  "length (atomo_stream t b) = length b"
  "atomo_stream t b ! 0 = b ! 0"
  "atomo_stream t b ! 7 AND 0xF = b ! 7 AND 0xF"
  unfolding atomo_stream_def by (rule length_stream, rule stream_first, simp, rule stream_last, simp)

lemma stream_set_first: "\<forall>i\<in>set is. 8 \<le> i \<Longrightarrow> snd (fold atomo_bit is (t, xs[0 := x])) = (snd (fold atomo_bit is (t, xs)))[0 := x]"
proof (induction "is" arbitrary: t xs)
  case (Cons i "is")
  then have "atomo_flip i u (xs[0 := x]) = (atomo_flip i u xs)[0 := x]" for u
    by (auto simp: atomo_flip_def list_update_swap nth_list_update)
  then show ?case using Cons by (simp add: atomo_bit_flip)
qed simp

lemma atomo_stream_set: "atomo_stream t (b[0 := x]) = (atomo_stream t b)[0 := x]"
  unfolding atomo_stream_def by (rule stream_set_first) simp

lemma atomo_stream_twice: "length b = 8 \<Longrightarrow> atomo_stream t (atomo_stream t b) = b"
  unfolding atomo_stream_def by (rule stream_twice) (auto simp del: upt_rec_numeral)

lemma encrypt_stream: "atomo_encrypt b = (atomo_stream (- (b ! 0) AND 0x7F) b)[0 := (b ! 0 XOR 5) AND 0x7F]"
proof -
  have "atomo_encrypt b = (atomo_stream (- (b ! 0) AND 0x7F) b)[0 := (atomo_stream (- (b ! 0) AND 0x7F) b ! 0 XOR 5) AND 0x7F]"
    unfolding atomo_encrypt_def atomo_stream_def Let_def case_prod_beta minus_eq_not_plus_1 ..
  then show ?thesis by simp
qed

lemma decrypt_stream:
  "atomo_decrypt b = atomo_stream (- (b[0 := (b ! 0 XOR 5) AND 0x7F] ! 0) AND 0x7F) (b[0 := (b ! 0 XOR 5) AND 0x7F])"
  unfolding atomo_decrypt_def atomo_stream_def Let_def ..

lemma low7: "x AND 0x7F = take_bit 7 (x :: u8)"
  by (simp add: take_bit_eq_mask mask_eq_exp_minus_1)

lemma take_bit_minus_word: "take_bit 7 (- take_bit 7 x) = take_bit 7 (- x :: u8)"
proof (rule word_uint_eqI)
  have "(- (uint x mod 128)) mod 256 mod 128 = (- uint x) mod 256 mod 128"
    by (simp add: mod_mod_cancel mod_minus_eq)
  then show "uint (take_bit 7 (- take_bit 7 x)) = uint (take_bit 7 (- x))"
    by (simp add: unsigned_take_bit_eq uint_word_ariths take_bit_eq_mod [of _ "_ :: int"])
qed

theorem atomo_decrypt_encrypt:
  assumes "length b = 8"
  shows "atomo_decrypt (atomo_encrypt b) = b[0 := b ! 0 AND 0x7F]"
proof -
  let ?k = "- (b ! 0) AND 0x7F" and ?x = "b ! 0 AND 0x7F"
  have x: "((b ! 0 XOR 5) AND 0x7F XOR 5) AND 0x7F = ?x"
    by (rule bit_word_eqI) (auto simp: bit_xor_iff bit_and_iff)
  have "(atomo_stream ?k b)[0 := (b ! 0 XOR 5) AND 0x7F, 0 := ?x] = (atomo_stream ?k b)[0 := ?x]" by simp
  then have "atomo_decrypt (atomo_encrypt b) = atomo_stream (- ?x AND 0x7F) ((atomo_stream ?k b)[0 := ?x])"
    using assms by (simp add: encrypt_stream decrypt_stream x)
  also have "- ?x AND 0x7F = ?k" unfolding low7 by (rule take_bit_minus_word)
  finally show ?thesis using assms by (simp add: atomo_stream_set atomo_stream_twice)
qed

lemma length_encrypt [simp]: "length (atomo_encrypt b) = length b"
  by (simp add: encrypt_stream)

lemma encrypt_first: "length b = 8 \<Longrightarrow> atomo_encrypt b ! 0 AND 0x80 = 0"
  by (simp add: encrypt_stream and.assoc)

lemma encrypt_last: "length b = 8 \<Longrightarrow> atomo_encrypt b ! 7 AND 0xF = b ! 7 AND 0xF"
  by (simp add: encrypt_stream)

section \<open>Messages come back\<close>

lemma xor_all: "x XOR 0xFFFFFFFFFFFFFFFF = NOT (x :: u64)"
proof -
  have m: "(0xFFFFFFFFFFFFFFFF :: u64) = mask 64" by (simp add: mask_eq_exp_minus_1)
  show ?thesis unfolding m by (rule bit_word_eqI) (simp add: bit_xor_iff bit_not_iff bit_mask_iff)
qed

lemma came_atomo_key_back:
  assumes "length p = 8" "p ! 7 AND 0xF = 0"
  shows "push_bit 4 (NOT (push_bit 60 D OR came_atomo_key p)) = be64 (atomo_encrypt p)"
proof (rule bit_word_eqI)
  fix k assume k: "k < LENGTH(64)"
  have m: "(0xFFFFFFFFFFFFFFF :: u64) = mask 60" by (simp add: mask_eq_exp_minus_1)
  have lo: "\<not> bit (be64 (atomo_encrypt p)) k" if "k < 4"
  proof -
    have "\<not> bit (atomo_encrypt p ! 7 AND 0xF) k" using encrypt_last [of p] assms by simp
    then have "\<not> bit (atomo_encrypt p ! 7) k" using that by (auto simp: bit_and_iff bit_numeral_rec less_Suc_eq eval_nat_numeral)
    then show ?thesis using that assms(1) by (simp add: bit_be64)
  qed
  show "bit (push_bit 4 (NOT (push_bit 60 D OR came_atomo_key p))) k \<longleftrightarrow> bit (be64 (atomo_encrypt p)) k"
  proof (cases "k < 4")
    case True
    then have "\<not> bit (push_bit 4 w) k" for w :: u64 by (simp add: bit_push_bit_iff)
    then show ?thesis using lo [OF True] by (simp only:)
  next
    case False
    then show ?thesis using k unfolding came_atomo_key_def m xor_all
      by (auto simp: bit_push_bit_iff bit_not_iff bit_or_iff bit_and_iff bit_mask_iff bit_drop_bit_eq bit_xor_iff)
  qed
qed

lemma came_atomo_received:
  assumes "length p = 8" "p ! 7 AND 0xF = 0" "data g = push_bit 60 D OR came_atomo_key p"
    "subghz_protocol_came_atomo_remote_controller cb g = (d, r, cb')"
  shows "cnt_2 r = p ! 0 AND 0x7F" "cnt r = push_bit 8 (ucast (p ! 1)) OR ucast (p ! 2)"
    "serial r = push_bit 24 (ucast (p ! 3)) OR push_bit 16 (ucast (p ! 4)) OR push_bit 8 (ucast (p ! 5)) OR ucast (p ! 6)"
    "b \<in> {1, 2, 3, 4, 5, 6} \<Longrightarrow> drop_bit 4 (p ! 7) = came_atomo_btn_code b \<Longrightarrow> btn r = b"
proof -
  have p: "atomo_decrypt (be64_bytes (push_bit 4 (data g XOR 0xFFFFFFFFFFFFFFFF))) = p[0 := p ! 0 AND 0x7F]"
    using assms by (simp only: xor_all came_atomo_key_back be64_bytes_be64 length_encrypt atomo_decrypt_encrypt)
  note d = assms(4) [unfolded subghz_protocol_came_atomo_remote_controller_def Let_def p, symmetric]
  show "cnt_2 r = p ! 0 AND 0x7F" "cnt r = push_bit 8 (ucast (p ! 1)) OR ucast (p ! 2)"
    "serial r = push_bit 24 (ucast (p ! 3)) OR push_bit 16 (ucast (p ! 4)) OR push_bit 8 (ucast (p ! 5)) OR ucast (p ! 6)"
    using d assms(1) by simp_all
  show "btn r = b" if "b \<in> {1, 2, 3, 4, 5, 6}" "drop_bit 4 (p ! 7) = came_atomo_btn_code b"
    using d assms(1) that by (auto simp: came_atomo_btn_code_def)
qed

end
