(* ===== verification/Subghz_Came_Atomo_Link.thy ===== *)
theory Subghz_Came_Atomo_Link
  imports Subghz_Came_Atomo
begin

text \<open>
  CAME Atomo over the air: the decoder interprets the contract of a Manchester-coded line, so a transmission of eight
  parcels arrives as eight callbacks; with the cipher and the layout of the message they carry the serial number, the
  button and the counters of the message that was sent.
\<close>

section \<open>The channel\<close>










section \<open>A transmission\<close>






lemma came_atomo_pack_simps [simp]:
  "length (came_atomo_pack p c d2 x) = 8" "came_atomo_pack p c d2 x ! 0 = p" "came_atomo_pack p c d2 x ! 7 = x"
  by (simp_all add: came_atomo_pack_def)












end
