(* ===== verification/Subghz_Phoenix_V2.thy ===== *)
theory Subghz_Phoenix_V2
  imports Subghz_Rolling_Code
begin

text \<open>
  Phoenix V2 (\<^verbatim>\<open>lib/subghz/protocols/phoenix_v2.c\<close>): a counter encrypted under two bytes of the serial number, the
  message, the frame and the decoder.
\<close>

section \<open>The counter\<close>

text \<open>The bodies of the two loops.\<close>

definition phoenix_encrypt_round :: "u8 \<Rightarrow> u8 \<Rightarrow> u8 \<times> u8 \<Rightarrow> u8 \<times> u8" where
  "phoenix_encrypt_round xor_key1 xor_key2 s =
     (case s of (byte1, byte2) \<Rightarrow>
        let msb_of_prev_byte1 = byte2 AND 0x80;
            byte2 = (if msb_of_prev_byte1 = 0 then byte2 XOR xor_key2 else byte2);
            byte1 = (if msb_of_prev_byte1 = 0 then byte1 XOR xor_key1 else byte1);
            lsb_of_current_byte1 = byte1 AND 1 in
        (drop_bit 1 byte1 OR msb_of_prev_byte1, push_bit 1 byte2 OR lsb_of_current_byte1))"

definition phoenix_decrypt_round :: "u8 \<Rightarrow> u8 \<Rightarrow> u8 \<times> u8 \<Rightarrow> u8 \<times> u8" where
  "phoenix_decrypt_round xor_key1 xor_key2 s =
     (case s of (byte1, byte2) \<Rightarrow>
        let msb_of_byte1 = byte1 AND 0x80; lsb_of_byte2 = byte2 AND 1;
            byte2 = drop_bit 1 byte2 OR msb_of_byte1; byte1 = push_bit 1 byte1 OR lsb_of_byte2 in
        if msb_of_byte1 = 0 then (byte1 XOR xor_key1, (byte2 XOR xor_key2) AND 0x7F) else (byte1, byte2))"

definition subghz_protocol_phoenix_v2_encrypt_counter :: "u64 \<Rightarrow> u16 \<Rightarrow> u16" where
  "subghz_protocol_phoenix_v2_encrypt_counter full_key counter =
     (let xor_key1 = ucast (drop_bit 24 full_key); xor_key2 = ucast (drop_bit 16 full_key AND 0xFF);
          (byte1, byte2) = (phoenix_encrypt_round xor_key1 xor_key2 ^^ 16) (ucast (counter AND 0xFF), ucast (drop_bit 8 counter)) in
      push_bit 8 (ucast byte1) OR ucast byte2)"

definition subghz_protocol_phoenix_v2_decrypt_counter :: "u64 \<Rightarrow> u16" where
  "subghz_protocol_phoenix_v2_decrypt_counter full_key =
     (let encrypted_value = ucast (drop_bit 40 full_key AND 0xFFFF) :: u16;
          xor_key1 = ucast (drop_bit 24 full_key); xor_key2 = ucast (drop_bit 16 full_key AND 0xFF);
          (byte1, byte2) = (phoenix_decrypt_round xor_key1 xor_key2 ^^ 16) (ucast (drop_bit 8 encrypted_value), ucast (encrypted_value AND 0xFF)) in
      push_bit 8 (ucast byte2) OR ucast byte1)"

section \<open>Messages\<close>

text \<open>The message before it is reversed: the encrypted counter, the button and the serial number.\<close>

definition phoenix_v2_message :: "u16 \<Rightarrow> u8 \<Rightarrow> u32 \<Rightarrow> u64" where
  "phoenix_v2_message encrypted_counter b sn = push_bit 40 (ucast encrypted_counter) OR push_bit 32 (ucast b) OR ucast sn"

definition subghz_protocol_phoenix_v2_create_data :: "u32 \<Rightarrow> u16 \<Rightarrow> SubGhzBlockGeneric \<Rightarrow> SubGhzBlockGeneric" where
  "subghz_protocol_phoenix_v2_create_data new_serial counter g =
     (let g = g\<lparr>btn := 0x1, serial := new_serial, cnt := ucast counter, data_count_bit := 52\<rparr>;
          local_data_rev = push_bit 40 (ucast (cnt g)) OR push_bit 32 (ucast (btn g)) OR ucast (serial g) :: u64;
          encrypted_counter = subghz_protocol_phoenix_v2_encrypt_counter local_data_rev (ucast (cnt g)) in
      g\<lparr>data := subghz_protocol_blocks_reverse_key (phoenix_v2_message encrypted_counter (btn g) (serial g)) (ucast (data_count_bit g + 4))
          AND 0xFFFFFFFFFFFFF\<rparr>)"

definition subghz_protocol_phoenix_v2_check_remote_controller ::
  "SubGhzCustomBtn \<Rightarrow> SubGhzBlockGeneric \<Rightarrow> SubGhzBlockGeneric \<times> SubGhzCustomBtn" where
  "subghz_protocol_phoenix_v2_check_remote_controller cb g =
     (let data_rev = subghz_protocol_blocks_reverse_key (data g) (ucast (data_count_bit g + 4));
          g = g\<lparr>serial := ucast (data_rev AND 0xFFFFFFFF), cnt := ucast (subghz_protocol_phoenix_v2_decrypt_counter data_rev),
            btn := ucast (drop_bit 32 data_rev AND 0xF)\<rparr>;
          cb = (if subghz_custom_btn_get_original cb = 0 then subghz_custom_btn_set_original (btn g) cb else cb) in
      (g, subghz_custom_btn_set_max 4 cb))"

definition subghz_protocol_phoenix_v2_get_btn_code :: "SubGhzCustomBtn \<Rightarrow> u8" where
  "subghz_protocol_phoenix_v2_get_btn_code cb =
     (let i = subghz_custom_btn_get cb; b = subghz_custom_btn_get_original cb; known = b \<in> {0x1, 0x2, 0x3, 0x4, 0x8} in
      if i = SUBGHZ_CUSTOM_BTN_OK \<and> b \<noteq> 0 then b
      else if i = SUBGHZ_CUSTOM_BTN_UP then (if b = 0x1 then 0x2 else if known then 0x1 else b)
      else if i = SUBGHZ_CUSTOM_BTN_DOWN then (if b = 0x4 then 0x2 else if known then 0x4 else b)
      else if i = SUBGHZ_CUSTOM_BTN_LEFT then (if b = 0x8 then 0x2 else if known then 0x8 else b)
      else if i = SUBGHZ_CUSTOM_BTN_RIGHT then (if b = 0x3 then 0x2 else if known then 0x3 else b)
      else b)"

text \<open>The counter modes; the result is the counter, the global state and the flag \<open>bypass\<close>.\<close>

definition phoenix_v2_next_cnt ::
  "u8 \<Rightarrow> u32 \<Rightarrow> bool \<Rightarrow> SubGhzBlockGenericGlobal \<Rightarrow> u32 \<Rightarrow> u32 \<times> SubGhzBlockGenericGlobal \<times> bool" where
  "phoenix_v2_next_cnt mode mult bypass global c =
     (let bypass = (bypass \<or> cnt_need_override global) in
      if mode = 0 \<or> bypass then mode_0_cnt_16 mult bypass global c
      else if mode = 1 then (ofex_cnt_16 c, global, bypass)
      else (if c \<ge> 0x0004 then 0 else c + 1, global, bypass))"

section \<open>Encoder\<close>

definition subghz_protocol_phoenix_v2_const :: SubGhzBlockConst where
  "subghz_protocol_phoenix_v2_const = \<lparr>te_long = 853, te_short = 427, te_delta = 100, min_count_bit_for_found = 52\<rparr>"

definition subghz_protocol_encoder_phoenix_v2_alloc :: SubGhzProtocolEncoderCommonGeneric where
  "subghz_protocol_encoder_phoenix_v2_alloc = subghz_protocol_encoder_common_alloc ''Phoenix_V2'' 3 128"

definition phoenix_v2_header :: "LevelDuration list" where
  "phoenix_v2_header =
     [level_duration_make False (short_us subghz_protocol_phoenix_v2_const * 60),
      level_duration_make True (short_us subghz_protocol_phoenix_v2_const * 6)]"

definition phoenix_v2_send :: "bool \<Rightarrow> LevelDuration list" where
  "phoenix_v2_send b =
     (if \<not> b then [level_duration_make False (long_us subghz_protocol_phoenix_v2_const),
                 level_duration_make True (short_us subghz_protocol_phoenix_v2_const)]
      else [level_duration_make False (short_us subghz_protocol_phoenix_v2_const),
            level_duration_make True (long_us subghz_protocol_phoenix_v2_const)])"

text \<open>
  The new key of the next message, made before the frame. The result is the message with its new counter and key,
  and the state around it: \<open>bypass\<close>, the custom button and the global state.
\<close>

definition phoenix_v2_next_message ::
  "u8 \<Rightarrow> u32 \<Rightarrow> bool \<times> SubGhzCustomBtn \<times> SubGhzBlockGenericGlobal \<Rightarrow> SubGhzBlockGeneric \<Rightarrow>
   SubGhzBlockGeneric \<times> bool \<times> SubGhzCustomBtn \<times> SubGhzBlockGenericGlobal" where
  "phoenix_v2_next_message mode mult env g =
     (case env of (bypass, cb, global) \<Rightarrow>
        let cb = (if subghz_custom_btn_get_original cb = 0 then subghz_custom_btn_set_original (btn g) cb else cb);
            (changed, b, global) = subghz_block_generic_global_button_override_get (subghz_protocol_phoenix_v2_get_btn_code cb) global;
            (c, global, bypass) = phoenix_v2_next_cnt mode mult (bypass \<or> changed) global (cnt g);
            g = g\<lparr>cnt := c\<rparr>;
            local_data_rev = subghz_protocol_blocks_reverse_key (data g) (ucast (data_count_bit g + 4));
            encrypted_counter = subghz_protocol_phoenix_v2_encrypt_counter local_data_rev (ucast (cnt g)) in
        (g\<lparr>data := subghz_protocol_blocks_reverse_key (phoenix_v2_message encrypted_counter b (serial g)) (ucast (data_count_bit g + 4))\<rparr>,
         bypass, cb, global))"

definition subghz_protocol_encoder_phoenix_v2_get_upload ::
  "u8 \<Rightarrow> u32 \<Rightarrow> bool \<times> SubGhzCustomBtn \<times> SubGhzBlockGenericGlobal \<Rightarrow> SubGhzProtocolEncoderCommonGeneric \<Rightarrow>
   bool \<times> SubGhzProtocolEncoderCommonGeneric \<times> bool \<times> SubGhzCustomBtn \<times> SubGhzBlockGenericGlobal" where
  "subghz_protocol_encoder_phoenix_v2_get_upload mode mult env i =
     (let su = unat (data_count_bit (enc_generic i)) * 2 + 2 in
      if size_upload (encoder i) < su then (False, i, env)
      else
        (case phoenix_v2_next_message mode mult env (enc_generic i) of (g, env) \<Rightarrow>
           let (ok, i) = put_upload su (phoenix_v2_header @ upload_bits phoenix_v2_send (data g) (unat (ucast (data_count_bit g) :: u8)))
             (i\<lparr>enc_generic := g\<rparr>) in (ok, i, env)))"

section \<open>Decoder\<close>

abbreviation Phoenix_V2DecoderStepReset :: u32 where "Phoenix_V2DecoderStepReset \<equiv> 0"
abbreviation Phoenix_V2DecoderStepFoundStartBit :: u32 where "Phoenix_V2DecoderStepFoundStartBit \<equiv> 1"
abbreviation Phoenix_V2DecoderStepSaveDuration :: u32 where "Phoenix_V2DecoderStepSaveDuration \<equiv> 2"
abbreviation Phoenix_V2DecoderStepCheckDuration :: u32 where "Phoenix_V2DecoderStepCheckDuration \<equiv> 3"

definition subghz_protocol_decoder_phoenix_v2_alloc :: SubGhzProtocolDecoderCommon where
  "subghz_protocol_decoder_phoenix_v2_alloc = subghz_protocol_decoder_common_alloc ''Phoenix_V2''"

definition subghz_protocol_decoder_phoenix_v2_feed ::
  "SubGhzProtocolDecoderCommon \<Rightarrow> bool \<Rightarrow> u32 \<Rightarrow> SubGhzProtocolDecoderCommon" where
  "subghz_protocol_decoder_phoenix_v2_feed i level duration =
     (let c = subghz_protocol_phoenix_v2_const; st = parser_step (decoder i) in
      if st = Phoenix_V2DecoderStepReset then
        (if \<not> level \<and> DURATION_DIFF duration (short_us c * 60) < delta_us c * 30
         then step_to Phoenix_V2DecoderStepFoundStartBit i else i)
      else if st = Phoenix_V2DecoderStepFoundStartBit then
        (if level \<and> DURATION_DIFF duration (short_us c * 6) < delta_us c * 4
         then clear_bits (step_to Phoenix_V2DecoderStepSaveDuration i)
         else step_to Phoenix_V2DecoderStepReset i)
      else if st = Phoenix_V2DecoderStepSaveDuration then
        (if \<not> level then
           (if short_us c * 10 + delta_us c \<le> duration then
              let i = step_to Phoenix_V2DecoderStepFoundStartBit i;
                  i = (if decode_count_bit (decoder i) = min_count_bit_for_found c
                       then invoke_callback (take_key i) else i)
              in clear_bits i
            else step_to Phoenix_V2DecoderStepCheckDuration (save_te duration i))
         else i)
      else if st = Phoenix_V2DecoderStepCheckDuration then
        (if level then
           (if DURATION_DIFF (te_last (decoder i)) (short_us c) < delta_us c \<and>
               DURATION_DIFF duration (long_us c) < delta_us c * 3
            then step_to Phoenix_V2DecoderStepSaveDuration (add_bit 1 i)
            else if DURATION_DIFF (te_last (decoder i)) (long_us c) < delta_us c * 3 \<and>
               DURATION_DIFF duration (short_us c) < delta_us c
            then step_to Phoenix_V2DecoderStepSaveDuration (add_bit 0 i)
            else step_to Phoenix_V2DecoderStepReset i)
         else step_to Phoenix_V2DecoderStepReset i)
      else i)"

section \<open>The counter comes back\<close>

lemma bit_7_msb: "x AND 0x80 = (0 :: u8) \<longleftrightarrow> \<not> bit x 7"
  by (simp add: bit_iff_and_push_bit_not_eq_0)

lemma phoenix_bit_0x80: "bit (0x80 :: u8) k \<longleftrightarrow> k = 7"
proof -
  have m: "(0x80 :: u8) = push_bit 7 1" by simp
  show ?thesis unfolding m bit_push_bit_iff bit_1_iff by auto
qed

lemma bit_0x7F: "bit (0x7F :: u8) k \<longleftrightarrow> k < 7"
proof -
  have m: "(0x7F :: u8) = mask 7" by (simp add: mask_eq_exp_minus_1)
  show ?thesis unfolding m bit_mask_iff by auto
qed

lemmas phoenix_bits = phoenix_bit_0x80 bit_0x7F bit_or_iff bit_and_iff bit_xor_iff bit_push_bit_iff bit_drop_bit_eq bit_1_iff o_apply

lemma phoenix_shuffle_back:
  fixes b1 b2 :: u8
  shows "push_bit 1 (drop_bit 1 b1 OR b2 AND 0x80) OR (push_bit 1 c2 OR b1 AND 1) AND 1 = b1"
    "(drop_bit 1 b1 OR b2 AND 0x80) AND 0x80 = b2 AND 0x80"
    "drop_bit 1 (push_bit 1 b2 OR b1 AND 1) = b2 AND 0x7F"
proof -
  show "push_bit 1 (drop_bit 1 b1 OR b2 AND 0x80) OR (push_bit 1 c2 OR b1 AND 1) AND 1 = b1"
  proof (rule bit_word_eqI)
    fix k assume "k < LENGTH(8)"
    then show "bit (push_bit 1 (drop_bit 1 b1 OR b2 AND 0x80) OR (push_bit 1 c2 OR b1 AND 1) AND 1) k \<longleftrightarrow> bit b1 k"
      by (cases k) (simp_all only: phoenix_bits, auto)
  qed
  have "\<not> bit b1 8" "\<not> bit b2 8" by (simp_all add: bit_imp_le_length)
  then show "(drop_bit 1 b1 OR b2 AND 0x80) AND 0x80 = b2 AND 0x80"
    by (intro bit_word_eqI) (simp only: phoenix_bits, auto)
  show "drop_bit 1 (push_bit 1 b2 OR b1 AND 1) = b2 AND 0x7F"
    by (rule bit_word_eqI) (simp only: phoenix_bits, auto)
qed

lemma phoenix_high_bit: "(x AND 0x7F) OR (x AND 0x80) = (x :: u8)"
proof (rule bit_word_eqI)
  fix k assume "k < LENGTH(8)"
  then have "k < 7 \<or> k = 7" by auto
  then show "bit ((x AND 0x7F) OR (x AND 0x80)) k \<longleftrightarrow> bit x k" by (auto simp only: phoenix_bits)
qed

lemma phoenix_round_back: "phoenix_decrypt_round k1 k2 (phoenix_encrypt_round k1 k2 s) = s"
proof (cases s)
  case (Pair b1 b2)
  show ?thesis
  proof (cases "b2 AND 0x80 = 0")
    case False
    then show ?thesis
      unfolding Pair phoenix_encrypt_round_def phoenix_decrypt_round_def prod.case Let_def if_not_P [OF False]
        phoenix_shuffle_back phoenix_high_bit by simp
  next
    case True
    have "b2 AND 0x7F = b2" using phoenix_high_bit [of b2] True by simp
    moreover have "((b2 XOR k2) AND 0x7F XOR k2) AND 0x7F = b2 AND 0x7F"
      by (rule bit_word_eqI) (auto simp only: phoenix_bits)
    ultimately show ?thesis
      unfolding Pair phoenix_encrypt_round_def phoenix_decrypt_round_def prod.case Let_def if_P [OF True]
        phoenix_shuffle_back if_P [OF True]
      by (simp add: True xor.assoc)
  qed
qed

lemma funpow_back:
  fixes f g :: "'a \<Rightarrow> 'a"
  assumes "\<And>s. f (g s) = s"
  shows "(f ^^ n) ((g ^^ n) s) = s"
proof (induction n arbitrary: s)
  case (Suc n)
  have "(f ^^ Suc n) ((g ^^ Suc n) s) = (f ^^ n) (f (g ((g ^^ n) s)))" by (simp add: funpow_swap1)
  then show ?case using Suc assms by simp
qed simp

lemma byte_mask: "x AND 0xFF = take_bit 8 (x :: 'a::len word)"
  by (simp add: take_bit_eq_mask mask_eq_exp_minus_1)

lemma bytes_of_u16: "push_bit 8 (ucast (ucast (drop_bit 8 c) :: u8)) OR ucast (ucast (c AND 0xFF) :: u8) = (c :: u16)"
  unfolding byte_mask
  by (rule bit_word_eqI) (auto simp: bit_or_iff bit_push_bit_iff bit_ucast_iff bit_drop_bit_eq bit_take_bit_iff)

lemma u16_of_bytes:
  "ucast (drop_bit 8 (push_bit 8 (ucast a) OR ucast b :: u16)) = (a :: u8)"
  "ucast ((push_bit 8 (ucast a) OR ucast b :: u16) AND 0xFF) = (b :: u8)"
  unfolding byte_mask
  by (rule bit_word_eqI; auto simp: bit_or_iff bit_push_bit_iff bit_ucast_iff bit_drop_bit_eq bit_take_bit_iff dest: bit_imp_le_length)+

definition same_keys :: "u64 \<Rightarrow> u64 \<Rightarrow> bool" where
  "same_keys k l \<longleftrightarrow> drop_bit 16 (take_bit 32 k) = drop_bit 16 (take_bit 32 l)"

lemma same_keysD:
  assumes "same_keys k l"
  shows "ucast (drop_bit 24 k) = (ucast (drop_bit 24 l) :: u8)" "ucast (drop_bit 16 k AND 0xFF) = (ucast (drop_bit 16 l AND 0xFF) :: u8)"
proof -
  have b: "bit k (16 + j) \<longleftrightarrow> bit l (16 + j)" if "j < 16" for j
    using arg_cong [OF assms [unfolded same_keys_def], of "\<lambda>x. bit x j"] that by (simp add: bit_drop_bit_eq bit_take_bit_iff)
  show "ucast (drop_bit 24 k) = (ucast (drop_bit 24 l) :: u8)"
  proof (rule bit_word_eqI)
    fix j assume "j < LENGTH(8)"
    then show "bit (ucast (drop_bit 24 k) :: u8) j \<longleftrightarrow> bit (ucast (drop_bit 24 l) :: u8) j"
      using b [of "8 + j"] by (simp add: bit_ucast_iff bit_drop_bit_eq)
  qed
  show "ucast (drop_bit 16 k AND 0xFF) = (ucast (drop_bit 16 l AND 0xFF) :: u8)"
    unfolding byte_mask by (rule bit_word_eqI) (use b in \<open>auto simp: bit_ucast_iff bit_drop_bit_eq bit_take_bit_iff\<close>)
qed

theorem phoenix_counter_back:
  assumes "same_keys k l" "ucast (drop_bit 40 l) = subghz_protocol_phoenix_v2_encrypt_counter k c"
  shows "subghz_protocol_phoenix_v2_decrypt_counter l = c"
proof -
  let ?k1 = "ucast (drop_bit 24 l) :: u8" and ?k2 = "ucast (drop_bit 16 l AND 0xFF) :: u8"
  obtain b1 b2 where e: "(phoenix_encrypt_round ?k1 ?k2 ^^ 16) (ucast (c AND 0xFF), ucast (drop_bit 8 c)) = (b1, b2)"
    by fastforce
  have "ucast (drop_bit 40 l AND 0xFFFF) = (ucast (drop_bit 40 l) :: u16)"
  proof -
    have m: "(0xFFFF :: u64) = mask 16" by (simp add: mask_eq_exp_minus_1)
    show ?thesis unfolding m by (rule bit_word_eqI) (auto simp: bit_ucast_iff bit_and_iff bit_mask_iff)
  qed
  also have "\<dots> = push_bit 8 (ucast b1) OR ucast b2"
    using e same_keysD [OF assms(1)] by (simp add: assms(2) subghz_protocol_phoenix_v2_encrypt_counter_def)
  finally have v: "ucast (drop_bit 40 l AND 0xFFFF) = (push_bit 8 (ucast b1) OR ucast b2 :: u16)" .
  have "(phoenix_decrypt_round ?k1 ?k2 ^^ 16) (b1, b2) = (ucast (c AND 0xFF), ucast (drop_bit 8 c))"
    unfolding e [symmetric] by (rule funpow_back) (rule phoenix_round_back)
  then show ?thesis
    unfolding subghz_protocol_phoenix_v2_decrypt_counter_def Let_def v u16_of_bytes by (simp add: bytes_of_u16)
qed

section \<open>Messages come back\<close>

lemma phoenix_message_bits:
  "bit (phoenix_v2_message e b sn) k \<longleftrightarrow>
     (if k < 32 then bit sn k else if k < 40 then bit b (k - 32) else k < 56 \<and> bit e (k - 40))"
  by (auto simp: phoenix_v2_message_def bit_or_iff bit_push_bit_iff bit_ucast_iff not_less dest: bit_imp_le_length)

text \<open>What a receiver reads from the 52 transmitted bits of a message.\<close>

lemma phoenix_message_received:
  assumes "same_keys k (ucast sn)"
    and "subghz_protocol_phoenix_v2_check_remote_controller cb (g\<lparr>data := take_bit 52 (subghz_protocol_blocks_reverse_key
         (phoenix_v2_message (subghz_protocol_phoenix_v2_encrypt_counter k c) b sn) 56), data_count_bit := 52\<rparr>) = (r, cb')"
  shows "serial r = sn AND 0xFFFFFFF0" "cnt r = ucast c" "btn r = b AND 0xF"
proof -
  let ?e = "subghz_protocol_phoenix_v2_encrypt_counter k c"
  define d where "d = subghz_protocol_blocks_reverse_key (take_bit 52 (subghz_protocol_blocks_reverse_key (phoenix_v2_message ?e b sn) 56)) 56"
  have d: "bit d j \<longleftrightarrow> 4 \<le> j \<and> bit (phoenix_v2_message ?e b sn) j" for j
    by (auto simp: d_def bit_reverse_key bit_take_bit_iff phoenix_message_bits)
  have r: "r = g\<lparr>data := take_bit 52 (subghz_protocol_blocks_reverse_key (phoenix_v2_message ?e b sn) 56), data_count_bit := 52,
      serial := ucast (d AND 0xFFFFFFFF), cnt := ucast (subghz_protocol_phoenix_v2_decrypt_counter d), btn := ucast (drop_bit 32 d AND 0xF)\<rparr>"
    using assms(2) unfolding subghz_protocol_phoenix_v2_check_remote_controller_def Let_def by (simp add: d_def)
  have m: "(0xFFFFFFFF :: u64) = mask 32" "(0xF :: u64) = mask 4" "(0xF :: u8) = mask 4" "(0xFFFFFFF0 :: u32) = NOT (mask 4)"
    by (simp_all add: mask_eq_exp_minus_1)
  have "ucast (d AND 0xFFFFFFFF) = sn AND (0xFFFFFFF0 :: u32)"
    unfolding m by (rule bit_word_eqI) (auto simp: bit_ucast_iff bit_and_iff bit_mask_iff bit_not_iff d phoenix_message_bits)
  then show "serial r = sn AND 0xFFFFFFF0" by (simp add: r)
  have "ucast (drop_bit 32 d AND 0xF) = b AND 0xF"
    unfolding m by (rule bit_word_eqI) (auto simp: bit_ucast_iff bit_and_iff bit_mask_iff bit_drop_bit_eq d phoenix_message_bits)
  then show "btn r = b AND 0xF" by (simp add: r)
  have keys: "same_keys k d"
    unfolding assms(1) [unfolded same_keys_def, symmetric] same_keys_def
    unfolding assms(1) [unfolded same_keys_def]
    by (rule bit_word_eqI) (auto simp: bit_drop_bit_eq bit_take_bit_iff bit_ucast_iff d phoenix_message_bits)
  have "ucast (drop_bit 40 d) = ?e"
    by (rule bit_word_eqI) (auto simp: bit_ucast_iff bit_drop_bit_eq d phoenix_message_bits)
  from phoenix_counter_back [OF keys this] show "cnt r = ucast c" by (simp add: r)
qed

section \<open>The channel\<close>

lemmas phoenix_v2_defs = subghz_protocol_decoder_phoenix_v2_feed_def subghz_protocol_phoenix_v2_const_def
  phoenix_v2_header_def phoenix_v2_send_def

definition phoenix_v2_ready :: "link_frame \<Rightarrow> u64 \<Rightarrow> nat \<Rightarrow> SubGhzProtocolDecoderCommon \<Rightarrow> bool" where
  "phoenix_v2_ready f D c s \<longleftrightarrow>
     parser_step (decoder s) = Phoenix_V2DecoderStepSaveDuration \<and> decode_data (decoder s) = D \<and>
     decode_count_bit (decoder s) = of_nat c \<and> base s = fst f \<and> generic s = snd f"

definition phoenix_v2_idle :: "link_frame \<Rightarrow> SubGhzProtocolDecoderCommon \<Rightarrow> bool" where
  "phoenix_v2_idle f s \<longleftrightarrow> parser_step (decoder s) = Phoenix_V2DecoderStepReset \<and> base s = fst f \<and> generic s = snd f"

interpretation phoenix_v2: header_link subghz_protocol_decoder_phoenix_v2_feed "\<lambda>f. phoenix_v2_send"
  phoenix_v2_ready "\<lambda>f. phoenix_v2_header" "\<lambda>f. 52" phoenix_v2_idle "deliver_with (set_key 52)"
proof (unfold_locales, goal_cases)
  case (1 f D c s b)
  then show ?case
    by (cases b) (auto simp: phoenix_v2_ready_def phoenix_v2_defs DURATION_DIFF_def Let_def
        subghz_protocol_blocks_add_bit_def)
next
  case (2 f s)
  then show ?case
    by (auto simp: phoenix_v2_ready_def phoenix_v2_idle_def phoenix_v2_defs DURATION_DIFF_def Let_def)
next
  case (4 f D s)
  then show ?case
    by (auto simp: phoenix_v2_ready_def phoenix_v2_defs DURATION_DIFF_def Let_def invoke_callback_def
        deliver_with_def set_key_def)
qed simp_all

lemma length_phoenix_v2_upload: "length (phoenix_v2_header @ upload_bits phoenix_v2_send key n) = n * 2 + 2"
  by (simp add: phoenix_v2_header_def length_upload_bits [where k = 2] phoenix_v2_send_def)

text \<open>The button of a transmission and the fields a receiver reads from a message.\<close>

definition phoenix_v2_sent_btn :: "SubGhzCustomBtn \<Rightarrow> SubGhzBlockGenericGlobal \<Rightarrow> SubGhzBlockGeneric \<Rightarrow> u8" where
  "phoenix_v2_sent_btn cb global g =
     fst (snd (subghz_block_generic_global_button_override_get (subghz_protocol_phoenix_v2_get_btn_code
       (if subghz_custom_btn_get_original cb = 0 then subghz_custom_btn_set_original (btn g) cb else cb)) global))"

definition phoenix_v2_fields :: "SubGhzCustomBtn \<Rightarrow> SubGhzBlockGeneric \<Rightarrow> u32 \<times> u32 \<times> u8" where
  "phoenix_v2_fields cb g = (case subghz_protocol_phoenix_v2_check_remote_controller cb g of (r, _) \<Rightarrow> (serial r, cnt r, btn r))"

lemma phoenix_next_message:
  assumes "subghz_protocol_phoenix_v2_check_remote_controller cb0 (captured\<lparr>data_count_bit := 52\<rparr>) = (g, cb1)"
    and "phoenix_v2_next_message mode mult (bypass, cb, global) g = (g', env)"
  obtains k where "same_keys k (ucast (serial g))" "data_count_bit g' = 52"
    "data g' = subghz_protocol_blocks_reverse_key (phoenix_v2_message (subghz_protocol_phoenix_v2_encrypt_counter k (ucast (cnt g')))
      (phoenix_v2_sent_btn cb global g) (serial g)) 56"
proof -
  let ?d = "subghz_protocol_blocks_reverse_key (data captured) 56"
  have g: "serial g = ucast (?d AND 0xFFFFFFFF)" "data g = data captured" "data_count_bit g = 52"
    using assms(1) by (auto simp: subghz_protocol_phoenix_v2_check_remote_controller_def Let_def)
  have m: "(0xFFFFFFFF :: u64) = mask 32" by (simp add: mask_eq_exp_minus_1)
  have "same_keys ?d (ucast (serial g))"
    unfolding same_keys_def g m
    by (rule bit_word_eqI) (auto simp: bit_drop_bit_eq bit_take_bit_iff bit_ucast_iff bit_and_iff bit_mask_iff)
  moreover have "data_count_bit g' = 52" "data g' = subghz_protocol_blocks_reverse_key (phoenix_v2_message
      (subghz_protocol_phoenix_v2_encrypt_counter ?d (ucast (cnt g'))) (phoenix_v2_sent_btn cb global g) (serial g)) 56"
    using assms(2) g(2,3) by (auto simp: phoenix_v2_next_message_def phoenix_v2_sent_btn_def Let_def case_prod_beta)
  ultimately show thesis using that by blast
qed

text \<open>
  C11 (roundtrip): a Phoenix V2 remote, from a captured 52-bit message to the receiver: whatever was captured, the counter mode, the
  settings and the button, the frame of the next message fits the encoder's buffer, and a fresh decoder that hears it
  \<open>k + 1\<close> times calls back exactly \<open>k\<close> times; every message has the new counter, the button that was sent and the
  serial number but for its low four bits, which a frame of 52 bits does not carry.
\<close>

theorem phoenix_v2_transmission:
  "case subghz_protocol_phoenix_v2_check_remote_controller cb0 (captured\<lparr>data_count_bit := 52\<rparr>) of (g, _) \<Rightarrow>
   case subghz_protocol_encoder_phoenix_v2_get_upload mode mult (bypass, cb, global)
      (subghz_protocol_encoder_phoenix_v2_alloc\<lparr>enc_generic := g\<rparr>) of (ok, inst', _) \<Rightarrow>
     ok \<and> length (upload (encoder inst')) = 128 \<and>
     map (phoenix_v2_fields cb2) (base_received (base (feed_upload subghz_protocol_decoder_phoenix_v2_feed
       (concat (replicate (Suc k) (sent_upload inst'))) (listening subghz_protocol_decoder_phoenix_v2_alloc)))) =
     replicate k (serial g AND 0xFFFFFFF0, cnt (enc_generic inst') AND 0xFFFF, phoenix_v2_sent_btn cb global g AND 0xF)"
proof -
  let ?inst = "\<lambda>g. subghz_protocol_encoder_phoenix_v2_alloc\<lparr>enc_generic := g\<rparr>"
  let ?s = "listening subghz_protocol_decoder_phoenix_v2_alloc" and ?feed = "feed_upload subghz_protocol_decoder_phoenix_v2_feed"
  let ?f = "(base ?s, generic ?s)"
  obtain g cb1 where rc: "subghz_protocol_phoenix_v2_check_remote_controller cb0 (captured\<lparr>data_count_bit := 52\<rparr>) = (g, cb1)"
    by fastforce
  obtain g' env where nm: "phoenix_v2_next_message mode mult (bypass, cb, global) g = (g', env)" by (rule prod.exhaust)
  obtain kk where kk: "same_keys kk (ucast (serial g))" "data_count_bit g' = 52"
    "data g' = subghz_protocol_blocks_reverse_key (phoenix_v2_message (subghz_protocol_phoenix_v2_encrypt_counter kk (ucast (cnt g')))
      (phoenix_v2_sent_btn cb global g) (serial g)) 56"
    by (rule phoenix_next_message [OF rc nm])
  have 52: "data_count_bit g = 52"
    using rc by (auto simp: subghz_protocol_phoenix_v2_check_remote_controller_def Let_def)
  let ?ws = "phoenix_v2_header @ upload_bits phoenix_v2_send (data g') 52"
  obtain ok inst' where up: "put_upload 106 ?ws (?inst g') = (ok, inst')" by fastforce
  have sent: "ok" "length (upload (encoder inst')) = 128" "sent_upload inst' = ?ws"
    using put_upload_sent [OF up] length_phoenix_v2_upload [of "data g'" 52]
    by (simp_all add: subghz_protocol_encoder_phoenix_v2_alloc_def alloc_defs)
  have inst': "enc_generic inst' = g'"
    using up by (auto simp: put_upload_def split: if_splits)
  have get: "subghz_protocol_encoder_phoenix_v2_get_upload mode mult (bypass, cb, global) (?inst g) = (ok, inst', env)"
    unfolding subghz_protocol_encoder_phoenix_v2_get_upload_def Let_def
    using up 52 kk(2) nm by (simp add: subghz_protocol_encoder_phoenix_v2_alloc_def alloc_defs)
  have "phoenix_v2_idle ?f ?s"
    by (simp add: phoenix_v2_idle_def subghz_protocol_decoder_phoenix_v2_alloc_def alloc_defs)
  from phoenix_v2.frames [OF this, where key = "data g'" and k = k]
  have "base (?feed (concat (replicate (Suc k) (sent_upload inst'))) ?s) =
      fst ((deliver_with (set_key 52) (take_bit 52 (data g')) ^^ k) ?f)"
    unfolding sent(3) by (simp only: phoenix_v2_ready_def)
  moreover have "base_callback (fst ?f)" "base_received (fst ?f) = []"
    by (simp_all add: subghz_protocol_decoder_phoenix_v2_alloc_def alloc_defs)
  ultimately have "base_received (base (?feed (concat (replicate (Suc k) (sent_upload inst'))) ?s)) =
      replicate k (set_key 52 (take_bit 52 (data g')) (generic ?s))"
    using deliver_with_iter [of ?f "set_key 52" "take_bit 52 (data g')" k] by simp
  moreover have "phoenix_v2_fields cb2 (set_key 52 (take_bit 52 (data g')) (generic ?s)) =
      (serial g AND 0xFFFFFFF0, cnt g' AND 0xFFFF, phoenix_v2_sent_btn cb global g AND 0xF)"
  proof -
    obtain r cb' where r: "subghz_protocol_phoenix_v2_check_remote_controller cb2 (set_key 52 (take_bit 52 (data g')) (generic ?s)) = (r, cb')"
      by fastforce
    have m: "(0xFFFF :: u32) = mask 16" by (simp add: mask_eq_exp_minus_1)
    have "ucast (ucast (cnt g') :: u16) = cnt g' AND 0xFFFF"
      unfolding m by (rule bit_word_eqI) (auto simp: bit_ucast_iff bit_and_iff bit_mask_iff)
    then show ?thesis
      using phoenix_message_received [OF kk(1), where cb = cb2 and g = "generic ?s"] r
      by (simp add: phoenix_v2_fields_def set_key_def kk(3))
  qed
  ultimately show ?thesis
    unfolding rc get prod.case inst' using sent by (simp del: replicate_Suc)
qed

text \<open>The key made for a new remote is such a message with the button 1.\<close>

theorem phoenix_v2_create_back:
  "phoenix_v2_fields cb (subghz_protocol_phoenix_v2_create_data new_serial counter g) = (new_serial AND 0xFFFFFFF0, ucast counter, 1)"
proof -
  let ?l = "push_bit 40 (ucast (ucast counter :: u32)) OR push_bit 32 (ucast (1 :: u8)) OR ucast new_serial :: u64"
  let ?m = "phoenix_v2_message (subghz_protocol_phoenix_v2_encrypt_counter ?l (ucast (ucast counter :: u32))) 1 new_serial"
  let ?g = "g\<lparr>btn := 0x1, serial := new_serial, cnt := ucast counter\<rparr>"
  have m: "(0xFFFFFFFFFFFFF :: u64) = mask 52" by (simp add: mask_eq_exp_minus_1)
  have d: "subghz_protocol_phoenix_v2_create_data new_serial counter g =
      ?g\<lparr>data := take_bit 52 (subghz_protocol_blocks_reverse_key ?m 56), data_count_bit := 52\<rparr>"
    unfolding subghz_protocol_phoenix_v2_create_data_def Let_def m take_bit_eq_mask [symmetric] by simp
  have k: "same_keys ?l (ucast new_serial)"
    unfolding same_keys_def
    by (rule bit_word_eqI) (auto simp: bit_drop_bit_eq bit_take_bit_iff bit_ucast_iff bit_or_iff bit_push_bit_iff)
  obtain r cb' where r: "subghz_protocol_phoenix_v2_check_remote_controller cb (subghz_protocol_phoenix_v2_create_data new_serial counter g) = (r, cb')"
    by (rule prod.exhaust)
  have "ucast (ucast counter :: u32) = counter"
    by (rule bit_word_eqI) (simp add: bit_ucast_iff)
  then show ?thesis
    using phoenix_message_received [OF k r [unfolded d]] r by (simp add: phoenix_v2_fields_def)
qed

end
