(* ===== verification/Subghz_Nice_Flor_S.thy ===== *)
theory Subghz_Nice_Flor_S
  imports Subghz_Rolling_Code
begin

text \<open>
  Nice FLOR-S and Nice O-Code (\<^verbatim>\<open>lib/subghz/protocols/nice_flor_s.c\<close>): the table-driven cipher under an installer
  code, the scrambled counter and the masks of O-Code, and the messages of both. The table of 32 bytes comes from a
  file on the SD card; it is an argument, \<open>None\<close> when there is none. A message of Nice One carries twenty more bits
  with a checksum; these and the signal are not modelled.
\<close>

section \<open>Cipher\<close>

definition subghz_protocol_nice_flor_s_get_byte_from_buffer :: "u8 list \<Rightarrow> u8 \<Rightarrow> u8" where
  "subghz_protocol_nice_flor_s_get_byte_from_buffer buffer address = buffer ! unat address"

definition subghz_protocol_decoder_nice_flor_s_magic_xor :: "u8 list \<Rightarrow> u8 \<Rightarrow> u8 list" where
  "subghz_protocol_decoder_nice_flor_s_magic_xor p k = fold (\<lambda>i p. p[i := p ! i XOR k]) [1..<6] p"

text \<open>The loop bodies, and the exchange of two bytes.\<close>

definition nice_encrypt_round :: "u8 list \<Rightarrow> u8 list \<Rightarrow> u8 list" where
  "nice_encrypt_round buffer p =
     (let k = subghz_protocol_nice_flor_s_get_byte_from_buffer buffer (p ! 0 AND 0x1f);
          p = subghz_protocol_decoder_nice_flor_s_magic_xor p k;
          p = p[5 := p ! 5 AND 0x0f];
          p = p[0 := p ! 0 XOR (k AND 0xe0)];
          k = subghz_protocol_nice_flor_s_get_byte_from_buffer buffer (drop_bit 3 (p ! 0)) + 0x25;
          p = subghz_protocol_decoder_nice_flor_s_magic_xor p k;
          p = p[5 := p ! 5 AND 0x0f] in
      p[0 := p ! 0 XOR (k AND 0x7)])"

definition nice_decrypt_round :: "u8 list \<Rightarrow> u8 list \<Rightarrow> u8 list" where
  "nice_decrypt_round buffer p =
     (let k = subghz_protocol_nice_flor_s_get_byte_from_buffer buffer (drop_bit 3 (p ! 0)) + 0x25;
          p = subghz_protocol_decoder_nice_flor_s_magic_xor p k;
          p = p[5 := p ! 5 AND 0x0f];
          p = p[0 := p ! 0 XOR (k AND 0x7)];
          k = subghz_protocol_nice_flor_s_get_byte_from_buffer buffer (p ! 0 AND 0x1f);
          p = subghz_protocol_decoder_nice_flor_s_magic_xor p k;
          p = p[5 := p ! 5 AND 0x0f] in
      p[0 := p ! 0 XOR (k AND 0xe0)])"

definition nice_exchange :: "u8 list \<Rightarrow> u8 list" where
  "nice_exchange p = p[0 := p ! 1, 1 := p ! 0]"

definition nice_no_table :: u64 where
  "nice_no_table = 0"

definition subghz_protocol_nice_flor_s_encrypt_ic :: "u64 \<Rightarrow> u16 \<Rightarrow> u8 list option \<Rightarrow> u64" where
  "subghz_protocol_nice_flor_s_encrypt_ic d ic table =
     (case table of None \<Rightarrow> nice_no_table | Some buffer \<Rightarrow>
        let p = le_bytes d;
            p = nice_encrypt_round buffer (nice_exchange (nice_encrypt_round buffer p));
            p = p[5 := NOT (p ! 5) AND 0x0f];
            k = NOT (p ! 4);
            p = p[4 := p ! 0 XOR ucast (drop_bit 8 ic)];
            p = p[0 := NOT (p ! 2)];
            p = p[2 := k];
            k = p ! 1 XOR ucast ic;
            p = p[1 := NOT (p ! 3)];
            p = p[3 := k] in
        le64 p)"

definition subghz_protocol_nice_flor_s_decrypt_ic_buffer :: "u64 \<Rightarrow> u16 \<Rightarrow> u8 list \<Rightarrow> u64" where
  "subghz_protocol_nice_flor_s_decrypt_ic_buffer d ic buffer =
     (let p = le_bytes d;
          k = p ! 4 XOR ucast (drop_bit 8 ic);
          p = p[5 := NOT (p ! 5)];
          p = p[4 := NOT (p ! 2)];
          p = p[2 := NOT (p ! 0)];
          p = p[0 := k];
          k = p ! 3 XOR ucast ic;
          p = p[3 := NOT (p ! 1)];
          p = p[1 := k] in
      le64 (nice_decrypt_round buffer (nice_exchange (nice_decrypt_round buffer p))))"

definition subghz_protocol_nice_flor_s_decrypt_ic :: "u64 \<Rightarrow> u16 \<Rightarrow> u8 list option \<Rightarrow> u64" where
  "subghz_protocol_nice_flor_s_decrypt_ic d ic table =
     (case table of None \<Rightarrow> nice_no_table | Some buffer \<Rightarrow> subghz_protocol_nice_flor_s_decrypt_ic_buffer d ic buffer)"

definition subghz_protocol_nice_flor_s_encrypt :: "u64 \<Rightarrow> u8 list option \<Rightarrow> u64" where
  "subghz_protocol_nice_flor_s_encrypt d table = subghz_protocol_nice_flor_s_encrypt_ic d 0xFFFF table"

definition nice_o_cnt_g :: "u16 \<Rightarrow> u16" where
  "nice_o_cnt_g c = (let b = c AND 0x2222 in c XOR drop_bit 1 b XOR push_bit 1 b)"

definition subghz_protocol_nice_o_cnt_swap :: "u16 \<Rightarrow> u16" where
  "subghz_protocol_nice_o_cnt_swap c = nice_o_cnt_g c XOR 0x8B89"

definition subghz_protocol_nice_o_cnt_enc :: "u16 \<Rightarrow> u16" where
  "subghz_protocol_nice_o_cnt_enc c = nice_o_cnt_g (c XOR 0x8B89)"

definition subghz_protocol_nice_o_mask :: "u8 \<Rightarrow> u32 \<times> u16" where
  "subghz_protocol_nice_o_mask n =
     (let a = (0x0E - ucast n) AND 0x0F :: u32; b = ucast n + 2; odd = ucast n AND 1; c = b + push_bit 1 odd;
          bn = b AND 0x0F; cn = c AND 0x0F;
          m = push_bit 8 a OR push_bit 4 bn OR push_bit 20 bn OR push_bit 24 a OR cn OR push_bit 16 cn;
          m = m OR (push_bit 12 (((b XOR (0x0E - ucast n) XOR c) AND 0x0F) + push_bit 2 odd) AND 0xFFFF) in
      (m AND 0x0FFFFFFF, ucast (push_bit 8 (m AND 0x00FF) OR (drop_bit 8 m AND 0x00FF))))"

definition subghz_protocol_nice_o_get_parcel :: "u64 \<Rightarrow> u8" where
  "subghz_protocol_nice_o_get_parcel d = ucast (((drop_bit 48 d AND 0x0F) XOR (drop_bit 44 d AND 0x0F)) XOR 0x0F)"

text \<open>The serial number, the counter and the button.\<close>

definition subghz_protocol_nice_o_decrypt :: "u64 \<Rightarrow> u16 \<Rightarrow> u8 list option \<Rightarrow> (u32 \<times> u16 \<times> u8) option" where
  "subghz_protocol_nice_o_decrypt d ic table =
     (let (mask_32, mask_16) = subghz_protocol_nice_o_mask (subghz_protocol_nice_o_get_parcel d);
          decrypted = subghz_protocol_nice_flor_s_decrypt_ic d (ic XOR mask_16) table in
      if decrypted = nice_no_table then None
      else Some (ucast (drop_bit 16 decrypted XOR ucast mask_32) AND 0x0FFFFFFF,
             subghz_protocol_nice_o_cnt_swap (ucast decrypted), ucast (drop_bit 48 d AND 0x0F)))"

definition subghz_protocol_nice_o_make_key :: "u32 \<Rightarrow> u16 \<Rightarrow> u8 \<Rightarrow> u8 \<Rightarrow> u16 \<Rightarrow> u8 list option \<Rightarrow> u64" where
  "subghz_protocol_nice_o_make_key new_serial counter b parcel ic table =
     (let parcel = parcel AND 0x0F;
          (mask_32, mask_16) = subghz_protocol_nice_o_mask parcel;
          plain = push_bit 16 (ucast ((new_serial XOR mask_32) AND 0x0FFFFFFF)) OR ucast (subghz_protocol_nice_o_cnt_enc counter);
          enc_part = subghz_protocol_nice_flor_s_encrypt_ic plain (ic XOR mask_16) table in
      if enc_part = nice_no_table then 0
      else push_bit 44 (ucast (push_bit 4 (b AND 0x0F) OR (0x0F XOR (b AND 0x0F) XOR parcel) :: u8)) OR enc_part)"

section \<open>Keys\<close>

text \<open>The parcel number of a key made for a new remote, and the 52-bit key of a FLOR-S remote.\<close>

definition NICE_FLOR_S_CREATE_PARCEL :: u8 where
  "NICE_FLOR_S_CREATE_PARCEL = 0x3"

definition NICE_FLOR_S_IC_PLAIN :: u16 where
  "NICE_FLOR_S_IC_PLAIN = 0xFFFF"

definition NICE_ONE_COUNT_BIT :: u16 where
  "NICE_ONE_COUNT_BIT = 72"

definition nice_flor_s_key :: "u32 \<Rightarrow> u32 \<Rightarrow> u8 \<Rightarrow> u8 list option \<Rightarrow> u64" where
  "nice_flor_s_key sn c b table =
     (let decrypt = push_bit 16 (ucast sn) OR ucast c;
          enc_part = subghz_protocol_nice_flor_s_encrypt decrypt table;
          byte = push_bit 4 b OR (0xF XOR b XOR NICE_FLOR_S_CREATE_PARCEL) in
      push_bit 44 (ucast byte) OR enc_part)"

text \<open>The loop over the bits of the frame and the reversal of the register.\<close>

definition nice_one_crc_step :: "u8 list \<Rightarrow> nat \<Rightarrow> u8 \<Rightarrow> u8" where
  "nice_one_crc_step p i crc_data =
     (let crc = (if subghz_protocol_blocks_get_bit_array p i then crc_data XOR 1 else crc_data);
          crc_data = drop_bit 1 crc_data in
      if crc AND 0x01 \<noteq> 0 then crc_data XOR 0x97 else crc_data)"

definition subghz_protocol_nice_one_crc :: "u8 list \<Rightarrow> nat \<Rightarrow> nat \<Rightarrow> u32" where
  "subghz_protocol_nice_one_crc p start stop =
     (let crc_data = fold (nice_one_crc_step p) [start..<stop] 0xff in
      ucast (fold (\<lambda>i crc. let crc = push_bit 1 crc in if drop_bit i crc_data AND 0x01 \<noteq> 0 then crc OR 1 else crc) [0..<8] (0 :: u8)))"

definition nice_o_k :: "u8 list" where
  "nice_o_k = [0x8F, 0x8E, 0x8D, 0x8C, 0x84, 0x85, 0x86, 0x87, 0x8F, 0x8C, 0x89, 0x8D, 0x8C, 0x8D, 0x8E, 0x8F]"

definition subghz_protocol_nice_one_get_data :: "u8 list \<Rightarrow> u8 \<Rightarrow> u8 \<Rightarrow> u8 list" where
  "subghz_protocol_nice_one_get_data p num_parcel flags =
     (let num_parcel = num_parcel AND 0x0F;
          p = p[1 := (p ! 1 AND 0x0f) OR push_bit 4 (0x0f XOR (p ! 0 AND 0x0F) XOR num_parcel)];
          k = (if flags AND 0x4 \<noteq> 0 then nice_o_k ! unat num_parcel
               else num_parcel XOR (if num_parcel < 4 then 0x8f else 0x80));
          k = (if flags AND 0x2 \<noteq> 0 then k OR 0x40 else k);
          p = p[7 := k];
          p = p[8 := push_bit 4 ((flags AND 0x3) XOR k)];
          crc = ucast (subghz_protocol_nice_one_crc p 4 68) :: u8;
          p = p[8 := p ! 8 OR drop_bit 4 crc] in
      p[9 := push_bit 4 crc])"

text \<open>Saving the message is not part of the model; \<open>None\<close> is the failure before it.\<close>

definition subghz_protocol_nice_flor_s_create_data_ic ::
  "u8 list option \<Rightarrow> u32 \<Rightarrow> u8 \<Rightarrow> u16 \<Rightarrow> bool \<Rightarrow> bool \<Rightarrow> u16 \<Rightarrow> SubGhzBlockGeneric \<Rightarrow> SubGhzBlockGeneric option" where
  "subghz_protocol_nice_flor_s_create_data_ic table new_serial b counter nice_one o_code ic g =
     (let g = g\<lparr>serial := new_serial, cnt := ucast counter, data_count_bit := (if nice_one then NICE_ONE_COUNT_BIT else 52)\<rparr>;
          key = (if o_code then subghz_protocol_nice_o_make_key new_serial counter b NICE_FLOR_S_CREATE_PARCEL ic table
                 else nice_flor_s_key (serial g) (cnt g) b table) in
      if o_code \<and> key = 0 then None
      else
        let g = g\<lparr>data := key\<rparr> in
        Some (if data_count_bit g = NICE_ONE_COUNT_BIT then
            let add_data = map (\<lambda>i. ucast (drop_bit (48 - i * 8) (data g) AND 0xFF)) [0..<7] @ [0, 0, 0];
                add_data = subghz_protocol_nice_one_get_data add_data NICE_FLOR_S_CREATE_PARCEL (if o_code then 0x4 else 0x0) in
            g\<lparr>data_2 := fold (\<lambda>j d. push_bit 8 d + ucast (add_data ! j)) [7..<10] 0\<rparr>
          else g))"

definition subghz_protocol_nice_flor_s_create_data ::
  "u8 list option \<Rightarrow> u32 \<Rightarrow> u8 \<Rightarrow> u16 \<Rightarrow> bool \<Rightarrow> SubGhzBlockGeneric \<Rightarrow> SubGhzBlockGeneric option" where
  "subghz_protocol_nice_flor_s_create_data table new_serial b counter nice_one g =
     subghz_protocol_nice_flor_s_create_data_ic table new_serial b counter nice_one False 0 g"

definition subghz_protocol_nice_o_create_data ::
  "u8 list option \<Rightarrow> u32 \<Rightarrow> u8 \<Rightarrow> u16 \<Rightarrow> u16 \<Rightarrow> SubGhzBlockGeneric \<Rightarrow> SubGhzBlockGeneric option" where
  "subghz_protocol_nice_o_create_data table new_serial b counter ic g =
     subghz_protocol_nice_flor_s_create_data_ic table new_serial b counter False True ic g"

definition subghz_protocol_nice_o_one_create_data ::
  "u8 list option \<Rightarrow> u32 \<Rightarrow> u8 \<Rightarrow> u16 \<Rightarrow> u16 \<Rightarrow> SubGhzBlockGeneric \<Rightarrow> SubGhzBlockGeneric option" where
  "subghz_protocol_nice_o_one_create_data table new_serial b counter ic g =
     subghz_protocol_nice_flor_s_create_data_ic table new_serial b counter True True ic g"

text \<open>The argument \<open>file\<close> says whether there is a file name; the table is what the file holds, if it can be read.\<close>

definition subghz_protocol_nice_flor_s_remote_controller ::
  "bool \<Rightarrow> u8 list option \<Rightarrow> u16 \<Rightarrow> bool \<Rightarrow> SubGhzCustomBtn \<Rightarrow> SubGhzBlockGeneric \<Rightarrow> SubGhzBlockGeneric \<times> SubGhzCustomBtn" where
  "subghz_protocol_nice_flor_s_remote_controller file table ic o_code cb g =
     (let none = g\<lparr>cnt := 0, serial := 0, btn := 0\<rparr>;
          g = (if \<not> file then none
               else if o_code then
                 (case subghz_protocol_nice_o_decrypt (data g) ic table of
                    Some (sn, c, b) \<Rightarrow> g\<lparr>serial := sn, cnt := ucast c, btn := b\<rparr> | None \<Rightarrow> none)
               else
                 let decrypt = subghz_protocol_nice_flor_s_decrypt_ic (data g) NICE_FLOR_S_IC_PLAIN table in
                 g\<lparr>cnt := ucast (decrypt AND 0xFFFF), serial := ucast (drop_bit 16 decrypt AND 0xFFFFFFF), btn := ucast (drop_bit 48 decrypt AND 0xF)\<rparr>);
          cb = (if subghz_custom_btn_get_original cb = 0 then subghz_custom_btn_set_original (btn g) cb else cb) in
      (g, subghz_custom_btn_set_max 4 cb))"

section \<open>The cipher comes back\<close>

text \<open>The cipher on the bytes of a block.\<close>

definition nice_enc_bytes :: "u8 list \<Rightarrow> u16 \<Rightarrow> u8 list \<Rightarrow> u8 list" where
  "nice_enc_bytes t ic p =
     (let p = nice_encrypt_round t (nice_exchange (nice_encrypt_round t p)) in
      [NOT (p ! 2), NOT (p ! 3), NOT (p ! 4), p ! 1 XOR ucast ic, p ! 0 XOR ucast (drop_bit 8 ic), NOT (p ! 5) AND 0x0f, p ! 6, p ! 7])"

definition nice_dec_bytes :: "u8 list \<Rightarrow> u16 \<Rightarrow> u8 list \<Rightarrow> u8 list" where
  "nice_dec_bytes t ic p =
     nice_decrypt_round t (nice_exchange (nice_decrypt_round t
       [p ! 4 XOR ucast (drop_bit 8 ic), p ! 3 XOR ucast ic, NOT (p ! 0), NOT (p ! 1), NOT (p ! 2), NOT (p ! 5), p ! 6, p ! 7]))"

lemma magic_xor_bytes:
  "subghz_protocol_decoder_nice_flor_s_magic_xor [a0, a1, a2, a3, a4, a5, a6, a7] k =
     [a0, a1 XOR k, a2 XOR k, a3 XOR k, a4 XOR k, a5 XOR k, a6, a7]"
  by (simp add: subghz_protocol_decoder_nice_flor_s_magic_xor_def upt_rec eval_nat_numeral)

lemma set_byte_5: "[a0, a1, a2, a3, a4, a5, a6, a7][5 := v] = [a0, a1, a2, a3, a4, v, a6, a7]"
  by (simp add: eval_nat_numeral)

lemma length_magic_xor [simp]: "length (subghz_protocol_decoder_nice_flor_s_magic_xor p k) = length p"
proof -
  have "length (fold (\<lambda>i p. p[i := p ! i XOR k]) is p) = length p" for "is"
    by (induction "is" arbitrary: p) simp_all
  then show ?thesis by (simp add: subghz_protocol_decoder_nice_flor_s_magic_xor_def)
qed

lemma length_rounds [simp]:
  "length (nice_encrypt_round t p) = length p" "length (nice_decrypt_round t p) = length p" "length (nice_exchange p) = length p"
  by (simp_all add: nice_encrypt_round_def nice_decrypt_round_def nice_exchange_def Let_def)

lemma bytes8_cases:
  assumes "length p = 8"
  obtains a0 a1 a2 a3 a4 a5 a6 a7 where "p = [a0, a1, a2, a3, a4, a5, a6, a7 :: u8]"
  using eight_bytes [OF assms] by blast

lemma encrypt_ic_bytes: "subghz_protocol_nice_flor_s_encrypt_ic d ic (Some t) = le64 (nice_enc_bytes t ic (le_bytes d))"
proof -
  define p where "p = nice_encrypt_round t (nice_exchange (nice_encrypt_round t (le_bytes d)))"
  have "length p = 8" by (simp add: p_def)
  then obtain a0 a1 a2 a3 a4 a5 a6 a7 where a: "p = [a0, a1, a2, a3, a4, a5, a6, a7]" by (rule bytes8_cases)
  show ?thesis
    unfolding subghz_protocol_nice_flor_s_encrypt_ic_def nice_enc_bytes_def option.case Let_def p_def [symmetric] a
    by (simp add: eval_nat_numeral)
qed

lemma decrypt_ic_bytes: "subghz_protocol_nice_flor_s_decrypt_ic_buffer d ic t = le64 (nice_dec_bytes t ic (le_bytes d))"
proof -
  define p where "p = le_bytes d"
  have "length p = 8" by (simp add: p_def)
  then obtain a0 a1 a2 a3 a4 a5 a6 a7 where a: "p = [a0, a1, a2, a3, a4, a5, a6, a7]" by (rule bytes8_cases)
  show ?thesis
    unfolding subghz_protocol_nice_flor_s_decrypt_ic_buffer_def nice_dec_bytes_def Let_def p_def [symmetric] a
    by (simp add: eval_nat_numeral)
qed

lemma nice_mask_bits:
  "(x XOR (k AND 0xe0)) AND 0x1f = x AND (0x1f :: u8)"
  "drop_bit 3 (x XOR (k AND 0x7)) = drop_bit 3 (x :: u8)"
  "((x AND 0x0f) XOR k) AND 0x0f = (x XOR k) AND (0x0f :: u8)"
proof -
  have m: "(0x1f :: u8) = mask 5" "(0xe0 :: u8) = NOT (mask 5)" "(0x7 :: u8) = mask 3" "(0x0f :: u8) = mask 4"
    by (simp_all add: mask_eq_exp_minus_1)
  show "(x XOR (k AND 0xe0)) AND 0x1f = x AND 0x1f" "drop_bit 3 (x XOR (k AND 0x7)) = drop_bit 3 x"
    "((x AND 0x0f) XOR k) AND 0x0f = (x XOR k) AND 0x0f"
    unfolding m by (rule bit_word_eqI; auto simp: bit_xor_iff bit_and_iff bit_not_iff bit_mask_iff bit_drop_bit_eq)+
qed

text \<open>A decryption round undoes an encryption round and sees only the low half of the sixth byte.\<close>

lemma nice_round_back:
  assumes "nice_encrypt_round t [a0, a1, a2, a3, a4, a5, a6, a7] = [b0, b1, b2, b3, b4, b5, b6, b7]" "x AND 0x0f = b5 AND 0x0f"
  shows "nice_decrypt_round t [b0, b1, b2, b3, b4, x, c6, c7] = [a0, a1, a2, a3, a4, a5 AND 0x0f, c6, c7]" "b6 = a6" "b7 = a7"
proof -
  define k1 where "k1 = t ! unat (a0 AND 0x1f)"
  define y where "y = a0 XOR (k1 AND 0xe0)"
  define k2 where "k2 = t ! unat (drop_bit 3 y) + 0x25"
  note b = assms(1) [unfolded nice_encrypt_round_def Let_def subghz_protocol_nice_flor_s_get_byte_from_buffer_def]
  have b': "b0 = y XOR (k2 AND 0x7)" "b1 = (a1 XOR k1) XOR k2" "b2 = (a2 XOR k1) XOR k2" "b3 = (a3 XOR k1) XOR k2" "b4 = (a4 XOR k1) XOR k2"
    "b5 = (((a5 XOR k1) AND 0x0f) XOR k2) AND 0x0f" "b6 = a6" "b7 = a7"
    using b by (simp_all add: magic_xor_bytes set_byte_5 k1_def [symmetric] y_def [symmetric] k2_def [symmetric])
  show "b6 = a6" "b7 = a7" by (fact b')+
  have 2: "t ! unat (drop_bit 3 b0) + 0x25 = k2" unfolding b' nice_mask_bits by (simp add: k2_def)
  have y: "b0 XOR (k2 AND 0x7) = y" by (simp add: b' xor.assoc)
  have 1: "t ! unat (y AND 0x1f) = k1" unfolding y_def nice_mask_bits by (simp add: k1_def)
  have "(x XOR k2) AND 0x0f = (b5 XOR k2) AND 0x0f"
    using nice_mask_bits(3) [of x k2] nice_mask_bits(3) [of b5 k2] unfolding assms(2) by (rule trans [OF sym])
  also have "\<dots> = (a5 XOR k1) AND 0x0f"
    unfolding b' nice_mask_bits(3) by (simp only: xor.assoc xor_self_eq xor.right_neutral nice_mask_bits(3) and.assoc and.idem)
  finally have x: "(x XOR k2) AND 0x0f = (a5 XOR k1) AND 0x0f" .
  have x: "(((x XOR k2) AND 0x0f) XOR k1) AND 0x0f = a5 AND 0x0f"
    unfolding x nice_mask_bits(3) by (simp only: xor.assoc xor_self_eq xor.right_neutral)
  show "nice_decrypt_round t [b0, b1, b2, b3, b4, x, c6, c7] = [a0, a1, a2, a3, a4, a5 AND 0x0f, c6, c7]"
    unfolding nice_decrypt_round_def Let_def subghz_protocol_nice_flor_s_get_byte_from_buffer_def
    by (simp add: magic_xor_bytes set_byte_5 1 2 y x) (simp add: b' y_def xor.assoc)
qed

lemma nice_bytes_back:
  assumes "length p = 8" "length c = 8" "\<And>i. i < 5 \<Longrightarrow> c ! i = nice_enc_bytes t ic p ! i"
    "c ! 5 AND 0x0f = nice_enc_bytes t ic p ! 5 AND 0x0f"
  shows "nice_dec_bytes t ic c = [p ! 0, p ! 1, p ! 2, p ! 3, p ! 4, p ! 5 AND 0x0f, c ! 6, c ! 7]"
proof -
  obtain a0 a1 a2 a3 a4 a5 a6 a7 where p: "p = [a0, a1, a2, a3, a4, a5, a6, a7]" using assms(1) by (rule bytes8_cases)
  have "length (nice_encrypt_round t p) = 8" using assms(1) by simp
  then obtain b0 b1 b2 b3 b4 b5 b6 b7 where b: "nice_encrypt_round t [a0, a1, a2, a3, a4, a5, a6, a7] = [b0, b1, b2, b3, b4, b5, b6, b7]"
    unfolding p by (rule bytes8_cases)
  have x: "nice_exchange [b0, b1, b2, b3, b4, b5, b6, b7] = [b1, b0, b2, b3, b4, b5, b6, b7]" by (simp add: nice_exchange_def)
  have "length (nice_encrypt_round t [b1, b0, b2, b3, b4, b5, b6, b7]) = 8" by simp
  then obtain e0 e1 e2 e3 e4 e5 e6 e7 where e: "nice_encrypt_round t [b1, b0, b2, b3, b4, b5, b6, b7] = [e0, e1, e2, e3, e4, e5, e6, e7]"
    by (rule bytes8_cases)
  have enc: "nice_enc_bytes t ic p = [NOT e2, NOT e3, NOT e4, e1 XOR ucast ic, e0 XOR ucast (drop_bit 8 ic), NOT e5 AND 0x0f, e6, e7]"
    unfolding nice_enc_bytes_def Let_def p b x e by simp
  have "c ! 0 = NOT e2" "c ! 1 = NOT e3" "c ! 2 = NOT e4" "c ! 3 = e1 XOR ucast ic" "c ! 4 = e0 XOR ucast (drop_bit 8 ic)"
    using assms(3) [of 0] assms(3) [of 1] assms(3) [of 2] assms(3) [of 3] assms(3) [of 4] unfolding enc by simp_all
  then have "[c ! 4 XOR ucast (drop_bit 8 ic), c ! 3 XOR ucast ic, NOT (c ! 0), NOT (c ! 1), NOT (c ! 2), NOT (c ! 5), c ! 6, c ! 7] =
      [e0, e1, e2, e3, e4, NOT (c ! 5), c ! 6, c ! 7]"
    by (simp add: xor.assoc)
  moreover have "NOT (c ! 5) AND 0x0f = e5 AND 0x0f"
  proof -
    have m: "(0x0f :: u8) = mask 4" by (simp add: mask_eq_exp_minus_1)
    have c5: "c ! 5 AND 0x0f = NOT e5 AND 0x0f" using assms(4) unfolding enc by (simp add: and.assoc)
    have "bit (c ! 5) k \<longleftrightarrow> \<not> bit e5 k" if "k < 4" for k
      using arg_cong [OF c5 [unfolded m], of "\<lambda>w. bit w k"] that by (simp only: bit_and_iff bit_mask_iff bit_not_iff) simp
    then show ?thesis
      unfolding m by (intro bit_word_eqI) (auto simp: bit_and_iff bit_mask_iff bit_not_iff)
  qed
  then have "nice_decrypt_round t [e0, e1, e2, e3, e4, NOT (c ! 5), c ! 6, c ! 7] = [b1, b0, b2, b3, b4, b5 AND 0x0f, c ! 6, c ! 7]"
    by (rule nice_round_back(1) [OF e])
  moreover have "nice_exchange [b1, b0, b2, b3, b4, b5 AND 0x0f, c ! 6, c ! 7] = [b0, b1, b2, b3, b4, b5 AND 0x0f, c ! 6, c ! 7]"
    by (simp add: nice_exchange_def)
  moreover have "nice_decrypt_round t [b0, b1, b2, b3, b4, b5 AND 0x0f, c ! 6, c ! 7] = [a0, a1, a2, a3, a4, a5 AND 0x0f, c ! 6, c ! 7]"
    by (rule nice_round_back(1) [OF b]) (simp add: and.assoc)
  ultimately show ?thesis
    unfolding nice_dec_bytes_def p by simp
qed

lemma length_nice_enc [simp]: "length (nice_enc_bytes t ic p) = 8"
  by (simp add: nice_enc_bytes_def Let_def)

lemma nice_enc_high: "nice_enc_bytes t ic p ! 5 AND 0xF0 = 0"
  by (simp add: nice_enc_bytes_def Let_def and.assoc)

lemma nice_enc_keeps:
  assumes "length p = 8"
  shows "nice_enc_bytes t ic p ! 6 = p ! 6" "nice_enc_bytes t ic p ! 7 = p ! 7"
proof -
  obtain a0 a1 a2 a3 a4 a5 a6 a7 where p: "p = [a0, a1, a2, a3, a4, a5, a6, a7]" using assms by (rule bytes8_cases)
  have "length (nice_encrypt_round t p) = 8" using assms by simp
  then obtain b0 b1 b2 b3 b4 b5 b6 b7 where b: "nice_encrypt_round t [a0, a1, a2, a3, a4, a5, a6, a7] = [b0, b1, b2, b3, b4, b5, b6, b7]"
    unfolding p by (rule bytes8_cases)
  have x: "nice_exchange [b0, b1, b2, b3, b4, b5, b6, b7] = [b1, b0, b2, b3, b4, b5, b6, b7]" by (simp add: nice_exchange_def)
  have "length (nice_encrypt_round t [b1, b0, b2, b3, b4, b5, b6, b7]) = 8" by simp
  then obtain e0 e1 e2 e3 e4 e5 e6 e7 where e: "nice_encrypt_round t [b1, b0, b2, b3, b4, b5, b6, b7] = [e0, e1, e2, e3, e4, e5, e6, e7]"
    by (rule bytes8_cases)
  show "nice_enc_bytes t ic p ! 6 = p ! 6" "nice_enc_bytes t ic p ! 7 = p ! 7"
    unfolding nice_enc_bytes_def Let_def p b x e
    using nice_round_back(2,3) [OF b refl] nice_round_back(2,3) [OF e refl] by simp_all
qed

text \<open>
  The 44 low bits of a block go through the cipher, the bits 44 to 47 are lost, and the others are left alone; whatever is
  put above the 44 low bits of the ciphertext does not disturb the decryption.
\<close>

theorem nice_decrypt_encrypt:
  assumes "take_bit 44 c = take_bit 44 (subghz_protocol_nice_flor_s_encrypt_ic d ic (Some t))"
  shows "bit (subghz_protocol_nice_flor_s_decrypt_ic c ic (Some t)) k \<longleftrightarrow>
    (if k < 44 then bit d k else 48 \<le> k \<and> bit c k)"
proof -
  let ?e = "nice_enc_bytes t ic (le_bytes d)"
  have e: "subghz_protocol_nice_flor_s_encrypt_ic d ic (Some t) = le64 ?e" by (rule encrypt_ic_bytes)
  have bits: "bit c j \<longleftrightarrow> bit (?e ! (j div 8)) (j mod 8)" if "j < 44" for j
    using arg_cong [OF assms, of "\<lambda>w. bit w j"] that less_mult_imp_div_less [of j 8 8] by (simp add: bit_take_bit_iff e bit_le64)
  have "le_bytes c ! i = ?e ! i" if "i < 5" for i
  proof (rule bit_word_eqI)
    fix j assume "j < LENGTH(8)"
    then show "bit (le_bytes c ! i) j \<longleftrightarrow> bit (?e ! i) j"
      using bits [of "8 * i + j"] that by (simp add: nth_le_bytes bit_ucast_iff bit_drop_bit_eq)
  qed
  moreover have "le_bytes c ! 5 AND 0x0f = ?e ! 5 AND 0x0f"
  proof -
    have m: "(0x0f :: u8) = mask 4" by (simp add: mask_eq_exp_minus_1)
    show ?thesis unfolding m
    proof (rule bit_word_eqI)
      fix j assume "j < LENGTH(8)"
      moreover have "(40 + j) div 8 = 5 \<and> (40 + j) mod 8 = j" if "j < 4" using that by presburger
      ultimately show "bit (le_bytes c ! 5 AND mask 4) j \<longleftrightarrow> bit (?e ! 5 AND mask 4) j"
        using bits [of "40 + j"] by (cases "j < 4") (simp_all add: nth_le_bytes bit_ucast_iff bit_drop_bit_eq bit_and_iff bit_mask_iff)
    qed
  qed
  ultimately have "nice_dec_bytes t ic (le_bytes c) = [le_bytes d ! 0, le_bytes d ! 1, le_bytes d ! 2, le_bytes d ! 3, le_bytes d ! 4,
      le_bytes d ! 5 AND 0x0f, le_bytes c ! 6, le_bytes c ! 7]"
    by (intro nice_bytes_back) simp_all
  then have dec: "subghz_protocol_nice_flor_s_decrypt_ic c ic (Some t) =
      le64 [le_bytes d ! 0, le_bytes d ! 1, le_bytes d ! 2, le_bytes d ! 3, le_bytes d ! 4, le_bytes d ! 5 AND 0x0f, le_bytes c ! 6, le_bytes c ! 7]"
    by (simp add: subghz_protocol_nice_flor_s_decrypt_ic_def decrypt_ic_bytes)
  have m: "(0x0f :: u8) = mask 4" by (simp add: mask_eq_exp_minus_1)
  have nth: "[le_bytes d ! 0, le_bytes d ! 1, le_bytes d ! 2, le_bytes d ! 3, le_bytes d ! 4, le_bytes d ! 5 AND 0x0f, le_bytes c ! 6, le_bytes c ! 7] ! i =
      (if i < 5 then le_bytes d ! i else if i = 5 then le_bytes d ! 5 AND 0x0f else le_bytes c ! i)" if "i < 8" for i
    using that by (auto simp: less_Suc_eq eval_nat_numeral)
  show ?thesis
  proof (cases "k < 64")
    case True
    then have b: "k div 8 < 8" by simp
    then have b8: "k div 8 < Suc (Suc (Suc (Suc (Suc (Suc (Suc (Suc 0)))))))" by linarith
    have k: "8 * (k div 8) + k mod 8 = k" by simp
    consider "k < 40" | "40 \<le> k \<and> k < 48" | "48 \<le> k" by linarith
    then show ?thesis
    proof cases
      case 1
      then have "k div 8 < 5" by simp
      then show ?thesis using 1 True nth [OF b] k b8
        by (simp add: dec bit_le64 nth_le_bytes bit_ucast_iff bit_drop_bit_eq)
    next
      case 2
      then have q: "k div 8 = 5" by presburger
      then have r: "k mod 8 = k - 40" using k by linarith
      show ?thesis using 2 True nth [of 5] b8 unfolding m
        by (auto simp: dec bit_le64 q r nth_le_bytes bit_ucast_iff bit_drop_bit_eq bit_and_iff m bit_mask_iff)
    next
      case 3
      then have "5 < k div 8" by simp
      then have "bit (subghz_protocol_nice_flor_s_decrypt_ic c ic (Some t)) k \<longleftrightarrow> bit c k" using True nth [OF b] k b8
        by (simp add: dec bit_le64 nth_le_bytes bit_ucast_iff bit_drop_bit_eq)
      then show ?thesis using 3 by auto
    qed
  next
    case False
    then have "\<not> bit w k" for w :: u64 using bit_imp_le_length [of w k] by auto
    then show ?thesis by simp
  qed
qed

section \<open>Messages come back\<close>

lemma xor_pair_twice: "(c XOR u XOR v) XOR u XOR v = (c :: 'a::len word)"
  by (rule bit_word_eqI) (auto simp: bit_xor_iff)

lemma nice_cnt_g_twice: "nice_o_cnt_g (nice_o_cnt_g c) = c"
proof -
  define b where "b = c AND 0x2222"
  have z: "drop_bit 1 b AND 0x2222 = 0" "push_bit 1 b AND 0x2222 = 0"
    by (simp_all add: b_def and.assoc)
  have g: "nice_o_cnt_g x = x XOR drop_bit 1 b XOR push_bit 1 b" if "x AND 0x2222 = b" for x
    unfolding nice_o_cnt_g_def Let_def that ..
  have "(c XOR drop_bit 1 b XOR push_bit 1 b) AND 0x2222 = b"
    by (simp only: bit.conj_xor_distrib2 z xor.right_neutral) (simp add: b_def)
  from g [OF this] g [OF b_def [symmetric]] show ?thesis
    by (simp only: xor_pair_twice)
qed

lemma nice_cnt_back: "subghz_protocol_nice_o_cnt_swap (subghz_protocol_nice_o_cnt_enc c) = c"
  by (simp add: subghz_protocol_nice_o_cnt_swap_def subghz_protocol_nice_o_cnt_enc_def nice_cnt_g_twice xor.assoc)

lemma nice_enc_word_high:
  assumes "\<And>j. 48 \<le> j \<Longrightarrow> \<not> bit d j" "44 \<le> k"
  shows "\<not> bit (subghz_protocol_nice_flor_s_encrypt_ic d ic (Some t)) k"
proof (cases "k < 48")
  case True
  have m: "(0x0f :: u8) = mask 4" by (simp add: mask_eq_exp_minus_1)
  have q: "k div 8 = 5" "k mod 8 = k - 40" using True assms(2) by presburger+
  show ?thesis
    unfolding encrypt_ic_bytes bit_le64 q using assms(2)
    by (auto simp: nice_enc_bytes_def Let_def m bit_and_iff bit_mask_iff)
next
  case False
  have keep: "bit (subghz_protocol_nice_flor_s_encrypt_ic d ic (Some t)) k \<longleftrightarrow> k < 64 \<and> bit (le_bytes d ! (k div 8)) (k mod 8)"
  proof (cases "k < 64")
    case True
    then have "k div 8 = 6 \<or> k div 8 = 7" using False by presburger
    then show ?thesis using nice_enc_keeps [of "le_bytes d" t ic] True
      by (auto simp: encrypt_ic_bytes bit_le64)
  qed (simp add: encrypt_ic_bytes bit_le64)
  have "8 * (k div 8) + k mod 8 = k" by simp
  then show ?thesis
    unfolding keep using False assms(1) [of k] less_mult_imp_div_less [of k 8 8]
    by (auto simp: nth_le_bytes bit_ucast_iff bit_drop_bit_eq)
qed

text \<open>A key: 44 bits of ciphertext below a byte.\<close>

lemma nice_key_back:
  assumes "\<And>j. 48 \<le> j \<Longrightarrow> \<not> bit d j"
    and "key = push_bit 44 (ucast (x :: u8)) OR subghz_protocol_nice_flor_s_encrypt_ic d ic (Some t)"
  shows "bit (subghz_protocol_nice_flor_s_decrypt_ic key ic (Some t)) k \<longleftrightarrow>
      (if k < 44 then bit d k else 48 \<le> k \<and> bit x (k - 44))"
    and "bit key j \<longleftrightarrow> (if j < 44 then bit (subghz_protocol_nice_flor_s_encrypt_ic d ic (Some t)) j else bit x (j - 44))"
proof -
  let ?e = "subghz_protocol_nice_flor_s_encrypt_ic d ic (Some t)"
  have hi: "\<not> bit ?e j" if "44 \<le> j" for j by (rule nice_enc_word_high [OF assms(1) that])
  have key: "bit key j \<longleftrightarrow> (if j < 44 then bit ?e j else bit x (j - 44))" for j
    using hi [of j] by (auto simp: assms(2) bit_or_iff bit_push_bit_iff bit_ucast_iff dest: bit_imp_le_length)
  show "bit key j \<longleftrightarrow> (if j < 44 then bit ?e j else bit x (j - 44))" by (rule key)
  have "take_bit 44 key = take_bit 44 ?e"
    by (rule bit_word_eqI) (auto simp: bit_take_bit_iff key)
  from nice_decrypt_encrypt [OF this] show "bit (subghz_protocol_nice_flor_s_decrypt_ic key ic (Some t)) k \<longleftrightarrow>
      (if k < 44 then bit d k else 48 \<le> k \<and> bit x (k - 44))"
    by (simp add: key)
qed

lemma plain_bits:
  "bit (push_bit 16 (ucast (sn :: u32)) OR ucast (c :: u16) :: u64) k \<longleftrightarrow> (if k < 16 then bit c k else bit sn (k - 16))"
  by (auto simp: bit_or_iff bit_push_bit_iff bit_ucast_iff dest: bit_imp_le_length)

lemma nice_flor_s_received:
  assumes "b < 16" "key = nice_flor_s_key sn (ucast (c :: u16)) b (Some t)"
  shows "ucast (subghz_protocol_nice_flor_s_decrypt_ic key NICE_FLOR_S_IC_PLAIN (Some t) AND 0xFFFF) = (ucast c :: u32)"
    "ucast (drop_bit 16 (subghz_protocol_nice_flor_s_decrypt_ic key NICE_FLOR_S_IC_PLAIN (Some t)) AND 0xFFFFFFF) = sn AND 0xFFFFFFF"
    "ucast (drop_bit 48 (subghz_protocol_nice_flor_s_decrypt_ic key NICE_FLOR_S_IC_PLAIN (Some t)) AND 0xF) = b"
proof -
  let ?d = "push_bit 16 (ucast sn) OR ucast c :: u64" and ?x = "push_bit 4 b OR (0xF XOR b XOR NICE_FLOR_S_CREATE_PARCEL)"
  have uu: "ucast (ucast c :: u32) = (ucast c :: u64)"
    by (rule bit_word_eqI) (auto simp: bit_ucast_iff dest: bit_imp_le_length)
  have key: "key = push_bit 44 (ucast ?x) OR subghz_protocol_nice_flor_s_encrypt_ic ?d NICE_FLOR_S_IC_PLAIN (Some t)"
    unfolding assms(2) nice_flor_s_key_def Let_def subghz_protocol_nice_flor_s_encrypt_def NICE_FLOR_S_IC_PLAIN_def uu ..
  have "\<not> bit ?d j" if "48 \<le> j" for j using that unfolding plain_bits by (auto dest: bit_imp_le_length)
  note dec = nice_key_back(1) [OF this key]
  have b4: "bit b j \<Longrightarrow> j < 4" for j by (rule bit_below [of b 4]) (use assms(1) in \<open>simp_all add: word_less_nat_alt\<close>)
  have x: "bit ?x (4 + j) \<longleftrightarrow> bit b j" for j
  proof -
    have m: "(0xF :: u8) = mask 4" "(0x3 :: u8) = mask 2" by (simp_all add: mask_eq_exp_minus_1)
    show ?thesis using b4 [of "4 + j"] b4 [of j]
      by (auto simp: NICE_FLOR_S_CREATE_PARCEL_def m bit_or_iff bit_push_bit_iff bit_xor_iff bit_mask_iff)
  qed
  have m: "(0xFFFF :: u64) = mask 16" "(0xFFFFFFF :: u64) = mask 28" "(0xFFFFFFF :: u32) = mask 28" "(0xF :: u64) = mask 4"
    by (simp_all add: mask_eq_exp_minus_1)
  show "ucast (subghz_protocol_nice_flor_s_decrypt_ic key NICE_FLOR_S_IC_PLAIN (Some t) AND 0xFFFF) = (ucast c :: u32)"
    unfolding m by (rule bit_word_eqI) (auto simp: bit_ucast_iff bit_and_iff bit_mask_iff dec plain_bits dest: bit_imp_le_length)
  show "ucast (drop_bit 16 (subghz_protocol_nice_flor_s_decrypt_ic key NICE_FLOR_S_IC_PLAIN (Some t)) AND 0xFFFFFFF) = sn AND 0xFFFFFFF"
    unfolding m by (rule bit_word_eqI) (auto simp: bit_ucast_iff bit_and_iff bit_mask_iff bit_drop_bit_eq dec plain_bits)
  show "ucast (drop_bit 48 (subghz_protocol_nice_flor_s_decrypt_ic key NICE_FLOR_S_IC_PLAIN (Some t)) AND 0xF) = b"
    unfolding m by (rule bit_word_eqI) (auto simp: bit_ucast_iff bit_and_iff bit_mask_iff bit_drop_bit_eq dec x dest: b4)
qed

lemma nice_o_received:
  assumes key: "subghz_protocol_nice_o_make_key sn c b parcel ic (Some t) = key" "key \<noteq> 0" and b: "0 < b" "b < 16"
  shows "subghz_protocol_nice_o_decrypt key ic (Some t) = Some (sn AND 0x0FFFFFFF, c, b)"
proof -
  define p where "p = parcel AND 0x0F"
  obtain m32 m16 where mask: "subghz_protocol_nice_o_mask p = (m32, m16)" by fastforce
  let ?d = "push_bit 16 (ucast ((sn XOR m32) AND 0x0FFFFFFF)) OR ucast (subghz_protocol_nice_o_cnt_enc c) :: u64"
  let ?e = "subghz_protocol_nice_flor_s_encrypt_ic ?d (ic XOR m16) (Some t)"
  define x :: u8 where "x = push_bit 4 (b AND 0x0F) OR (0x0F XOR (b AND 0x0F) XOR p)"
  have k: "key = push_bit 44 (ucast x) OR ?e"
    using key unfolding subghz_protocol_nice_o_make_key_def Let_def p_def [symmetric] mask prod.case x_def by (simp split: if_splits)
  have m: "(0x0F :: u8) = mask 4" "(0x0F :: u64) = mask 4" "(0x0FFFFFFF :: u32) = mask 28" by (simp_all add: mask_eq_exp_minus_1)
  have b4: "bit b j \<Longrightarrow> j < 4" for j by (rule bit_below [of b 4]) (use b(2) in \<open>simp_all add: word_less_nat_alt\<close>)
  have p4: "bit p j \<Longrightarrow> j < 4" for j unfolding p_def m by (simp add: bit_and_iff bit_mask_iff)
  have xb: "bit x j \<longleftrightarrow> (if j < 4 then \<not> (bit b j \<noteq> bit p j) else bit b (j - 4))" for j
    unfolding x_def m by (auto simp: bit_or_iff bit_push_bit_iff bit_xor_iff bit_and_iff bit_mask_iff dest: b4 p4)
  have d: "bit ?d j \<longleftrightarrow> (if j < 16 then bit (subghz_protocol_nice_o_cnt_enc c) j else bit (sn XOR m32) (j - 16) \<and> j < 44)" for j
    unfolding plain_bits m by (auto simp: bit_and_iff bit_mask_iff)
  then have "\<not> bit ?d j" if "48 \<le> j" for j using that by simp
  note dec = nice_key_back(1) [OF this k] and kb = nice_key_back(2) [OF this k]
  define D where "D = subghz_protocol_nice_flor_s_decrypt_ic key (ic XOR m16) (Some t)"
  note dec = dec [folded D_def]
  have parcel: "subghz_protocol_nice_o_get_parcel key = p"
    unfolding subghz_protocol_nice_o_get_parcel_def m
    by (rule bit_word_eqI) (auto simp: bit_ucast_iff bit_xor_iff bit_and_iff bit_mask_iff bit_drop_bit_eq kb xb dest: p4)
  have btn: "ucast (drop_bit 48 key AND 0x0F) = b"
    unfolding m by (rule bit_word_eqI) (auto simp: bit_ucast_iff bit_and_iff bit_mask_iff bit_drop_bit_eq kb xb dest: b4)
  have "D \<noteq> nice_no_table"
  proof
    assume "D = nice_no_table"
    then have "\<not> bit D (48 + j)" for j by (simp add: nice_no_table_def)
    then have "\<not> bit x (4 + j)" for j by (simp add: dec)
    then have "\<not> bit b j" for j by (simp add: xb)
    then have "b = 0" by (intro bit_word_eqI) simp
    then show False using b(1) by simp
  qed
  moreover have "ucast D = subghz_protocol_nice_o_cnt_enc c"
    by (rule bit_word_eqI) (auto simp: bit_ucast_iff dec d)
  moreover have "ucast (drop_bit 16 D XOR ucast m32) AND 0x0FFFFFFF = sn AND 0x0FFFFFFF"
    unfolding m by (rule bit_word_eqI) (auto simp: bit_ucast_iff bit_xor_iff bit_and_iff bit_mask_iff bit_drop_bit_eq dec d)
  ultimately show ?thesis
    unfolding subghz_protocol_nice_o_decrypt_def parcel mask prod.case Let_def D_def [symmetric]
    by (simp add: nice_cnt_back btn)
qed

text \<open>
  A new Nice remote, FLOR-S or O-Code, with or without the twenty bits of Nice One, comes back: for every
  table, installer code, serial number, counter and button, if the key can be made then the message read from it has
  the 28 low bits of the serial number, the counter and the button.
\<close>

theorem nice_create_back:
  assumes "subghz_protocol_nice_flor_s_create_data_ic (Some t) new_serial b counter nice_one o_code ic g = Some g'" "0 < b" "b < 16"
  shows "case subghz_protocol_nice_flor_s_remote_controller True (Some t) ic o_code cb g' of (r, _) \<Rightarrow>
    serial r = new_serial AND 0xFFFFFFF \<and> cnt r = ucast counter \<and> btn r = b"
proof (cases o_code)
  case True
  have "subghz_protocol_nice_o_make_key new_serial counter b NICE_FLOR_S_CREATE_PARCEL ic (Some t) = data g'" "data g' \<noteq> 0"
    using assms(1) True by (auto simp: subghz_protocol_nice_flor_s_create_data_ic_def Let_def split: if_splits)
  from nice_o_received [OF this assms(2,3)] show ?thesis
    by (simp add: subghz_protocol_nice_flor_s_remote_controller_def True Let_def)
next
  case False
  have "data g' = nice_flor_s_key new_serial (ucast counter) b (Some t)"
    using assms(1) False by (auto simp: subghz_protocol_nice_flor_s_create_data_ic_def Let_def split: if_splits)
  from nice_flor_s_received [OF assms(3) this] show ?thesis
    by (simp add: subghz_protocol_nice_flor_s_remote_controller_def False Let_def)
qed

text \<open>A key of an O-Code remote that can be made, with a made-up table.\<close>

lemma nice_example_key:
  "subghz_protocol_nice_o_make_key 0x436C682 0x444 1 NICE_FLOR_S_CREATE_PARCEL 0x1234 (Some (map of_nat [7..<39])) \<noteq> 0"
  by code_simp

theorem nice_create_back_witness:
  "\<exists>g'. subghz_protocol_nice_flor_s_create_data_ic (Some (map of_nat [7..<39])) 0x436C682 1 0x444 False True 0x1234 (generic_zero ''Nice FloR-S'') = Some g' \<and>
   (case subghz_protocol_nice_flor_s_remote_controller True (Some (map of_nat [7..<39])) 0x1234 True custom_btn_init g' of (r, _) \<Rightarrow>
    serial r = 0x436C682 AND 0xFFFFFFF \<and> cnt r = ucast (0x444 :: u16) \<and> btn r = 1)"
proof -
  obtain g' where g': "subghz_protocol_nice_flor_s_create_data_ic (Some (map of_nat [7..<39])) 0x436C682 1 0x444 False True 0x1234
      (generic_zero ''Nice FloR-S'') = Some g'"
    using nice_example_key by (auto simp: subghz_protocol_nice_flor_s_create_data_ic_def Let_def simp del: upt_rec_numeral)
  show ?thesis
    by (intro exI [of _ g'] conjI g' nice_create_back [OF g']) simp_all
qed

end
