(* ===== verification/Subghz_Alutech.thy ===== *)
theory Subghz_Alutech
  imports Subghz_Rolling_Code
begin

text \<open>
  Alutech AT-4N (\<^verbatim>\<open>lib/subghz/protocols/alutech_at_4n.c\<close>): a block cipher whose constants come from a table of 32
  bytes on the SD card, two checksums, and the making and reading of messages. The signal is not modelled.

  The loops of the cipher stop when the sum of the rounds meets a constant of the table; whether they stop depends on the
  table, so they are partial functions: \<open>None\<close> is a loop that does not end. The table is an argument, \<open>None\<close> when there is none.
\<close>

section \<open>Cipher\<close>

definition SUBGHZ_NO_ALUTECH_AT_4N_RAINBOW_TABLE :: u64 where
  "SUBGHZ_NO_ALUTECH_AT_4N_RAINBOW_TABLE = 0xFFFFFFFFFFFFFFFF"

definition subghz_protocol_alutech_at_4n_get_magic_data_from_buffer :: "u8 list \<Rightarrow> u8 \<Rightarrow> u32" where
  "subghz_protocol_alutech_at_4n_get_magic_data_from_buffer buffer number =
     (let address = unat number * 4 in fold (\<lambda>i magic. push_bit 8 magic OR ucast (buffer ! i)) [address..<address + 4] 0)"

definition alutech_crc_bit :: "u8 \<Rightarrow> u8" where
  "alutech_crc_bit crc = (if crc AND 0x80 \<noteq> 0 then push_bit 1 crc XOR 0x31 else push_bit 1 crc)"

definition subghz_protocol_alutech_at_4n_crc :: "u64 \<Rightarrow> u8" where
  "subghz_protocol_alutech_at_4n_crc d = fold (\<lambda>y crc. (alutech_crc_bit ^^ 8) (crc XOR le_bytes d ! y)) [0..<8] 0xff"

definition subghz_protocol_alutech_at_4n_decrypt_data_crc :: "u8 \<Rightarrow> u8" where
  "subghz_protocol_alutech_at_4n_decrypt_data_crc x = NOT ((alutech_crc_bit ^^ 8) x)"

text \<open>The two halves of a block, each with the first byte in memory highest, and back.\<close>

definition alutech_load :: "u64 \<Rightarrow> u32 \<times> u32" where
  "alutech_load d =
     (let p = le_bytes d; f = (\<lambda>i. push_bit 24 (ucast (p ! i)) OR push_bit 16 (ucast (p ! (i + 1))) OR push_bit 8 (ucast (p ! (i + 2))) OR
            ucast (p ! (i + 3)) :: u32) in (f 0, f 4))"

definition alutech_store :: "u32 \<times> u32 \<Rightarrow> u64" where
  "alutech_store s =
     (case s of (data1, data2) \<Rightarrow>
        le64 [ucast (drop_bit 24 data1), ucast (drop_bit 16 data1), ucast (drop_bit 8 data1), ucast data1,
              ucast (drop_bit 24 data2), ucast (drop_bit 16 data2), ucast (drop_bit 8 data2), ucast data2])"

partial_function (option) alutech_decrypt_loop :: "u32 list \<Rightarrow> u32 \<Rightarrow> u32 \<Rightarrow> u32 \<Rightarrow> (u32 \<times> u32) option" where
  "alutech_decrypt_loop magic_data i data1 data2 =
     (let data2 = data2 - ((magic_data ! 1 + push_bit 4 data1) XOR ((magic_data ! 2 + drop_bit 5 data1) XOR (data1 + i)));
          data3 = data2 + i;
          i = i + magic_data ! 3;
          data1 = data1 - ((magic_data ! 4 + push_bit 4 data2) XOR ((magic_data ! 5 + drop_bit 5 data2) XOR data3)) in
      if i \<noteq> 0 then alutech_decrypt_loop magic_data i data1 data2 else Some (data1, data2))"

partial_function (option) alutech_encrypt_loop :: "u32 list \<Rightarrow> u32 \<Rightarrow> u32 \<Rightarrow> u32 \<Rightarrow> (u32 \<times> u32) option" where
  "alutech_encrypt_loop magic_data data1 data2 data3 =
     (let data1 = data1 + magic_data ! 0;
          data2 = data2 + ((magic_data ! 1 + push_bit 4 data3) XOR ((magic_data ! 2 + drop_bit 5 data3) XOR (data1 + data3)));
          data3 = data3 + ((magic_data ! 3 + push_bit 4 data2) XOR ((magic_data ! 4 + drop_bit 5 data2) XOR (data1 + data2))) in
      if data1 \<noteq> magic_data ! 5 then alutech_encrypt_loop magic_data data1 data2 data3 else Some (data2, data3))"

definition subghz_protocol_alutech_at_4n_decrypt :: "u64 \<Rightarrow> u8 list option \<Rightarrow> u64 option" where
  "subghz_protocol_alutech_at_4n_decrypt d table =
     (case table of None \<Rightarrow> Some SUBGHZ_NO_ALUTECH_AT_4N_RAINBOW_TABLE
      | Some buffer \<Rightarrow>
          let (data1, data2) = alutech_load d;
              magic_data = map (subghz_protocol_alutech_at_4n_get_magic_data_from_buffer buffer) [0, 1, 2, 3, 4, 5] in
          map_option alutech_store (alutech_decrypt_loop magic_data (magic_data ! 0) data1 data2))"

definition subghz_protocol_alutech_at_4n_encrypt :: "u64 \<Rightarrow> u8 list option \<Rightarrow> u64 option" where
  "subghz_protocol_alutech_at_4n_encrypt d table =
     (case table of None \<Rightarrow> Some SUBGHZ_NO_ALUTECH_AT_4N_RAINBOW_TABLE
      | Some buffer \<Rightarrow>
          let (data2, data3) = alutech_load d;
              magic_data = map (subghz_protocol_alutech_at_4n_get_magic_data_from_buffer buffer) [6, 4, 5, 1, 2, 0] in
          map_option alutech_store (alutech_encrypt_loop magic_data 0 data2 data3))"

section \<open>Messages\<close>

record SubGhzProtocolEncoderAlutech_at_4n =
  generic :: SubGhzBlockGeneric
  crc :: u32

text \<open>The counter modes; the result is the counter, the global state and the flag \<open>bypass\<close>.\<close>

definition alutech_at_4n_next_cnt ::
  "u8 \<Rightarrow> u32 \<Rightarrow> bool \<Rightarrow> SubGhzBlockGenericGlobal \<Rightarrow> u32 \<Rightarrow> u32 \<times> SubGhzBlockGenericGlobal \<times> bool" where
  "alutech_at_4n_next_cnt mode mult bypass global c =
     (let bypass = (bypass \<or> cnt_need_override global) in
      if mode = 0 \<or> bypass then mode_0_cnt_16 mult bypass global c
      else if mode = 1 then (ofex_cnt_16 c, global, bypass)
      else (if c \<ge> 0x0005 then 0 else c + 1, global, bypass))"

text \<open>The message before encryption.\<close>

definition alutech_message :: "u32 \<Rightarrow> u32 \<Rightarrow> u8 \<Rightarrow> u64" where
  "alutech_message sn c b =
     push_bit 56 (ucast (subghz_protocol_alutech_at_4n_decrypt_data_crc (ucast (c AND 0xFF)))) OR push_bit 24 (ucast sn) OR
     ucast (push_bit 8 c) OR ucast b"

definition subghz_protocol_alutech_at_4n_gen_data ::
  "u8 \<Rightarrow> u32 \<Rightarrow> u8 list option \<Rightarrow> bool \<times> SubGhzBlockGenericGlobal \<Rightarrow> SubGhzProtocolEncoderAlutech_at_4n \<Rightarrow> u8 \<Rightarrow>
   (SubGhzProtocolEncoderAlutech_at_4n \<times> bool \<times> SubGhzBlockGenericGlobal) option" where
  "subghz_protocol_alutech_at_4n_gen_data mode mult table env inst b =
     (case env of (bypass, global) \<Rightarrow>
      case subghz_protocol_alutech_at_4n_decrypt (subghz_protocol_blocks_reverse_key (data (generic inst)) 64) table of None \<Rightarrow> None
      | Some d \<Rightarrow>
          let g = generic inst;
              g = (if ucast (drop_bit 56 d) = subghz_protocol_alutech_at_4n_decrypt_data_crc (ucast (drop_bit 8 d AND 0xFF))
                   then g\<lparr>btn := ucast d, cnt := ucast (ucast (drop_bit 8 d) :: u16), serial := ucast (drop_bit 24 d)\<rparr> else g);
              (c, global, bypass) = alutech_at_4n_next_cnt mode mult bypass global (cnt g);
              g = g\<lparr>cnt := c\<rparr> in
          case subghz_protocol_alutech_at_4n_encrypt (alutech_message (serial g) (cnt g) b) table of None \<Rightarrow> None
          | Some d \<Rightarrow>
              Some (\<lparr>generic = g\<lparr>data := subghz_protocol_blocks_reverse_key d 64\<rparr>,
                     crc = ucast (subghz_protocol_blocks_reverse_key (ucast (subghz_protocol_alutech_at_4n_crc d)) 8)\<rparr>, bypass, global))"

text \<open>The argument \<open>x\<close> is the received checksum.\<close>

definition subghz_protocol_alutech_at_4n_remote_controller ::
  "SubGhzCustomBtn \<Rightarrow> SubGhzBlockGeneric \<Rightarrow> u8 \<Rightarrow> u8 list option \<Rightarrow> (SubGhzBlockGeneric \<times> SubGhzCustomBtn) option" where
  "subghz_protocol_alutech_at_4n_remote_controller cb g x table =
     (let d = subghz_protocol_blocks_reverse_key (data g) 64;
          x = ucast (subghz_protocol_blocks_reverse_key (ucast x) 8) :: u8;
          status = (x = subghz_protocol_alutech_at_4n_crc d) in
      case (if status then subghz_protocol_alutech_at_4n_decrypt d table else Some d) of None \<Rightarrow> None
      | Some d \<Rightarrow>
          let g = (if status \<and> ucast (drop_bit 56 d) = subghz_protocol_alutech_at_4n_decrypt_data_crc (ucast (drop_bit 8 d AND 0xFF))
                   then g\<lparr>btn := ucast d, cnt := ucast (ucast (drop_bit 8 d) :: u16), serial := ucast (drop_bit 24 d)\<rparr> else g);
              g = (if \<not> status then g\<lparr>btn := 0, cnt := 0, serial := 0\<rparr> else g);
              cb = (if subghz_custom_btn_get_original cb = 0 then subghz_custom_btn_set_original (btn g) cb else cb) in
          Some (g, subghz_custom_btn_set_max 4 cb))"

definition subghz_protocol_alutech_at_4n_create_data ::
  "u8 \<Rightarrow> u32 \<Rightarrow> u8 list option \<Rightarrow> bool \<times> SubGhzBlockGenericGlobal \<Rightarrow> SubGhzProtocolEncoderAlutech_at_4n \<Rightarrow> u32 \<Rightarrow> u8 \<Rightarrow> u16 \<Rightarrow>
   (SubGhzProtocolEncoderAlutech_at_4n \<times> bool \<times> SubGhzBlockGenericGlobal) option" where
  "subghz_protocol_alutech_at_4n_create_data mode mult table env inst new_serial b counter =
     subghz_protocol_alutech_at_4n_gen_data mode mult table env
       (inst\<lparr>generic := (generic inst)\<lparr>serial := new_serial, cnt := ucast counter, data_count_bit := 72\<rparr>\<rparr>) b"

definition subghz_protocol_alutech_at_4n_get_btn_code :: "SubGhzCustomBtn \<Rightarrow> u8" where
  "subghz_protocol_alutech_at_4n_get_btn_code cb =
     (let i = subghz_custom_btn_get cb; b = subghz_custom_btn_get_original cb; known = b \<in> {0x11, 0x22, 0xFF, 0x44, 0x33} in
      if i = SUBGHZ_CUSTOM_BTN_OK \<and> b \<noteq> 0 then b
      else if i = SUBGHZ_CUSTOM_BTN_UP then (if b = 0x11 then 0x22 else if known then 0x11 else b)
      else if i = SUBGHZ_CUSTOM_BTN_DOWN then (if b = 0x44 then 0xFF else if known then 0x44 else b)
      else if i = SUBGHZ_CUSTOM_BTN_LEFT then (if b = 0x33 then 0x22 else if known then 0x33 else b)
      else if i = SUBGHZ_CUSTOM_BTN_RIGHT then (if b = 0xFF \<or> b = 0x44 then 0x22 else if known then 0xFF else b)
      else b)"

section \<open>The cipher comes back\<close>

definition alutech_mix :: "u32 \<Rightarrow> u32 \<Rightarrow> u32 \<Rightarrow> u32 \<Rightarrow> u32" where
  "alutech_mix p q x s = (p + push_bit 4 x) XOR ((q + drop_bit 5 x) XOR (x + s))"

abbreviation alutech_magic :: "u8 list \<Rightarrow> u8 \<Rightarrow> u32" where
  "alutech_magic t k \<equiv> subghz_protocol_alutech_at_4n_get_magic_data_from_buffer t k"

definition alutech_enc_step :: "u8 list \<Rightarrow> u32 \<Rightarrow> u32 \<times> u32 \<Rightarrow> u32 \<times> u32" where
  "alutech_enc_step t s x =
     (case x of (a, b) \<Rightarrow> let a = a + alutech_mix (alutech_magic t 4) (alutech_magic t 5) b s in
        (a, b + alutech_mix (alutech_magic t 1) (alutech_magic t 2) a s))"

definition alutech_dec_step :: "u8 list \<Rightarrow> u32 \<Rightarrow> u32 \<times> u32 \<Rightarrow> u32 \<times> u32" where
  "alutech_dec_step t s x =
     (case x of (a, b) \<Rightarrow> let b = b - alutech_mix (alutech_magic t 1) (alutech_magic t 2) a s in
        (a - alutech_mix (alutech_magic t 4) (alutech_magic t 5) b s, b))"

lemma alutech_step_back: "alutech_dec_step t s (alutech_enc_step t s x) = x"
  by (cases x) (simp add: alutech_dec_step_def alutech_enc_step_def Let_def)

text \<open>\<open>n\<close> rounds, the sum going up from \<open>s\<close> by \<open>k\<close>, or down from \<open>s\<close>.\<close>

fun alutech_enc_rounds :: "u8 list \<Rightarrow> u32 \<Rightarrow> nat \<Rightarrow> u32 \<Rightarrow> u32 \<times> u32 \<Rightarrow> u32 \<times> u32" where
  "alutech_enc_rounds t k 0 s x = x"
| "alutech_enc_rounds t k (Suc n) s x = alutech_enc_rounds t k n (s + k) (alutech_enc_step t (s + k) x)"

fun alutech_dec_rounds :: "u8 list \<Rightarrow> u32 \<Rightarrow> nat \<Rightarrow> u32 \<Rightarrow> u32 \<times> u32 \<Rightarrow> u32 \<times> u32" where
  "alutech_dec_rounds t k 0 s x = x"
| "alutech_dec_rounds t k (Suc n) s x = alutech_dec_rounds t k n (s - k) (alutech_dec_step t s x)"

lemma alutech_enc_last:
  "alutech_enc_rounds t k (Suc n) s x = alutech_enc_step t (s + of_nat (Suc n) * k) (alutech_enc_rounds t k n s x)"
proof (induction n arbitrary: s x)
  case (Suc n)
  have e: "s + k + of_nat (Suc n) * k = s + of_nat (Suc (Suc n)) * k" by (simp add: algebra_simps)
  have "alutech_enc_rounds t k (Suc (Suc n)) s x = alutech_enc_rounds t k (Suc n) (s + k) (alutech_enc_step t (s + k) x)"
    by (rule alutech_enc_rounds.simps)
  also have "\<dots> = alutech_enc_step t (s + of_nat (Suc (Suc n)) * k) (alutech_enc_rounds t k n (s + k) (alutech_enc_step t (s + k) x))"
    unfolding e [symmetric] by (rule Suc)
  also have "alutech_enc_rounds t k n (s + k) (alutech_enc_step t (s + k) x) = alutech_enc_rounds t k (Suc n) s x"
    by (rule alutech_enc_rounds.simps [symmetric])
  finally show ?case .
qed simp

lemma alutech_rounds_back: "alutech_dec_rounds t k n (s + of_nat n * k) (alutech_enc_rounds t k n s x) = x"
proof (induction n)
  case (Suc n)
  have "s + of_nat (Suc n) * k - k = s + of_nat n * k" by (simp add: algebra_simps)
  then show ?case
    using Suc by (simp only: alutech_dec_rounds.simps alutech_enc_last alutech_step_back)
qed simp

abbreviation alutech_enc_magic :: "u8 list \<Rightarrow> u32 list" where
  "alutech_enc_magic t \<equiv> map (subghz_protocol_alutech_at_4n_get_magic_data_from_buffer t) [6, 4, 5, 1, 2, 0]"

abbreviation alutech_dec_magic :: "u8 list \<Rightarrow> u32 list" where
  "alutech_dec_magic t \<equiv> map (subghz_protocol_alutech_at_4n_get_magic_data_from_buffer t) [0, 1, 2, 3, 4, 5]"

lemma alutech_encrypt_step:
  "alutech_encrypt_loop (alutech_enc_magic t) s a b =
     (let s = s + alutech_magic t 6; x = alutech_enc_step t s (a, b) in
      if s \<noteq> alutech_magic t 0 then alutech_encrypt_loop (alutech_enc_magic t) s (fst x) (snd x) else Some x)"
  by (subst alutech_encrypt_loop.simps) (simp add: alutech_enc_step_def alutech_mix_def Let_def add.commute)

lemma alutech_decrypt_step:
  "alutech_decrypt_loop (alutech_dec_magic t) s a b =
     (let x = alutech_dec_step t s (a, b); s = s + alutech_magic t 3 in
      if s \<noteq> 0 then alutech_decrypt_loop (alutech_dec_magic t) s (fst x) (snd x) else Some x)"
  by (subst alutech_decrypt_loop.simps) (simp add: alutech_dec_step_def alutech_mix_def Let_def)

lemma alutech_encrypt_rounds:
  assumes "s + of_nat (Suc n) * alutech_magic t 6 = alutech_magic t 0"
    "\<And>j. 0 < j \<Longrightarrow> j \<le> n \<Longrightarrow> s + of_nat j * alutech_magic t 6 \<noteq> alutech_magic t 0"
  shows "alutech_encrypt_loop (alutech_enc_magic t) s a b = Some (alutech_enc_rounds t (alutech_magic t 6) (Suc n) s (a, b))"
  using assms
proof (induction n arbitrary: s a b)
  case 0
  then show ?case by (subst alutech_encrypt_step) simp
next
  case (Suc n)
  let ?k = "alutech_magic t 6"
  obtain a' b' where x: "alutech_enc_step t (s + ?k) (a, b) = (a', b')" by fastforce
  have "s + ?k \<noteq> alutech_magic t 0" using Suc.prems(2) [of 1] by simp
  moreover have "alutech_encrypt_loop (alutech_enc_magic t) (s + ?k) a' b' = Some (alutech_enc_rounds t ?k (Suc n) (s + ?k) (a', b'))"
  proof (rule Suc.IH)
    show "s + ?k + of_nat (Suc n) * ?k = alutech_magic t 0" using Suc.prems(1) by (simp add: algebra_simps)
    show "s + ?k + of_nat j * ?k \<noteq> alutech_magic t 0" if "0 < j" "j \<le> n" for j
      using Suc.prems(2) [of "Suc j"] that by (simp add: algebra_simps)
  qed
  ultimately show ?case by (subst alutech_encrypt_step) (simp add: x)
qed

lemma alutech_decrypt_rounds:
  assumes "alutech_magic t 3 = - k" "s = of_nat (Suc n) * k" "\<And>j. 0 < j \<Longrightarrow> j \<le> n \<Longrightarrow> s \<noteq> of_nat j * k"
  shows "alutech_decrypt_loop (alutech_dec_magic t) s a b = Some (alutech_dec_rounds t k (Suc n) s (a, b))"
  using assms(2,3)
proof (induction n arbitrary: s a b)
  case 0
  then show ?case by (subst alutech_decrypt_step) (simp add: assms(1))
next
  case (Suc n)
  obtain a' b' where x: "alutech_dec_step t s (a, b) = (a', b')" by fastforce
  have "s - k \<noteq> 0" using Suc.prems(2) [of 1] by simp
  moreover have "alutech_decrypt_loop (alutech_dec_magic t) (s - k) a' b' = Some (alutech_dec_rounds t k (Suc n) (s - k) (a', b'))"
  proof (rule Suc.IH)
    show "s - k = of_nat (Suc n) * k" using Suc.prems(1) by (simp add: algebra_simps)
    show "s - k \<noteq> of_nat j * k" if "0 < j" "j \<le> n" for j
      using Suc.prems(2) [of "Suc j"] that by (simp add: algebra_simps)
  qed
  ultimately show ?case by (subst alutech_decrypt_step) (simp add: x assms(1))
qed

text \<open>
  What the source relies on of the table: the constants of the two directions are those of one schedule, whose sum meets
  its end after some number \<open>n\<close> of rounds.
\<close>

definition alutech_schedule :: "nat \<Rightarrow> u8 list \<Rightarrow> bool" where
  "alutech_schedule n t \<longleftrightarrow>
     0 < n \<and> alutech_magic t 0 = of_nat n * alutech_magic t 6 \<and> alutech_magic t 3 = - alutech_magic t 6"

lemma alutech_rounds_least:
  assumes "alutech_schedule n t"
  obtains l where "alutech_magic t 0 = of_nat (Suc l) * alutech_magic t 6"
    "\<And>j. 0 < j \<Longrightarrow> j \<le> l \<Longrightarrow> alutech_magic t 0 \<noteq> of_nat j * alutech_magic t 6"
proof -
  let ?P = "\<lambda>j. 0 < j \<and> alutech_magic t 0 = of_nat j * alutech_magic t 6"
  obtain l where l: "?P l" "\<And>j. ?P j \<Longrightarrow> l \<le> j"
    using assms exists_least_iff [of ?P] unfolding alutech_schedule_def by (metis not_le)
  then obtain l' where l': "l = Suc l'" by (cases l) auto
  show thesis
  proof (rule that)
    show "alutech_magic t 0 = of_nat (Suc l') * alutech_magic t 6" using l(1) l' by blast
    show "alutech_magic t 0 \<noteq> of_nat j * alutech_magic t 6" if "0 < j" "j \<le> l'" for j
      using l(2) [of j] that l' by auto
  qed
qed

lemma alutech_decrypt_ends:
  assumes "alutech_schedule n t"
  shows "alutech_decrypt_loop (alutech_dec_magic t) (alutech_magic t 0) a b \<noteq> None"
proof -
  obtain l where l: "alutech_magic t 0 = of_nat (Suc l) * alutech_magic t 6"
    "\<And>j. 0 < j \<Longrightarrow> j \<le> l \<Longrightarrow> alutech_magic t 0 \<noteq> of_nat j * alutech_magic t 6"
    using alutech_rounds_least [OF assms] by blast
  then show ?thesis
    using alutech_decrypt_rounds [of t "alutech_magic t 6" "alutech_magic t 0" l a b] assms by (simp add: alutech_schedule_def)
qed

lemma alutech_loops_back:
  assumes "alutech_schedule n t"
  shows "\<exists>a' b'. alutech_encrypt_loop (alutech_enc_magic t) 0 a b = Some (a', b') \<and>
    alutech_decrypt_loop (alutech_dec_magic t) (alutech_magic t 0) a' b' = Some (a, b)"
proof -
  let ?k = "alutech_magic t 6" and ?m = "alutech_magic t 0"
  obtain l where l: "?m = of_nat (Suc l) * ?k" "\<And>j. 0 < j \<Longrightarrow> j \<le> l \<Longrightarrow> ?m \<noteq> of_nat j * ?k"
    using alutech_rounds_least [OF assms] by blast
  obtain a' b' where e: "alutech_enc_rounds t ?k (Suc l) 0 (a, b) = (a', b')" by fastforce
  have "alutech_encrypt_loop (alutech_enc_magic t) 0 a b = Some (a', b')"
    unfolding e [symmetric] by (rule alutech_encrypt_rounds) (use l in \<open>auto dest: sym\<close>)
  moreover have "alutech_decrypt_loop (alutech_dec_magic t) ?m a' b' = Some (alutech_dec_rounds t ?k (Suc l) ?m (a', b'))"
    by (rule alutech_decrypt_rounds) (use assms l in \<open>auto simp: alutech_schedule_def\<close>)
  moreover have "alutech_dec_rounds t ?k (Suc l) ?m (a', b') = (a, b)"
    using alutech_rounds_back [of t ?k "Suc l" 0 "(a, b)"] l(1) e by simp
  ultimately show ?thesis by simp
qed

lemma be32_back:
  "push_bit 24 (ucast (ucast (drop_bit 24 a) :: u8)) OR push_bit 16 (ucast (ucast (drop_bit 16 a) :: u8)) OR
   push_bit 8 (ucast (ucast (drop_bit 8 a) :: u8)) OR ucast (ucast a :: u8) = (a :: u32)"
proof (rule bit_word_eqI, goal_cases)
  case (1 k)
  then consider "k < 8" | "8 \<le> k \<and> k < 16" | "16 \<le> k \<and> k < 24" | "24 \<le> k \<and> k < 32" by fastforce
  then show ?case
    by cases (auto simp: bit_or_iff bit_push_bit_iff bit_ucast_iff bit_drop_bit_eq)
qed

lemma load_store: "alutech_load (alutech_store (a, b)) = (a, b)"
  using be32_back [of a] be32_back [of b]
  by (simp add: alutech_load_def alutech_store_def Let_def le_bytes_le64 eval_nat_numeral)

lemma be32_bytes:
  fixes p q r s :: u8
  defines "w \<equiv> push_bit 24 (ucast p) OR push_bit 16 (ucast q) OR push_bit 8 (ucast r) OR ucast s :: u32"
  shows "ucast (drop_bit 24 w) = p" "ucast (drop_bit 16 w) = q" "ucast (drop_bit 8 w) = r" "ucast w = s"
  unfolding w_def
  by (rule bit_word_eqI; auto simp: bit_or_iff bit_push_bit_iff bit_ucast_iff bit_drop_bit_eq dest: bit_imp_le_length)+

lemma store_load: "alutech_store (alutech_load d) = d"
proof -
  have "alutech_store (alutech_load d) = le64 [le_bytes d ! 0, le_bytes d ! 1, le_bytes d ! 2, le_bytes d ! 3, le_bytes d ! 4,
      le_bytes d ! 5, le_bytes d ! 6, le_bytes d ! 7]"
    unfolding alutech_load_def alutech_store_def Let_def prod.case be32_bytes by (simp add: numeral_2_eq_2)
  then show ?thesis using eight_bytes [of "le_bytes d"] by simp
qed

theorem alutech_decrypt_encrypt:
  assumes "alutech_schedule n t"
  shows "\<exists>e. subghz_protocol_alutech_at_4n_encrypt d (Some t) = Some e \<and> subghz_protocol_alutech_at_4n_decrypt e (Some t) = Some d"
proof -
  obtain a b where ab: "alutech_load d = (a, b)" by fastforce
  obtain a' b' where l: "alutech_encrypt_loop (alutech_enc_magic t) 0 a b = Some (a', b')"
    "alutech_decrypt_loop (alutech_dec_magic t) (alutech_magic t 0) a' b' = Some (a, b)"
    using alutech_loops_back [OF assms] by blast
  have "subghz_protocol_alutech_at_4n_encrypt d (Some t) = Some (alutech_store (a', b'))"
    unfolding subghz_protocol_alutech_at_4n_encrypt_def option.case Let_def ab prod.case l by simp
  moreover have "alutech_dec_magic t ! 0 = alutech_magic t 0" by simp
  then have "subghz_protocol_alutech_at_4n_decrypt (alutech_store (a', b')) (Some t) = Some (alutech_store (a, b))"
    unfolding subghz_protocol_alutech_at_4n_decrypt_def option.case Let_def load_store prod.case by (simp only: l option.map)
  ultimately show ?thesis using store_load [of d] ab by simp
qed

section \<open>Messages come back\<close>

lemma alutech_message_bits:
  assumes "c \<le> 0xFFFF"
  shows "bit (alutech_message sn c b) k \<longleftrightarrow>
    (if k < 8 then bit b k else if k < 24 then bit c (k - 8) else if k < 56 then bit sn (k - 24)
     else bit (subghz_protocol_alutech_at_4n_decrypt_data_crc (ucast (c AND 0xFF))) (k - 56))"
proof -
  have c: "bit c j \<Longrightarrow> j < 16" for j
    by (rule bit_below [of c 16]) (use assms in \<open>simp_all add: word_le_nat_alt\<close>)
  show ?thesis
    unfolding alutech_message_def
    by (auto simp: bit_or_iff bit_push_bit_iff bit_ucast_iff dest: bit_imp_le_length c)
qed

lemma alutech_message_fields:
  assumes "c \<le> 0xFFFF"
  shows "ucast (alutech_message sn c b) = b" "ucast (ucast (drop_bit 8 (alutech_message sn c b)) :: u16) = c"
    "ucast (drop_bit 24 (alutech_message sn c b)) = sn"
    "ucast (drop_bit 56 (alutech_message sn c b)) =
       subghz_protocol_alutech_at_4n_decrypt_data_crc (ucast (drop_bit 8 (alutech_message sn c b) AND 0xFF))"
proof -
  note bits = alutech_message_bits [OF assms]
  have c: "bit c j \<Longrightarrow> j < 16" for j
    by (rule bit_below [of c 16]) (use assms in \<open>simp_all add: word_le_nat_alt\<close>)
  show "ucast (alutech_message sn c b) = b"
    by (rule bit_word_eqI) (auto simp: bit_ucast_iff bits)
  show "ucast (ucast (drop_bit 8 (alutech_message sn c b)) :: u16) = c"
    by (rule bit_word_eqI) (auto simp: bit_ucast_iff bit_drop_bit_eq bits dest: c)
  show "ucast (drop_bit 24 (alutech_message sn c b)) = sn"
    by (rule bit_word_eqI) (auto simp: bit_ucast_iff bit_drop_bit_eq bits)
  have m: "(0xFF :: u64) = mask 8" "(0xFF :: u32) = mask 8" by (simp_all add: mask_eq_exp_minus_1)
  have "ucast (drop_bit 8 (alutech_message sn c b) AND 0xFF) = (ucast (c AND 0xFF) :: u8)"
    unfolding m by (rule bit_word_eqI) (auto simp: bit_ucast_iff bit_drop_bit_eq bit_and_iff bit_mask_iff bits)
  moreover have "ucast (drop_bit 56 (alutech_message sn c b)) = subghz_protocol_alutech_at_4n_decrypt_data_crc (ucast (c AND 0xFF))"
    by (rule bit_word_eqI) (auto simp: bit_ucast_iff bit_drop_bit_eq bits)
  ultimately show "ucast (drop_bit 56 (alutech_message sn c b)) =
       subghz_protocol_alutech_at_4n_decrypt_data_crc (ucast (drop_bit 8 (alutech_message sn c b) AND 0xFF))" by simp
qed

lemma override_small:
  assumes "cnt_length_bit global \<le> 16" "subghz_block_generic_global_counter_override_get c global = (True, c', global')"
  shows "c' \<le> 0xFFFF"
proof -
  have l: "unat (cnt_length_bit global) \<le> 16" using assms(1) by (simp add: word_le_nat_alt)
  have m: "(0xFFFFFFFF :: u32) = mask 32" by (simp add: mask_eq_exp_minus_1)
  have "c' = new_cnt global AND drop_bit (32 - unat (cnt_length_bit global)) (mask 32)"
    using assms(2) unfolding m [symmetric] by (simp add: subghz_block_generic_global_counter_override_get_def split: if_splits)
  then have "bit c' k \<Longrightarrow> k < 16" for k using l by (auto simp: bit_and_iff bit_drop_bit_eq bit_mask_iff)
  then have "c' = take_bit 16 c'" by (intro bit_word_eqI) (auto simp: bit_take_bit_iff)
  then have "unat c' = take_bit 16 (unat c')" by (metis unsigned_take_bit_eq)
  then have "unat c' < 2 ^ 16" using take_bit_nat_less_exp by metis
  then show ?thesis by (simp add: word_le_nat_alt)
qed

lemma ofex_small: "ofex_cnt_16 c \<le> 0xFFFF"
proof (cases "c = 0")
  case False
  then have "1 \<le> c" by (simp add: word_le_nat_alt word_neq_0_conv word_less_nat_alt)
  then show ?thesis by (cases "c = 0xFFFE") (auto simp: ofex_cnt_16_def)
qed (simp add: ofex_cnt_16_def)

lemma mode_0_small:
  assumes "cnt_length_bit global \<le> 16" "mode_0_cnt_16 mult bypass global c = (c', gl, by')"
  shows "c' \<le> 0xFFFF"
proof (cases "mult \<noteq> rolling_mult_ofex \<or> bypass")
  case True
  obtain ok c1 g1 where o: "subghz_block_generic_global_counter_override_get c global = (ok, c1, g1)" by (metis surj_pair)
  then show ?thesis
    using True assms override_small [OF assms(1), of c c1 g1]
    by (cases ok) (auto simp: mode_0_cnt_16_def standard_cnt_16_def not_less split: if_splits)
next
  case False
  then show ?thesis using assms(2) ofex_small [of c] by (simp add: mode_0_cnt_16_def)
qed

lemma alutech_cnt_small:
  assumes "cnt_length_bit global \<le> 16" "alutech_at_4n_next_cnt mode mult bypass global c = (c', gl, by')"
  shows "c' \<le> 0xFFFF"
proof -
  have "c + 1 \<le> 0xFFFF" if "\<not> 5 \<le> c"
  proof -
    have "unat c < 5" using that by (simp add: not_le word_less_nat_alt)
    then show ?thesis by (simp add: word_le_nat_alt unat_word_ariths)
  qed
  then show ?thesis
    using assms mode_0_small [of global mult] ofex_small
    by (auto simp: alutech_at_4n_next_cnt_def Let_def split: if_splits)
qed

lemma reverse_64: "subghz_protocol_blocks_reverse_key (subghz_protocol_blocks_reverse_key d 64) 64 = d"
  by (rule bit_word_eqI) (auto simp: bit_reverse_key)

lemma reverse_8: "ucast (subghz_protocol_blocks_reverse_key (ucast (ucast (ucast (subghz_protocol_blocks_reverse_key (ucast x) 8) :: u32) :: u8)) 8) = (x :: u8)"
  by (rule bit_word_eqI) (auto simp: bit_reverse_key bit_ucast_iff)

text \<open>
  An Alutech AT-4N message comes back: with a table that is one schedule, whatever the stored key, the
  counter mode and the settings, the next message is made (both loops of the cipher end) and reading its key and checksum
  gives the serial number and the counter it was made with and the button that was sent; the counter stays within 16 bits.
\<close>

theorem alutech_message_back:
  assumes "alutech_schedule n t" "cnt_length_bit global \<le> 16"
  shows "\<exists>inst' env' r cb'.
    subghz_protocol_alutech_at_4n_gen_data mode mult (Some t) (bypass, global) inst b = Some (inst', env') \<and>
    subghz_protocol_alutech_at_4n_remote_controller cb (g\<lparr>data := data (generic inst')\<rparr>) (ucast (crc inst')) (Some t) = Some (r, cb') \<and>
    serial r = serial (generic inst') \<and> cnt r = cnt (generic inst') \<and> btn r = b \<and> cnt r \<le> 0xFFFF"
proof -
  obtain d where d: "subghz_protocol_alutech_at_4n_decrypt (subghz_protocol_blocks_reverse_key (data (generic inst)) 64) (Some t) = Some d"
  proof -
    obtain a b where "alutech_load (subghz_protocol_blocks_reverse_key (data (generic inst)) 64) = (a, b)" by fastforce
    then show thesis
      using alutech_decrypt_ends [OF assms(1), of a b] that by (auto simp: subghz_protocol_alutech_at_4n_decrypt_def)
  qed
  define g1 where "g1 = (if ucast (drop_bit 56 d) = subghz_protocol_alutech_at_4n_decrypt_data_crc (ucast (drop_bit 8 d AND 0xFF))
      then (generic inst)\<lparr>btn := ucast d, cnt := ucast (ucast (drop_bit 8 d) :: u16), serial := ucast (drop_bit 24 d)\<rparr> else generic inst)"
  obtain c gl by' where c: "alutech_at_4n_next_cnt mode mult bypass global (cnt g1) = (c, gl, by')" by (metis surj_pair)
  have small: "c \<le> 0xFFFF" by (rule alutech_cnt_small [OF assms(2) c])
  let ?m = "alutech_message (serial g1) c b"
  obtain e where e: "subghz_protocol_alutech_at_4n_encrypt ?m (Some t) = Some e" "subghz_protocol_alutech_at_4n_decrypt e (Some t) = Some ?m"
    using alutech_decrypt_encrypt [OF assms(1)] by blast
  define inst' where "inst' = \<lparr>generic = g1\<lparr>cnt := c, data := subghz_protocol_blocks_reverse_key e 64\<rparr>,
      crc = ucast (subghz_protocol_blocks_reverse_key (ucast (subghz_protocol_alutech_at_4n_crc e)) 8)\<rparr>"
  have gen: "subghz_protocol_alutech_at_4n_gen_data mode mult (Some t) (bypass, global) inst b = Some (inst', by', gl)"
    unfolding subghz_protocol_alutech_at_4n_gen_data_def prod.case d option.case Let_def g1_def [symmetric] c
    using e(1) by (simp add: inst'_def)
  note f = alutech_message_fields [OF small, of "serial g1" b]
  let ?r = "g\<lparr>data := data (generic inst'), btn := b, cnt := c, serial := serial g1\<rparr>"
  have x: "ucast (subghz_protocol_blocks_reverse_key (ucast (ucast (crc inst') :: u8)) 8) = subghz_protocol_alutech_at_4n_crc e"
    unfolding inst'_def by (simp add: reverse_8)
  have d': "subghz_protocol_blocks_reverse_key (data (g\<lparr>data := data (generic inst')\<rparr>)) 64 = e"
    by (simp add: inst'_def reverse_64)
  have "\<exists>cb'. subghz_protocol_alutech_at_4n_remote_controller cb (g\<lparr>data := data (generic inst')\<rparr>) (ucast (crc inst')) (Some t) = Some (?r, cb')"
    unfolding subghz_protocol_alutech_at_4n_remote_controller_def Let_def x d' using f e(2) by simp
  then obtain cb' where "subghz_protocol_alutech_at_4n_remote_controller cb (g\<lparr>data := data (generic inst')\<rparr>) (ucast (crc inst')) (Some t) = Some (?r, cb')" ..
  then show ?thesis
    using gen small by (intro exI conjI) (assumption | simp add: inst'_def)+
qed

text \<open>A table of the kind: the schedule of TEA, which adds \<open>0x9E3779B9\<close> for 32 rounds.\<close>

definition alutech_tea_table :: "u8 list" where
  "alutech_tea_table = [0xC6, 0xEF, 0x37, 0x20, 1, 2, 3, 4, 5, 6, 7, 8, 0x61, 0xC8, 0x86, 0x47, 9, 10, 11, 12, 13, 14, 15, 16,
     0x9E, 0x37, 0x79, 0xB9, 0, 0, 0, 0]"

lemma alutech_tea_schedule: "alutech_schedule 32 alutech_tea_table"
  by code_simp

theorem alutech_message_back_witness:
  "\<exists>inst' env' r cb'.
    subghz_protocol_alutech_at_4n_gen_data 0 1 (Some alutech_tea_table) (False,
      \<lparr>current_cnt = 0, new_cnt = 0, cnt_need_override = False, cnt_length_bit = 16, cnt_is_available = False, current_btn = 0,
        new_btn = 0, btn_need_override = False, btn_length_bit = 8, btn_is_available = False, endless_tx = False\<rparr>)
      \<lparr>generic = generic_zero ''Alutech AT-4N'', crc = 0\<rparr> 0x22 = Some (inst', env') \<and>
    subghz_protocol_alutech_at_4n_remote_controller custom_btn_init ((generic_zero ''Alutech AT-4N'')\<lparr>data := data (generic inst')\<rparr>)
      (ucast (crc inst')) (Some alutech_tea_table) = Some (r, cb') \<and>
    serial r = serial (generic inst') \<and> cnt r = cnt (generic inst') \<and> btn r = 0x22 \<and> cnt r \<le> 0xFFFF"
  by (rule alutech_message_back [OF alutech_tea_schedule]) simp

end
