(* ===== verification/Spec2Isabelle.thy ===== *)
theory Spec2Isabelle
  imports Keeloq_Common Subghz_Properties Bit_Lib Bit_Buffer_Parity Nfc_Crc Infrared_Decoder_Safety
    Datetime Toolbox_Numbers Toolbox_Hex Lfrfid_Em4100_Signal Mf_Classic_Listener_Access
    Subghz_Secplus_V2_Roundtrip Subghz_Came_Atomo_Link Subghz_Phoenix_V2 Subghz_Nice_Flor_S Subghz_Alutech
begin

text \<open>
  \<^bold>\<open>The program.\<close> The Unleashed firmware of the Flipper Zero receives and sends radio, infrared and card signals.
  Its own logic is in \<^verbatim>\<open>src/lib\<close>: codecs turn sequences of signal levels and durations into keys and messages and
  back, over a common layer of bit, checksum and buffer helpers. Applications, services, drivers and vendored libraries
  (\<^verbatim>\<open>src/applications\<close>, \<^verbatim>\<open>src/furi\<close>, \<^verbatim>\<open>src/targets\<close>, \<^verbatim>\<open>src/lib/fatfs\<close> and others) are the environment of these
  codecs: they deliver edges to a decoder and fetch edges from an encoder. The development models the codecs and their
  helper layers; edges are the inputs and outputs of the model.

  \<^bold>\<open>Conventions.\<close> C integers are machine words of their width (\<open>u8\<close>, \<open>u16\<close>, \<open>u32\<close>, \<open>u64\<close>), so that addition and
  multiplication wrap; sizes and indices that cannot wrap in the modelled code are natural numbers. Structures are records with
  the source's fields, enumerations are datatypes or the numbers of the source. Code that checks its arguments or
  works on allocated memory returns \<open>'a checked\<close> (theory Checked_Memory): a failed \<open>furi_check\<close> and an access outside a block
  are different error values. Loops are structural recursion, folds, or functions with a termination measure; loops
  that may not end are partial functions into option: the infrared decoder loop \<open>while(1)\<close>, for which that it returns is a
  theorem; the parity writer of \<^verbatim>\<open>bit_lib.c\<close>, which does not end for a parity length below two; and the cipher loops of Alutech,
  whose end depends on a table read from storage. No model uses fuel. C shifts by
  the operand width or more are undefined and outside the properties; signed products that overflow are taken modulo \<open>2 ^ 32\<close> and
  this is said where it occurs.

  \<^bold>\<open>Theories and sources.\<close>
  \<^item> Firmware_Prelude: integer types, the macros of \<^verbatim>\<open>lib/subghz/blocks/math.h\<close>, generic lemmas on words, bits and folds.
  \<^item> Subghz_Math: \<^verbatim>\<open>lib/subghz/blocks/math.c\<close>, every function. A locale of byte-wise checksums gives, once, that a
    single changed byte changes the checksum; it is interpreted for the four CRC routines.
  \<^item> Keeloq_Common: \<^verbatim>\<open>lib/subghz/protocols/keeloq_common.c\<close>: the block cipher, its variants and the learning modes.
  \<^item> Subghz_Blocks, Subghz_Common: \<^verbatim>\<open>lib/subghz/blocks\<close> (\<^verbatim>\<open>decoder.c\<close>, \<^verbatim>\<open>encoder.c\<close>, \<^verbatim>\<open>generic.c\<close>, \<^verbatim>\<open>custom_btn.c\<close>) and
    \<^verbatim>\<open>lib/subghz/protocols/common.c\<close>: bit accumulation, bit arrays, run-length upload, transmission state. A locale states what a
    bit-wise protocol must do with the header, the bits and the gap of a frame and derives that \<open>k + 1\<close> frames give exactly \<open>k\<close>
    callbacks with the key; Subghz_Header_Protocols (GateTX, Nice FLO) and Subghz_Came (CAME) interpret it on the state machines
    of \<^verbatim>\<open>gate_tx.c\<close>, \<^verbatim>\<open>nice_flo.c\<close> and \<^verbatim>\<open>came.c\<close>. Subghz_Properties holds the properties of the shared blocks.
  \<^item> Subghz_Rolling_Code: the bytes of a key, the counter steps that rolling-code protocols repeat, and a locale for decoders
    that hear a Manchester-coded line. Subghz_Came_Atomo and Subghz_Came_Atomo_Link (\<^verbatim>\<open>came_atomo.c\<close>) interpret it; Subghz_Phoenix_V2
    (\<^verbatim>\<open>phoenix_v2.c\<close>) interprets the header locale. Subghz_Nice_Flor_S (\<^verbatim>\<open>nice_flor_s.c\<close>), Subghz_Alutech
    (\<^verbatim>\<open>alutech_at_4n.c\<close>), Subghz_Secplus_V2 and Subghz_Secplus_V2_Roundtrip (\<^verbatim>\<open>secplus_v2.c\<close>) model ciphers and messages in both
    directions, not the signal. The tables of Nice FLOR-S and Alutech are read from storage: they are arguments.
  \<^item> Toolbox_Manchester: \<^verbatim>\<open>lib/toolbox/manchester_encoder.c\<close> and \<^verbatim>\<open>manchester_decoder.c\<close>; Lfrfid_Em4100 and Lfrfid_Em4100_Signal:
    \<^verbatim>\<open>lib/lfrfid/protocols/protocol_em4100.c\<close>, frame codec, reader, emulator and card writing at the three clocks.
  \<^item> Checked_Memory: results of code that checks its arguments, blocks of memory and their reads and writes.
  \<^item> Bit_Lib: \<^verbatim>\<open>lib/bit_lib/bit_lib.c\<close>, with the lengths of the parity routines as the \<^verbatim>\<open>uint8_t\<close> they are; Bit_Buffer and
    Bit_Buffer_Parity: \<^verbatim>\<open>lib/toolbox/bit_buffer.c\<close>, with memory safety of every sequence of operations and the refinement to lists
    of bytes. The position counter of the parity writer is \<^verbatim>\<open>uint16_t\<close>, so its stream comes back for 1 to 7281 bytes.
  \<^item> Nfc_Crc: \<^verbatim>\<open>lib/nfc/helpers/iso14443_crc.c\<close>, \<^verbatim>\<open>iso13239_crc.c\<close>, \<^verbatim>\<open>felica_crc.c\<close> and \<^verbatim>\<open>lib/one_wire/maxim_crc.c\<close>. A locale of
    frame checksums gives round trip and detection; it is interpreted for the three codecs.
  \<^item> Nfc_Crypto1 and Nfc_Crypto1_Frames: \<^verbatim>\<open>lib/nfc/helpers/crypto1.c\<close> and the parities of \<^verbatim>\<open>nfc_util.c\<close>: the stream cipher, its
    rollback and encrypted frames.
  \<^item> Mf_Classic: \<^verbatim>\<open>lib/nfc/protocols/mf_classic/mf_classic.c\<close> with \<^verbatim>\<open>iso14443_3a.c\<close>: the card image. Mf_Classic_Listener:
    \<^verbatim>\<open>mf_classic_listener.c\<close>, every handler of the emulated card; Mf_Classic_Listener_Safety, Mf_Classic_Listener_Auth
    and Mf_Classic_Listener_Access prove that it never
    halts except on one kind of frame, the authentication against the reader, and what reads, writes and value commands do.
  \<^item> Infrared_Common: \<^verbatim>\<open>lib/infrared/encoder_decoder/common\<close>; Infrared_Pdwm: transmission of a payload by pulse distance, proved once in
    a locale; Infrared_Protocols: the protocol directories \<^verbatim>\<open>nec\<close>, \<^verbatim>\<open>samsung\<close>, \<^verbatim>\<open>rca\<close>, \<^verbatim>\<open>kaseikyo\<close>, \<^verbatim>\<open>pioneer\<close>, \<^verbatim>\<open>sirc\<close>, \<^verbatim>\<open>rc5\<close>,
    \<^verbatim>\<open>rc6\<close>; Infrared_Transmission: messages of the pulse distance protocols; Infrared_Handler: \<^verbatim>\<open>infrared.c\<close>, encoder handler invariant
    and message round trip, in which a NECext or NEC42ext message with complementary halves is reported as NEC or NEC42;
    Infrared_Decoder_Safety: the decoder invariant, interpreted for seven protocols, and the failure of the eighth.
  \<^item> Datetime: \<^verbatim>\<open>lib/datetime/datetime.c\<close>; Toolbox_Numbers: \<^verbatim>\<open>lib/toolbox/varint.c\<close> and \<^verbatim>\<open>strint.c\<close>; Toolbox_Hex: \<^verbatim>\<open>lib/toolbox/hex.c\<close>.

  \<^bold>\<open>What the lemmas show.\<close> Ciphers, number codecs, hexadecimal text, dates and bit arrays come back unchanged; messages travel through encoder
  and decoder exactly once, rolling codes with their serial number, button and counter; the emulated card authenticates exactly the
  readers that know the key and reads and writes what its access bits permit; checksums detect a changed byte and agree with their
  textbook registers; buffers stay within
  their blocks under every sequence of operations; the infrared decoders return on every input without a fault, except
  one, for which the failing input is given; the encoder handler keeps its invariant; a transmission repeats its frame as
  often as it should and stops.

  \<^bold>\<open>Not modelled.\<close> Threads, timers, radio and card front ends, storage and file formats (so also saving and loading keys), the user
  interface and vendored code: they are input and output, or third-party. The text that protocols
  display is left out too. The NFC pollers and the other card types, the remaining sub-GHz protocols and
  the remaining LF RFID protocols are not modelled.
\<close>

end
